(* ===== verification/Prelude.thy ===== *)
theory Prelude
  imports Main "HOL-Library.Word" "HOL-Library.Monad_Syntax"
begin

text \<open>
  What every component shares: Rust's fixed-width integers as HOL words with the checked,
  overflowing and saturating operations of the standard library, the encoding of a trap
  (a panic, a failed \<open>expect\<close> or a failed \<open>assert!\<close>), and the generic lemmas the
  component proofs rest on.

  A trap aborts the whole message and the Internet Computer rolls its effects back, so a
  trapping computation is an \<open>option\<close>: \<open>None\<close> is the trap and \<open>Some\<close> carries
  the result together with the new state. A Rust \<open>Result<T, E>\<close> is the sum
  \<open>'e + 't\<close> with the error on the left.
\<close>

named_theorems trap_simps \<open>unfolding rules for the trapping operations\<close>
named_theorems nat_simps \<open>transport from machine integers to natural numbers\<close>

type_synonym u8 = "8 word"
type_synonym u16 = "16 word"
type_synonym u32 = "32 word"
type_synonym u64 = "64 word"
type_synonym u128 = "128 word"

section \<open>Rust integer operations\<close>

definition checked_add :: "'a::len word \<Rightarrow> 'a word \<Rightarrow> 'a word option" where
  "checked_add a b = (if unat a + unat b < 2 ^ LENGTH('a) then Some (a + b) else None)"

definition checked_sub :: "'a::len word \<Rightarrow> 'a word \<Rightarrow> 'a word option" where
  "checked_sub a b = (if b \<le> a then Some (a - b) else None)"

definition checked_mul :: "'a::len word \<Rightarrow> 'a word \<Rightarrow> 'a word option" where
  "checked_mul a b = (if unat a * unat b < 2 ^ LENGTH('a) then Some (a * b) else None)"

definition overflowing_add :: "'a::len word \<Rightarrow> 'a word \<Rightarrow> 'a word \<times> bool" where
  "overflowing_add a b = (a + b, 2 ^ LENGTH('a) \<le> unat a + unat b)"

definition overflowing_sub :: "'a::len word \<Rightarrow> 'a word \<Rightarrow> 'a word \<times> bool" where
  "overflowing_sub a b = (a - b, a < b)"

definition saturating_sub :: "'a::len word \<Rightarrow> 'a word \<Rightarrow> 'a word" where
  "saturating_sub a b = (if b \<le> a then a - b else 0)"

definition checked_pow :: "'a::len word \<Rightarrow> nat \<Rightarrow> 'a word option" where
  "checked_pow a n = (if unat a ^ n < 2 ^ LENGTH('a) then Some (a ^ n) else None)"

definition div_ceil :: "'a::len word \<Rightarrow> 'a word \<Rightarrow> 'a word" where
  "div_ceil a b = (if a mod b \<noteq> 0 then a div b + 1 else a div b)"

text \<open>\<open>assert!\<close>: carry on or trap.\<close>

definition ensure :: "bool \<Rightarrow> unit option" where
  "ensure b = (if b then Some () else None)"

section \<open>Traps\<close>

lemma ensure_bind [trap_simps]:
  "(ensure b \<bind> f) = Some x \<longleftrightarrow> b \<and> f () = Some x"
  by (simp add: ensure_def)

lemma ensure_eq_Some [simp]: "ensure b = Some u \<longleftrightarrow> b"
  by (simp add: ensure_def)

lemma ensure_True [simp]: "ensure True = Some ()"
  by (simp add: ensure_def)

lemmas bind_Some_conv [trap_simps] = Option.bind_eq_Some_conv

lemma bind_SomeI: "m = Some a \<Longrightarrow> f a = Some b \<Longrightarrow> (m \<bind> f) = Some b"
  by simp

section \<open>Machine integers as natural numbers\<close>

lemma unat_lt_pow: "unat (a :: 'a::len word) < 2 ^ LENGTH('a)"
  by (fact unsigned_less)

lemma unat_u64_bound: "unat (a :: u64) < 2 ^ 64"
  using unsigned_less [of a, where ?'a = nat] by simp

lemma unat_u128_bound: "unat (a :: u128) < 2 ^ 128"
  using unsigned_less [of a, where ?'a = nat] by simp

lemmas unat_word_bounds = unat_u64_bound [simplified] unat_u128_bound [simplified]

lemma unat_of_nat_small: "n < 2 ^ LENGTH('a) \<Longrightarrow> unat (of_nat n :: 'a::len word) = n"
  by (simp add: unsigned_of_nat take_bit_nat_eq_self)

lemma unat_ucast_small:
  "unat a < 2 ^ LENGTH('b) \<Longrightarrow> unat (ucast (a :: 'a::len word) :: 'b::len word) = unat a"
  by (simp add: unsigned_ucast_eq take_bit_nat_eq_self)

lemma word_eq_iff_unat: "(a :: 'a::len word) = b \<longleftrightarrow> unat a = unat b"
  by (fact word_unat_eq_iff)

lemma unat_add_no_overflow:
  "unat a + unat b < 2 ^ LENGTH('a) \<Longrightarrow> unat (a + b :: 'a::len word) = unat a + unat b"
  using unat_add_lem by blast

lemma unat_mult_no_overflow:
  "unat a * unat b < 2 ^ LENGTH('a) \<Longrightarrow> unat (a * b :: 'a::len word) = unat a * unat b"
  using unat_mult_lem by blast

lemma unat_power_no_overflow:
  "unat a ^ n < 2 ^ LENGTH('a) \<Longrightarrow> unat (a ^ n :: 'a::len word) = unat a ^ n"
proof (induction n)
  case (Suc n)
  show ?case
  proof (cases "unat a = 0")
    case True
    then have "a = 0" by (simp add: unat_eq_0)
    then show ?thesis by simp
  next
    case False
    then have "unat a ^ n \<le> unat a ^ Suc n" by simp
    then have "unat a ^ n < 2 ^ LENGTH('a)" using Suc.prems by (rule le_less_trans)
    with Suc show ?thesis by (simp add: unat_mult_no_overflow)
  qed
qed simp

lemma checked_add_Some [nat_simps]:
  "checked_add a b = Some (c :: 'a::len word) \<longleftrightarrow> unat a + unat b = unat c"
  using unat_lt_pow [of c]
  by (auto simp: checked_add_def unat_add_no_overflow word_eq_iff_unat)

lemma checked_add_None [nat_simps]:
  "checked_add a (b :: 'a::len word) = None \<longleftrightarrow> 2 ^ LENGTH('a) \<le> unat a + unat b"
  by (auto simp: checked_add_def)

lemma checked_sub_Some [nat_simps]:
  "checked_sub a b = Some (c :: 'a::len word) \<longleftrightarrow> unat a = unat b + unat c"
proof
  assume "checked_sub a b = Some c"
  then have "b \<le> a" "c = a - b" by (auto simp: checked_sub_def split: if_splits)
  then show "unat a = unat b + unat c" by (simp add: unat_sub word_le_nat_alt)
next
  assume *: "unat a = unat b + unat c"
  then have "b \<le> a" by (simp add: word_le_nat_alt)
  moreover from * this have "a - b = c" by (simp add: word_eq_iff_unat unat_sub)
  ultimately show "checked_sub a b = Some c" by (simp add: checked_sub_def)
qed

lemma checked_sub_None [nat_simps]:
  "checked_sub a (b :: 'a::len word) = None \<longleftrightarrow> unat a < unat b"
  by (auto simp: checked_sub_def word_le_nat_alt)

lemma checked_mul_Some [nat_simps]:
  "checked_mul a b = Some (c :: 'a::len word) \<longleftrightarrow> unat a * unat b = unat c"
  using unat_lt_pow [of c]
  by (auto simp: checked_mul_def unat_mult_no_overflow word_eq_iff_unat)

lemma checked_mul_None [nat_simps]:
  "checked_mul a (b :: 'a::len word) = None \<longleftrightarrow> 2 ^ LENGTH('a) \<le> unat a * unat b"
  by (auto simp: checked_mul_def)

lemma checked_pow_Some [nat_simps]:
  "checked_pow a n = Some (c :: 'a::len word) \<longleftrightarrow> unat a ^ n = unat c"
  using unat_lt_pow [of c]
  by (auto simp: checked_pow_def unat_power_no_overflow word_eq_iff_unat)

lemma unat_saturating_sub [nat_simps]: "unat (saturating_sub a b) = unat a - unat b"
  by (auto simp: saturating_sub_def unat_sub word_le_nat_alt)

section \<open>Lists and finite sums\<close>

lemma sum_list_map_filter_split:
  "(\<Sum>x\<leftarrow>xs. f x) = (\<Sum>x\<leftarrow>filter P xs. f x) + (\<Sum>x\<leftarrow>filter (\<lambda>x. \<not> P x) xs. f x :: nat)"
  by (induction xs) auto

lemma find_first_split:
  "(\<exists>x \<in> set xs. P x) \<Longrightarrow> \<exists>ys x zs. xs = ys @ x # zs \<and> P x \<and> (\<forall>y \<in> set ys. \<not> P y)"
  by (metis split_list_first_prop)

end
