(* ===== verification/BTree_Map.thy ===== *)
theory BTree_Map
  imports Prelude
begin

text \<open>
  Ordered maps. The sources keep their data in Rust's \<open>BTreeMap\<close> (heap) and in
  \<open>StableBTreeMap\<close> of the crate ic-stable-structures (stable memory). Both are key-value
  maps that iterate in key order. The model is an association list sorted by key; what a
  client may rely on is the locale \<open>ordered_map\<close>, which the list model interprets.

  The laws of lookup hold for every list, so that no client needs the sortedness
  invariant \<open>bt_ok\<close> to reason about contents; \<open>bt_ok\<close> matters for the iteration order.
\<close>

type_synonym ('k, 'v) btree_map = "('k \<times> 'v) list"

definition bt_ok :: "('k::linorder, 'v) btree_map \<Rightarrow> bool" where
  "bt_ok m \<longleftrightarrow> sorted_wrt (<) (map fst m)"

definition bt_get :: "('k, 'v) btree_map \<Rightarrow> 'k \<Rightarrow> 'v option" where
  "bt_get m k = map_of m k"

fun bt_insert :: "'k::linorder \<Rightarrow> 'v \<Rightarrow> ('k, 'v) btree_map \<Rightarrow> ('k, 'v) btree_map" where
  "bt_insert k v [] = [(k, v)]"
| "bt_insert k v (e # m) =
     (if fst e < k then e # bt_insert k v m
      else if fst e = k then (k, v) # m
      else (k, v) # e # m)"

definition bt_remove :: "'k \<Rightarrow> ('k, 'v) btree_map \<Rightarrow> ('k, 'v) btree_map" where
  "bt_remove k m = filter (\<lambda>e. fst e \<noteq> k) m"

definition bt_keys :: "('k, 'v) btree_map \<Rightarrow> 'k list" where
  "bt_keys m = map fst m"

definition bt_values :: "('k, 'v) btree_map \<Rightarrow> 'v list" where
  "bt_values m = map snd m"

definition bt_contains :: "('k, 'v) btree_map \<Rightarrow> 'k \<Rightarrow> bool" where
  "bt_contains m k \<longleftrightarrow> bt_get m k \<noteq> None"

section \<open>The interface\<close>

locale ordered_map =
  fixes get :: "'m \<Rightarrow> 'k::linorder \<Rightarrow> 'v option"
    and put :: "'k \<Rightarrow> 'v \<Rightarrow> 'm \<Rightarrow> 'm"
    and del :: "'k \<Rightarrow> 'm \<Rightarrow> 'm"
    and new :: 'm
  assumes get_new: "get new k = None"
    and get_put: "get (put k v m) k' = (if k' = k then Some v else get m k')"
    and get_del: "get (del k m) k' = (if k' = k then None else get m k')"
    and finite_dom: "finite (dom (get m))"
begin

text \<open>The total of a measure over all the entries of a map.\<close>

definition total :: "('k \<Rightarrow> 'v \<Rightarrow> nat) \<Rightarrow> 'm \<Rightarrow> nat" where
  "total f m = (\<Sum>k \<in> dom (get m). f k (the (get m k)))"

lemma total_new: "total f new = 0"
  by (simp add: total_def get_new dom_def)

lemma dom_put: "dom (get (put k v m)) = insert k (dom (get m))"
  by (auto simp: get_put split: if_splits)

lemma total_put:
  "total f (put k v m) + (case get m k of None \<Rightarrow> 0 | Some w \<Rightarrow> f k w) = total f m + f k v"
proof -
  let ?rest = "\<Sum>j \<in> dom (get m) - {k}. f j (the (get m j))"
  have "total f (put k v m) = f k v + (\<Sum>j \<in> dom (get m) - {k}. f j (the (get (put k v m) j)))"
    unfolding total_def dom_put
    by (simp add: sum.insert_remove finite_dom get_put)
  also have "(\<Sum>j \<in> dom (get m) - {k}. f j (the (get (put k v m) j))) = ?rest"
    by (rule sum.cong) (auto simp: get_put)
  finally have new: "total f (put k v m) = f k v + ?rest" .
  show ?thesis
  proof (cases "get m k")
    case None
    then have "dom (get m) - {k} = dom (get m)" by auto
    then show ?thesis using new None by (simp add: total_def)
  next
    case (Some w)
    then have "k \<in> dom (get m)" by auto
    then have "total f m = f k w + ?rest"
      using Some sum.remove [OF finite_dom, of k m "\<lambda>j. f j (the (get m j))"]
      by (simp add: total_def)
    then show ?thesis using new Some by simp
  qed
qed

lemma total_del:
  "total f (del k m) + (case get m k of None \<Rightarrow> 0 | Some w \<Rightarrow> f k w) = total f m"
proof -
  have dom: "dom (get (del k m)) = dom (get m) - {k}"
    by (auto simp: get_del split: if_splits)
  have rest: "total f (del k m) = (\<Sum>j \<in> dom (get m) - {k}. f j (the (get m j)))"
    unfolding total_def dom by (rule sum.cong) (auto simp: get_del)
  show ?thesis
  proof (cases "get m k")
    case None
    then have "dom (get m) - {k} = dom (get m)" by auto
    then show ?thesis using rest None by (simp add: total_def)
  next
    case (Some w)
    then have "k \<in> dom (get m)" by auto
    then show ?thesis
      using rest Some sum.remove [OF finite_dom, of k m "\<lambda>j. f j (the (get m j))"]
      by (simp add: total_def)
  qed
qed

lemma le_total: "get m k = Some v \<Longrightarrow> f k v \<le> total f m"
proof -
  assume g: "get m k = Some v"
  then have "k \<in> dom (get m)" by auto
  then have "f k (the (get m k)) \<le> total f m"
    unfolding total_def by (rule member_le_sum) (auto simp: finite_dom)
  with g show ?thesis by simp
qed

lemma total_mono: "(\<And>k v. get m k = Some v \<Longrightarrow> f k v \<le> g k v) \<Longrightarrow> total f m \<le> total g m"
  unfolding total_def by (rule sum_mono) auto

lemma total_add: "total (\<lambda>k v. f k v + g k v) m = total f m + total g m"
  by (simp add: total_def sum.distrib)

lemma total_cong:
  "(\<And>k. get m k = get m' k) \<Longrightarrow> total f m = total f m'"
proof -
  assume "\<And>k. get m k = get m' k"
  then have "get m = get m'" by auto
  then show ?thesis by (simp add: total_def)
qed

end

section \<open>The list model\<close>

lemma bt_get_Nil [simp]: "bt_get [] k = None"
  by (simp add: bt_get_def)

lemma bt_get_Cons [simp]: "bt_get (e # m) k = (if fst e = k then Some (snd e) else bt_get m k)"
  by (cases e) (simp add: bt_get_def)

lemma bt_get_insert [simp]: "bt_get (bt_insert k v m) k' = (if k' = k then Some v else bt_get m k')"
  by (induction m) auto

lemma bt_get_remove [simp]: "bt_get (bt_remove k m) k' = (if k' = k then None else bt_get m k')"
  by (induction m) (auto simp: bt_remove_def)

lemma finite_dom_bt_get [simp]: "finite (dom (bt_get m))"
  using finite_dom_map_of [of m] by (simp add: bt_get_def [abs_def])

interpretation bt: ordered_map bt_get bt_insert bt_remove "[]"
  by unfold_locales auto

lemma bt_keys_simps [simp]: "bt_keys [] = []" "bt_keys (e # m) = fst e # bt_keys m"
  by (simp_all add: bt_keys_def)

lemma bt_get_None: "bt_get m k = None \<longleftrightarrow> k \<notin> set (bt_keys m)"
  by (auto simp: bt_get_def bt_keys_def map_of_eq_None_iff)

lemma bt_contains_iff: "bt_contains m k \<longleftrightarrow> k \<in> set (bt_keys m)"
  by (simp add: bt_contains_def bt_get_None)

lemma bt_get_in_set: "bt_get m k = Some v \<Longrightarrow> (k, v) \<in> set m"
  by (simp add: bt_get_def map_of_SomeD)

lemma bt_ok_Nil [simp]: "bt_ok []"
  by (simp add: bt_ok_def)

lemma bt_ok_Cons: "bt_ok (e # m) \<longleftrightarrow> (\<forall>k \<in> set (bt_keys m). fst e < k) \<and> bt_ok m"
  by (auto simp: bt_ok_def bt_keys_def)

lemma bt_ok_append:
  "bt_ok (m @ m') \<longleftrightarrow> bt_ok m \<and> bt_ok m' \<and> (\<forall>k \<in> set (bt_keys m). \<forall>k' \<in> set (bt_keys m'). k < k')"
  by (auto simp: bt_ok_def bt_keys_def sorted_wrt_append)

lemma bt_ok_distinct: "bt_ok m \<Longrightarrow> distinct (bt_keys m)"
  unfolding bt_ok_def bt_keys_def using strict_sorted_iff by blast

lemma bt_ok_get_iff: "bt_ok m \<Longrightarrow> bt_get m k = Some v \<longleftrightarrow> (k, v) \<in> set m"
  using bt_ok_distinct [of m] by (simp add: bt_get_def bt_keys_def map_of_eq_Some_iff)

lemma set_bt_keys_insert [simp]: "set (bt_keys (bt_insert k v m)) = insert k (set (bt_keys m))"
  by (induction m) auto

lemma set_bt_insert_subset: "set (bt_insert k v m) \<subseteq> insert (k, v) (set m)"
  by (induction m) auto

lemma set_bt_insert:
  "bt_ok m \<Longrightarrow> set (bt_insert k v m) = insert (k, v) {e \<in> set m. fst e \<noteq> k}"
  by (induction m) (auto simp: bt_ok_Cons bt_keys_def)

lemma bt_ok_insert [simp]: "bt_ok m \<Longrightarrow> bt_ok (bt_insert k v m)"
  by (induction m) (auto simp: bt_ok_Cons)

lemma bt_ok_filter [simp]: "bt_ok m \<Longrightarrow> bt_ok (filter P m)"
  by (induction m) (auto simp: bt_ok_Cons bt_keys_def)

lemma bt_ok_remove [simp]: "bt_ok m \<Longrightarrow> bt_ok (bt_remove k m)"
  by (simp add: bt_remove_def)

lemma set_bt_remove: "set (bt_remove k m) = {e \<in> set m. fst e \<noteq> k}"
  by (auto simp: bt_remove_def)

lemma set_bt_keys_remove [simp]: "set (bt_keys (bt_remove k m)) = set (bt_keys m) - {k}"
  by (auto simp: bt_remove_def bt_keys_def)

lemma bt_insert_snoc:
  "\<forall>j \<in> set (bt_keys m). j < k \<Longrightarrow> bt_insert k v m = m @ [(k, v)]"
  by (induction m) (auto simp: bt_keys_def)

text \<open>Two ordered maps with the same contents are the same list.\<close>

lemma bt_ok_entries: "bt_ok m \<Longrightarrow> map (\<lambda>k. (k, the (bt_get m k))) (bt_keys m) = m"
proof (induction m)
  case (Cons e m)
  then have "map (\<lambda>k. (k, the (bt_get (e # m) k))) (bt_keys m)
           = map (\<lambda>k. (k, the (bt_get m k))) (bt_keys m)"
    by (intro map_cong) (auto simp: bt_ok_Cons)
  with Cons show ?case by (simp add: bt_ok_Cons)
qed simp

lemma bt_ext:
  assumes "bt_ok m" "bt_ok m'" "\<And>k. bt_get m k = bt_get m' k"
  shows "m = m'"
proof -
  have "set (bt_keys m) = set (bt_keys m')"
    using assms(3) bt_get_None by (metis set_eqI)
  then have "bt_keys m = bt_keys m'"
    using assms(1,2) by (simp add: bt_ok_def bt_keys_def strict_sorted_equal)
  then have "map (\<lambda>k. (k, the (bt_get m k))) (bt_keys m) = map (\<lambda>k. (k, the (bt_get m' k))) (bt_keys m')"
    by (simp add: assms(3))
  then show ?thesis by (simp only: bt_ok_entries [OF assms(1)] bt_ok_entries [OF assms(2)])
qed

lemma bt_eq_of_set:
  assumes "bt_ok m" "bt_ok m'" "set m = set m'"
  shows "m = m'"
proof (rule bt_ext [OF assms(1,2)])
  fix k
  have "bt_get m k = Some v \<longleftrightarrow> bt_get m' k = Some v" for v
    using assms by (simp add: bt_ok_get_iff)
  then show "bt_get m k = bt_get m' k" by (metis option.exhaust)
qed

lemma length_bt_insert_new: "bt_get m k = None \<Longrightarrow> length (bt_insert k v m) = Suc (length m)"
  by (induction m) (auto split: if_splits)

end
