(* ===== verification/Quantity.thy ===== *)
theory Quantity
  imports BTree_Map
begin

unbundle bit_operations_syntax

text \<open>
  The 256-bit \<open>Quantity\<close> of \<open>order/mod.rs\<close>: two 128-bit limbs with schoolbook
  arithmetic. Every operation is translated limb by limb and proved equal to the
  operation on natural numbers below \<open>2 ^ 256\<close>, so that the components above reason about
  numbers and never about limbs.
\<close>

section \<open>Data and operations\<close>

datatype quantity = Quantity (high: u128) (low: u128)

definition quantity_ZERO :: quantity where
  "quantity_ZERO = Quantity 0 0"

definition quantity_MAX :: quantity where
  "quantity_MAX = Quantity (- 1) (- 1)"

definition from_u128 :: "u128 \<Rightarrow> quantity" where
  "from_u128 v = Quantity 0 v"

definition from_u64 :: "u64 \<Rightarrow> quantity" where
  "from_u64 v = Quantity 0 (ucast v)"

definition as_u128 :: "quantity \<Rightarrow> u128 option" where
  "as_u128 q = (if high q = 0 then Some (low q) else None)"

definition is_zero :: "quantity \<Rightarrow> bool" where
  "is_zero q \<longleftrightarrow> high q = 0 \<and> low q = 0"

definition quantity_sub :: "quantity \<Rightarrow> quantity \<Rightarrow> quantity option" where
  "quantity_sub a b =
     (if is_zero b then Some a
      else let (l, borrow) = overflowing_sub (low a) (low b)
           in do {
             h \<leftarrow> checked_add (high b) (of_bool borrow);
             h' \<leftarrow> checked_sub (high a) h;
             Some (Quantity h' l)
           })"

definition quantity_add :: "quantity \<Rightarrow> quantity \<Rightarrow> quantity option" where
  "quantity_add a b =
     (let (l, carry) = overflowing_add (low a) (low b)
      in do {
        h \<leftarrow> checked_add (high a) (high b);
        h' \<leftarrow> checked_add h (of_bool carry);
        Some (Quantity h' l)
      })"

definition checked_mul_u64 :: "quantity \<Rightarrow> u64 \<Rightarrow> quantity option" where
  "checked_mul_u64 q rhs64 =
     (let rhs = ucast rhs64 :: u128;
          low_lo = low q AND 0xFFFFFFFFFFFFFFFF;
          low_hi = drop_bit 64 (low q);
          prod_lo = low_lo * rhs;
          prod_hi = low_hi * rhs;
          (l, carry) = overflowing_add prod_lo (push_bit 64 prod_hi)
      in do {
        h1 \<leftarrow> checked_mul (high q) rhs;
        h2 \<leftarrow> checked_add h1 (drop_bit 64 prod_hi);
        h3 \<leftarrow> checked_add h2 (of_bool carry);
        Some (Quantity h3 l)
      })"

definition checked_shl_64 :: "quantity \<Rightarrow> quantity option" where
  "checked_shl_64 q =
     (if drop_bit 64 (high q) \<noteq> 0 then None
      else Some (Quantity (push_bit 64 (high q) OR drop_bit 64 (low q)) (push_bit 64 (low q))))"

definition checked_mul_u128 :: "quantity \<Rightarrow> u128 \<Rightarrow> quantity option" where
  "checked_mul_u128 q rhs =
     (if unat rhs < 2 ^ 64 then checked_mul_u64 q (ucast rhs)
      else do {
        lo \<leftarrow> checked_mul_u64 q (ucast rhs);
        hi \<leftarrow> checked_mul_u64 q (ucast (drop_bit 64 rhs));
        hi' \<leftarrow> checked_shl_64 hi;
        quantity_add lo hi'
      })"

definition checked_div_rem_u64 :: "quantity \<Rightarrow> u64 \<Rightarrow> (quantity \<times> u64) option" where
  "checked_div_rem_u64 q divisor =
     (if divisor = 0 then None
      else let d = ucast divisor :: u128 in
      if high q = 0 then Some (from_u128 (low q div d), ucast (low q mod d))
      else let q1 = high q div d;
               r1 = high q mod d;
               low_hi = drop_bit 64 (low q);
               low_lo = low q AND 0xFFFFFFFFFFFFFFFF;
               dividend2 = push_bit 64 r1 OR low_hi;
               q2 = dividend2 div d;
               r2 = dividend2 mod d;
               dividend3 = push_bit 64 r2 OR low_lo;
               q3 = dividend3 div d;
               r3 = dividend3 mod d;
               low_out = push_bit 64 q2 OR q3
           in Some (Quantity q1 low_out, ucast r3))"

definition is_multiple_of :: "quantity \<Rightarrow> u64 \<Rightarrow> bool option" where
  "is_multiple_of q lot_size =
     (if high q = 0 then Some (low q mod ucast lot_size = 0)
      else do {
        (_, remainder) \<leftarrow> checked_div_rem_u64 q lot_size;
        Some (remainder = 0)
      })"

text \<open>\<open>Ord for Quantity\<close>: the high limbs decide, then the low limbs (\<open>Ordering::then\<close>).\<close>

datatype ordering = Cmp_Less | Cmp_Equal | Cmp_Greater

definition limb_cmp :: "u128 \<Rightarrow> u128 \<Rightarrow> ordering" where
  "limb_cmp a b = (if a < b then Cmp_Less else if a = b then Cmp_Equal else Cmp_Greater)"

definition quantity_cmp :: "quantity \<Rightarrow> quantity \<Rightarrow> ordering" where
  "quantity_cmp a b =
     (case limb_cmp (high a) (high b) of
        Cmp_Equal \<Rightarrow> limb_cmp (low a) (low b)
      | Cmp_Less \<Rightarrow> Cmp_Less
      | Cmp_Greater \<Rightarrow> Cmp_Greater)"

instantiation quantity :: linorder
begin

definition less_eq_quantity :: "quantity \<Rightarrow> quantity \<Rightarrow> bool" where
  "less_eq_quantity a b \<longleftrightarrow> quantity_cmp a b \<noteq> Cmp_Greater"

definition less_quantity :: "quantity \<Rightarrow> quantity \<Rightarrow> bool" where
  "less_quantity a b \<longleftrightarrow> quantity_cmp a b = Cmp_Less"

lemmas quantity_cmp_defs = less_eq_quantity_def less_quantity_def quantity_cmp_def limb_cmp_def

instance
proof
  fix x y z :: quantity
  show "x < y \<longleftrightarrow> x \<le> y \<and> \<not> y \<le> x"
    by (auto simp: quantity_cmp_defs)
  show "x \<le> x" by (simp add: quantity_cmp_defs)
  show "x \<le> y \<Longrightarrow> y \<le> z \<Longrightarrow> x \<le> z" by (auto simp: quantity_cmp_defs split: if_splits)
  show "x \<le> y \<Longrightarrow> y \<le> x \<Longrightarrow> x = y"
    by (auto simp: quantity_cmp_defs intro: quantity.expand split: if_splits)
  show "x \<le> y \<or> y \<le> x" by (auto simp: quantity_cmp_defs)
qed

end

section \<open>The value of a quantity\<close>

definition q2n :: "quantity \<Rightarrow> nat" where
  "q2n q = unat (high q) * 2 ^ 128 + unat (low q)"

definition n2q :: "nat \<Rightarrow> quantity" where
  "n2q n = Quantity (of_nat (n div 2 ^ 128)) (of_nat (n mod 2 ^ 128))"

lemma limb_eq_iff:
  fixes a a' b b' :: nat
  assumes "b < 2 ^ 128" "b' < 2 ^ 128"
  shows "a * 2 ^ 128 + b = a' * 2 ^ 128 + b' \<longleftrightarrow> a = a' \<and> b = b'"
proof
  assume eq: "a * 2 ^ 128 + b = a' * 2 ^ 128 + b'"
  have "(a * 2 ^ 128 + b) div 2 ^ 128 = a" "(a' * 2 ^ 128 + b') div 2 ^ 128 = a'"
    using assms by simp_all
  with eq show "a = a' \<and> b = b'" by simp
qed simp

lemma q2n_bound: "q2n q < 2 ^ 256"
proof -
  have "unat (high q) * 2 ^ 128 + unat (low q) < (unat (high q) + 1) * 2 ^ 128"
    using unat_u128_bound [of "low q"] by simp
  also have "\<dots> \<le> 2 ^ 128 * 2 ^ 128"
    using unat_u128_bound [of "high q"] by (intro mult_le_mono1) simp
  finally show ?thesis by (simp add: q2n_def)
qed

lemma q2n_inject [simp]: "q2n a = q2n b \<longleftrightarrow> a = b"
  unfolding q2n_def by (subst limb_eq_iff) (auto simp: quantity.expand word_eq_iff_unat unat_word_bounds)

lemma q2n_n2q [simp]: "n < 2 ^ 256 \<Longrightarrow> q2n (n2q n) = n"
proof -
  assume "n < 2 ^ 256"
  then have "n div 2 ^ 128 < 2 ^ 128" by (simp add: less_mult_imp_div_less)
  moreover have "n mod 2 ^ 128 < 2 ^ 128" by simp
  ultimately show ?thesis
    by (simp add: q2n_def n2q_def unat_of_nat_small)
qed

lemma n2q_q2n [simp]: "n2q (q2n q) = q"
  using q2n_n2q [OF q2n_bound, of q] by simp

lemma q2n_le [nat_simps]: "a \<le> b \<longleftrightarrow> q2n a \<le> q2n b"
proof -
  have "q2n a \<le> q2n b \<longleftrightarrow> unat (high a) < unat (high b) \<or>
      unat (high a) = unat (high b) \<and> unat (low a) \<le> unat (low b)"
    unfolding q2n_def using unat_u128_bound [of "low a"] unat_u128_bound [of "low b"] by (auto; linarith)
  then show ?thesis
    by (auto simp: quantity_cmp_defs word_less_nat_alt word_le_nat_alt word_eq_iff_unat)
qed

lemma q2n_less [nat_simps]: "a < b \<longleftrightarrow> q2n a < q2n b"
  by (meson linorder_not_less q2n_le)

lemma quantity_cmp_eq:
  "quantity_cmp a b = (if q2n a < q2n b then Cmp_Less else if q2n a = q2n b then Cmp_Equal else Cmp_Greater)"
proof -
  have "quantity_cmp a b = (if a < b then Cmp_Less else if a = b then Cmp_Equal else Cmp_Greater)"
    by (auto simp: less_quantity_def) (auto simp: quantity_cmp_def limb_cmp_def intro: quantity.expand split: if_splits)
  then show ?thesis by (simp add: q2n_less)
qed

lemma q2n_ZERO [simp]: "q2n quantity_ZERO = 0"
  by (simp add: q2n_def quantity_ZERO_def)

lemma is_zero_iff [nat_simps]: "is_zero q \<longleftrightarrow> q2n q = 0"
  by (simp add: is_zero_def q2n_def unat_eq_0)

lemma q2n_eq_0: "q2n q = 0 \<longleftrightarrow> q = quantity_ZERO"
  using q2n_inject [of q quantity_ZERO] by simp

lemma q2n_from_u128 [simp]: "q2n (from_u128 v) = unat v"
  by (simp add: q2n_def from_u128_def)

lemma unat_ucast_u64 [simp]: "unat (ucast (v :: u64) :: u128) = unat v"
  by (rule unat_ucast_small) (use unat_u64_bound [of v] in simp)

lemma q2n_from_u64 [simp]: "q2n (from_u64 v) = unat v"
  by (simp add: q2n_def from_u64_def)


section \<open>Addition and subtraction\<close>

lemma unat_plus_mod: "unat (a + b :: u128) = (unat a + unat b) mod 2 ^ 128"
  using unat_word_ariths(1) [of a b] by simp

lemma unat_of_bool: "unat (of_bool b :: 'a::len word) = of_bool b"
  by (cases b) simp_all

lemma n2q_eqI: "q2n c = n \<Longrightarrow> n2q n = c"
  using n2q_q2n by blast

lemma overflowing_add_nat:
  assumes "overflowing_add a b = (l :: u128, c)"
  shows "unat a + unat b = unat l + of_bool c * 2 ^ 128"
proof -
  have l: "unat l = (unat a + unat b) mod 2 ^ 128" and c: "c = (2 ^ 128 \<le> unat a + unat b)"
    using assms by (auto simp: overflowing_add_def unat_plus_mod)
  have "unat a + unat b < 2 * 2 ^ 128"
    using unat_u128_bound [of a] unat_u128_bound [of b] by linarith
  then have "(unat a + unat b) mod 2 ^ 128 =
      (if 2 ^ 128 \<le> unat a + unat b then unat a + unat b - 2 ^ 128 else unat a + unat b)"
    by (simp add: mod_if)
  then show ?thesis using l c by auto
qed

lemma quantity_add_eq:
  "quantity_add a b = (if q2n a + q2n b < 2 ^ 256 then Some (n2q (q2n a + q2n b)) else None)"
proof -
  obtain l c where lc: "overflowing_add (low a) (low b) = (l, c)" by fastforce
  let ?h = "unat (high a) + unat (high b) + of_bool c"
  have sum: "q2n a + q2n b = ?h * 2 ^ 128 + unat l"
    using overflowing_add_nat [OF lc] by (simp add: q2n_def)
  have add: "quantity_add a b =
      (if ?h < 2 ^ 128 then Some (Quantity (high a + high b + of_bool c) l) else None)"
    by (auto simp: quantity_add_def lc checked_add_def unat_add_no_overflow unat_of_bool)
  show ?thesis
  proof (cases "?h < 2 ^ 128")
    case True
    have "unat (high a + high b) = unat (high a) + unat (high b)"
      using True by (intro unat_add_no_overflow) simp
    then have "unat (high a + high b + of_bool c) = ?h"
      using True by (subst unat_add_no_overflow) (auto simp: unat_of_bool)
    then have "q2n (Quantity (high a + high b + of_bool c) l) = q2n a + q2n b"
      by (simp add: q2n_def [of "Quantity _ _"] sum)
    then have "n2q (q2n a + q2n b) = Quantity (high a + high b + of_bool c) l"
      "q2n a + q2n b < 2 ^ 256"
      using q2n_bound [of "Quantity (high a + high b + of_bool c) l"] by (simp_all add: n2q_eqI)
    then show ?thesis using add True by simp
  next
    case False
    then have "2 ^ 128 * 2 ^ 128 \<le> ?h * 2 ^ 128" by (intro mult_le_mono1) simp
    then have "\<not> q2n a + q2n b < 2 ^ 256" unfolding sum by simp
    then show ?thesis using add False by simp
  qed
qed

lemma limb_diff:
  fixes ah bh al bl l c :: nat
  assumes "al + c * 2 ^ 128 = bl + l"
  shows "int (ah * 2 ^ 128 + al) - int (bh * 2 ^ 128 + bl) =
    (int ah - int bh - int c) * 2 ^ 128 + int l"
  using arg_cong [OF assms, of int] by (simp add: algebra_simps)

lemma limb_less:
  fixes ah bh al bl l c :: nat
  assumes "al + c * 2 ^ 128 = bl + l" "l < 2 ^ 128" "ah < bh + c"
  shows "ah * 2 ^ 128 + al < bh * 2 ^ 128 + bl"
  using assms by simp

lemma quantity_sub_eq:
  "quantity_sub a b = (if q2n b \<le> q2n a then Some (n2q (q2n a - q2n b)) else None)"
proof (cases "is_zero b")
  case True
  then show ?thesis by (simp add: quantity_sub_def is_zero_iff)
next
  case False
  let ?c = "of_bool (low a < low b) :: nat"
  let ?l = "low a - low b"
  have l: "unat (low a) + ?c * 2 ^ 128 = unat (low b) + unat ?l"
  proof (cases "low b \<le> low a")
    case True
    then show ?thesis by (simp add: unat_sub word_le_nat_alt word_less_nat_alt)
  next
    case False
    then have "unat ?l = unat (low a) + 2 ^ 128 - unat (low b)"
      using unat_sub_if' [of "low a" "low b"] by (simp add: word_le_nat_alt)
    then show ?thesis using False unat_u128_bound [of "low b"] by simp
  qed
  have diff: "int (q2n a) - int (q2n b) =
      (int (unat (high a)) - int (unat (high b)) - int ?c) * 2 ^ 128 + int (unat ?l)"
    unfolding q2n_def by (rule limb_diff [OF l])
  show ?thesis
  proof (cases "unat (high b) + ?c \<le> unat (high a)")
    case True
    then have bc: "unat (high b + of_bool (low a < low b)) = unat (high b) + ?c"
      using unat_u128_bound [of "high a"] by (subst unat_add_no_overflow) (auto simp: unat_of_bool)
    then have sub: "quantity_sub a b = Some (Quantity (high a - (high b + of_bool (low a < low b))) ?l)"
      using True False unat_u128_bound [of "high a"]
      by (auto simp: quantity_sub_def overflowing_sub_def checked_add_def checked_sub_def
          word_le_nat_alt unat_of_bool)
    have "int (q2n (Quantity (high a - (high b + of_bool (low a < low b))) ?l)) =
        int (q2n a) - int (q2n b)"
      unfolding diff using True bc
      by (simp add: q2n_def unat_sub word_le_nat_alt of_nat_diff del: of_nat_unat)
    then have q: "q2n b \<le> q2n a"
      "q2n (Quantity (high a - (high b + of_bool (low a < low b))) ?l) = q2n a - q2n b"
      by linarith+
    then show ?thesis unfolding sub by (simp only: if_True n2q_eqI)
  next
    case ne: False
    have "quantity_sub a b = None"
      using ne False unat_u128_bound [of "high b"]
      by (auto simp: quantity_sub_def overflowing_sub_def checked_add_def checked_sub_def
          word_le_nat_alt unat_of_bool unat_add_no_overflow)
    moreover have "q2n a < q2n b"
      unfolding q2n_def by (rule limb_less [OF l unat_u128_bound]) (use ne in simp)
    ultimately show ?thesis by simp
  qed
qed

lemma quantity_add_Some [nat_simps]: "quantity_add a b = Some c \<longleftrightarrow> q2n a + q2n b = q2n c"
  using q2n_bound [of c] by (auto simp: quantity_add_eq)

lemma quantity_add_None [nat_simps]: "quantity_add a b = None \<longleftrightarrow> 2 ^ 256 \<le> q2n a + q2n b"
  by (auto simp: quantity_add_eq)

lemma quantity_sub_Some [nat_simps]: "quantity_sub a b = Some c \<longleftrightarrow> q2n a = q2n b + q2n c"
proof -
  have "q2n a - q2n b < 2 ^ 256" using q2n_bound [of a] by linarith
  then show ?thesis by (auto simp: quantity_sub_eq intro!: n2q_eqI)
qed

lemma quantity_sub_None [nat_simps]: "quantity_sub a b = None \<longleftrightarrow> q2n a < q2n b"
  by (auto simp: quantity_sub_eq)


section \<open>Multiplication\<close>

lemma and_mask64: "(x :: u128) AND 0xFFFFFFFFFFFFFFFF = take_bit 64 x"
  by (simp add: take_bit_eq_mask mask_eq_exp_minus_1)

lemma unat_low_half [nat_simps]: "unat (take_bit 64 (x :: u128)) = unat x mod 2 ^ 64"
  by (subst unsigned_take_bit_eq) (rule take_bit_eq_mod)

lemma unat_high_half [nat_simps]: "unat (drop_bit 64 (x :: u128)) = unat x div 2 ^ 64"
  by (subst unat_drop_bit_eq) (rule drop_bit_eq_div)

lemma unat_shl64 [nat_simps]: "unat (push_bit 64 (x :: u128)) = (unat x mod 2 ^ 64) * 2 ^ 64"
  using mod_mult_mult2 [of "unat x" "2 ^ 64" "2 ^ 64"]
  by (subst unsigned_push_bit_eq) (simp add: push_bit_eq_mult take_bit_eq_mod)

lemma split_halves_mult: "(x :: nat) * r = (x mod p) * r + (x div p * r) * p"
proof -
  have "x * r = (x div p * p + x mod p) * r" by simp
  then show ?thesis by (simp only: algebra_simps)
qed

lemma mult_lt_pow128: "a < 2 ^ 64 \<Longrightarrow> b < 2 ^ 64 \<Longrightarrow> a * b < (2 ^ 128 :: nat)"
  using mult_strict_mono [of a "2 ^ 64" b "2 ^ 64"] by simp

lemma carry_high_eq:
  fixes q :: quantity and x y :: nat and l :: u128
  assumes "x = y * 2 ^ 128 + unat l"
  shows "x < 2 ^ 256 \<longleftrightarrow> y < 2 ^ 128"
    and "y < 2 ^ 128 \<Longrightarrow> unat h = y \<Longrightarrow> n2q x = Quantity h l"
proof -
  have "y < 2 ^ 128 \<Longrightarrow> x < 2 ^ 256"
    using assms unat_u128_bound [of l] by simp
  moreover have "2 ^ 128 * 2 ^ 128 \<le> y * 2 ^ 128" if "\<not> y < 2 ^ 128"
    using that by (intro mult_le_mono1) simp
  ultimately show "x < 2 ^ 256 \<longleftrightarrow> y < 2 ^ 128" using assms by force
  show "y < 2 ^ 128 \<Longrightarrow> unat h = y \<Longrightarrow> n2q x = Quantity h l"
    using assms by (intro n2q_eqI) (simp add: q2n_def)
qed

lemma carry_high_result:
  assumes x: "x = y * 2 ^ 128 + unat l"
  shows "(if y < 2 ^ 128 then Some (Quantity (of_nat y) l) else None) =
         (if x < 2 ^ 256 then Some (n2q x) else None)"
proof (cases "y < 2 ^ 128")
  case True
  then have "unat (of_nat y :: u128) = y" by (intro unat_of_nat_small) simp
  then have "n2q x = Quantity (of_nat y) l" by (rule carry_high_eq(2) [OF x True])
  then show ?thesis using True carry_high_eq(1) [OF x] by (simp only: if_True)
qed (simp only: carry_high_eq(1) [OF x] if_False)

lemma checked_chain:
  "(do { h1 \<leftarrow> checked_mul a b; h2 \<leftarrow> checked_add h1 c; h3 \<leftarrow> checked_add h2 d; Some (f h3) }) =
   (if unat a * unat b + unat c + unat (d :: 'a::len word) < 2 ^ LENGTH('a)
    then Some (f (of_nat (unat a * unat b + unat c + unat d))) else None)"
  by (auto simp: checked_mul_def checked_add_def unat_mult_no_overflow unat_add_no_overflow)

lemma checked_mul_u64_eq:
  "checked_mul_u64 q r = (if q2n q * unat r < 2 ^ 256 then Some (n2q (q2n q * unat r)) else None)"
proof -
  let ?r = "ucast r :: u128"
  let ?lo = "take_bit 64 (low q)" and ?hi = "drop_bit 64 (low q)"
  have r: "unat ?r = unat r" "unat r < 2 ^ 64" by (rule unat_ucast_u64, rule unat_u64_bound)
  have "unat ?lo < 2 ^ 64" by (simp add: unat_low_half)
  then have plo: "unat (?lo * ?r) = unat ?lo * unat r"
    using mult_lt_pow128 [of "unat ?lo" "unat r"] r by (subst unat_mult_no_overflow) auto
  have "unat ?hi < 2 ^ 64"
    using unat_u128_bound [of "low q"] by (simp add: unat_high_half less_mult_imp_div_less)
  then have phi: "unat (?hi * ?r) = unat ?hi * unat r"
    using mult_lt_pow128 [of "unat ?hi" "unat r"] r by (subst unat_mult_no_overflow) auto
  obtain l c where lc: "overflowing_add (?lo * ?r) (push_bit 64 (?hi * ?r)) = (l, c)" by fastforce
  let ?top = "unat (?hi * ?r) div 2 ^ 64"
  let ?y = "unat (high q) * unat r + ?top + of_bool c"
  have "unat (low q) * unat r = unat (?lo * ?r) + unat (?hi * ?r) * 2 ^ 64"
    unfolding plo phi unat_low_half unat_high_half
    by (rule split_halves_mult)
  also have "\<dots> = unat (?lo * ?r) + unat (push_bit 64 (?hi * ?r)) + ?top * 2 ^ 128"
    unfolding unat_shl64 using split_halves_mult [of "unat (?hi * ?r)" "2 ^ 64" "2 ^ 64"]
    by (simp add: mult.assoc)
  also have "\<dots> = (?top + of_bool c) * 2 ^ 128 + unat l"
    using overflowing_add_nat [OF lc] by simp
  finally have x: "q2n q * unat r = ?y * 2 ^ 128 + unat l"
    by (simp add: q2n_def algebra_simps)
  have m: "checked_mul_u64 q r = do {
        h1 \<leftarrow> checked_mul (high q) ?r;
        h2 \<leftarrow> checked_add h1 (drop_bit 64 (?hi * ?r));
        h3 \<leftarrow> checked_add h2 (of_bool c);
        Some (Quantity h3 l) }"
    by (simp add: checked_mul_u64_def and_mask64 Let_def lc)
  then have m': "checked_mul_u64 q r = (if ?y < 2 ^ 128 then Some (Quantity (of_nat ?y) l) else None)"
    unfolding checked_chain by (simp add: unat_ucast_u64 unat_high_half unat_of_bool)
  show ?thesis unfolding m' by (rule carry_high_result [OF x])
qed

lemma checked_mul_u64_Some [nat_simps]: "checked_mul_u64 a b = Some c \<longleftrightarrow> q2n a * unat b = q2n c"
  using q2n_bound [of c] by (auto simp: checked_mul_u64_eq)

lemma unat_or_disjoint:
  assumes "unat b < 2 ^ 64"
  shows "unat (push_bit 64 (a :: u128) OR b) = (unat a mod 2 ^ 64) * 2 ^ 64 + unat b"
proof -
  have b: "b = take_bit 64 b"
    using assms by (simp add: word_eq_iff_unat unat_low_half)
  have "push_bit 64 a AND take_bit 64 b = 0"
    by (auto simp: bit_eq_iff bit_simps)
  then have or: "push_bit 64 a OR b = push_bit 64 a + b"
    using b disjunctive_add_eq_or [of "push_bit 64 a" b] by metis
  have "(unat a mod 2 ^ 64) * 2 ^ 64 + unat b < 2 ^ 64 * 2 ^ 64"
  proof -
    have "unat a mod 2 ^ 64 + 1 \<le> 2 ^ 64" by (simp add: Suc_leI)
    then have "(unat a mod 2 ^ 64 + 1) * 2 ^ 64 \<le> 2 ^ 64 * 2 ^ 64" by (rule mult_le_mono1)
    then show ?thesis using assms by simp
  qed
  then show ?thesis
    unfolding or by (subst unat_add_no_overflow) (simp_all add: unat_shl64)
qed

lemma checked_shl_64_eq:
  "checked_shl_64 q = (if q2n q * 2 ^ 64 < 2 ^ 256 then Some (n2q (q2n q * 2 ^ 64)) else None)"
proof -
  have lo: "unat (drop_bit 64 (low q)) < 2 ^ 64"
    using unat_u128_bound [of "low q"] by (simp add: unat_high_half less_mult_imp_div_less)
  let ?y = "unat (high q) * 2 ^ 64 + unat (low q) div 2 ^ 64"
  have x: "q2n q * 2 ^ 64 = ?y * 2 ^ 128 + unat (push_bit 64 (low q))"
    unfolding unat_shl64 q2n_def using split_halves_mult [of "unat (low q)" "2 ^ 64" "2 ^ 64"]
    by (simp add: algebra_simps)
  have z: "drop_bit 64 (high q) = 0 \<longleftrightarrow> unat (high q) < 2 ^ 64"
    unfolding word_eq_iff_unat unat_high_half by (simp add: div_eq_0_iff)
  show ?thesis
  proof (cases "unat (high q) < 2 ^ 64")
    case True
    then have h: "unat (push_bit 64 (high q) OR drop_bit 64 (low q)) = ?y"
      using unat_or_disjoint [OF lo, of "high q"] by (simp add: unat_high_half)
    then have "?y < 2 ^ 128"
      using unat_u128_bound [of "push_bit 64 (high q) OR drop_bit 64 (low q)"] by simp
    then show ?thesis
      using True z carry_high_eq [OF x] h by (simp add: checked_shl_64_def)
  next
    case False
    then have "2 ^ 64 * 2 ^ 64 \<le> unat (high q) * 2 ^ 64" by (intro mult_le_mono1) simp
    then have "\<not> ?y < 2 ^ 128" by simp
    then show ?thesis using False z carry_high_eq(1) [OF x] by (simp add: checked_shl_64_def)
  qed
qed

lemma checked_mul_u128_eq:
  "checked_mul_u128 q r = (if q2n q * unat r < 2 ^ 256 then Some (n2q (q2n q * unat r)) else None)"
proof (cases "unat r < 2 ^ 64")
  case True
  then have "unat (ucast r :: u64) = unat r" by (intro unat_ucast_small) simp
  then show ?thesis using True by (simp add: checked_mul_u128_def checked_mul_u64_eq)
next
  case False
  let ?lo = "unat r mod 2 ^ 64" and ?hi = "unat r div 2 ^ 64"
  have lo: "unat (ucast r :: u64) = ?lo"
    by (simp add: unsigned_ucast_eq take_bit_eq_mod)
  have "?hi < 2 ^ 64" using unat_u128_bound [of r] by (simp add: less_mult_imp_div_less)
  then have hi: "unat (ucast (drop_bit 64 r) :: u64) = ?hi"
    by (subst unat_ucast_small) (simp_all add: unat_high_half)
  have x: "q2n q * unat r = q2n q * ?lo + (q2n q * ?hi) * 2 ^ 64"
    using split_halves_mult [of "unat r" "q2n q" "2 ^ 64"] by (simp add: mult.commute)
  have m: "checked_mul_u128 q r = do {
        lo \<leftarrow> checked_mul_u64 q (ucast r);
        hi \<leftarrow> checked_mul_u64 q (ucast (drop_bit 64 r));
        hi' \<leftarrow> checked_shl_64 hi;
        quantity_add lo hi' }"
    using False by (simp add: checked_mul_u128_def)
  show ?thesis
  proof (cases "q2n q * unat r < 2 ^ 256")
    case True
    then have "q2n q * ?lo < 2 ^ 256" "(q2n q * ?hi) * 2 ^ 64 < 2 ^ 256"
      unfolding x by linarith+
    moreover from this have "q2n q * ?hi < 2 ^ 256"
      using le_less_trans [of "q2n q * ?hi" "(q2n q * ?hi) * 2 ^ 64"] by simp
    ultimately show ?thesis
      using True x by (simp add: m checked_mul_u64_eq lo hi checked_shl_64_eq quantity_add_eq)
  next
    case F: False
    have "checked_mul_u128 q r \<noteq> Some c" for c
    proof
      assume "checked_mul_u128 q r = Some c"
      then have "q2n q * ?lo + (q2n q * ?hi) * 2 ^ 64 < 2 ^ 256"
        by (auto simp: m bind_eq_Some_conv checked_mul_u64_eq lo hi checked_shl_64_eq
            quantity_add_eq split: if_splits)
      then show False using F x by simp
    qed
    then show ?thesis using F by auto
  qed
qed


lemma checked_mul_u128_Some [nat_simps]: "checked_mul_u128 a b = Some c \<longleftrightarrow> q2n a * unat b = q2n c"
  using q2n_bound [of c] by (auto simp: checked_mul_u128_eq)

lemma checked_mul_u128_None [nat_simps]: "checked_mul_u128 a b = None \<longleftrightarrow> 2 ^ 256 \<le> q2n a * unat b"
  by (auto simp: checked_mul_u128_eq)

section \<open>Division\<close>

text \<open>Schoolbook long division of a three-digit number in base \<open>p\<close>.\<close>

lemma long_division:
  fixes h a b d p :: nat
  assumes "d \<noteq> 0"
  defines "r1 \<equiv> h mod d"
  defines "r2 \<equiv> (r1 * p + a) mod d"
  shows "(h * p * p + a * p + b) div d = (h div d) * p * p + ((r1 * p + a) div d) * p + (r2 * p + b) div d"
    and "(h * p * p + a * p + b) mod d = (r2 * p + b) mod d"
proof -
  let ?q1 = "h div d" and ?q2 = "(r1 * p + a) div d" and ?q3 = "(r2 * p + b) div d"
  have h: "h = ?q1 * d + r1" and a: "r1 * p + a = ?q2 * d + r2"
    and b: "r2 * p + b = ?q3 * d + (r2 * p + b) mod d"
    by (simp_all add: r1_def r2_def)
  have "h * p * p + a * p + b = ?q1 * d * p * p + (r1 * p + a) * p + b"
    by (subst (1) h) (simp only: algebra_simps)
  also have "\<dots> = ?q1 * d * p * p + ?q2 * d * p + (r2 * p + b)"
    by (subst (1) a) (simp only: algebra_simps)
  also have "\<dots> = (?q1 * p * p + ?q2 * p + ?q3) * d + (r2 * p + b) mod d"
    by (subst (1) b) (simp only: algebra_simps)
  finally have x: "h * p * p + a * p + b = (?q1 * p * p + ?q2 * p + ?q3) * d + (r2 * p + b) mod d" .
  show "(h * p * p + a * p + b) div d = ?q1 * p * p + ?q2 * p + ?q3"
    unfolding x using assms(1) by simp
  show "(h * p * p + a * p + b) mod d = (r2 * p + b) mod d"
    unfolding x by simp
qed

lemma digit_quotient_bound:
  fixes r a d p :: nat
  assumes "r < d" "a < p"
  shows "(r * p + a) div d < p"
proof -
  have "r * p + a < (r + 1) * p" using assms(2) by simp
  also have "\<dots> \<le> d * p" using assms(1) by (intro mult_le_mono1) simp
  finally show ?thesis by (simp add: less_mult_imp_div_less mult.commute)
qed

lemma checked_div_rem_u64_eq:
  assumes d: "divisor \<noteq> 0"
  shows "checked_div_rem_u64 q divisor =
    Some (n2q (q2n q div unat divisor), of_nat (q2n q mod unat divisor))"
proof -
  let ?d = "unat divisor" and ?D = "ucast divisor :: u128"
  let ?p = "2 ^ 64 :: nat"
  have D: "unat ?D = ?d" and d0: "?d \<noteq> 0" and dp: "?d < ?p"
    using d by (simp_all only: unat_ucast_u64 unat_eq_0 unat_u64_bound not_False_eq_True)
  have rem: "ucast r = (of_nat (unat r) :: u64)" if "unat r < ?d" for r :: u128
    using that dp by (simp add: word_eq_iff_unat unat_ucast_small unat_of_nat_small)
  show ?thesis
  proof (cases "high q = 0")
    case True
    then have "q2n q = unat (low q)" by (simp add: q2n_def)
    moreover have "from_u128 (low q div ?D) = n2q (unat (low q) div ?d)"
      by (rule n2q_eqI [symmetric]) (simp add: unat_div D del: unsigned_ucast_eq)
    moreover have "ucast (low q mod ?D) = (of_nat (unat (low q) mod ?d) :: u64)"
      using rem [of "low q mod ?D"] d0 by (simp add: unat_mod D del: unsigned_ucast_eq)
    ultimately show ?thesis using True d by (simp add: checked_div_rem_u64_def Let_def)
  next
    case False
    let ?h = "unat (high q)" and ?a = "unat (low q) div ?p" and ?b = "unat (low q) mod ?p"
    let ?r1 = "high q mod ?D" and ?q1 = "high q div ?D"
    have r1: "unat ?r1 = ?h mod ?d" "?h mod ?d < ?d" using d0 by (simp_all add: unat_mod D)
    have a: "?a < ?p" using unat_u128_bound [of "low q"] by (simp add: less_mult_imp_div_less)
    have b: "?b < ?p" by simp
    let ?n2 = "push_bit 64 ?r1 OR drop_bit 64 (low q)"
    have n2: "unat ?n2 = (?h mod ?d) * ?p + ?a"
      using unat_or_disjoint [of "drop_bit 64 (low q)" ?r1] a r1 dp by (simp add: unat_high_half)
    let ?q2 = "?n2 div ?D" and ?r2 = "?n2 mod ?D"
    have q2: "unat ?q2 = ((?h mod ?d) * ?p + ?a) div ?d" by (simp only: unat_div D n2)
    have r2: "unat ?r2 = ((?h mod ?d) * ?p + ?a) mod ?d" by (simp only: unat_mod D n2)
    have r2d: "unat ?r2 < ?d" unfolding r2 using d0 by simp
    let ?n3 = "push_bit 64 ?r2 OR take_bit 64 (low q)"
    have n3: "unat ?n3 = unat ?r2 * ?p + ?b"
      using unat_or_disjoint [of "take_bit 64 (low q)" ?r2] b r2d dp by (simp add: unat_low_half)
    let ?q3 = "?n3 div ?D" and ?r3 = "?n3 mod ?D"
    have q3: "unat ?q3 = (unat ?r2 * ?p + ?b) div ?d" by (simp only: unat_div D n3)
    have r3: "unat ?r3 = (unat ?r2 * ?p + ?b) mod ?d" by (simp only: unat_mod D n3)
    have q2p: "unat ?q2 < ?p" unfolding q2 by (rule digit_quotient_bound [OF r1(2) a])
    have q3p: "unat ?q3 < ?p" unfolding q3 by (rule digit_quotient_bound [OF r2d b])
    have out: "unat (push_bit 64 ?q2 OR ?q3) = unat ?q2 * ?p + unat ?q3"
      using unat_or_disjoint [of ?q3 ?q2] q2p q3p by simp
    have val: "q2n q = ?h * ?p * ?p + ?a * ?p + ?b"
      using div_mult_mod_eq [of "unat (low q)" ?p] by (simp add: q2n_def)
    note ld = long_division [OF d0, of ?h ?p ?a ?b, folded val r2, folded q2 q3]
    have "q2n (Quantity ?q1 (push_bit 64 ?q2 OR ?q3)) = q2n q div ?d"
      unfolding ld(1) q2n_def [of "Quantity _ _"] by (simp add: out unat_div D)
    then have "n2q (q2n q div ?d) = Quantity ?q1 (push_bit 64 ?q2 OR ?q3)" by (rule n2q_eqI)
    moreover have "ucast ?r3 = (of_nat (q2n q mod ?d) :: u64)"
      using rem [of ?r3] d0 r3 ld(2) by simp
    ultimately show ?thesis
      using False d by (simp add: checked_div_rem_u64_def Let_def and_mask64)
  qed
qed


lemma checked_div_rem_u64_Some:
  assumes "divisor \<noteq> 0" "checked_div_rem_u64 q divisor = Some (d, r)"
  shows "q2n d = q2n q div unat divisor" "unat r = q2n q mod unat divisor"
proof -
  have "q2n q div unat divisor < 2 ^ 256"
    using q2n_bound [of q] by (meson div_le_dividend le_less_trans)
  then show "q2n d = q2n q div unat divisor"
    using assms by (auto simp: checked_div_rem_u64_eq)
  have "unat divisor \<noteq> 0" using assms(1) by (simp add: unat_eq_0)
  then have "q2n q mod unat divisor < 2 ^ 64"
    using unat_u64_bound [of divisor] by (meson less_trans mod_less_divisor neq0_conv)
  then show "unat r = q2n q mod unat divisor"
    using assms by (auto simp: checked_div_rem_u64_eq unat_of_nat_small)
qed

lemma is_multiple_of_eq:
  assumes "lot \<noteq> 0"
  shows "is_multiple_of q lot = Some (unat lot dvd q2n q)"
proof (cases "high q = 0")
  case True
  then show ?thesis
    by (simp add: is_multiple_of_def q2n_def word_eq_iff_unat unat_mod unat_ucast_u64
        dvd_eq_mod_eq_0 del: unsigned_ucast_eq)
next
  case False
  obtain d r where dr: "checked_div_rem_u64 q lot = Some (d, r)"
    using checked_div_rem_u64_eq [OF assms] by blast
  then have "unat r = q2n q mod unat lot" by (rule checked_div_rem_u64_Some(2) [OF assms])
  then show ?thesis
    using False dr by (simp add: is_multiple_of_def word_eq_iff_unat dvd_eq_mod_eq_0)
qed

section \<open>Prices\<close>

text \<open>
  A \<open>Price\<close> is a \<open>u128\<close>: quote units per whole base token. The notional of a quantity is
  \<open>price * quantity / base_scale\<close>; a remainder is a trap, an overflow of the 256-bit
  product is \<open>Some None\<close>.
\<close>

type_synonym price = u128

definition price_is_multiple_of :: "price \<Rightarrow> u128 \<Rightarrow> bool" where
  "price_is_multiple_of p tick = (p mod tick = 0)"

definition price_checked_sub :: "price \<Rightarrow> price \<Rightarrow> price option" where
  "price_checked_sub a b = checked_sub a b"

definition checked_mul_quantity_scaled :: "price \<Rightarrow> quantity \<Rightarrow> u64 \<Rightarrow> quantity option option" where
  "checked_mul_quantity_scaled p q base_scale =
     (case checked_mul_u128 q p of
        None \<Rightarrow> Some None
      | Some product \<Rightarrow>
          (case checked_div_rem_u64 product base_scale of
             None \<Rightarrow> Some None
           | Some (quote, remainder) \<Rightarrow> do {
               ensure (remainder = 0);
               Some (Some quote)
             }))"

lemma price_is_multiple_of_iff: "price_is_multiple_of p tick \<longleftrightarrow> unat tick dvd unat p"
  by (simp add: price_is_multiple_of_def word_eq_iff_unat unat_mod dvd_eq_mod_eq_0)

lemma checked_mul_quantity_scaled_eq:
  assumes "base_scale \<noteq> 0" "unat base_scale dvd unat p * q2n q"
  shows "checked_mul_quantity_scaled p q base_scale =
    Some (if unat p * q2n q < 2 ^ 256 then Some (n2q (unat p * q2n q div unat base_scale)) else None)"
proof (cases "unat p * q2n q < 2 ^ 256")
  case True
  then obtain prod where m: "checked_mul_u128 q p = Some prod" and v: "q2n prod = unat p * q2n q"
    by (simp add: checked_mul_u128_eq mult.commute)
  obtain d r where dr: "checked_div_rem_u64 prod base_scale = Some (d, r)"
    using checked_div_rem_u64_eq [OF assms(1)] by blast
  have "r = 0" using checked_div_rem_u64_Some(2) [OF assms(1) dr] assms(2) v
    by (simp add: word_eq_iff_unat)
  moreover have "n2q (unat p * q2n q div unat base_scale) = d"
    using checked_div_rem_u64_Some(1) [OF assms(1) dr] v by (auto intro: n2q_eqI)
  ultimately show ?thesis using True by (simp add: checked_mul_quantity_scaled_def m dr)
next
  case False
  then show ?thesis
    by (simp add: checked_mul_quantity_scaled_def checked_mul_u128_eq mult.commute)
qed

end
