(* ===== verification/Fees.thy ===== *)
theory Fees
  imports Quantity
begin

text \<open>
  Fee rates in basis points (\<open>order/fees.rs\<close>). The constructor bounds a rate by 10000; the
  fee of an amount is the ceiling of its share, computed without a 256-bit overflow.
\<close>

type_synonym basis_point = u16

datatype invalid_basis_point = OutOfRange u16

definition basis_point_MAX :: basis_point where
  "basis_point_MAX = 10000"

definition basis_point_new :: "u16 \<Rightarrow> invalid_basis_point + basis_point" where
  "basis_point_new v = (if v > basis_point_MAX then Inl (OutOfRange v) else Inr v)"

definition mul_ceil :: "basis_point \<Rightarrow> quantity \<Rightarrow> quantity option" where
  "mul_ceil rate amount =
     (if rate = 0 \<or> amount = quantity_ZERO then Some quantity_ZERO
      else if rate = basis_point_MAX then Some amount
      else let bps = ucast rate :: u64
           in do {
             (q, r) \<leftarrow> checked_div_rem_u64 amount 10000;
             main \<leftarrow> checked_mul_u64 q bps;
             rem_num \<leftarrow> checked_mul r bps;
             let rem_ceil = div_ceil rem_num 10000;
             quantity_add main (from_u64 rem_ceil)
           })"

record fee_rates =
  maker :: basis_point
  taker :: basis_point

text \<open>A rate that the constructor returned.\<close>

definition rate_ok :: "basis_point \<Rightarrow> bool" where
  "rate_ok r \<longleftrightarrow> basis_point_new r = Inr r"

definition fee_rates_ok :: "fee_rates \<Rightarrow> bool" where
  "fee_rates_ok f \<longleftrightarrow> rate_ok (maker f) \<and> rate_ok (taker f)"

text \<open>The reference: the ceiling of \<open>amount * rate / 10000\<close> on numbers.\<close>

definition ceil_share :: "nat \<Rightarrow> nat \<Rightarrow> nat" where
  "ceil_share rate amount = (amount * rate + 9999) div 10000"

lemma rate_ok_iff: "rate_ok r \<longleftrightarrow> unat r \<le> 10000"
  by (simp add: rate_ok_def basis_point_new_def basis_point_MAX_def word_less_nat_alt not_less)

lemma ceil_share_le: "rate \<le> 10000 \<Longrightarrow> ceil_share rate amount \<le> amount"
proof -
  assume "rate \<le> 10000"
  then have "amount * rate + 9999 \<le> amount * 10000 + 9999" by simp
  then have "ceil_share rate amount \<le> (amount * 10000 + 9999) div 10000"
    unfolding ceil_share_def by (rule div_le_mono)
  then show ?thesis by simp
qed

lemma ceil_share_split:
  "(a div 10000) * b + (a mod 10000 * b + 9999) div 10000 = ceil_share b a"
proof -
  have "a * b + 9999 = (a div 10000 * b) * 10000 + (a mod 10000 * b + 9999)"
    using distrib_right [of "a div 10000 * 10000" "a mod 10000" b]
    unfolding div_mult_mod_eq by (simp only: ac_simps)
  then show ?thesis by (simp add: ceil_share_def)
qed

lemma ceil_div_10000: "(n + 9999) div 10000 = (if n mod 10000 = 0 then n div 10000 else n div 10000 + 1)"
  for n :: nat
proof -
  have "n + 9999 = n div 10000 * 10000 + (n mod 10000 + 9999)" by simp
  moreover have "(n div 10000 * 10000 + (n mod 10000 + 9999)) div 10000 = n div 10000 + (n mod 10000 + 9999) div 10000"
    by (rule div_mult_self3) simp
  moreover have "(r + 9999) div 10000 = (if r = 0 then 0 else 1)" if "r < 10000" for r :: nat
    using that by (auto intro: div_nat_eqI)
  ultimately show ?thesis by simp
qed

lemma unat_div_ceil_10000:
  assumes "unat n < 10 ^ 9"
  shows "unat (div_ceil n (10000 :: u64)) = (unat n + 9999) div 10000"
proof -
  have z: "n mod 10000 = 0 \<longleftrightarrow> unat n mod 10000 = 0"
    by (simp add: word_eq_iff_unat unat_mod)
  have "unat (n div 10000 + 1) = unat n div 10000 + 1"
    using assms by (subst unat_add_no_overflow) (simp_all add: unat_div)
  then show ?thesis by (simp add: div_ceil_def z unat_div ceil_div_10000)
qed

lemma n2q_0 [simp]: "n2q 0 = quantity_ZERO"
  by (rule n2q_eqI) simp

theorem mul_ceil_eq:
  assumes "rate_ok rate"
  shows "mul_ceil rate amount = Some (n2q (ceil_share (unat rate) (q2n amount)))"
proof -
  have r: "unat rate \<le> 10000" using assms by (simp add: rate_ok_iff)
  have le: "ceil_share (unat rate) (q2n amount) \<le> q2n amount" by (rule ceil_share_le [OF r])
  consider "rate = 0" | "q2n amount = 0" | "unat rate = 10000" | "rate \<noteq> 0" "unat rate < 10000" "q2n amount \<noteq> 0"
    using r by fastforce
  then show ?thesis
  proof cases
    case 1
    then show ?thesis by (simp add: mul_ceil_def ceil_share_def)
  next
    case 2
    then have "amount = quantity_ZERO" by (simp add: q2n_def quantity_ZERO_def quantity.expand unat_eq_0)
    then show ?thesis using 2 by (simp add: mul_ceil_def ceil_share_def)
  next
    case 3
    then have rm: "rate = basis_point_MAX" by (simp add: basis_point_MAX_def word_eq_iff_unat)
    have "ceil_share 10000 (q2n amount) = q2n amount" by (simp add: ceil_share_def)
    then have "n2q (ceil_share (unat rate) (q2n amount)) = amount" using 3 by (simp add: n2q_eqI)
    then show ?thesis using 3 rm le by (auto simp: mul_ceil_def basis_point_MAX_def quantity_ZERO_def)
  next
    case 4
    let ?b = "ucast rate :: u64"
    have b: "unat ?b = unat rate" by (rule unat_ucast_small) (use 4 in simp)
    obtain q r where qr: "checked_div_rem_u64 amount 10000 = Some (q, r)"
      using checked_div_rem_u64_eq [of 10000 amount] by auto
    have q: "q2n q = q2n amount div 10000" and r: "unat r = q2n amount mod 10000"
      using checked_div_rem_u64_Some [OF _ qr] by simp_all
    have "q2n q * unat rate \<le> ceil_share (unat rate) (q2n amount)"
      unfolding q using ceil_share_split [of "q2n amount" "unat rate"] by linarith
    then have "q2n q * unat ?b < 2 ^ 256"
      using le q2n_bound [of amount] unfolding b by linarith
    then obtain m where m: "checked_mul_u64 q ?b = Some m" "q2n m = q2n q * unat rate"
      by (simp add: checked_mul_u64_eq b)
    have "q2n amount mod 10000 \<le> 9999" using mod_less_divisor [of 10000 "q2n amount"] by linarith
    then have "unat r * unat rate \<le> 9999 * 10000" unfolding r using 4(2) by (intro mult_le_mono) simp_all
    then have rn: "checked_mul r ?b = Some (r * ?b)" "unat (r * ?b) = unat r * unat rate"
      by (simp_all add: checked_mul_def b unat_mult_no_overflow)
    have c: "unat (div_ceil (r * ?b) 10000) = (unat r * unat rate + 9999) div 10000"
      using \<open>unat r * unat rate \<le> _\<close> rn(2) by (subst unat_div_ceil_10000) simp_all
    have sum: "q2n m + unat (div_ceil (r * ?b) 10000) = ceil_share (unat rate) (q2n amount)"
      unfolding m(2) q c r by (rule ceil_share_split)
    then have "quantity_add m (from_u64 (div_ceil (r * ?b) 10000)) = Some (n2q (ceil_share (unat rate) (q2n amount)))"
      using le q2n_bound [of amount] by (simp add: quantity_add_eq)
    moreover have "amount \<noteq> quantity_ZERO" using 4(3) by (auto simp: q2n_def quantity_ZERO_def)
    moreover have "rate \<noteq> basis_point_MAX" using 4(2) by (auto simp: basis_point_MAX_def)
    ultimately show ?thesis
      using 4(1) qr m(1) rn(1) by (simp add: mul_ceil_def Let_def)
  qed
qed

lemma mul_ceil_Some:
  assumes "rate_ok rate" "mul_ceil rate amount = Some fee"
  shows "q2n fee = ceil_share (unat rate) (q2n amount)" "q2n fee \<le> q2n amount"
proof -
  have le: "ceil_share (unat rate) (q2n amount) \<le> q2n amount"
    using assms(1) by (simp add: rate_ok_iff ceil_share_le)
  then show "q2n fee = ceil_share (unat rate) (q2n amount)"
    using assms mul_ceil_eq [OF assms(1), of amount] q2n_bound [of amount] by auto
  with le show "q2n fee \<le> q2n amount" by simp
qed

end
