(* ===== verification/Codec.thy ===== *)
theory Codec
  imports Quantity
begin

text \<open>
  Byte-level encodings: Rust's \<open>to_be_bytes\<close>/\<open>from_be_bytes\<close> of fixed-width integers, the
  32-byte form of a \<open>Quantity\<close>, its conversion from and to an unbounded candid \<open>Nat\<close>, and
  its CBOR form (a plain unsigned integer, or tag 2 with a big-endian byte string), read
  and written as the stream of data items of the CBOR encoder.
\<close>

section \<open>Big-endian bytes\<close>

fun be_bytes :: "nat \<Rightarrow> nat \<Rightarrow> u8 list" where
  "be_bytes 0 x = []"
| "be_bytes (Suc n) x = be_bytes n (x div 256) @ [of_nat (x mod 256)]"

definition be_val :: "u8 list \<Rightarrow> nat" where
  "be_val bs = foldl (\<lambda>acc b. acc * 256 + unat b) 0 bs"

definition to_be_bytes :: "quantity \<Rightarrow> u8 list" where
  "to_be_bytes q = be_bytes 16 (unat (high q)) @ be_bytes 16 (unat (low q))"

definition from_be_bytes :: "u8 list \<Rightarrow> quantity option" where
  "from_be_bytes bytes =
     (if length bytes > 32 then None
      else let buf = replicate (32 - length bytes) 0 @ bytes
           in Some (Quantity (of_nat (be_val (take 16 buf))) (of_nat (be_val (drop 16 buf)))))"

definition to_nat :: "quantity \<Rightarrow> nat" where
  "to_nat q = (if high q = 0 then unat (low q) else be_val (to_be_bytes q))"

datatype quantity_overflow_error = QuantityOverflowError

text \<open>
  \<open>TryFrom<&Nat>\<close>. The big integers come from the crate num-bigint: its \<open>bits\<close> and
  \<open>to_bytes_be\<close> are parameters, with their documented behaviour as the hypothesis
  \<open>biguint_ok\<close> (the number of significant bits, and the shortest big-endian byte string).
\<close>

record biguint_ops =
  bits :: "nat \<Rightarrow> nat"
  to_bytes_be :: "nat \<Rightarrow> u8 list"

definition biguint_ok :: "biguint_ops \<Rightarrow> bool" where
  "biguint_ok big \<longleftrightarrow>
     (\<forall>n k. bits big n \<le> k \<longleftrightarrow> n < 2 ^ k) \<and>
     (\<forall>n. be_val (to_bytes_be big n) = n) \<and>
     (\<forall>n k. 0 < k \<longrightarrow> n < 256 ^ k \<longrightarrow> length (to_bytes_be big n) \<le> k)"

definition quantity_try_from :: "biguint_ops \<Rightarrow> nat \<Rightarrow> quantity_overflow_error + quantity" where
  "quantity_try_from big n =
     (if bits big n > 256 then Inl QuantityOverflowError
      else (case from_be_bytes (to_bytes_be big n) of
              None \<Rightarrow> Inl QuantityOverflowError
            | Some q \<Rightarrow> Inr q))"

section \<open>CBOR\<close>

datatype cbor_item = CborU64 u64 | CborPosBignum | CborOtherTag | CborBytes "u8 list" | CborOther

datatype cbor_error = EndOfInput | TypeMismatch | UnexpectedTag | ExceedsWidth | ExpectedNonZero

definition encode_quantity :: "quantity \<Rightarrow> cbor_item list" where
  "encode_quantity q =
     (if high q = 0 \<and> unat (low q) < 2 ^ 64 then [CborU64 (ucast (low q))]
      else let buf = to_be_bytes q
           in [CborPosBignum, CborBytes (dropWhile (\<lambda>b. b = 0) buf)])"

fun decode_quantity :: "cbor_item list \<Rightarrow> cbor_error + (quantity \<times> cbor_item list)" where
  "decode_quantity [] = Inl EndOfInput"
| "decode_quantity (CborU64 n # rest) = Inr (from_u64 n, rest)"
| "decode_quantity (CborPosBignum # CborBytes bytes # rest) =
     (case from_be_bytes bytes of
        None \<Rightarrow> Inl ExceedsWidth
      | Some q \<Rightarrow> Inr (q, rest))"
| "decode_quantity [CborPosBignum] = Inl EndOfInput"
| "decode_quantity (CborPosBignum # _ # _) = Inl TypeMismatch"
| "decode_quantity (CborBytes _ # _) = Inl TypeMismatch"
| "decode_quantity (CborOther # _) = Inl TypeMismatch"
| "decode_quantity (CborOtherTag # _) = Inl UnexpectedTag"

text \<open>The codecs of \<open>cbor/mod.rs\<close> that are layered on it.\<close>

definition encode_u128 :: "u128 \<Rightarrow> cbor_item list" where
  "encode_u128 v = encode_quantity (from_u128 v)"

definition decode_u128 :: "cbor_item list \<Rightarrow> cbor_error + (u128 \<times> cbor_item list)" where
  "decode_u128 d =
     (case decode_quantity d of
        Inl e \<Rightarrow> Inl e
      | Inr (q, rest) \<Rightarrow> (case as_u128 q of None \<Rightarrow> Inl ExceedsWidth | Some v \<Rightarrow> Inr (v, rest)))"

definition encode_non_zero_u128 :: "u128 \<Rightarrow> cbor_item list" where
  "encode_non_zero_u128 v = encode_u128 v"

definition decode_non_zero_u128 :: "cbor_item list \<Rightarrow> cbor_error + (u128 \<times> cbor_item list)" where
  "decode_non_zero_u128 d =
     (case decode_u128 d of
        Inl e \<Rightarrow> Inl e
      | Inr (v, rest) \<Rightarrow> if v = 0 then Inl ExpectedNonZero else Inr (v, rest))"

definition encode_non_zero_u64 :: "u64 \<Rightarrow> cbor_item list" where
  "encode_non_zero_u64 v = [CborU64 v]"

fun decode_non_zero_u64 :: "cbor_item list \<Rightarrow> cbor_error + (u64 \<times> cbor_item list)" where
  "decode_non_zero_u64 [] = Inl EndOfInput"
| "decode_non_zero_u64 (CborU64 v # rest) = (if v = 0 then Inl ExpectedNonZero else Inr (v, rest))"
| "decode_non_zero_u64 (_ # _) = Inl TypeMismatch"

section \<open>Round trips\<close>

lemma length_be_bytes [simp]: "length (be_bytes n x) = n"
  by (induction n arbitrary: x) auto

lemma be_val_snoc [simp]: "be_val (bs @ [b]) = be_val bs * 256 + unat b"
  by (simp add: be_val_def)

lemma be_val_Nil [simp]: "be_val [] = 0"
  by (simp add: be_val_def)

lemma unat_u8_bound: "unat (b :: u8) < 256"
  using unsigned_less [of b, where ?'a = nat] by simp

lemma be_val_be_bytes: "be_val (be_bytes n x) = x mod 256 ^ n"
proof (induction n arbitrary: x)
  case (Suc n)
  have "unat (of_nat (x mod 256) :: u8) = x mod 256" by (rule unat_of_nat_small) simp
  then show ?case by (simp add: Suc mod_mult2_eq mult.commute)
qed simp

lemma be_val_bound: "be_val bs < 256 ^ length bs"
proof (induction bs rule: rev_induct)
  case (snoc b bs)
  then have "(be_val bs + 1) * 256 \<le> 256 ^ length bs * 256" by (intro mult_le_mono1) simp
  then show ?case using unat_u8_bound [of b] by simp
qed simp

lemma be_val_append: "be_val (xs @ ys) = be_val xs * 256 ^ length ys + be_val ys"
  by (induction ys rule: rev_induct) (simp_all add: algebra_simps flip: append_assoc)

lemma be_val_single: "be_val [b] = unat b"
  by (simp add: be_val_def)

lemma be_val_zeros [simp]: "be_val (replicate n 0) = 0"
proof (induction n)
  case (Suc n)
  have "be_val ([0] @ replicate n 0) = 0" by (subst be_val_append) (simp only: Suc be_val_single, simp)
  then show ?case by simp
qed simp

lemma be_val_strip_zeros: "be_val (dropWhile (\<lambda>b. b = 0) bs) = be_val bs"
proof -
  have "takeWhile (\<lambda>b. b = 0) bs = replicate (length (takeWhile (\<lambda>b. b = 0) bs)) 0"
    by (induction bs) auto
  then have "be_val (takeWhile (\<lambda>b. b = 0) bs) = 0" by (metis be_val_zeros)
  then show ?thesis
    by (metis be_val_append mult_is_0 add_0 takeWhile_dropWhile_id)
qed

lemma be_val_to_be_bytes: "be_val (to_be_bytes q) = q2n q"
  using unat_u128_bound [of "high q"] unat_u128_bound [of "low q"]
  by (simp add: to_be_bytes_def be_val_append be_val_be_bytes q2n_def)

lemma be_val_halves:
  assumes "length buf = 32"
  shows "q2n (Quantity (of_nat (be_val (take 16 buf))) (of_nat (be_val (drop 16 buf)))) = be_val buf"
proof -
  have len: "length (take 16 buf) = 16" "length (drop 16 buf) = 16" using assms by simp_all
  have "be_val buf = be_val (take 16 buf @ drop 16 buf)" by (simp only: append_take_drop_id)
  also have "\<dots> = be_val (take 16 buf) * 256 ^ 16 + be_val (drop 16 buf)"
    by (simp only: be_val_append len)
  finally have v: "be_val buf = be_val (take 16 buf) * 2 ^ 128 + be_val (drop 16 buf)" by simp
  have "be_val (take 16 buf) < 256 ^ 16" "be_val (drop 16 buf) < 256 ^ 16"
    using be_val_bound [of "take 16 buf"] be_val_bound [of "drop 16 buf"] by (simp_all only: len)
  then show ?thesis unfolding v q2n_def by (simp add: unat_of_nat_small)
qed

lemma from_be_bytes_eq:
  "from_be_bytes bs = (if length bs \<le> 32 then Some (n2q (be_val bs)) else None)"
proof (cases "length bs \<le> 32")
  case True
  let ?buf = "replicate (32 - length bs) 0 @ bs"
  have "length ?buf = 32" using True by simp
  from be_val_halves [OF this] show ?thesis
    using True by (simp add: from_be_bytes_def n2q_eqI Let_def be_val_append)
qed (simp add: from_be_bytes_def)

lemma length_to_be_bytes [simp]: "length (to_be_bytes q) = 32"
  by (simp add: to_be_bytes_def)

lemma from_to_be_bytes: "from_be_bytes (to_be_bytes q) = Some q"
  by (simp add: from_be_bytes_eq be_val_to_be_bytes)

lemma to_nat_eq: "to_nat q = q2n q"
  by (simp add: to_nat_def be_val_to_be_bytes) (simp add: q2n_def)

lemma quantity_try_from_eq:
  assumes "biguint_ok big"
  shows "quantity_try_from big n = (if n < 2 ^ 256 then Inr (n2q n) else Inl QuantityOverflowError)"
proof -
  have b: "bits big n > 256 \<longleftrightarrow> \<not> n < 2 ^ 256"
    using assms unfolding biguint_ok_def by (metis not_less)
  have "length (to_bytes_be big n) \<le> 32" if "n < 2 ^ 256"
  proof -
    have "n < 256 ^ 32" using that by simp
    then show ?thesis using assms unfolding biguint_ok_def by (metis zero_less_numeral)
  qed
  then show ?thesis
    using assms b by (auto simp: quantity_try_from_def from_be_bytes_eq biguint_ok_def)
qed

lemma length_dropWhile_le32: "length (dropWhile P (to_be_bytes q)) \<le> 32"
  using length_dropWhile_le [of P "to_be_bytes q"] by simp

lemma decode_encode_quantity: "decode_quantity (encode_quantity q @ rest) = Inr (q, rest)"
proof (cases "high q = 0 \<and> unat (low q) < 2 ^ 64")
  case True
  then have "from_u64 (ucast (low q)) = q"
    by (intro quantity.expand)
       (simp add: from_u64_def word_eq_iff_unat unat_ucast_small unat_ucast_u64)
  then show ?thesis using True by (simp add: encode_quantity_def)
next
  case False
  then have "encode_quantity q = [CborPosBignum, CborBytes (dropWhile (\<lambda>b. b = 0) (to_be_bytes q))]"
    unfolding encode_quantity_def Let_def by (simp only: if_False)
  then show ?thesis
    by (simp add: from_be_bytes_eq length_dropWhile_le32
        be_val_strip_zeros be_val_to_be_bytes)
qed

lemma decode_encode_u128: "decode_u128 (encode_u128 v @ rest) = Inr (v, rest)"
  by (simp add: decode_u128_def encode_u128_def decode_encode_quantity as_u128_def from_u128_def)

end
