(* ===== verification/Ids.thy ===== *)
theory Ids
  imports Codec
begin

text \<open>
  Identifiers (\<open>ids/mod.rs\<close>): monotonic 64-bit sequences, pairs of identifiers, and their
  fixed-width byte and hexadecimal forms. The trait \<open>FixedWidthId\<close> is a record of its
  methods; its contract is the locale \<open>fixed_width_id\<close>, which the sequence instance
  interprets and which is closed under \<open>CompositeId\<close>.
\<close>

section \<open>Sequences\<close>

type_synonym seq = u64

definition seq_increment :: "seq \<Rightarrow> seq option" where
  "seq_increment s = checked_add s 1"

section \<open>Hexadecimal digits\<close>

definition hex_char :: "nat \<Rightarrow> char" where
  "hex_char n = (if n < 10 then char_of (48 + n) else char_of (87 + n))"

definition hex_val :: "char \<Rightarrow> nat option" where
  "hex_val c =
     (let n = (of_char c :: nat)
      in if 48 \<le> n \<and> n \<le> 57 then Some (n - 48)
         else if 97 \<le> n \<and> n \<le> 102 then Some (n - 87)
         else if 65 \<le> n \<and> n \<le> 70 then Some (n - 55)
         else None)"

fun hex_string :: "nat \<Rightarrow> nat \<Rightarrow> string" where
  "hex_string 0 x = []"
| "hex_string (Suc n) x = hex_string n (x div 16) @ [hex_char (x mod 16)]"

text \<open>\<open>u64::from_str_radix(s, 16)\<close> of the standard library: an optional leading plus sign,
  at least one digit, upper or lower case, and an error on overflow.\<close>

definition radix16_step :: "u64 option \<Rightarrow> char \<Rightarrow> u64 option" where
  "radix16_step acc c = do {
     a \<leftarrow> acc;
     d \<leftarrow> hex_val c;
     a' \<leftarrow> checked_mul a 16;
     checked_add a' (of_nat d)
   }"

definition from_str_radix16 :: "string \<Rightarrow> u64 option" where
  "from_str_radix16 s =
     (let digits = (case s of c # rest \<Rightarrow> if c = CHR ''+'' then rest else s | [] \<Rightarrow> [])
      in if digits = [] then None else foldl radix16_step (Some 0) digits)"

definition is_canonical_hex :: "string \<Rightarrow> nat \<Rightarrow> bool" where
  "is_canonical_hex s byte_width \<longleftrightarrow>
     length s = 2 * byte_width \<and>
     list_all (\<lambda>c. let n = (of_char c :: nat) in 48 \<le> n \<and> n \<le> 57 \<or> 97 \<le> n \<and> n \<le> 102) s"

section \<open>Fixed-width identifiers\<close>

datatype parse_error = ParseFixedWithIdError

record 'a fixed_width =
  fw_width :: nat
  fw_write_be :: "'a \<Rightarrow> u8 list"
  fw_from_be :: "u8 list \<Rightarrow> parse_error + 'a"
  fw_write_hex :: "'a \<Rightarrow> string"
  fw_from_hex :: "string \<Rightarrow> parse_error + 'a"

definition seq_from_be_bytes :: "u8 list \<Rightarrow> parse_error + seq" where
  "seq_from_be_bytes bytes =
     (if length bytes = 8 then Inr (of_nat (be_val bytes)) else Inl ParseFixedWithIdError)"

definition seq_from_hex :: "string \<Rightarrow> parse_error + seq" where
  "seq_from_hex s =
     (if \<not> is_canonical_hex s 8 then Inl ParseFixedWithIdError
      else (case from_str_radix16 s of
              None \<Rightarrow> Inl ParseFixedWithIdError
            | Some v \<Rightarrow> Inr v))"

definition seq_id :: "seq fixed_width" where
  "seq_id = \<lparr>fw_width = 8,
     fw_write_be = (\<lambda>s. be_bytes 8 (unat s)),
     fw_from_be = seq_from_be_bytes,
     fw_write_hex = (\<lambda>s. hex_string 16 (unat s)),
     fw_from_hex = seq_from_hex\<rparr>"

definition composite_from_be_bytes ::
  "'a fixed_width \<Rightarrow> 'b fixed_width \<Rightarrow> u8 list \<Rightarrow> parse_error + 'a \<times> 'b" where
  "composite_from_be_bytes A B bytes =
     (if length bytes \<noteq> fw_width A + fw_width B then Inl ParseFixedWithIdError
      else (case fw_from_be A (take (fw_width A) bytes) of
              Inl e \<Rightarrow> Inl e
            | Inr a \<Rightarrow>
                (case fw_from_be B (drop (fw_width A) bytes) of
                   Inl e \<Rightarrow> Inl e
                 | Inr b \<Rightarrow> Inr (a, b))))"

definition composite_from_hex ::
  "'a fixed_width \<Rightarrow> 'b fixed_width \<Rightarrow> string \<Rightarrow> parse_error + 'a \<times> 'b" where
  "composite_from_hex A B s =
     (if \<not> is_canonical_hex s (fw_width A + fw_width B) then Inl ParseFixedWithIdError
      else let split = fw_width A * 2
           in (case fw_from_hex A (take split s) of
                 Inl e \<Rightarrow> Inl e
               | Inr a \<Rightarrow>
                   (case fw_from_hex B (drop split s) of
                      Inl e \<Rightarrow> Inl e
                    | Inr b \<Rightarrow> Inr (a, b))))"

definition composite_id :: "'a fixed_width \<Rightarrow> 'b fixed_width \<Rightarrow> ('a \<times> 'b) fixed_width" where
  "composite_id A B = \<lparr>fw_width = fw_width A + fw_width B,
     fw_write_be = (\<lambda>(a, b). fw_write_be A a @ fw_write_be B b),
     fw_from_be = composite_from_be_bytes A B,
     fw_write_hex = (\<lambda>(a, b). fw_write_hex A a @ fw_write_hex B b),
     fw_from_hex = composite_from_hex A B\<rparr>"

text \<open>The three identifiers of the application: an order is a book and a sequence number
  within it, a trade is an order and a fill sequence number.\<close>

type_synonym order_book_id = seq
type_synonym order_seq = seq
type_synonym fill_seq = seq
type_synonym order_id = "order_book_id \<times> order_seq"
type_synonym trade_id = "order_id \<times> fill_seq"

definition order_id_fw :: "order_id fixed_width" where
  "order_id_fw = composite_id seq_id seq_id"

definition trade_id_fw :: "trade_id fixed_width" where
  "trade_id_fw = composite_id order_id_fw seq_id"

definition order_id_to_string :: "order_id \<Rightarrow> string" where
  "order_id_to_string i = fw_write_hex order_id_fw i"

definition order_id_parse :: "string \<Rightarrow> parse_error + order_id" where
  "order_id_parse s = fw_from_hex order_id_fw s"

definition trade_id_to_string :: "trade_id \<Rightarrow> string" where
  "trade_id_to_string i = fw_write_hex trade_id_fw i"

definition trade_id_parse :: "string \<Rightarrow> parse_error + trade_id" where
  "trade_id_parse s = fw_from_hex trade_id_fw s"

definition trade_id_first_of :: "order_id \<Rightarrow> trade_id" where
  "trade_id_first_of i = (i, 0)"

definition trade_id_last_of :: "order_id \<Rightarrow> trade_id" where
  "trade_id_last_of i = (i, - 1)"

definition trade_id_fill_id :: "trade_id \<Rightarrow> order_book_id \<times> fill_seq" where
  "trade_id_fill_id t = (fst (fst t), snd t)"

section \<open>The contract of a fixed-width identifier\<close>

locale fixed_width_id =
  fixes A :: "'a fixed_width"
  assumes be_length: "length (fw_write_be A a) = fw_width A"
    and be_roundtrip: "fw_from_be A (fw_write_be A a) = Inr a"
    and hex_canonical: "is_canonical_hex (fw_write_hex A a) (fw_width A)"
    and hex_roundtrip: "fw_from_hex A (fw_write_hex A a) = Inr a"
    and hex_unique: "fw_from_hex A s = Inr a \<Longrightarrow> fw_write_hex A a = s"
begin

lemma hex_length: "length (fw_write_hex A a) = 2 * fw_width A"
  using hex_canonical [of a] by (simp add: is_canonical_hex_def)

lemma be_injective: "fw_write_be A a = fw_write_be A b \<longleftrightarrow> a = b"
  using be_roundtrip by (metis sum.inject(2))

lemma hex_injective: "fw_write_hex A a = fw_write_hex A b \<longleftrightarrow> a = b"
  using hex_roundtrip by (metis sum.inject(2))

lemma parse_iff: "fw_from_hex A s = Inr a \<longleftrightarrow> s = fw_write_hex A a"
  using hex_roundtrip hex_unique by metis

end

locale fixed_width_pair = A: fixed_width_id A + B: fixed_width_id B
  for A :: "'a fixed_width" and B :: "'b fixed_width"
begin

lemma canonical_append:
  "is_canonical_hex s m \<Longrightarrow> is_canonical_hex t n \<Longrightarrow> is_canonical_hex (s @ t) (m + n)"
  by (simp add: is_canonical_hex_def)

lemma pair_id: "fixed_width_id (composite_id A B)"
proof (unfold_locales, goal_cases)
  case (1 p)
  then show ?case
    by (cases p) (simp add: composite_id_def A.be_length B.be_length)
next
  case (2 p)
  then show ?case
    by (cases p) (simp add: composite_id_def composite_from_be_bytes_def A.be_length B.be_length
        A.be_roundtrip B.be_roundtrip)
next
  case (3 p)
  then show ?case
    by (cases p) (simp add: composite_id_def canonical_append A.hex_canonical B.hex_canonical)
next
  case (4 p)
  have "is_canonical_hex (fw_write_hex A (fst p) @ fw_write_hex B (snd p)) (fw_width A + fw_width B)"
    by (simp add: canonical_append A.hex_canonical B.hex_canonical)
  then show ?case
    by (cases p) (simp add: composite_id_def composite_from_hex_def A.hex_length
        A.hex_roundtrip B.hex_roundtrip mult.commute)
next
  case (5 s p)
  obtain a b where p: "p = (a, b)" by (cases p)
  let ?n = "fw_width A * 2"
  have "take ?n s = fw_write_hex A a" "drop ?n s = fw_write_hex B b"
    using 5 p
    by (auto simp: composite_id_def composite_from_hex_def Let_def A.parse_iff B.parse_iff
        split: if_splits sum.splits)
  then show ?case
    using append_take_drop_id [of ?n s] p by (simp add: composite_id_def)
qed

end

section \<open>The sequence instance\<close>

lemma hex_digits:
  assumes "n < 16"
  shows "hex_val (hex_char n) = Some n" "hex_char n \<noteq> CHR ''+''"
    "is_canonical_hex [hex_char n, hex_char n] 1"
proof -
  show "hex_val (hex_char n) = Some n"
    using assms by (simp add: hex_char_def hex_val_def Let_def)
  show "hex_char n \<noteq> CHR ''+''"
  proof
    assume "hex_char n = CHR ''+''"
    then have "of_char (hex_char n) = (of_char (CHR ''+'') :: nat)" by simp
    then show False using assms by (simp add: hex_char_def split: if_splits)
  qed
  show "is_canonical_hex [hex_char n, hex_char n] 1"
    using assms by (simp add: is_canonical_hex_def hex_char_def Let_def)
qed

lemma canonical_char_iff:
  "48 \<le> n \<and> n \<le> 57 \<or> 97 \<le> n \<and> n \<le> 102 \<Longrightarrow> n = of_char c \<Longrightarrow>
     \<exists>d < 16. hex_val c = Some d \<and> hex_char d = c" for n :: nat
  by (auto simp: hex_val_def hex_char_def Let_def intro: exI [of _ "n - 48"] exI [of _ "n - 87"])

lemma is_canonical_hex_iff:
  "is_canonical_hex s w \<longleftrightarrow> length s = 2 * w \<and> (\<forall>c \<in> set s. \<exists>d < 16. hex_val c = Some d \<and> hex_char d = c)"
proof -
  have "(let n = (of_char c :: nat) in 48 \<le> n \<and> n \<le> 57 \<or> 97 \<le> n \<and> n \<le> 102) \<longleftrightarrow>
        (\<exists>d < 16. hex_val c = Some d \<and> hex_char d = c)" for c
  proof
    assume "\<exists>d < 16. hex_val c = Some d \<and> hex_char d = c"
    then show "let n = (of_char c :: nat) in 48 \<le> n \<and> n \<le> 57 \<or> 97 \<le> n \<and> n \<le> 102"
      using hex_digits(3) by (auto simp: is_canonical_hex_def)
  qed (use canonical_char_iff in \<open>auto simp: Let_def\<close>)
  then show ?thesis by (simp add: is_canonical_hex_def list_all_iff)
qed

lemma length_hex_string [simp]: "length (hex_string n x) = n"
  by (induction n arbitrary: x) auto

lemma set_hex_string: "c \<in> set (hex_string n x) \<Longrightarrow> \<exists>d < 16. hex_val c = Some d \<and> hex_char d = c"
  by (induction n arbitrary: x) (auto simp: hex_digits)

lemma hex_value_bound:
  "(\<forall>c \<in> set s. \<exists>d < 16. hex_val c = Some d \<and> hex_char d = c) \<Longrightarrow> length s \<le> 16 \<Longrightarrow>
   \<exists>v. foldl radix16_step (Some 0) s = Some v \<and> unat v < 16 ^ length s \<and> hex_string (length s) (unat v) = s"
proof (induction s rule: rev_induct)
  case (snoc c s)
  then obtain v where v: "foldl radix16_step (Some 0) s = Some v" "unat v < 16 ^ length s"
      "hex_string (length s) (unat v) = s" by auto
  obtain d where d: "d < 16" "hex_val c = Some d" "hex_char d = c" using snoc.prems by auto
  have "unat v * 16 + d < 16 ^ Suc (length s)" using v(2) d(1) by simp
  moreover have "(16 :: nat) ^ Suc (length s) \<le> 16 ^ 16" using snoc.prems(2) by (intro power_increasing) auto
  ultimately have b: "unat v * 16 + d < 2 ^ 64" by simp
  let ?w = "v * 16 + of_nat d"
  have d': "unat (of_nat d :: u64) = d" using d(1) by (intro unat_of_nat_small) simp
  have m: "unat (v * 16) = unat v * 16" using b by (subst unat_mult_no_overflow) simp_all
  have w: "unat ?w = unat v * 16 + d" using b m d' by (subst unat_add_no_overflow) simp_all
  have "radix16_step (Some v) c = Some ?w"
    using b d m d' by (simp add: radix16_step_def checked_mul_def checked_add_def)
  then show ?case
    using v d w \<open>unat v * 16 + d < 16 ^ Suc (length s)\<close> by (intro exI [of _ ?w]) simp
qed simp

lemma hex_string_inject: "hex_string n x = hex_string n y \<Longrightarrow> x mod 16 ^ n = y mod 16 ^ n"
proof (induction n arbitrary: x y)
  case (Suc n)
  have *: "hex_string n (x div 16) = hex_string n (y div 16)" "hex_char (x mod 16) = hex_char (y mod 16)"
    using Suc.prems by simp_all
  have "hex_val (hex_char (z mod 16)) = Some (z mod 16)" for z by (rule hex_digits) simp
  then have "x mod 16 = y mod 16" using *(2) by (metis option.inject)
  with Suc.IH [OF *(1)] show ?case by (simp only: power_Suc mod_mult2_eq)
qed simp

lemma from_str_radix16_canonical:
  assumes "is_canonical_hex s 8"
  shows "\<exists>v. from_str_radix16 s = Some v \<and> hex_string 16 (unat v) = s"
proof -
  have l: "length s = 16" using assms by (simp add: is_canonical_hex_def)
  then obtain c rest where s: "s = c # rest" by (cases s) auto
  have "c \<noteq> CHR ''+''"
    using assms s hex_digits(2) unfolding is_canonical_hex_iff by auto
  then show ?thesis
    using hex_value_bound [of s] assms l s
    by (force simp: from_str_radix16_def is_canonical_hex_iff simp del: hex_string.simps)
qed

lemma canonical_hex_string: "is_canonical_hex (hex_string 16 x) 8"
  by (simp add: is_canonical_hex_iff set_hex_string)

interpretation seq: fixed_width_id seq_id
proof (unfold_locales, goal_cases)
  case (1 a)
  then show ?case by (simp add: seq_id_def)
next
  case (2 a)
  then show ?case
    using unat_u64_bound [of a] by (simp add: seq_id_def seq_from_be_bytes_def be_val_be_bytes)
next
  case (3 a)
  then show ?case by (simp add: seq_id_def canonical_hex_string)
next
  case (4 a)
  obtain v where v: "from_str_radix16 (hex_string 16 (unat a)) = Some v"
      "hex_string 16 (unat v) = hex_string 16 (unat a)"
    using from_str_radix16_canonical [OF canonical_hex_string] by blast
  then have "unat v = unat a"
    using hex_string_inject [OF v(2)] unat_u64_bound [of v] unat_u64_bound [of a] by simp
  then show ?case
    using v(1) by (simp add: seq_id_def seq_from_hex_def canonical_hex_string word_eq_iff_unat)
next
  case (5 s a)
  then show ?case
    using from_str_radix16_canonical [of s]
    by (auto simp: seq_id_def seq_from_hex_def split: if_splits option.splits)
qed

interpretation order_id: fixed_width_id order_id_fw
  unfolding order_id_fw_def
  by (rule fixed_width_pair.pair_id) (unfold_locales)

interpretation trade_id: fixed_width_id trade_id_fw
  unfolding trade_id_fw_def
  by (rule fixed_width_pair.pair_id) (unfold_locales)

end
