(* ===== verification/Order_Types.thy ===== *)
theory Order_Types
  imports Fees Ids
begin

text \<open>
  The data of the order component (\<open>order/mod.rs\<close>, \<open>order/fill.rs\<close> and the result types of
  \<open>order/book.rs\<close>): sides, time in force, tokens and pairs, orders and fills. A field of a
  Rust struct becomes a record field with a short prefix, because HOL record selectors share
  one name space.
\<close>

datatype side = Buy | Sell

datatype time_in_force = GoodTilCanceled | FillOrKill

datatype order_status = Pending | Open | Filled | Canceled | Expired

datatype pair_token = Base | Quote

text \<open>A principal is an opaque identity. Its bytes never matter to the program: it is compared
  and used as a key.\<close>

type_synonym principal = nat
type_synonym token_id = principal
type_synonym timestamp = u64

record token_metadata =
  symbol :: string
  decimals :: u8

record trading_pair =
  tp_base :: token_id
  tp_quote :: token_id

definition trading_pair_token :: "trading_pair \<Rightarrow> pair_token \<Rightarrow> token_id" where
  "trading_pair_token pair s = (case s of Base \<Rightarrow> tp_base pair | Quote \<Rightarrow> tp_quote pair)"

instantiation trading_pair_ext :: (linorder) linorder
begin

definition less_eq_trading_pair_ext :: "'a trading_pair_ext \<Rightarrow> 'a trading_pair_ext \<Rightarrow> bool" where
  "less_eq_trading_pair_ext a b \<longleftrightarrow>
     tp_base a < tp_base b \<or> tp_base a = tp_base b \<and>
       (tp_quote a < tp_quote b \<or>
        tp_quote a = tp_quote b \<and> trading_pair.more a \<le> trading_pair.more b)"

definition less_trading_pair_ext :: "'a trading_pair_ext \<Rightarrow> 'a trading_pair_ext \<Rightarrow> bool" where
  "less_trading_pair_ext a b \<longleftrightarrow> a \<le> b \<and> \<not> b \<le> (a :: 'a trading_pair_ext)"

instance
proof
  fix x y z :: "'a trading_pair_ext"
  show "x < y \<longleftrightarrow> x \<le> y \<and> \<not> y \<le> x" by (simp add: less_trading_pair_ext_def)
  show "x \<le> x" by (simp add: less_eq_trading_pair_ext_def)
  show "x \<le> y \<Longrightarrow> y \<le> z \<Longrightarrow> x \<le> z" by (auto simp: less_eq_trading_pair_ext_def)
  show "x \<le> y \<Longrightarrow> y \<le> x \<Longrightarrow> x = y"
    by (auto simp: less_eq_trading_pair_ext_def intro: trading_pair.equality)
  show "x \<le> y \<or> y \<le> x" by (auto simp: less_eq_trading_pair_ext_def)
qed

end

text \<open>\<open>std::cmp::Reverse\<close>: the bids are keyed by the reversed price, so that the highest bid
  comes first.\<close>

datatype 'a reverse = Reverse (unreverse: 'a)

instantiation reverse :: (linorder) linorder
begin

definition less_eq_reverse :: "'a reverse \<Rightarrow> 'a reverse \<Rightarrow> bool" where
  "less_eq_reverse a b \<longleftrightarrow> unreverse b \<le> unreverse a"

definition less_reverse :: "'a reverse \<Rightarrow> 'a reverse \<Rightarrow> bool" where
  "less_reverse a b \<longleftrightarrow> unreverse b < unreverse a"

instance
  by standard (auto simp: less_eq_reverse_def less_reverse_def intro: reverse.expand)

end

lemma reverse_less [simp]: "Reverse a < Reverse b \<longleftrightarrow> b < a"
  by (simp add: less_reverse_def)

section \<open>Orders\<close>

record order =
  ord_id :: order_seq
  ord_side :: side
  ord_price :: price
  ord_remaining :: quantity
  ord_tif :: time_in_force

record pending_order =
  po_side :: side
  po_price :: price
  po_quantity :: quantity
  po_tif :: time_in_force

record resting_order =
  ro_id :: order_seq
  ro_remaining :: quantity
  ro_tif :: time_in_force

definition into_order :: "pending_order \<Rightarrow> order_seq \<Rightarrow> order" where
  "into_order p i = \<lparr>ord_id = i, ord_side = po_side p, ord_price = po_price p,
     ord_remaining = po_quantity p, ord_tif = po_tif p\<rparr>"

definition order_reduce_quantity :: "order \<Rightarrow> quantity \<Rightarrow> order option" where
  "order_reduce_quantity ord amount = do {
     q \<leftarrow> quantity_sub (ord_remaining ord) amount;
     Some (ord\<lparr>ord_remaining := q\<rparr>)
   }"

definition resting_from :: "order \<Rightarrow> resting_order" where
  "resting_from ord = \<lparr>ro_id = ord_id ord, ro_remaining = ord_remaining ord, ro_tif = ord_tif ord\<rparr>"

definition to_order :: "resting_order \<Rightarrow> side \<Rightarrow> price \<Rightarrow> order" where
  "to_order r s p = \<lparr>ord_id = ro_id r, ord_side = s, ord_price = p,
     ord_remaining = ro_remaining r, ord_tif = ro_tif r\<rparr>"

definition resting_reduce_quantity :: "resting_order \<Rightarrow> quantity \<Rightarrow> resting_order option" where
  "resting_reduce_quantity r amount = do {
     q \<leftarrow> quantity_sub (ro_remaining r) amount;
     Some (r\<lparr>ro_remaining := q\<rparr>)
   }"

text \<open>The request of a client, converted with \<open>u128::try_from\<close> and \<open>Quantity::try_from\<close>.\<close>

record limit_order_request =
  req_pair :: trading_pair
  req_side :: side
  req_price :: nat
  req_quantity :: nat
  req_tif :: "time_in_force option"

definition pending_order_try_from ::
  "biguint_ops \<Rightarrow> limit_order_request \<Rightarrow> quantity_overflow_error + pending_order" where
  "pending_order_try_from big req =
     (if \<not> req_price req < 2 ^ 128 then Inl QuantityOverflowError
      else (case quantity_try_from big (req_quantity req) of
              Inl e \<Rightarrow> Inl e
            | Inr q \<Rightarrow>
                Inr \<lparr>po_side = req_side req, po_price = of_nat (req_price req), po_quantity = q,
                     po_tif = (case req_tif req of None \<Rightarrow> GoodTilCanceled | Some t \<Rightarrow> t)\<rparr>))"

section \<open>Fills and results of matching\<close>

record fill =
  fl_seq :: fill_seq
  fl_taker :: order_seq
  fl_taker_side :: side
  fl_taker_price :: price
  fl_maker :: order_seq
  fl_maker_price :: price
  fl_quantity :: quantity

record removed_order =
  rm_side :: side
  rm_price :: price
  rm_remaining :: quantity

record matching_output =
  mo_fills :: "fill list"
  mo_resting :: "order_seq set"
  mo_filled :: "order_seq set"
  mo_expired :: "(order_seq, removed_order) btree_map"

datatype match_result =
    MR_Filled "fill list"
  | MR_PartiallyFilled "fill list" order_seq
  | MR_Resting order_seq
  | MR_Killed order_seq removed_order

definition result_fills :: "match_result \<Rightarrow> fill list" where
  "result_fills r = (case r of MR_Filled fs \<Rightarrow> fs | MR_PartiallyFilled fs _ \<Rightarrow> fs
     | MR_Resting _ \<Rightarrow> [] | MR_Killed _ _ \<Rightarrow> [])"

definition resting_order_seq :: "match_result \<Rightarrow> order_seq option" where
  "resting_order_seq r = (case r of MR_PartiallyFilled _ s \<Rightarrow> Some s | MR_Resting s \<Rightarrow> Some s
     | MR_Filled _ \<Rightarrow> None | MR_Killed _ _ \<Rightarrow> None)"

datatype match_order_error =
    InvalidTickSize price u128
  | InvalidLotSize quantity u64

record notional_error =
  ne_notional :: quantity
  ne_min :: quantity
  ne_max :: "quantity option"

end
