(* ===== verification/Order_Queue.thy ===== *)
theory Order_Queue
  imports Order_Types
begin

text \<open>
  The price levels of one side of a book (\<open>order/queue/mod.rs\<close>): an ordered map from a key to
  a FIFO queue. A level is never empty: every operation that empties one removes it. The
  contents are read in priority order, the key first and the arrival second, which is the
  list \<open>queue_list\<close>; each operation is characterised by what it does to that list.
\<close>

type_synonym ('k, 'v) order_queue = "('k, 'v list) btree_map"

section \<open>Operations\<close>

definition queue_new :: "('k, 'v) order_queue" where
  "queue_new = []"

definition from_levels :: "('k, 'v list) btree_map \<Rightarrow> ('k, 'v) order_queue" where
  "from_levels levels = filter (\<lambda>(_, queue). queue \<noteq> []) levels"

text \<open>\<open>pop_front\<close> traps on an empty level at the front: the outer option is the trap, the
  inner one the result of the Rust method.\<close>

definition pop_front :: "('k::linorder, 'v) order_queue \<Rightarrow> (('k \<times> 'v) option \<times> ('k, 'v) order_queue) option" where
  "pop_front q =
     (case q of
        [] \<Rightarrow> Some (None, q)
      | (key, queue) # _ \<Rightarrow>
          (case queue of
             [] \<Rightarrow> None
           | v # rest \<Rightarrow>
               Some (Some (key, v), if rest = [] then bt_remove key q else bt_insert key rest q)))"

text \<open>\<open>front_mut\<close> lends a mutable reference: the value together with the queue that results
  from writing through it.\<close>

definition front_mut ::
  "('k::linorder, 'v) order_queue \<Rightarrow> ('k \<times> 'v \<times> ('v \<Rightarrow> ('k, 'v) order_queue)) option option" where
  "front_mut q =
     (case q of
        [] \<Rightarrow> Some None
      | (key, queue) # _ \<Rightarrow>
          (case queue of
             [] \<Rightarrow> None
           | v # rest \<Rightarrow> Some (Some (key, v, \<lambda>v'. bt_insert key (v' # rest) q))))"

definition push_back :: "'k::linorder \<Rightarrow> 'v \<Rightarrow> ('k, 'v) order_queue \<Rightarrow> ('k, 'v) order_queue" where
  "push_back key v q =
     bt_insert key ((case bt_get q key of None \<Rightarrow> [] | Some queue \<Rightarrow> queue) @ [v]) q"

text \<open>\<open>position\<close> and \<open>VecDeque::remove\<close> together: the first match and the queue without it.\<close>

fun remove_first :: "('v \<Rightarrow> bool) \<Rightarrow> 'v list \<Rightarrow> ('v \<times> 'v list) option" where
  "remove_first P [] = None"
| "remove_first P (v # vs) =
     (if P v then Some (v, vs)
      else (case remove_first P vs of None \<Rightarrow> None | Some (w, ws) \<Rightarrow> Some (w, v # ws)))"

definition queue_remove ::
  "'k::linorder \<Rightarrow> ('v \<Rightarrow> bool) \<Rightarrow> ('k, 'v) order_queue \<Rightarrow> 'v option \<times> ('k, 'v) order_queue" where
  "queue_remove key P q =
     (case bt_get q key of
        None \<Rightarrow> (None, q)
      | Some queue \<Rightarrow>
          (case remove_first P queue of
             None \<Rightarrow> (None, q)
           | Some (v, rest) \<Rightarrow>
               (Some v, if rest = [] then bt_remove key q else bt_insert key rest q)))"

section \<open>Iteration\<close>

text \<open>The iterator keeps the levels not yet visited and the rest of the current one.\<close>

record ('k, 'v) order_queue_iter =
  outer :: "('k \<times> 'v list) list"
  inner :: "('k \<times> 'v list) option"

definition queue_iter :: "('k, 'v) order_queue \<Rightarrow> ('k, 'v) order_queue_iter" where
  "queue_iter q = \<lparr>outer = q, inner = None\<rparr>"

fun iter_advance :: "('k \<times> 'v list) list \<Rightarrow> (('k \<times> 'v) \<times> ('k, 'v) order_queue_iter) option" where
  "iter_advance [] = None"
| "iter_advance ((k, []) # levels) = iter_advance levels"
| "iter_advance ((k, v # vs) # levels) = Some ((k, v), \<lparr>outer = levels, inner = Some (k, vs)\<rparr>)"

definition iter_next :: "('k, 'v) order_queue_iter \<Rightarrow> (('k \<times> 'v) \<times> ('k, 'v) order_queue_iter) option" where
  "iter_next it =
     (case inner it of
        Some (k, v # vs) \<Rightarrow> Some ((k, v), it\<lparr>inner := Some (k, vs)\<rparr>)
      | _ \<Rightarrow> iter_advance (outer it))"

text \<open>What is still to come out of an iterator, in priority order.\<close>

definition queue_list :: "('k, 'v) order_queue \<Rightarrow> ('k \<times> 'v) list" where
  "queue_list q = concat (map (\<lambda>(k, vs). map (Pair k) vs) q)"

definition iter_list :: "('k, 'v) order_queue_iter \<Rightarrow> ('k \<times> 'v) list" where
  "iter_list it =
     (case inner it of None \<Rightarrow> [] | Some (k, vs) \<Rightarrow> map (Pair k) vs) @ queue_list (outer it)"

lemma queue_list_simps [simp]:
  "queue_list [] = []" "queue_list (e # q) = map (Pair (fst e)) (snd e) @ queue_list q"
  by (simp_all add: queue_list_def split_def)

lemma queue_list_append [simp]: "queue_list (q @ q') = queue_list q @ queue_list q'"
  by (simp add: queue_list_def)

lemma iter_advance_list:
  "queue_list levels = (case iter_advance levels of None \<Rightarrow> [] | Some (x, it) \<Rightarrow> x # iter_list it)"
  by (induction levels rule: iter_advance.induct) (simp_all add: iter_list_def)

lemma iter_next_list:
  "iter_list it = (case iter_next it of None \<Rightarrow> [] | Some (x, it') \<Rightarrow> x # iter_list it')"
  using iter_advance_list [of "outer it"]
  by (auto simp: iter_next_def iter_list_def split: option.splits list.splits)

lemma iter_list_queue_iter [simp]: "iter_list (queue_iter q) = queue_list q"
  by (simp add: iter_list_def queue_iter_def)

section \<open>The invariant\<close>

definition queue_ok :: "('k::linorder, 'v) order_queue \<Rightarrow> bool" where
  "queue_ok q \<longleftrightarrow> bt_ok q \<and> (\<forall>(_, queue) \<in> set q. queue \<noteq> [])"

lemma queue_ok_Nil [simp]: "queue_ok []"
  by (simp add: queue_ok_def)

lemma queue_ok_Cons:
  "queue_ok ((k, vs) # q) \<longleftrightarrow> vs \<noteq> [] \<and> queue_ok q \<and> (\<forall>j \<in> set (bt_keys q). k < j)"
  by (auto simp: queue_ok_def bt_ok_Cons)

lemma queue_ok_bt_ok: "queue_ok q \<Longrightarrow> bt_ok q"
  by (simp add: queue_ok_def)

lemma queue_ok_from_levels: "bt_ok levels \<Longrightarrow> queue_ok (from_levels levels)"
  by (auto simp: queue_ok_def from_levels_def)

lemma from_levels_id: "queue_ok q \<Longrightarrow> from_levels q = q"
  by (auto simp: queue_ok_def from_levels_def split_def)

lemma queue_list_eq_Nil: "queue_ok q \<Longrightarrow> queue_list q = [] \<longleftrightarrow> q = []"
  by (cases q) (auto simp: queue_ok_Cons)

lemma set_queue_list: "set (queue_list q) = {(k, v). \<exists>vs. (k, vs) \<in> set q \<and> v \<in> set vs}"
  by (auto simp: queue_list_def)

lemma set_keys_queue_list: "queue_ok q \<Longrightarrow> set (bt_keys q) = fst ` set (queue_list q)"
proof (induction q)
  case (Cons e q)
  then show ?case by (cases e; cases "snd e") (auto simp: queue_ok_Cons)
qed simp

lemma queue_list_bt_remove_hd:
  "bt_ok ((k, vs) # q) \<Longrightarrow> bt_remove k ((k, vs) # q) = q"
  by (auto simp: bt_remove_def bt_ok_Cons bt_keys_def filter_id_conv)

section \<open>Pop, front, push and remove on the priority list\<close>

lemma pop_front_Nil: "queue_ok q \<Longrightarrow> queue_list q = [] \<Longrightarrow> pop_front q = Some (None, q)"
  by (simp add: queue_list_eq_Nil pop_front_def)

lemma pop_front_Cons:
  assumes "queue_ok q" "queue_list q = (k, v) # xs"
  shows "\<exists>q'. pop_front q = Some (Some (k, v), q') \<and> queue_ok q' \<and> queue_list q' = xs"
proof -
  obtain vs rest where q: "q = (k, v # vs) # rest"
    using assms by (cases q; cases "snd (hd q)") (auto simp: queue_ok_Cons)
  show ?thesis
  proof (cases "vs = []")
    case True
    then show ?thesis
      using assms q queue_list_bt_remove_hd [OF queue_ok_bt_ok, of k "v # vs" rest]
      by (auto simp: pop_front_def queue_ok_Cons)
  next
    case False
    then show ?thesis
      using assms q by (auto simp: pop_front_def queue_ok_Cons)
  qed
qed

lemma front_mut_Cons:
  assumes "queue_ok q" "queue_list q = (k, v) # xs"
  shows "\<exists>w. front_mut q = Some (Some (k, v, w)) \<and>
    (\<forall>v'. queue_ok (w v') \<and> queue_list (w v') = (k, v') # xs)"
proof -
  obtain vs rest where q: "q = (k, v # vs) # rest"
    using assms by (cases q; cases "snd (hd q)") (auto simp: queue_ok_Cons)
  then show ?thesis using assms by (auto simp: front_mut_def queue_ok_Cons)
qed

lemma queue_ok_push_back: "queue_ok q \<Longrightarrow> queue_ok (push_back k v q)"
  using set_bt_insert [of q] by (auto simp: push_back_def queue_ok_def)

text \<open>A new value goes behind everything with the same key or a better one.\<close>

lemma push_back_list:
  assumes "queue_ok q"
  shows "queue_list (push_back k v q) =
    takeWhile (\<lambda>(k', _). k' \<le> k) (queue_list q) @ (k, v) # dropWhile (\<lambda>(k', _). k' \<le> k) (queue_list q)"
  using assms
proof (induction q)
  case Nil
  then show ?case by (simp add: push_back_def)
next
  case (Cons e q)
  obtain j vs where e: "e = (j, vs)" by (cases e)
  have ok: "queue_ok q" "vs \<noteq> []" "\<forall>i \<in> set (bt_keys q). j < i" using Cons.prems e by (auto simp: queue_ok_Cons)
  have IH: "queue_list (push_back k v q) =
    takeWhile (\<lambda>(k', _). k' \<le> k) (queue_list q) @ (k, v) # dropWhile (\<lambda>(k', _). k' \<le> k) (queue_list q)"
    using Cons.IH ok(1) by simp
  let ?P = "\<lambda>(k', _). k' \<le> k"
  have gt: "\<not> ?P x" if "x \<in> set (queue_list q)" "k \<le> j" for x
    using that ok(3) set_keys_queue_list [OF ok(1)] by (force simp: not_le)
  have le: "takeWhile ?P (map (Pair j) vs @ ys) = map (Pair j) vs @ takeWhile ?P ys"
    "dropWhile ?P (map (Pair j) vs @ ys) = dropWhile ?P ys" if "j \<le> k" for ys
    using that by (induction vs) auto
  consider "j < k" | "j = k" | "k < j" by fastforce
  then show ?case
  proof cases
    case 1
    then have "push_back k v (e # q) = e # push_back k v q" using e by (auto simp: push_back_def)
    then show ?thesis
      using IH e 1 by (simp add: le)
  next
    case 2
    then have "takeWhile ?P (queue_list q) = []" "dropWhile ?P (queue_list q) = queue_list q"
      using gt by (cases "queue_list q"; auto)+
    then show ?thesis
      using 2 e le [of "queue_list q"] by (simp add: push_back_def)
  next
    case 3
    then have "bt_get q k = None" using ok(3) by (force simp: bt_get_None)
    then show ?thesis
      using 3 e ok(2) by (cases vs) (auto simp: push_back_def)
  qed
qed

lemma set_push_back: "queue_ok q \<Longrightarrow> set (queue_list (push_back k v q)) = insert (k, v) (set (queue_list q))"
  using push_back_list [of q k v]
  by (metis (no_types, lifting) Un_insert_right list.simps(15) set_append takeWhile_dropWhile_id)

lemma remove_first_Some:
  "remove_first P vs = Some (v, ws) \<Longrightarrow>
     \<exists>xs ys. vs = xs @ v # ys \<and> ws = xs @ ys \<and> P v \<and> (\<forall>x \<in> set xs. \<not> P x)"
proof (induction vs arbitrary: ws)
  case (Cons a vs)
  show ?case
  proof (cases "P a")
    case True
    with Cons.prems show ?thesis by (intro exI [of _ "[]"] exI [of _ vs]) simp
  next
    case False
    with Cons.prems obtain us where us: "remove_first P vs = Some (v, us)" "ws = a # us"
      by (auto split: option.splits)
    then obtain xs ys where "vs = xs @ v # ys" "us = xs @ ys" "P v" "\<forall>x \<in> set xs. \<not> P x"
      using Cons.IH by blast
    with us False show ?thesis by (intro exI [of _ "a # xs"] exI [of _ ys]) simp
  qed
qed simp

lemma remove_first_None: "remove_first P vs = None \<longleftrightarrow> (\<forall>v \<in> set vs. \<not> P v)"
  by (induction vs) (auto split: option.splits)

text \<open>Removal takes the first matching value of a level out of the priority list and leaves
  the order of the rest as it was.\<close>

lemma queue_remove_list:
  assumes "queue_ok q" "(k, v) \<in> set (queue_list q)" "P v"
    and uniq: "\<And>k' w. (k', w) \<in> set (queue_list q) \<Longrightarrow> P w \<Longrightarrow> w = v"
  shows "\<exists>q' xs ys. queue_remove k P q = (Some v, q') \<and> queue_ok q' \<and>
    queue_list q = xs @ (k, v) # ys \<and> queue_list q' = xs @ ys"
proof -
  obtain queue where kq: "(k, queue) \<in> set q" "v \<in> set queue"
    using assms(2) by (auto simp: set_queue_list)
  then have get: "bt_get q k = Some queue"
    using assms(1) by (simp add: bt_ok_get_iff queue_ok_def)
  obtain l r where q: "q = l @ (k, queue) # r" using kq(1) by (auto dest: split_list)
  have sub: "w \<in> set queue \<Longrightarrow> P w \<Longrightarrow> w = v" for w
    using uniq kq(1) by (auto simp: set_queue_list)
  obtain w ws where rf: "remove_first P queue = Some (w, ws)"
    using kq(2) assms(3) by (cases "remove_first P queue") (auto simp: remove_first_None)
  then obtain as bs where ab: "queue = as @ w # bs" "ws = as @ bs" "P w"
    using remove_first_Some [OF rf] by blast
  have w: "w = v" using sub ab by simp
  have ok: "bt_ok (l @ (k, queue) # r)" using assms(1) q by (simp add: queue_ok_def)
  then have lk: "\<forall>j \<in> set (bt_keys l). j < k" and rk: "\<forall>j \<in> set (bt_keys r). k < j"
    by (auto simp: bt_ok_append bt_ok_Cons)
  have rem: "bt_remove k q = l @ r"
  proof -
    have "filter (\<lambda>e. fst e \<noteq> k) l = l" "filter (\<lambda>e. fst e \<noteq> k) r = r"
      using lk rk by (auto simp: bt_keys_def filter_id_conv)
    then show ?thesis by (simp add: bt_remove_def q)
  qed
  have ins: "bt_insert k ws q = l @ (k, ws) # r"
    unfolding q using lk by (induction l) auto
  let ?q' = "if ws = [] then bt_remove k q else bt_insert k ws q"
  have "queue_remove k P q = (Some v, ?q')" using get rf w by (simp add: queue_remove_def)
  moreover have "queue_ok ?q'"
    using assms(1) ok q unfolding rem ins
    by (auto simp: queue_ok_def bt_ok_append bt_ok_Cons)
  moreover have "queue_list q = (queue_list l @ map (Pair k) as) @ (k, v) # (map (Pair k) bs @ queue_list r)"
    using q ab w by simp
  moreover have "queue_list ?q' = (queue_list l @ map (Pair k) as) @ (map (Pair k) bs @ queue_list r)"
    using ab unfolding rem ins by simp
  ultimately show ?thesis by blast
qed

text \<open>Keys never decrease along the priority list.\<close>

lemma queue_list_sorted: "queue_ok q \<Longrightarrow> sorted (map fst (queue_list q))"
proof (induction q)
  case (Cons e q)
  then have ok: "queue_ok q" "\<forall>i \<in> set (bt_keys q). fst e < i" by (cases e; auto simp: queue_ok_Cons)+
  moreover have "sorted (map fst (map (Pair (fst e)) (snd e)))" by (simp add: comp_def map_replicate_const)
  moreover have "\<forall>x \<in> set (map fst (queue_list q)). fst e \<le> x"
    using ok set_keys_queue_list [OF ok(1)] by auto
  ultimately show ?case using Cons.IH by (auto simp: sorted_append)
qed simp

end
