(* ===== verification/Fill_Plan.thy ===== *)
theory Fill_Plan
  imports Order_Queue
begin

text \<open>
  The read-only plan of the fills of an incoming order (\<open>order/plan.rs\<close>): the makers it
  consumes, the last partial fill and what remains of the taker.
\<close>

record fill_plan =
  pl_taker_order :: order_seq
  pl_filled_makers :: "order_seq list"
  pl_last_partial :: "(order_seq \<times> quantity) option"
  pl_taker_remaining :: quantity

record fill_plan_builder =
  bd_order :: order
  bd_filled_makers :: "order_seq list"
  bd_last_partial :: "(order_seq \<times> quantity) option"
  bd_taker_remaining :: quantity

datatype plan_outcome = Execute fill_plan | Kill

definition plan_builder :: "order \<Rightarrow> fill_plan_builder" where
  "plan_builder ord = \<lparr>bd_order = ord, bd_filled_makers = [], bd_last_partial = None,
     bd_taker_remaining = ord_remaining ord\<rparr>"

definition add_fill :: "fill_plan_builder \<Rightarrow> resting_order \<Rightarrow> fill_plan_builder option" where
  "add_fill bd resting = do {
     ensure (bd_last_partial bd = None);
     let maker_seq = ro_id resting;
     ensure (maker_seq \<noteq> ord_id (bd_order bd));
     let maker_qty = ro_remaining resting;
     let fill_qty = min (bd_taker_remaining bd) maker_qty;
     remaining \<leftarrow> quantity_sub (bd_taker_remaining bd) fill_qty;
     if fill_qty = maker_qty
     then Some (bd\<lparr>bd_taker_remaining := remaining,
                  bd_filled_makers := bd_filled_makers bd @ [maker_seq]\<rparr>)
     else do {
       ensure (remaining = quantity_ZERO);
       Some (bd\<lparr>bd_taker_remaining := remaining, bd_last_partial := Some (maker_seq, fill_qty)\<rparr>)
     }
   }"

definition into_plan :: "fill_plan_builder \<Rightarrow> fill_plan" where
  "into_plan bd = \<lparr>pl_taker_order = ord_id (bd_order bd), pl_filled_makers = bd_filled_makers bd,
     pl_last_partial = bd_last_partial bd, pl_taker_remaining = bd_taker_remaining bd\<rparr>"

definition build :: "fill_plan_builder \<Rightarrow> plan_outcome" where
  "build bd =
     (case ord_tif (bd_order bd) of
        GoodTilCanceled \<Rightarrow> Execute (into_plan bd)
      | FillOrKill \<Rightarrow>
          if \<not> is_zero (bd_taker_remaining bd) then Kill else Execute (into_plan bd))"

text \<open>The loop over the crossing makers: \<open>stop\<close> is the price test that ends it.\<close>

fun plan_walk ::
  "('k \<Rightarrow> bool) \<Rightarrow> ('k \<times> resting_order) list \<Rightarrow> fill_plan_builder \<Rightarrow> fill_plan_builder option" where
  "plan_walk stop [] bd = Some bd"
| "plan_walk stop ((k, resting) # rest) bd =
     (if stop k \<or> is_zero (bd_taker_remaining bd) then Some bd
      else add_fill bd resting \<bind> plan_walk stop rest)"

section \<open>The reference: taking liquidity from a priority list\<close>

text \<open>
  \<open>take_liquidity stop n makers\<close> is price-time matching on numbers: walk the makers best
  first, take \<open>min n maker\<close> from each until nothing is left of \<open>n\<close> or the price test stops
  the walk. The result is the fills (maker, price, amount), what is left of \<open>n\<close> and the
  makers that remain.
\<close>

fun take_liquidity ::
  "('k \<Rightarrow> bool) \<Rightarrow> nat \<Rightarrow> ('k \<times> resting_order) list \<Rightarrow>
   ('k \<times> order_seq \<times> nat) list \<times> nat \<times> ('k \<times> resting_order) list" where
  "take_liquidity stop n [] = ([], n, [])"
| "take_liquidity stop n ((k, r) # rest) =
     (if stop k \<or> n = 0 then ([], n, (k, r) # rest)
      else let m = q2n (ro_remaining r)
           in if m \<le> n
              then let (fs, n', rest') = take_liquidity stop (n - m) rest
                   in ((k, ro_id r, m) # fs, n', rest')
              else ([(k, ro_id r, n)], 0, (k, r\<lparr>ro_remaining := n2q (m - n)\<rparr>) # rest))"

text \<open>
  The same walk split the way a plan records it: the makers consumed in full, the optional
  last partial fill, what is left of \<open>n\<close> and the makers behind.
\<close>

fun split_makers ::
  "('k \<Rightarrow> bool) \<Rightarrow> nat \<Rightarrow> ('k \<times> resting_order) list \<Rightarrow>
   ('k \<times> resting_order) list \<times> ('k \<times> resting_order \<times> nat) option \<times> nat \<times> ('k \<times> resting_order) list" where
  "split_makers stop n [] = ([], None, n, [])"
| "split_makers stop n ((k, r) # rest) =
     (if stop k \<or> n = 0 then ([], None, n, (k, r) # rest)
      else let m = q2n (ro_remaining r)
           in if m \<le> n
              then let (full, p, n', rest') = split_makers stop (n - m) rest
                   in ((k, r) # full, p, n', rest')
              else ([], Some (k, r, n), 0, rest))"

definition consumed :: "('k \<times> resting_order) list \<Rightarrow> nat" where
  "consumed full = (\<Sum>(_, r) \<leftarrow> full. q2n (ro_remaining r))"

definition makers_ids :: "('k \<times> resting_order) list \<Rightarrow> order_seq list" where
  "makers_ids makers = map (\<lambda>(_, r). ro_id r) makers"

definition full_fill :: "'k \<times> resting_order \<Rightarrow> 'k \<times> order_seq \<times> nat" where
  "full_fill = (\<lambda>(k, r). (k, ro_id r, q2n (ro_remaining r)))"

lemma consumed_simps [simp]:
  "consumed [] = 0" "consumed ((k, r) # xs) = q2n (ro_remaining r) + consumed xs"
  by (simp_all add: consumed_def)

lemma consumed_append [simp]: "consumed (xs @ ys) = consumed xs + consumed ys"
  by (simp add: consumed_def)

lemma makers_ids_simps [simp]:
  "makers_ids [] = []" "makers_ids ((k, r) # xs) = ro_id r # makers_ids xs"
  "makers_ids (xs @ ys) = makers_ids xs @ makers_ids ys"
  by (simp_all add: makers_ids_def)

lemma full_fill_simp [simp]: "full_fill (k, r) = (k, ro_id r, q2n (ro_remaining r))"
  by (simp add: full_fill_def)

lemma take_liquidity_split:
  assumes "split_makers stop n makers = (full, p, n', rest)"
  shows "take_liquidity stop n makers =
    (map full_fill full @ (case p of None \<Rightarrow> [] | Some (k, r, x) \<Rightarrow> [(k, ro_id r, x)]), n',
     (case p of None \<Rightarrow> rest
      | Some (k, r, x) \<Rightarrow> (k, r\<lparr>ro_remaining := n2q (q2n (ro_remaining r) - x)\<rparr>) # rest))"
  using assms
  by (induction stop n makers arbitrary: full rule: split_makers.induct)
     (auto simp: Let_def split: if_splits prod.splits)

lemma split_makers_spec:
  assumes "split_makers stop n makers = (full, p, n', rest)"
  shows "makers = full @ (case p of None \<Rightarrow> rest | Some (k, r, x) \<Rightarrow> (k, r) # rest)"
    and "n = consumed full + (case p of None \<Rightarrow> n' | Some (k, r, x) \<Rightarrow> x)"
    and "\<forall>y \<in> set full. \<not> stop (fst y)"
    and "p = None \<Longrightarrow> n' = 0 \<or> rest = [] \<or> stop (fst (hd rest))"
    and "p = Some (k, r, x) \<Longrightarrow> n' = 0 \<and> \<not> stop k \<and> 0 < x \<and> x < q2n (ro_remaining r)"
proof -
  show "makers = full @ (case p of None \<Rightarrow> rest | Some (k, r, x) \<Rightarrow> (k, r) # rest)"
    using assms by (induction stop n makers arbitrary: full rule: split_makers.induct)
      (auto simp: Let_def split: if_splits prod.splits)
  show "n = consumed full + (case p of None \<Rightarrow> n' | Some (k, r, x) \<Rightarrow> x)"
    using assms by (induction stop n makers arbitrary: full rule: split_makers.induct)
      (auto simp: Let_def split: if_splits prod.splits)
  show "\<forall>y \<in> set full. \<not> stop (fst y)"
    using assms by (induction stop n makers arbitrary: full rule: split_makers.induct)
      (auto simp: Let_def split: if_splits prod.splits)
  show "p = None \<Longrightarrow> n' = 0 \<or> rest = [] \<or> stop (fst (hd rest))"
    using assms by (induction stop n makers arbitrary: full rule: split_makers.induct)
      (auto simp: Let_def split: if_splits prod.splits)
  show "p = Some (k, r, x) \<Longrightarrow> n' = 0 \<and> \<not> stop k \<and> 0 < x \<and> x < q2n (ro_remaining r)"
    using assms by (induction stop n makers arbitrary: full rule: split_makers.induct)
      (auto simp: Let_def split: if_splits prod.splits)
qed

lemma add_fill_full:
  assumes "bd_last_partial bd = None" "ro_id r \<noteq> ord_id (bd_order bd)"
    "q2n (ro_remaining r) \<le> q2n (bd_taker_remaining bd)"
  shows "add_fill bd r = Some (bd\<lparr>
    bd_taker_remaining := n2q (q2n (bd_taker_remaining bd) - q2n (ro_remaining r)),
    bd_filled_makers := bd_filled_makers bd @ [ro_id r]\<rparr>)"
  using assms by (simp add: add_fill_def min_def q2n_le quantity_sub_eq ensure_def Let_def)

lemma add_fill_partial:
  assumes "bd_last_partial bd = None" "ro_id r \<noteq> ord_id (bd_order bd)"
    "q2n (bd_taker_remaining bd) < q2n (ro_remaining r)"
  shows "add_fill bd r = Some (bd\<lparr>bd_taker_remaining := quantity_ZERO,
    bd_last_partial := Some (ro_id r, bd_taker_remaining bd)\<rparr>)"
proof -
  have "bd_taker_remaining bd \<noteq> ro_remaining r" using assms(3) by auto
  then show ?thesis
    using assms by (simp add: add_fill_def min_def q2n_le quantity_sub_eq ensure_def Let_def)
qed

lemma plan_walk_split:
  assumes "bd_last_partial bd = None"
    "\<forall>(k, r) \<in> set makers. ro_id r \<noteq> ord_id (bd_order bd)"
    "split_makers stop (q2n (bd_taker_remaining bd)) makers = (full, p, n', rest)"
  shows "plan_walk stop makers bd = Some (bd\<lparr>
    bd_filled_makers := bd_filled_makers bd @ makers_ids full,
    bd_last_partial := map_option (\<lambda>(k, r, x). (ro_id r, n2q x)) p,
    bd_taker_remaining := n2q n'\<rparr>)"
  using assms
proof (induction stop makers bd arbitrary: full rule: plan_walk.induct)
  case (1 stop bd)
  then show ?case by auto
next
  case (2 stop k r rest0 bd)
  let ?n = "q2n (bd_taker_remaining bd)" and ?m = "q2n (ro_remaining r)"
  have ids: "ro_id r \<noteq> ord_id (bd_order bd)" "\<forall>(k, r) \<in> set rest0. ro_id r \<noteq> ord_id (bd_order bd)"
    using "2.prems"(2) by auto
  consider "stop k \<or> ?n = 0" | "\<not> (stop k \<or> ?n = 0)" "?m \<le> ?n" | "\<not> (stop k \<or> ?n = 0)" "?n < ?m"
    by linarith
  then show ?case
  proof cases
    case 1
    then have "full = []" "p = None" "n' = ?n" using "2.prems"(3) by auto
    then show ?thesis using 1 "2.prems"(1) by (cases bd) (auto simp: is_zero_iff)
  next
    case 2
    let ?bd = "bd\<lparr>bd_taker_remaining := n2q (?n - ?m), bd_filled_makers := bd_filled_makers bd @ [ro_id r]\<rparr>"
    have add: "add_fill bd r = Some ?bd" by (rule add_fill_full [OF "2.prems"(1) ids(1) 2(2)])
    have nm: "q2n (n2q (?n - ?m)) = ?n - ?m" using q2n_bound [of "bd_taker_remaining bd"] by simp
    obtain full' where full': "split_makers stop (?n - ?m) rest0 = (full', p, n', rest)" "full = (k, r) # full'"
      using "2.prems"(3) 2 by (auto simp: Let_def split: prod.splits)
    have "plan_walk stop rest0 ?bd = Some (?bd\<lparr>
        bd_filled_makers := bd_filled_makers ?bd @ makers_ids full',
        bd_last_partial := map_option (\<lambda>(k, r, x). (ro_id r, n2q x)) p,
        bd_taker_remaining := n2q n'\<rparr>)"
      using "2.IH" [of ?bd full'] 2(1) add "2.prems"(1) ids(2) full'(1) nm by (simp add: is_zero_iff)
    then show ?thesis using 2(1) add full'(2) by (simp add: is_zero_iff)
  next
    case 3
    then have "full = []" "p = Some (k, r, ?n)" "n' = 0" using "2.prems"(3) by (auto simp: Let_def)
    moreover have "plan_walk stop rest0 (bd\<lparr>bd_taker_remaining := quantity_ZERO,
        bd_last_partial := Some (ro_id r, bd_taker_remaining bd)\<rparr>)
      = Some (bd\<lparr>bd_taker_remaining := quantity_ZERO, bd_last_partial := Some (ro_id r, bd_taker_remaining bd)\<rparr>)"
      by (cases rest0) (auto simp: is_zero_iff)
    ultimately show ?thesis
      using 3 add_fill_partial [OF "2.prems"(1) ids(1) 3(2)] by (simp add: is_zero_iff)
  qed
qed

text \<open>Nothing is created or lost: what the taker asked for is what the fills moved plus what
  is left, and the same amount leaves the makers.\<close>

lemma take_liquidity_amounts:
  assumes "take_liquidity stop n makers = (fs, n', rest)"
  shows "n = (\<Sum>(_, _, x) \<leftarrow> fs. x) + n'"
    and "consumed makers = (\<Sum>(_, _, x) \<leftarrow> fs. x) + consumed rest"
proof -
  have bound: "q2n (n2q (q2n (ro_remaining r) - x)) = q2n (ro_remaining r) - x" for r x
    using q2n_bound [of "ro_remaining r"] by simp
  show "n = (\<Sum>(_, _, x) \<leftarrow> fs. x) + n'"
    using assms
    by (induction stop n makers arbitrary: fs rule: take_liquidity.induct)
       (auto simp: Let_def split: if_splits prod.splits)
  show "consumed makers = (\<Sum>(_, _, x) \<leftarrow> fs. x) + consumed rest"
    using assms
    by (induction stop n makers arbitrary: fs rule: take_liquidity.induct)
       (auto simp: Let_def bound split: if_splits prod.splits)
qed

text \<open>No fill trades through the price test.\<close>

lemma take_liquidity_prices:
  "take_liquidity stop n makers = (fs, n', rest) \<Longrightarrow> \<forall>f \<in> set fs. \<not> stop (fst f)"
  by (induction stop n makers arbitrary: fs rule: take_liquidity.induct)
     (auto simp: Let_def split: if_splits prod.splits)

text \<open>If anything is left then every maker that remains is stopped by the price test, when
  the test is monotone along the makers.\<close>

lemma take_liquidity_exhausts:
  assumes "take_liquidity stop n makers = (fs, n', rest)" "0 < n'"
    and "\<forall>i j. i < j \<longrightarrow> j < length makers \<longrightarrow> stop (fst (makers ! i)) \<longrightarrow> stop (fst (makers ! j))"
  shows "\<forall>y \<in> set rest. stop (fst y)"
proof -
  obtain full p n0 rest0 where sp0: "split_makers stop n makers = (full, p, n0, rest0)"
    by (metis prod_cases4)
  then have sp: "split_makers stop n makers = (full, p, n', rest0)"
    and rest: "rest = (case p of None \<Rightarrow> rest0
      | Some (k, r, x) \<Rightarrow> (k, r\<lparr>ro_remaining := n2q (q2n (ro_remaining r) - x)\<rparr>) # rest0)"
    using assms(1) take_liquidity_split [OF sp0] by auto
  note spec = split_makers_spec [OF sp]
  have p: "p = None" using spec(5) assms(2) by (cases p) auto
  then have m: "makers = full @ rest" and h: "rest = [] \<or> stop (fst (hd rest))"
    using spec(1,4) rest assms(2) by auto
  have "stop (fst (rest ! j))" if "j < length rest" for j
  proof (cases j)
    case 0
    then show ?thesis using h that by (cases rest) auto
  next
    case (Suc i)
    have "stop (fst (makers ! length full))" using h that m by (cases rest) (auto simp: nth_append)
    then have "stop (fst (makers ! (length full + j)))"
      using assms(3) m that Suc by (metis add_less_cancel_left length_append less_add_same_cancel1 zero_less_Suc)
    then show ?thesis using m by simp
  qed
  then show ?thesis by (force simp: in_set_conv_nth)
qed

end
