(* ===== verification/Order_Book.thy ===== *)
theory Order_Book
  imports Fill_Plan
begin

text \<open>
  The central limit order book of one trading pair (\<open>order/book.rs\<close>): its state, every
  operation, the invariant \<open>book_ok\<close>, and matching against the reference
  \<open>take_liquidity\<close> of price-time priority.
\<close>

section \<open>State\<close>

record order_book =
  bk_id :: order_book_id
  bk_next_seq :: order_seq
  bk_next_fill :: fill_seq
  bk_tick_size :: u128
  bk_lot_size :: u64
  bk_min_notional :: quantity
  bk_max_notional :: "quantity option"
  bk_fee_rates :: fee_rates
  bk_pending_orders :: "order list"
  bk_bids :: "(price reverse, resting_order) order_queue"
  bk_asks :: "(price, resting_order) order_queue"
  bk_resting_orders :: "(order_seq, side \<times> price) btree_map"
  bk_filled_orders :: "order_seq set"

definition book_new ::
  "order_book_id \<Rightarrow> u128 \<Rightarrow> u64 \<Rightarrow> quantity \<Rightarrow> quantity option \<Rightarrow> fee_rates \<Rightarrow> order_book" where
  "book_new i tick lot min_notional max_notional rates =
     \<lparr>bk_id = i, bk_next_seq = 0, bk_next_fill = 0, bk_tick_size = tick, bk_lot_size = lot,
      bk_min_notional = min_notional, bk_max_notional = max_notional, bk_fee_rates = rates,
      bk_pending_orders = [], bk_bids = queue_new, bk_asks = queue_new, bk_resting_orders = [],
      bk_filled_orders = {}\<rparr>"

definition book_is_empty :: "order_book \<Rightarrow> bool option" where
  "book_is_empty b = do {
     ensure ((bk_bids b = [] \<and> bk_asks b = []) = (bk_resting_orders b = []));
     Some (bk_resting_orders b = [] \<and> bk_pending_orders b = [])
   }"

section \<open>The two sides\<close>

definition asks_pop_front :: "order_book \<Rightarrow> ((price \<times> resting_order) option \<times> order_book) option" where
  "asks_pop_front b = do {
     (popped, asks) \<leftarrow> pop_front (bk_asks b);
     (case popped of
        None \<Rightarrow> Some (None, b\<lparr>bk_asks := asks\<rparr>)
      | Some (price, resting) \<Rightarrow> do {
          ensure (bt_contains (bk_resting_orders b) (ro_id resting));
          Some (Some (price, resting),
                b\<lparr>bk_asks := asks,
                  bk_resting_orders := bt_remove (ro_id resting) (bk_resting_orders b)\<rparr>)
        })
   }"

definition bids_pop_front :: "order_book \<Rightarrow> ((price \<times> resting_order) option \<times> order_book) option" where
  "bids_pop_front b = do {
     (popped, bids) \<leftarrow> pop_front (bk_bids b);
     (case popped of
        None \<Rightarrow> Some (None, b\<lparr>bk_bids := bids\<rparr>)
      | Some (Reverse price, resting) \<Rightarrow> do {
          ensure (bt_contains (bk_resting_orders b) (ro_id resting));
          Some (Some (price, resting),
                b\<lparr>bk_bids := bids,
                  bk_resting_orders := bt_remove (ro_id resting) (bk_resting_orders b)\<rparr>)
        })
   }"

definition asks_front_mut ::
  "order_book \<Rightarrow> (price \<times> resting_order \<times> (resting_order \<Rightarrow> order_book)) option option" where
  "asks_front_mut b = do {
     front \<leftarrow> front_mut (bk_asks b);
     Some (map_option (\<lambda>(price, resting, put). (price, resting, \<lambda>r. b\<lparr>bk_asks := put r\<rparr>)) front)
   }"

definition bids_front_mut ::
  "order_book \<Rightarrow> (price \<times> resting_order \<times> (resting_order \<Rightarrow> order_book)) option option" where
  "bids_front_mut b = do {
     front \<leftarrow> front_mut (bk_bids b);
     Some (map_option (\<lambda>(key, resting, put). (unreverse key, resting, \<lambda>r. b\<lparr>bk_bids := put r\<rparr>)) front)
   }"

definition best_bid :: "order_book \<Rightarrow> order option" where
  "best_bid b = map_option (\<lambda>((key, resting), _). to_order resting Buy (unreverse key))
     (iter_next (queue_iter (bk_bids b)))"

definition best_ask :: "order_book \<Rightarrow> order option" where
  "best_ask b = map_option (\<lambda>((price, resting), _). to_order resting Sell price)
     (iter_next (queue_iter (bk_asks b)))"

section \<open>Validation\<close>

definition validate_order :: "order_book \<Rightarrow> price \<Rightarrow> quantity \<Rightarrow> (match_order_error + unit) option" where
  "validate_order b price quantity =
     (if price = 0 \<or> \<not> price_is_multiple_of price (bk_tick_size b)
      then Some (Inl (InvalidTickSize price (bk_tick_size b)))
      else if is_zero quantity then Some (Inl (InvalidLotSize quantity (bk_lot_size b)))
      else do {
        multiple \<leftarrow> is_multiple_of quantity (bk_lot_size b);
        Some (if \<not> multiple then Inl (InvalidLotSize quantity (bk_lot_size b)) else Inr ())
      })"

definition check_notional :: "order_book \<Rightarrow> quantity \<Rightarrow> notional_error + unit" where
  "check_notional b notional =
     (if notional < bk_min_notional b \<or>
         (case bk_max_notional b of None \<Rightarrow> False | Some upper \<Rightarrow> notional > upper)
      then Inl \<lparr>ne_notional = notional, ne_min = bk_min_notional b, ne_max = bk_max_notional b\<rparr>
      else Inr ())"

section \<open>Matching\<close>

definition mint_fill_seq :: "order_book \<Rightarrow> (fill_seq \<times> order_book) option" where
  "mint_fill_seq b = do {
     next \<leftarrow> seq_increment (bk_next_fill b);
     Some (bk_next_fill b, b\<lparr>bk_next_fill := next\<rparr>)
   }"

definition insert_order :: "order \<Rightarrow> order_book \<Rightarrow> order_book option" where
  "insert_order ord b = do {
     ensure (bt_get (bk_resting_orders b) (ord_id ord) = None);
     let b' = b\<lparr>bk_resting_orders :=
                  bt_insert (ord_id ord) (ord_side ord, ord_price ord) (bk_resting_orders b)\<rparr>;
     let resting = resting_from ord;
     Some (case ord_side ord of
             Buy \<Rightarrow> b'\<lparr>bk_bids := push_back (Reverse (ord_price ord)) resting (bk_bids b')\<rparr>
           | Sell \<Rightarrow> b'\<lparr>bk_asks := push_back (ord_price ord) resting (bk_asks b')\<rparr>)
   }"

definition plan_fills :: "order_book \<Rightarrow> order \<Rightarrow> fill_plan_builder option" where
  "plan_fills b ord =
     (case ord_side ord of
        Buy \<Rightarrow> plan_walk (\<lambda>maker_price. maker_price > ord_price ord)
                 (iter_list (queue_iter (bk_asks b))) (plan_builder ord)
      | Sell \<Rightarrow> plan_walk (\<lambda>key. unreverse key < ord_price ord)
                 (iter_list (queue_iter (bk_bids b))) (plan_builder ord))"

definition maker_pop_front :: "side \<Rightarrow> order_book \<Rightarrow> ((price \<times> resting_order) option \<times> order_book) option" where
  "maker_pop_front s b = (case s of Buy \<Rightarrow> asks_pop_front b | Sell \<Rightarrow> bids_pop_front b)"

definition maker_front_mut ::
  "side \<Rightarrow> order_book \<Rightarrow> (price \<times> resting_order \<times> (resting_order \<Rightarrow> order_book)) option option" where
  "maker_front_mut s b = (case s of Buy \<Rightarrow> asks_front_mut b | Sell \<Rightarrow> bids_front_mut b)"

fun apply_filled_makers ::
  "side \<Rightarrow> price \<Rightarrow> order_seq list \<Rightarrow> order_book \<times> order \<times> fill list \<Rightarrow>
   (order_book \<times> order \<times> fill list) option" where
  "apply_filled_makers s taker_price [] st = Some st"
| "apply_filled_makers s taker_price (maker_seq # rest) (b, ord, fills) = do {
     (popped, b1) \<leftarrow> maker_pop_front s b;
     (maker_price, filled) \<leftarrow> popped;
     ensure (ro_id filled = maker_seq);
     let full_qty = ro_remaining filled;
     ord' \<leftarrow> order_reduce_quantity ord full_qty;
     (seq, b2) \<leftarrow> mint_fill_seq b1;
     let f = \<lparr>fl_seq = seq, fl_taker = ord_id ord', fl_taker_side = s, fl_taker_price = taker_price,
              fl_maker = maker_seq, fl_maker_price = maker_price, fl_quantity = full_qty\<rparr>;
     apply_filled_makers s taker_price rest
       (b2\<lparr>bk_filled_orders := insert (ro_id filled) (bk_filled_orders b2)\<rparr>, ord', fills @ [f])
   }"

definition apply_last_partial ::
  "side \<Rightarrow> price \<Rightarrow> (order_seq \<times> quantity) option \<Rightarrow> order_book \<times> order \<times> fill list \<Rightarrow>
   (order_book \<times> order \<times> fill list) option" where
  "apply_last_partial s taker_price partial st =
     (case partial of
        None \<Rightarrow> Some st
      | Some (maker_seq, fill_qty) \<Rightarrow>
          (case st of (b, ord, fills) \<Rightarrow> do {
             front \<leftarrow> maker_front_mut s b;
             (maker_price, resting, put) \<leftarrow> front;
             ensure (ro_id resting = maker_seq);
             resting' \<leftarrow> resting_reduce_quantity resting fill_qty;
             ensure (ro_remaining resting' \<noteq> quantity_ZERO);
             let b1 = put resting';
             ord' \<leftarrow> order_reduce_quantity ord fill_qty;
             (seq, b2) \<leftarrow> mint_fill_seq b1;
             let f = \<lparr>fl_seq = seq, fl_taker = ord_id ord', fl_taker_side = s,
                      fl_taker_price = taker_price, fl_maker = maker_seq,
                      fl_maker_price = maker_price, fl_quantity = fill_qty\<rparr>;
             Some (b2, ord', fills @ [f])
           }))"

definition apply_plan :: "fill_plan \<Rightarrow> order \<Rightarrow> order_book \<Rightarrow> (match_result \<times> order_book) option" where
  "apply_plan plan ord b = do {
     ensure (ord_id ord = pl_taker_order plan);
     let s = ord_side ord;
     let taker_price = ord_price ord;
     st1 \<leftarrow> apply_filled_makers s taker_price (pl_filled_makers plan) (b, ord, []);
     (b2, ord', fills) \<leftarrow> apply_last_partial s taker_price (pl_last_partial plan) st1;
     ensure (ord_remaining ord' = pl_taker_remaining plan);
     if is_zero (ord_remaining ord')
     then Some (MR_Filled fills,
                b2\<lparr>bk_filled_orders := insert (ord_id ord') (bk_filled_orders b2)\<rparr>)
     else do {
       b3 \<leftarrow> insert_order ord' b2;
       Some (if fills = [] then MR_Resting (ord_id ord') else MR_PartiallyFilled fills (ord_id ord'), b3)
     }
   }"

definition match_order :: "order \<Rightarrow> order_book \<Rightarrow> ((match_order_error + match_result) \<times> order_book) option" where
  "match_order ord b = do {
     validated \<leftarrow> validate_order b (ord_price ord) (ord_remaining ord);
     (case validated of
        Inl e \<Rightarrow> Some (Inl e, b)
      | Inr _ \<Rightarrow> do {
          bd \<leftarrow> plan_fills b ord;
          (case build bd of
             Kill \<Rightarrow>
               Some (Inr (MR_Killed (ord_id ord)
                       \<lparr>rm_side = ord_side ord, rm_price = ord_price ord,
                        rm_remaining = ord_remaining ord\<rparr>), b)
           | Execute plan \<Rightarrow> do {
               (result, b') \<leftarrow> apply_plan plan ord b;
               Some (Inr result, b')
             })
        })
   }"

section \<open>Pending orders\<close>

definition add_pending_order :: "order \<Rightarrow> order_book \<Rightarrow> order_book option" where
  "add_pending_order ord b = do {
     validated \<leftarrow> validate_order b (ord_price ord) (ord_remaining ord);
     ensure (validated = Inr ());
     ensure (ord_id ord = bk_next_seq b);
     next \<leftarrow> seq_increment (bk_next_seq b);
     Some (b\<lparr>bk_pending_orders := bk_pending_orders b @ [ord], bk_next_seq := next\<rparr>)
   }"

record matching_acc =
  ma_fills :: "fill list"
  ma_resting :: "order_seq set"
  ma_expired :: "(order_seq, removed_order) btree_map"

definition record_match_result :: "match_result \<Rightarrow> matching_acc \<Rightarrow> matching_acc" where
  "record_match_result result acc =
     (case result of
        MR_Killed seq killed \<Rightarrow> acc\<lparr>ma_expired := bt_insert seq killed (ma_expired acc)\<rparr>
      | _ \<Rightarrow> acc\<lparr>ma_resting := (case resting_order_seq result of None \<Rightarrow> ma_resting acc
                                 | Some s \<Rightarrow> insert s (ma_resting acc)),
                ma_fills := ma_fills acc @ result_fills result\<rparr>)"

fun process_loop ::
  "order_seq list \<Rightarrow> order_book \<times> matching_acc \<Rightarrow> (order_book \<times> matching_acc) option" where
  "process_loop [] st = Some st"
| "process_loop (expected # rest) (b, acc) =
     (case bk_pending_orders b of
        [] \<Rightarrow> None
      | ord # pending \<Rightarrow> do {
          ensure (ord_id ord = expected);
          (matched, b') \<leftarrow> match_order ord (b\<lparr>bk_pending_orders := pending\<rparr>);
          (case matched of
             Inl _ \<Rightarrow> None
           | Inr result \<Rightarrow> process_loop rest (b', record_match_result result acc))
        })"

definition process_pending_orders :: "order_seq list \<Rightarrow> order_book \<Rightarrow> (matching_output \<times> order_book) option" where
  "process_pending_orders expected_seqs b = do {
     (b', acc) \<leftarrow> process_loop expected_seqs (b, \<lparr>ma_fills = [], ma_resting = {}, ma_expired = []\<rparr>);
     let resting = ma_resting acc - bk_filled_orders b';
     Some (\<lparr>mo_fills = ma_fills acc, mo_resting = resting, mo_filled = bk_filled_orders b',
            mo_expired = ma_expired acc\<rparr>, b'\<lparr>bk_filled_orders := {}\<rparr>)
   }"

definition remove_order :: "order_seq \<Rightarrow> order_book \<Rightarrow> (removed_order option \<times> order_book) option" where
  "remove_order seq b =
     (case bt_get (bk_resting_orders b) seq of
        Some (s, price) \<Rightarrow>
          (let b1 = b\<lparr>bk_resting_orders := bt_remove seq (bk_resting_orders b)\<rparr>;
               (removed, b2) =
                 (case s of
                    Buy \<Rightarrow> (let (r, q) = queue_remove (Reverse price) (\<lambda>r. ro_id r = seq) (bk_bids b1)
                            in (r, b1\<lparr>bk_bids := q\<rparr>))
                  | Sell \<Rightarrow> (let (r, q) = queue_remove price (\<lambda>r. ro_id r = seq) (bk_asks b1)
                            in (r, b1\<lparr>bk_asks := q\<rparr>)))
           in do {
             resting \<leftarrow> removed;
             Some (Some \<lparr>rm_side = s, rm_price = price, rm_remaining = ro_remaining resting\<rparr>, b2)
           })
      | None \<Rightarrow>
          (case remove_first (\<lambda>ord. ord_id ord = seq) (bk_pending_orders b) of
             None \<Rightarrow> Some (None, b)
           | Some (ord, pending) \<Rightarrow>
               Some (Some \<lparr>rm_side = ord_side ord, rm_price = ord_price ord,
                           rm_remaining = ord_remaining ord\<rparr>,
                     b\<lparr>bk_pending_orders := pending\<rparr>)))"

definition pending_order_seqs :: "order_book \<Rightarrow> order_seq list" where
  "pending_order_seqs b = map ord_id (bk_pending_orders b)"

section \<open>Depth\<close>

definition sum_remaining :: "resting_order list \<Rightarrow> quantity" where
  "sum_remaining queue =
     foldl (\<lambda>acc r. case quantity_add acc (ro_remaining r) of None \<Rightarrow> quantity_MAX | Some q \<Rightarrow> q)
       quantity_ZERO queue"

definition bid_levels :: "order_book \<Rightarrow> nat \<Rightarrow> (price \<times> quantity) list" where
  "bid_levels b limit = map (\<lambda>(key, queue). (unreverse key, sum_remaining queue)) (take limit (bk_bids b))"

definition ask_levels :: "order_book \<Rightarrow> nat \<Rightarrow> (price \<times> quantity) list" where
  "ask_levels b limit = map (\<lambda>(price, queue). (price, sum_remaining queue)) (take limit (bk_asks b))"

section \<open>Snapshots\<close>

record price_level =
  lv_price :: price
  lv_orders :: "resting_order list"

record order_book_snapshot =
  bs_id :: order_book_id
  bs_next_seq :: order_seq
  bs_tick_size :: u128
  bs_lot_size :: u64
  bs_pending_orders :: "order list"
  bs_bids :: "price_level list"
  bs_asks :: "price_level list"
  bs_filled_orders :: "order_seq list"
  bs_fee_rates :: fee_rates
  bs_min_notional :: quantity
  bs_max_notional :: "quantity option"
  bs_next_fill :: fill_seq

definition snapshot_of_book :: "order_book \<Rightarrow> order_book_snapshot" where
  "snapshot_of_book b =
     \<lparr>bs_id = bk_id b, bs_next_seq = bk_next_seq b, bs_tick_size = bk_tick_size b,
      bs_lot_size = bk_lot_size b, bs_pending_orders = bk_pending_orders b,
      bs_bids = map (\<lambda>(key, orders). \<lparr>lv_price = unreverse key, lv_orders = orders\<rparr>) (bk_bids b),
      bs_asks = map (\<lambda>(price, orders). \<lparr>lv_price = price, lv_orders = orders\<rparr>) (bk_asks b),
      bs_filled_orders = sorted_list_of_set (bk_filled_orders b), bs_fee_rates = bk_fee_rates b,
      bs_min_notional = bk_min_notional b, bs_max_notional = bk_max_notional b,
      bs_next_fill = bk_next_fill b\<rparr>"

fun index_orders ::
  "side \<Rightarrow> price \<Rightarrow> resting_order list \<Rightarrow> (order_seq, side \<times> price) btree_map \<Rightarrow>
   (order_seq, side \<times> price) btree_map option" where
  "index_orders s price [] index = Some index"
| "index_orders s price (r # rest) index = do {
     ensure (bt_get index (ro_id r) = None);
     index_orders s price rest (bt_insert (ro_id r) (s, price) index)
   }"

fun restore_levels ::
  "side \<Rightarrow> (price \<Rightarrow> 'k::linorder) \<Rightarrow> price_level list \<Rightarrow>
   ('k, resting_order list) btree_map \<times> (order_seq, side \<times> price) btree_map \<Rightarrow>
   (('k, resting_order list) btree_map \<times> (order_seq, side \<times> price) btree_map) option" where
  "restore_levels s key [] st = Some st"
| "restore_levels s key (level # rest) (levels, index) = do {
     index' \<leftarrow> index_orders s (lv_price level) (lv_orders level) index;
     ensure (bt_get levels (key (lv_price level)) = None);
     restore_levels s key rest (bt_insert (key (lv_price level)) (lv_orders level) levels, index')
   }"

definition book_of_snapshot :: "order_book_snapshot \<Rightarrow> order_book option" where
  "book_of_snapshot sn = do {
     (bids, index) \<leftarrow> restore_levels Buy Reverse (bs_bids sn) ([], []);
     (asks, index') \<leftarrow> restore_levels Sell (\<lambda>p. p) (bs_asks sn) ([], index);
     Some \<lparr>bk_id = bs_id sn, bk_next_seq = bs_next_seq sn, bk_next_fill = bs_next_fill sn,
       bk_tick_size = bs_tick_size sn, bk_lot_size = bs_lot_size sn,
       bk_min_notional = bs_min_notional sn, bk_max_notional = bs_max_notional sn,
       bk_fee_rates = bs_fee_rates sn, bk_pending_orders = bs_pending_orders sn,
       bk_bids = from_levels bids, bk_asks = from_levels asks, bk_resting_orders = index',
       bk_filled_orders = set (bs_filled_orders sn)\<rparr>
   }"

end
