(* ===== verification/Book_Matching.thy ===== *)
theory Book_Matching
  imports Order_Book
begin

text \<open>
  Correctness of the order book: the priority lists of the two sides, the invariant
  \<open>book_ok\<close>, and that matching never traps on a well-formed book and does what the
  reference \<open>take_liquidity\<close> says.
\<close>

section \<open>The abstract view\<close>

fun opposite :: "side \<Rightarrow> side" where
  "opposite Buy = Sell"
| "opposite Sell = Buy"

fun queues_list ::
  "side \<Rightarrow> (price reverse, resting_order) order_queue \<Rightarrow> (price, resting_order) order_queue \<Rightarrow>
   (price \<times> resting_order) list" where
  "queues_list Buy bids asks = map (\<lambda>(key, r). (unreverse key, r)) (queue_list bids)"
| "queues_list Sell bids asks = queue_list asks"

definition side_list :: "side \<Rightarrow> order_book \<Rightarrow> (price \<times> resting_order) list" where
  "side_list s b = queues_list s (bk_bids b) (bk_asks b)"

text \<open>The walk over the makers stops at a price beyond the taker's limit.\<close>

fun stops :: "side \<Rightarrow> price \<Rightarrow> price \<Rightarrow> bool" where
  "stops Buy limit maker_price \<longleftrightarrow> maker_price > limit"
| "stops Sell limit maker_price \<longleftrightarrow> maker_price < limit"

text \<open>The fills of a taker as the book records them, numbered from \<open>seq\<close>.\<close>

fun fills_from :: "order \<Rightarrow> fill_seq \<Rightarrow> (price \<times> order_seq \<times> nat) list \<Rightarrow> fill list" where
  "fills_from ord seq [] = []"
| "fills_from ord seq ((p, i, x) # fs) =
     \<lparr>fl_seq = seq, fl_taker = ord_id ord, fl_taker_side = ord_side ord,
      fl_taker_price = ord_price ord, fl_maker = i, fl_maker_price = p, fl_quantity = n2q x\<rparr>
     # fills_from ord (seq + 1) fs"

lemma fills_from_append:
  "fills_from ord seq (xs @ ys) = fills_from ord seq xs @ fills_from ord (seq + of_nat (length xs)) ys"
  by (induction xs arbitrary: seq) (auto simp: algebra_simps)

lemma fills_from_cong:
  "ord_id a = ord_id b \<Longrightarrow> ord_side a = ord_side b \<Longrightarrow> ord_price a = ord_price b \<Longrightarrow>
   fills_from a seq fs = fills_from b seq fs"
  by (induction fs arbitrary: seq) auto

section \<open>Popping and reducing the best maker\<close>

definition with_queues ::
  "(price reverse, resting_order) order_queue \<Rightarrow> (price, resting_order) order_queue \<Rightarrow>
   order_book \<Rightarrow> order_book" where
  "with_queues bids asks b = b\<lparr>bk_bids := bids, bk_asks := asks\<rparr>"

lemma with_queues_simps [simp]:
  "bk_bids (with_queues bids asks b) = bids" "bk_asks (with_queues bids asks b) = asks"
  "bk_resting_orders (with_queues bids asks b) = bk_resting_orders b"
  "bk_next_fill (with_queues bids asks b) = bk_next_fill b"
  "bk_next_seq (with_queues bids asks b) = bk_next_seq b"
  "bk_filled_orders (with_queues bids asks b) = bk_filled_orders b"
  "bk_pending_orders (with_queues bids asks b) = bk_pending_orders b"
  "bk_tick_size (with_queues bids asks b) = bk_tick_size b"
  "bk_lot_size (with_queues bids asks b) = bk_lot_size b"
  by (simp_all add: with_queues_def)

lemma maker_pop_front_Cons:
  assumes "queue_ok (bk_bids b)" "queue_ok (bk_asks b)" "side_list (opposite s) b = (p, r) # xs"
    "bt_contains (bk_resting_orders b) (ro_id r)"
  shows "\<exists>bids asks. maker_pop_front s b = Some (Some (p, r),
      with_queues bids asks b\<lparr>bk_resting_orders := bt_remove (ro_id r) (bk_resting_orders b)\<rparr>) \<and>
    queue_ok bids \<and> queue_ok asks \<and> queues_list (opposite s) bids asks = xs \<and>
    queues_list s bids asks = side_list s b"
proof (cases s)
  case Buy
  then obtain asks where "pop_front (bk_asks b) = Some (Some (p, r), asks)" "queue_ok asks" "queue_list asks = xs"
    using assms pop_front_Cons [of "bk_asks b" p r xs] by (auto simp: side_list_def)
  then show ?thesis
    using Buy assms
    by (intro exI [of _ "bk_bids b"] exI [of _ asks])
       (simp add: maker_pop_front_def asks_pop_front_def with_queues_def side_list_def ensure_def)
next
  case Sell
  then obtain ys where ys: "queue_list (bk_bids b) = (Reverse p, r) # ys" "map (\<lambda>(key, r). (unreverse key, r)) ys = xs"
    using assms(3) by (auto simp: side_list_def map_eq_Cons_conv)
  then obtain bids where "pop_front (bk_bids b) = Some (Some (Reverse p, r), bids)" "queue_ok bids" "queue_list bids = ys"
    using assms pop_front_Cons [of "bk_bids b" "Reverse p" r ys] by auto
  then show ?thesis
    using Sell assms ys
    by (intro exI [of _ bids] exI [of _ "bk_asks b"])
       (simp add: maker_pop_front_def bids_pop_front_def with_queues_def side_list_def ensure_def)
qed

lemma maker_front_mut_Cons:
  assumes "queue_ok (bk_bids b)" "queue_ok (bk_asks b)" "side_list (opposite s) b = (p, r) # xs"
  shows "\<exists>put. maker_front_mut s b = Some (Some (p, r, put)) \<and>
    (\<forall>r'. \<exists>bids asks. put r' = with_queues bids asks b \<and> queue_ok bids \<and> queue_ok asks \<and>
       queues_list (opposite s) bids asks = (p, r') # xs \<and> queues_list s bids asks = side_list s b)"
proof (cases s)
  case Buy
  then obtain w where w: "front_mut (bk_asks b) = Some (Some (p, r, w))"
      "\<And>r'. queue_ok (w r') \<and> queue_list (w r') = (p, r') # xs"
    using assms front_mut_Cons [of "bk_asks b" p r xs] by (auto simp: side_list_def)
  have "\<exists>bids asks. b\<lparr>bk_asks := w r'\<rparr> = with_queues bids asks b \<and> queue_ok bids \<and> queue_ok asks \<and>
       queues_list (opposite s) bids asks = (p, r') # xs \<and> queues_list s bids asks = side_list s b" for r'
    using Buy assms(1) w(2)
    by (intro exI [of _ "bk_bids b"] exI [of _ "w r'"]) (simp add: with_queues_def side_list_def)
  then show ?thesis using Buy w(1) by (auto simp: maker_front_mut_def asks_front_mut_def)
next
  case Sell
  then obtain ys where ys: "queue_list (bk_bids b) = (Reverse p, r) # ys" "map (\<lambda>(key, r). (unreverse key, r)) ys = xs"
    using assms(3) by (auto simp: side_list_def map_eq_Cons_conv)
  then obtain w where w: "front_mut (bk_bids b) = Some (Some (Reverse p, r, w))"
      "\<And>r'. queue_ok (w r') \<and> queue_list (w r') = (Reverse p, r') # ys"
    using assms front_mut_Cons [of "bk_bids b" "Reverse p" r ys] by auto
  have "\<exists>bids asks. b\<lparr>bk_bids := w r'\<rparr> = with_queues bids asks b \<and> queue_ok bids \<and> queue_ok asks \<and>
       queues_list (opposite s) bids asks = (p, r') # xs \<and> queues_list s bids asks = side_list s b" for r'
    using Sell assms(2) w(2) ys(2)
    by (intro exI [of _ "w r'"] exI [of _ "bk_asks b"]) (simp add: with_queues_def side_list_def)
  then show ?thesis using Sell w(1) by (auto simp: maker_front_mut_def bids_front_mut_def)
qed

lemma order_reduce_quantity_eq:
  "q2n amount \<le> q2n (ord_remaining ord) \<Longrightarrow>
   order_reduce_quantity ord amount = Some (ord\<lparr>ord_remaining := n2q (q2n (ord_remaining ord) - q2n amount)\<rparr>)"
  by (simp add: order_reduce_quantity_def quantity_sub_eq)

lemma resting_reduce_quantity_eq:
  "q2n amount \<le> q2n (ro_remaining r) \<Longrightarrow>
   resting_reduce_quantity r amount = Some (r\<lparr>ro_remaining := n2q (q2n (ro_remaining r) - q2n amount)\<rparr>)"
  by (simp add: resting_reduce_quantity_def quantity_sub_eq)

lemma mint_fill_seq_eq:
  "unat (bk_next_fill b) + 1 < 2 ^ 64 \<Longrightarrow>
   mint_fill_seq b = Some (bk_next_fill b, b\<lparr>bk_next_fill := bk_next_fill b + 1\<rparr>)"
  by (simp add: mint_fill_seq_def seq_increment_def checked_add_def)

section \<open>Replaying a plan\<close>

definition drop_ids :: "order_seq set \<Rightarrow> (order_seq, 'v) btree_map \<Rightarrow> (order_seq, 'v) btree_map" where
  "drop_ids ids m = filter (\<lambda>e. fst e \<notin> ids) m"

lemma drop_ids_remove: "drop_ids ids (bt_remove i m) = drop_ids (insert i ids) m"
  by (simp add: drop_ids_def bt_remove_def conj_commute)

lemma drop_ids_empty [simp]: "drop_ids {} m = m"
  by (simp add: drop_ids_def)

lemma bt_get_drop_ids [simp]: "bt_get (drop_ids ids m) i = (if i \<in> ids then None else bt_get m i)"
  by (induction m) (auto simp: drop_ids_def)

lemma bt_ok_drop_ids [simp]: "bt_ok m \<Longrightarrow> bt_ok (drop_ids ids m)"
  by (simp add: drop_ids_def)

lemma apply_filled_makers_eq:
  assumes "queue_ok (bk_bids b)" "queue_ok (bk_asks b)"
    "side_list (opposite s) b = full @ rest"
    "\<forall>i \<in> set (makers_ids full). bt_contains (bk_resting_orders b) i"
    "distinct (makers_ids full)"
    "consumed full \<le> q2n (ord_remaining ord)"
    "unat (bk_next_fill b) + length full < 2 ^ 64"
    "ord_side ord = s"
  shows "\<exists>bids asks. apply_filled_makers s (ord_price ord) (makers_ids full) (b, ord, fills) =
     Some (with_queues bids asks b\<lparr>
             bk_resting_orders := drop_ids (set (makers_ids full)) (bk_resting_orders b),
             bk_next_fill := bk_next_fill b + of_nat (length full),
             bk_filled_orders := set (makers_ids full) \<union> bk_filled_orders b\<rparr>,
           ord\<lparr>ord_remaining := n2q (q2n (ord_remaining ord) - consumed full)\<rparr>,
           fills @ fills_from ord (bk_next_fill b) (map full_fill full)) \<and>
     queue_ok bids \<and> queue_ok asks \<and> queues_list (opposite s) bids asks = rest \<and>
     queues_list s bids asks = side_list s b"
  using assms
proof (induction full arbitrary: b ord fills)
  case Nil
  then show ?case
    by (intro exI [of _ "bk_bids b"] exI [of _ "bk_asks b"]) (simp add: side_list_def with_queues_def)
next
  case (Cons m full)
  obtain p r where m: "m = (p, r)" by (cases m)
  have c: "bt_contains (bk_resting_orders b) (ro_id r)" using Cons.prems(4) m by simp
  obtain bids asks where pop: "maker_pop_front s b = Some (Some (p, r),
      with_queues bids asks b\<lparr>bk_resting_orders := bt_remove (ro_id r) (bk_resting_orders b)\<rparr>)"
    and ok: "queue_ok bids" "queue_ok asks" "queues_list (opposite s) bids asks = full @ rest"
      "queues_list s bids asks = side_list s b"
    using maker_pop_front_Cons [OF Cons.prems(1,2), of s p r "full @ rest"] Cons.prems(3) c m by auto
  let ?x = "q2n (ro_remaining r)"
  let ?ord = "ord\<lparr>ord_remaining := n2q (q2n (ord_remaining ord) - ?x)\<rparr>"
  let ?b = "with_queues bids asks b\<lparr>bk_resting_orders := bt_remove (ro_id r) (bk_resting_orders b),
     bk_next_fill := bk_next_fill b + 1, bk_filled_orders := insert (ro_id r) (bk_filled_orders b)\<rparr>"
  let ?f = "\<lparr>fl_seq = bk_next_fill b, fl_taker = ord_id ord, fl_taker_side = s,
     fl_taker_price = ord_price ord, fl_maker = ro_id r, fl_maker_price = p, fl_quantity = ro_remaining r\<rparr>"
  have x: "?x \<le> q2n (ord_remaining ord)" "consumed full \<le> q2n (ord_remaining ord) - ?x"
    using Cons.prems(6) m by simp_all
  have rem: "q2n (n2q (q2n (ord_remaining ord) - ?x)) = q2n (ord_remaining ord) - ?x"
    using q2n_bound [of "ord_remaining ord"] by simp
  have step: "apply_filled_makers s (ord_price ord) (makers_ids (m # full)) (b, ord, fills)
      = apply_filled_makers s (ord_price ?ord) (makers_ids full) (?b, ?ord, fills @ [?f])"
    using Cons.prems(7) pop x
    by (simp add: m ensure_def order_reduce_quantity_eq mint_fill_seq_eq Let_def)
  have nf: "unat (bk_next_fill b + 1) = unat (bk_next_fill b) + 1"
    using Cons.prems(7) by (subst unat_add_no_overflow) simp_all
  have idx: "\<forall>i \<in> set (makers_ids full). bt_contains (bt_remove (ro_id r) (bk_resting_orders b)) i"
    using Cons.prems(4,5) m by (auto simp: bt_contains_def)
  obtain bids' asks' where IH: "apply_filled_makers s (ord_price ?ord) (makers_ids full) (?b, ?ord, fills @ [?f]) =
     Some (with_queues bids' asks' ?b\<lparr>
             bk_resting_orders := drop_ids (set (makers_ids full)) (bk_resting_orders ?b),
             bk_next_fill := bk_next_fill ?b + of_nat (length full),
             bk_filled_orders := set (makers_ids full) \<union> bk_filled_orders ?b\<rparr>,
           ?ord\<lparr>ord_remaining := n2q (q2n (ord_remaining ?ord) - consumed full)\<rparr>,
           (fills @ [?f]) @ fills_from ?ord (bk_next_fill ?b) (map full_fill full))"
    and ok': "queue_ok bids'" "queue_ok asks'" "queues_list (opposite s) bids' asks' = rest"
     "queues_list s bids' asks' = side_list s ?b"
    using Cons.IH [of ?b ?ord "fills @ [?f]"] ok Cons.prems(5,7,8) m nf idx x(2) rem
    by (auto simp: side_list_def)
  have "fills_from ?ord (bk_next_fill b + 1) (map full_fill full) = fills_from ord (bk_next_fill b + 1) (map full_fill full)"
    by (rule fills_from_cong) simp_all
  then show ?case
    unfolding step IH using ok' ok(4) rem m Cons.prems(8)
    by (intro exI [of _ bids'] exI [of _ asks'])
       (simp add: with_queues_def drop_ids_remove side_list_def algebra_simps Un_assoc)
qed

lemma apply_last_partial_eq:
  assumes "queue_ok (bk_bids b)" "queue_ok (bk_asks b)"
    "side_list (opposite s) b = (p, r) # rest"
    "0 < x" "x < q2n (ro_remaining r)" "x \<le> q2n (ord_remaining ord)"
    "unat (bk_next_fill b) + 1 < 2 ^ 64" "ord_side ord = s"
  shows "\<exists>bids asks. apply_last_partial s (ord_price ord) (Some (ro_id r, n2q x)) (b, ord, fills) =
     Some (with_queues bids asks b\<lparr>bk_next_fill := bk_next_fill b + 1\<rparr>,
           ord\<lparr>ord_remaining := n2q (q2n (ord_remaining ord) - x)\<rparr>,
           fills @ fills_from ord (bk_next_fill b) [(p, ro_id r, x)]) \<and>
     queue_ok bids \<and> queue_ok asks \<and>
     queues_list (opposite s) bids asks = (p, r\<lparr>ro_remaining := n2q (q2n (ro_remaining r) - x)\<rparr>) # rest \<and>
     queues_list s bids asks = side_list s b"
proof -
  have xb: "q2n (n2q x) = x" "q2n (n2q (q2n (ro_remaining r) - x)) = q2n (ro_remaining r) - x"
    using assms(5) q2n_bound [of "ro_remaining r"] by simp_all
  let ?r = "r\<lparr>ro_remaining := n2q (q2n (ro_remaining r) - x)\<rparr>"
  obtain put where front: "maker_front_mut s b = Some (Some (p, r, put))"
    and put: "\<And>r'. \<exists>bids asks. put r' = with_queues bids asks b \<and> queue_ok bids \<and> queue_ok asks \<and>
       queues_list (opposite s) bids asks = (p, r') # rest \<and> queues_list s bids asks = side_list s b"
    using maker_front_mut_Cons [OF assms(1,2,3)] by blast
  obtain bids asks where q: "put ?r = with_queues bids asks b" "queue_ok bids" "queue_ok asks"
      "queues_list (opposite s) bids asks = (p, ?r) # rest" "queues_list s bids asks = side_list s b"
    using put [of ?r] by blast
  have nz: "n2q (q2n (ro_remaining r) - x) \<noteq> quantity_ZERO"
    using xb(2) assms(5) by (metis q2n_ZERO zero_less_diff neq0_conv)
  have red: "resting_reduce_quantity r (n2q x) = Some ?r"
    using resting_reduce_quantity_eq [of "n2q x" r] assms(5) xb by simp
  have "apply_last_partial s (ord_price ord) (Some (ro_id r, n2q x)) (b, ord, fills) =
     Some (with_queues bids asks b\<lparr>bk_next_fill := bk_next_fill b + 1\<rparr>,
           ord\<lparr>ord_remaining := n2q (q2n (ord_remaining ord) - x)\<rparr>,
           fills @ fills_from ord (bk_next_fill b) [(p, ro_id r, x)])"
    using front red nz q(1) assms(6,7,8) xb
    by (simp add: apply_last_partial_def ensure_def order_reduce_quantity_eq mint_fill_seq_eq Let_def)
  then show ?thesis using q by blast
qed

section \<open>Inserting the remainder\<close>

fun ahead :: "side \<Rightarrow> price \<Rightarrow> price \<Rightarrow> bool" where
  "ahead Buy p p' \<longleftrightarrow> p \<le> p'"
| "ahead Sell p p' \<longleftrightarrow> p' \<le> p"

text \<open>Price-time priority: a new order goes behind every order at its price or better.\<close>

definition insert_priority ::
  "side \<Rightarrow> price \<times> resting_order \<Rightarrow> (price \<times> resting_order) list \<Rightarrow> (price \<times> resting_order) list" where
  "insert_priority s x xs =
     takeWhile (\<lambda>y. ahead s (fst x) (fst y)) xs @ x # dropWhile (\<lambda>y. ahead s (fst x) (fst y)) xs"

lemma set_insert_priority [simp]: "set (insert_priority s x xs) = insert x (set xs)"
  unfolding insert_priority_def
  by (metis Un_insert_right list.simps(15) set_append takeWhile_dropWhile_id)

lemma insert_order_eq:
  assumes "queue_ok (bk_bids b)" "queue_ok (bk_asks b)" "bt_get (bk_resting_orders b) (ord_id ord) = None"
  shows "\<exists>bids asks. insert_order ord b = Some (with_queues bids asks b\<lparr>bk_resting_orders :=
       bt_insert (ord_id ord) (ord_side ord, ord_price ord) (bk_resting_orders b)\<rparr>) \<and>
     queue_ok bids \<and> queue_ok asks \<and>
     queues_list (ord_side ord) bids asks = insert_priority (ord_side ord) (ord_price ord, resting_from ord) (side_list (ord_side ord) b) \<and>
     queues_list (opposite (ord_side ord)) bids asks = side_list (opposite (ord_side ord)) b"
proof (cases "ord_side ord")
  case Buy
  let ?q = "push_back (Reverse (ord_price ord)) (resting_from ord) (bk_bids b)"
  have "(\<lambda>(k', _ :: resting_order). k' \<le> Reverse (ord_price ord)) =
      (\<lambda>y. ord_price ord \<le> fst y) \<circ> (\<lambda>(key, r). (unreverse key, r))"
    by (auto simp: less_eq_reverse_def)
  then have "queues_list Buy ?q (bk_asks b) = insert_priority Buy (ord_price ord, resting_from ord) (side_list Buy b)"
    using push_back_list [OF assms(1), of "Reverse (ord_price ord)" "resting_from ord"]
    by (simp add: insert_priority_def side_list_def takeWhile_map dropWhile_map)
  then show ?thesis
    using Buy assms queue_ok_push_back [OF assms(1)]
    by (intro exI [of _ ?q] exI [of _ "bk_asks b"])
       (simp add: insert_order_def ensure_def Let_def with_queues_def side_list_def)
next
  case Sell
  let ?q = "push_back (ord_price ord) (resting_from ord) (bk_asks b)"
  have "(\<lambda>(k', _ :: resting_order). k' \<le> ord_price ord) = (\<lambda>y. fst y \<le> ord_price ord)"
    by auto
  then have "queues_list Sell (bk_bids b) ?q = insert_priority Sell (ord_price ord, resting_from ord) (side_list Sell b)"
    using push_back_list [OF assms(2), of "ord_price ord" "resting_from ord"]
    by (simp add: insert_priority_def side_list_def)
  then show ?thesis
    using Sell assms queue_ok_push_back [OF assms(2)]
    by (intro exI [of _ "bk_bids b"] exI [of _ ?q])
       (simp add: insert_order_def ensure_def Let_def with_queues_def side_list_def)
qed

section \<open>The invariant\<close>

definition valid_amounts :: "order_book \<Rightarrow> price \<Rightarrow> quantity \<Rightarrow> bool" where
  "valid_amounts b p q \<longleftrightarrow>
     p \<noteq> 0 \<and> unat (bk_tick_size b) dvd unat p \<and> q2n q \<noteq> 0 \<and> unat (bk_lot_size b) dvd q2n q"

definition resting_ids :: "order_book \<Rightarrow> order_seq list" where
  "resting_ids b = makers_ids (side_list Buy b) @ makers_ids (side_list Sell b)"

definition index_entries :: "side \<Rightarrow> (price \<times> resting_order) list \<Rightarrow> (order_seq \<times> side \<times> price) set" where
  "index_entries s xs = (\<lambda>(p, r). (ro_id r, s, p)) ` set xs"

definition index_ok :: "order_book \<Rightarrow> bool" where
  "index_ok b \<longleftrightarrow> bt_ok (bk_resting_orders b) \<and> distinct (resting_ids b) \<and>
     set (bk_resting_orders b) = index_entries Buy (side_list Buy b) \<union> index_entries Sell (side_list Sell b)"

text \<open>Within a price the earlier order, which has the smaller sequence number, comes first.\<close>

definition time_ordered :: "(price \<times> resting_order) list \<Rightarrow> bool" where
  "time_ordered xs \<longleftrightarrow> sorted_wrt (\<lambda>x y. fst x = fst y \<longrightarrow> ro_id (snd x) < ro_id (snd y)) xs"

definition side_ok :: "order_book \<Rightarrow> side \<Rightarrow> bool" where
  "side_ok b s \<longleftrightarrow> time_ordered (side_list s b) \<and>
     list_all (\<lambda>(p, r). valid_amounts b p (ro_remaining r) \<and> ro_tif r = GoodTilCanceled) (side_list s b)"

definition uncrossed :: "order_book \<Rightarrow> bool" where
  "uncrossed b \<longleftrightarrow> (\<forall>x \<in> set (side_list Buy b). \<forall>y \<in> set (side_list Sell b). fst x < fst y)"

definition pending_ok :: "order_book \<Rightarrow> bool" where
  "pending_ok b \<longleftrightarrow>
     sorted_wrt (<) (pending_order_seqs b) \<and>
     list_all (\<lambda>ord. valid_amounts b (ord_price ord) (ord_remaining ord)) (bk_pending_orders b) \<and>
     (\<forall>i \<in> set (pending_order_seqs b). i < bk_next_seq b) \<and>
     (\<forall>i \<in> set (resting_ids b) \<union> bk_filled_orders b.
        i < bk_next_seq b \<and> (\<forall>j \<in> set (pending_order_seqs b). i < j))"

definition book_ok :: "order_book \<Rightarrow> bool" where
  "book_ok b \<longleftrightarrow>
     bk_tick_size b \<noteq> 0 \<and> bk_lot_size b \<noteq> 0 \<and>
     queue_ok (bk_bids b) \<and> queue_ok (bk_asks b) \<and> index_ok b \<and>
     side_ok b Buy \<and> side_ok b Sell \<and> uncrossed b \<and> pending_ok b \<and>
     set (resting_ids b) \<inter> bk_filled_orders b = {}"

text \<open>An order about to be matched: valid, younger than everything in the book and older than
  everything still pending.\<close>

definition taker_ok :: "order \<Rightarrow> order_book \<Rightarrow> bool" where
  "taker_ok ord b \<longleftrightarrow>
     valid_amounts b (ord_price ord) (ord_remaining ord) \<and>
     (\<forall>i \<in> set (resting_ids b) \<union> bk_filled_orders b. i < ord_id ord) \<and>
     (\<forall>j \<in> set (pending_order_seqs b). ord_id ord < j) \<and>
     ord_id ord < bk_next_seq b"

lemma validate_order_eq:
  assumes "bk_lot_size b \<noteq> 0"
  shows "validate_order b p q = Some (
    if p = 0 \<or> \<not> unat (bk_tick_size b) dvd unat p then Inl (InvalidTickSize p (bk_tick_size b))
    else if q2n q = 0 \<or> \<not> unat (bk_lot_size b) dvd q2n q then Inl (InvalidLotSize q (bk_lot_size b))
    else Inr ())"
  using is_multiple_of_eq [OF assms, of q]
  by (simp add: validate_order_def price_is_multiple_of_iff is_zero_iff)

lemma validate_order_iff:
  "bk_lot_size b \<noteq> 0 \<Longrightarrow> validate_order b p q = Some (Inr ()) \<longleftrightarrow> valid_amounts b p q"
  by (auto simp: validate_order_eq valid_amounts_def)

lemma index_lookup:
  assumes "index_ok b"
  shows "bt_get (bk_resting_orders b) i = Some (s, p) \<longleftrightarrow> (\<exists>r. (p, r) \<in> set (side_list s b) \<and> ro_id r = i)"
  using assms by (cases s) (force simp: index_ok_def bt_ok_get_iff index_entries_def image_iff)+

lemma ex_side: "(\<exists>s. P s) \<longleftrightarrow> P Buy \<or> P Sell"
  by (metis side.exhaust)

lemma index_contains:
  assumes "index_ok b"
  shows "bt_contains (bk_resting_orders b) i \<longleftrightarrow> i \<in> set (resting_ids b)"
proof -
  have "bt_contains (bk_resting_orders b) i \<longleftrightarrow> (\<exists>s p. bt_get (bk_resting_orders b) i = Some (s, p))"
    by (auto simp: bt_contains_def)
  also have "\<dots> \<longleftrightarrow> i \<in> set (resting_ids b)"
    unfolding index_lookup [OF assms] resting_ids_def makers_ids_def
    by (auto simp: ex_side)
  finally show ?thesis .
qed

lemma resting_ids_side: "set (makers_ids (side_list s b)) \<subseteq> set (resting_ids b)"
  by (cases s) (auto simp: resting_ids_def)

section \<open>Matching an order\<close>

lemma plan_walk_map:
  "plan_walk (\<lambda>k. stop (f k)) xs bd = plan_walk stop (map (\<lambda>(k, r). (f k, r)) xs) bd"
  by (induction "\<lambda>k. stop (f k)" xs bd rule: plan_walk.induct) (auto split: Option.bind_split)

lemma plan_fills_eq:
  "plan_fills b ord =
   plan_walk (stops (ord_side ord) (ord_price ord)) (side_list (opposite (ord_side ord)) b) (plan_builder ord)"
  using plan_walk_map [of "\<lambda>p. p < ord_price ord" unreverse "queue_list (bk_bids b)" "plan_builder ord"]
  by (cases "ord_side ord")
     (simp_all add: plan_fills_def side_list_def stops.simps [abs_def] del: stops.simps)

text \<open>The book after a taker consumed \<open>full\<close>, and the outcome it reports.\<close>

definition matched_book ::
  "order \<Rightarrow> order_seq set \<Rightarrow> nat \<Rightarrow> nat \<Rightarrow> (price reverse, resting_order) order_queue \<Rightarrow>
   (price, resting_order) order_queue \<Rightarrow> order_book \<Rightarrow> order_book" where
  "matched_book ord ids fills_len n bids asks b =
     with_queues bids asks b\<lparr>
       bk_resting_orders :=
         (if n = 0 then drop_ids ids (bk_resting_orders b)
          else bt_insert (ord_id ord) (ord_side ord, ord_price ord) (drop_ids ids (bk_resting_orders b))),
       bk_next_fill := bk_next_fill b + of_nat fills_len,
       bk_filled_orders := ids \<union> bk_filled_orders b \<union> (if n = 0 then {ord_id ord} else {})\<rparr>"

definition outcome_of :: "order \<Rightarrow> fill list \<Rightarrow> nat \<Rightarrow> match_result" where
  "outcome_of ord fills n =
     (if n = 0 then MR_Filled fills
      else if fills = [] then MR_Resting (ord_id ord) else MR_PartiallyFilled fills (ord_id ord))"

lemma fills_from_eq_Nil [simp]: "fills_from ord seq fs = [] \<longleftrightarrow> fs = []"
  by (cases fs) auto

lemma fills_phase:
  assumes ok: "queue_ok (bk_bids b)" "queue_ok (bk_asks b)"
    and idx: "\<forall>i \<in> set (makers_ids (side_list (opposite s) b)). bt_contains (bk_resting_orders b) i"
    and dist: "distinct (makers_ids (side_list (opposite s) b))"
    and sp: "split_makers stop (q2n (ord_remaining ord)) (side_list (opposite s) b) = (full, p, n', rest)"
    and liq: "take_liquidity stop (q2n (ord_remaining ord)) (side_list (opposite s) b) = (fs, n', makers')"
    and nf: "unat (bk_next_fill b) + length (side_list (opposite s) b) < 2 ^ 64"
    and s: "ord_side ord = s"
  shows "\<exists>bids asks st1. apply_filled_makers s (ord_price ord) (makers_ids full) (b, ord, []) = Some st1 \<and>
    apply_last_partial s (ord_price ord) (map_option (\<lambda>(k, r, x). (ro_id r, n2q x)) p) st1 =
      Some (with_queues bids asks b\<lparr>
             bk_resting_orders := drop_ids (set (makers_ids full)) (bk_resting_orders b),
             bk_next_fill := bk_next_fill b + of_nat (length fs),
             bk_filled_orders := set (makers_ids full) \<union> bk_filled_orders b\<rparr>,
            ord\<lparr>ord_remaining := n2q n'\<rparr>, fills_from ord (bk_next_fill b) fs) \<and>
    queue_ok bids \<and> queue_ok asks \<and> queues_list (opposite s) bids asks = makers' \<and>
    queues_list s bids asks = side_list s b"
proof -
  note spec = split_makers_spec [OF sp]
  note tl = take_liquidity_split [OF sp, unfolded liq]
  let ?tail = "case p of None \<Rightarrow> rest | Some (k, r, x) \<Rightarrow> (k, r) # rest"
  have len: "length full + length ?tail = length (side_list (opposite s) b)"
    by (subst spec(1)) simp
  have le: "consumed full \<le> q2n (ord_remaining ord)" using spec(2) by linarith
  have "distinct (makers_ids full @ makers_ids ?tail)" using dist by (subst (asm) spec(1)) simp
  moreover have "set (makers_ids full) \<subseteq> set (makers_ids (side_list (opposite s) b))"
    by (subst spec(1)) simp
  ultimately have d: "distinct (makers_ids full)" "\<forall>i \<in> set (makers_ids full). bt_contains (bk_resting_orders b) i"
    using idx by auto
  have nf': "unat (bk_next_fill b) + length full < 2 ^ 64" using nf len by linarith
  obtain bids asks where ap: "apply_filled_makers s (ord_price ord) (makers_ids full) (b, ord, []) =
     Some (with_queues bids asks b\<lparr>
             bk_resting_orders := drop_ids (set (makers_ids full)) (bk_resting_orders b),
             bk_next_fill := bk_next_fill b + of_nat (length full),
             bk_filled_orders := set (makers_ids full) \<union> bk_filled_orders b\<rparr>,
           ord\<lparr>ord_remaining := n2q (q2n (ord_remaining ord) - consumed full)\<rparr>,
           [] @ fills_from ord (bk_next_fill b) (map full_fill full))"
    (is "_ = Some (?b1, ?ord1, _)")
    and q: "queue_ok bids" "queue_ok asks" "queues_list (opposite s) bids asks = ?tail"
      "queues_list s bids asks = side_list s b"
    using apply_filled_makers_eq [OF ok spec(1) d(2,1) le nf' s] by blast
  show ?thesis
  proof (cases p)
    case None
    then show ?thesis
      using ap q tl spec(2)
      by (intro exI [of _ bids] exI [of _ asks]) (auto simp: apply_last_partial_def)
  next
    case (Some t)
    obtain k r x where t: "t = (k, r, x)" by (cases t)
    have x: "0 < x" "x < q2n (ro_remaining r)" "n' = 0" using spec(5) [of k r x] Some t by auto
    have sum: "q2n (ord_remaining ord) - consumed full = x" using spec(2) Some t by simp
    have nf1: "unat (bk_next_fill ?b1) = unat (bk_next_fill b) + length full"
      using nf' by (simp add: unat_add_no_overflow unat_of_nat_small)
    have lt: "unat (bk_next_fill ?b1) + 1 < 2 ^ 64"
      unfolding nf1 using nf len Some t by simp
    have sl: "side_list (opposite s) ?b1 = (k, r) # rest" "queue_ok (bk_bids ?b1)" "queue_ok (bk_asks ?b1)"
        "side_list s ?b1 = side_list s b"
      using q Some t by (simp_all add: side_list_def)
    have xb: "q2n (n2q x) = x" using x(2) q2n_bound [of "ro_remaining r"] by simp
    have rem: "x \<le> q2n (ord_remaining ?ord1)" "ord_side ?ord1 = s" using sum xb s by simp_all
    obtain bids' asks' where pa: "apply_last_partial s (ord_price ?ord1) (Some (ro_id r, n2q x))
        (?b1, ?ord1, fills_from ord (bk_next_fill b) (map full_fill full)) =
       Some (with_queues bids' asks' ?b1\<lparr>bk_next_fill := bk_next_fill ?b1 + 1\<rparr>,
           ?ord1\<lparr>ord_remaining := n2q (q2n (ord_remaining ?ord1) - x)\<rparr>,
           fills_from ord (bk_next_fill b) (map full_fill full) @ fills_from ?ord1 (bk_next_fill ?b1) [(k, ro_id r, x)])"
      and q': "queue_ok bids'" "queue_ok asks'"
       "queues_list (opposite s) bids' asks' = (k, r\<lparr>ro_remaining := n2q (q2n (ro_remaining r) - x)\<rparr>) # rest"
       "queues_list s bids' asks' = side_list s ?b1"
      using apply_last_partial_eq [OF sl(2,3,1) x(1,2) rem(1) lt rem(2)] by blast
    have fs: "fs = map full_fill full @ [(k, ro_id r, x)]"
      and mk: "makers' = (k, r\<lparr>ro_remaining := n2q (q2n (ro_remaining r) - x)\<rparr>) # rest"
      using tl Some t by simp_all
    have "fills_from ord (bk_next_fill b) (map full_fill full) @ fills_from ?ord1 (bk_next_fill ?b1) [(k, ro_id r, x)]
        = fills_from ord (bk_next_fill b) fs"
      unfolding fs fills_from_append by simp
    then show ?thesis
      using ap pa q' sl(4) Some t x(3) sum xb fs mk
      by (intro exI [of _ bids'] exI [of _ asks']) (simp add: with_queues_def algebra_simps)
  qed
qed

end
