(* ===== verification/Book_Invariant.thy ===== *)
theory Book_Invariant
  imports Book_Matching
begin

text \<open>
  Matching refines the price-time reference, and every operation of the book keeps
  \<open>book_ok\<close>: enqueueing, matching, the batch of pending orders, removal, and the trip
  through a snapshot.
\<close>

section \<open>Matching refines the reference\<close>

definition consumed_ids :: "(price \<times> resting_order) list \<Rightarrow> (price \<times> resting_order) list \<Rightarrow> order_seq set" where
  "consumed_ids makers makers' = set (makers_ids makers) - set (makers_ids makers')"

lemma consumed_ids_full:
  assumes "split_makers stop n makers = (full, p, n', rest)" "distinct (makers_ids makers)"
    "take_liquidity stop n makers = (fs, n'', makers')"
  shows "consumed_ids makers makers' = set (makers_ids full)"
  using split_makers_spec(1) [OF assms(1)] take_liquidity_split [OF assms(1)] assms(2,3)
  by (auto simp: consumed_ids_def split: option.splits)

lemma resting_ids_distinct: "index_ok b \<Longrightarrow> distinct (makers_ids (side_list s b))"
  by (cases s) (auto simp: index_ok_def resting_ids_def)

lemma taker_fresh:
  "taker_ok ord b \<Longrightarrow> \<forall>(k, r) \<in> set (side_list s b). ro_id r \<noteq> ord_id ord"
  using resting_ids_side [of s b] by (fastforce simp: taker_ok_def makers_ids_def)

lemma taker_remaining_n2q:
  assumes "take_liquidity stop (q2n q) makers = (fs, n, makers')"
  shows "q2n (n2q n) = n"
  using take_liquidity_amounts(1) [OF assms] q2n_bound [of q] by simp

lemma plan_fills_split:
  assumes "taker_ok ord b"
    "split_makers (stops (ord_side ord) (ord_price ord)) (q2n (ord_remaining ord))
       (side_list (opposite (ord_side ord)) b) = (full, p, n, rest)"
  shows "plan_fills b ord = Some ((plan_builder ord)\<lparr>bd_filled_makers := makers_ids full,
    bd_last_partial := map_option (\<lambda>(k, r, x). (ro_id r, n2q x)) p, bd_taker_remaining := n2q n\<rparr>)"
  unfolding plan_fills_eq
  using plan_walk_split [of "plan_builder ord" "side_list (opposite (ord_side ord)) b"
      "stops (ord_side ord) (ord_price ord)" full p n rest] assms taker_fresh
  by (simp add: plan_builder_def)

lemma match_order_killed:
  assumes "book_ok b" "taker_ok ord b"
    and liq: "take_liquidity (stops (ord_side ord) (ord_price ord)) (q2n (ord_remaining ord))
       (side_list (opposite (ord_side ord)) b) = (fs, n, makers')"
    and "ord_tif ord = FillOrKill" "n \<noteq> 0"
  shows "match_order ord b = Some (Inr (MR_Killed (ord_id ord)
    \<lparr>rm_side = ord_side ord, rm_price = ord_price ord, rm_remaining = ord_remaining ord\<rparr>), b)"
proof -
  obtain full p n0 rest where sp: "split_makers (stops (ord_side ord) (ord_price ord)) (q2n (ord_remaining ord))
       (side_list (opposite (ord_side ord)) b) = (full, p, n0, rest)" by (metis prod_cases4)
  then have "n0 = n" using take_liquidity_split [OF sp] liq by simp
  moreover have "validate_order b (ord_price ord) (ord_remaining ord) = Some (Inr ())"
    using assms(1,2) by (simp add: validate_order_iff book_ok_def taker_ok_def)
  ultimately show ?thesis
    using plan_fills_split [OF assms(2) sp] assms(4,5) taker_remaining_n2q [OF liq]
    by (simp add: match_order_def build_def is_zero_iff plan_builder_def)
qed

text \<open>The end of \<open>apply_plan\<close>: a taker with nothing left is recorded as filled, any other one rests.\<close>

lemma apply_plan_end:
  assumes b2: "b2 = with_queues bids asks b\<lparr>bk_resting_orders := drop_ids ids (bk_resting_orders b),
        bk_next_fill := bk_next_fill b + of_nat k, bk_filled_orders := ids \<union> bk_filled_orders b\<rparr>"
    and st: "apply_filled_makers (ord_side ord) (ord_price ord) (pl_filled_makers plan) (b, ord, []) = Some st1"
      "apply_last_partial (ord_side ord) (ord_price ord) (pl_last_partial plan) st1 = Some (b2, ord\<lparr>ord_remaining := n2q n\<rparr>, fills)"
    and plan: "pl_taker_order plan = ord_id ord" "pl_taker_remaining plan = n2q n" and n: "q2n (n2q n) = n"
    and q: "queue_ok bids" "queue_ok asks" and new: "bt_get (bk_resting_orders b) (ord_id ord) = None"
  shows "\<exists>bids' asks'. apply_plan plan ord b = Some (outcome_of ord fills n, matched_book ord ids k n bids' asks' b) \<and>
    queue_ok bids' \<and> queue_ok asks' \<and>
    queues_list (opposite (ord_side ord)) bids' asks' = queues_list (opposite (ord_side ord)) bids asks \<and>
    queues_list (ord_side ord) bids' asks' =
      (if n = 0 then queues_list (ord_side ord) bids asks
       else insert_priority (ord_side ord) (ord_price ord, resting_from (ord\<lparr>ord_remaining := n2q n\<rparr>))
              (queues_list (ord_side ord) bids asks))"
proof (cases "n = 0")
  case True
  then show ?thesis
    using st plan q by (intro exI [of _ bids] exI [of _ asks])
      (simp add: apply_plan_def ensure_def is_zero_iff Let_def outcome_of_def matched_book_def b2)
next
  case False
  let ?ord = "ord\<lparr>ord_remaining := n2q n\<rparr>"
  have none: "bt_get (bk_resting_orders b2) (ord_id ?ord) = None" using new by (simp add: b2)
  obtain bids' asks' where ins: "insert_order ?ord b2 = Some (with_queues bids' asks' b2\<lparr>bk_resting_orders :=
       bt_insert (ord_id ?ord) (ord_side ?ord, ord_price ?ord) (bk_resting_orders b2)\<rparr>)"
    and q': "queue_ok bids'" "queue_ok asks'"
     "queues_list (ord_side ?ord) bids' asks' = insert_priority (ord_side ?ord) (ord_price ?ord, resting_from ?ord) (side_list (ord_side ?ord) b2)"
     "queues_list (opposite (ord_side ?ord)) bids' asks' = side_list (opposite (ord_side ?ord)) b2"
    using insert_order_eq [of b2 ?ord] q none by (auto simp: b2)
  have "with_queues bids' asks' b2\<lparr>bk_resting_orders :=
       bt_insert (ord_id ?ord) (ord_side ?ord, ord_price ?ord) (bk_resting_orders b2)\<rparr>
    = matched_book ord ids k n bids' asks' b"
    using False by (intro order_book.equality) (simp_all add: matched_book_def with_queues_def b2)
  then show ?thesis
    using st plan False n ins q' by (intro exI [of _ bids'] exI [of _ asks'])
      (simp add: apply_plan_def ensure_def is_zero_iff Let_def outcome_of_def side_list_def, simp add: b2)
qed

lemma match_order_executed:
  assumes "book_ok b" "taker_ok ord b"
    and liq: "take_liquidity (stops (ord_side ord) (ord_price ord)) (q2n (ord_remaining ord))
       (side_list (opposite (ord_side ord)) b) = (fs, n, makers')"
    and nf: "unat (bk_next_fill b) + length (side_list (opposite (ord_side ord)) b) < 2 ^ 64"
    and tif: "ord_tif ord = FillOrKill \<longrightarrow> n = 0"
  shows "\<exists>bids asks. match_order ord b =
      Some (Inr (outcome_of ord (fills_from ord (bk_next_fill b) fs) n),
        matched_book ord (consumed_ids (side_list (opposite (ord_side ord)) b) makers') (length fs) n bids asks b) \<and>
    queue_ok bids \<and> queue_ok asks \<and> queues_list (opposite (ord_side ord)) bids asks = makers' \<and>
    queues_list (ord_side ord) bids asks =
      (if n = 0 then side_list (ord_side ord) b
       else insert_priority (ord_side ord) (ord_price ord, resting_from (ord\<lparr>ord_remaining := n2q n\<rparr>))
              (side_list (ord_side ord) b))"
proof -
  let ?s = "ord_side ord"
  obtain full p n0 rest where sp0: "split_makers (stops ?s (ord_price ord)) (q2n (ord_remaining ord))
       (side_list (opposite ?s) b) = (full, p, n0, rest)" by (metis prod_cases4)
  then have sp: "split_makers (stops ?s (ord_price ord)) (q2n (ord_remaining ord))
       (side_list (opposite ?s) b) = (full, p, n, rest)"
    using take_liquidity_split [OF sp0] liq by simp
  have ok: "queue_ok (bk_bids b)" "queue_ok (bk_asks b)" "index_ok b" using assms(1) by (simp_all add: book_ok_def)
  have dist: "distinct (makers_ids (side_list (opposite ?s) b))" by (rule resting_ids_distinct [OF ok(3)])
  have idx: "\<forall>i \<in> set (makers_ids (side_list (opposite ?s) b)). bt_contains (bk_resting_orders b) i"
    using resting_ids_side index_contains [OF ok(3)] by blast
  have ids: "consumed_ids (side_list (opposite ?s) b) makers' = set (makers_ids full)"
    by (rule consumed_ids_full [OF sp dist liq])
  obtain bids asks st1 where st: "apply_filled_makers ?s (ord_price ord) (makers_ids full) (b, ord, []) = Some st1"
    "apply_last_partial ?s (ord_price ord) (map_option (\<lambda>(k, r, x). (ro_id r, n2q x)) p) st1 =
      Some (with_queues bids asks b\<lparr>
             bk_resting_orders := drop_ids (set (makers_ids full)) (bk_resting_orders b),
             bk_next_fill := bk_next_fill b + of_nat (length fs),
             bk_filled_orders := set (makers_ids full) \<union> bk_filled_orders b\<rparr>,
            ord\<lparr>ord_remaining := n2q n\<rparr>, fills_from ord (bk_next_fill b) fs)"
      (is "_ = Some (?b2, ?ord2, _)")
    and q: "queue_ok bids" "queue_ok asks" "queues_list (opposite ?s) bids asks = makers'"
      "queues_list ?s bids asks = side_list ?s b"
    using fills_phase [OF ok(1,2) idx dist sp liq nf refl] by blast
  have n: "q2n (n2q n) = n" by (rule taker_remaining_n2q [OF liq])
  let ?bd = "(plan_builder ord)\<lparr>bd_filled_makers := makers_ids full,
    bd_last_partial := map_option (\<lambda>(k, r, x). (ro_id r, n2q x)) p, bd_taker_remaining := n2q n\<rparr>"
  have valid: "validate_order b (ord_price ord) (ord_remaining ord) = Some (Inr ())"
    using assms(1,2) by (simp add: validate_order_iff book_ok_def taker_ok_def)
  have "build ?bd = Execute (into_plan ?bd)"
    using tif n by (auto simp: build_def plan_builder_def is_zero_iff split: time_in_force.splits)
  then have match: "match_order ord b =
      (apply_plan (into_plan ?bd) ord b \<bind> (\<lambda>(result, b'). Some (Inr result, b')))"
    using plan_fills_split [OF assms(2) sp] valid by (simp add: match_order_def)
  have new: "bt_get (bk_resting_orders b) (ord_id ord) = None"
    using index_contains [OF ok(3), of "ord_id ord"] assms(2) by (auto simp: taker_ok_def bt_contains_def)
  obtain bids' asks' where e: "apply_plan (into_plan ?bd) ord b = Some (outcome_of ord (fills_from ord (bk_next_fill b) fs) n,
        matched_book ord (set (makers_ids full)) (length fs) n bids' asks' b)"
      "queue_ok bids'" "queue_ok asks'" "queues_list (opposite ?s) bids' asks' = makers'"
      "queues_list ?s bids' asks' = (if n = 0 then side_list ?s b
         else insert_priority ?s (ord_price ord, resting_from ?ord2) (side_list ?s b))"
    using apply_plan_end [OF refl _ _ _ _ n q(1,2) new, of "into_plan ?bd" st1 "set (makers_ids full)" "length fs"
        "fills_from ord (bk_next_fill b) fs"] st q(3,4)
    by (auto simp: into_plan_def plan_builder_def)
  then show ?thesis by (intro exI [of _ bids'] exI [of _ asks']) (simp add: match ids)
qed

section \<open>What matching keeps of the lists\<close>

definition maker_key :: "price \<times> resting_order \<Rightarrow> price \<times> order_seq \<times> time_in_force" where
  "maker_key = (\<lambda>(p, r). (p, ro_id r, ro_tif r))"

lemma take_liquidity_keys:
  assumes "take_liquidity stop n makers = (fs, n', makers')"
  shows "\<exists>j. map maker_key makers' = drop j (map maker_key makers)"
proof -
  obtain full p n0 rest where sp: "split_makers stop n makers = (full, p, n0, rest)" by (metis prod_cases4)
  show ?thesis
    using split_makers_spec(1) [OF sp] take_liquidity_split [OF sp] assms
    by (intro exI [of _ "length full"]) (auto simp: maker_key_def split: option.splits)
qed

lemma take_liquidity_lots:
  assumes "take_liquidity stop n makers = (fs, n', makers')" "d dvd n"
    "\<forall>y \<in> set makers. d dvd q2n (ro_remaining (snd y)) \<and> q2n (ro_remaining (snd y)) \<noteq> 0"
  shows "d dvd n' \<and> (\<forall>y \<in> set makers'. d dvd q2n (ro_remaining (snd y)) \<and> q2n (ro_remaining (snd y)) \<noteq> 0)"
proof -
  have bound: "q2n (n2q (q2n (ro_remaining r) - x)) = q2n (ro_remaining r) - x" for r x
    using q2n_bound [of "ro_remaining r"] by simp
  show ?thesis
    using assms
    by (induction stop n makers arbitrary: fs rule: take_liquidity.induct)
       (auto simp: Let_def bound dvd_diff_nat split: if_splits prod.splits)
qed

lemma length_take_liquidity:
  "take_liquidity stop n makers = (fs, n', makers') \<Longrightarrow> length fs \<le> length makers"
  by (induction stop n makers arbitrary: fs rule: take_liquidity.induct)
     (auto simp: Let_def split: if_splits prod.splits)

definition price_ordered :: "side \<Rightarrow> (price \<times> resting_order) list \<Rightarrow> bool" where
  "price_ordered s xs \<longleftrightarrow> sorted_wrt (\<lambda>x y. ahead s (fst y) (fst x)) xs"

lemma price_ordered_side_list:
  assumes "queue_ok (bk_bids b)" "queue_ok (bk_asks b)"
  shows "price_ordered s (side_list s b)"
proof (cases s)
  case Buy
  then show ?thesis
    using queue_list_sorted [OF assms(1)]
    by (simp add: price_ordered_def side_list_def sorted_wrt_map split_def less_eq_reverse_def)
next
  case Sell
  then show ?thesis
    using queue_list_sorted [OF assms(2)]
    by (simp add: price_ordered_def side_list_def sorted_wrt_map)
qed

lemma stops_monotone:
  assumes "price_ordered (opposite s) makers" "i < j" "j < length makers" "stops s p (fst (makers ! i))"
  shows "stops s p (fst (makers ! j))"
proof -
  have "ahead (opposite s) (fst (makers ! j)) (fst (makers ! i))"
    using sorted_wrt_nth_less [OF assms(1) [unfolded price_ordered_def] assms(2,3)] .
  then show ?thesis using assms(4) by (cases s) auto
qed

lemma time_ordered_keys:
  "time_ordered xs \<longleftrightarrow> sorted_wrt (\<lambda>x y. fst x = fst y \<longrightarrow> fst (snd x) < fst (snd y)) (map maker_key xs)"
  by (simp add: time_ordered_def sorted_wrt_map maker_key_def split_def)

lemma time_ordered_drop:
  assumes "time_ordered xs" "map maker_key ys = drop j (map maker_key xs)"
  shows "time_ordered ys"
  using assms(1) sorted_wrt_drop [of _ "map maker_key xs" j] by (simp add: time_ordered_keys assms(2))

lemma makers_ids_insert_priority:
  "set (makers_ids (insert_priority s (p, r) xs)) = insert (ro_id r) (set (makers_ids xs))"
  "distinct (makers_ids (insert_priority s (p, r) xs)) \<longleftrightarrow>
     distinct (makers_ids xs) \<and> ro_id r \<notin> set (makers_ids xs)"
proof -
  obtain l u where lu: "takeWhile (\<lambda>y. ahead s p (fst y)) xs = l" "dropWhile (\<lambda>y. ahead s p (fst y)) xs = u"
    by simp
  then have xs: "xs = l @ u" by (metis takeWhile_dropWhile_id)
  have ins: "insert_priority s (p, r) xs = l @ (p, r) # u" by (simp add: insert_priority_def lu)
  show "set (makers_ids (insert_priority s (p, r) xs)) = insert (ro_id r) (set (makers_ids xs))"
    "distinct (makers_ids (insert_priority s (p, r) xs)) \<longleftrightarrow>
      distinct (makers_ids xs) \<and> ro_id r \<notin> set (makers_ids xs)"
    unfolding ins unfolding xs by auto
qed

lemma time_ordered_insert_priority:
  assumes "time_ordered xs" "price_ordered s xs" "\<forall>i \<in> set (makers_ids xs). i < ro_id r"
  shows "time_ordered (insert_priority s (p, r) xs)"
proof -
  let ?P = "\<lambda>y. ahead s p (fst y)"
  let ?l = "takeWhile ?P xs" and ?r = "dropWhile ?P xs"
  have split: "xs = ?l @ ?r" by simp
  have lr: "sorted_wrt (\<lambda>x y. fst x = fst y \<longrightarrow> ro_id (snd x) < ro_id (snd y)) (?l @ ?r)"
    using assms(1) by (simp add: time_ordered_def)
  have left: "ro_id (snd y) < ro_id r" if "y \<in> set ?l" for y
    using that assms(3) set_takeWhileD [of y ?P xs] by (auto simp: makers_ids_def split_def)
  have right: "fst y \<noteq> p" if y: "y \<in> set ?r" for y
  proof -
    obtain z zs where z: "?r = z # zs" using y by (meson list.set_cases)
    then have nz: "\<not> ahead s p (fst z)" using hd_dropWhile [of ?P xs] by simp
    have "price_ordered s (?l @ ?r)" using assms(2) by simp
    then have "price_ordered s (z # zs)" unfolding z by (simp add: price_ordered_def sorted_wrt_append)
    then have "y = z \<or> ahead s (fst y) (fst z)" using that z by (auto simp: price_ordered_def)
    then show ?thesis using nz by (cases s) auto
  qed
  show ?thesis
    using lr left right unfolding time_ordered_def insert_priority_def sorted_wrt_append by auto
qed

section \<open>The invariant, by side\<close>

lemma resting_ids_set:
  "set (resting_ids b) = set (makers_ids (side_list s b)) \<union> set (makers_ids (side_list (opposite s) b))"
  by (cases s) (auto simp: resting_ids_def)

lemma resting_ids_distinct_iff:
  "distinct (resting_ids b) \<longleftrightarrow> distinct (makers_ids (side_list s b)) \<and>
     distinct (makers_ids (side_list (opposite s) b)) \<and>
     set (makers_ids (side_list s b)) \<inter> set (makers_ids (side_list (opposite s) b)) = {}"
  by (cases s) (auto simp: resting_ids_def)

lemma index_ok_iff:
  "index_ok b \<longleftrightarrow> bt_ok (bk_resting_orders b) \<and> distinct (resting_ids b) \<and>
     set (bk_resting_orders b) = index_entries s (side_list s b) \<union> index_entries (opposite s) (side_list (opposite s) b)"
  by (cases s) (auto simp: index_ok_def)

lemma sides_ok_iff: "side_ok b Buy \<and> side_ok b Sell \<longleftrightarrow> side_ok b s \<and> side_ok b (opposite s)"
  by (cases s) auto

lemma uncrossed_iff:
  "uncrossed b \<longleftrightarrow> (\<forall>x \<in> set (side_list s b). \<forall>y \<in> set (side_list (opposite s) b). stops s (fst x) (fst y))"
  by (cases s) (auto simp: uncrossed_def)

lemma index_entries_key: "index_entries s xs = (\<lambda>(p, i, _). (i, s, p)) ` set (map maker_key xs)"
  by (force simp: index_entries_def maker_key_def)

lemma makers_ids_key: "makers_ids xs = map (\<lambda>(_, i, _). i) (map maker_key xs)"
  by (simp add: makers_ids_def maker_key_def split_def)

lemma fst_of_key: "fst x = fst (maker_key x)"
  by (simp add: maker_key_def split_def)

lemma index_entries_ids: "e \<in> index_entries s xs \<Longrightarrow> fst e \<in> set (makers_ids xs)"
  by (force simp: index_entries_def makers_ids_def)

lemma set_drop_ids: "set (drop_ids ids m) = {e \<in> set m. fst e \<notin> ids}"
  by (auto simp: drop_ids_def)

section \<open>Matching keeps the invariant\<close>

lemma matched_book_simps [simp]:
  "bk_bids (matched_book ord ids k n bids asks b) = bids"
  "bk_asks (matched_book ord ids k n bids asks b) = asks"
  "bk_pending_orders (matched_book ord ids k n bids asks b) = bk_pending_orders b"
  "bk_next_seq (matched_book ord ids k n bids asks b) = bk_next_seq b"
  "bk_tick_size (matched_book ord ids k n bids asks b) = bk_tick_size b"
  "bk_lot_size (matched_book ord ids k n bids asks b) = bk_lot_size b"
  "bk_filled_orders (matched_book ord ids k n bids asks b) =
     ids \<union> bk_filled_orders b \<union> (if n = 0 then {ord_id ord} else {})"
  "pending_order_seqs (matched_book ord ids k n bids asks b) = pending_order_seqs b"
  "valid_amounts (matched_book ord ids k n bids asks b) = valid_amounts b"
  "bk_next_fill (matched_book ord ids k n bids asks b) = bk_next_fill b + of_nat k"
  by (simp_all add: matched_book_def with_queues_def pending_order_seqs_def valid_amounts_def fun_eq_iff)

lemma side_list_matched [simp]:
  "side_list s (matched_book ord ids k n bids asks b) = queues_list s bids asks"
  by (simp add: side_list_def)

lemma distinct_map_drop:
  "distinct (map f xs) \<Longrightarrow> {x \<in> set xs. f x \<in> set (drop j (map f xs))} = set (drop j xs)"
  by (auto simp: drop_map distinct_map dest: in_set_dropD inj_onD)

lemma image_filter_outside:
  "(\<And>x. fst (g x) = f x) \<Longrightarrow> {e \<in> g ` K. fst e \<notin> f ` K - M} = g ` {x \<in> K. f x \<in> M}"
  by auto

lemma makers_ids_drop:
  "map maker_key makers' = drop j (map maker_key makers) \<Longrightarrow> makers_ids makers' = drop j (makers_ids makers)"
  by (simp add: makers_ids_key drop_map)

text \<open>Dropping the consumed ids from a side's index entries leaves those of the remaining makers.\<close>

lemma consumed_entries:
  assumes dist: "distinct (makers_ids makers)" and keys: "map maker_key makers' = drop j (map maker_key makers)"
  shows "{e \<in> index_entries s makers. fst e \<notin> consumed_ids makers makers'} = index_entries s makers'"
proof -
  let ?f = "\<lambda>(_, i, _). i" and ?g = "\<lambda>(p, i, _). (i, s, p)" and ?K = "map maker_key makers"
  have "distinct (map ?f ?K)" using dist by (simp only: makers_ids_key)
  then have K: "{x \<in> set ?K. ?f x \<in> set (drop j (map ?f ?K))} = set (drop j ?K)"
    by (rule distinct_map_drop)
  have ids: "consumed_ids makers makers' = ?f ` set ?K - set (makers_ids makers')"
    by (simp only: consumed_ids_def makers_ids_key set_map)
  have "{e \<in> ?g ` set ?K. fst e \<notin> consumed_ids makers makers'} = ?g ` {x \<in> set ?K. ?f x \<in> set (makers_ids makers')}"
    unfolding ids by (rule image_filter_outside) (simp add: split_def)
  also have "\<dots> = ?g ` set (map maker_key makers')"
    unfolding makers_ids_drop [OF keys] keys using K by (simp only: makers_ids_key)
  finally show ?thesis by (simp only: index_entries_key)
qed

lemma matched_index_ok:
  assumes "index_ok b" "taker_ok ord b"
    and keys: "map maker_key makers' = drop j (map maker_key (side_list (opposite (ord_side ord)) b))"
    and own: "own' = (if n = 0 then side_list (ord_side ord) b
       else insert_priority (ord_side ord) (ord_price ord, r) (side_list (ord_side ord) b))"
    and r: "ro_id r = ord_id ord"
    and q: "queues_list (opposite (ord_side ord)) bids asks = makers'" "queues_list (ord_side ord) bids asks = own'"
  shows "index_ok (matched_book ord (consumed_ids (side_list (opposite (ord_side ord)) b) makers') k n bids asks b)"
proof -
  let ?s = "ord_side ord"
  let ?own = "side_list ?s b" and ?opp = "side_list (opposite ?s) b"
  let ?ids = "consumed_ids ?opp makers'"
  let ?b = "matched_book ord ?ids k n bids asks b"
  have dist: "distinct (makers_ids ?own)" "distinct (makers_ids ?opp)"
      "set (makers_ids ?own) \<inter> set (makers_ids ?opp) = {}"
    using assms(1) resting_ids_distinct_iff [of b ?s] by (auto simp: index_ok_def)
  have fresh: "ord_id ord \<notin> set (makers_ids ?own)" "ord_id ord \<notin> set (makers_ids ?opp)"
    using assms(2) resting_ids_set [of b ?s] by (auto simp: taker_ok_def)
  have idm: "makers_ids makers' = drop j (makers_ids ?opp)" by (rule makers_ids_drop [OF keys])
  then have dm: "distinct (makers_ids makers')" "set (makers_ids makers') \<subseteq> set (makers_ids ?opp)"
    using dist(2) set_drop_subset [of j "makers_ids ?opp"] by auto
  have opp: "{e \<in> index_entries (opposite ?s) ?opp. fst e \<notin> ?ids} = index_entries (opposite ?s) makers'"
    by (rule consumed_entries [OF dist(2) keys])
  have own0: "{e \<in> index_entries ?s ?own. fst e \<notin> ?ids} = index_entries ?s ?own"
    using dist(3) by (auto simp: consumed_ids_def dest: index_entries_ids)
  have drop: "set (drop_ids ?ids (bk_resting_orders b)) = index_entries ?s ?own \<union> index_entries (opposite ?s) makers'"
    using assms(1) index_ok_iff [of b ?s] own0 opp unfolding set_drop_ids by auto
  have nofresh: "{e \<in> index_entries ?s ?own \<union> index_entries (opposite ?s) makers'. fst e \<noteq> ord_id ord}
      = index_entries ?s ?own \<union> index_entries (opposite ?s) makers'"
    using fresh dm(2) by (auto dest: index_entries_ids)
  have okd: "bt_ok (drop_ids ?ids (bk_resting_orders b))" using assms(1) by (simp add: index_ok_def)
  have "distinct (resting_ids ?b)"
    using dist dm fresh own r q
    by (auto simp: resting_ids_distinct_iff [of _ ?s] makers_ids_insert_priority)
  moreover have "bt_ok (bk_resting_orders ?b)" using okd by (simp add: matched_book_def)
  moreover have "set (bk_resting_orders ?b) = index_entries ?s own' \<union> index_entries (opposite ?s) makers'"
    using drop set_bt_insert [OF okd] nofresh own r
    by (auto simp: matched_book_def index_entries_def)
  ultimately show ?thesis using q by (simp add: index_ok_iff [of _ ?s])
qed

lemma maker_key_eqD:
  "maker_key y = maker_key z \<Longrightarrow> fst y = fst z \<and> ro_tif (snd y) = ro_tif (snd z)"
  by (auto simp: maker_key_def split_def)

lemma kept_maker:
  assumes "map maker_key makers' = drop j (map maker_key makers)" "y \<in> set makers'"
  obtains z where "z \<in> set makers" "fst y = fst z" "ro_tif (snd y) = ro_tif (snd z)"
proof -
  have "maker_key y \<in> set (map maker_key makers')" using assms(2) by simp
  then have "maker_key y \<in> set (map maker_key makers)" unfolding assms(1) by (rule in_set_dropD)
  then obtain z where z: "z \<in> set makers" "maker_key y = maker_key z" by auto
  show thesis by (rule that [OF z(1)]) (use maker_key_eqD [OF z(2)] in simp_all)
qed

lemma maker_side_ok:
  assumes ok: "side_ok b (opposite (ord_side ord))" and tk: "taker_ok ord b"
    and liq: "take_liquidity (stops (ord_side ord) (ord_price ord)) (q2n (ord_remaining ord))
       (side_list (opposite (ord_side ord)) b) = (fs, n, makers')"
  shows "unat (bk_lot_size b) dvd n"
    and "(p, r) \<in> set makers' \<Longrightarrow> valid_amounts b p (ro_remaining r) \<and> ro_tif r = GoodTilCanceled"
    and "time_ordered makers'"
proof -
  obtain j where keys: "map maker_key makers' = drop j (map maker_key (side_list (opposite (ord_side ord)) b))"
    using take_liquidity_keys [OF liq] by blast
  have lots: "unat (bk_lot_size b) dvd n \<and>
     (\<forall>y \<in> set makers'. unat (bk_lot_size b) dvd q2n (ro_remaining (snd y)) \<and> q2n (ro_remaining (snd y)) \<noteq> 0)"
    using ok tk by (intro take_liquidity_lots [OF liq])
      (auto simp: taker_ok_def side_ok_def list_all_iff valid_amounts_def)
  then show "unat (bk_lot_size b) dvd n" by blast
  show "time_ordered makers'" using time_ordered_drop [OF _ keys] ok by (simp add: side_ok_def)
  assume y: "(p, r) \<in> set makers'"
  obtain z where z: "z \<in> set (side_list (opposite (ord_side ord)) b)" "p = fst z" "ro_tif r = ro_tif (snd z)"
    using kept_maker [OF keys y] by auto
  have "valid_amounts b (fst z) (ro_remaining (snd z)) \<and> ro_tif (snd z) = GoodTilCanceled"
    using ok z(1) by (auto simp: side_ok_def list_all_iff)
  then show "valid_amounts b p (ro_remaining r) \<and> ro_tif r = GoodTilCanceled"
    using lots y z(2,3) by (fastforce simp: valid_amounts_def)
qed

lemma taker_side_ok:
  assumes b: "queue_ok (bk_bids b)" "queue_ok (bk_asks b)" "side_ok b (ord_side ord)" and tk: "taker_ok ord b"
    and own: "own' = (if n = 0 then side_list (ord_side ord) b
       else insert_priority (ord_side ord) (ord_price ord, resting_from (ord\<lparr>ord_remaining := n2q n\<rparr>)) (side_list (ord_side ord) b))"
    and tif: "ord_tif ord = FillOrKill \<longrightarrow> n = 0" and n: "q2n (n2q n) = n" "unat (bk_lot_size b) dvd n"
  shows "(p, r) \<in> set own' \<Longrightarrow> valid_amounts b p (ro_remaining r) \<and> ro_tif r = GoodTilCanceled"
    and "time_ordered own'"
proof -
  let ?s = "ord_side ord" and ?r = "resting_from (ord\<lparr>ord_remaining := n2q n\<rparr>)"
  have r: "ro_id ?r = ord_id ord" "ro_tif ?r = ord_tif ord" "ro_remaining ?r = n2q n" by (simp_all add: resting_from_def)
  have young: "\<forall>i \<in> set (makers_ids (side_list ?s b)). i < ord_id ord"
    using tk resting_ids_side [of ?s b] by (auto simp: taker_ok_def)
  show "time_ordered own'"
    using own b(3) time_ordered_insert_priority [of "side_list ?s b" ?s ?r] price_ordered_side_list [OF b(1,2)] young r(1)
    by (auto simp: side_ok_def)
  assume "(p, r) \<in> set own'"
  then have "(p, r) \<in> set (side_list ?s b) \<or> n \<noteq> 0 \<and> p = ord_price ord \<and> r = ?r"
    using own by (auto split: if_splits)
  moreover have "valid_amounts b (ord_price ord) (n2q n)" "ord_tif ord = GoodTilCanceled" if "n \<noteq> 0"
    using that n tk tif by (cases "ord_tif ord"; auto simp: taker_ok_def valid_amounts_def)+
  ultimately show "valid_amounts b p (ro_remaining r) \<and> ro_tif r = GoodTilCanceled"
    using b(3) r by (auto simp: side_ok_def list_all_iff)
qed

lemma matched_uncrossed:
  assumes b: "queue_ok (bk_bids b)" "queue_ok (bk_asks b)" "uncrossed b"
    and liq: "take_liquidity (stops (ord_side ord) (ord_price ord)) (q2n (ord_remaining ord))
       (side_list (opposite (ord_side ord)) b) = (fs, n, makers')"
    and own: "queues_list (ord_side ord) bids asks = (if n = 0 then side_list (ord_side ord) b
       else insert_priority (ord_side ord) (ord_price ord, r) (side_list (ord_side ord) b))"
    and opp: "queues_list (opposite (ord_side ord)) bids asks = makers'"
  shows "uncrossed (matched_book ord ids k n bids asks b)"
proof -
  let ?s = "ord_side ord" and ?opp = "side_list (opposite (ord_side ord)) b"
  obtain j where keys: "map maker_key makers' = drop j (map maker_key ?opp)"
    using take_liquidity_keys [OF liq] by blast
  have "stops ?s (fst x) (fst y)" if "x \<in> set (side_list ?s b)" "y \<in> set makers'" for x y
    using kept_maker [OF keys that(2)] b(3) that(1) uncrossed_iff [of b ?s] by metis
  moreover have "stops ?s (ord_price ord) (fst y)" if "n \<noteq> 0" "y \<in> set makers'" for y
  proof -
    have "\<forall>i j. i < j \<longrightarrow> j < length ?opp \<longrightarrow> stops ?s (ord_price ord) (fst (?opp ! i)) \<longrightarrow> stops ?s (ord_price ord) (fst (?opp ! j))"
      using stops_monotone price_ordered_side_list [OF b(1,2), of "opposite ?s"] by blast
    then show ?thesis using take_liquidity_exhausts [OF liq] that by simp
  qed
  ultimately show ?thesis using own opp by (auto simp: uncrossed_iff [of _ ?s] split: if_splits)
qed

lemma matched_book_ok:
  assumes ok: "book_ok b" and tk: "taker_ok ord b"
    and liq: "take_liquidity (stops (ord_side ord) (ord_price ord)) (q2n (ord_remaining ord))
       (side_list (opposite (ord_side ord)) b) = (fs, n, makers')"
    and own: "own' = (if n = 0 then side_list (ord_side ord) b
       else insert_priority (ord_side ord) (ord_price ord, resting_from (ord\<lparr>ord_remaining := n2q n\<rparr>)) (side_list (ord_side ord) b))"
    and tif: "ord_tif ord = FillOrKill \<longrightarrow> n = 0"
    and q: "queue_ok bids" "queue_ok asks"
      "queues_list (opposite (ord_side ord)) bids asks = makers'" "queues_list (ord_side ord) bids asks = own'"
  shows "book_ok (matched_book ord (consumed_ids (side_list (opposite (ord_side ord)) b) makers') k n bids asks b)"
proof -
  let ?s = "ord_side ord"
  let ?own = "side_list ?s b" and ?opp = "side_list (opposite ?s) b"
  let ?r = "resting_from (ord\<lparr>ord_remaining := n2q n\<rparr>)"
  let ?b = "matched_book ord (consumed_ids ?opp makers') k n bids asks b"
  have b: "queue_ok (bk_bids b)" "queue_ok (bk_asks b)" "index_ok b" "pending_ok b" "uncrossed b"
      "side_ok b ?s" "side_ok b (opposite ?s)" "set (resting_ids b) \<inter> bk_filled_orders b = {}"
    using ok sides_ok_iff [of b ?s] by (auto simp: book_ok_def)
  obtain j where keys: "map maker_key makers' = drop j (map maker_key ?opp)"
    using take_liquidity_keys [OF liq] by blast
  have r: "ro_id ?r = ord_id ord" by (simp add: resting_from_def)
  have fresh: "ord_id ord \<notin> set (resting_ids b)" "ord_id ord \<notin> bk_filled_orders b"
    using tk by (auto simp: taker_ok_def)
  have ids': "set (makers_ids makers') \<subseteq> set (makers_ids ?opp)"
    unfolding makers_ids_drop [OF keys] by (rule set_drop_subset)
  have idx: "index_ok ?b" by (rule matched_index_ok [OF b(3) tk keys own r q(3,4)])
  have n: "q2n (n2q n) = n" by (rule taker_remaining_n2q [OF liq])
  note opp_side = maker_side_ok [OF b(7) tk liq]
  have opp_ok: "side_ok ?b (opposite ?s)"
    using opp_side(2,3) q(3) by (auto simp: side_ok_def list_all_iff)
  have own_ok: "side_ok ?b ?s"
    using taker_side_ok [OF b(1,2,6) tk own tif n opp_side(1)] q(4) by (auto simp: side_ok_def list_all_iff)
  have unc: "uncrossed ?b" using matched_uncrossed [OF b(1,2,5) liq _ q(3)] q(4) own by blast
  have own_ids: "set (makers_ids own') = set (makers_ids ?own) \<union> (if n = 0 then {} else {ord_id ord})"
    using own r by (auto simp: makers_ids_insert_priority)
  have ids_b: "set (resting_ids ?b) \<union> bk_filled_orders ?b \<subseteq> set (resting_ids b) \<union> bk_filled_orders b \<union> {ord_id ord}"
    using own_ids ids' q(3,4) by (auto simp: resting_ids_set [of _ ?s] consumed_ids_def)
  have pend: "pending_ok ?b"
    using b(4) tk ids_b by (fastforce simp: pending_ok_def taker_ok_def simp del: matched_book_simps(7))
  have disj: "set (makers_ids ?own) \<inter> set (makers_ids ?opp) = {}"
    using b(3) resting_ids_distinct_iff [of b ?s] by (auto simp: index_ok_def)
  have fil: "set (resting_ids ?b) \<inter> bk_filled_orders ?b = {}"
    using own_ids ids' disj fresh b(8) q(3,4) by (auto simp: resting_ids_set [of _ ?s] consumed_ids_def split: if_splits)
  show ?thesis
    using ok q(1,2) idx own_ok opp_ok unc pend fil sides_ok_iff [of ?b ?s] by (simp add: book_ok_def)
qed

end
