(* ===== verification/Book_Operations.thy ===== *)
theory Book_Operations
  imports Book_Invariant
begin

text \<open>
  The operations the state layer calls on a book keep \<open>book_ok\<close> and do not trap: enqueueing an
  order, matching a batch of pending orders, removing an order, and restoring a snapshot.
\<close>

section \<open>One matching step\<close>

text \<open>Fill numbers still to be minted are bounded by the makers in the book: a match raises
  \<open>fill_load\<close> by at most one.\<close>

definition fill_load :: "order_book \<Rightarrow> nat" where
  "fill_load b = unat (bk_next_fill b) + length (resting_ids b)"

lemma take_liquidity_count:
  assumes "take_liquidity stop n makers = (fs, n', makers')"
  shows "length fs + length makers' \<le> length makers + of_bool (n' = 0)"
  using assms
  by (induction stop n makers arbitrary: fs rule: take_liquidity.induct)
     (auto simp: Let_def split: if_splits prod.splits)

lemma length_insert_priority [simp]: "length (insert_priority s x xs) = Suc (length xs)"
proof -
  have "length (takeWhile P xs) + length (dropWhile P xs) = length xs" for P
    by (metis length_append takeWhile_dropWhile_id)
  then show ?thesis by (simp add: insert_priority_def)
qed

lemma length_resting_ids: "length (resting_ids b) = length (side_list s b) + length (side_list (opposite s) b)"
  by (cases s) (simp_all add: resting_ids_def makers_ids_def)

text \<open>What one matched order does to the sets of resting and filled orders.\<close>

definition match_effect :: "order \<Rightarrow> order_book \<Rightarrow> match_result \<Rightarrow> order_book \<Rightarrow> bool" where
  "match_effect ord b result b' \<longleftrightarrow>
     (case result of
        MR_Killed i killed \<Rightarrow>
          i = ord_id ord \<and> ord_tif ord = FillOrKill \<and> b' = b \<and>
          killed = \<lparr>rm_side = ord_side ord, rm_price = ord_price ord, rm_remaining = ord_remaining ord\<rparr>
      | _ \<Rightarrow>
          (\<exists>C \<subseteq> set (resting_ids b).
             (if resting_order_seq result = None
              then set (resting_ids b') = set (resting_ids b) - C \<and>
                   bk_filled_orders b' = C \<union> bk_filled_orders b \<union> {ord_id ord}
              else resting_order_seq result = Some (ord_id ord) \<and> ord_tif ord = GoodTilCanceled \<and>
                   set (resting_ids b') = (set (resting_ids b) - C) \<union> {ord_id ord} \<and>
                   bk_filled_orders b' = C \<union> bk_filled_orders b)))"

lemma matched_resting_ids:
  assumes index: "index_ok b"
    and liq: "take_liquidity stop t (side_list (opposite (ord_side ord)) b) = (fs, n, makers')"
    and q: "queues_list (opposite (ord_side ord)) bids asks = makers'"
      "queues_list (ord_side ord) bids asks = (if n = 0 then side_list (ord_side ord) b
         else insert_priority (ord_side ord) (ord_price ord, r) (side_list (ord_side ord) b))" "ro_id r = ord_id ord"
  shows "set (resting_ids (matched_book ord ids k n bids asks b)) =
    (set (resting_ids b) - consumed_ids (side_list (opposite (ord_side ord)) b) makers') \<union> (if n = 0 then {} else {ord_id ord})"
proof -
  let ?s = "ord_side ord"
  let ?own = "side_list ?s b" and ?opp = "side_list (opposite ?s) b" and ?b = "matched_book ord ids k n bids asks b"
  have disj: "set (makers_ids ?own) \<inter> set (makers_ids ?opp) = {}"
    using index resting_ids_distinct_iff [of b ?s] by (auto simp: index_ok_def)
  obtain j where "map maker_key makers' = drop j (map maker_key ?opp)"
    using take_liquidity_keys [OF liq] by blast
  then have ids': "set (makers_ids makers') \<subseteq> set (makers_ids ?opp)"
    by (simp add: makers_ids_drop set_drop_subset)
  have "set (resting_ids ?b) = set (makers_ids (queues_list ?s bids asks)) \<union> set (makers_ids makers')"
    using resting_ids_set [of ?b ?s] q(1) by simp
  also have "\<dots> = (set (makers_ids ?own) \<union> set (makers_ids ?opp) - consumed_ids ?opp makers') \<union> (if n = 0 then {} else {ord_id ord})"
    using q(2,3) ids' disj by (auto simp: consumed_ids_def makers_ids_insert_priority)
  finally show ?thesis using resting_ids_set [of b ?s] by simp
qed

lemma match_order_step:
  assumes "book_ok b" "taker_ok ord b" "fill_load b < 2 ^ 64"
  shows "\<exists>result b'. match_order ord b = Some (Inr result, b') \<and> book_ok b' \<and>
    bk_pending_orders b' = bk_pending_orders b \<and> bk_next_seq b' = bk_next_seq b \<and>
    fill_load b' \<le> fill_load b + 1 \<and> match_effect ord b result b'"
proof -
  let ?s = "ord_side ord"
  let ?own = "side_list ?s b" and ?opp = "side_list (opposite ?s) b"
  obtain fs n makers' where liq: "take_liquidity (stops ?s (ord_price ord)) (q2n (ord_remaining ord)) ?opp = (fs, n, makers')"
    by (metis prod_cases3)
  show ?thesis
  proof (cases "ord_tif ord = FillOrKill \<and> n \<noteq> 0")
    case True
    then show ?thesis
      using match_order_killed [OF assms(1,2) liq] assms(1) by (simp add: match_effect_def)
  next
    case False
    have nf: "unat (bk_next_fill b) + length ?opp < 2 ^ 64"
      using assms(3) length_resting_ids [of b ?s] by (simp add: fill_load_def)
    let ?C = "consumed_ids ?opp makers'"
    let ?own' = "if n = 0 then ?own
       else insert_priority ?s (ord_price ord, resting_from (ord\<lparr>ord_remaining := n2q n\<rparr>)) ?own"
    obtain bids asks where m: "match_order ord b =
        Some (Inr (outcome_of ord (fills_from ord (bk_next_fill b) fs) n), matched_book ord ?C (length fs) n bids asks b)"
      and q: "queue_ok bids" "queue_ok asks" "queues_list (opposite ?s) bids asks = makers'" "queues_list ?s bids asks = ?own'"
      using match_order_executed [OF assms(1,2) liq nf] False by blast
    let ?b = "matched_book ord ?C (length fs) n bids asks b"
    have ok: "book_ok ?b"
      using matched_book_ok [OF assms(1,2) liq refl _ q] False by simp
    have own_len: "length ?own' = length ?own + of_bool (n \<noteq> 0)" by simp
    have "unat (bk_next_fill b + of_nat (length fs)) = unat (bk_next_fill b) + length fs"
      using nf length_take_liquidity [OF liq] by (subst unat_add_no_overflow) (simp_all add: unat_of_nat_small)
    then have load: "fill_load ?b \<le> fill_load b + 1"
      using take_liquidity_count [OF liq] own_len length_resting_ids [of b ?s] length_resting_ids [of ?b ?s] q(3,4)
      by (auto simp: fill_load_def)
    have index: "index_ok b" using assms(1) by (simp add: book_ok_def)
    have C: "?C \<subseteq> set (resting_ids b)" by (auto simp: resting_ids_set [of b ?s] consumed_ids_def)
    have ids: "set (resting_ids ?b) = (set (resting_ids b) - ?C) \<union> (if n = 0 then {} else {ord_id ord})"
      by (rule matched_resting_ids [OF index liq q(3,4)]) (simp add: resting_from_def)
    have "ord_tif ord = GoodTilCanceled" if "n \<noteq> 0" using that False by (cases "ord_tif ord") auto
    then have "match_effect ord b (outcome_of ord (fills_from ord (bk_next_fill b) fs) n) ?b"
      using C ids by (auto simp: match_effect_def outcome_of_def resting_order_seq_def intro!: exI [of _ ?C])
    then show ?thesis using m ok load by auto
  qed
qed

section \<open>Enqueueing\<close>

lemma add_pending_order_ok:
  assumes "book_ok b" "valid_amounts b (ord_price ord) (ord_remaining ord)" "ord_id ord = bk_next_seq b"
    "unat (bk_next_seq b) + 1 < 2 ^ 64"
  shows "add_pending_order ord b =
      Some (b\<lparr>bk_pending_orders := bk_pending_orders b @ [ord], bk_next_seq := bk_next_seq b + 1\<rparr>)"
    and "book_ok (b\<lparr>bk_pending_orders := bk_pending_orders b @ [ord], bk_next_seq := bk_next_seq b + 1\<rparr>)"
      (is "book_ok ?b")
proof -
  have lot: "bk_lot_size b \<noteq> 0" using assms(1) by (simp add: book_ok_def)
  have "validate_order b (ord_price ord) (ord_remaining ord) = Some (Inr ())"
    using assms(2) lot by (simp add: validate_order_iff)
  moreover have "seq_increment (bk_next_seq b) = Some (bk_next_seq b + 1)"
    using assms(4) by (simp add: seq_increment_def checked_add_def)
  ultimately show "add_pending_order ord b =
      Some (b\<lparr>bk_pending_orders := bk_pending_orders b @ [ord], bk_next_seq := bk_next_seq b + 1\<rparr>)"
    using assms(3) by (simp add: add_pending_order_def ensure_def)
  have lt: "i < bk_next_seq b + 1" if "i < bk_next_seq b \<or> i = bk_next_seq b" for i
    using that assms(4) by (auto simp: word_less_nat_alt unat_add_no_overflow)
  have view: "side_list s ?b = side_list s b" "resting_ids ?b = resting_ids b" "valid_amounts ?b = valid_amounts b"
      "pending_order_seqs ?b = pending_order_seqs b @ [ord_id ord]" for s
    by (simp_all add: side_list_def resting_ids_def valid_amounts_def pending_order_seqs_def fun_eq_iff)
  have "pending_ok ?b"
    using assms(1,2,3) lt by (auto simp: book_ok_def pending_ok_def view sorted_wrt_append)
  then show "book_ok ?b"
    using assms(1) by (simp add: book_ok_def index_ok_def side_ok_def uncrossed_def view)
qed

section \<open>A batch of pending orders\<close>

lemma pop_pending_ok:
  assumes "book_ok b" "bk_pending_orders b = ord # rest"
  shows "book_ok (b\<lparr>bk_pending_orders := rest\<rparr>)" "taker_ok ord (b\<lparr>bk_pending_orders := rest\<rparr>)"
proof -
  let ?b = "b\<lparr>bk_pending_orders := rest\<rparr>"
  have view: "side_list s ?b = side_list s b" "resting_ids ?b = resting_ids b" "valid_amounts ?b = valid_amounts b" for s
    by (simp_all add: side_list_def resting_ids_def valid_amounts_def fun_eq_iff)
  have seqs: "pending_order_seqs b = ord_id ord # pending_order_seqs ?b"
    using assms(2) by (simp add: pending_order_seqs_def)
  have p: "pending_ok b" using assms(1) by (simp add: book_ok_def)
  have "pending_ok ?b" using p assms(2) seqs by (auto simp: pending_ok_def view)
  then show "book_ok ?b" using assms(1) by (simp add: book_ok_def index_ok_def side_ok_def uncrossed_def view)
  show "taker_ok ord ?b" using p assms(2) seqs by (auto simp: pending_ok_def taker_ok_def view)
qed

definition classified :: "order_book \<Rightarrow> order_seq list \<Rightarrow> order_book \<Rightarrow> matching_acc \<Rightarrow> bool" where
  "classified b0 done_seqs b acc \<longleftrightarrow>
     set (bt_keys (ma_expired acc)) \<subseteq> set done_seqs \<and>
     set (resting_ids b) \<union> bk_filled_orders b =
       set (resting_ids b0) \<union> bk_filled_orders b0 \<union> (set done_seqs - set (bt_keys (ma_expired acc))) \<and>
     ma_resting acc - bk_filled_orders b = set (resting_ids b) \<inter> set done_seqs \<and>
     bk_filled_orders b0 \<subseteq> bk_filled_orders b"

lemma classified_step:
  assumes "classified b0 done_seqs b acc" "match_effect ord b result b'" "book_ok b'"
    "ord_id ord \<notin> set (resting_ids b) \<union> bk_filled_orders b" "ord_id ord \<notin> set done_seqs"
  shows "classified b0 (done_seqs @ [ord_id ord]) b' (record_match_result result acc)"
proof (cases result)
  case (MR_Killed i killed)
  then have "i = ord_id ord" "b' = b" using assms(2) by (simp_all add: match_effect_def)
  then show ?thesis
    using assms(1,4,5) MR_Killed by (auto simp: classified_def record_match_result_def)
next
  case (MR_Filled fs)
  then obtain C where C: "C \<subseteq> set (resting_ids b)" "set (resting_ids b') = set (resting_ids b) - C"
      "bk_filled_orders b' = C \<union> bk_filled_orders b \<union> {ord_id ord}"
    using assms(2) by (auto simp: match_effect_def resting_order_seq_def)
  then show ?thesis
    using assms(1,4,5) MR_Filled unfolding classified_def record_match_result_def
    by (auto simp: result_fills_def resting_order_seq_def)
next
  case (MR_PartiallyFilled fs i)
  then obtain C where C: "C \<subseteq> set (resting_ids b)" "set (resting_ids b') = (set (resting_ids b) - C) \<union> {ord_id ord}"
      "bk_filled_orders b' = C \<union> bk_filled_orders b" "i = ord_id ord"
    using assms(2) by (auto simp: match_effect_def resting_order_seq_def)
  then show ?thesis
    using assms(1,4,5) MR_PartiallyFilled unfolding classified_def record_match_result_def
    by (auto simp: result_fills_def resting_order_seq_def)
next
  case (MR_Resting i)
  then obtain C where C: "C \<subseteq> set (resting_ids b)" "set (resting_ids b') = (set (resting_ids b) - C) \<union> {ord_id ord}"
      "bk_filled_orders b' = C \<union> bk_filled_orders b" "i = ord_id ord"
    using assms(2) by (auto simp: match_effect_def resting_order_seq_def)
  then show ?thesis
    using assms(1,4,5) MR_Resting unfolding classified_def record_match_result_def
    by (auto simp: result_fills_def resting_order_seq_def)
qed

lemma process_loop_ok:
  assumes "book_ok b" "pending_order_seqs b = expected @ later" "fill_load b + length expected < 2 ^ 64"
    "classified b0 done_seqs b acc" "\<forall>i \<in> set done_seqs. \<forall>j \<in> set (pending_order_seqs b). i < j"
  shows "\<exists>b' acc'. process_loop expected (b, acc) = Some (b', acc') \<and> book_ok b' \<and>
    pending_order_seqs b' = later \<and> bk_next_seq b' = bk_next_seq b \<and>
    fill_load b' \<le> fill_load b + length expected \<and> classified b0 (done_seqs @ expected) b' acc'"
  using assms
proof (induction expected arbitrary: b acc done_seqs)
  case (Cons i expected)
  obtain ord rest where p: "bk_pending_orders b = ord # rest" "ord_id ord = i" "map ord_id rest = expected @ later"
    using Cons.prems(2) by (auto simp: pending_order_seqs_def map_eq_Cons_conv)
  let ?b = "b\<lparr>bk_pending_orders := rest\<rparr>"
  have ok: "book_ok ?b" "taker_ok ord ?b" using pop_pending_ok [OF Cons.prems(1) p(1)] .
  have ids: "resting_ids ?b = resting_ids b" by (simp add: resting_ids_def side_list_def)
  then have load: "fill_load ?b = fill_load b" by (simp add: fill_load_def)
  obtain result b' where m: "match_order ord ?b = Some (Inr result, b')" "book_ok b'"
      "bk_pending_orders b' = rest" "bk_next_seq b' = bk_next_seq b"
      "fill_load b' \<le> fill_load b + 1" "match_effect ord ?b result b'"
    using match_order_step [OF ok] load Cons.prems(3) by auto
  have cl: "classified b0 done_seqs ?b acc" using Cons.prems(4) ids by (simp add: classified_def)
  have fresh: "ord_id ord \<notin> set (resting_ids ?b) \<union> bk_filled_orders ?b" "ord_id ord \<notin> set done_seqs"
    using ok(2) Cons.prems(5) p by (auto simp: taker_ok_def pending_order_seqs_def)
  have cl': "classified b0 (done_seqs @ [i]) b' (record_match_result result acc)"
    using classified_step [OF cl m(6,2) fresh] p(2) by simp
  have seqs: "pending_order_seqs b' = expected @ later" using m(3) p(3) by (simp add: pending_order_seqs_def)
  have "sorted_wrt (<) (pending_order_seqs b)" using Cons.prems(1) by (simp add: book_ok_def pending_ok_def)
  then have lt: "\<forall>k \<in> set (done_seqs @ [i]). \<forall>j \<in> set (pending_order_seqs b'). k < j"
    using Cons.prems(2,5) seqs by auto
  have "fill_load b' + length expected < 2 ^ 64" using m(5) Cons.prems(3) by simp
  then obtain b'' acc'' where "process_loop expected (b', record_match_result result acc) = Some (b'', acc'')"
      "book_ok b''" "pending_order_seqs b'' = later" "bk_next_seq b'' = bk_next_seq b'"
      "fill_load b'' \<le> fill_load b' + length expected" "classified b0 ((done_seqs @ [i]) @ expected) b'' acc''"
    using Cons.IH [OF m(2) seqs _ cl' lt] by blast
  then show ?case using p m(1,4,5) by (simp add: ensure_def)
qed simp

lemma process_pending_orders_ok:
  assumes "book_ok b" "pending_order_seqs b = expected @ later" "fill_load b + length expected < 2 ^ 64"
    "bk_filled_orders b = {}"
  shows "\<exists>out b'. process_pending_orders expected b = Some (out, b') \<and> book_ok b' \<and>
    pending_order_seqs b' = later \<and> bk_next_seq b' = bk_next_seq b \<and> bk_filled_orders b' = {} \<and>
    set (resting_ids b') \<inter> mo_filled out = {} \<and>
    set (resting_ids b') \<union> mo_filled out =
      set (resting_ids b) \<union> (set expected - set (bt_keys (mo_expired out))) \<and>
    mo_resting out = set (resting_ids b') \<inter> set expected \<and>
    set (bt_keys (mo_expired out)) \<subseteq> set expected"
proof -
  let ?acc = "\<lparr>ma_fills = [], ma_resting = {}, ma_expired = []\<rparr>"
  have "classified b [] b ?acc" by (auto simp: classified_def)
  then obtain b' acc where l: "process_loop expected (b, ?acc) = Some (b', acc)" "book_ok b'"
      "pending_order_seqs b' = later" "bk_next_seq b' = bk_next_seq b" "classified b expected b' acc"
    using process_loop_ok [OF assms(1-3), of b "[]" ?acc] by auto
  let ?b = "b'\<lparr>bk_filled_orders := {}\<rparr>"
  have view: "side_list s ?b = side_list s b'" "resting_ids ?b = resting_ids b'" "valid_amounts ?b = valid_amounts b'"
      "pending_order_seqs ?b = pending_order_seqs b'" for s
    by (simp_all add: side_list_def resting_ids_def valid_amounts_def pending_order_seqs_def fun_eq_iff)
  have "book_ok ?b"
    using l(2) by (auto simp: book_ok_def index_ok_def side_ok_def uncrossed_def pending_ok_def view)
  moreover have "set (resting_ids b') \<inter> bk_filled_orders b' = {}" using l(2) by (simp add: book_ok_def)
  ultimately show ?thesis
    using l assms(4) by (simp add: process_pending_orders_def classified_def Let_def view)
qed

section \<open>Removal\<close>

lemma index_None: "index_ok b \<Longrightarrow> bt_get (bk_resting_orders b) i = None \<longleftrightarrow> i \<notin> set (resting_ids b)"
  by (subst index_contains [symmetric], assumption) (simp only: bt_contains_def not_not)

lemma queues_remove:
  assumes "queue_ok (bk_bids b)" "queue_ok (bk_asks b)" "(p, r) \<in> set (side_list s b)" "ro_id r = seq"
    "distinct (makers_ids (side_list s b))" "bt_get (bk_resting_orders b) seq = Some (s, p)"
  shows "\<exists>bids asks xs ys. remove_order seq b =
      Some (Some \<lparr>rm_side = s, rm_price = p, rm_remaining = ro_remaining r\<rparr>,
        with_queues bids asks b\<lparr>bk_resting_orders := bt_remove seq (bk_resting_orders b)\<rparr>) \<and>
    queue_ok bids \<and> queue_ok asks \<and> side_list s b = xs @ (p, r) # ys \<and>
    queues_list s bids asks = xs @ ys \<and> queues_list (opposite s) bids asks = side_list (opposite s) b"
proof -
  have uniq: "w = r" if "(k, w) \<in> set (side_list s b)" "ro_id w = seq" for k w
    using assms(3-5) that eq_key_imp_eq_value [of "map (\<lambda>(p, r). (ro_id r, r)) (side_list s b)" seq w r]
    by (force simp: makers_ids_def comp_def split_def)
  show ?thesis
  proof (cases s)
    case Buy
    have in_q: "(Reverse p, r) \<in> set (queue_list (bk_bids b))" using assms(3) Buy by (auto simp: side_list_def)
    have "k' = k' \<Longrightarrow> w = r" if "(k', w) \<in> set (queue_list (bk_bids b))" "ro_id w = seq" for k' w
      using uniq [of "unreverse k'" w] that Buy by (force simp: side_list_def)
    then obtain q xs ys where q: "queue_remove (Reverse p) (\<lambda>r. ro_id r = seq) (bk_bids b) = (Some r, q)" "queue_ok q"
        "queue_list (bk_bids b) = xs @ (Reverse p, r) # ys" "queue_list q = xs @ ys"
      using queue_remove_list [OF assms(1) in_q, of "\<lambda>r. ro_id r = seq"] assms(4) by blast
    let ?v = "map (\<lambda>(key, r). (unreverse key, r))"
    show ?thesis
      using q Buy assms(2,6)
      by (intro exI [of _ q] exI [of _ "bk_asks b"] exI [of _ "?v xs"] exI [of _ "?v ys"])
         (simp add: remove_order_def side_list_def with_queues_def)
  next
    case Sell
    have in_q: "(p, r) \<in> set (queue_list (bk_asks b))" using assms(3) Sell by (simp add: side_list_def)
    have "w = r" if "(k', w) \<in> set (queue_list (bk_asks b))" "ro_id w = seq" for k' w
      using uniq [of k' w] that Sell by (simp add: side_list_def)
    then obtain q xs ys where q: "queue_remove p (\<lambda>r. ro_id r = seq) (bk_asks b) = (Some r, q)" "queue_ok q"
        "queue_list (bk_asks b) = xs @ (p, r) # ys" "queue_list q = xs @ ys"
      using queue_remove_list [OF assms(2) in_q, of "\<lambda>r. ro_id r = seq"] assms(4) by blast
    show ?thesis
      using q Sell assms(1,6)
      by (intro exI [of _ "bk_bids b"] exI [of _ q] exI [of _ xs] exI [of _ ys])
         (simp add: remove_order_def side_list_def with_queues_def)
  qed
qed

lemma index_entries_remove:
  assumes "distinct (makers_ids xs @ seq # makers_ids ys)" "ro_id r = seq" "seq \<notin> set (makers_ids zs)"
  shows "{e \<in> index_entries s (xs @ (p, r) # ys) \<union> index_entries s' zs. fst e \<noteq> seq} =
    index_entries s (xs @ ys) \<union> index_entries s' zs"
proof -
  have "fst e \<noteq> seq" if "e \<in> index_entries s (xs @ ys)" for e
    using that assms(1) by (auto dest: index_entries_ids)
  moreover have "fst e \<noteq> seq" if "e \<in> index_entries s' zs" for e
    using that assms(3) by (auto dest: index_entries_ids)
  moreover have "index_entries s (xs @ (p, r) # ys) = insert (seq, s, p) (index_entries s (xs @ ys))"
    using assms(2) by (auto simp: index_entries_def)
  ultimately show ?thesis by fastforce
qed

lemma remove_resting_ok:
  assumes ok: "book_ok b" and i: "seq \<in> set (resting_ids b)"
  shows "\<exists>s p r bids asks b' xs ys. remove_order seq b =
      Some (Some \<lparr>rm_side = s, rm_price = p, rm_remaining = ro_remaining r\<rparr>, b') \<and>
    b' = with_queues bids asks b\<lparr>bk_resting_orders := bt_remove seq (bk_resting_orders b)\<rparr> \<and>
    ro_id r = seq \<and> side_list s b = xs @ (p, r) # ys \<and> side_list s b' = xs @ ys \<and>
    side_list (opposite s) b' = side_list (opposite s) b \<and> book_ok b'"
proof -
  have b: "queue_ok (bk_bids b)" "queue_ok (bk_asks b)" "index_ok b" using ok by (simp_all add: book_ok_def)
  obtain s p where get: "bt_get (bk_resting_orders b) seq = Some (s, p)"
    using index_None [OF b(3), of seq] i by (metis not_None_eq surj_pair)
  then obtain r where r: "(p, r) \<in> set (side_list s b)" "ro_id r = seq" using index_lookup [OF b(3)] by blast
  have d: "distinct (makers_ids (side_list s b))" by (rule resting_ids_distinct [OF b(3)])
  obtain bids asks xs ys where rem: "remove_order seq b =
      Some (Some \<lparr>rm_side = s, rm_price = p, rm_remaining = ro_remaining r\<rparr>,
        with_queues bids asks b\<lparr>bk_resting_orders := bt_remove seq (bk_resting_orders b)\<rparr>)"
    and q: "queue_ok bids" "queue_ok asks" "side_list s b = xs @ (p, r) # ys"
      "queues_list s bids asks = xs @ ys" "queues_list (opposite s) bids asks = side_list (opposite s) b"
    using queues_remove [OF b(1,2) r d get] by blast
  let ?b = "with_queues bids asks b\<lparr>bk_resting_orders := bt_remove seq (bk_resting_orders b)\<rparr>"
  have view: "side_list s ?b = xs @ ys" "side_list (opposite s) ?b = side_list (opposite s) b"
      "valid_amounts ?b = valid_amounts b" "pending_order_seqs ?b = pending_order_seqs b"
    using q by (simp_all add: side_list_def valid_amounts_def pending_order_seqs_def fun_eq_iff)
  have dd: "distinct (makers_ids xs @ seq # makers_ids ys)"
      "set (makers_ids (side_list s b)) \<inter> set (makers_ids (side_list (opposite s) b)) = {}"
    using d q(3) r(2) b(3) resting_ids_distinct_iff [of b s] by (auto simp: index_ok_def)
  have opp: "seq \<notin> set (makers_ids (side_list (opposite s) b))" using dd(2) q(3) r(2) by auto
  have sub: "set (resting_ids ?b) \<subseteq> set (resting_ids b)"
    using view q(3) by (auto simp: resting_ids_set [of _ s])
  have "index_ok ?b"
  proof -
    have "distinct (resting_ids ?b)" using resting_ids_distinct_iff [of ?b s] resting_ids_distinct_iff [of b s] b(3) view q(3)
      by (auto simp: index_ok_def)
    moreover note index_entries_remove [OF dd(1) r(2) opp, of s p "opposite s"]
    ultimately show ?thesis
      using b(3) view q(3) by (simp add: index_ok_iff [of _ s] set_bt_remove)
  qed
  moreover have "side_ok ?b s \<and> side_ok ?b (opposite s)"
    using ok sides_ok_iff [of b s] view q(3)
    by (auto simp: book_ok_def side_ok_def time_ordered_def sorted_wrt_append)
  moreover have "uncrossed ?b"
    using ok view q(3) by (auto simp: book_ok_def uncrossed_iff [of _ s])
  moreover have "pending_ok ?b"
    using ok sub view by (auto simp: book_ok_def pending_ok_def)
  moreover have "set (resting_ids ?b) \<inter> bk_filled_orders ?b = {}"
    using ok sub by (auto simp: book_ok_def)
  ultimately have "book_ok ?b"
    using ok q(1,2) sides_ok_iff [of ?b s] by (simp add: book_ok_def)
  then show ?thesis using rem r(2) q(3) view by blast
qed

lemma remove_pending_ok:
  assumes ok: "book_ok b" and i: "seq \<notin> set (resting_ids b)" "seq \<in> set (pending_order_seqs b)"
  shows "\<exists>ord xs ys b'. remove_order seq b = Some (Some \<lparr>rm_side = ord_side ord, rm_price = ord_price ord,
        rm_remaining = ord_remaining ord\<rparr>, b') \<and> b' = b\<lparr>bk_pending_orders := xs @ ys\<rparr> \<and>
    ord_id ord = seq \<and> bk_pending_orders b = xs @ ord # ys \<and> book_ok b'"
proof -
  have b: "index_ok b" using ok by (simp add: book_ok_def)
  have none: "bt_get (bk_resting_orders b) seq = None"
    using index_None [OF b] i(1) by blast
  obtain ord rest where rf: "remove_first (\<lambda>ord. ord_id ord = seq) (bk_pending_orders b) = Some (ord, rest)"
    using i(2) by (cases "remove_first (\<lambda>ord. ord_id ord = seq) (bk_pending_orders b)")
      (auto simp: remove_first_None pending_order_seqs_def)
  then obtain xs ys where xy: "bk_pending_orders b = xs @ ord # ys" "rest = xs @ ys" "ord_id ord = seq"
    using remove_first_Some [OF rf] by blast
  let ?b = "b\<lparr>bk_pending_orders := xs @ ys\<rparr>"
  have view: "side_list s ?b = side_list s b" "resting_ids ?b = resting_ids b" "valid_amounts ?b = valid_amounts b" for s
    by (simp_all add: side_list_def resting_ids_def valid_amounts_def fun_eq_iff)
  have "pending_ok ?b"
    using ok xy(1) by (auto simp: book_ok_def pending_ok_def view pending_order_seqs_def sorted_wrt_append)
  then have "book_ok ?b" using ok by (simp add: book_ok_def index_ok_def side_ok_def uncrossed_def view)
  then show ?thesis using none rf xy by (auto simp: remove_order_def)
qed

lemma remove_absent:
  assumes "book_ok b" "seq \<notin> set (resting_ids b)" "seq \<notin> set (pending_order_seqs b)"
  shows "remove_order seq b = Some (None, b)"
proof -
  have "bt_get (bk_resting_orders b) seq = None"
    using index_None [of b seq] assms by (simp add: book_ok_def)
  moreover have "remove_first (\<lambda>ord. ord_id ord = seq) (bk_pending_orders b) = None"
    using assms(3) by (auto simp: remove_first_None pending_order_seqs_def)
  ultimately show ?thesis by (simp add: remove_order_def)
qed

section \<open>Snapshots\<close>

lemma index_orders_ok:
  assumes "bt_ok index" "distinct (map ro_id rs)" "\<forall>r \<in> set rs. bt_get index (ro_id r) = None"
  shows "\<exists>index'. index_orders s p rs index = Some index' \<and> bt_ok index' \<and>
    set index' = set index \<union> (\<lambda>r. (ro_id r, s, p)) ` set rs"
  using assms
proof (induction rs arbitrary: index)
  case (Cons r rs)
  let ?index = "bt_insert (ro_id r) (s, p) index"
  have "\<forall>r' \<in> set rs. bt_get ?index (ro_id r') = None" using Cons.prems(2,3) by (auto simp: image_iff)
  then obtain index' where "index_orders s p rs ?index = Some index'" "bt_ok index'"
      "set index' = set ?index \<union> (\<lambda>r. (ro_id r, s, p)) ` set rs"
    using Cons.IH [of ?index] Cons.prems(1,2) by auto
  moreover have "{e \<in> set index. fst e \<noteq> ro_id r} = set index"
    using Cons.prems(3) by (force simp: bt_get_None bt_keys_def)
  ultimately show ?case
    using Cons.prems(1,3) by (auto simp: set_bt_insert ensure_def)
qed simp

definition level_ids :: "('k \<times> resting_order list) list \<Rightarrow> order_seq list" where
  "level_ids levels = concat (map (\<lambda>(_, rs). map ro_id rs) levels)"

lemma level_ids_simps [simp]:
  "level_ids [] = []" "level_ids (l # ls) = map ro_id (snd l) @ level_ids ls"
  by (simp_all add: level_ids_def split_def)

lemma restore_levels_ok:
  assumes "bt_ok (acc @ levels)" "bt_ok index" "distinct (level_ids levels)"
    "\<forall>i \<in> set (level_ids levels). bt_get index i = None"
    "\<And>k rs. (k, rs) \<in> set levels \<Longrightarrow> key (price_of k) = k"
  shows "\<exists>index'. restore_levels s key (map (\<lambda>(k, rs). \<lparr>lv_price = price_of k, lv_orders = rs\<rparr>) levels) (acc, index)
      = Some (acc @ levels, index') \<and> bt_ok index' \<and>
    set index' = set index \<union> {(ro_id r, s, price_of k) | k r. (k, r) \<in> set (queue_list levels)}"
  using assms
proof (induction levels arbitrary: acc index)
  case Nil
  then show ?case by simp
next
  case (Cons l levels)
  obtain k rs where l: "l = (k, rs)" by (cases l)
  obtain index1 where i1: "index_orders s (price_of k) rs index = Some index1" "bt_ok index1"
      "set index1 = set index \<union> (\<lambda>r. (ro_id r, s, price_of k)) ` set rs"
    using index_orders_ok [of index rs s "price_of k"] Cons.prems(2,3,4) l by auto
  have fresh: "\<forall>i \<in> set (level_ids levels). bt_get index1 i = None"
  proof
    fix i assume i: "i \<in> set (level_ids levels)"
    then have "i \<notin> ro_id ` set rs" "bt_get index i = None"
      using Cons.prems(3,4) l by auto
    then show "bt_get index1 i = None"
      using i1(3) by (auto simp: bt_get_None bt_keys_def)
  qed
  have kk: "key (price_of k) = k" using Cons.prems(5) l by auto
  have lt: "\<forall>j \<in> set (bt_keys acc). j < k" using Cons.prems(1) l by (auto simp: bt_ok_append)
  then have none: "bt_get acc k = None" by (auto simp: bt_get_None)
  have "bt_ok ((acc @ [l]) @ levels)" using Cons.prems(1) by simp
  moreover have "distinct (level_ids levels)" using Cons.prems(3) by auto
  ultimately obtain index' where "restore_levels s key (map (\<lambda>(k, rs). \<lparr>lv_price = price_of k, lv_orders = rs\<rparr>) levels)
      (acc @ [l], index1) = Some ((acc @ [l]) @ levels, index')" "bt_ok index'"
      "set index' = set index1 \<union> {(ro_id r, s, price_of k) | k r. (k, r) \<in> set (queue_list levels)}"
    using Cons.IH [of "acc @ [l]" index1] fresh i1(2) Cons.prems(5) by auto
  then show ?case
    using i1 kk none bt_insert_snoc [OF lt] l by (auto simp: ensure_def)
qed

lemma level_ids_queue_list: "level_ids q = map (\<lambda>(_, r). ro_id r) (queue_list q)"
  by (induction q) auto

lemma snapshot_roundtrip:
  assumes "book_ok b"
  shows "book_of_snapshot (snapshot_of_book b) = Some b"
proof -
  have b: "queue_ok (bk_bids b)" "queue_ok (bk_asks b)" "index_ok b" using assms by (simp_all add: book_ok_def)
  have idb: "level_ids (bk_bids b) = makers_ids (side_list Buy b)" and ida: "level_ids (bk_asks b) = makers_ids (side_list Sell b)"
    by (simp_all add: level_ids_queue_list makers_ids_def side_list_def split_def)
  have dist: "distinct (level_ids (bk_bids b))" "distinct (level_ids (bk_asks b))"
      "set (level_ids (bk_bids b)) \<inter> set (level_ids (bk_asks b)) = {}"
    using b(3) unfolding idb ida by (auto simp: index_ok_def resting_ids_def)
  obtain i1 where r1: "restore_levels Buy Reverse (map (\<lambda>(k, rs). \<lparr>lv_price = unreverse k, lv_orders = rs\<rparr>) (bk_bids b)) ([], [])
      = Some ([] @ bk_bids b, i1)" "bt_ok i1"
      "set i1 = set [] \<union> {(ro_id r, Buy, unreverse k) | k r. (k, r) \<in> set (queue_list (bk_bids b))}"
    using restore_levels_ok [of "[]" "bk_bids b" "[]" Reverse unreverse Buy] queue_ok_bt_ok [OF b(1)] dist(1) by auto
  have i1e: "set i1 = index_entries Buy (side_list Buy b)"
    using r1(3) by (force simp: index_entries_def side_list_def)
  have "\<forall>i \<in> set (level_ids (bk_asks b)). bt_get i1 i = None"
    using i1e dist(3) unfolding idb by (force simp: bt_get_None bt_keys_def dest: index_entries_ids)
  then obtain i2 where r2: "restore_levels Sell (\<lambda>p. p) (map (\<lambda>(k, rs). \<lparr>lv_price = k, lv_orders = rs\<rparr>) (bk_asks b)) ([], i1)
      = Some ([] @ bk_asks b, i2)" "bt_ok i2"
      "set i2 = set i1 \<union> {(ro_id r, Sell, k) | k r. (k, r) \<in> set (queue_list (bk_asks b))}"
    using restore_levels_ok [of "[]" "bk_asks b" i1 "\<lambda>p. p" "\<lambda>p. p" Sell] queue_ok_bt_ok [OF b(2)] dist(2) r1(2) by auto
  have "set i2 = set (bk_resting_orders b)"
    using r2(3) i1e b(3) by (force simp: index_ok_def index_entries_def side_list_def)
  then have "i2 = bk_resting_orders b"
    using r2(2) b(3) by (intro bt_eq_of_set) (simp_all add: index_ok_def)
  then show ?thesis
    using r1(1) r2(1) b(1,2)
    by (simp add: book_of_snapshot_def snapshot_of_book_def from_levels_id)
qed

end
