(* ===== verification/Book_Properties.thy ===== *)
theory Book_Properties
  imports Book_Operations
begin

text \<open>
  The properties of the order book, stated over the operations of \<open>order/book.rs\<close>, with
  witnesses on a small book: three asks on two price levels and one bid.
\<close>

definition ex_book :: order_book where
  "ex_book = \<lparr>bk_id = 7, bk_next_seq = 6, bk_next_fill = 3, bk_tick_size = 10, bk_lot_size = 5,
     bk_min_notional = quantity_ZERO, bk_max_notional = None,
     bk_fee_rates = \<lparr>maker = 10, taker = 20\<rparr>,
     bk_pending_orders = [],
     bk_bids = [(Reverse 90, [\<lparr>ro_id = 3, ro_remaining = Quantity 0 15, ro_tif = GoodTilCanceled\<rparr>])],
     bk_asks = [(100, [\<lparr>ro_id = 0, ro_remaining = Quantity 0 10, ro_tif = GoodTilCanceled\<rparr>,
                       \<lparr>ro_id = 2, ro_remaining = Quantity 0 20, ro_tif = GoodTilCanceled\<rparr>]),
                (110, [\<lparr>ro_id = 1, ro_remaining = Quantity 0 5, ro_tif = GoodTilCanceled\<rparr>])],
     bk_resting_orders = [(0, Sell, 100), (1, Sell, 110), (2, Sell, 100), (3, Buy, 90)],
     bk_filled_orders = {}\<rparr>"

definition ex_taker :: order where
  "ex_taker = \<lparr>ord_id = 4, ord_side = Buy, ord_price = 100, ord_remaining = Quantity 0 25,
     ord_tif = GoodTilCanceled\<rparr>"

lemmas ex_eval = ex_book_def ex_taker_def book_ok_def taker_ok_def index_ok_def side_ok_def uncrossed_def
  pending_ok_def time_ordered_def side_list_def resting_ids_def makers_ids_def index_entries_def
  valid_amounts_def queue_ok_def bt_ok_def pending_order_seqs_def q2n_def fill_load_def

lemma ex_book_ok: "book_ok ex_book"
  by (simp add: ex_eval) auto

lemma ex_taker_ok: "taker_ok ex_taker ex_book"
  by (simp add: ex_eval)

lemma ex_load: "fill_load ex_book = 7"
  by (simp add: ex_eval)

section \<open>Matching\<close>

lemma opp_bound: "fill_load b < 2 ^ 64 \<Longrightarrow> unat (bk_next_fill b) + length (side_list (opposite s) b) < 2 ^ 64"
  using length_resting_ids [of b s] by (simp add: fill_load_def)

text \<open>C3. Matching is price-time priority: an order that is not killed takes from the opposite
  side exactly what the reference \<open>take_liquidity\<close> takes, reports exactly those fills with
  consecutive numbers, leaves exactly the makers the reference leaves, and rests its remainder
  behind every order at its price or better. No assertion of \<open>apply_plan\<close> can fail.\<close>

theorem match_order_price_time_priority:
  assumes "book_ok b" "taker_ok ord b" "fill_load b < 2 ^ 64"
    and "take_liquidity (stops (ord_side ord) (ord_price ord)) (q2n (ord_remaining ord))
           (side_list (opposite (ord_side ord)) b) = (fs, n, makers')"
    and "ord_tif ord = GoodTilCanceled \<or> n = 0"
  shows "\<exists>b'. match_order ord b = Some (Inr (outcome_of ord (fills_from ord (bk_next_fill b) fs) n), b') \<and>
    side_list (opposite (ord_side ord)) b' = makers' \<and>
    side_list (ord_side ord) b' =
      (if n = 0 then side_list (ord_side ord) b
       else insert_priority (ord_side ord) (ord_price ord, resting_from (ord\<lparr>ord_remaining := n2q n\<rparr>))
              (side_list (ord_side ord) b))"
proof -
  have "ord_tif ord = FillOrKill \<longrightarrow> n = 0" using assms(5) by auto
  then show ?thesis
    using match_order_executed [OF assms(1,2,4) opp_bound [OF assms(3)]] by fastforce
qed

theorem match_order_price_time_priority_witness:
  "\<exists>b'. match_order ex_taker ex_book =
      Some (Inr (MR_Filled (fills_from ex_taker 3 [(100, 0, 10), (100, 2, 15)])), b') \<and>
    side_list Sell b' = [(100, \<lparr>ro_id = 2, ro_remaining = n2q 5, ro_tif = GoodTilCanceled\<rparr>),
      (110, \<lparr>ro_id = 1, ro_remaining = Quantity 0 5, ro_tif = GoodTilCanceled\<rparr>)] \<and>
    side_list Buy b' = side_list Buy ex_book"
proof -
  have "take_liquidity (stops (ord_side ex_taker) (ord_price ex_taker)) (q2n (ord_remaining ex_taker))
      (side_list (opposite (ord_side ex_taker)) ex_book) =
    ([(100, 0, 10), (100, 2, 15)], 0, [(100, \<lparr>ro_id = 2, ro_remaining = n2q 5, ro_tif = GoodTilCanceled\<rparr>),
      (110, \<lparr>ro_id = 1, ro_remaining = Quantity 0 5, ro_tif = GoodTilCanceled\<rparr>)])"
    by (simp add: ex_eval)
  from match_order_price_time_priority [OF ex_book_ok ex_taker_ok _ this]
  show ?thesis by (simp add: ex_load outcome_of_def) (simp add: ex_book_def ex_taker_def)
qed

lemma take_liquidity_available:
  "take_liquidity stop n makers = (fs, n', makers') \<Longrightarrow>
   n' = n - consumed (takeWhile (\<lambda>y. \<not> stop (fst y)) makers)"
  by (induction stop n makers arbitrary: fs rule: take_liquidity.induct)
     (auto simp: Let_def split: if_splits prod.splits)

definition available :: "order \<Rightarrow> order_book \<Rightarrow> nat" where
  "available ord b =
     consumed (filter (\<lambda>y. \<not> stops (ord_side ord) (ord_price ord) (fst y)) (side_list (opposite (ord_side ord)) b))"

lemma takeWhile_filter_sorted:
  assumes "sorted_wrt (\<lambda>x y. P y \<longrightarrow> P x) xs"
  shows "takeWhile P xs = filter P xs"
  using assms
proof (induction xs)
  case (Cons x xs)
  then show ?case by (cases "P x") (auto simp: filter_empty_conv)
qed simp

lemma available_eq:
  assumes "book_ok b"
    "take_liquidity (stops (ord_side ord) (ord_price ord)) (q2n (ord_remaining ord))
           (side_list (opposite (ord_side ord)) b) = (fs, n, makers')"
  shows "n = q2n (ord_remaining ord) - available ord b"
proof -
  let ?xs = "side_list (opposite (ord_side ord)) b"
  let ?P = "\<lambda>y :: price \<times> resting_order. \<not> stops (ord_side ord) (ord_price ord) (fst y)"
  have "price_ordered (opposite (ord_side ord)) ?xs"
    using assms(1) by (intro price_ordered_side_list) (simp_all add: book_ok_def)
  then have "sorted_wrt (\<lambda>x y. ?P y \<longrightarrow> ?P x) ?xs"
    unfolding price_ordered_def by (rule sorted_wrt_mono_rel [rotated]) (cases "ord_side ord"; auto)
  then have "takeWhile ?P ?xs = filter ?P ?xs" by (rule takeWhile_filter_sorted)
  then show ?thesis
    using take_liquidity_available [OF assms(2)] by (simp add: available_def)
qed

lemma sum_fills_from:
  assumes "(\<Sum>(_, _, x) \<leftarrow> fs. x) < 2 ^ 256"
  shows "(\<Sum>f \<leftarrow> fills_from ord seq fs. q2n (fl_quantity f)) = (\<Sum>(_, _, x) \<leftarrow> fs. x)"
  using assms by (induction fs arbitrary: seq) auto

lemma take_liquidity_sum_bound:
  "take_liquidity stop (q2n q) makers = (fs, n', makers') \<Longrightarrow> (\<Sum>(_, _, x) \<leftarrow> fs. x) < 2 ^ 256"
  using take_liquidity_amounts(1) [of stop "q2n q" makers fs n' makers'] q2n_bound [of q] by simp

text \<open>C20. Fill-or-kill is all or nothing: if the makers within the limit offer at least the
  order's quantity, the fills add up to the whole quantity and nothing rests; otherwise the
  order is killed, reported with its full quantity, and the book is unchanged.\<close>

theorem fill_or_kill_all_or_nothing:
  assumes "book_ok b" "taker_ok ord b" "fill_load b < 2 ^ 64" "ord_tif ord = FillOrKill"
  shows "if available ord b < q2n (ord_remaining ord)
    then match_order ord b = Some (Inr (MR_Killed (ord_id ord)
           \<lparr>rm_side = ord_side ord, rm_price = ord_price ord, rm_remaining = ord_remaining ord\<rparr>), b)
    else \<exists>fills b'. match_order ord b = Some (Inr (MR_Filled fills), b') \<and>
           (\<Sum>f \<leftarrow> fills. q2n (fl_quantity f)) = q2n (ord_remaining ord) \<and>
           side_list (ord_side ord) b' = side_list (ord_side ord) b"
proof -
  obtain fs n makers' where liq: "take_liquidity (stops (ord_side ord) (ord_price ord)) (q2n (ord_remaining ord))
           (side_list (opposite (ord_side ord)) b) = (fs, n, makers')" by (metis prod_cases3)
  note n = available_eq [OF assms(1) liq]
  show ?thesis
  proof (cases "available ord b < q2n (ord_remaining ord)")
    case True
    then show ?thesis using match_order_killed [OF assms(1,2) liq assms(4)] n by simp
  next
    case False
    then have "n = 0" using n by simp
    then have "(\<Sum>f \<leftarrow> fills_from ord (bk_next_fill b) fs. q2n (fl_quantity f)) = q2n (ord_remaining ord)"
      using sum_fills_from [OF take_liquidity_sum_bound [OF liq]] take_liquidity_amounts(1) [OF liq] by simp
    then show ?thesis
      using False \<open>n = 0\<close> match_order_executed [OF assms(1,2) liq opp_bound [OF assms(3)]]
      by (auto simp: outcome_of_def)
  qed
qed

definition ex_fok :: order where
  "ex_fok = \<lparr>ord_id = 4, ord_side = Buy, ord_price = 100, ord_remaining = Quantity 0 35, ord_tif = FillOrKill\<rparr>"

theorem fill_or_kill_all_or_nothing_witness:
  "match_order ex_fok ex_book = Some (Inr (MR_Killed 4
     \<lparr>rm_side = Buy, rm_price = 100, rm_remaining = Quantity 0 35\<rparr>), ex_book)"
proof -
  have "taker_ok ex_fok ex_book" by (simp add: ex_eval ex_fok_def)
  moreover have "available ex_fok ex_book < q2n (ord_remaining ex_fok)"
    by (simp add: available_def ex_eval ex_fok_def)
  ultimately show ?thesis
    using fill_or_kill_all_or_nothing [OF ex_book_ok, of ex_fok] by (simp add: ex_load) (simp add: ex_fok_def)
qed

text \<open>C21. Matching an order that passed validation returns a result on every well-formed book
  and leaves a well-formed book: levels non-empty and in price order, FIFO within a price, the
  index exact, no two orders with one sequence number, no bid at or above an ask, every
  quantity a positive multiple of the lot and every price of the tick.\<close>

theorem match_order_keeps_book_ok:
  assumes "book_ok b" "taker_ok ord b" "fill_load b < 2 ^ 64"
  shows "\<exists>result b'. match_order ord b = Some (Inr result, b') \<and> book_ok b' \<and>
    fill_load b' \<le> fill_load b + 1 \<and> bk_pending_orders b' = bk_pending_orders b"
  using match_order_step [OF assms] by blast

theorem match_order_keeps_book_ok_witness:
  "\<exists>result b'. match_order ex_taker ex_book = Some (Inr result, b') \<and> book_ok b' \<and>
    fill_load b' \<le> 8 \<and> bk_pending_orders b' = []"
  using match_order_keeps_book_ok [OF ex_book_ok ex_taker_ok] by (simp add: ex_load) (simp add: ex_book_def)

definition killed_quantity :: "match_result \<Rightarrow> nat" where
  "killed_quantity result = (case result of MR_Killed _ r \<Rightarrow> q2n (rm_remaining r) | _ \<Rightarrow> 0)"

lemma consumed_insert_priority: "consumed (insert_priority s x xs) = q2n (ro_remaining (snd x)) + consumed xs"
proof -
  have "consumed (takeWhile P xs) + consumed (dropWhile P xs) = consumed xs" for P
    by (metis consumed_append takeWhile_dropWhile_id)
  then show ?thesis by (cases x) (simp add: insert_priority_def algebra_simps)
qed

text \<open>C22. Conservation and limits, for orders of both kinds: what the taker asked for is what its fills moved
  plus what rests plus what is reported as killed; its own side gains exactly what rests and the opposite
  side loses exactly what the fills moved; no fill is at a price beyond the taker's limit. A
  good-til-canceled order is never killed, a fill-or-kill order never rests, and a killed order moves
  nothing and leaves the book as it was.\<close>

theorem match_order_conserves_quantity:
  assumes "book_ok b" "taker_ok ord b" "fill_load b < 2 ^ 64"
  shows "\<exists>result b' rest. match_order ord b = Some (Inr result, b') \<and>
    q2n (ord_remaining ord) = (\<Sum>f \<leftarrow> result_fills result. q2n (fl_quantity f)) + rest + killed_quantity result \<and>
    consumed (side_list (ord_side ord) b') = consumed (side_list (ord_side ord) b) + rest \<and>
    consumed (side_list (opposite (ord_side ord)) b) =
      (\<Sum>f \<leftarrow> result_fills result. q2n (fl_quantity f)) + consumed (side_list (opposite (ord_side ord)) b') \<and>
    list_all (\<lambda>f. \<not> stops (ord_side ord) (ord_price ord) (fl_maker_price f)) (result_fills result) \<and>
    (case ord_tif ord of GoodTilCanceled \<Rightarrow> killed_quantity result = 0 | FillOrKill \<Rightarrow> rest = 0) \<and>
    (killed_quantity result = 0 \<or> result_fills result = [] \<and> b' = b)"
proof -
  obtain fs n makers' where liq: "take_liquidity (stops (ord_side ord) (ord_price ord)) (q2n (ord_remaining ord))
           (side_list (opposite (ord_side ord)) b) = (fs, n, makers')" by (metis prod_cases3)
  show ?thesis
  proof (cases "ord_tif ord = FillOrKill \<and> n \<noteq> 0")
    case True
    then show ?thesis
      using match_order_killed [OF assms(1,2) liq] by (auto simp: result_fills_def killed_quantity_def)
  next
    case False
    obtain bids asks where m: "match_order ord b =
        Some (Inr (outcome_of ord (fills_from ord (bk_next_fill b) fs) n),
          matched_book ord (consumed_ids (side_list (opposite (ord_side ord)) b) makers') (length fs) n bids asks b)"
      and q: "queues_list (opposite (ord_side ord)) bids asks = makers'"
      "queues_list (ord_side ord) bids asks =
        (if n = 0 then side_list (ord_side ord) b
         else insert_priority (ord_side ord) (ord_price ord, resting_from (ord\<lparr>ord_remaining := n2q n\<rparr>))
                (side_list (ord_side ord) b))"
      using match_order_executed [OF assms(1,2) liq opp_bound [OF assms(3)]] False by auto
    have out: "result_fills (outcome_of ord F n) = F" "killed_quantity (outcome_of ord F n) = 0" for F
      by (simp_all add: outcome_of_def result_fills_def killed_quantity_def)
    have "\<forall>f \<in> set (fills_from ord seq fs). \<not> stops (ord_side ord) (ord_price ord) (fl_maker_price f)" for seq
      using take_liquidity_prices [OF liq] by (induction fs arbitrary: seq) auto
    then show ?thesis
      using m q take_liquidity_amounts [OF liq] sum_fills_from [OF take_liquidity_sum_bound [OF liq]]
        taker_remaining_n2q [OF liq] False
      by (intro exI [of _ "outcome_of ord (fills_from ord (bk_next_fill b) fs) n"] exI conjI [OF m]
          exI [of _ n] conjI)
         (auto simp: out consumed_insert_priority resting_from_def list_all_iff split: time_in_force.split)
  qed
qed

theorem match_order_conserves_quantity_witness:
  "(\<exists>result b' rest. match_order ex_taker ex_book = Some (Inr result, b') \<and>
    25 = (\<Sum>f \<leftarrow> result_fills result. q2n (fl_quantity f)) + rest \<and> consumed (side_list Buy b') = 15 + rest \<and>
    35 = (\<Sum>f \<leftarrow> result_fills result. q2n (fl_quantity f)) + consumed (side_list Sell b')) \<and>
   (\<exists>result b'. match_order ex_fok ex_book = Some (Inr result, b') \<and> consumed (side_list Buy b') = 15 \<and>
    35 = (\<Sum>f \<leftarrow> result_fills result. q2n (fl_quantity f)) + killed_quantity result)"
proof -
  have v: "ord_tif ex_taker = GoodTilCanceled" "ord_side ex_taker = Buy" "ord_tif ex_fok = FillOrKill" "ord_side ex_fok = Buy"
      "q2n (ord_remaining ex_taker) = 25" "q2n (ord_remaining ex_fok) = 35"
      "consumed (side_list Buy ex_book) = 15" "consumed (side_list Sell ex_book) = 35"
    by (simp_all add: ex_eval ex_fok_def)
  have l: "fill_load ex_book < 2 ^ 64" and k: "taker_ok ex_fok ex_book" by (simp_all add: ex_load) (simp add: ex_eval ex_fok_def)
  from match_order_conserves_quantity [OF ex_book_ok ex_taker_ok l] match_order_conserves_quantity [OF ex_book_ok k l]
  show ?thesis by (auto simp: v)
qed

section \<open>Enqueueing, batches and removal\<close>

lemma pending_disjoint:
  assumes "book_ok b"
  shows "set (resting_ids b) \<inter> set (pending_order_seqs b) = {}"
proof -
  have "i < j" if "i \<in> set (resting_ids b)" "j \<in> set (pending_order_seqs b)" for i j
    using assms that by (simp add: book_ok_def pending_ok_def)
  then show ?thesis by (meson disjoint_iff less_irrefl)
qed

text \<open>Enqueueing: an order numbered with the book's next sequence number and with valid
  amounts is accepted, goes to the back of the pending queue, and leaves a well-formed book; an
  order with amounts that are not valid traps.\<close>

lemma add_pending_order_correct:
  assumes "book_ok b" "ord_id ord = bk_next_seq b" "unat (bk_next_seq b) + 1 < 2 ^ 64"
  shows "if valid_amounts b (ord_price ord) (ord_remaining ord)
    then \<exists>b'. add_pending_order ord b = Some b' \<and> book_ok b' \<and>
           bk_pending_orders b' = bk_pending_orders b @ [ord] \<and> unat (bk_next_seq b') = unat (bk_next_seq b) + 1
    else add_pending_order ord b = None"
proof (cases "valid_amounts b (ord_price ord) (ord_remaining ord)")
  case True
  then show ?thesis
    using add_pending_order_ok [OF assms(1) True assms(2,3)] assms(3) by (simp add: unat_add_no_overflow)
next
  case False
  have lot: "bk_lot_size b \<noteq> 0" using assms(1) by (simp add: book_ok_def)
  then obtain v where "validate_order b (ord_price ord) (ord_remaining ord) = Some v" "v \<noteq> Inr ()"
    using False validate_order_iff [OF lot] validate_order_eq [OF lot] by metis
  then show ?thesis using False by (simp add: add_pending_order_def ensure_def)
qed

lemma add_pending_order_correct_witness:
  "add_pending_order (ex_taker\<lparr>ord_id := 6, ord_price := 105\<rparr>) ex_book = None \<and>
   (\<exists>b'. add_pending_order (ex_taker\<lparr>ord_id := 6\<rparr>) ex_book = Some b' \<and> book_ok b' \<and>
     bk_pending_orders b' = [ex_taker\<lparr>ord_id := 6\<rparr>] \<and> unat (bk_next_seq b') = 7)"
proof -
  have "ord_id (ex_taker\<lparr>ord_id := 6\<rparr>) = bk_next_seq ex_book"
      "ord_id (ex_taker\<lparr>ord_id := 6, ord_price := 105\<rparr>) = bk_next_seq ex_book"
      "unat (bk_next_seq ex_book) + 1 < 2 ^ 64"
    and v: "valid_amounts ex_book (ord_price (ex_taker\<lparr>ord_id := 6\<rparr>)) (ord_remaining (ex_taker\<lparr>ord_id := 6\<rparr>))"
      "\<not> valid_amounts ex_book (ord_price (ex_taker\<lparr>ord_id := 6, ord_price := 105\<rparr>))
         (ord_remaining (ex_taker\<lparr>ord_id := 6, ord_price := 105\<rparr>))"
      "bk_pending_orders ex_book = []" "unat (bk_next_seq ex_book) = 6"
    by (simp_all add: ex_eval)
  then show ?thesis
    using add_pending_order_correct [OF ex_book_ok, of "ex_taker\<lparr>ord_id := 6\<rparr>"]
      add_pending_order_correct [OF ex_book_ok, of "ex_taker\<lparr>ord_id := 6, ord_price := 105\<rparr>"]
    by simp
qed

text \<open>C23. A batch of pending orders is matched to the end, and every order of the batch ends in
  exactly one place: resting, filled or expired. The orders in the book after the batch are
  those before it and those of the batch, less the filled and the expired; the orders still
  pending are untouched.\<close>

theorem process_pending_orders_partition:
  assumes "book_ok b" "pending_order_seqs b = expected @ later" "fill_load b + length expected < 2 ^ 64"
    "bk_filled_orders b = {}"
  shows "\<exists>out b'. process_pending_orders expected b = Some (out, b') \<and> book_ok b' \<and>
    pending_order_seqs b' = later \<and> bk_filled_orders b' = {} \<and>
    set expected = mo_resting out \<union> (mo_filled out \<inter> set expected) \<union> set (bt_keys (mo_expired out)) \<and>
    mo_resting out \<inter> mo_filled out = {} \<and> mo_resting out \<inter> set (bt_keys (mo_expired out)) = {} \<and>
    mo_filled out \<inter> set (bt_keys (mo_expired out)) = {} \<and>
    set (resting_ids b') = (set (resting_ids b) \<union> mo_resting out) - mo_filled out"
proof -
  obtain out b' where p: "process_pending_orders expected b = Some (out, b')" "book_ok b'"
      "pending_order_seqs b' = later" "bk_filled_orders b' = {}"
      "set (resting_ids b') \<inter> mo_filled out = {}"
      "set (resting_ids b') \<union> mo_filled out = set (resting_ids b) \<union> (set expected - set (bt_keys (mo_expired out)))"
      "mo_resting out = set (resting_ids b') \<inter> set expected" "set (bt_keys (mo_expired out)) \<subseteq> set expected"
    using process_pending_orders_ok [OF assms] by blast
  have "set (resting_ids b) \<inter> set expected = {}"
    using pending_disjoint [OF assms(1)] assms(2) by auto
  then show ?thesis using p by (intro exI [of _ out] exI [of _ b'] conjI) (simp_all, blast+)
qed

theorem process_pending_orders_partition_witness:
  "\<exists>out b'. process_pending_orders [4] (ex_book\<lparr>bk_pending_orders := [ex_fok, ex_taker\<lparr>ord_id := 5\<rparr>]\<rparr>) = Some (out, b') \<and>
    book_ok b' \<and> pending_order_seqs b' = [5] \<and>
    {4} = mo_resting out \<union> (mo_filled out \<inter> {4}) \<union> set (bt_keys (mo_expired out))"
proof -
  let ?b = "ex_book\<lparr>bk_pending_orders := [ex_fok, ex_taker\<lparr>ord_id := 5\<rparr>]\<rparr>"
  have ok: "book_ok ?b" by (simp add: ex_eval ex_fok_def) auto
  have "pending_order_seqs ?b = [4] @ [5]" "fill_load ?b + length [4 :: order_seq] < 2 ^ 64" "bk_filled_orders ?b = {}"
    by (simp_all add: ex_eval ex_fok_def)
  from process_pending_orders_partition [OF ok this] show ?thesis by auto
qed

text \<open>C24. Removal: an order in the book, resting or pending, is taken out and reported with its
  side, price and remaining quantity, everything else keeps its place, and the book stays
  well-formed; an unknown order changes nothing. The index never disagrees with the levels.\<close>

theorem remove_order_correct:
  assumes "book_ok b"
  shows "if seq \<in> set (resting_ids b) \<union> set (pending_order_seqs b)
    then \<exists>removed b'. remove_order seq b = Some (Some removed, b') \<and> book_ok b' \<and>
           set (resting_ids b') \<union> set (pending_order_seqs b') =
             set (resting_ids b) \<union> set (pending_order_seqs b) - {seq} \<and>
           ((\<exists>r xs ys. ro_id r = seq \<and> rm_remaining removed = ro_remaining r \<and>
               side_list (rm_side removed) b = xs @ (rm_price removed, r) # ys \<and>
               side_list (rm_side removed) b' = xs @ ys \<and>
               side_list (opposite (rm_side removed)) b' = side_list (opposite (rm_side removed)) b \<and>
               bk_pending_orders b' = bk_pending_orders b) \<or>
            (\<exists>ord xs ys. ord_id ord = seq \<and>
               removed = \<lparr>rm_side = ord_side ord, rm_price = ord_price ord, rm_remaining = ord_remaining ord\<rparr> \<and>
               bk_pending_orders b = xs @ ord # ys \<and> b' = b\<lparr>bk_pending_orders := xs @ ys\<rparr>))
    else remove_order seq b = Some (None, b)"
proof -
  have pend: "distinct (pending_order_seqs b)" "set (resting_ids b) \<inter> set (pending_order_seqs b) = {}"
    using assms strict_sorted_iff pending_disjoint by (auto simp: book_ok_def pending_ok_def)
  consider "seq \<in> set (resting_ids b)" | "seq \<notin> set (resting_ids b)" "seq \<in> set (pending_order_seqs b)"
    | "seq \<notin> set (resting_ids b)" "seq \<notin> set (pending_order_seqs b)" by blast
  then show ?thesis
  proof cases
    case 1
    obtain s p r bids asks b' xs ys where rem: "remove_order seq b =
        Some (Some \<lparr>rm_side = s, rm_price = p, rm_remaining = ro_remaining r\<rparr>, b')"
      "b' = with_queues bids asks b\<lparr>bk_resting_orders := bt_remove seq (bk_resting_orders b)\<rparr>"
      "ro_id r = seq" "side_list s b = xs @ (p, r) # ys" "side_list s b' = xs @ ys"
      "side_list (opposite s) b' = side_list (opposite s) b" "book_ok b'"
      using remove_resting_ok [OF assms 1] by blast
    have "distinct (resting_ids b)" using assms by (simp add: book_ok_def index_ok_def)
    then have "set (resting_ids b') = set (resting_ids b) - {seq}"
      using rem(3-6) resting_ids_distinct_iff [of b s] by (auto simp: resting_ids_set [of _ s])
    moreover have "pending_order_seqs b' = pending_order_seqs b" "bk_pending_orders b' = bk_pending_orders b"
      using rem(2) by (simp_all add: pending_order_seqs_def)
    ultimately have "set (resting_ids b') \<union> set (pending_order_seqs b') =
             set (resting_ids b) \<union> set (pending_order_seqs b) - {seq}" using 1 pend(2) by auto
    then show ?thesis using 1 rem \<open>bk_pending_orders b' = _\<close> by simp blast
  next
    case 2
    obtain ord xs ys b' where rem: "remove_order seq b = Some (Some \<lparr>rm_side = ord_side ord, rm_price = ord_price ord,
        rm_remaining = ord_remaining ord\<rparr>, b')" "b' = b\<lparr>bk_pending_orders := xs @ ys\<rparr>"
      "ord_id ord = seq" "bk_pending_orders b = xs @ ord # ys" "book_ok b'"
      using remove_pending_ok [OF assms 2] by blast
    have "resting_ids b' = resting_ids b" using rem(2) by (simp add: resting_ids_def side_list_def)
    then have "set (resting_ids b') \<union> set (pending_order_seqs b') =
             set (resting_ids b) \<union> set (pending_order_seqs b) - {seq}"
      using rem(2-4) pend 2 by (auto simp: pending_order_seqs_def)
    then show ?thesis using 2 rem by simp blast
  next
    case 3
    then show ?thesis using remove_absent [OF assms] by simp
  qed
qed

theorem remove_order_correct_witness:
  "remove_order 9 ex_book = Some (None, ex_book) \<and>
   (\<exists>removed b'. remove_order 2 ex_book = Some (Some removed, b') \<and> book_ok b')"
proof -
  have "9 \<notin> set (resting_ids ex_book) \<union> set (pending_order_seqs ex_book)"
      "2 \<in> set (resting_ids ex_book) \<union> set (pending_order_seqs ex_book)"
    by (simp_all add: ex_eval)
  then show ?thesis
    using remove_order_correct [OF ex_book_ok, of 9] remove_order_correct [OF ex_book_ok, of 2] by simp blast
qed

end
