(* ===== verification/Number_Properties.thy ===== *)
theory Number_Properties
  imports Fees Ids
begin

text \<open>
  The properties of the numeric layer: 256-bit arithmetic on two limbs is arithmetic on natural
  numbers, settlement amounts are exact, fees are ceilings, and every wire or text form of a
  number or an identifier is read back as it was written.
\<close>

section \<open>Arithmetic\<close>

text \<open>C28. Addition, subtraction, multiplication and comparison of 256-bit quantities are those of
  natural numbers: the result is exact, and \<open>None\<close> is returned exactly when the true result
  does not fit in 256 bits (or would be negative). The three-chunk long division by a \<open>u64\<close> returns
  the exact quotient and remainder, and \<open>None\<close> only for the divisor zero.\<close>

theorem quantity_arithmetic_exact:
  "quantity_add a b = (if q2n a + q2n b < 2 ^ 256 then Some (n2q (q2n a + q2n b)) else None) \<and>
   quantity_sub a b = (if q2n b \<le> q2n a then Some (n2q (q2n a - q2n b)) else None) \<and>
   checked_mul_u128 a p = (if q2n a * unat p < 2 ^ 256 then Some (n2q (q2n a * unat p)) else None) \<and>
   quantity_cmp a b = (if q2n a < q2n b then Cmp_Less else if q2n a = q2n b then Cmp_Equal else Cmp_Greater) \<and>
   (a = b \<longleftrightarrow> q2n a = q2n b) \<and>
   checked_div_rem_u64 a d = (if d = 0 then None else Some (n2q (q2n a div unat d), of_nat (q2n a mod unat d)))"
  using checked_div_rem_u64_eq [of d a]
  by (auto simp: quantity_add_eq quantity_sub_eq checked_mul_u128_eq quantity_cmp_eq checked_div_rem_u64_def)

text \<open>C29. The quote amount of a trade is exact: with a price on the tick, a quantity on the lot
  and \<open>tick * lot\<close> a multiple of the base scale, \<open>price * quantity / base_scale\<close> has no
  remainder, so the assertion of \<open>checked_mul_quantity_scaled\<close> never fires; \<open>None\<close> is
  returned only if the product overflows 256 bits.\<close>

theorem notional_exact:
  assumes "base_scale \<noteq> 0" "unat base_scale dvd unat tick * unat lot"
    "unat tick dvd unat p" "unat lot dvd q2n q"
  shows "checked_mul_quantity_scaled p q base_scale =
    Some (if unat p * q2n q < 2 ^ 256 then Some (n2q (unat p * q2n q div unat base_scale)) else None)"
proof (rule checked_mul_quantity_scaled_eq [OF assms(1)])
  have "unat tick * unat lot dvd unat p * q2n q" by (rule mult_dvd_mono [OF assms(3,4)])
  with assms(2) show "unat base_scale dvd unat p * q2n q" by (rule dvd_trans)
qed

theorem notional_exact_witness:
  "checked_mul_quantity_scaled 2500 (Quantity 0 40) 100 = Some (Some (n2q 1000))"
proof -
  have "unat (100 :: u64) dvd unat (50 :: u128) * unat (20 :: u64)" "unat (50 :: u128) dvd unat (2500 :: u128)"
      "unat (20 :: u64) dvd q2n (Quantity 0 40)" by (simp_all add: q2n_def)
  from notional_exact [OF _ this] show ?thesis by (simp add: q2n_def)
qed

text \<open>C30. A fee is the exact ceiling of \<open>amount * rate / 10000\<close> for every rate the constructor
  accepts and every 256-bit amount: no step of \<open>mul_ceil\<close> overflows, and the fee never exceeds
  the amount.\<close>

theorem fee_is_exact_ceiling:
  assumes "basis_point_new v = Inr rate"
  shows "\<exists>fee. mul_ceil rate amount = Some fee \<and>
    q2n fee = (q2n amount * unat rate + 9999) div 10000 \<and> q2n fee \<le> q2n amount"
proof -
  have ok: "rate_ok rate" using assms by (auto simp: rate_ok_def basis_point_new_def split: if_splits)
  then show ?thesis
    using mul_ceil_eq [OF ok] mul_ceil_Some [OF ok] by (simp add: ceil_share_def)
qed

theorem fee_is_exact_ceiling_witness:
  "\<exists>fee. mul_ceil 30 quantity_MAX = Some fee \<and>
    q2n fee = (q2n quantity_MAX * 30 + 9999) div 10000 \<and> q2n fee \<le> q2n quantity_MAX"
  using fee_is_exact_ceiling [of 30 30 quantity_MAX] by (simp add: basis_point_new_def basis_point_MAX_def)

section \<open>Encodings\<close>

text \<open>C33. Wire forms: in CBOR a quantity, a price or a tick size is read back from what was written, whatever
  follows it in the stream, in both the integer form and the bignum form. In Candid converting a
  natural number to a quantity succeeds exactly below \<open>2 ^ 256\<close> and keeps its value, and converting
  back gives the number; the byte form is inverse to its reader.\<close>

theorem wire_roundtrip:
  assumes "biguint_ok big"
  shows "decode_quantity (encode_quantity q @ rest) = Inr (q, rest) \<and>
   decode_u128 (encode_u128 p @ rest) = Inr (p, rest) \<and>
   decode_non_zero_u128 (encode_non_zero_u128 t @ rest) = (if t = 0 then Inl ExpectedNonZero else Inr (t, rest)) \<and>
   decode_non_zero_u64 (encode_non_zero_u64 l @ rest) = (if l = 0 then Inl ExpectedNonZero else Inr (l, rest)) \<and>
   quantity_try_from big n = (if n < 2 ^ 256 then Inr (n2q n) else Inl QuantityOverflowError) \<and>
   quantity_try_from big (to_nat q) = Inr q \<and> from_be_bytes (to_be_bytes q) = Some q"
  using quantity_try_from_eq [OF assms] q2n_bound [of q]
  by (simp add: to_nat_eq from_to_be_bytes decode_encode_quantity decode_encode_u128 decode_non_zero_u128_def encode_non_zero_u128_def
      encode_non_zero_u64_def)

text \<open>A concrete big-integer library: the minimal number of bits and of big-endian bytes.\<close>

fun ex_bits :: "nat \<Rightarrow> nat" where
  "ex_bits n = (if n = 0 then 0 else Suc (ex_bits (n div 2)))"

declare ex_bits.simps [simp del]

definition ex_biguint :: biguint_ops where
  "ex_biguint = \<lparr>bits = ex_bits, to_bytes_be = (\<lambda>n. be_bytes (max 1 ((ex_bits n + 7) div 8)) n)\<rparr>"

lemma ex_bits_le: "ex_bits n \<le> k \<longleftrightarrow> n < 2 ^ k"
proof (induction n arbitrary: k rule: ex_bits.induct)
  case (1 n)
  show ?case
  proof (cases "n = 0")
    case True
    then show ?thesis by (simp add: ex_bits.simps)
  next
    case False
    then have e: "ex_bits n = Suc (ex_bits (n div 2))" by (subst ex_bits.simps) simp
    show ?thesis
    proof (cases k)
      case 0
      then show ?thesis using False e by simp
    next
      case (Suc j)
      have "ex_bits n \<le> k \<longleftrightarrow> n div 2 < 2 ^ j" unfolding e Suc using "1.IH" [OF False] by simp
      also have "\<dots> \<longleftrightarrow> n < 2 ^ k" unfolding Suc power_Suc by linarith
      finally show ?thesis .
    qed
  qed
qed

lemma pow256: "(256 :: nat) ^ k = 2 ^ (8 * k)"
  by (simp add: power_mult)

lemma ex_biguint_ok: "biguint_ok ex_biguint"
proof -
  have "be_val (be_bytes (max 1 ((ex_bits n + 7) div 8)) n) = n" for n
  proof -
    have "ex_bits n \<le> 8 * max 1 ((ex_bits n + 7) div 8)" by linarith
    then have "n < 256 ^ max 1 ((ex_bits n + 7) div 8)" by (simp only: pow256 ex_bits_le)
    then show ?thesis by (simp only: be_val_be_bytes mod_less)
  qed
  moreover have "max 1 ((ex_bits n + 7) div 8) \<le> k" if "0 < k" "n < 256 ^ k" for n k
  proof -
    have "ex_bits n \<le> 8 * k" using that(2) by (simp only: pow256 ex_bits_le)
    then show ?thesis using that(1) by simp
  qed
  ultimately show ?thesis by (simp add: biguint_ok_def ex_biguint_def ex_bits_le)
qed

theorem wire_roundtrip_witness:
  "quantity_try_from ex_biguint (2 ^ 256) = Inl QuantityOverflowError \<and>
   quantity_try_from ex_biguint (to_nat quantity_MAX) = Inr quantity_MAX"
  using wire_roundtrip [OF ex_biguint_ok, of quantity_MAX _ _ _ _ "2 ^ 256"] by simp

end
