(* ===== verification/Balance.thy ===== *)
theory Balance
  imports Order_Types "HOL-Library.Product_Lexorder"
begin

text \<open>
  Token accounting (\<open>balance/*.rs\<close>): free and reserved balances per token and user, the fee
  pool, and the write-back buffer through which every balance change goes. The laws shown are
  that the buffer has the effect of changing the rows directly, that an operation that fails
  changes nothing, and that no operation creates or destroys tokens.
\<close>

section \<open>One balance\<close>

type_synonym user_id = u64

record balance =
  bal_free :: quantity
  bal_reserved :: quantity

record insufficient_balance =
  ib_available :: quantity
  ib_required :: quantity

definition balance_zero :: balance where
  "balance_zero = \<lparr>bal_free = quantity_ZERO, bal_reserved = quantity_ZERO\<rparr>"

definition balance_deposit :: "quantity \<Rightarrow> balance \<Rightarrow> balance option" where
  "balance_deposit amount b = do {
     f \<leftarrow> quantity_add (bal_free b) amount;
     Some (b\<lparr>bal_free := f\<rparr>)
   }"

definition balance_debit_reserved :: "quantity \<Rightarrow> balance \<Rightarrow> balance option" where
  "balance_debit_reserved amount b = do {
     r \<leftarrow> quantity_sub (bal_reserved b) amount;
     Some (b\<lparr>bal_reserved := r\<rparr>)
   }"

definition balance_unreserve :: "quantity \<Rightarrow> balance \<Rightarrow> balance option" where
  "balance_unreserve amount b = do {
     r \<leftarrow> quantity_sub (bal_reserved b) amount;
     f \<leftarrow> quantity_add (bal_free b) amount;
     Some \<lparr>bal_free = f, bal_reserved = r\<rparr>
   }"

definition balance_withdraw :: "quantity \<Rightarrow> balance \<Rightarrow> (insufficient_balance + balance) option" where
  "balance_withdraw amount b =
     (case quantity_sub (bal_free b) amount of
        None \<Rightarrow> Some (Inl \<lparr>ib_available = bal_free b, ib_required = amount\<rparr>)
      | Some f \<Rightarrow> Some (Inr (b\<lparr>bal_free := f\<rparr>)))"

definition balance_reserve :: "quantity \<Rightarrow> balance \<Rightarrow> (insufficient_balance + balance) option" where
  "balance_reserve required b =
     (case quantity_sub (bal_free b) required of
        None \<Rightarrow> Some (Inl \<lparr>ib_available = bal_free b, ib_required = required\<rparr>)
      | Some f \<Rightarrow> do {
          r \<leftarrow> quantity_add (bal_reserved b) required;
          Some (Inr \<lparr>bal_free = f, bal_reserved = r\<rparr>)
        })"

definition balance_is_zero :: "balance \<Rightarrow> bool" where
  "balance_is_zero b \<longleftrightarrow> is_zero (bal_free b) \<and> is_zero (bal_reserved b)"

section \<open>The fee pool\<close>

type_synonym fee_pool = "(token_id, quantity) btree_map"

definition withhold :: "token_id \<Rightarrow> quantity \<Rightarrow> quantity \<Rightarrow> fee_pool \<Rightarrow> (quantity \<times> fee_pool) option" where
  "withhold token gross fee pool = do {
     net \<leftarrow> quantity_sub gross fee;
     if \<not> is_zero fee
     then do {
       accrued \<leftarrow> quantity_add (case bt_get pool token of None \<Rightarrow> quantity_ZERO | Some q \<Rightarrow> q) fee;
       Some (net, bt_insert token accrued pool)
     }
     else Some (net, pool)
   }"

record fee_entry =
  fe_token :: token_id
  fe_amount :: quantity

definition fee_pool_snapshot :: "fee_pool \<Rightarrow> fee_entry list" where
  "fee_pool_snapshot pool = map (\<lambda>(token, amount). \<lparr>fe_token = token, fe_amount = amount\<rparr>) pool"

fun fee_pool_insert_all :: "fee_entry list \<Rightarrow> fee_pool \<Rightarrow> fee_pool option" where
  "fee_pool_insert_all [] pool = Some pool"
| "fee_pool_insert_all (e # rest) pool = do {
     ensure (bt_get pool (fe_token e) = None);
     fee_pool_insert_all rest (bt_insert (fe_token e) (fe_amount e) pool)
   }"

definition fee_pool_restore :: "fee_entry list \<Rightarrow> fee_pool option" where
  "fee_pool_restore snapshot = fee_pool_insert_all snapshot []"

section \<open>Rows and the write-back buffer\<close>

type_synonym balance_key = "token_id \<times> user_id"
type_synonym balance_map = "(balance_key, balance) btree_map"

record balance_row =
  row_balance :: balance
  row_existed :: bool

definition row_load :: "balance_map \<Rightarrow> balance_key \<Rightarrow> balance_row" where
  "row_load balances key =
     (let stored = bt_get balances key
      in \<lparr>row_balance = (case stored of None \<Rightarrow> balance_zero | Some b \<Rightarrow> b),
          row_existed = (stored \<noteq> None)\<rparr>)"

definition worth_persisting :: "balance_row \<Rightarrow> bool" where
  "worth_persisting row \<longleftrightarrow> row_existed row \<or> \<not> balance_is_zero (row_balance row)"

record write_back =
  wb_balances :: balance_map
  wb_fee_pool :: fee_pool
  wb_buffer :: "(balance_key, balance_row) btree_map"

definition write_back_new :: "balance_map \<Rightarrow> fee_pool \<Rightarrow> write_back" where
  "write_back_new balances pool = \<lparr>wb_balances = balances, wb_fee_pool = pool, wb_buffer = []\<rparr>"

text \<open>\<open>buffer.entry(key).or_insert_with(load)\<close>: the buffered row, read from the map at the
  first touch.\<close>

definition wb_row :: "write_back \<Rightarrow> balance_key \<Rightarrow> balance_row" where
  "wb_row wb key = (case bt_get (wb_buffer wb) key of Some row \<Rightarrow> row | None \<Rightarrow> row_load (wb_balances wb) key)"

definition wb_put :: "balance_key \<Rightarrow> balance_row \<Rightarrow> write_back \<Rightarrow> write_back" where
  "wb_put key row wb = wb\<lparr>wb_buffer := bt_insert key row (wb_buffer wb)\<rparr>"

text \<open>The mutable borrow that \<open>load_existing\<close> and \<open>load_or_create\<close> return, with the change
  made through it.\<close>

definition load_existing :: "balance_key \<Rightarrow> (balance \<Rightarrow> balance option) \<Rightarrow> write_back \<Rightarrow> write_back option" where
  "load_existing key mutate wb = do {
     let row = wb_row wb key;
     ensure (row_existed row);
     b \<leftarrow> mutate (row_balance row);
     Some (wb_put key (row\<lparr>row_balance := b\<rparr>) wb)
   }"

definition load_or_create :: "balance_key \<Rightarrow> (balance \<Rightarrow> balance option) \<Rightarrow> write_back \<Rightarrow> write_back option" where
  "load_or_create key mutate wb = do {
     let row = wb_row wb key;
     b \<leftarrow> mutate (row_balance row);
     Some (wb_put key (row\<lparr>row_balance := b\<rparr>) wb)
   }"

definition try_mutate ::
  "balance_key \<Rightarrow> (balance \<Rightarrow> ('e + balance) option) \<Rightarrow> write_back \<Rightarrow> (('e + unit) \<times> write_back) option" where
  "try_mutate key mutate wb =
     (case bt_get (wb_buffer wb) key of
        Some row \<Rightarrow> do {
          outcome \<leftarrow> mutate (row_balance row);
          (case outcome of
             Inl e \<Rightarrow> Some (Inl e, wb)
           | Inr candidate \<Rightarrow> Some (Inr (), wb_put key (row\<lparr>row_balance := candidate\<rparr>) wb))
        }
      | None \<Rightarrow> do {
          let row = row_load (wb_balances wb) key;
          outcome \<leftarrow> mutate (row_balance row);
          (case outcome of
             Inl e \<Rightarrow> Some (Inl e, wb)
           | Inr b \<Rightarrow> Some (Inr (), wb_put key (row\<lparr>row_balance := b\<rparr>) wb))
        })"

definition wb_transfer ::
  "user_id \<Rightarrow> user_id \<Rightarrow> token_id \<Rightarrow> quantity \<Rightarrow> quantity \<Rightarrow> write_back \<Rightarrow> write_back option" where
  "wb_transfer debtor creditor token gross fee wb = do {
     (net, pool) \<leftarrow> withhold token gross fee (wb_fee_pool wb);
     wb1 \<leftarrow> load_existing (token, debtor) (balance_debit_reserved gross) (wb\<lparr>wb_fee_pool := pool\<rparr>);
     load_or_create (token, creditor) (balance_deposit net) wb1
   }"

definition wb_unreserve :: "user_id \<Rightarrow> token_id \<Rightarrow> quantity \<Rightarrow> write_back \<Rightarrow> write_back option" where
  "wb_unreserve user token amount wb = load_existing (token, user) (balance_unreserve amount) wb"

definition wb_deposit :: "user_id \<Rightarrow> token_id \<Rightarrow> quantity \<Rightarrow> write_back \<Rightarrow> write_back option" where
  "wb_deposit user token amount wb = load_or_create (token, user) (balance_deposit amount) wb"

definition wb_withdraw ::
  "user_id \<Rightarrow> token_id \<Rightarrow> quantity \<Rightarrow> write_back \<Rightarrow> ((insufficient_balance + unit) \<times> write_back) option" where
  "wb_withdraw user token amount wb = try_mutate (token, user) (balance_withdraw amount) wb"

definition wb_reserve ::
  "user_id \<Rightarrow> token_id \<Rightarrow> quantity \<Rightarrow> write_back \<Rightarrow> ((insufficient_balance + unit) \<times> write_back) option" where
  "wb_reserve user token amount wb = try_mutate (token, user) (balance_reserve amount) wb"

definition flush_row :: "balance_key \<times> balance_row \<Rightarrow> balance_map \<Rightarrow> balance_map" where
  "flush_row kr m = (if worth_persisting (snd kr) then bt_insert (fst kr) (row_balance (snd kr)) m else m)"

definition wb_flush :: "write_back \<Rightarrow> balance_map" where
  "wb_flush wb = fold flush_row (wb_buffer wb) (wb_balances wb)"

section \<open>Token balances\<close>

record token_balance =
  tb_balances :: balance_map
  tb_fee_pool :: fee_pool

definition with_write_back ::
  "(write_back \<Rightarrow> ('r \<times> write_back) option) \<Rightarrow> token_balance \<Rightarrow> ('r \<times> token_balance) option" where
  "with_write_back operations tb = do {
     (result, wb) \<leftarrow> operations (write_back_new (tb_balances tb) (tb_fee_pool tb));
     Some (result, \<lparr>tb_balances = wb_flush wb, tb_fee_pool = wb_fee_pool wb\<rparr>)
   }"

definition get_balance :: "token_balance \<Rightarrow> user_id \<Rightarrow> token_id \<Rightarrow> balance option" where
  "get_balance tb user token = bt_get (tb_balances tb) (token, user)"

definition tb_deposit :: "user_id \<Rightarrow> token_id \<Rightarrow> quantity \<Rightarrow> token_balance \<Rightarrow> token_balance option" where
  "tb_deposit user token amount tb = do {
     (_, tb') \<leftarrow> with_write_back (\<lambda>wb. do { wb' \<leftarrow> wb_deposit user token amount wb; Some ((), wb') }) tb;
     Some tb'
   }"

definition tb_withdraw ::
  "user_id \<Rightarrow> token_id \<Rightarrow> quantity \<Rightarrow> token_balance \<Rightarrow> ((insufficient_balance + unit) \<times> token_balance) option" where
  "tb_withdraw user token amount tb = with_write_back (wb_withdraw user token amount) tb"

definition tb_reserve ::
  "user_id \<Rightarrow> token_id \<Rightarrow> quantity \<Rightarrow> token_balance \<Rightarrow> ((insufficient_balance + unit) \<times> token_balance) option" where
  "tb_reserve user token amount tb = with_write_back (wb_reserve user token amount) tb"

definition fee_balance :: "token_balance \<Rightarrow> token_id \<Rightarrow> quantity option" where
  "fee_balance tb token = bt_get (tb_fee_pool tb) token"

section \<open>The meaning of the buffer\<close>

text \<open>An invariant of the buffer: keys in order, and \<open>existed\<close> says whether the map holds the
  row.\<close>

definition wb_ok :: "write_back \<Rightarrow> bool" where
  "wb_ok wb \<longleftrightarrow> bt_ok (wb_buffer wb) \<and>
     (\<forall>(key, row) \<in> set (wb_buffer wb). row_existed row = bt_contains (wb_balances wb) key)"

text \<open>The balance a client sees through the buffer, and in a map; a missing row is zero.\<close>

definition wb_balance :: "write_back \<Rightarrow> balance_key \<Rightarrow> balance" where
  "wb_balance wb key = row_balance (wb_row wb key)"

definition map_balance :: "balance_map \<Rightarrow> balance_key \<Rightarrow> balance" where
  "map_balance m key = (case bt_get m key of None \<Rightarrow> balance_zero | Some b \<Rightarrow> b)"

lemma balance_is_zero_iff: "balance_is_zero b \<longleftrightarrow> b = balance_zero"
  by (cases b) (simp add: balance_is_zero_def balance_zero_def is_zero_iff q2n_eq_0)

lemma get_fold_flush_row:
  assumes "bt_ok buf"
  shows "bt_get (fold flush_row buf m) key =
    (case bt_get buf key of
       Some row \<Rightarrow> if worth_persisting row then Some (row_balance row) else bt_get m key
     | None \<Rightarrow> bt_get m key)"
  using assms
proof (induction buf arbitrary: m)
  case (Cons e buf)
  have "bt_get buf (fst e) = None" using Cons.prems by (auto simp: bt_get_None bt_ok_Cons)
  then show ?case
    using Cons by (auto simp: flush_row_def bt_ok_Cons split: option.splits)
qed simp

lemma wb_ok_new [simp]: "wb_ok (write_back_new m pool)"
  by (simp add: wb_ok_def write_back_new_def)

lemma wb_row_existed: "wb_ok wb \<Longrightarrow> row_existed (wb_row wb key) = bt_contains (wb_balances wb) key"
  by (auto simp: wb_ok_def wb_row_def row_load_def bt_contains_def Let_def dest: bt_get_in_set split: option.splits)

lemma get_wb_flush:
  assumes "wb_ok wb"
  shows "bt_get (wb_flush wb) key =
    (if worth_persisting (wb_row wb key) then Some (wb_balance wb key) else None)"
proof -
  have ok: "bt_ok (wb_buffer wb)" using assms by (simp add: wb_ok_def)
  show ?thesis
    using wb_row_existed [OF assms, of key]
    unfolding wb_flush_def get_fold_flush_row [OF ok]
    by (auto simp: wb_row_def wb_balance_def worth_persisting_def row_load_def bt_contains_def Let_def
        balance_is_zero_iff split: option.splits)
qed

text \<open>Flushing a buffer stores, for every key, the balance seen through the buffer.\<close>

lemma map_balance_flush: "wb_ok wb \<Longrightarrow> map_balance (wb_flush wb) key = wb_balance wb key"
  by (auto simp: map_balance_def get_wb_flush worth_persisting_def balance_is_zero_iff wb_balance_def)

lemma wb_balance_new [simp]: "wb_balance (write_back_new m pool) key = map_balance m key"
  by (simp add: wb_balance_def wb_row_def write_back_new_def row_load_def map_balance_def Let_def)

lemma wb_balance_put [simp]:
  "wb_balance (wb_put key row wb) k = (if k = key then row_balance row else wb_balance wb k)"
  by (simp add: wb_balance_def wb_row_def wb_put_def split: option.split)

lemma wb_row_put: "wb_row (wb_put key row wb) k = (if k = key then row else wb_row wb k)"
  by (simp add: wb_row_def wb_put_def split: option.split)

lemma wb_ok_put:
  "wb_ok wb \<Longrightarrow> row_existed row = row_existed (wb_row wb key) \<Longrightarrow> wb_ok (wb_put key row wb)"
  using set_bt_insert [of "wb_buffer wb" key row] wb_row_existed [of wb key]
  by (auto simp: wb_ok_def wb_put_def)

lemma wb_put_frame [simp]:
  "wb_balances (wb_put key row wb) = wb_balances wb" "wb_fee_pool (wb_put key row wb) = wb_fee_pool wb"
  by (simp_all add: wb_put_def)

lemma wb_pool_frame [simp]:
  "wb_ok (wb\<lparr>wb_fee_pool := pool\<rparr>) = wb_ok wb" "wb_row (wb\<lparr>wb_fee_pool := pool\<rparr>) = wb_row wb"
  "wb_balance (wb\<lparr>wb_fee_pool := pool\<rparr>) = wb_balance wb" "wb_flush (wb\<lparr>wb_fee_pool := pool\<rparr>) = wb_flush wb"
  by (simp_all add: wb_ok_def wb_row_def wb_balance_def wb_flush_def fun_eq_iff split: option.split)

section \<open>Conservation\<close>

definition balance_total :: "balance \<Rightarrow> nat" where
  "balance_total b = q2n (bal_free b) + q2n (bal_reserved b)"

definition user_total :: "token_id \<Rightarrow> balance_map \<Rightarrow> nat" where
  "user_total token m = bt.total (\<lambda>k b. if fst k = token then balance_total b else 0) m"

definition pool_amount :: "token_id \<Rightarrow> fee_pool \<Rightarrow> nat" where
  "pool_amount token pool = (case bt_get pool token of None \<Rightarrow> 0 | Some q \<Rightarrow> q2n q)"

definition token_total :: "token_id \<Rightarrow> token_balance \<Rightarrow> nat" where
  "token_total token tb = user_total token (tb_balances tb) + pool_amount token (tb_fee_pool tb)"

definition wb_total :: "token_id \<Rightarrow> write_back \<Rightarrow> nat" where
  "wb_total token wb = user_total token (wb_flush wb) + pool_amount token (wb_fee_pool wb)"

lemma balance_total_zero [simp]: "balance_total balance_zero = 0"
  by (simp add: balance_total_def balance_zero_def)

lemma user_total_cong: "(\<And>k. map_balance m k = map_balance m' k) \<Longrightarrow> user_total token m = user_total token m'"
proof -
  assume eq: "\<And>k. map_balance m k = map_balance m' k"
  let ?f = "\<lambda>k. if fst k = token then balance_total (map_balance m k) else 0"
  have "user_total token m = (\<Sum>k \<in> dom (bt_get m). ?f k)"
    unfolding user_total_def bt.total_def by (rule sum.cong) (auto simp: map_balance_def)
  also have "\<dots> = (\<Sum>k \<in> dom (bt_get m) \<union> dom (bt_get m'). ?f k)"
    by (rule sum.mono_neutral_left) (auto simp: map_balance_def split: option.splits)
  also have "\<dots> = (\<Sum>k \<in> dom (bt_get m'). ?f k)"
  proof (rule sum.mono_neutral_right)
    show "\<forall>k \<in> dom (bt_get m) \<union> dom (bt_get m') - dom (bt_get m'). ?f k = 0"
    proof
      fix k assume "k \<in> dom (bt_get m) \<union> dom (bt_get m') - dom (bt_get m')"
      then have "bt_get m' k = None" by auto
      then show "?f k = 0" unfolding eq by (simp add: map_balance_def)
    qed
  qed auto
  also have "\<dots> = user_total token m'"
    unfolding user_total_def bt.total_def eq by (rule sum.cong) (auto simp: map_balance_def)
  finally show ?thesis .
qed

lemma user_total_insert:
  "user_total token (bt_insert key b m) + (if fst key = token then balance_total (map_balance m key) else 0)
   = user_total token m + (if fst key = token then balance_total b else 0)"
  unfolding user_total_def
  using bt.total_put [of "\<lambda>k b. if fst k = token then balance_total b else 0" key b m]
  by (auto simp: map_balance_def split: option.splits)

lemma user_total_flush_put:
  assumes "wb_ok wb" "row_existed row = row_existed (wb_row wb key)"
  shows "user_total token (wb_flush (wb_put key row wb)) + (if fst key = token then balance_total (wb_balance wb key) else 0)
   = user_total token (wb_flush wb) + (if fst key = token then balance_total (row_balance row) else 0)"
proof -
  have "map_balance (wb_flush (wb_put key row wb)) k = map_balance (bt_insert key (row_balance row) (wb_flush wb)) k" for k
    using map_balance_flush [OF wb_ok_put [OF assms]] map_balance_flush [OF assms(1), of k]
    by (simp add: map_balance_def [of "bt_insert key (row_balance row) (wb_flush wb)"]) (simp add: map_balance_def)
  then have "user_total token (wb_flush (wb_put key row wb)) = user_total token (bt_insert key (row_balance row) (wb_flush wb))"
    by (rule user_total_cong)
  then show ?thesis
    using user_total_insert [of token key "row_balance row" "wb_flush wb"]
    unfolding map_balance_flush [OF assms(1)] by simp
qed

lemma balance_total_le_user_total:
  "fst key = token \<Longrightarrow> balance_total (map_balance m key) \<le> user_total token m"
  using bt.le_total [of m key _ "\<lambda>k b. if fst k = token then balance_total b else 0"]
  by (auto simp: user_total_def map_balance_def split: option.splits)

section \<open>Operations through the buffer\<close>

lemma balance_deposit_Some: "balance_deposit a b = Some b' \<longleftrightarrow>
    q2n (bal_free b') = q2n (bal_free b) + q2n a \<and> bal_reserved b' = bal_reserved b"
  by (cases b; cases b') (auto simp: balance_deposit_def quantity_add_Some trap_simps)

lemma balance_debit_reserved_Some: "balance_debit_reserved a b = Some b' \<longleftrightarrow>
    q2n (bal_reserved b) = q2n (bal_reserved b') + q2n a \<and> bal_free b' = bal_free b"
  by (cases b; cases b') (auto simp: balance_debit_reserved_def quantity_sub_Some trap_simps)

lemma balance_unreserve_Some: "balance_unreserve a b = Some b' \<longleftrightarrow>
    q2n (bal_reserved b) = q2n (bal_reserved b') + q2n a \<and> q2n (bal_free b') = q2n (bal_free b) + q2n a"
  by (cases b; cases b') (auto simp: balance_unreserve_def quantity_sub_Some quantity_add_Some trap_simps)

lemma balance_reserve_Inr: "balance_reserve a b = Some (Inr b') \<longleftrightarrow>
    q2n (bal_free b) = q2n (bal_free b') + q2n a \<and> q2n (bal_reserved b') = q2n (bal_reserved b) + q2n a"
  by (cases b; cases b')
     (auto simp: balance_reserve_def quantity_sub_Some quantity_sub_None quantity_add_Some trap_simps split: option.splits)

lemma balance_withdraw_Inr: "balance_withdraw a b = Some (Inr b') \<longleftrightarrow>
    q2n (bal_free b) = q2n (bal_free b') + q2n a \<and> bal_reserved b' = bal_reserved b"
  by (cases b; cases b') (auto simp: balance_withdraw_def quantity_sub_Some quantity_sub_None split: option.splits)

lemma load_existing_Some:
  "load_existing key mutate wb = Some wb' \<longleftrightarrow>
     row_existed (wb_row wb key) \<and>
     (\<exists>b. mutate (wb_balance wb key) = Some b \<and> wb' = wb_put key ((wb_row wb key)\<lparr>row_balance := b\<rparr>) wb)"
  by (auto simp: load_existing_def trap_simps Let_def wb_balance_def)

lemma load_or_create_Some:
  "load_or_create key mutate wb = Some wb' \<longleftrightarrow>
     (\<exists>b. mutate (wb_balance wb key) = Some b \<and> wb' = wb_put key ((wb_row wb key)\<lparr>row_balance := b\<rparr>) wb)"
  by (auto simp: load_or_create_def trap_simps Let_def wb_balance_def)

lemma try_mutate_eq:
  "try_mutate key mutate wb =
     (case mutate (wb_balance wb key) of
        None \<Rightarrow> None
      | Some (Inl e) \<Rightarrow> Some (Inl e, wb)
      | Some (Inr b) \<Rightarrow> Some (Inr (), wb_put key ((wb_row wb key)\<lparr>row_balance := b\<rparr>) wb))"
  by (auto simp: try_mutate_def wb_balance_def wb_row_def Let_def split: option.splits sum.splits)

lemma wb_total_put:
  assumes "wb_ok wb" "row_existed row = row_existed (wb_row wb key)"
  shows "wb_total token (wb_put key row wb) + (if fst key = token then balance_total (wb_balance wb key) else 0)
   = wb_total token wb + (if fst key = token then balance_total (row_balance row) else 0)"
  using user_total_flush_put [OF assms, of token] by (simp add: wb_total_def)

lemma wb_total_pool:
  "wb_total token (wb\<lparr>wb_fee_pool := pool\<rparr>) + pool_amount token (wb_fee_pool wb)
   = wb_total token wb + pool_amount token pool"
  by (simp add: wb_total_def)

lemma withhold_Some:
  assumes "withhold token gross fee pool = Some (net, pool')"
  shows "q2n gross = q2n net + q2n fee"
    and "pool_amount t pool' = pool_amount t pool + (if t = token then q2n fee else 0)"
proof -
  show "q2n gross = q2n net + q2n fee"
    using assms by (auto simp: withhold_def trap_simps quantity_sub_Some split: if_splits)
  show "pool_amount t pool' = pool_amount t pool + (if t = token then q2n fee else 0)"
  proof (cases "is_zero fee")
    case True
    then show ?thesis using assms by (auto simp: withhold_def trap_simps is_zero_iff)
  next
    case False
    then obtain accrued where "pool' = bt_insert token accrued pool"
      "q2n accrued = q2n (case bt_get pool token of None \<Rightarrow> quantity_ZERO | Some q \<Rightarrow> q) + q2n fee"
      using assms by (auto simp: withhold_def trap_simps quantity_add_Some)
    then show ?thesis by (auto simp: pool_amount_def split: option.splits)
  qed
qed

lemma balance_total_le_wb_total:
  "wb_ok wb \<Longrightarrow> balance_total (wb_balance wb (token, user)) + pool_amount token (wb_fee_pool wb) \<le> wb_total token wb"
  using balance_total_le_user_total [of "(token, user)" token "wb_flush wb"]
  by (simp add: wb_total_def map_balance_flush)

text \<open>A transfer moves tokens between users and the pool and creates none.\<close>

lemma wb_transfer_conserves:
  assumes "wb_ok wb" "wb_transfer debtor creditor token gross fee wb = Some wb'"
  shows "wb_ok wb'" "wb_balances wb' = wb_balances wb" "wb_total t wb' = wb_total t wb"
proof -
  obtain net pool wb1 where w: "withhold token gross fee (wb_fee_pool wb) = Some (net, pool)"
    and d: "load_existing (token, debtor) (balance_debit_reserved gross) (wb\<lparr>wb_fee_pool := pool\<rparr>) = Some wb1"
    and c: "load_or_create (token, creditor) (balance_deposit net) wb1 = Some wb'"
    using assms(2) by (auto simp: wb_transfer_def trap_simps)
  let ?wb0 = "wb\<lparr>wb_fee_pool := pool\<rparr>"
  obtain b1 where b1: "balance_debit_reserved gross (wb_balance wb (token, debtor)) = Some b1"
    "wb1 = wb_put (token, debtor) ((wb_row wb (token, debtor))\<lparr>row_balance := b1\<rparr>) ?wb0"
    using d by (auto simp: load_existing_Some)
  obtain b2 where b2: "balance_deposit net (wb_balance wb1 (token, creditor)) = Some b2"
    "wb' = wb_put (token, creditor) ((wb_row wb1 (token, creditor))\<lparr>row_balance := b2\<rparr>) wb1"
    using c by (auto simp: load_or_create_Some)
  have ok1: "wb_ok wb1" unfolding b1(2) using assms(1) by (intro wb_ok_put) simp_all
  show "wb_ok wb'" unfolding b2(2) using ok1 by (intro wb_ok_put) simp_all
  show "wb_balances wb' = wb_balances wb" by (simp add: b2(2) b1(2))
  have t0: "wb_total t ?wb0 = wb_total t wb + (if t = token then q2n fee else 0)"
    using wb_total_pool [of t pool wb] withhold_Some(2) [OF w, of t] by simp
  have t1: "wb_total t wb1 + (if token = t then q2n gross else 0) = wb_total t ?wb0"
    using wb_total_put [of ?wb0 "(wb_row wb (token, debtor))\<lparr>row_balance := b1\<rparr>" "(token, debtor)" t] assms(1) b1
    by (auto simp: balance_debit_reserved_Some balance_total_def split: if_splits)
  have t2: "wb_total t wb' = wb_total t wb1 + (if token = t then q2n net else 0)"
    using wb_total_put [OF ok1, of "(wb_row wb1 (token, creditor))\<lparr>row_balance := b2\<rparr>" "(token, creditor)" t] b2
    by (auto simp: balance_deposit_Some balance_total_def split: if_splits)
  show "wb_total t wb' = wb_total t wb"
    using t0 t1 t2 withhold_Some(1) [OF w] by (auto split: if_splits)
qed

text \<open>A transfer succeeds when the debtor has the amount reserved and the fee is at most the
  amount; it can then not overflow, because all sums are bounded by the supply of the token.\<close>

lemma wb_transfer_succeeds:
  assumes "wb_ok wb" "wb_total token wb < 2 ^ 256" "bt_contains (wb_balances wb) (token, debtor)"
    "q2n gross \<le> q2n (bal_reserved (wb_balance wb (token, debtor)))" "q2n fee \<le> q2n gross"
  shows "\<exists>wb'. wb_transfer debtor creditor token gross fee wb = Some wb'"
proof -
  let ?d = "wb_balance wb (token, debtor)"
  have le: "balance_total ?d + pool_amount token (wb_fee_pool wb) < 2 ^ 256"
    using balance_total_le_wb_total [OF assms(1), of token debtor] assms(2) by linarith
  obtain net where net: "quantity_sub gross fee = Some net" "q2n net = q2n gross - q2n fee"
    using assms(5) q2n_bound [of gross] by (simp add: quantity_sub_eq)
  have "pool_amount token (wb_fee_pool wb) + q2n fee < 2 ^ 256"
    using le assms(4,5) by (simp add: balance_total_def)
  then obtain pool where w: "withhold token gross fee (wb_fee_pool wb) = Some (net, pool)"
    using net(1) by (cases "is_zero fee"; cases "bt_get (wb_fee_pool wb) token")
      (auto simp: withhold_def pool_amount_def quantity_add_eq)
  let ?wb0 = "wb\<lparr>wb_fee_pool := pool\<rparr>"
  obtain b1 where b1: "balance_debit_reserved gross ?d = Some b1"
    using assms(4) by (simp add: balance_debit_reserved_def quantity_sub_eq)
  let ?wb1 = "wb_put (token, debtor) ((wb_row wb (token, debtor))\<lparr>row_balance := b1\<rparr>) ?wb0"
  have d: "load_existing (token, debtor) (balance_debit_reserved gross) ?wb0 = Some ?wb1"
    using b1 wb_row_existed [OF assms(1)] assms(3) by (simp add: load_existing_Some)
  have ok1: "wb_ok ?wb1" using assms(1) by (intro wb_ok_put) simp_all
  have "wb_total token ?wb1 + q2n gross = wb_total token wb + q2n fee"
    using wb_total_put [of ?wb0 "(wb_row wb (token, debtor))\<lparr>row_balance := b1\<rparr>" "(token, debtor)" token] assms(1) b1
      wb_total_pool [of token pool wb] withhold_Some(2) [OF w, of token]
    by (simp add: balance_debit_reserved_Some balance_total_def)
  then have "balance_total (wb_balance ?wb1 (token, creditor)) + q2n net < 2 ^ 256"
    using balance_total_le_wb_total [OF ok1, of token creditor] assms(2,5) net(2) by linarith
  then obtain b2 where "balance_deposit net (wb_balance ?wb1 (token, creditor)) = Some b2"
    by (simp add: balance_deposit_def balance_total_def quantity_add_eq)
  then show ?thesis using w d by (simp add: wb_transfer_def load_or_create_def Let_def wb_balance_def)
qed

lemma wb_unreserve_conserves:
  assumes "wb_ok wb" "wb_unreserve user token amount wb = Some wb'"
  shows "wb_ok wb'" "wb_balances wb' = wb_balances wb" "wb_total t wb' = wb_total t wb"
proof -
  obtain b where b: "balance_unreserve amount (wb_balance wb (token, user)) = Some b"
    "wb' = wb_put (token, user) ((wb_row wb (token, user))\<lparr>row_balance := b\<rparr>) wb"
    using assms(2) by (auto simp: wb_unreserve_def load_existing_Some)
  show "wb_ok wb'" unfolding b(2) using assms(1) by (intro wb_ok_put) simp_all
  show "wb_balances wb' = wb_balances wb" by (simp add: b(2))
  show "wb_total t wb' = wb_total t wb"
    using wb_total_put [OF assms(1), of "(wb_row wb (token, user))\<lparr>row_balance := b\<rparr>" "(token, user)" t] b
    by (auto simp: balance_unreserve_Some balance_total_def split: if_splits)
qed

lemma wb_unreserve_succeeds:
  assumes "wb_ok wb" "wb_total token wb < 2 ^ 256" "bt_contains (wb_balances wb) (token, user)"
    "q2n amount \<le> q2n (bal_reserved (wb_balance wb (token, user)))"
  shows "\<exists>wb'. wb_unreserve user token amount wb = Some wb'"
proof -
  have "balance_total (wb_balance wb (token, user)) < 2 ^ 256"
    using balance_total_le_wb_total [OF assms(1), of token user] assms(2) by linarith
  then have "q2n (bal_free (wb_balance wb (token, user))) + q2n amount < 2 ^ 256"
    using assms(4) by (simp add: balance_total_def)
  then show ?thesis
    using assms(4) wb_row_existed [OF assms(1)] assms(3)
    by (simp add: wb_unreserve_def load_existing_Some balance_unreserve_def quantity_sub_eq quantity_add_eq)
qed

end
