(* ===== verification/Balance_Properties.thy ===== *)
theory Balance_Properties
  imports Balance
begin

text \<open>
  Properties of token accounting. The interface the state layer relies on is the locale
  \<open>token_accounting\<close>: what each operation does to the supply of every token, and that a failed
  operation changes nothing. Inside it the accounting equation is proved for every sequence of
  operations; the interpretation is on the code's \<open>TokenBalance\<close>.
\<close>

section \<open>Batches of balance operations\<close>

text \<open>The operations that a settling event applies inside one write-back.\<close>

datatype batch_op =
    BTransfer user_id user_id token_id quantity quantity
  | BUnreserve user_id token_id quantity

fun wb_apply :: "batch_op \<Rightarrow> write_back \<Rightarrow> write_back option" where
  "wb_apply (BTransfer debtor creditor token gross fee) wb = wb_transfer debtor creditor token gross fee wb"
| "wb_apply (BUnreserve user token amount) wb = wb_unreserve user token amount wb"

fun wb_apply_all :: "batch_op list \<Rightarrow> write_back \<Rightarrow> write_back option" where
  "wb_apply_all [] wb = Some wb"
| "wb_apply_all (op # ops) wb = wb_apply op wb \<bind> wb_apply_all ops"

definition tb_batch :: "batch_op list \<Rightarrow> token_balance \<Rightarrow> token_balance option" where
  "tb_batch ops tb = do {
     (_, tb') \<leftarrow> with_write_back (\<lambda>wb. do { wb' \<leftarrow> wb_apply_all ops wb; Some ((), wb') }) tb;
     Some tb'
   }"

text \<open>The reference: every operation in a write-back of its own.\<close>

fun tb_one_by_one :: "batch_op list \<Rightarrow> token_balance \<Rightarrow> token_balance option" where
  "tb_one_by_one [] tb = Some tb"
| "tb_one_by_one (op # ops) tb = tb_batch [op] tb \<bind> tb_one_by_one ops"

lemma wb_apply_conserves:
  assumes "wb_ok wb" "wb_apply op wb = Some wb'"
  shows "wb_ok wb'" "wb_balances wb' = wb_balances wb" "wb_total t wb' = wb_total t wb"
proof -
  have "wb_ok wb' \<and> wb_balances wb' = wb_balances wb \<and> wb_total t wb' = wb_total t wb"
    using assms by (cases op) (auto dest: wb_transfer_conserves wb_unreserve_conserves)
  then show "wb_ok wb'" "wb_balances wb' = wb_balances wb" "wb_total t wb' = wb_total t wb" by simp_all
qed

lemma wb_apply_all_conserves:
  "wb_ok wb \<Longrightarrow> wb_apply_all ops wb = Some wb' \<Longrightarrow>
   wb_ok wb' \<and> wb_balances wb' = wb_balances wb \<and> wb_total t wb' = wb_total t wb"
proof (induction ops arbitrary: wb)
  case (Cons op ops)
  then obtain wb1 where "wb_apply op wb = Some wb1" "wb_apply_all ops wb1 = Some wb'" by (auto simp: trap_simps)
  then show ?case using Cons.IH [of wb1] wb_apply_conserves(1,2) [OF Cons.prems(1), of op wb1]
      wb_apply_conserves(3) [OF Cons.prems(1), of op wb1 t] by simp
qed simp

lemma wb_total_new [simp]: "wb_total t (write_back_new (tb_balances tb) (tb_fee_pool tb)) = token_total t tb"
  by (simp add: wb_total_def token_total_def write_back_new_def wb_flush_def)

lemma with_write_back_total:
  assumes "\<And>wb r wb'. wb_ok wb \<Longrightarrow> f wb = Some (r, wb') \<Longrightarrow> wb_total t wb' + w r = wb_total t wb + d r"
    "with_write_back f tb = Some (r, tb')"
  shows "token_total t tb' + w r = token_total t tb + d r"
proof -
  obtain wb' where "f (write_back_new (tb_balances tb) (tb_fee_pool tb)) = Some (r, wb')"
      "tb' = \<lparr>tb_balances = wb_flush wb', tb_fee_pool = wb_fee_pool wb'\<rparr>"
    using assms(2) by (auto simp: with_write_back_def trap_simps)
  then show ?thesis
    using assms(1) [of "write_back_new (tb_balances tb) (tb_fee_pool tb)" r wb'] by (simp add: token_total_def wb_total_def [of _ wb'])
qed

lemma tb_batch_total: "tb_batch ops tb = Some tb' \<Longrightarrow> token_total t tb' = token_total t tb"
proof -
  assume "tb_batch ops tb = Some tb'"
  then obtain u where "with_write_back (\<lambda>wb. do { wb' \<leftarrow> wb_apply_all ops wb; Some ((), wb') }) tb = Some (u, tb')"
    by (auto simp: tb_batch_def trap_simps)
  from with_write_back_total [where w = "\<lambda>_. 0" and d = "\<lambda>_. 0" and t = t, OF _ this] show ?thesis
    using wb_apply_all_conserves by (auto simp: trap_simps)
qed

lemma wb_put_total_change:
  assumes "wb_ok wb" "balance_total b + w = balance_total (wb_balance wb (token, user)) + d"
  shows "wb_total t (wb_put (token, user) ((wb_row wb (token, user))\<lparr>row_balance := b\<rparr>) wb) + (if t = token then w else 0)
    = wb_total t wb + (if t = token then d else 0)"
  using wb_total_put [OF assms(1), of "(wb_row wb (token, user))\<lparr>row_balance := b\<rparr>" "(token, user)" t] assms(2)
  by (auto split: if_splits)

lemma tb_deposit_total:
  assumes "tb_deposit user token amount tb = Some tb'"
  shows "token_total t tb' = token_total t tb + (if t = token then q2n amount else 0)"
proof -
  obtain u where u: "with_write_back (\<lambda>wb. do { wb' \<leftarrow> wb_deposit user token amount wb; Some ((), wb') }) tb = Some (u, tb')"
    using assms by (auto simp: tb_deposit_def trap_simps)
  have "wb_total t wb' + 0 = wb_total t wb + (if t = token then q2n amount else 0)"
    if ok: "wb_ok wb" and run: "(do { wb' \<leftarrow> wb_deposit user token amount wb; Some ((), wb') }) = Some (r, wb')" for wb r wb'
  proof -
    obtain b where "balance_deposit amount (wb_balance wb (token, user)) = Some b"
      "wb' = wb_put (token, user) ((wb_row wb (token, user))\<lparr>row_balance := b\<rparr>) wb"
      using run by (auto simp: wb_deposit_def trap_simps load_or_create_Some)
    then show ?thesis
      using wb_put_total_change [OF ok, of b 0 token user "q2n amount" t]
      by (simp add: balance_deposit_Some balance_total_def)
  qed
  from with_write_back_total [where w = "\<lambda>_. 0" and d = "\<lambda>_. if t = token then q2n amount else 0", OF this u]
  show ?thesis by simp
qed

lemma tb_withdraw_total:
  assumes "tb_withdraw user token amount tb = Some (r, tb')"
  shows "token_total t tb' + (case r of Inl _ \<Rightarrow> 0 | Inr _ \<Rightarrow> if t = token then q2n amount else 0) = token_total t tb"
proof -
  have "wb_total t wb' + (case r of Inl _ \<Rightarrow> 0 | Inr _ \<Rightarrow> if t = token then q2n amount else 0) = wb_total t wb + 0"
    if "wb_ok wb" "wb_withdraw user token amount wb = Some (r, wb')" for wb r wb'
    using that wb_put_total_change [OF that(1), of _ "q2n amount" token user 0 t]
    by (auto simp: wb_withdraw_def try_mutate_eq balance_withdraw_Inr balance_total_def split: option.splits sum.splits)
  from with_write_back_total [where w = "\<lambda>r. case r of Inl _ \<Rightarrow> 0 | Inr _ \<Rightarrow> if t = token then q2n amount else 0"
      and d = "\<lambda>_. 0", OF this assms [unfolded tb_withdraw_def]]
  show ?thesis by simp
qed

lemma tb_reserve_total:
  assumes "tb_reserve user token amount tb = Some (r, tb')"
  shows "token_total t tb' = token_total t tb"
proof -
  have "wb_total t wb' + 0 = wb_total t wb + 0"
    if "wb_ok wb" "wb_reserve user token amount wb = Some (r, wb')" for wb r wb'
    using that wb_put_total_change [OF that(1), of _ 0 token user 0 t]
    by (auto simp: wb_reserve_def try_mutate_eq balance_reserve_Inr balance_total_def split: option.splits sum.splits)
  from with_write_back_total [where w = "\<lambda>_. 0" and d = "\<lambda>_. 0", OF this assms [unfolded tb_reserve_def]]
  show ?thesis by simp
qed

lemma try_mutate_failure:
  assumes "with_write_back (try_mutate key mutate) tb = Some (Inl e, tb')"
  shows "tb' = tb"
  using assms
  by (auto simp: with_write_back_def try_mutate_eq trap_simps write_back_new_def wb_flush_def
      split: option.splits sum.splits)

section \<open>The interface\<close>

datatype ledger_op =
    OpDeposit user_id token_id quantity
  | OpWithdraw user_id token_id quantity
  | OpReserve user_id token_id quantity
  | OpBatch "batch_op list"

locale token_accounting =
  fixes total :: "token_id \<Rightarrow> 'tb \<Rightarrow> nat"
    and deposit :: "user_id \<Rightarrow> token_id \<Rightarrow> quantity \<Rightarrow> 'tb \<Rightarrow> 'tb option"
    and withdraw :: "user_id \<Rightarrow> token_id \<Rightarrow> quantity \<Rightarrow> 'tb \<Rightarrow> ((insufficient_balance + unit) \<times> 'tb) option"
    and reserve :: "user_id \<Rightarrow> token_id \<Rightarrow> quantity \<Rightarrow> 'tb \<Rightarrow> ((insufficient_balance + unit) \<times> 'tb) option"
    and batch :: "batch_op list \<Rightarrow> 'tb \<Rightarrow> 'tb option"
  assumes deposit_total: "deposit u k a s = Some s' \<Longrightarrow> total t s' = total t s + (if t = k then q2n a else 0)"
    and withdraw_total: "withdraw u k a s = Some (r, s') \<Longrightarrow>
      total t s' + (case r of Inl _ \<Rightarrow> 0 | Inr _ \<Rightarrow> if t = k then q2n a else 0) = total t s"
    and reserve_total: "reserve u k a s = Some (r, s') \<Longrightarrow> total t s' = total t s"
    and batch_total: "batch ops s = Some s' \<Longrightarrow> total t s' = total t s"
begin

text \<open>One operation, with the amounts that entered and left the canister.\<close>

fun step :: "token_id \<Rightarrow> ledger_op \<Rightarrow> 'tb \<Rightarrow> ('tb \<times> nat \<times> nat) option" where
  "step t (OpDeposit u k a) s = map_option (\<lambda>s'. (s', if t = k then q2n a else 0, 0)) (deposit u k a s)"
| "step t (OpWithdraw u k a) s =
     map_option (\<lambda>(r, s'). (s', 0, case r of Inl _ \<Rightarrow> 0 | Inr _ \<Rightarrow> if t = k then q2n a else 0)) (withdraw u k a s)"
| "step t (OpReserve u k a) s = map_option (\<lambda>(_, s'). (s', 0, 0)) (reserve u k a s)"
| "step t (OpBatch ops) s = map_option (\<lambda>s'. (s', 0, 0)) (batch ops s)"

fun run :: "token_id \<Rightarrow> ledger_op list \<Rightarrow> 'tb \<Rightarrow> ('tb \<times> nat \<times> nat) option" where
  "run t [] s = Some (s, 0, 0)"
| "run t (op # ops) s = do {
     (s1, d1, w1) \<leftarrow> step t op s;
     (s2, d2, w2) \<leftarrow> run t ops s1;
     Some (s2, d1 + d2, w1 + w2)
   }"

lemma step_equation: "step t op s = Some (s', d, w) \<Longrightarrow> total t s' + w = total t s + d"
  by (cases op) (auto dest: deposit_total [where t = t] withdraw_total [where t = t]
      reserve_total [where t = t] batch_total [where t = t])

lemma accounting_equation: "run t ops s = Some (s', d, w) \<Longrightarrow> total t s' + w = total t s + d"
proof (induction ops arbitrary: s d w)
  case (Cons op ops)
  then obtain s1 d1 w1 d2 w2 where "step t op s = Some (s1, d1, w1)" "run t ops s1 = Some (s', d2, w2)"
      "d = d1 + d2" "w = w1 + w2"
    by (auto simp: trap_simps)
  then show ?case using step_equation [of t op s s1 d1 w1] Cons.IH [of s1 d2 w2] by simp
qed simp

end

interpretation tb: token_accounting token_total tb_deposit tb_withdraw tb_reserve tb_batch
  by unfold_locales (fact tb_deposit_total tb_withdraw_total tb_reserve_total tb_batch_total)+

section \<open>Buffered and direct application agree\<close>

text \<open>A buffer and a stored state that show the same balances and the same fees; a row the buffer
  may debit is stored.\<close>

definition buffers :: "write_back \<Rightarrow> token_balance \<Rightarrow> bool" where
  "buffers wb tb \<longleftrightarrow> wb_ok wb \<and> wb_fee_pool wb = tb_fee_pool tb \<and>
     (\<forall>key. wb_balance wb key = map_balance (tb_balances tb) key) \<and>
     (\<forall>key. bt_contains (wb_balances wb) key \<longrightarrow> bt_contains (tb_balances tb) key)"

abbreviation fresh_wb :: "token_balance \<Rightarrow> write_back" where
  "fresh_wb tb \<equiv> write_back_new (tb_balances tb) (tb_fee_pool tb)"

lemma fresh_wb_simps [simp]:
  "wb_balances (fresh_wb tb) = tb_balances tb" "wb_fee_pool (fresh_wb tb) = tb_fee_pool tb"
  by (simp_all add: write_back_new_def)

text \<open>Two buffers in step: same view, and rows that the first may debit the second may debit.\<close>

definition in_step :: "write_back \<Rightarrow> write_back \<Rightarrow> bool" where
  "in_step wb wc \<longleftrightarrow> wb_ok wb \<and> wb_ok wc \<and> wb_fee_pool wb = wb_fee_pool wc \<and>
     (\<forall>key. wb_balance wb key = wb_balance wc key) \<and>
     (\<forall>key. bt_contains (wb_balances wb) key \<longrightarrow> bt_contains (wb_balances wc) key)"

lemma in_stepD:
  assumes "in_step wb wc"
  shows "wb_ok wb" "wb_ok wc" "wb_fee_pool wb = wb_fee_pool wc" "wb_balance wb key = wb_balance wc key"
    "bt_contains (wb_balances wb) key \<Longrightarrow> bt_contains (wb_balances wc) key"
  using assms unfolding in_step_def by blast+

lemma in_step_put:
  assumes "in_step wb wc"
  shows "in_step (wb_put key ((wb_row wb key)\<lparr>row_balance := b\<rparr>) wb) (wb_put key ((wb_row wc key)\<lparr>row_balance := b\<rparr>) wc)"
  using assms by (auto simp: in_step_def intro!: wb_ok_put)

lemma in_step_load_existing:
  assumes "in_step wb wc" "load_existing key mutate wb = Some wb'"
  shows "\<exists>wc'. load_existing key mutate wc = Some wc' \<and> in_step wb' wc'"
proof -
  obtain b where b: "row_existed (wb_row wb key)" "mutate (wb_balance wb key) = Some b"
      "wb' = wb_put key ((wb_row wb key)\<lparr>row_balance := b\<rparr>) wb"
    using assms(2) by (auto simp: load_existing_Some)
  have "row_existed (wb_row wc key)"
    using b(1) in_stepD [OF assms(1)] wb_row_existed [of wb key] wb_row_existed [of wc key] by blast
  then show ?thesis
    using b in_stepD(4) [OF assms(1), of key] in_step_put [OF assms(1), of key] unfolding load_existing_Some by auto
qed

lemma in_step_load_or_create:
  assumes "in_step wb wc" "load_or_create key mutate wb = Some wb'"
  shows "\<exists>wc'. load_or_create key mutate wc = Some wc' \<and> in_step wb' wc'"
  using assms(2) in_stepD(4) [OF assms(1), of key] in_step_put [OF assms(1), of key] unfolding load_or_create_Some by auto

lemma in_step_apply:
  assumes "in_step wb wc" "wb_apply op wb = Some wb'"
  shows "\<exists>wc'. wb_apply op wc = Some wc' \<and> in_step wb' wc'"
proof (cases op)
  case (BTransfer debtor creditor token gross fee)
  then obtain net pool wb1 where w: "withhold token gross fee (wb_fee_pool wb) = Some (net, pool)"
    and d: "load_existing (token, debtor) (balance_debit_reserved gross) (wb\<lparr>wb_fee_pool := pool\<rparr>) = Some wb1"
    and c: "load_or_create (token, creditor) (balance_deposit net) wb1 = Some wb'"
    using assms(2) by (auto simp: wb_transfer_def trap_simps)
  have "in_step (wb\<lparr>wb_fee_pool := pool\<rparr>) (wc\<lparr>wb_fee_pool := pool\<rparr>)"
    using assms(1) by (simp add: in_step_def)
  then obtain wc1 where "load_existing (token, debtor) (balance_debit_reserved gross) (wc\<lparr>wb_fee_pool := pool\<rparr>) = Some wc1"
      "in_step wb1 wc1"
    using in_step_load_existing d by blast
  moreover from this obtain wc' where "load_or_create (token, creditor) (balance_deposit net) wc1 = Some wc'" "in_step wb' wc'"
    using in_step_load_or_create c by blast
  ultimately show ?thesis
    using BTransfer w assms(1) by (simp add: wb_transfer_def in_step_def)
next
  case (BUnreserve user token amount)
  then show ?thesis
    using assms in_step_load_existing by (simp add: wb_unreserve_def)
qed

lemma buffers_step:
  assumes "buffers wb tb" "wb_apply op wb = Some wb'"
  shows "\<exists>tb'. tb_batch [op] tb = Some tb' \<and> buffers wb' tb'"
proof -
  have "in_step wb (fresh_wb tb)" using assms(1) by (simp add: buffers_def in_step_def)
  then obtain wc where wc: "wb_apply op (fresh_wb tb) = Some wc" "in_step wb' wc"
    using in_step_apply assms(2) by blast
  have bal: "wb_balances wb' = wb_balances wb" "wb_balances wc = tb_balances tb"
    using wb_apply_conserves(2) [OF _ assms(2)] wb_apply_conserves(2) [OF _ wc(1)] assms(1) by (simp_all add: buffers_def)
  let ?tb = "\<lparr>tb_balances = wb_flush wc, tb_fee_pool = wb_fee_pool wc\<rparr>"
  have ok: "wb_ok wc" using wc(2) by (simp add: in_step_def)
  have "bt_contains (wb_flush wc) key" if "bt_contains (tb_balances tb) key" for key
    using that wb_row_existed [OF ok, of key] bal(2) get_wb_flush [OF ok, of key]
    by (simp add: bt_contains_def worth_persisting_def)
  then have "buffers wb' ?tb"
    using wc(2) assms(1) bal map_balance_flush [OF ok] by (auto simp: buffers_def in_step_def)
  then show ?thesis using wc(1) by (simp add: tb_batch_def with_write_back_def)
qed

lemma buffers_all:
  assumes "buffers wb tb" "wb_apply_all ops wb = Some wb'"
  shows "\<exists>tb'. tb_one_by_one ops tb = Some tb' \<and> buffers wb' tb'"
  using assms
proof (induction ops arbitrary: wb tb)
  case (Cons op ops)
  then obtain wb1 where wb1: "wb_apply op wb = Some wb1" "wb_apply_all ops wb1 = Some wb'" by (auto simp: trap_simps)
  then obtain tb1 where "tb_batch [op] tb = Some tb1" "buffers wb1 tb1" using buffers_step Cons.prems(1) by blast
  then show ?case using Cons.IH wb1(2) by auto
qed simp

section \<open>The properties\<close>

text \<open>The accounting equation of \<open>TokenBalance\<close>: for every token and every sequence of
  deposits, withdrawals, reservations and settlement batches, the balances of all users plus
  the fee pool change by exactly what was deposited less what was withdrawn. A withdrawal that
  is refused counts as nothing, and settlement neither creates nor destroys tokens.\<close>

lemma token_accounting_equation:
  assumes "tb.run t ops s = Some (s', deposited, withdrawn)"
  shows "token_total t s' + withdrawn = token_total t s + deposited"
  using assms by (rule tb.accounting_equation)

definition ex_balances :: token_balance where
  "ex_balances = \<lparr>tb_balances = [((5, 1), \<lparr>bal_free = Quantity 0 20, bal_reserved = Quantity 0 100\<rparr>)],
     tb_fee_pool = []\<rparr>"

lemmas ex_balance_eval = ex_balances_def tb_deposit_def tb_batch_def with_write_back_def write_back_new_def wb_deposit_def
  load_or_create_def load_existing_def wb_row_def wb_put_def row_load_def balance_deposit_def quantity_add_def
  overflowing_add_def checked_add_def wb_flush_def flush_row_def worth_persisting_def balance_is_zero_def
  balance_zero_def is_zero_def quantity_ZERO_def wb_transfer_def withhold_def quantity_sub_def overflowing_sub_def
  checked_sub_def balance_debit_reserved_def ensure_def

lemma token_accounting_equation_witness:
  "\<exists>s'. tb.run 5 [OpDeposit 2 5 (Quantity 0 7), OpBatch [BTransfer 1 2 5 (Quantity 0 60) (Quantity 0 2)]] ex_balances
     = Some (s', 7, 0) \<and> token_total 5 s' + 0 = token_total 5 ex_balances + 7"
proof -
  have "\<exists>s'. tb.run 5 [OpDeposit 2 5 (Quantity 0 7), OpBatch [BTransfer 1 2 5 (Quantity 0 60) (Quantity 0 2)]] ex_balances
     = Some (s', 7, 0)"
    by (simp add: ex_balance_eval Let_def q2n_def)
  then show ?thesis using token_accounting_equation by blast
qed

text \<open>C25. The write-back buffer is transparent: if a batch of operations succeeds through one
  buffer, then applying them one by one to the stored balances succeeds too and gives every
  user the same free and reserved balance of every token, and the same fee pool.\<close>

theorem write_back_transparent:
  assumes "tb_batch ops tb = Some tb'"
  shows "\<exists>tb''. tb_one_by_one ops tb = Some tb'' \<and> tb_fee_pool tb'' = tb_fee_pool tb' \<and>
    (\<forall>key. map_balance (tb_balances tb'') key = map_balance (tb_balances tb') key)"
proof -
  obtain wb where wb: "wb_apply_all ops (fresh_wb tb) = Some wb" "tb' = \<lparr>tb_balances = wb_flush wb, tb_fee_pool = wb_fee_pool wb\<rparr>"
    using assms by (auto simp: tb_batch_def with_write_back_def trap_simps)
  have "buffers (fresh_wb tb) tb" by (simp add: buffers_def)
  from buffers_all [OF this wb(1)] obtain tb'' where "tb_one_by_one ops tb = Some tb''" "buffers wb tb''" by blast
  then show ?thesis using wb(2) map_balance_flush [of wb] by (auto simp: buffers_def)
qed

theorem write_back_transparent_witness:
  "\<exists>tb''. tb_one_by_one [BTransfer 1 2 5 (Quantity 0 60) (Quantity 0 2), BTransfer 1 2 5 (Quantity 0 40) (Quantity 0 1)]
     ex_balances = Some tb''"
proof -
  have "\<exists>tb'. tb_batch [BTransfer 1 2 5 (Quantity 0 60) (Quantity 0 2), BTransfer 1 2 5 (Quantity 0 40) (Quantity 0 1)]
     ex_balances = Some tb'"
    by (simp add: ex_balance_eval Let_def)
  then show ?thesis using write_back_transparent by blast
qed

text \<open>Withdrawal and reservation are exact and failure-atomic: they succeed exactly when the
  free balance covers the amount, then move exactly that amount; otherwise they report the
  available balance and change nothing at all. Only a reserved balance beyond 256 bits traps.\<close>

lemma withdraw_reserve_exact:
  fixes tb user token amount
  defines "b \<equiv> map_balance (tb_balances tb) (token, user)"
  shows "if q2n (bal_free b) < q2n amount
    then tb_withdraw user token amount tb = Some (Inl \<lparr>ib_available = bal_free b, ib_required = amount\<rparr>, tb) \<and>
         tb_reserve user token amount tb = Some (Inl \<lparr>ib_available = bal_free b, ib_required = amount\<rparr>, tb)
    else (\<exists>tb'. tb_withdraw user token amount tb = Some (Inr (), tb') \<and> tb_fee_pool tb' = tb_fee_pool tb \<and>
            map_balance (tb_balances tb') = (map_balance (tb_balances tb))
              ((token, user) := b\<lparr>bal_free := n2q (q2n (bal_free b) - q2n amount)\<rparr>)) \<and>
         (if q2n (bal_reserved b) + q2n amount < 2 ^ 256
          then \<exists>tb'. tb_reserve user token amount tb = Some (Inr (), tb') \<and> tb_fee_pool tb' = tb_fee_pool tb \<and>
            map_balance (tb_balances tb') = (map_balance (tb_balances tb))
              ((token, user) := \<lparr>bal_free = n2q (q2n (bal_free b) - q2n amount),
                                bal_reserved = n2q (q2n (bal_reserved b) + q2n amount)\<rparr>)
          else tb_reserve user token amount tb = None)"
proof -
  let ?wb = "fresh_wb tb"
  have flush0: "wb_flush ?wb = tb_balances tb" by (simp add: write_back_new_def wb_flush_def)
  have put: "map_balance (wb_flush (wb_put (token, user) ((wb_row ?wb (token, user))\<lparr>row_balance := b'\<rparr>) ?wb)) =
      (map_balance (tb_balances tb)) ((token, user) := b')" for b'
    using map_balance_flush [OF wb_ok_put [of ?wb]] by (simp add: fun_eq_iff)
  show ?thesis
  proof (cases "q2n (bal_free b) < q2n amount")
    case True
    then show ?thesis
      by (simp add: tb_withdraw_def tb_reserve_def with_write_back_def wb_withdraw_def wb_reserve_def try_mutate_eq b_def
          balance_withdraw_def balance_reserve_def quantity_sub_eq flush0)
  next
    case False
    then show ?thesis
      by (simp add: tb_withdraw_def tb_reserve_def with_write_back_def wb_withdraw_def wb_reserve_def try_mutate_eq b_def
          balance_withdraw_def balance_reserve_def quantity_sub_eq quantity_add_eq put)
  qed
qed

text \<open>C26. Settlement cannot trap on a solvent debtor: in a state where the supply of a token fits
  in 256 bits, a transfer of an amount the debtor has reserved, with a fee of at most the amount,
  succeeds, also when the debtor pays itself. It lowers the reservation of the debtor by exactly the
  amount, raises the free balance of the creditor by exactly the amount less the fee and the fee pool by
  the fee, and changes no other balance and no other token's pool.\<close>

theorem transfer_exact:
  assumes "token_total token tb < 2 ^ 256" "get_balance tb debtor token = Some d"
    "q2n gross \<le> q2n (bal_reserved d)" "q2n fee \<le> q2n gross"
  shows "\<exists>tb'. tb_batch [BTransfer debtor creditor token gross fee] tb = Some tb' \<and>
    q2n (bal_reserved (map_balance (tb_balances tb') k)) + (if k = (token, debtor) then q2n gross else 0) =
      q2n (bal_reserved (map_balance (tb_balances tb) k)) \<and>
    q2n (bal_free (map_balance (tb_balances tb') k)) =
      q2n (bal_free (map_balance (tb_balances tb) k)) + (if k = (token, creditor) then q2n gross - q2n fee else 0) \<and>
    pool_amount t (tb_fee_pool tb') = pool_amount t (tb_fee_pool tb) + (if t = token then q2n fee else 0) \<and>
    token_total t tb' = token_total t tb"
proof -
  let ?wb = "fresh_wb tb" and ?m = "map_balance (tb_balances tb)"
  have d: "wb_balance ?wb (token, debtor) = d" "bt_contains (tb_balances tb) (token, debtor)" "?m (token, debtor) = d"
    using assms(2) by (simp_all add: get_balance_def map_balance_def bt_contains_def)
  obtain wb' where t: "wb_transfer debtor creditor token gross fee ?wb = Some wb'"
    using wb_transfer_succeeds [of ?wb token debtor gross fee creditor] assms(1,3,4) d by auto
  obtain net pool wb1 where w: "withhold token gross fee (tb_fee_pool tb) = Some (net, pool)"
    and e: "load_existing (token, debtor) (balance_debit_reserved gross) (?wb\<lparr>wb_fee_pool := pool\<rparr>) = Some wb1"
    and c: "load_or_create (token, creditor) (balance_deposit net) wb1 = Some wb'"
    using t by (auto simp: wb_transfer_def trap_simps)
  obtain b1 where b1: "balance_debit_reserved gross d = Some b1"
      "wb1 = wb_put (token, debtor) ((wb_row ?wb (token, debtor))\<lparr>row_balance := b1\<rparr>) (?wb\<lparr>wb_fee_pool := pool\<rparr>)"
    using e d by (auto simp: load_existing_Some)
  have m1: "wb_balance wb1 k = (?m((token, debtor) := b1)) k" for k by (auto simp: b1(2))
  obtain b2 where b2: "balance_deposit net (wb_balance wb1 (token, creditor)) = Some b2"
      "wb' = wb_put (token, creditor) ((wb_row wb1 (token, creditor))\<lparr>row_balance := b2\<rparr>) wb1"
    using c by (auto simp: load_or_create_Some)
  have m2: "wb_balance wb' k = (?m((token, debtor) := b1, (token, creditor) := b2)) k" for k
    by (auto simp: b2(2) m1)
  have ok: "wb_ok wb'" by (rule wb_transfer_conserves(1) [OF wb_ok_new t])
  let ?tb = "\<lparr>tb_balances = wb_flush wb', tb_fee_pool = wb_fee_pool wb'\<rparr>"
  have run: "tb_batch [BTransfer debtor creditor token gross fee] tb = Some ?tb"
    using t by (simp add: tb_batch_def with_write_back_def)
  have "wb_fee_pool wb' = pool" by (simp add: b2(2) b1(2))
  moreover have "q2n (bal_reserved (wb_balance wb' k)) + (if k = (token, debtor) then q2n gross else 0) = q2n (bal_reserved (?m k))"
      "q2n (bal_free (wb_balance wb' k)) = q2n (bal_free (?m k)) + (if k = (token, creditor) then q2n gross - q2n fee else 0)"
    using b1(1) b2(1) d(3) withhold_Some(1) [OF w] assms(3)
    by (auto simp: m1 m2 balance_debit_reserved_Some balance_deposit_Some)
  ultimately show ?thesis
    using run tb_batch_total [OF run, of t] withhold_Some(2) [OF w, of t] map_balance_flush [OF ok] by auto
qed

theorem transfer_exact_witness:
  "(\<exists>tb'. tb_batch [BTransfer 1 2 5 (Quantity 0 60) (Quantity 0 2)] ex_balances = Some tb' \<and>
     q2n (bal_free (map_balance (tb_balances tb') (5, 2))) = 58) \<and>
   (\<exists>tb'. tb_batch [BTransfer 1 1 5 (Quantity 0 60) (Quantity 0 2)] ex_balances = Some tb' \<and>
     q2n (bal_reserved (map_balance (tb_balances tb') (5, 1))) = 40 \<and> q2n (bal_free (map_balance (tb_balances tb') (5, 1))) = 78)"
proof -
  have "dom (bt_get [((5 :: nat, 1 :: u64), b)]) = {(5, 1)}" for b :: balance by (auto split: if_splits)
  then have "token_total 5 ex_balances < 2 ^ 256"
    by (simp add: token_total_def user_total_def bt.total_def pool_amount_def ex_balances_def balance_total_def q2n_def)
  moreover have "get_balance ex_balances 1 5 = Some \<lparr>bal_free = Quantity 0 20, bal_reserved = Quantity 0 100\<rparr>"
    by (simp add: get_balance_def ex_balances_def)
  moreover have "map_balance (tb_balances ex_balances) (5, 2) = balance_zero"
    "map_balance (tb_balances ex_balances) (5, 1) = \<lparr>bal_free = Quantity 0 20, bal_reserved = Quantity 0 100\<rparr>"
    by (simp_all add: ex_balances_def map_balance_def)
  ultimately show ?thesis
    using transfer_exact [of 5 ex_balances 1 _ "Quantity 0 60" "Quantity 0 2" 2 "(5, 2)" 5]
      transfer_exact [of 5 ex_balances 1 _ "Quantity 0 60" "Quantity 0 2" 1 "(5, 1)" 5]
    by (auto simp: q2n_def balance_zero_def quantity_ZERO_def)
qed

end
