(* ===== verification/History.thy ===== *)
theory History
  imports Balance
begin

text \<open>
  The append-and-index store shared by orders and trades (\<open>history/mod.rs\<close>): a primary map with
  an insertion number per record, and an index by user and insertion number. The abstract view
  of the index is, for every user, the list of that user's keys, newest first; insertion puts a
  key at its head and a page is a segment of it.
\<close>

section \<open>State and operations\<close>

type_synonym insertion_seq = seq
type_synonym by_user_key = "user_id \<times> insertion_seq"

record ('k, 'v) history =
  hi_primary :: "('k, insertion_seq \<times> 'v) btree_map"
  hi_by_user :: "(by_user_key, 'k) btree_map"

datatype cursor_not_found = CursorNotFound

datatype 'k range_bound = Included 'k | Excluded 'k

definition by_user_first_of :: "user_id \<Rightarrow> by_user_key" where
  "by_user_first_of user = (user, 0)"

definition by_user_last_of :: "user_id \<Rightarrow> by_user_key" where
  "by_user_last_of user = (user, - 1)"

definition history_new :: "('k, 'v) history" where
  "history_new = \<lparr>hi_primary = [], hi_by_user = []\<rparr>"

definition history_len :: "('k, 'v) history \<Rightarrow> u64" where
  "history_len h = of_nat (length (hi_primary h))"

definition history_get :: "('k, 'v) history \<Rightarrow> 'k \<Rightarrow> 'v option" where
  "history_get h key = map_option snd (bt_get (hi_primary h) key)"

definition history_contains_key :: "('k, 'v) history \<Rightarrow> 'k \<Rightarrow> bool" where
  "history_contains_key h key = bt_contains (hi_primary h) key"

definition insert_once :: "user_id \<Rightarrow> 'k::linorder \<Rightarrow> 'v \<Rightarrow> ('k, 'v) history \<Rightarrow> ('k, 'v) history option" where
  "insert_once user key rec h = do {
     let seq = history_len h;
     ensure (bt_get (hi_primary h) key = None);
     ensure (bt_get (hi_by_user h) (user, seq) = None);
     Some (h\<lparr>hi_primary := bt_insert key (seq, rec) (hi_primary h),
             hi_by_user := bt_insert (user, seq) key (hi_by_user h)\<rparr>)
   }"

text \<open>\<open>modify\<close>: the closure returns the changed record and whether it changed, or traps.\<close>

definition modify :: "'k::linorder \<Rightarrow> ('v \<Rightarrow> ('v \<times> bool) option) \<Rightarrow> ('k, 'v) history \<Rightarrow> ('k, 'v) history option" where
  "modify key f h = do {
     (seq, rec) \<leftarrow> bt_get (hi_primary h) key;
     (rec', changed) \<leftarrow> f rec;
     Some (if changed then h\<lparr>hi_primary := bt_insert key (seq, rec') (hi_primary h)\<rparr> else h)
   }"

text \<open>\<open>StableBTreeMap::range\<close> with an inclusive lower bound.\<close>

definition below :: "'k::linorder range_bound \<Rightarrow> 'k \<Rightarrow> bool" where
  "below b k = (case b of Included u \<Rightarrow> k \<le> u | Excluded u \<Rightarrow> k < u)"

definition bt_range :: "'k::linorder \<Rightarrow> 'k range_bound \<Rightarrow> ('k, 'v) btree_map \<Rightarrow> ('k, 'v) btree_map" where
  "bt_range lower upper m = filter (\<lambda>(k, _). lower \<le> k \<and> below upper k) m"

definition page_by_user ::
  "user_id \<Rightarrow> 'k option \<Rightarrow> nat \<Rightarrow> ('k, 'v) history \<Rightarrow> cursor_not_found + 'k list" where
  "page_by_user user after_key len h =
     (let page = (\<lambda>upper. map snd (take len (rev (bt_range (by_user_first_of user) upper (hi_by_user h)))))
      in case after_key of
           None \<Rightarrow> Inr (page (Included (by_user_last_of user)))
         | Some cursor \<Rightarrow>
             (case bt_get (hi_primary h) cursor of
                None \<Rightarrow> Inl CursorNotFound
              | Some (seq, _) \<Rightarrow>
                  let key = (user, seq)
                  in if bt_get (hi_by_user h) key \<noteq> Some cursor then Inl CursorNotFound
                     else Inr (page (Excluded key))))"

definition range_primary ::
  "'k::linorder \<Rightarrow> 'k range_bound \<Rightarrow> nat \<Rightarrow> ('k, 'v) history \<Rightarrow> ('k \<times> 'v) list" where
  "range_primary lower upper len h =
     map (\<lambda>(k, _, v). (k, v)) (take len (rev (bt_range lower upper (hi_primary h))))"

section \<open>The abstract view and the invariant\<close>

definition user_keys :: "user_id \<Rightarrow> ('k, 'v) history \<Rightarrow> 'k list" where
  "user_keys user h = rev (map snd (filter (\<lambda>((u, _), _). u = user) (hi_by_user h)))"

definition history_ok :: "('k::linorder, 'v) history \<Rightarrow> bool" where
  "history_ok h \<longleftrightarrow> bt_ok (hi_primary h) \<and> bt_ok (hi_by_user h) \<and>
     distinct (map (\<lambda>((_, s), _). s) (hi_by_user h)) \<and>
     distinct (map (\<lambda>(_, s, _). s) (hi_primary h)) \<and>
     (\<lambda>((_, s), k). (s, k)) ` set (hi_by_user h) = (\<lambda>(k, s, _). (s, k)) ` set (hi_primary h) \<and>
     (\<forall>(_, s, _) \<in> set (hi_primary h). unat s < length (hi_primary h))"

lemma history_ok_new [simp]: "history_ok history_new"
  by (simp add: history_ok_def history_new_def)

lemma u64_le_max: "x \<le> (- 1 :: u64)"
  by simp

lemma range_user:
  "bt_range (by_user_first_of user) (Included (by_user_last_of user)) m = filter (\<lambda>((u, _), _). u = user) m"
  unfolding bt_range_def by (rule filter_cong) (auto simp: by_user_first_of_def by_user_last_of_def below_def)

lemma range_user_excl:
  "bt_range (by_user_first_of user) (Excluded (user, s)) m =
   filter (\<lambda>((_, s'), _). s' < s) (filter (\<lambda>((u, _), _). u = user) m)"
  unfolding bt_range_def filter_filter by (rule filter_cong) (auto simp: by_user_first_of_def below_def)

lemma bt_insert_split:
  assumes "bt_ok m" "bt_get m k = None"
  shows "\<exists>l r. m = l @ r \<and> bt_insert k v m = l @ (k, v) # r \<and>
    (\<forall>j \<in> set (bt_keys l). j < k) \<and> (\<forall>j \<in> set (bt_keys r). k < j)"
  using assms
proof (induction m)
  case (Cons e m)
  show ?case
  proof (cases "fst e < k")
    case True
    then obtain l r where "m = l @ r" "bt_insert k v m = l @ (k, v) # r"
        "\<forall>j \<in> set (bt_keys l). j < k" "\<forall>j \<in> set (bt_keys r). k < j"
      using Cons by (auto simp: bt_ok_Cons split: if_splits)
    then show ?thesis using True by (intro exI [of _ "e # l"] exI [of _ r]) simp
  next
    case False
    then have "k < fst e" using Cons.prems(2) by (auto split: if_splits)
    then show ?thesis using Cons.prems(1) False
      by (intro exI [of _ "[]"] exI [of _ "e # m"]) (auto simp: bt_ok_Cons)
  qed
qed simp

text \<open>The sequence numbers of both maps are below the number of records.\<close>

lemma history_seqs:
  assumes ok: "history_ok h"
  shows "((w, s), k) \<in> set (hi_by_user h) \<Longrightarrow> unat s < length (hi_primary h)"
    and "(k, s, v) \<in> set (hi_primary h) \<Longrightarrow> unat s < length (hi_primary h)"
proof -
  show *: "unat s < length (hi_primary h)" if "(k, s, v) \<in> set (hi_primary h)" for k s v
    using that ok unfolding history_ok_def by blast
  assume "((w, s), k) \<in> set (hi_by_user h)"
  then have "(s, k) \<in> (\<lambda>((_, s), k). (s, k)) ` set (hi_by_user h)" by force
  then have "(s, k) \<in> (\<lambda>(k, s, _). (s, k)) ` set (hi_primary h)" using ok by (simp add: history_ok_def)
  then show "unat s < length (hi_primary h)" using * by auto
qed

lemma history_ok_extend:
  assumes ok: "history_ok h" and s: "unat s = length (hi_primary h)"
    and U: "hi_by_user h = l @ r" "bt_ok (l @ ((user, s), key) # r)"
    and P: "hi_primary h = pl @ pr" "bt_ok (pl @ (key, s, rec) # pr)"
  shows "history_ok (h\<lparr>hi_primary := pl @ (key, s, rec) # pr, hi_by_user := l @ ((user, s), key) # r\<rparr>)"
proof -
  have fresh: "s' \<noteq> s" if "((w, s'), k) \<in> set (hi_by_user h)" for w s' k
    using history_seqs(1) [OF ok that] s by auto
  have freshP: "s' \<noteq> s" if "(k, s', v) \<in> set (hi_primary h)" for k s' v
    using history_seqs(2) [OF ok that] s by auto
  have "distinct (map (\<lambda>((_, s), _). s) (l @ ((user, s), key) # r))"
    using ok U(1) fresh by (auto simp: history_ok_def)
  moreover have "distinct (map (\<lambda>(_, s, _). s) (pl @ (key, s, rec) # pr))"
    using ok P(1) freshP by (auto simp: history_ok_def)
  moreover have "(\<lambda>((_, s), k). (s, k)) ` set (l @ ((user, s), key) # r) = (\<lambda>(k, s, _). (s, k)) ` set (pl @ (key, s, rec) # pr)"
    using ok U(1) P(1) by (simp add: history_ok_def image_Un)
  moreover have "\<forall>(_, s', _) \<in> set (pl @ (key, s, rec) # pr). unat s' < Suc (length (hi_primary h))"
    using history_seqs(2) [OF ok] P(1) s by (auto intro: less_SucI)
  ultimately show ?thesis
    using U(2) P arg_cong [OF P(1), of length] by (simp add: history_ok_def)
qed

lemma insert_once_ok:
  assumes ok: "history_ok h" and new: "bt_get (hi_primary h) key = None"
    and len: "length (hi_primary h) < 2 ^ 64 - 1"
  shows "\<exists>h'. insert_once user key rec h = Some h' \<and> history_ok h' \<and>
    user_keys u h' = (if u = user then key # user_keys u h else user_keys u h) \<and>
    history_get h' = (history_get h)(key \<mapsto> rec) \<and> length (hi_primary h') = Suc (length (hi_primary h))"
proof -
  let ?P = "hi_primary h" and ?U = "hi_by_user h" and ?s = "history_len h"
  have s: "unat ?s = length ?P" using len by (simp add: history_len_def unat_of_nat_small)
  have "s \<noteq> ?s" if "((w, s), k) \<in> set ?U" for w s k using history_seqs(1) [OF ok that] s by auto
  then have none: "bt_get ?U (user, ?s) = None" by (force simp: bt_get_None bt_keys_def)
  let ?h = "h\<lparr>hi_primary := bt_insert key (?s, rec) ?P, hi_by_user := bt_insert (user, ?s) key ?U\<rparr>"
  have ins: "insert_once user key rec h = Some ?h"
    using new none by (simp add: insert_once_def ensure_def Let_def)
  have okPU: "bt_ok ?P" "bt_ok ?U" using ok by (simp_all add: history_ok_def)
  obtain l r where lr: "?U = l @ r" "bt_insert (user, ?s) key ?U = l @ ((user, ?s), key) # r"
      "\<forall>j \<in> set (bt_keys l). j < (user, ?s)" "\<forall>j \<in> set (bt_keys r). (user, ?s) < j"
    using bt_insert_split [OF okPU(2) none] by blast
  obtain pl pr where plr: "?P = pl @ pr" "bt_insert key (?s, rec) ?P = pl @ (key, ?s, rec) # pr"
    using bt_insert_split [OF okPU(1) new] by blast
  have gt: "u' \<noteq> user" if "((u', s'), k) \<in> set r" for u' s' k
  proof
    assume "u' = user"
    then have "?s < s'" using that lr(4) by (force simp: bt_keys_def)
    moreover have "unat s' < length ?P" using history_seqs(1) [OF ok] that lr(1) by auto
    ultimately show False using s by (simp add: word_less_nat_alt)
  qed
  then have rnil: "filter (\<lambda>((u, _), _). u = user) r = []" by (auto simp: filter_empty_conv)
  have keys: "user_keys u ?h = (if u = user then key # user_keys u h else user_keys u h)"
    using lr(1,2) rnil by (auto simp: user_keys_def)
  have "bt_ok (bt_insert (user, ?s) key ?U)" "bt_ok (bt_insert key (?s, rec) ?P)"
    using okPU by simp_all
  then have "history_ok ?h" unfolding lr(2) plr(2) by (intro history_ok_extend [OF ok s lr(1) _ plr(1)])
  moreover have "history_get ?h = (history_get h)(key \<mapsto> rec)"
    by (auto simp: history_get_def fun_eq_iff)
  ultimately show ?thesis
    using ins keys length_bt_insert_new [OF new] by auto
qed

lemma modify_ok:
  assumes "history_ok h" "bt_get (hi_primary h) key = Some (s, rec)" "f rec = Some (rec', changed)" "\<not> changed \<Longrightarrow> rec' = rec"
  shows "\<exists>h'. modify key f h = Some h' \<and> history_ok h' \<and> user_keys u h' = user_keys u h \<and>
    history_get h' = (history_get h)(key \<mapsto> rec') \<and> length (hi_primary h') = length (hi_primary h)"
proof (cases changed)
  case False
  have "history_get h = (history_get h)(key \<mapsto> rec')" using assms(2,4) False by (auto simp: history_get_def)
  then show ?thesis using assms False by (simp add: modify_def)
next
  case True
  let ?P = "hi_primary h"
  have ok: "bt_ok ?P" using assms(1) by (simp add: history_ok_def)
  obtain l r where lr: "?P = l @ (key, s, rec) # r"
    using bt_get_in_set [OF assms(2)] by (auto dest: split_list)
  then have "\<forall>j \<in> set (bt_keys l). j < key" using ok by (auto simp: bt_ok_append)
  then have ins: "bt_insert key (s, rec') ?P = l @ (key, s, rec') # r"
    unfolding lr by (induction l) auto
  have "bt_ok (bt_insert key (s, rec') ?P)" using ok by simp
  then have "history_ok (h\<lparr>hi_primary := bt_insert key (s, rec') ?P\<rparr>)"
    using assms(1) lr unfolding ins by (simp add: history_ok_def)
  moreover have "history_get (h\<lparr>hi_primary := bt_insert key (s, rec') ?P\<rparr>) = (history_get h)(key \<mapsto> rec')"
    by (auto simp: history_get_def fun_eq_iff)
  ultimately show ?thesis
    using assms(2,3) True lr ins by (simp add: modify_def user_keys_def)
qed

section \<open>Pages\<close>

text \<open>The reference: a page is a segment of the user's list, after the cursor.\<close>

definition page_spec :: "'k list \<Rightarrow> 'k option \<Rightarrow> nat \<Rightarrow> cursor_not_found + 'k list" where
  "page_spec ks after_key len =
     (case after_key of
        None \<Rightarrow> Inr (take len ks)
      | Some c \<Rightarrow> if c \<in> set ks then Inr (take len (tl (dropWhile (\<lambda>k. k \<noteq> c) ks))) else Inl CursorNotFound)"

lemma sorted_user_seqs:
  assumes "bt_ok U"
  shows "sorted_wrt (\<lambda>x y. snd (fst x) < snd (fst y)) (filter (\<lambda>((u, _), _). u = user) U)"
proof -
  have "sorted_wrt (\<lambda>x y. fst x < fst y) (filter (\<lambda>((u, _), _). u = user) U)"
    using assms by (simp add: bt_ok_def sorted_wrt_map sorted_wrt_filter)
  then show ?thesis by (rule sorted_wrt_mono_rel [rotated]) auto
qed

lemma filter_less_prefix:
  assumes "sorted_wrt (\<lambda>x y. f x < (f y :: 'b::linorder)) (l @ e # r)"
  shows "filter (\<lambda>x. f x < f e) (l @ e # r) = l"
  using assms by (auto simp: sorted_wrt_append filter_empty_conv filter_id_conv)

lemma index_of_key:
  assumes "history_ok h" "bt_get (hi_primary h) c = Some (s, v)"
  shows "((u, s'), c) \<in> set (hi_by_user h) \<Longrightarrow> s' = s"
    and "bt_get (hi_by_user h) (u, s) = Some c \<longleftrightarrow> c \<in> set (user_keys u h)"
proof -
  let ?P = "hi_primary h" and ?U = "hi_by_user h"
  have ok: "bt_ok ?P" "bt_ok ?U" and same: "(\<lambda>((_, s), k). (s, k)) ` set ?U = (\<lambda>(k, s, _). (s, k)) ` set ?P"
    using assms(1) by (simp_all add: history_ok_def)
  show same_seq: "s' = s" if "((u, s'), c) \<in> set ?U" for u s'
  proof -
    have "(s', c) \<in> (\<lambda>((_, s), k). (s, k)) ` set ?U" using that by force
    then obtain w where "(c, s', w) \<in> set ?P" using same by auto
    then have "bt_get ?P c = Some (s', w)" using ok(1) by (simp add: bt_ok_get_iff)
    then show ?thesis using assms(2) by simp
  qed
  show "bt_get ?U (u, s) = Some c \<longleftrightarrow> c \<in> set (user_keys u h)"
    unfolding bt_ok_get_iff [OF ok(2)] user_keys_def using same_seq by force
qed

lemma user_keys_known:
  assumes "history_ok h" "c \<in> set (user_keys user h)"
  shows "bt_get (hi_primary h) c \<noteq> None"
proof -
  obtain s where "((user, s), c) \<in> set (hi_by_user h)" using assms(2) by (auto simp: user_keys_def)
  then have "(s, c) \<in> (\<lambda>((_, s), k). (s, k)) ` set (hi_by_user h)" by force
  then have "(s, c) \<in> (\<lambda>(k, s, _). (s, k)) ` set (hi_primary h)" using assms(1) by (simp add: history_ok_def)
  then have "c \<in> set (bt_keys (hi_primary h))" by (force simp: bt_keys_def)
  then show ?thesis by (simp add: bt_get_None)
qed

text \<open>The index range below a key of the user holds exactly the user's older keys.\<close>

lemma range_before_key:
  assumes ok: "history_ok h" and get: "bt_get (hi_primary h) c = Some (s, v)" and c: "c \<in> set (user_keys user h)"
  shows "map snd (rev (bt_range (by_user_first_of user) (Excluded (user, s)) (hi_by_user h))) =
    tl (dropWhile (\<lambda>k. k \<noteq> c) (user_keys user h))"
proof -
  let ?F = "filter (\<lambda>((u, _), _). u = user) (hi_by_user h)"
  note idx = index_of_key [OF ok get]
  have "((user, s), c) \<in> set ?F" using c idx(1) by (auto simp: user_keys_def)
  then obtain l r where F: "?F = l @ ((user, s), c) # r" by (auto dest: split_list)
  have sorted: "sorted_wrt (\<lambda>x y. snd (fst x) < snd (fst y)) ?F"
    using ok by (intro sorted_user_seqs) (simp add: history_ok_def)
  have cr: "c \<notin> snd ` set r"
  proof
    assume "c \<in> snd ` set r"
    then obtain k where k: "(k, c) \<in> set r" by auto
    then have "(k, c) \<in> set ?F" using F by auto
    then have "k = (user, s)" using idx(1) by (cases k) auto
    then show False using k sorted unfolding F by (auto simp: sorted_wrt_append)
  qed
  have "filter (\<lambda>((_, s'), _). s' < s) ?F = l"
    using filter_less_prefix [of "\<lambda>x. snd (fst x)" l "((user, s), c)" r] sorted unfolding F
    by (simp add: split_def)
  moreover have "user_keys user h = map snd (rev r) @ c # map snd (rev l)" by (simp add: user_keys_def F rev_map)
  ultimately show ?thesis using cr by (auto simp: dropWhile_append range_user_excl)
qed

lemma page_by_user_spec:
  assumes ok: "history_ok h"
  shows "page_by_user user after_key len h = page_spec (user_keys user h) after_key len"
proof (cases after_key)
  case None
  then show ?thesis
    by (simp add: page_by_user_def page_spec_def range_user user_keys_def rev_map take_map)
next
  case (Some c)
  show ?thesis
  proof (cases "bt_get (hi_primary h) c")
    case None
    then have "c \<notin> set (user_keys user h)" using user_keys_known [OF ok] by blast
    then show ?thesis using Some None by (simp add: page_by_user_def page_spec_def)
  next
    case get: (Some p)
    obtain s v where p: "p = (s, v)" by (cases p)
    note get' = get [unfolded p]
    show ?thesis
      using Some get' index_of_key(2) [OF ok get'] range_before_key [OF ok get', of user]
      by (cases "c \<in> set (user_keys user h)") (simp_all add: page_by_user_def page_spec_def flip: take_map)
  qed
qed

lemma distinct_user_keys:
  assumes "history_ok h"
  shows "distinct (user_keys user h)"
proof -
  let ?F = "filter (\<lambda>((u, _), _). u = user) (hi_by_user h)"
  have U: "bt_ok (hi_by_user h)" "bt_ok (hi_primary h)" using assms by (simp_all add: history_ok_def)
  have "inj_on snd (set ?F)"
  proof (rule inj_onI)
    fix x y assume xy: "x \<in> set ?F" "y \<in> set ?F" "snd x = snd y"
    obtain u1 a c u2 b d where "x = ((u1, a), c)" "y = ((u2, b), d)" by (metis surj_pair)
    with xy have x: "x = ((user, a), c)" "y = ((user, b), c)" by auto
    then have "(a, c) \<in> (\<lambda>((_, s), k). (s, k)) ` set (hi_by_user h)" using xy by force
    then have "(a, c) \<in> (\<lambda>(k, s, _). (s, k)) ` set (hi_primary h)" using assms by (simp add: history_ok_def)
    then obtain v where "bt_get (hi_primary h) c = Some (a, v)" using U(2) by (auto simp: bt_ok_get_iff)
    then have "b = a" using index_of_key(1) [OF assms] xy x by auto
    then show "x = y" using x by simp
  qed
  moreover have "distinct ?F"
    using bt_ok_distinct [OF U(1)] by (simp add: bt_keys_def distinct_map)
  ultimately show ?thesis by (simp add: user_keys_def distinct_map)
qed

lemma page_spec_subset: "page_spec ks c n = Inr page \<Longrightarrow> set page \<subseteq> set ks"
  by (auto simp: page_spec_def dest!: in_set_takeD split: option.splits if_splits)
     (metis in_set_dropD list.set_sel(2) set_dropWhileD tl_Nil)

end
