(* ===== verification/Order_History.thy ===== *)
theory Order_History
  imports History
begin

text \<open>
  Order records (\<open>order/history/mod.rs\<close>) and trade records (\<open>order/trades/mod.rs\<close>), both on
  the store of \<open>History\<close>.
\<close>

section \<open>Order records\<close>

record order_record =
  or_owner :: principal
  or_side :: side
  or_price :: price
  or_quantity :: quantity
  or_status :: order_status
  or_created_at :: timestamp
  or_filled_quantity :: quantity
  or_last_updated_at :: "timestamp option"
  or_time_in_force :: time_in_force
  or_filled_quote :: quantity
  or_filled_fee :: quantity
  or_placed_by :: "principal option"
  or_canceled_by :: "principal option"

record order_update =
  ou_status :: "order_status option"
  ou_filled_delta :: quantity
  ou_quote_delta :: quantity
  ou_fee_delta :: quantity
  ou_canceled_by :: "principal option"

definition order_update_default :: order_update where
  "order_update_default = \<lparr>ou_status = None, ou_filled_delta = quantity_ZERO,
     ou_quote_delta = quantity_ZERO, ou_fee_delta = quantity_ZERO, ou_canceled_by = None\<rparr>"

definition update_status :: "order_status \<Rightarrow> order_update" where
  "update_status status = \<lparr>ou_status = Some status, ou_filled_delta = quantity_ZERO,
     ou_quote_delta = quantity_ZERO, ou_fee_delta = quantity_ZERO, ou_canceled_by = None\<rparr>"

definition update_cancel :: "principal option \<Rightarrow> order_update" where
  "update_cancel canceled_by = \<lparr>ou_status = Some Canceled, ou_filled_delta = quantity_ZERO,
     ou_quote_delta = quantity_ZERO, ou_fee_delta = quantity_ZERO, ou_canceled_by = canceled_by\<rparr>"

definition update_filled :: "quantity \<Rightarrow> order_update" where
  "update_filled delta = \<lparr>ou_status = None, ou_filled_delta = delta,
     ou_quote_delta = quantity_ZERO, ou_fee_delta = quantity_ZERO, ou_canceled_by = None\<rparr>"

text \<open>\<open>OrderUpdate::apply\<close>: the record after each of the four steps, and whether any of them
  changed it.\<close>

definition apply_status :: "order_update \<Rightarrow> order_record \<times> bool \<Rightarrow> order_record \<times> bool" where
  "apply_status upd st =
     (case (ou_status upd, st) of
        (Some new_status, (rec, changed)) \<Rightarrow>
          if new_status \<noteq> or_status rec
          then (if new_status = Canceled
                then rec\<lparr>or_status := new_status, or_canceled_by := ou_canceled_by upd\<rparr>
                else rec\<lparr>or_status := new_status\<rparr>, True)
          else st
      | (None, _) \<Rightarrow> st)"

definition apply_filled :: "order_update \<Rightarrow> order_record \<times> bool \<Rightarrow> (order_record \<times> bool) option" where
  "apply_filled upd st =
     (if ou_filled_delta upd \<noteq> quantity_ZERO
      then do {
        q \<leftarrow> quantity_add (or_filled_quantity (fst st)) (ou_filled_delta upd);
        ensure (q \<le> or_quantity (fst st));
        Some ((fst st)\<lparr>or_filled_quantity := q\<rparr>, True)
      }
      else Some st)"

definition apply_quote :: "order_update \<Rightarrow> order_record \<times> bool \<Rightarrow> (order_record \<times> bool) option" where
  "apply_quote upd st =
     (if ou_quote_delta upd \<noteq> quantity_ZERO
      then do {
        q \<leftarrow> quantity_add (or_filled_quote (fst st)) (ou_quote_delta upd);
        Some ((fst st)\<lparr>or_filled_quote := q\<rparr>, True)
      }
      else Some st)"

definition apply_fee :: "order_update \<Rightarrow> order_record \<times> bool \<Rightarrow> (order_record \<times> bool) option" where
  "apply_fee upd st =
     (if ou_fee_delta upd \<noteq> quantity_ZERO
      then do {
        q \<leftarrow> quantity_add (or_filled_fee (fst st)) (ou_fee_delta upd);
        Some ((fst st)\<lparr>or_filled_fee := q\<rparr>, True)
      }
      else Some st)"

definition update_apply :: "order_update \<Rightarrow> order_record \<Rightarrow> (order_record \<times> bool) option" where
  "update_apply upd rec = do {
     st \<leftarrow> apply_filled upd (apply_status upd (rec, False));
     st' \<leftarrow> apply_quote upd st;
     apply_fee upd st'
   }"

type_synonym order_history = "(order_id, order_record) history"

definition apply_update :: "order_id \<Rightarrow> order_update \<Rightarrow> timestamp \<Rightarrow> order_history \<Rightarrow> order_history option" where
  "apply_update i upd now h =
     modify i (\<lambda>rec. do {
       (rec', changed) \<leftarrow> update_apply upd rec;
       Some (if changed then rec'\<lparr>or_last_updated_at := Some now\<rparr> else rec', changed)
     }) h"

definition orders_after ::
  "user_id \<Rightarrow> order_id option \<Rightarrow> nat \<Rightarrow> order_history \<Rightarrow> cursor_not_found + order_id list" where
  "orders_after user after_id len h = page_by_user user after_id len h"

section \<open>Trade records\<close>

record trade_record =
  tr_side :: side
  tr_price :: price
  tr_quantity :: quantity
  tr_notional :: quantity
  tr_fee :: quantity
  tr_fee_token :: pair_token
  tr_is_maker :: bool
  tr_timestamp :: timestamp

type_synonym trade_leg = "trade_id \<times> trade_record"
type_synonym trade_history = "(trade_id, trade_record) history"

definition trades_append ::
  "trade_leg \<Rightarrow> user_id \<Rightarrow> trade_leg \<Rightarrow> user_id \<Rightarrow> trade_history \<Rightarrow> trade_history option" where
  "trades_append taker_leg taker_user maker_leg maker_user h = do {
     h1 \<leftarrow> insert_once taker_user (fst taker_leg) (snd taker_leg) h;
     insert_once maker_user (fst maker_leg) (snd maker_leg) h1
   }"

definition trades_for_order ::
  "order_id \<Rightarrow> trade_id option \<Rightarrow> nat \<Rightarrow> trade_history \<Rightarrow> cursor_not_found + (fill_seq \<times> trade_record) list" where
  "trades_for_order ord after_id len h =
     (let page = (\<lambda>upper. map (\<lambda>(i, trade). (snd i, trade)) (range_primary (trade_id_first_of ord) upper len h))
      in case after_id of
           None \<Rightarrow> Inr (page (Included (trade_id_last_of ord)))
         | Some i \<Rightarrow>
             if fst i \<noteq> ord \<or> \<not> history_contains_key h i then Inl CursorNotFound
             else Inr (page (Excluded i)))"

text \<open>Each key of a page is looked up in the primary map; a missing one traps.\<close>

fun lookup_all :: "trade_history \<Rightarrow> trade_id list \<Rightarrow> (trade_id \<times> trade_record) list option" where
  "lookup_all h [] = Some []"
| "lookup_all h (i # is) = do {
     trade \<leftarrow> history_get h i;
     rest \<leftarrow> lookup_all h is;
     Some ((i, trade) # rest)
   }"

definition trades_after ::
  "user_id \<Rightarrow> trade_id option \<Rightarrow> nat \<Rightarrow> trade_history \<Rightarrow>
   (cursor_not_found + (trade_id \<times> trade_record) list) option" where
  "trades_after user after_id len h =
     (case page_by_user user after_id len h of
        Inl e \<Rightarrow> Some (Inl e)
      | Inr ids \<Rightarrow> map_option Inr (lookup_all h ids))"

section \<open>Applying an update\<close>

text \<open>An update in one formula: what it does to every field.\<close>

lemma update_apply_eq:
  "update_apply upd rec =
     (if (ou_filled_delta upd = quantity_ZERO \<or>
            q2n (or_filled_quantity rec) + q2n (ou_filled_delta upd) \<le> q2n (or_quantity rec)) \<and>
         (ou_quote_delta upd = quantity_ZERO \<or> q2n (or_filled_quote rec) + q2n (ou_quote_delta upd) < 2 ^ 256) \<and>
         (ou_fee_delta upd = quantity_ZERO \<or> q2n (or_filled_fee rec) + q2n (ou_fee_delta upd) < 2 ^ 256)
      then Some (rec\<lparr>
             or_status := (case ou_status upd of None \<Rightarrow> or_status rec | Some s \<Rightarrow> s),
             or_canceled_by := (if ou_status upd = Some Canceled \<and> or_status rec \<noteq> Canceled
                                then ou_canceled_by upd else or_canceled_by rec),
             or_filled_quantity := n2q (q2n (or_filled_quantity rec) + q2n (ou_filled_delta upd)),
             or_filled_quote := n2q (q2n (or_filled_quote rec) + q2n (ou_quote_delta upd)),
             or_filled_fee := n2q (q2n (or_filled_fee rec) + q2n (ou_fee_delta upd))\<rparr>,
           (\<exists>s. ou_status upd = Some s \<and> s \<noteq> or_status rec) \<or> ou_filled_delta upd \<noteq> quantity_ZERO \<or>
           ou_quote_delta upd \<noteq> quantity_ZERO \<or> ou_fee_delta upd \<noteq> quantity_ZERO)
      else None)"
proof -
  have st: "apply_status upd (rec, False) =
     (rec\<lparr>or_status := (case ou_status upd of None \<Rightarrow> or_status rec | Some s \<Rightarrow> s),
          or_canceled_by := (if ou_status upd = Some Canceled \<and> or_status rec \<noteq> Canceled
                             then ou_canceled_by upd else or_canceled_by rec)\<rparr>,
      \<exists>s. ou_status upd = Some s \<and> s \<noteq> or_status rec)" (is "_ = (?r, ?c)")
    by (cases rec; cases "ou_status upd") (auto simp: apply_status_def)
  have q: "q2n (or_quantity rec) < 2 ^ 256" by (rule q2n_bound)
  have fl: "apply_filled upd (?r, ?c) =
     (if ou_filled_delta upd = quantity_ZERO \<or>
         q2n (or_filled_quantity rec) + q2n (ou_filled_delta upd) \<le> q2n (or_quantity rec)
      then Some (?r\<lparr>or_filled_quantity := n2q (q2n (or_filled_quantity rec) + q2n (ou_filled_delta upd))\<rparr>,
        ?c \<or> ou_filled_delta upd \<noteq> quantity_ZERO) else None)"
    using q by (cases rec) (auto simp: apply_filled_def quantity_add_eq q2n_le ensure_def)
  have qu: "apply_quote upd (r, c) =
     (if ou_quote_delta upd = quantity_ZERO \<or> q2n (or_filled_quote r) + q2n (ou_quote_delta upd) < 2 ^ 256
      then Some (r\<lparr>or_filled_quote := n2q (q2n (or_filled_quote r) + q2n (ou_quote_delta upd))\<rparr>,
        c \<or> ou_quote_delta upd \<noteq> quantity_ZERO) else None)" for r c
    by (cases r) (auto simp: apply_quote_def quantity_add_eq)
  have fe: "apply_fee upd (r, c) =
     (if ou_fee_delta upd = quantity_ZERO \<or> q2n (or_filled_fee r) + q2n (ou_fee_delta upd) < 2 ^ 256
      then Some (r\<lparr>or_filled_fee := n2q (q2n (or_filled_fee r) + q2n (ou_fee_delta upd))\<rparr>,
        c \<or> ou_fee_delta upd \<noteq> quantity_ZERO) else None)" for r c
    by (cases r) (auto simp: apply_fee_def quantity_add_eq)
  show ?thesis
    unfolding update_apply_def st fl by (simp add: qu fe disj_assoc) blast
qed

lemma update_apply_unchanged:
  assumes "update_apply upd rec = Some (rec', False)"
  shows "rec' = rec"
proof -
  have d: "ou_filled_delta upd = quantity_ZERO" "ou_quote_delta upd = quantity_ZERO" "ou_fee_delta upd = quantity_ZERO"
      "\<And>s. ou_status upd = Some s \<Longrightarrow> s = or_status rec"
    using assms unfolding update_apply_eq by (auto split: if_splits)
  have "rec' = rec\<lparr>
             or_status := (case ou_status upd of None \<Rightarrow> or_status rec | Some s \<Rightarrow> s),
             or_canceled_by := (if ou_status upd = Some Canceled \<and> or_status rec \<noteq> Canceled
                                then ou_canceled_by upd else or_canceled_by rec),
             or_filled_quantity := n2q (q2n (or_filled_quantity rec) + q2n (ou_filled_delta upd)),
             or_filled_quote := n2q (q2n (or_filled_quote rec) + q2n (ou_quote_delta upd)),
             or_filled_fee := n2q (q2n (or_filled_fee rec) + q2n (ou_fee_delta upd))\<rparr>"
    using assms unfolding update_apply_eq by (auto split: if_splits)
  then show ?thesis using d by (cases rec; cases "ou_status upd") auto
qed

section \<open>Trades of an order\<close>

definition order_trades :: "order_id \<Rightarrow> trade_history \<Rightarrow> (fill_seq \<times> trade_record) list" where
  "order_trades ord h = rev (map (\<lambda>((_, s), _, trade). (s, trade)) (filter (\<lambda>((i, _), _). i = ord) (hi_primary h)))"

lemma trades_range:
  "bt_range (trade_id_first_of ord) (Included (trade_id_last_of ord)) m = filter (\<lambda>((i, _), _). i = ord) m"
  unfolding bt_range_def
  by (rule filter_cong) (auto simp: trade_id_first_of_def trade_id_last_of_def below_def less_prod_def less_eq_prod_def)

lemma trades_range_excl:
  "bt_range (trade_id_first_of ord) (Excluded (ord, s)) m =
   filter (\<lambda>((_, s'), _). s' < s) (filter (\<lambda>((i, _), _). i = ord) m)"
  unfolding bt_range_def filter_filter
  by (rule filter_cong) (auto simp: trade_id_first_of_def below_def less_prod_def less_eq_prod_def)

lemma lookup_all_ok:
  assumes "\<forall>i \<in> set ids. \<exists>t. history_get h i = Some t"
  shows "\<exists>ts. lookup_all h ids = Some ts \<and> map fst ts = ids \<and> (\<forall>(i, t) \<in> set ts. history_get h i = Some t)"
  using assms
proof (induction ids)
  case (Cons i ids)
  then obtain t ts where "history_get h i = Some t" "lookup_all h ids = Some ts" "map fst ts = ids"
      "\<forall>(i, t) \<in> set ts. history_get h i = Some t" by auto
  then show ?case by auto
qed simp

lemma user_keys_present:
  assumes "history_ok h" "k \<in> set (user_keys u h)"
  shows "\<exists>v. history_get h k = Some v"
proof -
  obtain s where "((u, s), k) \<in> set (hi_by_user h)" using assms(2) by (auto simp: user_keys_def)
  then have "(s, k) \<in> (\<lambda>((_, s), k). (s, k)) ` set (hi_by_user h)" by force
  then have "(s, k) \<in> (\<lambda>(k, s, _). (s, k)) ` set (hi_primary h)" using assms(1) by (simp add: history_ok_def)
  then obtain v where "(k, s, v) \<in> set (hi_primary h)" by auto
  then have "bt_get (hi_primary h) k = Some (s, v)" using assms(1) by (simp add: history_ok_def bt_ok_get_iff)
  then show ?thesis by (simp add: history_get_def)
qed

section \<open>Pages of trades\<close>

lemma trades_for_order_first: "trades_for_order ord None len h = Inr (take len (order_trades ord h))"
  by (simp add: trades_for_order_def range_primary_def trades_range order_trades_def rev_map take_map split_def)

lemma order_trades_sorted:
  assumes "history_ok h"
  shows "sorted_wrt (\<lambda>x y. snd (fst x) < snd (fst y)) (filter (\<lambda>((i, _), _). i = ord) (hi_primary h))"
proof -
  let ?F = "filter (\<lambda>((i, _), _). i = ord) (hi_primary h)"
  have "sorted_wrt (\<lambda>x y. fst x < fst y) ?F"
    using assms by (simp add: history_ok_def bt_ok_def sorted_wrt_map sorted_wrt_filter)
  moreover have "\<forall>x \<in> set ?F. fst (fst x) = ord" by auto
  ultimately show ?thesis
    by (elim sorted_wrt_mono_rel [rotated]) (auto simp: less_prod_def)
qed

lemma trades_for_order_next:
  assumes "history_ok h"
  shows "trades_for_order ord (Some i) len h =
      (if fst i = ord \<and> history_get h i \<noteq> None
       then Inr (take len (tl (dropWhile (\<lambda>(s, _). s \<noteq> snd i) (order_trades ord h)))) else Inl CursorNotFound)"
proof (cases "fst i = ord \<and> history_get h i \<noteq> None")
  case False
  then show ?thesis by (auto simp: trades_for_order_def history_contains_key_def bt_contains_def history_get_def)
next
  case True
  let ?F = "filter (\<lambda>((i, _), _). i = ord) (hi_primary h)"
  note sorted = order_trades_sorted [OF assms, of ord]
  from True obtain s v where i: "i = (ord, snd i)" "bt_get (hi_primary h) i = Some (s, v)"
    by (cases i) (auto simp: history_get_def)
  then have "(i, s, v) \<in> set ?F" using bt_get_in_set [OF i(2)] by (cases i) auto
  then obtain l r where F: "?F = l @ (i, s, v) # r" by (auto dest: split_list)
  have "filter (\<lambda>((_, s'), _). s' < snd i) ?F = l"
    using filter_less_prefix [of "\<lambda>x. snd (fst x)" l "(i, s, v)" r] sorted unfolding F by (simp add: split_def)
  then have range: "bt_range (trade_id_first_of ord) (Excluded i) (hi_primary h) = l"
    using trades_range_excl [of ord "snd i" "hi_primary h"] by (simp add: i(1) [symmetric])
  let ?g = "\<lambda>((_, s), _, trade). (s, trade)"
  have ot: "order_trades ord h = map ?g (rev r) @ (snd i, v) # map ?g (rev l)"
    unfolding order_trades_def F by (subst i(1)) (simp add: rev_map split_def)
  have "\<forall>x \<in> set r. snd (fst x) \<noteq> snd i" using sorted unfolding F by (auto simp: sorted_wrt_append)
  then have "dropWhile (\<lambda>(s, _). s \<noteq> snd i) (map ?g (rev r) @ (snd i, v) # map ?g (rev l)) = (snd i, v) # map ?g (rev l)"
    by (subst dropWhile_append2) (auto simp: split_def)
  then show ?thesis
    using True range ot
    by (auto simp: trades_for_order_def history_contains_key_def bt_contains_def history_get_def range_primary_def take_map split_def)
qed

lemma trades_after_page:
  assumes "history_ok h"
  shows "\<exists>page. trades_after user after_id len h = Some page \<and>
       (case page_spec (user_keys user h) after_id len of
          Inl e \<Rightarrow> page = Inl e
        | Inr ids \<Rightarrow> \<exists>ts. page = Inr ts \<and> map fst ts = ids \<and> list_all (\<lambda>(i, t). history_get h i = Some t) ts)"
proof (cases "page_spec (user_keys user h) after_id len")
  case (Inl e)
  then show ?thesis by (simp add: trades_after_def page_by_user_spec [OF assms])
next
  case (Inr ids)
  then have "set ids \<subseteq> set (user_keys user h)" by (rule page_spec_subset)
  then have "\<forall>i \<in> set ids. \<exists>t. history_get h i = Some t" using user_keys_present [OF assms] by blast
  then show ?thesis
    using lookup_all_ok [of ids h] Inr by (auto simp: trades_after_def page_by_user_spec [OF assms] list_all_iff)
qed

text \<open>Every row of a page is a stored trade of the order.\<close>

lemma trades_for_order_lookup:
  assumes "history_ok h" "trades_for_order ord after_id len h = Inr ts" "(q, t) \<in> set ts"
  shows "history_get h (ord, q) = Some t"
proof -
  have "(q, t) \<in> set (order_trades ord h)"
  proof (cases after_id)
    case None
    then show ?thesis using assms(2,3) by (auto simp: trades_for_order_first dest: in_set_takeD)
  next
    case (Some i)
    then have "(q, t) \<in> set (tl (dropWhile (\<lambda>(s, _). s \<noteq> snd i) (order_trades ord h)))"
      using assms(2,3) by (auto simp: trades_for_order_next [OF assms(1)] dest: in_set_takeD split: if_splits)
    then have "(q, t) \<in> set (dropWhile (\<lambda>(s, _). s \<noteq> snd i) (order_trades ord h))"
      by (metis list.sel(2) list.set_sel(2))
    then show ?thesis by (rule set_dropWhileD)
  qed
  then obtain s where "((ord, q), s, t) \<in> set (hi_primary h)" by (auto simp: order_trades_def)
  then have "bt_get (hi_primary h) (ord, q) = Some (s, t)" using assms(1) by (simp add: history_ok_def bt_ok_get_iff)
  then show ?thesis by (simp add: history_get_def)
qed

end
