(* ===== verification/History_Properties.thy ===== *)
theory History_Properties
  imports Order_History
begin

text \<open>Properties of the order and trade histories.\<close>

definition ex_record :: order_record where
  "ex_record = \<lparr>or_owner = 1, or_side = Buy, or_price = 100, or_quantity = Quantity 0 50, or_status = Pending,
     or_created_at = 7, or_filled_quantity = Quantity 0 10, or_last_updated_at = None,
     or_time_in_force = GoodTilCanceled, or_filled_quote = Quantity 0 3, or_filled_fee = quantity_ZERO,
     or_placed_by = None, or_canceled_by = None\<rparr>"

definition ex_orders :: order_history where
  "ex_orders = \<lparr>hi_primary = [((0, 0), 0, ex_record), ((0, 1), 1, ex_record), ((1, 0), 2, ex_record)],
     hi_by_user = [((3, 0), (0, 0)), ((3, 2), (1, 0)), ((4, 1), (0, 1))]\<rparr>"

lemma ex_orders_ok: "history_ok ex_orders"
  by (auto simp: history_ok_def ex_orders_def bt_ok_def)

lemma ex_orders_keys: "user_keys 3 ex_orders = [(1, 0), (0, 0)]"
  by (simp add: user_keys_def ex_orders_def)

text \<open>A record is inserted once: a new key is stored under its user as that user's newest
  record, the records and lists of everyone else are unchanged, and the two maps stay in step.\<close>

lemma insert_once_correct:
  assumes "history_ok h" "history_get h key = None" "length (hi_primary h) < 2 ^ 64 - 1"
  shows "\<exists>h'. insert_once user key rec h = Some h' \<and> history_ok h' \<and>
    history_get h' = (history_get h)(key \<mapsto> rec) \<and>
    user_keys u h' = (if u = user then key # user_keys u h else user_keys u h)"
proof -
  have "bt_get (hi_primary h) key = None" using assms(2) by (simp add: history_get_def)
  from insert_once_ok [OF assms(1) this assms(3), of user rec u] show ?thesis by blast
qed

lemma insert_once_correct_witness:
  "\<exists>h'. insert_once 3 (0, 2) ex_record ex_orders = Some h' \<and> history_ok h' \<and>
    user_keys 3 h' = [(0, 2), (1, 0), (0, 0)]"
proof -
  have "history_get ex_orders (0, 2) = None" "length (hi_primary ex_orders) < 2 ^ 64 - 1"
    by (simp_all add: history_get_def ex_orders_def)
  from insert_once_correct [OF ex_orders_ok this, of 3 ex_record 3] ex_orders_keys show ?thesis by auto
qed

text \<open>C31. Pages: reading a user's orders with the last key of a page as the next cursor walks the
  user's list, newest first, without gaps or repetitions: a page without a cursor is a prefix of
  the list, the page after the \<open>m\<close>-th key is the segment behind it, and a cursor that is not one
  of the user's own records is refused.\<close>

theorem pages_walk_the_list:
  assumes "history_ok h"
  shows "distinct (user_keys user h) \<and>
    orders_after user None len h = Inr (take len (user_keys user h)) \<and>
    orders_after user (Some c) len h =
      (if c \<in> set (user_keys user h)
       then Inr (take len (tl (dropWhile (\<lambda>k. k \<noteq> c) (user_keys user h)))) else Inl CursorNotFound) \<and>
    (m < length (user_keys user h) \<longrightarrow>
      orders_after user (Some (user_keys user h ! m)) len h = Inr (take len (drop (Suc m) (user_keys user h))))"
proof -
  let ?ks = "user_keys user h"
  have d: "distinct ?ks" by (rule distinct_user_keys [OF assms])
  have "tl (dropWhile (\<lambda>k. k \<noteq> ?ks ! m) ?ks) = drop (Suc m) ?ks" if "m < length ?ks"
  proof -
    have "?ks = take m ?ks @ ?ks ! m # drop (Suc m) ?ks" using that by (simp add: id_take_nth_drop)
    then obtain l k r where e: "?ks = l @ k # r" "k = ?ks ! m" "r = drop (Suc m) ?ks" by blast
    have "distinct (l @ k # r)" using d by (simp only: e(1) [symmetric])
    then have "\<forall>x \<in> set l. x \<noteq> k" by auto
    then have "dropWhile (\<lambda>x. x \<noteq> k) ?ks = k # r" by (simp add: e(1) dropWhile_append2)
    then show ?thesis by (simp add: e(2,3) [symmetric])
  qed
  then show ?thesis using d by (simp add: orders_after_def page_by_user_spec [OF assms] page_spec_def)
qed

theorem pages_walk_the_list_witness:
  "orders_after 3 None 1 ex_orders = Inr [(1, 0)] \<and> orders_after 3 (Some (1, 0)) 5 ex_orders = Inr [(0, 0)] \<and>
   orders_after 3 (Some (0, 1)) 5 ex_orders = Inl CursorNotFound"
proof -
  show ?thesis
    using ex_orders_keys pages_walk_the_list [OF ex_orders_ok, of 3 1 "(0, 1)" 0] pages_walk_the_list [OF ex_orders_ok, of 3 5 "(0, 1)" 0]
      pages_walk_the_list [OF ex_orders_ok, of 3 5 "(1, 0)" 0]
    by simp
qed

text \<open>An order record never overfills: an update either traps or adds its deltas exactly,
  with the filled quantity at most the order's quantity; a no-op update leaves the record and its
  time stamp as they were, and any other stamps it with the given time.\<close>

lemma apply_update_correct:
  assumes "history_ok h" "history_get h i = Some rec" "q2n (or_filled_quantity rec) \<le> q2n (or_quantity rec)"
    "apply_update i upd now h = Some h'"
  shows "\<exists>rec'. history_get h' = (history_get h)(i \<mapsto> rec') \<and>
    q2n (or_filled_quantity rec') = q2n (or_filled_quantity rec) + q2n (ou_filled_delta upd) \<and>
    q2n (or_filled_quote rec') = q2n (or_filled_quote rec) + q2n (ou_quote_delta upd) \<and>
    q2n (or_filled_fee rec') = q2n (or_filled_fee rec) + q2n (ou_fee_delta upd) \<and>
    or_status rec' = (case ou_status upd of None \<Rightarrow> or_status rec | Some s \<Rightarrow> s) \<and>
    or_owner rec' = or_owner rec \<and> or_quantity rec' = or_quantity rec \<and>
    q2n (or_filled_quantity rec') \<le> q2n (or_quantity rec') \<and>
    (rec' = rec \<or> or_last_updated_at rec' = Some now) \<and> history_ok h'"
proof -
  obtain s where g: "bt_get (hi_primary h) i = Some (s, rec)" using assms(2) by (auto simp: history_get_def)
  obtain r changed where u: "update_apply upd rec = Some (r, changed)"
    using assms(4) g by (auto simp: apply_update_def modify_def trap_simps)
  let ?r = "if changed then r\<lparr>or_last_updated_at := Some now\<rparr> else r"
  have nc: "\<not> changed \<Longrightarrow> ?r = rec" using u update_apply_unchanged by simp
  have "\<exists>h''. apply_update i upd now h = Some h'' \<and> history_ok h'' \<and> history_get h'' = (history_get h)(i \<mapsto> ?r)"
    using modify_ok [OF assms(1) g, of "\<lambda>rec. do {
       (rec', changed) \<leftarrow> update_apply upd rec;
       Some (if changed then rec'\<lparr>or_last_updated_at := Some now\<rparr> else rec', changed) }" ?r changed 0] u nc
    unfolding apply_update_def by auto
  then have h': "history_ok h'" "history_get h' = (history_get h)(i \<mapsto> ?r)" using assms(4) by auto
  have b: "q2n (or_filled_quantity rec) + q2n (ou_filled_delta upd) \<le> q2n (or_quantity rec)"
      "q2n (or_filled_quote rec) + q2n (ou_quote_delta upd) < 2 ^ 256"
      "q2n (or_filled_fee rec) + q2n (ou_fee_delta upd) < 2 ^ 256"
    using u assms(3) q2n_bound [of "or_filled_quote rec"] q2n_bound [of "or_filled_fee rec"]
    unfolding update_apply_eq by (auto split: if_splits)
  have r: "q2n (or_filled_quantity r) = q2n (or_filled_quantity rec) + q2n (ou_filled_delta upd)"
      "q2n (or_filled_quote r) = q2n (or_filled_quote rec) + q2n (ou_quote_delta upd)"
      "q2n (or_filled_fee r) = q2n (or_filled_fee rec) + q2n (ou_fee_delta upd)"
      "or_status r = (case ou_status upd of None \<Rightarrow> or_status rec | Some s \<Rightarrow> s)"
      "or_owner r = or_owner rec" "or_quantity r = or_quantity rec"
    using u b q2n_bound [of "or_quantity rec"] unfolding update_apply_eq by (auto split: if_splits)
  show ?thesis
    using h' r b(1) nc by (intro exI [of _ ?r]) auto
qed

lemma apply_update_correct_witness:
  "\<exists>h'. apply_update (0, 0) (update_filled (Quantity 0 40)) 9 ex_orders = Some h' \<and> history_ok h'"
proof -
  have g: "history_get ex_orders (0, 0) = Some ex_record" by (simp add: history_get_def ex_orders_def)
  have le: "q2n (or_filled_quantity ex_record) \<le> q2n (or_quantity ex_record)" by (simp add: ex_record_def q2n_def)
  have "\<exists>h'. apply_update (0, 0) (update_filled (Quantity 0 40)) 9 ex_orders = Some h'"
    unfolding apply_update_def modify_def update_apply_eq
    by (simp add: ex_orders_def ex_record_def update_filled_def q2n_def quantity_ZERO_def)
  then show ?thesis using apply_update_correct [OF ex_orders_ok g le] by blast
qed

text \<open>Trades: the trades of an order are read off the prefix of the primary map, newest
  first, and an account-wide page resolves every key, so neither reader can trap or mix in the
  counterparty's leg.\<close>

lemma trade_pages_correct:
  assumes "history_ok h"
  shows "trades_for_order ord None len h = Inr (take len (order_trades ord h)) \<and>
    trades_for_order ord (Some i) len h =
      (if fst i = ord \<and> history_get h i \<noteq> None
       then Inr (take len (tl (dropWhile (\<lambda>(s, _). s \<noteq> snd i) (order_trades ord h)))) else Inl CursorNotFound) \<and>
    (\<exists>page. trades_after user after_id len h = Some page \<and>
       (case page_spec (user_keys user h) after_id len of
          Inl e \<Rightarrow> page = Inl e
        | Inr ids \<Rightarrow> \<exists>ts. page = Inr ts \<and> map fst ts = ids \<and> list_all (\<lambda>(i, t). history_get h i = Some t) ts))"
  using trades_for_order_first trades_for_order_next [OF assms] trades_after_page [OF assms] by simp

definition ex_leg :: trade_record where
  "ex_leg = \<lparr>tr_side = Buy, tr_price = 100, tr_quantity = Quantity 0 5, tr_notional = Quantity 0 3,
     tr_fee = quantity_ZERO, tr_fee_token = Base, tr_is_maker = True, tr_timestamp = 9\<rparr>"

definition ex_trades :: trade_history where
  "ex_trades = \<lparr>hi_primary = [(((0, 0), 0), 0, ex_leg), (((0, 0), 1), 2, ex_leg), (((0, 1), 0), 1, ex_leg)],
     hi_by_user = [((3, 0), ((0, 0), 0)), ((3, 2), ((0, 0), 1)), ((4, 1), ((0, 1), 0))]\<rparr>"

lemma ex_trades_ok: "history_ok ex_trades"
  by (auto simp: history_ok_def ex_trades_def bt_ok_def)

lemma trade_pages_correct_witness:
  "trades_for_order (0, 0) None 9 ex_trades = Inr [(1, ex_leg), (0, ex_leg)] \<and>
   trades_for_order (0, 0) (Some ((0, 0), 1)) 9 ex_trades = Inr [(0, ex_leg)] \<and>
   trades_for_order (0, 0) (Some ((0, 1), 0)) 9 ex_trades = Inl CursorNotFound"
proof -
  have "order_trades (0, 0) ex_trades = [(1, ex_leg), (0, ex_leg)]"
    by (simp add: order_trades_def ex_trades_def)
  moreover have "history_get ex_trades ((0, 0), 1) \<noteq> None"
    by (simp add: history_get_def ex_trades_def)
  ultimately show ?thesis
    using trade_pages_correct [OF ex_trades_ok, of "(0, 0)" 9 "((0, 0), 1)"]
      trade_pages_correct [OF ex_trades_ok, of "(0, 0)" 9 "((0, 1), 0)"]
    by simp
qed

end
