(* ===== verification/Settlement.thy ===== *)
theory Settlement
  imports Order_History
begin

text \<open>
  Settlement of a matching round (\<open>settlement/mod.rs\<close>, with the balance operations of
  \<open>state/event/mod.rs\<close>): the notional and the fees of a fill, its two or three balance
  operations, the per-order updates, and the cutting of the round into bounded batches that
  never split a fill from its operations.
\<close>

datatype balance_operation =
    Transfer (from_order: order_seq) (to_order: order_seq) (op_token: pair_token) (op_amount: quantity)
      (op_fee: "quantity option")
  | Unreserve (op_order: order_seq) (op_token: pair_token) (op_amount: quantity)

text \<open>\<open>checked_mul_quantity_scaled(..).expect(..)\<close>: the product, or a trap.\<close>

definition expect_notional :: "price \<Rightarrow> quantity \<Rightarrow> u64 \<Rightarrow> quantity option" where
  "expect_notional p q base_scale = Option.bind (checked_mul_quantity_scaled p q base_scale) id"

definition fees ::
  "price \<Rightarrow> quantity \<Rightarrow> side \<Rightarrow> fee_rates \<Rightarrow> u64 \<Rightarrow> (quantity \<times> quantity \<times> quantity) option" where
  "fees maker_price q taker_side rates base_scale =
     (let (buyer_rate, seller_rate) =
            (case taker_side of Buy \<Rightarrow> (taker rates, maker rates) | Sell \<Rightarrow> (maker rates, taker rates))
      in do {
        notional \<leftarrow> expect_notional maker_price q base_scale;
        quote_fee \<leftarrow> mul_ceil seller_rate notional;
        base_fee \<leftarrow> mul_ceil buyer_rate q;
        let (taker_fee, maker_fee) =
          (case taker_side of Buy \<Rightarrow> (base_fee, quote_fee) | Sell \<Rightarrow> (quote_fee, base_fee));
        Some (notional, taker_fee, maker_fee)
      })"

definition fee_token :: "side \<Rightarrow> pair_token" where
  "fee_token s = (case s of Buy \<Rightarrow> Base | Sell \<Rightarrow> Quote)"

definition nonzero :: "quantity \<Rightarrow> quantity option" where
  "nonzero q = (if is_zero q then None else Some q)"

section \<open>One fill\<close>

record fill_event =
  fe_seq :: fill_seq
  fe_taker :: order_seq
  fe_maker :: order_seq
  fe_quantity :: quantity
  fe_rates :: fee_rates

record fill_settlement =
  fs_fill :: fill
  fs_notional :: quantity
  fs_taker_fee :: quantity
  fs_maker_fee :: quantity
  fs_surplus :: quantity
  fs_fee_rates :: fee_rates

definition fill_settlement_new :: "fill \<Rightarrow> fee_rates \<Rightarrow> u64 \<Rightarrow> fill_settlement option" where
  "fill_settlement_new f rates base_scale = do {
     (notional, taker_fee, maker_fee) \<leftarrow>
       fees (fl_maker_price f) (fl_quantity f) (fl_taker_side f) rates base_scale;
     surplus \<leftarrow>
       (case (fl_taker_side f, price_checked_sub (fl_taker_price f) (fl_maker_price f)) of
          (Buy, Some diff) \<Rightarrow>
            if diff \<noteq> 0 then expect_notional diff (fl_quantity f) base_scale else Some quantity_ZERO
        | _ \<Rightarrow> Some quantity_ZERO);
     Some \<lparr>fs_fill = f, fs_notional = notional, fs_taker_fee = taker_fee, fs_maker_fee = maker_fee,
           fs_surplus = surplus, fs_fee_rates = rates\<rparr>
   }"

definition fill_balance_operations :: "fill_settlement \<Rightarrow> balance_operation list" where
  "fill_balance_operations s =
     (let f = fs_fill s;
          (buyer_seq, seller_seq) =
            (case fl_taker_side f of Buy \<Rightarrow> (fl_taker f, fl_maker f) | Sell \<Rightarrow> (fl_maker f, fl_taker f));
          (quote_fee, base_fee) =
            (case fl_taker_side f of Buy \<Rightarrow> (fs_maker_fee s, fs_taker_fee s)
               | Sell \<Rightarrow> (fs_taker_fee s, fs_maker_fee s))
      in [Transfer buyer_seq seller_seq Quote (fs_notional s) (nonzero quote_fee)] @
         (if \<not> is_zero (fs_surplus s) then [Unreserve (fl_taker f) Quote (fs_surplus s)] else []) @
         [Transfer seller_seq buyer_seq Base (fl_quantity f) (nonzero base_fee)])"

type_synonym order_updates = "(order_seq, order_update) btree_map"

definition update_of :: "order_updates \<Rightarrow> order_seq \<Rightarrow> order_update" where
  "update_of updates i = (case bt_get updates i of None \<Rightarrow> order_update_default | Some u \<Rightarrow> u)"

definition accrue_order :: "quantity \<Rightarrow> quantity \<Rightarrow> order_seq \<Rightarrow> quantity \<Rightarrow> order_updates \<Rightarrow> order_updates option" where
  "accrue_order q notional i fee updates = do {
     let u = update_of updates i;
     filled \<leftarrow> quantity_add (ou_filled_delta u) q;
     quote \<leftarrow> quantity_add (ou_quote_delta u) notional;
     fee' \<leftarrow> quantity_add (ou_fee_delta u) fee;
     Some (bt_insert i (u\<lparr>ou_filled_delta := filled, ou_quote_delta := quote, ou_fee_delta := fee'\<rparr>) updates)
   }"

definition accrue_fill :: "fill_settlement \<Rightarrow> order_updates \<Rightarrow> order_updates option" where
  "accrue_fill s updates = do {
     let f = fs_fill s;
     updates1 \<leftarrow> accrue_order (fl_quantity f) (fs_notional s) (fl_maker f) (fs_maker_fee s) updates;
     accrue_order (fl_quantity f) (fs_notional s) (fl_taker f) (fs_taker_fee s) updates1
   }"

definition fill_event_of :: "fill_settlement \<Rightarrow> fill_event" where
  "fill_event_of s = \<lparr>fe_seq = fl_seq (fs_fill s), fe_taker = fl_taker (fs_fill s),
     fe_maker = fl_maker (fs_fill s), fe_quantity = fl_quantity (fs_fill s), fe_rates = fs_fee_rates s\<rparr>"

definition trade_legs ::
  "fill_event \<Rightarrow> order_book_id \<Rightarrow> side \<Rightarrow> price \<Rightarrow> u64 \<Rightarrow> timestamp \<Rightarrow> (trade_leg \<times> trade_leg) option" where
  "trade_legs fe book taker_side maker_price base_scale now = do {
     (notional, taker_fee, maker_fee) \<leftarrow>
       fees maker_price (fe_quantity fe) taker_side (fe_rates fe) base_scale;
     let maker_side = (case taker_side of Buy \<Rightarrow> Sell | Sell \<Rightarrow> Buy);
     let taker_leg = ((((book, fe_taker fe), fe_seq fe) :: trade_id),
       \<lparr>tr_side = taker_side, tr_price = maker_price, tr_quantity = fe_quantity fe, tr_notional = notional,
        tr_fee = taker_fee, tr_fee_token = fee_token taker_side, tr_is_maker = False, tr_timestamp = now\<rparr>);
     let maker_leg = (((book, fe_maker fe), fe_seq fe),
       \<lparr>tr_side = maker_side, tr_price = maker_price, tr_quantity = fe_quantity fe, tr_notional = notional,
        tr_fee = maker_fee, tr_fee_token = fee_token maker_side, tr_is_maker = True, tr_timestamp = now\<rparr>);
     Some (taker_leg, maker_leg)
   }"

section \<open>A removed order\<close>

record removed_order_settlement =
  rs_order :: order_seq
  rs_token :: pair_token
  rs_amount :: quantity

definition removed_settlement_new :: "order_seq \<Rightarrow> removed_order \<Rightarrow> u64 \<Rightarrow> removed_order_settlement option" where
  "removed_settlement_new i removed base_scale = do {
     (token, amount) \<leftarrow>
       (case rm_side removed of
          Buy \<Rightarrow> do {
            a \<leftarrow> expect_notional (rm_price removed) (rm_remaining removed) base_scale;
            Some (Quote, a)
          }
        | Sell \<Rightarrow> Some (Base, rm_remaining removed));
     Some \<lparr>rs_order = i, rs_token = token, rs_amount = amount\<rparr>
   }"

definition removed_balance_operations :: "removed_order_settlement \<Rightarrow> balance_operation list" where
  "removed_balance_operations s = [Unreserve (rs_order s) (rs_token s) (rs_amount s)]"

section \<open>Units and batches\<close>

record settlement_unit =
  su_operations :: "balance_operation list"
  su_fill :: "fill_event option"

record settlement_batch =
  sb_operations :: "balance_operation list"
  sb_fills :: "fill_event list"

definition batch_default :: settlement_batch where
  "batch_default = \<lparr>sb_operations = [], sb_fills = []\<rparr>"

definition add_unit :: "settlement_unit \<Rightarrow> settlement_batch \<Rightarrow> settlement_batch" where
  "add_unit u b = b\<lparr>sb_operations := sb_operations b @ su_operations u,
     sb_fills := sb_fills b @ (case su_fill u of None \<Rightarrow> [] | Some f \<Rightarrow> [f])\<rparr>"

definition batch_is_empty :: "settlement_batch \<Rightarrow> bool" where
  "batch_is_empty b \<longleftrightarrow> sb_operations b = [] \<and> sb_fills b = []"

fun pack_loop ::
  "nat \<Rightarrow> settlement_unit list \<Rightarrow> settlement_batch list \<Rightarrow> settlement_batch \<Rightarrow> nat \<Rightarrow> settlement_batch list" where
  "pack_loop cap [] batches current n =
     (if \<not> batch_is_empty current then batches @ [current] else batches)"
| "pack_loop cap (u # units) batches current n =
     (if n = cap then pack_loop cap units (batches @ [current]) (add_unit u batch_default) 1
      else pack_loop cap units batches (add_unit u current) (n + 1))"

definition pack_settlement_units :: "settlement_unit list \<Rightarrow> u32 \<Rightarrow> settlement_batch list" where
  "pack_settlement_units units max_units = pack_loop (unat max_units) units [] batch_default 0"

section \<open>The whole round\<close>

record match_settlement =
  ms_updates :: order_updates
  ms_batches :: "settlement_batch list"

fun settle_fills ::
  "fee_rates \<Rightarrow> u64 \<Rightarrow> fill list \<Rightarrow> order_updates \<Rightarrow> (order_updates \<times> settlement_unit list) option" where
  "settle_fills rates base_scale [] updates = Some (updates, [])"
| "settle_fills rates base_scale (f # fs) updates = do {
     s \<leftarrow> fill_settlement_new f rates base_scale;
     let ops = fill_balance_operations s;
     updates1 \<leftarrow> accrue_fill s updates;
     (updates2, units) \<leftarrow> settle_fills rates base_scale fs updates1;
     Some (updates2, \<lparr>su_operations = ops, su_fill = Some (fill_event_of s)\<rparr> # units)
   }"

fun settle_expired :: "u64 \<Rightarrow> (order_seq \<times> removed_order) list \<Rightarrow> settlement_unit list option" where
  "settle_expired base_scale [] = Some []"
| "settle_expired base_scale ((i, removed) # rest) = do {
     s \<leftarrow> removed_settlement_new i removed base_scale;
     units \<leftarrow> settle_expired base_scale rest;
     Some (\<lparr>su_operations = removed_balance_operations s, su_fill = None\<rparr> # units)
   }"

definition overlay_status :: "order_status \<Rightarrow> order_seq \<Rightarrow> order_updates \<Rightarrow> order_updates" where
  "overlay_status status i updates = bt_insert i ((update_of updates i)\<lparr>ou_status := Some status\<rparr>) updates"

definition from_matching ::
  "matching_output \<Rightarrow> fee_rates \<Rightarrow> u64 \<Rightarrow> u32 \<Rightarrow> match_settlement option" where
  "from_matching out rates base_scale max_units = do {
     (updates, fill_units) \<leftarrow> settle_fills rates base_scale (mo_fills out) [];
     expired_units \<leftarrow> settle_expired base_scale (mo_expired out);
     let batches = pack_settlement_units (fill_units @ expired_units) max_units;
     let updates = fold (overlay_status Open) (sorted_list_of_set (mo_resting out)) updates;
     let updates = fold (overlay_status Filled) (sorted_list_of_set (mo_filled out)) updates;
     let updates = fold (overlay_status Expired) (bt_keys (mo_expired out)) updates;
     Some \<lparr>ms_updates = updates, ms_batches = batches\<rparr>
   }"

section \<open>Exact amounts of a fill\<close>

text \<open>The quote value of a quantity at a price. Prices on the tick and quantities on the lot make
  it exact; \<open>value_ok\<close> says so and that the 256-bit product fits.\<close>

definition quote_value :: "u64 \<Rightarrow> price \<Rightarrow> quantity \<Rightarrow> nat" where
  "quote_value base_scale p q = unat p * q2n q div unat base_scale"

definition value_ok :: "u64 \<Rightarrow> price \<Rightarrow> quantity \<Rightarrow> bool" where
  "value_ok base_scale p q \<longleftrightarrow>
     base_scale \<noteq> 0 \<and> unat base_scale dvd unat p * q2n q \<and> unat p * q2n q < 2 ^ 256"

lemma expect_notional_eq:
  "value_ok base_scale p q \<Longrightarrow> expect_notional p q base_scale = Some (n2q (quote_value base_scale p q))"
  by (simp add: value_ok_def expect_notional_def checked_mul_quantity_scaled_eq quote_value_def)

lemma quote_value_le: "quote_value base_scale p q \<le> unat p * q2n q"
  by (simp add: quote_value_def)

lemma quote_value_lt: "value_ok base_scale p q \<Longrightarrow> quote_value base_scale p q < 2 ^ 256"
  using quote_value_le [of base_scale p q] by (simp add: value_ok_def)

lemma q2n_quote_value [simp]:
  "value_ok base_scale p q \<Longrightarrow> q2n (n2q (quote_value base_scale p q)) = quote_value base_scale p q"
  using quote_value_lt [of base_scale p q] by simp

text \<open>The price a buyer reserved at: its own limit.\<close>

definition buyer_price :: "fill \<Rightarrow> price" where
  "buyer_price f = (case fl_taker_side f of Buy \<Rightarrow> fl_taker_price f | Sell \<Rightarrow> fl_maker_price f)"

definition buyer :: "fill \<Rightarrow> order_seq" where
  "buyer f = (case fl_taker_side f of Buy \<Rightarrow> fl_taker f | Sell \<Rightarrow> fl_maker f)"

definition seller :: "fill \<Rightarrow> order_seq" where
  "seller f = (case fl_taker_side f of Buy \<Rightarrow> fl_maker f | Sell \<Rightarrow> fl_taker f)"

definition fill_ok :: "u64 \<Rightarrow> fill \<Rightarrow> bool" where
  "fill_ok base_scale f \<longleftrightarrow> value_ok base_scale (fl_maker_price f) (fl_quantity f) \<and>
     value_ok base_scale (buyer_price f) (fl_quantity f) \<and> fl_maker_price f \<le> buyer_price f"

text \<open>Fees as numbers, by role.\<close>

definition quote_fee_of :: "fee_rates \<Rightarrow> u64 \<Rightarrow> fill \<Rightarrow> nat" where
  "quote_fee_of rates base_scale f =
     ceil_share (unat (case fl_taker_side f of Buy \<Rightarrow> maker rates | Sell \<Rightarrow> taker rates))
       (quote_value base_scale (fl_maker_price f) (fl_quantity f))"

definition base_fee_of :: "fee_rates \<Rightarrow> fill \<Rightarrow> nat" where
  "base_fee_of rates f =
     ceil_share (unat (case fl_taker_side f of Buy \<Rightarrow> taker rates | Sell \<Rightarrow> maker rates)) (q2n (fl_quantity f))"

definition taker_fee_of :: "fee_rates \<Rightarrow> u64 \<Rightarrow> fill \<Rightarrow> nat" where
  "taker_fee_of rates base_scale f =
     (case fl_taker_side f of Buy \<Rightarrow> base_fee_of rates f | Sell \<Rightarrow> quote_fee_of rates base_scale f)"

definition maker_fee_of :: "fee_rates \<Rightarrow> u64 \<Rightarrow> fill \<Rightarrow> nat" where
  "maker_fee_of rates base_scale f =
     (case fl_taker_side f of Buy \<Rightarrow> quote_fee_of rates base_scale f | Sell \<Rightarrow> base_fee_of rates f)"

definition surplus_of :: "u64 \<Rightarrow> fill \<Rightarrow> nat" where
  "surplus_of base_scale f = quote_value base_scale (buyer_price f) (fl_quantity f) -
     quote_value base_scale (fl_maker_price f) (fl_quantity f)"

lemma fee_bounds:
  assumes "fee_rates_ok rates"
  shows "quote_fee_of rates base_scale f \<le> quote_value base_scale (fl_maker_price f) (fl_quantity f)"
    "base_fee_of rates f \<le> q2n (fl_quantity f)"
  using assms by (auto simp: fee_rates_ok_def rate_ok_iff quote_fee_of_def base_fee_of_def
      intro!: ceil_share_le split: side.split)

lemma fees_eq:
  assumes "fee_rates_ok rates" "value_ok base_scale (fl_maker_price f) (fl_quantity f)"
  shows "fees (fl_maker_price f) (fl_quantity f) (fl_taker_side f) rates base_scale =
    Some (n2q (quote_value base_scale (fl_maker_price f) (fl_quantity f)),
      n2q (taker_fee_of rates base_scale f), n2q (maker_fee_of rates base_scale f))"
  using assms
  by (cases "fl_taker_side f")
     (simp_all add: fees_def expect_notional_eq fee_rates_ok_def mul_ceil_eq taker_fee_of_def maker_fee_of_def
       quote_fee_of_def base_fee_of_def)

text \<open>A surplus is the value of the price improvement.\<close>

lemma surplus_value:
  assumes "fill_ok base_scale f"
  shows "value_ok base_scale (buyer_price f - fl_maker_price f) (fl_quantity f)"
    "quote_value base_scale (buyer_price f - fl_maker_price f) (fl_quantity f) = surplus_of base_scale f"
    "quote_value base_scale (fl_maker_price f) (fl_quantity f) + surplus_of base_scale f =
       quote_value base_scale (buyer_price f) (fl_quantity f)"
proof -
  let ?d = "buyer_price f - fl_maker_price f" and ?q = "q2n (fl_quantity f)" and ?s = "unat base_scale"
  have le: "unat (fl_maker_price f) \<le> unat (buyer_price f)"
    using assms by (simp add: fill_ok_def word_le_nat_alt)
  have d: "unat ?d = unat (buyer_price f) - unat (fl_maker_price f)"
    using le by (simp add: unat_sub word_le_nat_alt)
  obtain m b where m: "unat (fl_maker_price f) * ?q = ?s * m" and b: "unat (buyer_price f) * ?q = ?s * b"
    and s: "0 < ?s" and lt: "unat (buyer_price f) * ?q < 2 ^ 256"
    using assms unfolding fill_ok_def value_ok_def dvd_def by (auto simp: unat_gt_0)
  have db: "unat ?d * ?q = ?s * (b - m)" unfolding d by (simp add: diff_mult_distrib diff_mult_distrib2 m b)
  have "?s * m \<le> ?s * b" unfolding m [symmetric] b [symmetric] using le by simp
  then have mb: "m \<le> b" using s by simp
  have "?s * (b - m) \<le> ?s * b" by simp
  then have "unat ?d * ?q < 2 ^ 256" using lt unfolding b db by (rule le_less_trans)
  then show "value_ok base_scale ?d (fl_quantity f)"
    using s db by (simp add: value_ok_def) auto
  show "quote_value base_scale ?d (fl_quantity f) = surplus_of base_scale f"
    using s by (simp add: quote_value_def surplus_of_def db m b del: unat_minus_one)
  show "quote_value base_scale (fl_maker_price f) (fl_quantity f) + surplus_of base_scale f =
       quote_value base_scale (buyer_price f) (fl_quantity f)"
    using s mb by (simp add: quote_value_def surplus_of_def m b)
qed

lemma fill_settlement_new_eq:
  assumes "fee_rates_ok rates" "fill_ok base_scale f"
  shows "fill_settlement_new f rates base_scale =
    Some \<lparr>fs_fill = f, fs_notional = n2q (quote_value base_scale (fl_maker_price f) (fl_quantity f)),
      fs_taker_fee = n2q (taker_fee_of rates base_scale f), fs_maker_fee = n2q (maker_fee_of rates base_scale f),
      fs_surplus = n2q (surplus_of base_scale f), fs_fee_rates = rates\<rparr>"
proof -
  have v: "value_ok base_scale (fl_maker_price f) (fl_quantity f)" using assms(2) by (simp add: fill_ok_def)
  have "(case (fl_taker_side f, price_checked_sub (fl_taker_price f) (fl_maker_price f)) of
          (Buy, Some diff) \<Rightarrow>
            if diff \<noteq> 0 then expect_notional diff (fl_quantity f) base_scale else Some quantity_ZERO
        | _ \<Rightarrow> Some quantity_ZERO) = Some (n2q (surplus_of base_scale f))"
  proof (cases "fl_taker_side f")
    case Buy
    then have bp: "buyer_price f = fl_taker_price f" by (simp add: buyer_price_def)
    have le: "fl_maker_price f \<le> fl_taker_price f" using assms(2) by (simp add: fill_ok_def bp)
    have "expect_notional (fl_taker_price f - fl_maker_price f) (fl_quantity f) base_scale =
        Some (n2q (surplus_of base_scale f))"
      using surplus_value(1,2) [OF assms(2)] by (simp add: bp expect_notional_eq)
    moreover have "surplus_of base_scale f = 0" if "fl_taker_price f - fl_maker_price f = 0"
      using that by (simp add: surplus_of_def bp)
    ultimately show ?thesis using Buy le by (auto simp: price_checked_sub_def checked_sub_def)
  next
    case Sell
    then show ?thesis by (simp add: surplus_of_def buyer_price_def)
  qed
  then show ?thesis using fees_eq [OF assms(1) v] by (simp add: fill_settlement_new_def)
qed

section \<open>What the operations take from each order\<close>

text \<open>The reserved funds an operation takes from an order, in one token of the pair.\<close>

definition debit :: "order_seq \<Rightarrow> pair_token \<Rightarrow> balance_operation \<Rightarrow> nat" where
  "debit i t op = (case op of
     Transfer from _ token amount _ \<Rightarrow> if from = i \<and> token = t then q2n amount else 0
   | Unreserve order token amount \<Rightarrow> if order = i \<and> token = t then q2n amount else 0)"

definition debits :: "order_seq \<Rightarrow> pair_token \<Rightarrow> balance_operation list \<Rightarrow> nat" where
  "debits i t ops = (\<Sum>op\<leftarrow>ops. debit i t op)"

lemma debits_append [simp]: "debits i t (xs @ ys) = debits i t xs + debits i t ys"
  by (simp add: debits_def)

lemma debits_Nil [simp]: "debits i t [] = 0"
  by (simp add: debits_def)

text \<open>What a fill takes: the quantity from the seller, its value at the buyer's own limit from
  the buyer.\<close>

definition fill_debit :: "u64 \<Rightarrow> order_seq \<Rightarrow> pair_token \<Rightarrow> fill \<Rightarrow> nat" where
  "fill_debit base_scale i t f =
     (case t of
        Quote \<Rightarrow> if buyer f = i then quote_value base_scale (buyer_price f) (fl_quantity f) else 0
      | Base \<Rightarrow> if seller f = i then q2n (fl_quantity f) else 0)"

lemma surplus_only_taker:
  "fill_ok base_scale f \<Longrightarrow> surplus_of base_scale f \<noteq> 0 \<Longrightarrow> fl_taker_side f = Buy"
  by (cases "fl_taker_side f") (simp_all add: surplus_of_def buyer_price_def)

lemma surplus_lt: "fill_ok base_scale f \<Longrightarrow> surplus_of base_scale f < 2 ^ 256"
  using quote_value_lt [of base_scale "buyer_price f" "fl_quantity f"]
  by (simp add: surplus_of_def fill_ok_def)

lemma fill_debits:
  assumes "fee_rates_ok rates" "fill_ok base_scale f" "fill_settlement_new f rates base_scale = Some s"
  shows "debits i t (fill_balance_operations s) = fill_debit base_scale i t f"
proof -
  have v: "value_ok base_scale (fl_maker_price f) (fl_quantity f)" using assms(2) by (simp add: fill_ok_def)
  have s: "fs_fill s = f" "fs_notional s = n2q (quote_value base_scale (fl_maker_price f) (fl_quantity f))"
    "fs_surplus s = n2q (surplus_of base_scale f)"
    using fill_settlement_new_eq [OF assms(1,2)] assms(3) by auto
  note d = debits_def debit_def fill_balance_operations_def s v fill_debit_def buyer_def seller_def
    is_zero_iff surplus_lt [OF assms(2)]
  show ?thesis
  proof (cases "fl_taker_side f")
    case Buy
    then show ?thesis
      using surplus_value(3) [OF assms(2)] surplus_lt [OF assms(2)] v by (cases t) (auto simp: d)
  next
    case Sell
    then have "surplus_of base_scale f = 0" "buyer_price f = fl_maker_price f"
      by (simp_all add: surplus_of_def buyer_price_def)
    then show ?thesis using Sell v by (cases t) (auto simp: d)
  qed
qed

text \<open>What a removed order gets back: its reservation for what remains of it.\<close>

definition reservation :: "u64 \<Rightarrow> side \<Rightarrow> price \<Rightarrow> quantity \<Rightarrow> pair_token \<Rightarrow> nat" where
  "reservation base_scale s p q t =
     (case (s, t) of (Buy, Quote) \<Rightarrow> quote_value base_scale p q | (Sell, Base) \<Rightarrow> q2n q | _ \<Rightarrow> 0)"

definition removed_ok :: "u64 \<Rightarrow> removed_order \<Rightarrow> bool" where
  "removed_ok base_scale r \<longleftrightarrow> (rm_side r = Buy \<longrightarrow> value_ok base_scale (rm_price r) (rm_remaining r))"

lemma removed_settlement_ok:
  assumes "removed_ok base_scale r"
  shows "\<exists>s. removed_settlement_new i r base_scale = Some s \<and>
    removed_balance_operations s =
      [Unreserve i (fee_token (case rm_side r of Buy \<Rightarrow> Sell | Sell \<Rightarrow> Buy))
        (case rm_side r of Buy \<Rightarrow> n2q (quote_value base_scale (rm_price r) (rm_remaining r))
           | Sell \<Rightarrow> rm_remaining r)] \<and>
    debits j t (removed_balance_operations s) =
      (if j = i then reservation base_scale (rm_side r) (rm_price r) (rm_remaining r) t else 0)"
  using assms
  by (cases "rm_side r"; cases t)
     (simp_all add: removed_ok_def removed_settlement_new_def expect_notional_eq removed_balance_operations_def
       fee_token_def debits_def debit_def reservation_def)

section \<open>Packing\<close>

text \<open>The reference: consecutive chunks of \<open>cap\<close> units.\<close>

function chunks :: "nat \<Rightarrow> 'a list \<Rightarrow> 'a list list" where
  "chunks cap xs = (if xs = [] then [] else if cap = 0 then [xs] else take cap xs # chunks cap (drop cap xs))"
  by pat_completeness auto
termination by (relation "measure (\<lambda>(_, xs). length xs)") auto

declare chunks.simps [simp del]

definition unit_batch :: "settlement_unit list \<Rightarrow> settlement_batch" where
  "unit_batch units = fold add_unit units batch_default"

definition unit_ok :: "settlement_unit \<Rightarrow> bool" where
  "unit_ok u \<longleftrightarrow> su_operations u \<noteq> []"

lemma concat_chunks [simp]: "concat (chunks cap xs) = xs"
  by (induction cap xs rule: chunks.induct) (subst chunks.simps, auto)

lemma chunks_bounded: "0 < cap \<Longrightarrow> c \<in> set (chunks cap xs) \<Longrightarrow> c \<noteq> [] \<and> length c \<le> cap"
proof (induction cap xs rule: chunks.induct)
  case (1 cap xs)
  then show ?case using chunks.simps [of cap xs] by (auto split: if_splits)
qed

lemma unit_batch_eq:
  "sb_operations (fold add_unit us b) = sb_operations b @ concat (map su_operations us) \<and>
   sb_fills (fold add_unit us b) =
     sb_fills b @ concat (map (\<lambda>u. case su_fill u of None \<Rightarrow> [] | Some f \<Rightarrow> [f]) us)"
  by (induction us arbitrary: b) (simp_all add: add_unit_def)

lemmas unit_batch_simps = unit_batch_eq [of _ batch_default, folded unit_batch_def, simplified batch_default_def, simplified]

lemma chunks_step: "0 < cap \<Longrightarrow> length acc = cap \<Longrightarrow> chunks cap (acc @ xs) = acc # chunks cap xs"
  by (subst chunks.simps) auto

lemma pack_loop_eq:
  assumes "0 < cap" "length acc \<le> cap" "list_all unit_ok (acc @ units)"
  shows "pack_loop cap units batches (unit_batch acc) (length acc) =
    batches @ map unit_batch (chunks cap (acc @ units))"
  using assms
proof (induction units arbitrary: acc batches)
  case Nil
  have "batch_is_empty (unit_batch acc) \<longleftrightarrow> acc = []"
    using Nil(3) by (cases acc) (auto simp: batch_is_empty_def unit_batch_simps unit_ok_def)
  then show ?case using Nil by (auto simp: chunks.simps [of cap acc] chunks.simps [of cap "[]"])
next
  case (Cons u units)
  have one: "unit_batch [u] = add_unit u batch_default" by (simp add: unit_batch_def)
  have snoc: "unit_batch (acc @ [u]) = add_unit u (unit_batch acc)" by (simp add: unit_batch_def)
  show ?case
  proof (cases "length acc = cap")
    case True
    then show ?thesis
      using Cons.IH [of "[u]" "batches @ [unit_batch acc]"] Cons.prems
      by (simp add: one chunks_step)
  next
    case False
    then show ?thesis
      using Cons.IH [of "acc @ [u]" batches] Cons.prems by (simp add: snoc)
  qed
qed

lemma pack_settlement_units_eq:
  assumes "max_units \<noteq> 0" "list_all unit_ok units"
  shows "pack_settlement_units units max_units = map unit_batch (chunks (unat max_units) units)"
  using pack_loop_eq [of "unat max_units" "[]" units "[]"] assms
  by (simp add: pack_settlement_units_def unit_batch_def unat_gt_0)

section \<open>Updates of a round\<close>

text \<open>The share of an order in a list of fills, summed over its two possible roles.\<close>

definition role_sum :: "(fill \<Rightarrow> nat) \<Rightarrow> (fill \<Rightarrow> nat) \<Rightarrow> order_seq \<Rightarrow> fill list \<Rightarrow> nat" where
  "role_sum as_maker as_taker i fs =
     (\<Sum>f\<leftarrow>fs. (if fl_maker f = i then as_maker f else 0) + (if fl_taker f = i then as_taker f else 0))"

definition filled_sum :: "order_seq \<Rightarrow> fill list \<Rightarrow> nat" where
  "filled_sum = role_sum (\<lambda>f. q2n (fl_quantity f)) (\<lambda>f. q2n (fl_quantity f))"

definition quote_sum :: "u64 \<Rightarrow> order_seq \<Rightarrow> fill list \<Rightarrow> nat" where
  "quote_sum base_scale =
     role_sum (\<lambda>f. quote_value base_scale (fl_maker_price f) (fl_quantity f))
              (\<lambda>f. quote_value base_scale (fl_maker_price f) (fl_quantity f))"

definition fee_sum :: "fee_rates \<Rightarrow> u64 \<Rightarrow> order_seq \<Rightarrow> fill list \<Rightarrow> nat" where
  "fee_sum rates base_scale = role_sum (maker_fee_of rates base_scale) (taker_fee_of rates base_scale)"

lemma role_sum_simps [simp]:
  "role_sum a b i [] = 0"
  "role_sum a b i (f # fs) =
     (if fl_maker f = i then a f else 0) + (if fl_taker f = i then b f else 0) + role_sum a b i fs"
  by (simp_all add: role_sum_def)

lemmas sum_defs = filled_sum_def quote_sum_def fee_sum_def

definition update_deltas :: "order_updates \<Rightarrow> order_seq \<Rightarrow> nat \<times> nat \<times> nat" where
  "update_deltas updates i =
     (q2n (ou_filled_delta (update_of updates i)), q2n (ou_quote_delta (update_of updates i)),
      q2n (ou_fee_delta (update_of updates i)))"

definition update_marks :: "order_updates \<Rightarrow> order_seq \<Rightarrow> order_status option \<times> principal option" where
  "update_marks updates i = (ou_status (update_of updates i), ou_canceled_by (update_of updates i))"

lemma accrue_order_ok:
  assumes "update_deltas updates i = (a, b, c)"
    "a + q2n q < 2 ^ 256" "b + q2n n < 2 ^ 256" "c + q2n fee < 2 ^ 256"
  shows "\<exists>updates'. accrue_order q n i fee updates = Some updates' \<and> (bt_ok updates \<longrightarrow> bt_ok updates') \<and>
    update_deltas updates' = (update_deltas updates)(i := (a + q2n q, b + q2n n, c + q2n fee)) \<and>
    update_marks updates' = update_marks updates"
proof -
  let ?u = "update_of updates i"
  obtain a' b' c' where "quantity_add (ou_filled_delta ?u) q = Some a'" "q2n a' = a + q2n q"
      "quantity_add (ou_quote_delta ?u) n = Some b'" "q2n b' = b + q2n n"
      "quantity_add (ou_fee_delta ?u) fee = Some c'" "q2n c' = c + q2n fee"
    using assms by (auto simp: quantity_add_eq update_deltas_def)
  then show ?thesis
    by (auto simp: accrue_order_def fun_eq_iff update_deltas_def update_marks_def update_of_def [of "bt_insert _ _ _"]
        update_of_def [symmetric])
qed

lemma accrue_fill_ok:
  assumes "fee_rates_ok rates" "fill_ok base_scale f" "fill_settlement_new f rates base_scale = Some s"
    "\<And>i. update_deltas updates i = (a i, b i, c i)"
    "\<And>i. a i + filled_sum i [f] < 2 ^ 256" "\<And>i. b i + quote_sum base_scale i [f] < 2 ^ 256"
    "\<And>i. c i + fee_sum rates base_scale i [f] < 2 ^ 256"
  shows "\<exists>updates'. accrue_fill s updates = Some updates' \<and> (bt_ok updates \<longrightarrow> bt_ok updates') \<and>
    (\<forall>i. update_deltas updates' i = (a i + filled_sum i [f], b i + quote_sum base_scale i [f],
       c i + fee_sum rates base_scale i [f])) \<and>
    update_marks updates' = update_marks updates"
proof -
  have v: "value_ok base_scale (fl_maker_price f) (fl_quantity f)" using assms(2) by (simp add: fill_ok_def)
  have fb: "taker_fee_of rates base_scale f < 2 ^ 256" "maker_fee_of rates base_scale f < 2 ^ 256"
    using fee_bounds(1) [OF assms(1), of base_scale f] fee_bounds(2) [OF assms(1), of f] quote_value_lt [OF v]
      q2n_bound [of "fl_quantity f"]
    by (auto simp: taker_fee_of_def maker_fee_of_def simp del: power_numeral split: side.split)
  have s: "fs_fill s = f" "q2n (fs_notional s) = quote_value base_scale (fl_maker_price f) (fl_quantity f)"
    "q2n (fs_taker_fee s) = taker_fee_of rates base_scale f" "q2n (fs_maker_fee s) = maker_fee_of rates base_scale f"
    using fill_settlement_new_eq [OF assms(1,2)] assms(3) v fb by auto
  let ?m = "fl_maker f" and ?t = "fl_taker f"
  have m: "a ?m + q2n (fl_quantity f) < 2 ^ 256" "b ?m + q2n (fs_notional s) < 2 ^ 256"
      "c ?m + q2n (fs_maker_fee s) < 2 ^ 256"
    using assms(5,6,7) [of ?m] s by (simp_all add: sum_defs split: if_splits)
  obtain u1 where u1: "accrue_order (fl_quantity f) (fs_notional s) ?m (fs_maker_fee s) updates = Some u1"
      "bt_ok updates \<longrightarrow> bt_ok u1" "update_marks u1 = update_marks updates"
      "update_deltas u1 = (update_deltas updates)(?m := (a ?m + q2n (fl_quantity f),
         b ?m + q2n (fs_notional s), c ?m + q2n (fs_maker_fee s)))"
    using accrue_order_ok [OF assms(4) m] by blast
  define a1 b1 c1 where "a1 = (if ?t = ?m then a ?m + q2n (fl_quantity f) else a ?t)"
    and "b1 = (if ?t = ?m then b ?m + q2n (fs_notional s) else b ?t)"
    and "c1 = (if ?t = ?m then c ?m + q2n (fs_maker_fee s) else c ?t)"
  have d1: "update_deltas u1 ?t = (a1, b1, c1)"
    by (simp add: u1(4) assms(4) a1_def b1_def c1_def)
  have t: "a1 + q2n (fl_quantity f) < 2 ^ 256" "b1 + q2n (fs_notional s) < 2 ^ 256"
      "c1 + q2n (fs_taker_fee s) < 2 ^ 256"
    using assms(5,6,7) [of ?t] s by (auto simp: sum_defs a1_def b1_def c1_def split: if_splits)
  from accrue_order_ok [OF d1 t] obtain u2 where u2:
      "accrue_order (fl_quantity f) (fs_notional s) ?t (fs_taker_fee s) u1 = Some u2"
      "bt_ok u1 \<longrightarrow> bt_ok u2" "update_marks u2 = update_marks u1"
      "update_deltas u2 = (update_deltas u1)(?t := (a1 + q2n (fl_quantity f), b1 + q2n (fs_notional s), c1 + q2n (fs_taker_fee s)))"
    by blast
  have "update_deltas u2 i = (a i + filled_sum i [f], b i + quote_sum base_scale i [f], c i + fee_sum rates base_scale i [f])" for i
    by (auto simp: u2(4) u1(4) assms(4) sum_defs s a1_def b1_def c1_def)
  then show ?thesis using u1 u2 by (simp add: accrue_fill_def s(1))
qed

text \<open>The unit a fill becomes, and the unit an expired order becomes.\<close>

definition settled :: "fee_rates \<Rightarrow> u64 \<Rightarrow> fill \<Rightarrow> fill_settlement" where
  "settled rates base_scale f =
     \<lparr>fs_fill = f, fs_notional = n2q (quote_value base_scale (fl_maker_price f) (fl_quantity f)),
      fs_taker_fee = n2q (taker_fee_of rates base_scale f), fs_maker_fee = n2q (maker_fee_of rates base_scale f),
      fs_surplus = n2q (surplus_of base_scale f), fs_fee_rates = rates\<rparr>"

definition fill_unit :: "fee_rates \<Rightarrow> u64 \<Rightarrow> fill \<Rightarrow> settlement_unit" where
  "fill_unit rates base_scale f =
     \<lparr>su_operations = fill_balance_operations (settled rates base_scale f),
      su_fill = Some (fill_event_of (settled rates base_scale f))\<rparr>"

definition expired_unit :: "u64 \<Rightarrow> order_seq \<times> removed_order \<Rightarrow> settlement_unit" where
  "expired_unit base_scale e =
     \<lparr>su_operations = [Unreserve (fst e) (fee_token (case rm_side (snd e) of Buy \<Rightarrow> Sell | Sell \<Rightarrow> Buy))
        (case rm_side (snd e) of Buy \<Rightarrow> n2q (quote_value base_scale (rm_price (snd e)) (rm_remaining (snd e)))
           | Sell \<Rightarrow> rm_remaining (snd e))],
      su_fill = None\<rparr>"

lemmas expired_unit_pair = expired_unit_def [of _ "(i, r)" for i r, unfolded fst_conv snd_conv]

lemma unit_ok_fill [simp]: "unit_ok (fill_unit rates base_scale f)"
  by (simp add: unit_ok_def fill_unit_def fill_balance_operations_def Let_def split: side.split)

lemma unit_ok_expired [simp]: "unit_ok (expired_unit base_scale e)"
  by (simp add: unit_ok_def expired_unit_def)

lemma fill_unit_debits:
  "fee_rates_ok rates \<Longrightarrow> fill_ok base_scale f \<Longrightarrow>
   debits i t (su_operations (fill_unit rates base_scale f)) = fill_debit base_scale i t f"
  using fill_debits [OF _ _ fill_settlement_new_eq] by (simp add: fill_unit_def settled_def)

lemma expired_unit_debits:
  "removed_ok base_scale r \<Longrightarrow> debits j t (su_operations (expired_unit base_scale (i, r))) =
     (if j = i then reservation base_scale (rm_side r) (rm_price r) (rm_remaining r) t else 0)"
  using removed_settlement_ok [of base_scale r i j t] by (auto simp: expired_unit_pair)

lemma settle_fills_ok:
  assumes "fee_rates_ok rates" "list_all (fill_ok base_scale) fs"
    "\<And>i. update_deltas updates i = (a i, b i, c i)"
    "\<And>i. a i + filled_sum i fs < 2 ^ 256" "\<And>i. b i + quote_sum base_scale i fs < 2 ^ 256"
    "\<And>i. c i + fee_sum rates base_scale i fs < 2 ^ 256"
  shows "\<exists>updates'. settle_fills rates base_scale fs updates = Some (updates', map (fill_unit rates base_scale) fs) \<and>
    (bt_ok updates \<longrightarrow> bt_ok updates') \<and>
    (\<forall>i. update_deltas updates' i = (a i + filled_sum i fs, b i + quote_sum base_scale i fs,
       c i + fee_sum rates base_scale i fs)) \<and>
    update_marks updates' = update_marks updates"
  using assms(2-)
proof (induction fs arbitrary: updates a b c)
  case Nil
  then show ?case by (simp add: sum_defs)
next
  case (Cons f fs)
  have f: "fill_ok base_scale f" and fs: "list_all (fill_ok base_scale) fs" using Cons.prems(1) by auto
  have split: "filled_sum i (f # fs) = filled_sum i [f] + filled_sum i fs"
    "quote_sum base_scale i (f # fs) = quote_sum base_scale i [f] + quote_sum base_scale i fs"
    "fee_sum rates base_scale i (f # fs) = fee_sum rates base_scale i [f] + fee_sum rates base_scale i fs" for i
    by (simp_all add: sum_defs)
  have new: "fill_settlement_new f rates base_scale = Some (settled rates base_scale f)"
    by (simp add: fill_settlement_new_eq [OF assms(1) f] settled_def)
  have head: "a i + filled_sum i [f] < 2 ^ 256" "b i + quote_sum base_scale i [f] < 2 ^ 256"
      "c i + fee_sum rates base_scale i [f] < 2 ^ 256" for i
    using Cons.prems(3-5) [of i] unfolding split by linarith+
  obtain u1 where u1: "accrue_fill (settled rates base_scale f) updates = Some u1" "bt_ok updates \<longrightarrow> bt_ok u1"
      "\<And>i. update_deltas u1 i = (a i + filled_sum i [f], b i + quote_sum base_scale i [f], c i + fee_sum rates base_scale i [f])"
      "update_marks u1 = update_marks updates"
    using accrue_fill_ok [OF assms(1) f new Cons.prems(2) head] by blast
  have tail: "a i + filled_sum i [f] + filled_sum i fs < 2 ^ 256"
      "b i + quote_sum base_scale i [f] + quote_sum base_scale i fs < 2 ^ 256"
      "c i + fee_sum rates base_scale i [f] + fee_sum rates base_scale i fs < 2 ^ 256" for i
    using Cons.prems(3-5) [of i] unfolding split by linarith+
  from Cons.IH [OF fs u1(3) tail] show ?case
    using u1 new by (auto simp: fill_unit_def split add.assoc)
qed

lemma settle_expired_ok:
  "list_all (\<lambda>(_, r). removed_ok base_scale r) es \<Longrightarrow>
   settle_expired base_scale es = Some (map (expired_unit base_scale) es)"
proof (induction es)
  case (Cons e es)
  obtain i r where e: "e = (i, r)" by (cases e)
  then obtain x where "removed_settlement_new i r base_scale = Some x"
      "su_operations (expired_unit base_scale (i, r)) = removed_balance_operations x"
    using Cons.prems removed_settlement_ok [of base_scale r i i Base] by (auto simp: expired_unit_pair)
  moreover have "su_fill (expired_unit base_scale (i, r)) = None" by (simp add: expired_unit_def)
  ultimately show ?case using Cons by (simp add: e settlement_unit.equality)
qed simp

lemma overlay_deltas [simp]: "update_deltas (overlay_status st i updates) = update_deltas updates"
  by (auto simp: fun_eq_iff update_deltas_def update_of_def overlay_status_def)

lemma overlay_marks [simp]:
  "update_marks (overlay_status st i updates) = (update_marks updates)(i := (Some st, snd (update_marks updates i)))"
  by (auto simp: fun_eq_iff update_marks_def update_of_def overlay_status_def)

lemma fold_overlay:
  "update_deltas (fold (overlay_status st) is updates) = update_deltas updates \<and>
   update_marks (fold (overlay_status st) is updates) i =
     (if i \<in> set is then Some st else fst (update_marks updates i), snd (update_marks updates i)) \<and>
   (bt_ok updates \<longrightarrow> bt_ok (fold (overlay_status st) is updates))"
proof (induction "is" arbitrary: updates)
  case (Cons j js)
  have "bt_ok updates \<longrightarrow> bt_ok (overlay_status st j updates)" by (simp add: overlay_status_def)
  then show ?case using Cons [of "overlay_status st j updates"] by auto
qed simp

text \<open>The status a round ends in: an order that expired is \<open>Expired\<close> whatever else happened.\<close>

definition round_status :: "matching_output \<Rightarrow> order_seq \<Rightarrow> order_status option" where
  "round_status out i =
     (if bt_contains (mo_expired out) i then Some Expired else if i \<in> mo_filled out then Some Filled
      else if i \<in> mo_resting out then Some Open else None)"

definition sums_fit :: "fee_rates \<Rightarrow> u64 \<Rightarrow> fill list \<Rightarrow> bool" where
  "sums_fit rates base_scale fs \<longleftrightarrow> (\<forall>f \<in> set fs. \<forall>i \<in> {fl_maker f, fl_taker f}.
     filled_sum i fs < 2 ^ 256 \<and> quote_sum base_scale i fs < 2 ^ 256 \<and> fee_sum rates base_scale i fs < 2 ^ 256)"

lemma role_sum_0: "(\<And>f. f \<in> set fs \<Longrightarrow> i \<noteq> fl_maker f \<and> i \<noteq> fl_taker f) \<Longrightarrow> role_sum a b i fs = 0"
  by (induction fs) auto

lemma sums_fitD:
  assumes "sums_fit rates base_scale fs"
  shows "filled_sum i fs < 2 ^ 256" "quote_sum base_scale i fs < 2 ^ 256" "fee_sum rates base_scale i fs < 2 ^ 256"
proof -
  have "filled_sum i fs < 2 ^ 256 \<and> quote_sum base_scale i fs < 2 ^ 256 \<and> fee_sum rates base_scale i fs < 2 ^ 256"
  proof (cases "\<exists>f \<in> set fs. i \<in> {fl_maker f, fl_taker f}")
    case True
    then show ?thesis using assms unfolding sums_fit_def by blast
  next
    case False
    then show ?thesis using role_sum_0 [of fs i] by (auto simp: sum_defs)
  qed
  then show "filled_sum i fs < 2 ^ 256" "quote_sum base_scale i fs < 2 ^ 256" "fee_sum rates base_scale i fs < 2 ^ 256"
    by auto
qed

lemma from_matching_eq:
  assumes "fee_rates_ok rates" "list_all (fill_ok base_scale) (mo_fills out)"
    "list_all (\<lambda>(_, r). removed_ok base_scale r) (mo_expired out)"
    "sums_fit rates base_scale (mo_fills out)" "finite (mo_resting out)" "finite (mo_filled out)" "max_units \<noteq> 0"
  shows "\<exists>ms. from_matching out rates base_scale max_units = Some ms \<and> bt_ok (ms_updates ms) \<and>
    ms_batches ms = map unit_batch (chunks (unat max_units)
      (map (fill_unit rates base_scale) (mo_fills out) @ map (expired_unit base_scale) (mo_expired out))) \<and>
    (\<forall>i. update_deltas (ms_updates ms) i = (filled_sum i (mo_fills out), quote_sum base_scale i (mo_fills out),
       fee_sum rates base_scale i (mo_fills out))) \<and>
    (\<forall>i. update_marks (ms_updates ms) i = (round_status out i, None))"
proof -
  have z: "update_deltas [] i = (0, 0, 0)" "update_marks [] i = (None, None)" for i
    by (simp_all add: update_deltas_def update_marks_def update_of_def order_update_default_def)
  obtain u where u: "settle_fills rates base_scale (mo_fills out) [] = Some (u, map (fill_unit rates base_scale) (mo_fills out))"
      "bt_ok u" "\<And>i. update_deltas u i = (filled_sum i (mo_fills out), quote_sum base_scale i (mo_fills out),
       fee_sum rates base_scale i (mo_fills out))" "update_marks u = update_marks []"
    using settle_fills_ok [OF assms(1,2) z(1)] sums_fitD [OF assms(4)] by auto
  let ?us = "map (fill_unit rates base_scale) (mo_fills out) @ map (expired_unit base_scale) (mo_expired out)"
  have p: "pack_settlement_units ?us max_units = map unit_batch (chunks (unat max_units) ?us)"
    by (rule pack_settlement_units_eq [OF assms(7)]) (auto simp: list_all_iff)
  show ?thesis
    using assms(5,6) u settle_expired_ok [OF assms(3)] p
    by (auto simp: from_matching_def fold_overlay round_status_def bt_contains_iff z)
qed

end
