(* ===== verification/Settlement_Properties.thy ===== *)
theory Settlement_Properties
  imports Settlement
begin

text \<open>Properties of settlement: exact amounts, complete and bounded batches, trade legs that
  agree with the balance operations.\<close>

definition ex_rates :: fee_rates where
  "ex_rates = \<lparr>maker = 10, taker = 20\<rparr>"

definition ex_fill :: fill where
  "ex_fill = \<lparr>fl_seq = 0, fl_taker = 2, fl_taker_side = Buy, fl_taker_price = 120, fl_maker = 1,
     fl_maker_price = 100, fl_quantity = Quantity 0 50\<rparr>"

definition ex_output :: matching_output where
  "ex_output = \<lparr>mo_fills = [ex_fill, ex_fill\<lparr>fl_seq := 1, fl_maker := 0\<rparr>], mo_resting = {2}, mo_filled = {0, 1},
     mo_expired = [(3, \<lparr>rm_side = Buy, rm_price = 90, rm_remaining = Quantity 0 20\<rparr>)]\<rparr>"

lemma ex_rates_ok: "fee_rates_ok ex_rates"
  by (simp add: fee_rates_ok_def rate_ok_iff ex_rates_def)

lemma ex_fill_ok: "fill_ok 10 ex_fill"
  by (simp add: fill_ok_def value_ok_def buyer_price_def ex_fill_def q2n_def)

text \<open>What a batch's operations mention.\<close>

definition op_orders :: "balance_operation \<Rightarrow> order_seq set" where
  "op_orders op = (case op of Transfer a b _ _ _ \<Rightarrow> {a, b} | Unreserve a _ _ \<Rightarrow> {a})"

lemma op_orders_fill:
  "{fl_taker (fs_fill s), fl_maker (fs_fill s)} \<subseteq> \<Union> (op_orders ` set (fill_balance_operations s))"
  by (cases "fl_taker_side (fs_fill s)") (auto simp: fill_balance_operations_def op_orders_def Let_def)

section \<open>Amounts\<close>

text \<open>What an operation makes free for an order, and what it withholds as a fee.\<close>

definition op_credit :: "order_seq \<Rightarrow> pair_token \<Rightarrow> balance_operation \<Rightarrow> nat" where
  "op_credit i t op = (case op of
     Transfer _ to_seq token amount fee \<Rightarrow>
       if to_seq = i \<and> token = t then q2n amount - (case fee of None \<Rightarrow> 0 | Some x \<Rightarrow> q2n x) else 0
   | Unreserve j token amount \<Rightarrow> if j = i \<and> token = t then q2n amount else 0)"

definition op_withheld :: "pair_token \<Rightarrow> balance_operation \<Rightarrow> nat" where
  "op_withheld t op = (case op of Transfer _ _ token _ (Some fee) \<Rightarrow> if token = t then q2n fee else 0 | _ \<Rightarrow> 0)"

definition credits :: "order_seq \<Rightarrow> pair_token \<Rightarrow> balance_operation list \<Rightarrow> nat" where
  "credits i t ops = (\<Sum>op\<leftarrow>ops. op_credit i t op)"

definition withheld :: "pair_token \<Rightarrow> balance_operation list \<Rightarrow> nat" where
  "withheld t ops = (\<Sum>op\<leftarrow>ops. op_withheld t op)"

lemma nonzero_fee: "(case nonzero q of None \<Rightarrow> 0 | Some x \<Rightarrow> q2n x) = q2n q"
  by (simp add: nonzero_def is_zero_iff)

lemma op_withheld_transfer:
  "op_withheld t (Transfer a b token amount (nonzero fee)) = (if token = t then q2n fee else 0)"
  by (simp add: op_withheld_def nonzero_def is_zero_iff)

lemma fill_credits:
  assumes "fee_rates_ok rates" "fill_ok base_scale f"
  shows "credits i t (fill_balance_operations (settled rates base_scale f)) =
      (case t of
         Quote \<Rightarrow> (if i = seller f then quote_value base_scale (fl_maker_price f) (fl_quantity f) - quote_fee_of rates base_scale f else 0) +
           (if i = buyer f then surplus_of base_scale f else 0)
       | Base \<Rightarrow> if i = buyer f then q2n (fl_quantity f) - base_fee_of rates f else 0)"
    "withheld Quote (fill_balance_operations (settled rates base_scale f)) = quote_fee_of rates base_scale f"
    "withheld Base (fill_balance_operations (settled rates base_scale f)) = base_fee_of rates f"
proof -
  have v: "value_ok base_scale (fl_maker_price f) (fl_quantity f)" using assms(2) by (simp add: fill_ok_def)
  have fits: "quote_fee_of rates base_scale f < 2 ^ 256" "base_fee_of rates f < 2 ^ 256"
    using fee_bounds(1) [OF assms(1), of base_scale f] fee_bounds(2) [OF assms(1), of f] quote_value_lt [OF v]
      q2n_bound [of "fl_quantity f"] by linarith+
  note s = surplus_lt [OF assms(2)] surplus_only_taker [OF assms(2)]
  note d = fill_balance_operations_def settled_def taker_fee_of_def maker_fee_of_def is_zero_iff buyer_def seller_def
  show "credits i t (fill_balance_operations (settled rates base_scale f)) =
      (case t of
         Quote \<Rightarrow> (if i = seller f then quote_value base_scale (fl_maker_price f) (fl_quantity f) - quote_fee_of rates base_scale f else 0) +
           (if i = buyer f then surplus_of base_scale f else 0)
       | Base \<Rightarrow> if i = buyer f then q2n (fl_quantity f) - base_fee_of rates f else 0)"
    using s v fits by (cases "fl_taker_side f"; cases t) (auto simp: credits_def op_credit_def nonzero_fee d)
  show "withheld Quote (fill_balance_operations (settled rates base_scale f)) = quote_fee_of rates base_scale f"
    "withheld Base (fill_balance_operations (settled rates base_scale f)) = base_fee_of rates f"
    using fits by (cases "fl_taker_side f"; auto simp: withheld_def op_withheld_transfer op_withheld_def [of _ "Unreserve _ _ _"] d)+
qed

text \<open>C9. A fill is settled exactly: it never traps. It takes from the buyer's reserved quote what the filled
  quantity was reserved for at the buyer's own limit and from the seller's reserved base the filled
  quantity, from nobody else anything. The seller receives the value at the maker's price less the quote
  fee, the buyer the quantity less the base fee and the price improvement back, nobody else anything. Each
  fee is the ceiling of its party's rate of what that party receives, is withheld once, and is at most that
  amount; both values are exact multiples, nothing is rounded away.\<close>

theorem fill_settlement_exact:
  assumes "fee_rates_ok rates" "fill_ok base_scale f"
  defines "quantity \<equiv> q2n (fl_quantity f)"
    and "notional \<equiv> unat (fl_maker_price f) * q2n (fl_quantity f) div unat base_scale"
    and "limit \<equiv> unat (buyer_price f) * q2n (fl_quantity f) div unat base_scale"
    and "buyer_rate \<equiv> unat (case fl_taker_side f of Buy \<Rightarrow> taker rates | Sell \<Rightarrow> maker rates)"
    and "seller_rate \<equiv> unat (case fl_taker_side f of Buy \<Rightarrow> maker rates | Sell \<Rightarrow> taker rates)"
  defines "quote_fee \<equiv> (notional * seller_rate + 9999) div 10000" and "base_fee \<equiv> (quantity * buyer_rate + 9999) div 10000"
  shows "\<exists>s. fill_settlement_new f rates base_scale = Some s \<and>
    debits i Quote (fill_balance_operations s) = (if i = buyer f then limit else 0) \<and>
    debits i Base (fill_balance_operations s) = (if i = seller f then quantity else 0) \<and>
    credits i Quote (fill_balance_operations s) =
      (if i = seller f then notional - quote_fee else 0) + (if i = buyer f then limit - notional else 0) \<and>
    credits i Base (fill_balance_operations s) = (if i = buyer f then quantity - base_fee else 0) \<and>
    withheld Quote (fill_balance_operations s) = quote_fee \<and> withheld Base (fill_balance_operations s) = base_fee \<and>
    quote_fee \<le> notional \<and> base_fee \<le> quantity \<and> notional \<le> limit \<and>
    notional * unat base_scale = unat (fl_maker_price f) * quantity \<and> limit * unat base_scale = unat (buyer_price f) * quantity"
proof -
  let ?s = "settled rates base_scale f"
  have n: "notional = quote_value base_scale (fl_maker_price f) (fl_quantity f)" "limit = quote_value base_scale (buyer_price f) (fl_quantity f)"
    "quote_fee = quote_fee_of rates base_scale f" "base_fee = base_fee_of rates f"
    by (simp_all add: notional_def limit_def quote_fee_def base_fee_def quantity_def buyer_rate_def seller_rate_def quote_value_def
        quote_fee_of_def base_fee_of_def ceil_share_def)
  have new: "fill_settlement_new f rates base_scale = Some ?s" by (simp add: fill_settlement_new_eq [OF assms(1,2)] settled_def)
  have sur: "surplus_of base_scale f = limit - notional" "notional \<le> limit"
    using surplus_value(3) [OF assms(2)] by (simp_all add: n)
  have "notional * unat base_scale = unat (fl_maker_price f) * quantity" "limit * unat base_scale = unat (buyer_price f) * quantity"
    using assms(2) by (simp_all add: notional_def limit_def quantity_def fill_ok_def value_ok_def)
  then show ?thesis
    using fill_debits [OF assms(1,2) new, of i] fill_credits [OF assms(1,2)] fee_bounds(1) [OF assms(1), of base_scale f]
      fee_bounds(2) [OF assms(1), of f] sur
    by (intro exI [of _ ?s]) (auto simp: new n fill_debit_def quantity_def)
qed

theorem fill_settlement_exact_witness:
  "\<exists>s. fill_settlement_new ex_fill ex_rates 10 = Some s \<and>
    debits 2 Quote (fill_balance_operations s) = 600 \<and> credits 2 Quote (fill_balance_operations s) = 100 \<and>
    credits 2 Base (fill_balance_operations s) = 49 \<and> withheld Base (fill_balance_operations s) = 1 \<and>
    withheld Quote (fill_balance_operations s) = 1"
  using fill_settlement_exact [OF ex_rates_ok ex_fill_ok, of 2]
  by (auto simp: buyer_def seller_def buyer_price_def ex_fill_def ex_rates_def q2n_def)

text \<open>C7. A whole round is settled: every order's record is credited with exactly the sums of its
  fills in both roles and gets the status the round left it in, and over all batches together the
  operations take from every order exactly what its fills were reserved for plus, when it
  expired, what is left of its reservation.\<close>

theorem match_settlement_exact:
  assumes "fee_rates_ok rates" "list_all (fill_ok base_scale) (mo_fills out)"
    "list_all (\<lambda>(_, r). removed_ok base_scale r) (mo_expired out)"
    "sums_fit rates base_scale (mo_fills out)" "finite (mo_resting out)" "finite (mo_filled out)" "max_units \<noteq> 0"
  shows "\<exists>ms. from_matching out rates base_scale max_units = Some ms \<and>
    (\<forall>i. update_deltas (ms_updates ms) i =
       (filled_sum i (mo_fills out), quote_sum base_scale i (mo_fills out), fee_sum rates base_scale i (mo_fills out))) \<and>
    (\<forall>i. ou_status (update_of (ms_updates ms) i) = round_status out i) \<and>
    (\<forall>i t. (\<Sum>b\<leftarrow>ms_batches ms. debits i t (sb_operations b)) =
       (\<Sum>f\<leftarrow>mo_fills out. fill_debit base_scale i t f) +
       (\<Sum>(j, r)\<leftarrow>mo_expired out. if i = j then reservation base_scale (rm_side r) (rm_price r) (rm_remaining r) t else 0))"
proof -
  let ?us = "map (fill_unit rates base_scale) (mo_fills out) @ map (expired_unit base_scale) (mo_expired out)"
  obtain ms where ms: "from_matching out rates base_scale max_units = Some ms"
      "ms_batches ms = map unit_batch (chunks (unat max_units) ?us)"
      "\<forall>i. update_deltas (ms_updates ms) i = (filled_sum i (mo_fills out), quote_sum base_scale i (mo_fills out),
         fee_sum rates base_scale i (mo_fills out))"
      "\<forall>i. update_marks (ms_updates ms) i = (round_status out i, None)"
    using from_matching_eq [OF assms] by blast
  have debits_sum: "(\<Sum>us\<leftarrow>uss. debits i t (sb_operations (unit_batch us))) = (\<Sum>u\<leftarrow>concat uss. debits i t (su_operations u))"
    for i t uss
  proof (induction uss)
    case (Cons us uss)
    have "debits i t (concat (map su_operations us)) = (\<Sum>u\<leftarrow>us. debits i t (su_operations u))" by (induction us) simp_all
    then show ?case using Cons by (simp add: unit_batch_simps)
  qed simp
  have "(\<Sum>f\<leftarrow>mo_fills out. debits i t (su_operations (fill_unit rates base_scale f))) =
      (\<Sum>f\<leftarrow>mo_fills out. fill_debit base_scale i t f)" for i t
    using assms(1,2) by (intro arg_cong [of _ _ sum_list] map_cong) (auto simp: fill_unit_debits list_all_iff)
  moreover have "(\<Sum>e\<leftarrow>mo_expired out. debits i t (su_operations (expired_unit base_scale e))) =
      (\<Sum>(j, r)\<leftarrow>mo_expired out. if i = j then reservation base_scale (rm_side r) (rm_price r) (rm_remaining r) t else 0)" for i t
    using assms(3) by (intro arg_cong [of _ _ sum_list] map_cong) (auto simp: expired_unit_debits list_all_iff)
  ultimately have "(\<Sum>b\<leftarrow>ms_batches ms. debits i t (sb_operations b)) =
       (\<Sum>f\<leftarrow>mo_fills out. fill_debit base_scale i t f) +
       (\<Sum>(j, r)\<leftarrow>mo_expired out. if i = j then reservation base_scale (rm_side r) (rm_price r) (rm_remaining r) t else 0)" for i t
    using debits_sum [of i t "chunks (unat max_units) ?us"] by (simp add: ms(2) o_def)
  then show ?thesis using ms by (auto simp: update_marks_def)
qed

lemma ex_output_ok:
  "list_all (fill_ok 10) (mo_fills ex_output)" "list_all (\<lambda>(_, r). removed_ok 10 r) (mo_expired ex_output)"
  "finite (mo_resting ex_output)" "finite (mo_filled ex_output)"
  by (simp_all add: ex_output_def fill_ok_def value_ok_def buyer_price_def ex_fill_def removed_ok_def q2n_def)

lemma ex_sums_fit: "sums_fit ex_rates 10 (mo_fills ex_output)"
  by (simp add: sums_fit_def ex_output_def ex_fill_def ex_rates_def sum_defs quote_value_def maker_fee_of_def
      taker_fee_of_def quote_fee_of_def base_fee_of_def ceil_share_def q2n_def)

theorem match_settlement_exact_witness:
  "\<exists>ms. from_matching ex_output ex_rates 10 1 = Some ms \<and>
    update_deltas (ms_updates ms) 2 = (100, 1000, 2) \<and> ou_status (update_of (ms_updates ms) 3) = Some Expired \<and>
    (\<Sum>b\<leftarrow>ms_batches ms. debits 2 Quote (sb_operations b)) = 1200"
proof -
  have sums: "(filled_sum 2 (mo_fills ex_output), quote_sum 10 2 (mo_fills ex_output), fee_sum ex_rates 10 2 (mo_fills ex_output)) = (100, 1000, 2)"
    "round_status ex_output 3 = Some Expired"
    by (simp_all add: ex_output_def ex_fill_def ex_rates_def sum_defs quote_value_def maker_fee_of_def taker_fee_of_def
        quote_fee_of_def base_fee_of_def ceil_share_def q2n_def round_status_def bt_contains_def)
  have deb: "(\<Sum>f\<leftarrow>mo_fills ex_output. fill_debit 10 2 Quote f) +
       (\<Sum>(j, r)\<leftarrow>mo_expired ex_output. if 2 = j then reservation 10 (rm_side r) (rm_price r) (rm_remaining r) Quote else 0) = 1200"
    by (simp add: ex_output_def ex_fill_def fill_debit_def buyer_def buyer_price_def quote_value_def q2n_def)
  obtain ms where ms: "from_matching ex_output ex_rates 10 1 = Some ms"
      "\<forall>i. update_deltas (ms_updates ms) i = (filled_sum i (mo_fills ex_output), quote_sum 10 i (mo_fills ex_output), fee_sum ex_rates 10 i (mo_fills ex_output))"
      "\<forall>i. ou_status (update_of (ms_updates ms) i) = round_status ex_output i"
      "\<forall>i t. (\<Sum>b\<leftarrow>ms_batches ms. debits i t (sb_operations b)) =
       (\<Sum>f\<leftarrow>mo_fills ex_output. fill_debit 10 i t f) +
       (\<Sum>(j, r)\<leftarrow>mo_expired ex_output. if i = j then reservation 10 (rm_side r) (rm_price r) (rm_remaining r) t else 0)"
    using match_settlement_exact [OF ex_rates_ok ex_output_ok(1,2) ex_sums_fit ex_output_ok(3,4), of 1] by auto
  show ?thesis by (rule exI [of _ ms]) (use ms sums deb in auto)
qed

section \<open>Batches\<close>

text \<open>C27. Batches are bounded and never split a fill: the batches of a round are consecutive
  groups of at most \<open>max_units\<close> whole units in order, and every fill of a batch finds its taker and
  its maker among the operations of that batch.\<close>

theorem settlement_batches_bounded:
  assumes "from_matching out rates base_scale max_units = Some ms" "max_units \<noteq> 0"
    "fee_rates_ok rates" "list_all (fill_ok base_scale) (mo_fills out)"
    "list_all (\<lambda>(_, r). removed_ok base_scale r) (mo_expired out)"
    "sums_fit rates base_scale (mo_fills out)" "finite (mo_resting out)" "finite (mo_filled out)"
  shows "\<exists>groups. ms_batches ms = map unit_batch groups \<and>
    concat groups = map (fill_unit rates base_scale) (mo_fills out) @ map (expired_unit base_scale) (mo_expired out) \<and>
    (\<forall>g \<in> set groups. g \<noteq> [] \<and> length g \<le> unat max_units) \<and>
    (\<forall>b \<in> set (ms_batches ms). \<forall>fe \<in> set (sb_fills b).
       {fe_taker fe, fe_maker fe} \<subseteq> \<Union> (op_orders ` set (sb_operations b)))"
proof -
  let ?us = "map (fill_unit rates base_scale) (mo_fills out) @ map (expired_unit base_scale) (mo_expired out)"
  let ?gs = "chunks (unat max_units) ?us"
  have b: "ms_batches ms = map unit_batch ?gs"
    using from_matching_eq [OF assms(3-8,2)] assms(1) by auto
  have sub: "set g \<subseteq> set ?us" if "g \<in> set ?gs" for g
    using that by (metis UN_upper concat_chunks set_concat)
  have colocated: "{fe_taker fe, fe_maker fe} \<subseteq> \<Union> (op_orders ` set (sb_operations (unit_batch g)))"
    if g: "g \<in> set ?gs" and fe: "fe \<in> set (sb_fills (unit_batch g))" for g fe
  proof -
    obtain u where u: "u \<in> set g" "su_fill u = Some fe"
      using fe by (auto simp: unit_batch_simps split: option.splits)
    then have "u \<in> set ?us" using sub [OF g] by blast
    then obtain f where f: "u = fill_unit rates base_scale f" using u(2) by (auto simp: expired_unit_def)
    have "{fe_taker fe, fe_maker fe} \<subseteq> \<Union> (op_orders ` set (su_operations u))"
      using op_orders_fill [of "settled rates base_scale f"] u(2)
      by (auto simp: f fill_unit_def fill_event_of_def)
    then show ?thesis using u(1) by (fastforce simp: unit_batch_simps)
  qed
  have "\<forall>b \<in> set (ms_batches ms). \<forall>fe \<in> set (sb_fills b).
       {fe_taker fe, fe_maker fe} \<subseteq> \<Union> (op_orders ` set (sb_operations b))"
    unfolding b using colocated by auto
  moreover have "\<forall>g \<in> set ?gs. g \<noteq> [] \<and> length g \<le> unat max_units"
    using chunks_bounded assms(2) by (metis unat_gt_0)
  ultimately show ?thesis using b by (intro exI [of _ ?gs]) simp
qed

theorem settlement_batches_bounded_witness:
  "\<exists>ms groups. from_matching ex_output ex_rates 10 2 = Some ms \<and> ms_batches ms = map unit_batch groups \<and>
    length (concat groups) = 3 \<and> (\<forall>g \<in> set groups. g \<noteq> [] \<and> length g \<le> 2)"
proof -
  obtain ms where ms: "from_matching ex_output ex_rates 10 2 = Some ms"
    using from_matching_eq [OF ex_rates_ok ex_output_ok(1,2) ex_sums_fit ex_output_ok(3,4), of 2] by auto
  show ?thesis
    using settlement_batches_bounded [OF ms _ ex_rates_ok ex_output_ok(1,2) ex_sums_fit ex_output_ok(3,4)] ms
    by (fastforce simp: ex_output_def)
qed

text \<open>The trade legs rebuilt in the settling phase agree with the balance operations of the
  matching phase: from the lean fill record, the taker's side and the maker's price, they carry
  the same notional and the same fees, each in the token its order receives.\<close>

lemma trade_legs_agree:
  assumes "fee_rates_ok rates" "fill_ok base_scale f"
  shows "\<exists>s taker_leg maker_leg. fill_settlement_new f rates base_scale = Some s \<and>
    trade_legs (fill_event_of s) book (fl_taker_side f) (fl_maker_price f) base_scale now =
      Some (((((book, fl_taker f), fl_seq f)), taker_leg), (((book, fl_maker f), fl_seq f), maker_leg)) \<and>
    (\<forall>leg \<in> {taker_leg, maker_leg}. tr_notional leg = fs_notional s \<and> tr_quantity leg = fl_quantity f \<and>
       tr_price leg = fl_maker_price f \<and>
       q2n (tr_fee leg) \<le> (case tr_fee_token leg of Base \<Rightarrow> q2n (fl_quantity f) | Quote \<Rightarrow> q2n (fs_notional s)) \<and>
       Transfer (if tr_fee_token leg = Base then seller f else buyer f) (if tr_fee_token leg = Base then buyer f else seller f)
         (tr_fee_token leg) (if tr_fee_token leg = Base then fl_quantity f else fs_notional s) (nonzero (tr_fee leg))
         \<in> set (fill_balance_operations s)) \<and>
    tr_side taker_leg = fl_taker_side f \<and> tr_side maker_leg \<noteq> fl_taker_side f \<and>
    \<not> tr_is_maker taker_leg \<and> tr_is_maker maker_leg"
proof -
  have v: "value_ok base_scale (fl_maker_price f) (fl_quantity f)" using assms(2) by (simp add: fill_ok_def)
  have fits: "quote_fee_of rates base_scale f < 2 ^ 256" "base_fee_of rates f < 2 ^ 256"
    using fee_bounds(1) [OF assms(1), of base_scale f] fee_bounds(2) [OF assms(1), of f]
      quote_value_lt [OF v] q2n_bound [of "fl_quantity f"] by linarith+
  let ?s = "settled rates base_scale f" and ?n = "quote_value base_scale (fl_maker_price f) (fl_quantity f)"
  define leg where "leg side fee is_maker =
    \<lparr>tr_side = side, tr_price = fl_maker_price f, tr_quantity = fl_quantity f, tr_notional = n2q ?n,
     tr_fee = n2q fee, tr_fee_token = fee_token side, tr_is_maker = is_maker, tr_timestamp = now\<rparr>" for side fee is_maker
  let ?t = "leg (fl_taker_side f) (taker_fee_of rates base_scale f) False"
  let ?m = "leg (case fl_taker_side f of Buy \<Rightarrow> Sell | Sell \<Rightarrow> Buy) (maker_fee_of rates base_scale f) True"
  note b = fee_bounds(1) [OF assms(1), of base_scale f] fee_bounds(2) [OF assms(1), of f]
  have new: "fill_settlement_new f rates base_scale = Some ?s"
    by (simp add: fill_settlement_new_eq [OF assms] settled_def)
  have legs: "trade_legs (fill_event_of ?s) book (fl_taker_side f) (fl_maker_price f) base_scale now =
      Some (((((book, fl_taker f), fl_seq f)), ?t), (((book, fl_maker f), fl_seq f), ?m))"
    using fees_eq [OF assms(1) v]
    by (cases "fl_taker_side f") (simp_all add: trade_legs_def fill_event_of_def settled_def leg_def)
  have "q2n (tr_fee l) \<le> (case tr_fee_token l of Base \<Rightarrow> q2n (fl_quantity f) | Quote \<Rightarrow> q2n (fs_notional ?s)) \<and>
       Transfer (if tr_fee_token l = Base then seller f else buyer f) (if tr_fee_token l = Base then buyer f else seller f)
         (tr_fee_token l) (if tr_fee_token l = Base then fl_quantity f else fs_notional ?s) (nonzero (tr_fee l))
         \<in> set (fill_balance_operations ?s)" if "l \<in> {?t, ?m}" for l
    using that b v fits
    by (cases "fl_taker_side f")
       (auto simp: leg_def fee_token_def settled_def fill_balance_operations_def buyer_def seller_def
         taker_fee_of_def maker_fee_of_def)
  moreover have "tr_side ?m \<noteq> fl_taker_side f" by (cases "fl_taker_side f") (simp_all add: leg_def)
  ultimately show ?thesis
    using new legs by (intro exI [of _ ?s] exI [of _ ?t] exI [of _ ?m]) (simp add: leg_def settled_def)
qed

lemma trade_legs_agree_witness:
  "\<exists>s legs. fill_settlement_new ex_fill ex_rates 10 = Some s \<and>
    trade_legs (fill_event_of s) 7 Buy 100 10 99 = Some legs \<and> tr_notional (snd (fst legs)) = fs_notional s"
  using trade_legs_agree [OF ex_rates_ok ex_fill_ok, of 7 99] by (auto simp: ex_fill_def)

end
