(* ===== verification/Access.thy ===== *)
theory Access
  imports Order_Types
begin

text \<open>
  Who may do what, and how much at a time: the call mode (\<open>oisy_trade_types_internal\<close>), the trading
  halts (\<open>state/permissions/mod.rs\<close>), the limits of one execution (\<open>state/execution_policy/mod.rs\<close>)
  and the map between pairs and books (\<open>state/map/trading_pair_map.rs\<close>). A permit carries no data;
  it only shows that the check was made, so a granted permit is the unit value.
\<close>

section \<open>Call mode\<close>

datatype mode = GeneralAvailability | RestrictedTo "principal set"

text \<open>The runtime as a message sees it: its caller, the controllers of the canister, the time.\<close>

record runtime =
  rt_caller :: principal
  rt_is_controller :: "principal \<Rightarrow> bool"
  rt_time :: timestamp

definition caller_is_allowed :: "mode \<Rightarrow> runtime \<Rightarrow> bool" where
  "caller_is_allowed m rt =
     (case m of
        GeneralAvailability \<Rightarrow> True
      | RestrictedTo allowed \<Rightarrow> rt_is_controller rt (rt_caller rt) \<or> rt_caller rt \<in> allowed)"

section \<open>Permissions\<close>

record permissions =
  pm_trading_halted :: bool
  pm_halted_pairs :: "order_book_id set"

definition permissions_default :: permissions where
  "permissions_default = \<lparr>pm_trading_halted = False, pm_halted_pairs = {}\<rparr>"

datatype unauthorized_error = UE_TradingHalted | UE_NotController

datatype funding_denied = TradingAccountForbidden

definition halt_trading_globally :: "permissions \<Rightarrow> permissions" where
  "halt_trading_globally p = p\<lparr>pm_trading_halted := True\<rparr>"

definition resume_trading_globally :: "permissions \<Rightarrow> permissions" where
  "resume_trading_globally p = p\<lparr>pm_trading_halted := False, pm_halted_pairs := {}\<rparr>"

definition pm_halt_trading :: "order_book_id \<Rightarrow> permissions \<Rightarrow> permissions" where
  "pm_halt_trading book p = p\<lparr>pm_halted_pairs := insert book (pm_halted_pairs p)\<rparr>"

definition pm_resume_trading :: "order_book_id \<Rightarrow> permissions \<Rightarrow> permissions" where
  "pm_resume_trading book p = p\<lparr>pm_halted_pairs := pm_halted_pairs p - {book}\<rparr>"

definition is_halted :: "permissions \<Rightarrow> order_book_id \<Rightarrow> bool" where
  "is_halted p book \<longleftrightarrow> pm_trading_halted p \<or> book \<in> pm_halted_pairs p"

definition permit_trading :: "permissions \<Rightarrow> order_book_id \<Rightarrow> unauthorized_error + unit" where
  "permit_trading p book = (if is_halted p book then Inl UE_TradingHalted else Inr ())"

definition permit_matching :: "permissions \<Rightarrow> order_book_id \<Rightarrow> unauthorized_error + unit" where
  "permit_matching p book = (if is_halted p book then Inl UE_TradingHalted else Inr ())"

definition permit_deposit :: "permissions \<Rightarrow> bool \<Rightarrow> funding_denied + unit" where
  "permit_deposit p caller_is_trading_account =
     (if caller_is_trading_account then Inl TradingAccountForbidden else Inr ())"

definition permit_withdraw :: "permissions \<Rightarrow> bool \<Rightarrow> funding_denied + unit" where
  "permit_withdraw p caller_is_trading_account =
     (if caller_is_trading_account then Inl TradingAccountForbidden else Inr ())"

section \<open>Execution policy\<close>

record execution_policy =
  ep_max_orders_per_chunk :: u32
  ep_instruction_budget :: u64
  ep_max_settlement_units_per_event :: u32

definition MAX_INSTRUCTION_BUDGET :: u64 where
  "MAX_INSTRUCTION_BUDGET = 40000000000"

definition DEFAULT_MAX_ORDERS_PER_CHUNK :: u32 where
  "DEFAULT_MAX_ORDERS_PER_CHUNK = 1000"

definition DEFAULT_INSTRUCTION_BUDGET :: u64 where
  "DEFAULT_INSTRUCTION_BUDGET = 1000000000"

definition DEFAULT_MAX_SETTLEMENT_UNITS_PER_EVENT :: u32 where
  "DEFAULT_MAX_SETTLEMENT_UNITS_PER_EVENT = 256"

datatype policy_error = ZeroMaxOrders | ZeroBudget | ZeroSettlementUnits | BudgetTooLarge u64

definition policy_try_new :: "u32 \<Rightarrow> u64 \<Rightarrow> u32 \<Rightarrow> policy_error + execution_policy" where
  "policy_try_new max_orders budget max_units =
     (if max_orders = 0 then Inl ZeroMaxOrders
      else if budget = 0 then Inl ZeroBudget
      else if max_units = 0 then Inl ZeroSettlementUnits
      else if budget > MAX_INSTRUCTION_BUDGET then Inl (BudgetTooLarge budget)
      else Inr \<lparr>ep_max_orders_per_chunk = max_orders, ep_instruction_budget = budget,
                ep_max_settlement_units_per_event = max_units\<rparr>)"

text \<open>\<open>.expect(..)\<close> on a result.\<close>

definition expect_ok :: "'e + 'a \<Rightarrow> 'a option" where
  "expect_ok r = (case r of Inl _ \<Rightarrow> None | Inr x \<Rightarrow> Some x)"

lemma expect_ok_simps [simp]: "expect_ok (Inl e) = None" "expect_ok (Inr x) = Some x"
  by (simp_all add: expect_ok_def)

lemma expect_ok_eq_Some [simp]: "expect_ok r = Some x \<longleftrightarrow> r = Inr x"
  by (cases r) simp_all

definition policy_default :: "execution_policy option" where
  "policy_default = expect_ok (policy_try_new DEFAULT_MAX_ORDERS_PER_CHUNK DEFAULT_INSTRUCTION_BUDGET
     DEFAULT_MAX_SETTLEMENT_UNITS_PER_EVENT)"

definition policy_ok :: "execution_policy \<Rightarrow> bool" where
  "policy_ok ep \<longleftrightarrow> policy_try_new (ep_max_orders_per_chunk ep) (ep_instruction_budget ep)
     (ep_max_settlement_units_per_event ep) = Inr ep"

lemma policy_ok_iff:
  "policy_ok ep \<longleftrightarrow> ep_max_orders_per_chunk ep \<noteq> 0 \<and> ep_instruction_budget ep \<noteq> 0 \<and>
     ep_max_settlement_units_per_event ep \<noteq> 0 \<and> ep_instruction_budget ep \<le> MAX_INSTRUCTION_BUDGET"
  by (auto simp: policy_ok_def policy_try_new_def)

lemma policy_try_new_ok: "policy_try_new a b c = Inr ep \<Longrightarrow> policy_ok ep"
  by (auto simp: policy_ok_iff policy_try_new_def not_less split: if_splits)

lemma policy_default_Some: "\<exists>ep. policy_default = Some ep \<and> policy_ok ep"
  by (simp add: policy_default_def policy_try_new_def policy_ok_iff DEFAULT_MAX_ORDERS_PER_CHUNK_def
      DEFAULT_INSTRUCTION_BUDGET_def DEFAULT_MAX_SETTLEMENT_UNITS_PER_EVENT_def MAX_INSTRUCTION_BUDGET_def)

section \<open>Pairs and books\<close>

text \<open>The 1:1 map of the documentation: insertion refuses a pair or a book that is present.\<close>

type_synonym trading_pair_map = "(trading_pair, order_book_id) btree_map"

definition get_book_id :: "trading_pair_map \<Rightarrow> trading_pair \<Rightarrow> order_book_id option" where
  "get_book_id m pair = bt_get m pair"

definition get_pair :: "trading_pair_map \<Rightarrow> order_book_id \<Rightarrow> trading_pair option" where
  "get_pair m book = map_option fst (find (\<lambda>(_, b). b = book) m)"

definition pair_map_insert :: "trading_pair \<Rightarrow> order_book_id \<Rightarrow> trading_pair_map \<Rightarrow> trading_pair_map option" where
  "pair_map_insert pair book m = do {
     ensure (get_book_id m pair = None \<and> get_pair m book = None);
     Some (bt_insert pair book m)
   }"

definition pair_map_contains :: "trading_pair_map \<Rightarrow> trading_pair \<Rightarrow> bool" where
  "pair_map_contains m pair = bt_contains m pair"

definition pair_map_ok :: "trading_pair_map \<Rightarrow> bool" where
  "pair_map_ok m \<longleftrightarrow> bt_ok m \<and> distinct (map snd m)"

lemma get_pair_None: "get_pair m book = None \<longleftrightarrow> book \<notin> snd ` set m"
  by (force simp: get_pair_def find_None_iff)

lemma get_pair_in_set: "get_pair m book = Some pair \<Longrightarrow> (pair, book) \<in> set m"
  by (auto simp: get_pair_def find_Some_iff) (metis nth_mem)

lemma get_pair_iff: "pair_map_ok m \<Longrightarrow> get_pair m book = Some pair \<longleftrightarrow> get_book_id m pair = Some book"
proof
  assume ok: "pair_map_ok m" and "get_pair m book = Some pair"
  then show "get_book_id m pair = Some book"
    by (simp add: get_pair_in_set get_book_id_def bt_ok_get_iff pair_map_ok_def)
next
  assume ok: "pair_map_ok m" and g: "get_book_id m pair = Some book"
  then have mem: "(pair, book) \<in> set m" by (simp add: get_book_id_def bt_get_in_set)
  then obtain pair' where p': "get_pair m book = Some pair'" using get_pair_None [of m book] by force
  then have "(pair', book) \<in> set m" by (rule get_pair_in_set)
  then have "pair' = pair" using ok mem by (force simp: pair_map_ok_def distinct_map inj_on_def)
  then show "get_pair m book = Some pair" using p' by simp
qed

lemma distinct_snd_insert:
  "bt_get m k = None \<Longrightarrow> distinct (map snd m) \<Longrightarrow> v \<notin> snd ` set m \<Longrightarrow> distinct (map snd (bt_insert k v m))"
proof (induction k v m rule: bt_insert.induct)
  case (2 k v e m)
  have "snd ` set (bt_insert k v m) \<subseteq> insert v (snd ` set m)" by (induction k v m rule: bt_insert.induct) auto
  then show ?case using 2 by (auto split: if_splits)
qed simp

lemma pair_map_insert_ok:
  assumes "pair_map_ok m" "pair_map_insert pair book m = Some m'"
  shows "pair_map_ok m'" "get_book_id m' = (get_book_id m)(pair \<mapsto> book)"
    "get_pair m' = (get_pair m)(book \<mapsto> pair)" "get_book_id m pair = None" "get_pair m book = None"
proof -
  have n: "get_book_id m pair = None" "get_pair m book = None" and m': "m' = bt_insert pair book m"
    using assms(2) by (auto simp: pair_map_insert_def trap_simps)
  show ok: "pair_map_ok m'"
    using assms(1) n distinct_snd_insert [of m pair book]
    by (simp add: pair_map_ok_def m' get_book_id_def get_pair_None)
  show g: "get_book_id m' = (get_book_id m)(pair \<mapsto> book)" by (auto simp: get_book_id_def m' fun_eq_iff)
  show "get_pair m' = (get_pair m)(book \<mapsto> pair)"
  proof
    fix b
    show "get_pair m' b = ((get_pair m)(book \<mapsto> pair)) b"
    proof (cases "b = book")
      case True
      then show ?thesis using get_pair_iff [OF ok, of book pair] by (simp add: g)
    next
      case False
      have "get_pair m' b = Some p \<longleftrightarrow> get_pair m b = Some p" for p
        using False n(1) get_pair_iff [OF ok, of b p] get_pair_iff [OF assms(1), of b p] by (auto simp: g)
      then show ?thesis using False by (metis fun_upd_other not_None_eq)
    qed
  qed
  show "get_book_id m pair = None" "get_pair m book = None" by fact+
qed

end
