(* ===== verification/User_Registry.thy ===== *)
theory User_Registry
  imports Balance
begin

text \<open>
  The user registry (\<open>user/mod.rs\<close>): principals with a compact user id, and trading accounts that
  act for a funding account. The stable maps are keyed by the principal; \<open>Principal::anonymous()\<close>
  and \<open>Principal::management_canister()\<close> belong to the \<open>candid\<close> crate and are parameters.
\<close>

section \<open>State and operations\<close>

record principal_consts =
  pc_anonymous :: principal
  pc_management_canister :: principal

definition MAX_TRADING_ACCOUNTS_PER_USER :: nat where
  "MAX_TRADING_ACCOUNTS_PER_USER = 4"

text \<open>\<open>Duration::from_secs(60 * 60).as_nanos()\<close>\<close>

definition TRADING_ACCOUNT_GRANT_COOLDOWN :: u128 where
  "TRADING_ACCOUNT_GRANT_COOLDOWN = 3600000000000"

record trading_grant =
  tg_funding :: principal

record trading_account_list =
  tl_accounts :: "principal list"
  tl_last_granted_at :: timestamp

datatype grant_error =
    GranterNotRegistered | SelfGrant | NonAuthenticatingTradingAccount | AlreadyTradingAccount
  | AlreadyRegisteredUser | GranterIsTradingAccount | TooManyTradingAccounts | CooldownActive u64

datatype revoke_error = NotAllowed

datatype user_account = Funding user_id principal | Trading principal trading_grant

definition effective_principal :: "user_account \<Rightarrow> principal" where
  "effective_principal a = (case a of Funding _ p \<Rightarrow> p | Trading _ grant \<Rightarrow> tg_funding grant)"

definition funding_id :: "user_account \<Rightarrow> user_id option" where
  "funding_id a = (case a of Funding i _ \<Rightarrow> Some i | Trading _ _ \<Rightarrow> None)"

record user_registry =
  ur_users :: "(principal, user_id) btree_map"
  ur_trading_accounts :: "(principal, trading_grant) btree_map"
  ur_by_funding :: "(user_id, trading_account_list) btree_map"

definition user_registry_new :: user_registry where
  "user_registry_new = \<lparr>ur_users = [], ur_trading_accounts = [], ur_by_funding = []\<rparr>"

definition get_or_register :: "principal \<Rightarrow> user_registry \<Rightarrow> user_id \<times> user_registry" where
  "get_or_register p r =
     (case bt_get (ur_users r) p of
        Some i \<Rightarrow> (i, r)
      | None \<Rightarrow>
          let i = of_nat (length (ur_users r))
          in (i, r\<lparr>ur_users := bt_insert p i (ur_users r)\<rparr>))"

definition registry_lookup :: "user_registry \<Rightarrow> principal \<Rightarrow> user_account option" where
  "registry_lookup r p =
     (case bt_get (ur_trading_accounts r) p of
        Some grant \<Rightarrow> Some (Trading p grant)
      | None \<Rightarrow> map_option (\<lambda>i. Funding i p) (bt_get (ur_users r) p))"

definition lookup_funding_id :: "user_registry \<Rightarrow> principal \<Rightarrow> user_id option" where
  "lookup_funding_id r p = Option.bind (registry_lookup r p) funding_id"

definition validate_add_trading_account ::
  "principal_consts \<Rightarrow> principal \<Rightarrow> principal \<Rightarrow> timestamp \<Rightarrow> user_registry \<Rightarrow> grant_error + unit" where
  "validate_add_trading_account pc funding trading now r =
     (case registry_lookup r funding of
        Some (Trading _ _) \<Rightarrow> Inl GranterIsTradingAccount
      | None \<Rightarrow> Inl GranterNotRegistered
      | Some (Funding funding_i _) \<Rightarrow>
          if trading = funding then Inl SelfGrant
          else if trading = pc_anonymous pc \<or> trading = pc_management_canister pc
          then Inl NonAuthenticatingTradingAccount
          else
            (case registry_lookup r trading of
               Some (Trading _ _) \<Rightarrow> Inl AlreadyTradingAccount
             | Some (Funding _ _) \<Rightarrow> Inl AlreadyRegisteredUser
             | None \<Rightarrow>
                 (case bt_get (ur_by_funding r) funding_i of
                    Some list \<Rightarrow>
                      if MAX_TRADING_ACCOUNTS_PER_USER \<le> length (tl_accounts list) then Inl TooManyTradingAccounts
                      else
                        let elapsed = ucast (saturating_sub now (tl_last_granted_at list)) :: u128
                        in if elapsed < TRADING_ACCOUNT_GRANT_COOLDOWN
                           then Inl (CooldownActive (ucast (TRADING_ACCOUNT_GRANT_COOLDOWN - elapsed)))
                           else Inr ()
                  | None \<Rightarrow> Inr ())))"

definition validate_remove_trading_account ::
  "principal \<Rightarrow> principal \<Rightarrow> user_registry \<Rightarrow> revoke_error + unit" where
  "validate_remove_trading_account funding trading r =
     (case bt_get (ur_trading_accounts r) trading of
        Some grant \<Rightarrow> if tg_funding grant = funding then Inr () else Inl NotAllowed
      | None \<Rightarrow> Inl NotAllowed)"

definition record_add_trading_account ::
  "principal \<Rightarrow> principal \<Rightarrow> timestamp \<Rightarrow> user_registry \<Rightarrow> user_registry option" where
  "record_add_trading_account funding trading now r = do {
     i \<leftarrow> lookup_funding_id r funding;
     let grants = bt_insert trading \<lparr>tg_funding = funding\<rparr> (ur_trading_accounts r);
     let list = (case bt_get (ur_by_funding r) i of
                   Some l \<Rightarrow> l | None \<Rightarrow> \<lparr>tl_accounts = [], tl_last_granted_at = 0\<rparr>);
     let list' = list\<lparr>tl_accounts := tl_accounts list @ [trading], tl_last_granted_at := now\<rparr>;
     Some (r\<lparr>ur_trading_accounts := grants, ur_by_funding := bt_insert i list' (ur_by_funding r)\<rparr>)
   }"

definition record_remove_trading_account ::
  "principal \<Rightarrow> principal \<Rightarrow> user_registry \<Rightarrow> user_registry option" where
  "record_remove_trading_account funding trading r = do {
     i \<leftarrow> lookup_funding_id r funding;
     _ \<leftarrow> bt_get (ur_trading_accounts r) trading;
     list \<leftarrow> bt_get (ur_by_funding r) i;
     let list' = list\<lparr>tl_accounts := filter (\<lambda>p. p \<noteq> trading) (tl_accounts list)\<rparr>;
     Some (r\<lparr>ur_trading_accounts := bt_remove trading (ur_trading_accounts r),
             ur_by_funding := bt_insert i list' (ur_by_funding r)\<rparr>)
   }"

definition trading_accounts_of :: "user_registry \<Rightarrow> principal \<Rightarrow> principal list" where
  "trading_accounts_of r funding =
     (case Option.bind (lookup_funding_id r funding) (bt_get (ur_by_funding r)) of
        Some list \<Rightarrow> tl_accounts list | None \<Rightarrow> [])"

section \<open>The invariant\<close>

text \<open>User ids are dense and belong to one principal each, no principal is both a funding and a
  trading account, and the list of every funding account names exactly its trading accounts.\<close>

definition users_ok :: "user_registry \<Rightarrow> bool" where
  "users_ok r \<longleftrightarrow> bt_ok (ur_users r) \<and>
     (\<forall>p q i. bt_get (ur_users r) p = Some i \<longrightarrow> bt_get (ur_users r) q = Some i \<longrightarrow> p = q) \<and>
     (\<forall>p i. bt_get (ur_users r) p = Some i \<longrightarrow> unat i < length (ur_users r)) \<and>
     (\<forall>i l. bt_get (ur_by_funding r) i = Some l \<longrightarrow> unat i < length (ur_users r))"

definition grants_ok :: "user_registry \<Rightarrow> bool" where
  "grants_ok r \<longleftrightarrow> bt_ok (ur_trading_accounts r) \<and> bt_ok (ur_by_funding r) \<and>
     (\<forall>t g. bt_get (ur_trading_accounts r) t = Some g \<longrightarrow>
        bt_get (ur_users r) t = None \<and> bt_get (ur_users r) (tg_funding g) \<noteq> None) \<and>
     (\<forall>i l. bt_get (ur_by_funding r) i = Some l \<longrightarrow>
        distinct (tl_accounts l) \<and> length (tl_accounts l) \<le> MAX_TRADING_ACCOUNTS_PER_USER) \<and>
     (\<forall>p i t. bt_get (ur_users r) p = Some i \<longrightarrow>
        (\<exists>l. bt_get (ur_by_funding r) i = Some l \<and> t \<in> set (tl_accounts l)) =
        (bt_get (ur_trading_accounts r) t = Some \<lparr>tg_funding = p\<rparr>))"

definition registry_ok :: "user_registry \<Rightarrow> bool" where
  "registry_ok r \<longleftrightarrow> users_ok r \<and> grants_ok r"

lemma registry_ok_new: "registry_ok user_registry_new"
  by (simp add: registry_ok_def users_ok_def grants_ok_def user_registry_new_def)

lemma lookup_funding_id_eq:
  assumes "registry_ok r"
  shows "lookup_funding_id r p = bt_get (ur_users r) p"
proof (cases "bt_get (ur_trading_accounts r) p")
  case None
  then show ?thesis by (cases "bt_get (ur_users r) p") (simp_all add: lookup_funding_id_def registry_lookup_def funding_id_def)
next
  case (Some g)
  then have "bt_get (ur_users r) p = None" using assms by (simp add: registry_ok_def grants_ok_def)
  then show ?thesis by (simp add: lookup_funding_id_def registry_lookup_def funding_id_def Some)
qed

lemma funding_id_unique:
  assumes "registry_ok r" "lookup_funding_id r p = Some i" "lookup_funding_id r q = Some i"
  shows "p = q"
  using assms unfolding lookup_funding_id_eq [OF assms(1)] by (auto simp: registry_ok_def users_ok_def)

lemma registry_lookup_eq:
  "registry_lookup r p = None \<longleftrightarrow> bt_get (ur_trading_accounts r) p = None \<and> bt_get (ur_users r) p = None"
  "registry_lookup r p = Some (Funding i q) \<longleftrightarrow>
     bt_get (ur_trading_accounts r) p = None \<and> bt_get (ur_users r) p = Some i \<and> q = p"
  "registry_lookup r p = Some (Trading q g) \<longleftrightarrow> bt_get (ur_trading_accounts r) p = Some g \<and> q = p"
  by (auto simp: registry_lookup_def split: option.split)

section \<open>Registration\<close>

lemma get_or_register_known:
  "bt_get (ur_users r) p = Some i \<Longrightarrow> get_or_register p r = (i, r)"
  by (simp add: get_or_register_def)

lemma get_or_register_ok:
  assumes "registry_ok r" "bt_get (ur_trading_accounts r) p = None" "length (ur_users r) < 2 ^ 64"
  shows "\<exists>i r'. get_or_register p r = (i, r') \<and> registry_ok r' \<and>
    bt_get (ur_users r') = (bt_get (ur_users r))(p \<mapsto> i) \<and>
    ur_trading_accounts r' = ur_trading_accounts r \<and> ur_by_funding r' = ur_by_funding r"
proof (cases "bt_get (ur_users r) p")
  case (Some i)
  then show ?thesis using assms(1) by (auto simp: get_or_register_def fun_eq_iff)
next
  case None
  let ?i = "of_nat (length (ur_users r)) :: user_id"
  let ?r = "r\<lparr>ur_users := bt_insert p ?i (ur_users r)\<rparr>"
  have i: "unat ?i = length (ur_users r)" using assms(3) by (simp add: unat_of_nat_small)
  have u: "users_ok r" and g: "grants_ok r" using assms(1) by (simp_all add: registry_ok_def)
  have old: "unat j < length (ur_users r)" if "bt_get (ur_users r) q = Some j" for q j
    using u that by (auto simp: users_ok_def)
  have fresh: "bt_get (ur_users r) q \<noteq> Some ?i" for q using old [of q ?i] i by auto
  have fresh_list: "bt_get (ur_by_funding r) ?i = None"
    using u i by (cases "bt_get (ur_by_funding r) ?i") (auto simp: users_ok_def)
  have len: "length (bt_insert p ?i (ur_users r)) = Suc (length (ur_users r))"
    by (rule length_bt_insert_new [OF None])
  have "users_ok ?r"
    using u i fresh by (auto simp: users_ok_def len intro: less_SucI)
  moreover have "grants_ok ?r"
    using g assms(2) fresh_list None
    unfolding grants_ok_def by (auto split: if_splits) (metis option.simps(3) trading_grant.select_convs(1))+
  ultimately show ?thesis using None by (auto simp: get_or_register_def registry_ok_def Let_def fun_eq_iff)
qed

section \<open>Grants\<close>

text \<open>When a grant is accepted: the granter is a registered funding account, the trading account
  is a fresh principal that can authenticate, and neither the cap nor the cooldown stands in
  the way.\<close>

definition cooldown_over :: "timestamp \<Rightarrow> timestamp \<Rightarrow> bool" where
  "cooldown_over prev now \<longleftrightarrow> 3600000000000 \<le> unat now - unat prev"

lemma cooldown_over_iff:
  "(ucast (saturating_sub now prev) :: u128) < TRADING_ACCOUNT_GRANT_COOLDOWN \<longleftrightarrow> \<not> cooldown_over prev now"
proof -
  have "unat (saturating_sub now prev) < 2 ^ 128" using unat_u64_bound [of "saturating_sub now prev"] by simp
  then have "unat (ucast (saturating_sub now prev) :: u128) = unat now - unat prev"
    by (simp add: unat_ucast_small unat_saturating_sub)
  then show ?thesis
    by (simp add: word_less_nat_alt not_le cooldown_over_def TRADING_ACCOUNT_GRANT_COOLDOWN_def)
qed

lemma validate_add_trading_account_Inr:
  "validate_add_trading_account pc funding trading now r = Inr () \<longleftrightarrow>
     (\<exists>i. registry_lookup r funding = Some (Funding i funding) \<and> trading \<noteq> funding \<and>
        trading \<noteq> pc_anonymous pc \<and> trading \<noteq> pc_management_canister pc \<and> registry_lookup r trading = None \<and>
        (\<forall>l. bt_get (ur_by_funding r) i = Some l \<longrightarrow>
           length (tl_accounts l) < MAX_TRADING_ACCOUNTS_PER_USER \<and> cooldown_over (tl_last_granted_at l) now))"
proof (cases "registry_lookup r funding")
  case None
  then show ?thesis by (simp add: validate_add_trading_account_def)
next
  case (Some a)
  show ?thesis
  proof (cases a)
    case (Trading p g)
    then show ?thesis using Some by (simp add: validate_add_trading_account_def)
  next
    case (Funding i p)
    then have p: "p = funding" using Some by (simp add: registry_lookup_eq)
    show ?thesis
      unfolding validate_add_trading_account_def Some Funding p
      by (simp add: Let_def cooldown_over_iff not_le split: option.split user_account.split)
  qed
qed

lemma grants_okD:
  assumes "registry_ok r" "bt_get (ur_users r) p = Some i"
  shows "(\<exists>m. bt_get (ur_by_funding r) i = Some m \<and> t \<in> set (tl_accounts m)) =
    (bt_get (ur_trading_accounts r) t = Some \<lparr>tg_funding = p\<rparr>)"
  using assms unfolding registry_ok_def grants_ok_def by blast

text \<open>
  Both changes of a delegation rewrite one funding account's list and the grants; the registry stays
  well-formed when the new list holds the new grants to that account and the other accounts keep theirs.
\<close>

lemma registry_ok_regrant:
  assumes ok: "registry_ok r" and i: "bt_get (ur_users r) funding = Some i" and g: "bt_ok grants"
    and known: "\<And>t gr. bt_get grants t = Some gr \<Longrightarrow> bt_get (ur_users r) t = None \<and> bt_get (ur_users r) (tg_funding gr) \<noteq> None"
    and l: "distinct (tl_accounts l)" "length (tl_accounts l) \<le> MAX_TRADING_ACCOUNTS_PER_USER"
    and mem: "\<And>t. t \<in> set (tl_accounts l) \<longleftrightarrow> bt_get grants t = Some \<lparr>tg_funding = funding\<rparr>"
    and same: "\<And>t p. p \<noteq> funding \<Longrightarrow> bt_get grants t = Some \<lparr>tg_funding = p\<rparr> \<longleftrightarrow>
      bt_get (ur_trading_accounts r) t = Some \<lparr>tg_funding = p\<rparr>"
  shows "registry_ok (r\<lparr>ur_trading_accounts := grants, ur_by_funding := bt_insert i l (ur_by_funding r)\<rparr>)"
proof -
  let ?r = "r\<lparr>ur_trading_accounts := grants, ur_by_funding := bt_insert i l (ur_by_funding r)\<rparr>"
  have u: "users_ok r" and gr: "grants_ok r" using ok by (simp_all add: registry_ok_def)
  have "users_ok ?r" using u i by (auto simp: users_ok_def split: if_splits)
  moreover have "grants_ok ?r"
    unfolding grants_ok_def
  proof (intro conjI allI impI)
    show "bt_ok (ur_trading_accounts ?r)" "bt_ok (ur_by_funding ?r)" using g gr by (simp_all add: grants_ok_def)
    fix t x assume "bt_get (ur_trading_accounts ?r) t = Some x"
    then show "bt_get (ur_users ?r) t = None" "bt_get (ur_users ?r) (tg_funding x) \<noteq> None" using known by simp_all
  next
    fix j m assume "bt_get (ur_by_funding ?r) j = Some m"
    then show "distinct (tl_accounts m)" "length (tl_accounts m) \<le> MAX_TRADING_ACCOUNTS_PER_USER"
      using gr l by (auto simp: grants_ok_def split: if_splits)
  next
    fix p j t assume "bt_get (ur_users ?r) p = Some j"
    then have p: "bt_get (ur_users r) p = Some j" by simp
    have "j = i \<longleftrightarrow> p = funding" using u i p by (auto simp: users_ok_def)
    then show "(\<exists>m. bt_get (ur_by_funding ?r) j = Some m \<and> t \<in> set (tl_accounts m)) =
        (bt_get (ur_trading_accounts ?r) t = Some \<lparr>tg_funding = p\<rparr>)"
      using mem [of t] same [of p t] grants_okD [OF ok p, of t] by auto
  qed
  ultimately show ?thesis by (simp add: registry_ok_def)
qed

lemma record_add_trading_account_ok:
  assumes ok: "registry_ok r" and v: "validate_add_trading_account pc funding trading now r = Inr ()"
  shows "\<exists>r'. record_add_trading_account funding trading now r = Some r' \<and> registry_ok r' \<and>
    ur_users r' = ur_users r \<and>
    bt_get (ur_trading_accounts r') = (bt_get (ur_trading_accounts r))(trading \<mapsto> \<lparr>tg_funding = funding\<rparr>) \<and>
    trading_accounts_of r' funding = trading_accounts_of r funding @ [trading]"
proof -
  obtain i where i: "bt_get (ur_users r) funding = Some i" "trading \<noteq> funding"
      "bt_get (ur_trading_accounts r) trading = None" "bt_get (ur_users r) trading = None"
      and cap: "\<And>l. bt_get (ur_by_funding r) i = Some l \<Longrightarrow> length (tl_accounts l) < MAX_TRADING_ACCOUNTS_PER_USER"
    using v by (auto simp: validate_add_trading_account_Inr registry_lookup_eq)
  have g: "grants_ok r" using ok by (simp add: registry_ok_def)
  define l where "l = (case bt_get (ur_by_funding r) i of
      Some l \<Rightarrow> l | None \<Rightarrow> \<lparr>tl_accounts = [], tl_last_granted_at = 0\<rparr>)"
  define l' where "l' = l\<lparr>tl_accounts := tl_accounts l @ [trading], tl_last_granted_at := now\<rparr>"
  define r' where "r' = r\<lparr>ur_trading_accounts := bt_insert trading \<lparr>tg_funding = funding\<rparr> (ur_trading_accounts r),
      ur_by_funding := bt_insert i l' (ur_by_funding r)\<rparr>"
  have rec: "record_add_trading_account funding trading now r = Some r'"
    by (simp add: record_add_trading_account_def lookup_funding_id_eq [OF ok] i(1) r'_def l'_def l_def Let_def)
  have mem: "t \<in> set (tl_accounts l) \<longleftrightarrow> bt_get (ur_trading_accounts r) t = Some \<lparr>tg_funding = funding\<rparr>" for t
    using grants_okD [OF ok i(1), of t] by (auto simp: l_def split: option.splits)
  have dl: "distinct (tl_accounts l) \<and> length (tl_accounts l) < MAX_TRADING_ACCOUNTS_PER_USER"
    using g cap by (auto simp: l_def grants_ok_def MAX_TRADING_ACCOUNTS_PER_USER_def split: option.splits)
  have ok': "registry_ok r'"
    unfolding r'_def
    by (rule registry_ok_regrant [OF ok i(1)]) (use g i dl mem in \<open>auto simp: grants_ok_def l'_def split: if_splits\<close>)
  have "trading_accounts_of r' funding = trading_accounts_of r funding @ [trading]"
    by (auto simp: trading_accounts_of_def lookup_funding_id_eq [OF ok] lookup_funding_id_eq [OF ok'])
       (auto simp: r'_def i(1) l'_def l_def split: option.split)
  then show ?thesis using rec ok' by (auto simp: r'_def fun_eq_iff)
qed

lemma record_remove_trading_account_ok:
  assumes ok: "registry_ok r" and v: "validate_remove_trading_account funding trading r = Inr ()"
  shows "\<exists>r'. record_remove_trading_account funding trading r = Some r' \<and> registry_ok r' \<and>
    ur_users r' = ur_users r \<and>
    bt_get (ur_trading_accounts r') = (bt_get (ur_trading_accounts r))(trading := None) \<and>
    trading_accounts_of r' funding = filter (\<lambda>p. p \<noteq> trading) (trading_accounts_of r funding)"
proof -
  have t: "bt_get (ur_trading_accounts r) trading = Some \<lparr>tg_funding = funding\<rparr>"
    using v by (auto simp: validate_remove_trading_account_def trading_grant.equality split: option.splits if_splits)
  have g: "grants_ok r" using ok by (simp add: registry_ok_def)
  obtain i where i: "bt_get (ur_users r) funding = Some i" and nt: "bt_get (ur_users r) trading = None"
    using g t unfolding grants_ok_def by (metis not_None_eq trading_grant.select_convs(1))
  note member = grants_okD [OF ok i]
  obtain l where l: "bt_get (ur_by_funding r) i = Some l" "trading \<in> set (tl_accounts l)"
      and mem: "\<And>x. x \<in> set (tl_accounts l) \<longleftrightarrow> bt_get (ur_trading_accounts r) x = Some \<lparr>tg_funding = funding\<rparr>"
    using member t by (metis option.inject)
  define l' where "l' = l\<lparr>tl_accounts := filter (\<lambda>p. p \<noteq> trading) (tl_accounts l)\<rparr>"
  define r' where "r' = r\<lparr>ur_trading_accounts := bt_remove trading (ur_trading_accounts r),
      ur_by_funding := bt_insert i l' (ur_by_funding r)\<rparr>"
  have rec: "record_remove_trading_account funding trading r = Some r'"
    by (simp add: record_remove_trading_account_def lookup_funding_id_eq [OF ok] i t l(1) r'_def l'_def Let_def)
  have dl: "distinct (tl_accounts l) \<and> length (tl_accounts l) \<le> MAX_TRADING_ACCOUNTS_PER_USER"
    using g l(1) by (auto simp: grants_ok_def)
  have ok': "registry_ok r'"
    unfolding r'_def
    by (rule registry_ok_regrant [OF ok i])
       (use g t dl mem in \<open>auto simp: grants_ok_def l'_def le_trans [OF length_filter_le] split: if_splits\<close>)
  have "trading_accounts_of r' funding = filter (\<lambda>p. p \<noteq> trading) (trading_accounts_of r funding)"
    by (simp add: trading_accounts_of_def lookup_funding_id_eq [OF ok] lookup_funding_id_eq [OF ok'])
       (simp add: r'_def i l l'_def)
  then show ?thesis using rec ok' by (auto simp: r'_def fun_eq_iff)
qed

end
