(* ===== verification/Trade_State.thy ===== *)
theory Trade_State
  imports Access User_Registry Settlement Order_Book
begin

text \<open>
  The canister state and its operations (\<open>state/mod.rs\<close>) with the payload types of the event log
  (\<open>state/event/mod.rs\<close>, \<open>oisy_trade_types_internal\<close>). Heap and stable memory are fields of one
  record; \<open>StableMemoryOptions\<close> is the datatype of the same name. The operations that only forward
  to one field are the record selectors.
\<close>

section \<open>Events\<close>

record init_arg =
  ia_mode :: mode
  ia_max_orders_per_chunk :: u32
  ia_instruction_budget :: u64
  ia_max_settlement_units_per_event :: "u32 option"

record upgrade_arg =
  ua_mode :: "mode option"
  ua_max_orders_per_chunk :: "u32 option"
  ua_instruction_budget :: "u64 option"
  ua_max_settlement_units_per_event :: "u32 option"

record add_trading_pair_event =
  ap_book_id :: order_book_id
  ap_base :: token_id
  ap_quote :: token_id
  ap_tick_size :: u128
  ap_lot_size :: u64
  ap_base_metadata :: token_metadata
  ap_quote_metadata :: token_metadata
  ap_fee_rates :: fee_rates
  ap_min_notional :: quantity
  ap_max_notional :: "quantity option"

record deposit_event =
  de_user :: principal
  de_token :: token_id
  de_amount :: quantity

record withdraw_event =
  we_block_index :: u64
  we_user :: principal
  we_token :: token_id
  we_amount :: quantity

record add_limit_order_event =
  ao_user :: principal
  ao_order_id :: order_id
  ao_side :: side
  ao_price :: price
  ao_quantity :: quantity
  ao_tif :: time_in_force
  ao_placed_by :: "principal option"

record matching_event =
  me_book_id :: order_book_id
  me_orders :: "order_seq list"

record settling_event =
  se_book_id :: order_book_id
  se_operations :: "balance_operation list"
  se_fills :: "fill_event list"

record cancel_limit_order_event =
  ce_order_id :: order_id
  ce_canceled_by :: "principal option"

record set_halt_event =
  sh_book_ids :: "order_book_id list option"
  sh_halted :: bool

record trading_account_event =
  ta_funding :: principal
  ta_trading :: principal

datatype event_type =
    Ev_Init init_arg
  | Ev_Upgrade upgrade_arg
  | Ev_AddTradingPair add_trading_pair_event
  | Ev_Deposit deposit_event
  | Ev_AddLimitOrder add_limit_order_event
  | Ev_Settling settling_event
  | Ev_Matching matching_event
  | Ev_Withdraw withdraw_event
  | Ev_CancelLimitOrder cancel_limit_order_event
  | Ev_SetHalt set_halt_event
  | Ev_AddTradingAccount trading_account_event
  | Ev_RemoveTradingAccount trading_account_event

record event =
  ev_timestamp :: timestamp
  ev_payload :: event_type

section \<open>State\<close>

datatype stable_memory_options = Write | Skip

datatype task = ProcessPendingOrders

record trade_state =
  st_mode :: mode
  st_policy :: execution_policy
  st_next_book_id :: order_book_id
  st_tokens :: "(token_id, token_metadata) btree_map"
  st_pairs :: trading_pair_map
  st_books :: "(order_book_id, order_book) btree_map"
  st_registry :: user_registry
  st_balances :: token_balance
  st_orders :: order_history
  st_trades :: trade_history
  st_fee_cache :: "(token_id, nat) btree_map"
  st_settling :: "settling_event list"
  st_tasks :: "task set"
  st_in_flight :: "(principal \<times> token_id) set"
  st_permissions :: permissions

definition state_new ::
  "init_arg \<Rightarrow> order_history \<Rightarrow> trade_history \<Rightarrow> user_registry \<Rightarrow> token_balance \<Rightarrow> policy_error + trade_state" where
  "state_new arg orders trades registry balances =
     (case policy_try_new (ia_max_orders_per_chunk arg) (ia_instruction_budget arg)
             (case ia_max_settlement_units_per_event arg of
                Some n \<Rightarrow> n | None \<Rightarrow> DEFAULT_MAX_SETTLEMENT_UNITS_PER_EVENT) of
        Inl e \<Rightarrow> Inl e
      | Inr policy \<Rightarrow>
          Inr \<lparr>st_mode = ia_mode arg, st_policy = policy, st_next_book_id = 0, st_tokens = [], st_pairs = [],
               st_books = [], st_registry = registry, st_balances = balances, st_orders = orders,
               st_trades = trades, st_fee_cache = [], st_settling = [], st_tasks = {}, st_in_flight = {},
               st_permissions = permissions_default\<rparr>)"

text \<open>\<open>assert_caller_is_allowed\<close>: a trap for a caller outside the mode.\<close>

definition assert_caller_is_allowed :: "runtime \<Rightarrow> trade_state \<Rightarrow> unit option" where
  "assert_caller_is_allowed rt s = ensure (caller_is_allowed (st_mode s) rt)"

definition base_scale :: "trade_state \<Rightarrow> token_id \<Rightarrow> u64 option" where
  "base_scale s base = do {
     metadata \<leftarrow> bt_get (st_tokens s) base;
     scale \<leftarrow> checked_pow 10 (unat (decimals metadata));
     ensure (scale \<noteq> (0 :: u64));
     Some scale
   }"

definition base_scale_for_book :: "trade_state \<Rightarrow> order_book_id \<Rightarrow> u64 option" where
  "base_scale_for_book s book = do {
     pair \<leftarrow> get_pair (st_pairs s) book;
     base_scale s (tp_base pair)
   }"

section \<open>Orders\<close>

datatype add_limit_order_error =
    AmountExceedsMaximum
  | UnknownTradingPair
  | InvalidOrder match_order_error
  | InsufficientBalance token_id quantity quantity
  | InvalidNotional quantity quantity "quantity option"
  | TradingHalted

definition get_user_balance :: "trade_state \<Rightarrow> principal \<Rightarrow> token_id \<Rightarrow> balance option" where
  "get_user_balance s user token =
     Option.bind (lookup_funding_id (st_registry s) user) (\<lambda>u. get_balance (st_balances s) u token)"

definition validate_limit_order ::
  "principal \<Rightarrow> trading_pair \<Rightarrow> pending_order \<Rightarrow> trade_state \<Rightarrow>
   (add_limit_order_error + (order_id \<times> order)) option" where
  "validate_limit_order user pair pending s =
     (case get_book_id (st_pairs s) pair of
        None \<Rightarrow> Some (Inl UnknownTradingPair)
      | Some book_id \<Rightarrow> do {
          book \<leftarrow> bt_get (st_books s) book_id;
          validated \<leftarrow> validate_order book (po_price pending) (po_quantity pending);
          (case validated of
             Inl e \<Rightarrow> Some (Inl (InvalidOrder e))
           | Inr _ \<Rightarrow> do {
               scale \<leftarrow> base_scale s (tp_base pair);
               product \<leftarrow> checked_mul_quantity_scaled (po_price pending) (po_quantity pending) scale;
               (case product of
                  None \<Rightarrow> Some (Inl AmountExceedsMaximum)
                | Some amount \<Rightarrow>
                    (case check_notional book amount of
                       Inl e \<Rightarrow> Some (Inl (InvalidNotional (ne_notional e) (ne_min e) (ne_max e)))
                     | Inr _ \<Rightarrow>
                         let (token, required) =
                               (case po_side pending of
                                  Buy \<Rightarrow> (tp_quote pair, amount) | Sell \<Rightarrow> (tp_base pair, po_quantity pending));
                             free = (case get_user_balance s user token of
                                       None \<Rightarrow> quantity_ZERO | Some b \<Rightarrow> bal_free b)
                         in if free < required then Some (Inl (InsufficientBalance token free required))
                            else let i = (book_id, bk_next_seq book)
                                 in Some (Inr (i, into_order pending (snd i)))))
             })
        })"

definition initial_record :: "principal \<Rightarrow> order \<Rightarrow> principal option \<Rightarrow> timestamp \<Rightarrow> order_record" where
  "initial_record user ord placed_by now =
     \<lparr>or_owner = user, or_side = ord_side ord, or_price = ord_price ord, or_quantity = ord_remaining ord,
      or_status = Pending, or_created_at = now, or_filled_quantity = quantity_ZERO, or_last_updated_at = None,
      or_time_in_force = ord_tif ord, or_filled_quote = quantity_ZERO, or_filled_fee = quantity_ZERO,
      or_placed_by = placed_by, or_canceled_by = None\<rparr>"

text \<open>What an order locks: a buyer the quote value at its limit, a seller the base quantity.\<close>

definition order_requirement :: "trading_pair \<Rightarrow> u64 \<Rightarrow> order \<Rightarrow> (token_id \<times> quantity) option" where
  "order_requirement pair scale ord =
     (case ord_side ord of
        Buy \<Rightarrow> do {
          amount \<leftarrow> expect_notional (ord_price ord) (ord_remaining ord) scale;
          Some (tp_quote pair, amount)
        }
      | Sell \<Rightarrow> Some (tp_base pair, ord_remaining ord))"

definition reserve_and_record ::
  "principal \<Rightarrow> order_book_id \<Rightarrow> order \<Rightarrow> principal option \<Rightarrow> timestamp \<Rightarrow> token_id \<Rightarrow> quantity \<Rightarrow>
   trade_state \<Rightarrow> trade_state option" where
  "reserve_and_record user book_id ord placed_by now token required s = do {
     user_id \<leftarrow> lookup_funding_id (st_registry s) user;
     (reserved, balances) \<leftarrow> tb_reserve user_id token required (st_balances s);
     _ \<leftarrow> expect_ok reserved;
     orders \<leftarrow> insert_once user_id (book_id, ord_id ord) (initial_record user ord placed_by now) (st_orders s);
     Some (s\<lparr>st_balances := balances, st_orders := orders\<rparr>)
   }"

definition record_limit_order ::
  "principal \<Rightarrow> order_book_id \<Rightarrow> order \<Rightarrow> principal option \<Rightarrow> timestamp \<Rightarrow> stable_memory_options \<Rightarrow>
   trade_state \<Rightarrow> trade_state option" where
  "record_limit_order user book_id ord placed_by now persistence s = do {
     pair \<leftarrow> get_pair (st_pairs s) book_id;
     scale \<leftarrow> base_scale s (tp_base pair);
     book \<leftarrow> bt_get (st_books s) book_id;
     (token, required) \<leftarrow> order_requirement pair scale ord;
     s' \<leftarrow> (case persistence of
              Skip \<Rightarrow> Some s
            | Write \<Rightarrow> reserve_and_record user book_id ord placed_by now token required s);
     book' \<leftarrow> add_pending_order ord book;
     Some (s'\<lparr>st_books := bt_insert book_id book' (st_books s')\<rparr>)
   }"

datatype cancel_limit_order_error = OrderNotFound | NotOrderOwner | OrderAlreadyTerminal

definition validate_cancel_limit_order ::
  "principal \<Rightarrow> order_id \<Rightarrow> trade_state \<Rightarrow> cancel_limit_order_error + unit" where
  "validate_cancel_limit_order owner i s =
     (case history_get (st_orders s) i of
        None \<Rightarrow> Inl OrderNotFound
      | Some record \<Rightarrow>
          if or_owner record \<noteq> owner then Inl NotOrderOwner
          else (case or_status record of
                  Pending \<Rightarrow> Inr () | Open \<Rightarrow> Inr ()
                | Filled \<Rightarrow> Inl OrderAlreadyTerminal | Canceled \<Rightarrow> Inl OrderAlreadyTerminal
                | Expired \<Rightarrow> Inl OrderAlreadyTerminal))"

definition record_cancel_limit_order ::
  "order_id \<Rightarrow> principal option \<Rightarrow> timestamp \<Rightarrow> stable_memory_options \<Rightarrow> trade_state \<Rightarrow> trade_state option" where
  "record_cancel_limit_order i canceled_by now persistence s = do {
     let (book_id, seq) = i;
     scale \<leftarrow> base_scale_for_book s book_id;
     book \<leftarrow> bt_get (st_books s) book_id;
     (found, book') \<leftarrow> remove_order seq book;
     removed \<leftarrow> found;
     let s1 = s\<lparr>st_books := bt_insert book_id book' (st_books s)\<rparr>;
     (case persistence of
        Skip \<Rightarrow> Some s1
      | Write \<Rightarrow> do {
          orders \<leftarrow> apply_update i (update_cancel canceled_by) now (st_orders s1);
          settlement \<leftarrow> removed_settlement_new seq removed scale;
          Some (s1\<lparr>st_orders := orders,
                   st_settling := st_settling s1 @
                     [\<lparr>se_book_id = book_id, se_operations = removed_balance_operations settlement,
                       se_fills = []\<rparr>]\<rparr>)
        })
   }"

section \<open>Matching and settling\<close>

fun apply_updates :: "order_book_id \<Rightarrow> (order_seq \<times> order_update) list \<Rightarrow> timestamp \<Rightarrow> order_history \<Rightarrow> order_history option" where
  "apply_updates book_id [] now h = Some h"
| "apply_updates book_id ((seq, upd) # rest) now h = do {
     h' \<leftarrow> apply_update (book_id, seq) upd now h;
     apply_updates book_id rest now h'
   }"

definition record_matching_event ::
  "matching_event \<Rightarrow> timestamp \<Rightarrow> stable_memory_options \<Rightarrow> trade_state \<Rightarrow> trade_state option" where
  "record_matching_event ev now persistence s = do {
     scale \<leftarrow> base_scale_for_book s (me_book_id ev);
     book \<leftarrow> bt_get (st_books s) (me_book_id ev);
     let rates = bk_fee_rates book;
     (output, book') \<leftarrow> process_pending_orders (me_orders ev) book;
     let s1 = s\<lparr>st_books := bt_insert (me_book_id ev) book' (st_books s)\<rparr>;
     (case persistence of
        Skip \<Rightarrow> Some s1
      | Write \<Rightarrow> do {
          settlement \<leftarrow> from_matching output rates scale (ep_max_settlement_units_per_event (st_policy s));
          orders \<leftarrow> apply_updates (me_book_id ev) (ms_updates settlement) now (st_orders s1);
          Some (s1\<lparr>st_orders := orders,
                   st_settling := st_settling s1 @
                     map (\<lambda>batch. \<lparr>se_book_id = me_book_id ev, se_operations = sb_operations batch,
                                   se_fills = sb_fills batch\<rparr>) (ms_batches settlement)\<rparr>)
        })
   }"

record resolved_order =
  rv_user :: user_id
  rv_side :: side
  rv_price :: price

definition op_seqs :: "balance_operation \<Rightarrow> order_seq list" where
  "op_seqs op = (case op of Transfer from to _ _ _ \<Rightarrow> [from, to] | Unreserve order _ _ \<Rightarrow> [order])"

definition resolve_order :: "order_book_id \<Rightarrow> order_history \<Rightarrow> user_registry \<Rightarrow> order_seq \<Rightarrow> resolved_order option" where
  "resolve_order book_id history registry seq = do {
     record \<leftarrow> history_get history (book_id, seq);
     user \<leftarrow> lookup_funding_id registry (or_owner record);
     Some \<lparr>rv_user = user, rv_side = or_side record, rv_price = or_price record\<rparr>
   }"

fun resolve_seqs ::
  "order_book_id \<Rightarrow> order_history \<Rightarrow> user_registry \<Rightarrow> order_seq list \<Rightarrow> (order_seq, resolved_order) btree_map option" where
  "resolve_seqs book_id history registry [] = Some []"
| "resolve_seqs book_id history registry (seq # rest) = do {
     resolved \<leftarrow> resolve_order book_id history registry seq;
     others \<leftarrow> resolve_seqs book_id history registry rest;
     Some ((seq, resolved) # others)
   }"

definition resolve_op_orders ::
  "order_book_id \<Rightarrow> balance_operation list \<Rightarrow> order_history \<Rightarrow> user_registry \<Rightarrow>
   (order_seq, resolved_order) btree_map option" where
  "resolve_op_orders book_id ops history registry =
     resolve_seqs book_id history registry (sorted_list_of_set (set (concat (map op_seqs ops))))"

fun append_fills ::
  "order_book_id \<Rightarrow> u64 \<Rightarrow> timestamp \<Rightarrow> (order_seq, resolved_order) btree_map \<Rightarrow> fill_event list \<Rightarrow>
   trade_history \<Rightarrow> trade_history option" where
  "append_fills book_id scale now resolved [] h = Some h"
| "append_fills book_id scale now resolved (f # fs) h = do {
     taker \<leftarrow> bt_get resolved (fe_taker f);
     maker \<leftarrow> bt_get resolved (fe_maker f);
     (taker_leg, maker_leg) \<leftarrow> trade_legs f book_id (rv_side taker) (rv_price maker) scale now;
     h' \<leftarrow> trades_append taker_leg (rv_user taker) maker_leg (rv_user maker) h;
     append_fills book_id scale now resolved fs h'
   }"

definition apply_operation ::
  "trading_pair \<Rightarrow> (order_seq, resolved_order) btree_map \<Rightarrow> balance_operation \<Rightarrow> write_back \<Rightarrow> write_back option" where
  "apply_operation pair resolved op wb =
     (let token = trading_pair_token pair (op_token op)
      in case op of
           Transfer from to _ amount fee \<Rightarrow> do {
             debtor \<leftarrow> bt_get resolved from;
             creditor \<leftarrow> bt_get resolved to;
             wb_transfer (rv_user debtor) (rv_user creditor) token amount
               (case fee of None \<Rightarrow> quantity_ZERO | Some f \<Rightarrow> f) wb
           }
         | Unreserve order _ amount \<Rightarrow> do {
             owner \<leftarrow> bt_get resolved order;
             wb_unreserve (rv_user owner) token amount wb
           })"

fun apply_operations ::
  "trading_pair \<Rightarrow> (order_seq, resolved_order) btree_map \<Rightarrow> balance_operation list \<Rightarrow> write_back \<Rightarrow> write_back option" where
  "apply_operations pair resolved [] wb = Some wb"
| "apply_operations pair resolved (op # ops) wb = do {
     wb' \<leftarrow> apply_operation pair resolved op wb;
     apply_operations pair resolved ops wb'
   }"

definition record_settling_event ::
  "settling_event \<Rightarrow> timestamp \<Rightarrow> stable_memory_options \<Rightarrow> trade_state \<Rightarrow> trade_state option" where
  "record_settling_event ev now persistence s =
     (case persistence of
        Skip \<Rightarrow> Some s
      | Write \<Rightarrow> do {
          pair \<leftarrow> get_pair (st_pairs s) (se_book_id ev);
          scale \<leftarrow> base_scale_for_book s (se_book_id ev);
          resolved \<leftarrow> resolve_op_orders (se_book_id ev) (se_operations ev) (st_orders s) (st_registry s);
          trades \<leftarrow> append_fills (se_book_id ev) scale now resolved (se_fills ev) (st_trades s);
          (_, balances) \<leftarrow> with_write_back (\<lambda>wb. do {
              wb' \<leftarrow> apply_operations pair resolved (se_operations ev) wb; Some ((), wb') }) (st_balances s);
          Some (s\<lparr>st_trades := trades, st_balances := balances\<rparr>)
        })"

section \<open>Queries on orders and trades\<close>

fun orders_with_pairs ::
  "trade_state \<Rightarrow> order_id list \<Rightarrow> (order_id \<times> trading_pair \<times> order_record) list option" where
  "orders_with_pairs s [] = Some []"
| "orders_with_pairs s (i # rest) = do {
     record \<leftarrow> history_get (st_orders s) i;
     pair \<leftarrow> get_pair (st_pairs s) (fst i);
     others \<leftarrow> orders_with_pairs s rest;
     Some ((i, pair, record) # others)
   }"

definition get_user_orders ::
  "principal \<Rightarrow> order_id option \<Rightarrow> nat \<Rightarrow> trade_state \<Rightarrow>
   (cursor_not_found + (order_id \<times> trading_pair \<times> order_record) list) option" where
  "get_user_orders owner after_id len s =
     (case lookup_funding_id (st_registry s) owner of
        None \<Rightarrow> Some (case after_id of Some _ \<Rightarrow> Inl CursorNotFound | None \<Rightarrow> Inr [])
      | Some user_id \<Rightarrow>
          (case orders_after user_id after_id len (st_orders s) of
             Inl e \<Rightarrow> Some (Inl e)
           | Inr ids \<Rightarrow> map_option Inr (orders_with_pairs s ids)))"

definition get_user_order ::
  "principal \<Rightarrow> order_id \<Rightarrow> trade_state \<Rightarrow> (order_id \<times> trading_pair \<times> order_record) option option" where
  "get_user_order owner i s =
     (case history_get (st_orders s) i of
        None \<Rightarrow> Some None
      | Some record \<Rightarrow>
          if or_owner record \<noteq> owner then Some None
          else do {
            pair \<leftarrow> get_pair (st_pairs s) (fst i);
            Some (Some (i, pair, record))
          })"

datatype get_user_order_trades_error = GT_OrderNotFound | GT_CursorNotFound

definition get_user_order_trades ::
  "principal \<Rightarrow> order_id \<Rightarrow> trade_id option \<Rightarrow> nat \<Rightarrow> trade_state \<Rightarrow>
   get_user_order_trades_error + (fill_seq \<times> trade_record) list" where
  "get_user_order_trades owner i after_id len s =
     (let owns = (case history_get (st_orders s) i of Some record \<Rightarrow> or_owner record = owner | None \<Rightarrow> False)
      in if \<not> owns then Inl GT_OrderNotFound
         else (case trades_for_order i after_id len (st_trades s) of
                 Inl CursorNotFound \<Rightarrow> Inl GT_CursorNotFound
               | Inr trades \<Rightarrow> Inr trades))"

definition get_user_trades ::
  "principal \<Rightarrow> trade_id option \<Rightarrow> nat \<Rightarrow> trade_state \<Rightarrow>
   (cursor_not_found + (trade_id \<times> trade_record) list) option" where
  "get_user_trades owner after_id len s =
     (case lookup_funding_id (st_registry s) owner of
        None \<Rightarrow> Some (Inr [])
      | Some user_id \<Rightarrow> trades_after user_id after_id len (st_trades s))"

section \<open>Pairs and tokens\<close>

definition has_trading_pair :: "trade_state \<Rightarrow> trading_pair \<Rightarrow> bool" where
  "has_trading_pair s pair = pair_map_contains (st_pairs s) pair"

definition record_token :: "token_id \<Rightarrow> token_metadata \<Rightarrow> trade_state \<Rightarrow> trade_state option" where
  "record_token token metadata s =
     (case bt_get (st_tokens s) token of
        Some existing \<Rightarrow> do { ensure (existing = metadata); Some s }
      | None \<Rightarrow> Some (s\<lparr>st_tokens := bt_insert token metadata (st_tokens s)\<rparr>))"

definition record_trading_pair ::
  "order_book_id \<Rightarrow> trading_pair \<Rightarrow> token_metadata \<Rightarrow> token_metadata \<Rightarrow> u128 \<Rightarrow> u64 \<Rightarrow> quantity \<Rightarrow>
   quantity option \<Rightarrow> fee_rates \<Rightarrow> trade_state \<Rightarrow> trade_state option" where
  "record_trading_pair book_id pair base_metadata quote_metadata tick lot min_notional max_notional rates s = do {
     s1 \<leftarrow> record_token (tp_base pair) base_metadata s;
     s2 \<leftarrow> record_token (tp_quote pair) quote_metadata s1;
     ensure (book_id = st_next_book_id s2);
     let book = book_new book_id tick lot min_notional max_notional rates;
     pairs \<leftarrow> pair_map_insert pair book_id (st_pairs s2);
     ensure (bt_get (st_books s2) book_id = None);
     next_id \<leftarrow> seq_increment (st_next_book_id s2);
     Some (s2\<lparr>st_pairs := pairs, st_books := bt_insert book_id book (st_books s2), st_next_book_id := next_id\<rparr>)
   }"

record inconsistent_metadata =
  im_token :: token_id
  im_expected :: token_metadata
  im_submitted :: token_metadata

definition check_token_metadata_consistency ::
  "token_id \<Rightarrow> token_metadata \<Rightarrow> trade_state \<Rightarrow> inconsistent_metadata + unit" where
  "check_token_metadata_consistency token submitted s =
     (case bt_get (st_tokens s) token of
        Some existing \<Rightarrow>
          if existing \<noteq> submitted
          then Inl \<lparr>im_token = token, im_expected = existing, im_submitted = submitted\<rparr> else Inr ()
      | None \<Rightarrow> Inr ())"

definition is_known_token :: "trade_state \<Rightarrow> token_id \<Rightarrow> bool" where
  "is_known_token s token = bt_contains (st_tokens s) token"

definition get_order_book :: "trade_state \<Rightarrow> trading_pair \<Rightarrow> order_book option" where
  "get_order_book s pair = Option.bind (get_book_id (st_pairs s) pair) (bt_get (st_books s))"

section \<open>Balances\<close>

definition st_withdraw ::
  "principal \<Rightarrow> token_id \<Rightarrow> quantity \<Rightarrow> trade_state \<Rightarrow> ((insufficient_balance + unit) \<times> trade_state) option" where
  "st_withdraw user token amount s =
     (case lookup_funding_id (st_registry s) user of
        None \<Rightarrow> Some (Inl \<lparr>ib_available = quantity_ZERO, ib_required = amount\<rparr>, s)
      | Some user_id \<Rightarrow> do {
          (result, balances) \<leftarrow> tb_withdraw user_id token amount (st_balances s);
          Some (result, s\<lparr>st_balances := balances\<rparr>)
        })"

definition st_deposit ::
  "principal \<Rightarrow> token_id \<Rightarrow> quantity \<Rightarrow> stable_memory_options \<Rightarrow> trade_state \<Rightarrow> trade_state option" where
  "st_deposit user token amount persistence s =
     (case persistence of
        Skip \<Rightarrow> Some s
      | Write \<Rightarrow>
          let (user_id, registry) = get_or_register user (st_registry s)
          in do {
            balances \<leftarrow> tb_deposit user_id token amount (st_balances s);
            Some (s\<lparr>st_registry := registry, st_balances := balances\<rparr>)
          })"

definition st_get_balance :: "trade_state \<Rightarrow> principal \<Rightarrow> token_id \<Rightarrow> balance" where
  "st_get_balance s user token = (case get_user_balance s user token of None \<Rightarrow> balance_zero | Some b \<Rightarrow> b)"

record user_token_balance =
  ut_token :: token_id
  ut_metadata :: token_metadata
  ut_free :: nat
  ut_reserved :: nat

definition public_balance :: "token_id \<Rightarrow> token_metadata \<Rightarrow> balance \<Rightarrow> user_token_balance" where
  "public_balance token metadata b =
     \<lparr>ut_token = token, ut_metadata = metadata, ut_free = to_nat (bal_free b), ut_reserved = to_nat (bal_reserved b)\<rparr>"

definition fee_only_balance :: "quantity \<Rightarrow> balance" where
  "fee_only_balance amount = \<lparr>bal_free = amount, bal_reserved = quantity_ZERO\<rparr>"

text \<open>\<open>apply_filter\<close>: the entries without repetitions, in order, each looked up; the first
  unknown token fails the call.\<close>

fun apply_filter ::
  "(token_id, token_metadata) btree_map \<Rightarrow> (token_id \<Rightarrow> token_metadata \<Rightarrow> user_token_balance) \<Rightarrow> token_id set \<Rightarrow>
   token_id list \<Rightarrow> token_id + user_token_balance list" where
  "apply_filter tokens entry seen [] = Inr []"
| "apply_filter tokens entry seen (t # ts) =
     (if t \<in> seen then apply_filter tokens entry seen ts
      else (case bt_get tokens t of
              None \<Rightarrow> Inl t
            | Some metadata \<Rightarrow>
                (case apply_filter tokens entry (insert t seen) ts of
                   Inl e \<Rightarrow> Inl e
                 | Inr rest \<Rightarrow> Inr (entry t metadata # rest))))"

definition st_get_balances ::
  "principal \<Rightarrow> token_id list option \<Rightarrow> trade_state \<Rightarrow> token_id + user_token_balance list" where
  "st_get_balances user filter_tokens s =
     (let user_id = lookup_funding_id (st_registry s) user
      in case filter_tokens of
           Some entries \<Rightarrow>
             apply_filter (st_tokens s) (\<lambda>t metadata. public_balance t metadata
               (case Option.bind user_id (\<lambda>u. get_balance (st_balances s) u t) of None \<Rightarrow> balance_zero | Some b \<Rightarrow> b)) {} entries
         | None \<Rightarrow>
             (case user_id of
                None \<Rightarrow> Inr []
              | Some u \<Rightarrow>
                  Inr (List.map_filter (\<lambda>(t, metadata).
                    case get_balance (st_balances s) u t of
                      Some b \<Rightarrow> if balance_is_zero b then None else Some (public_balance t metadata b)
                    | None \<Rightarrow> None) (st_tokens s))))"

fun fee_entries ::
  "(token_id, token_metadata) btree_map \<Rightarrow> (token_id \<times> quantity) list \<Rightarrow> user_token_balance list option" where
  "fee_entries tokens [] = Some []"
| "fee_entries tokens ((t, amount) # rest) =
     (if is_zero amount then fee_entries tokens rest
      else do {
        metadata \<leftarrow> bt_get tokens t;
        others \<leftarrow> fee_entries tokens rest;
        Some (public_balance t metadata (fee_only_balance amount) # others)
      })"

definition st_get_fee_balances ::
  "token_id list option \<Rightarrow> trade_state \<Rightarrow> (token_id + user_token_balance list) option" where
  "st_get_fee_balances filter_tokens s =
     (case filter_tokens of
        Some entries \<Rightarrow>
          Some (apply_filter (st_tokens s) (\<lambda>t metadata. public_balance t metadata (fee_only_balance
            (case fee_balance (st_balances s) t of None \<Rightarrow> quantity_ZERO | Some q \<Rightarrow> q))) {} entries)
      | None \<Rightarrow> map_option Inr (fee_entries (st_tokens s) (tb_fee_pool (st_balances s))))"

section \<open>Accounts and caches\<close>

datatype add_trading_account_error = AT_Grant grant_error | AT_FundingOperationInProgress

definition st_validate_add_trading_account ::
  "principal_consts \<Rightarrow> principal \<Rightarrow> principal \<Rightarrow> timestamp \<Rightarrow> trade_state \<Rightarrow> add_trading_account_error + unit" where
  "st_validate_add_trading_account pc funding trading now s =
     (case validate_add_trading_account pc funding trading now (st_registry s) of
        Inl e \<Rightarrow> Inl (AT_Grant e)
      | Inr _ \<Rightarrow>
          if \<exists>(p, _) \<in> st_in_flight s. p = trading then Inl AT_FundingOperationInProgress else Inr ())"

definition st_record_add_trading_account ::
  "principal \<Rightarrow> principal \<Rightarrow> timestamp \<Rightarrow> stable_memory_options \<Rightarrow> trade_state \<Rightarrow> trade_state option" where
  "st_record_add_trading_account funding trading now persistence s =
     (case persistence of
        Skip \<Rightarrow> Some s
      | Write \<Rightarrow> do {
          registry \<leftarrow> record_add_trading_account funding trading now (st_registry s);
          Some (s\<lparr>st_registry := registry\<rparr>)
        })"

definition st_validate_remove_trading_account ::
  "principal \<Rightarrow> principal \<Rightarrow> trade_state \<Rightarrow> revoke_error + unit" where
  "st_validate_remove_trading_account funding trading s =
     validate_remove_trading_account funding trading (st_registry s)"

definition st_record_remove_trading_account ::
  "principal \<Rightarrow> principal \<Rightarrow> stable_memory_options \<Rightarrow> trade_state \<Rightarrow> trade_state option" where
  "st_record_remove_trading_account funding trading persistence s =
     (case persistence of
        Skip \<Rightarrow> Some s
      | Write \<Rightarrow> do {
          registry \<leftarrow> record_remove_trading_account funding trading (st_registry s);
          Some (s\<lparr>st_registry := registry\<rparr>)
        })"

definition effective_account :: "trade_state \<Rightarrow> principal \<Rightarrow> principal" where
  "effective_account s caller =
     (case registry_lookup (st_registry s) caller of None \<Rightarrow> caller | Some a \<Rightarrow> effective_principal a)"

definition get_cached_ledger_fee :: "trade_state \<Rightarrow> token_id \<Rightarrow> nat" where
  "get_cached_ledger_fee s token = (case bt_get (st_fee_cache s) token of None \<Rightarrow> 0 | Some fee \<Rightarrow> fee)"

definition set_cached_ledger_fee :: "token_id \<Rightarrow> nat \<Rightarrow> trade_state \<Rightarrow> trade_state" where
  "set_cached_ledger_fee token fee s = s\<lparr>st_fee_cache := bt_insert token fee (st_fee_cache s)\<rparr>"

definition take_next_pending_settling_event :: "trade_state \<Rightarrow> (settling_event option \<times> trade_state)" where
  "take_next_pending_settling_event s =
     (case st_settling s of
        [] \<Rightarrow> (None, s)
      | ev # rest \<Rightarrow> (Some ev, s\<lparr>st_settling := rest\<rparr>))"

definition has_pending_settling_events :: "trade_state \<Rightarrow> bool" where
  "has_pending_settling_events s \<longleftrightarrow> st_settling s \<noteq> []"

end
