(* ===== verification/Audit_Log.thy ===== *)
theory Audit_Log
  imports Trade_State
begin

text \<open>
  Events and their effect (\<open>state/audit/mod.rs\<close>), with cancellation (\<open>State::cancel_limit_order\<close>),
  which is written in terms of events. The event log of \<open>storage::record_event\<close> is a list beside
  the state; the two together are the \<open>canister\<close>.
\<close>

record canister =
  cn_state :: trade_state
  cn_log :: "event list"

definition set_halts :: "bool \<Rightarrow> order_book_id list \<Rightarrow> permissions \<Rightarrow> permissions" where
  "set_halts halted books p = fold (if halted then pm_halt_trading else pm_resume_trading) books p"

definition apply_upgrade :: "upgrade_arg \<Rightarrow> trade_state \<Rightarrow> trade_state option" where
  "apply_upgrade arg s = do {
     let s1 = (case ua_mode arg of None \<Rightarrow> s | Some m \<Rightarrow> s\<lparr>st_mode := m\<rparr>);
     if ua_max_orders_per_chunk arg \<noteq> None \<or> ua_instruction_budget arg \<noteq> None \<or>
        ua_max_settlement_units_per_event arg \<noteq> None
     then do {
       let current = st_policy s1;
       policy \<leftarrow> expect_ok (policy_try_new
         (case ua_max_orders_per_chunk arg of None \<Rightarrow> ep_max_orders_per_chunk current | Some n \<Rightarrow> n)
         (case ua_instruction_budget arg of None \<Rightarrow> ep_instruction_budget current | Some n \<Rightarrow> n)
         (case ua_max_settlement_units_per_event arg of
            None \<Rightarrow> ep_max_settlement_units_per_event current | Some n \<Rightarrow> n));
       Some (s1\<lparr>st_policy := policy\<rparr>)
     }
     else Some s1
   }"

definition apply_state_transition ::
  "event_type \<Rightarrow> timestamp \<Rightarrow> stable_memory_options \<Rightarrow> trade_state \<Rightarrow> trade_state option" where
  "apply_state_transition payload now persistence s =
     (case payload of
        Ev_Init _ \<Rightarrow> None
      | Ev_Upgrade arg \<Rightarrow> apply_upgrade arg s
      | Ev_AddTradingPair ev \<Rightarrow>
          record_trading_pair (ap_book_id ev) \<lparr>tp_base = ap_base ev, tp_quote = ap_quote ev\<rparr>
            (ap_base_metadata ev) (ap_quote_metadata ev) (ap_tick_size ev) (ap_lot_size ev)
            (ap_min_notional ev) (ap_max_notional ev) (ap_fee_rates ev) s
      | Ev_Deposit ev \<Rightarrow> st_deposit (de_user ev) (de_token ev) (de_amount ev) persistence s
      | Ev_Withdraw ev \<Rightarrow>
          (case persistence of
             Skip \<Rightarrow> Some s
           | Write \<Rightarrow> do {
               (result, s') \<leftarrow> st_withdraw (we_user ev) (we_token ev) (we_amount ev) s;
               _ \<leftarrow> expect_ok result;
               Some s'
             })
      | Ev_AddLimitOrder ev \<Rightarrow>
          let pending = \<lparr>po_side = ao_side ev, po_price = ao_price ev, po_quantity = ao_quantity ev,
                         po_tif = ao_tif ev\<rparr>;
              (book_id, order_seq) = ao_order_id ev
          in record_limit_order (ao_user ev) book_id (into_order pending order_seq) (ao_placed_by ev) now persistence s
      | Ev_CancelLimitOrder ev \<Rightarrow>
          record_cancel_limit_order (ce_order_id ev) (ce_canceled_by ev) now persistence s
      | Ev_Matching ev \<Rightarrow> record_matching_event ev now persistence s
      | Ev_Settling ev \<Rightarrow> record_settling_event ev now persistence s
      | Ev_AddTradingAccount ev \<Rightarrow>
          st_record_add_trading_account (ta_funding ev) (ta_trading ev) now persistence s
      | Ev_RemoveTradingAccount ev \<Rightarrow>
          st_record_remove_trading_account (ta_funding ev) (ta_trading ev) persistence s
      | Ev_SetHalt ev \<Rightarrow>
          Some (s\<lparr>st_permissions :=
            (case sh_book_ids ev of
               None \<Rightarrow> if sh_halted ev then halt_trading_globally (st_permissions s)
                       else resume_trading_globally (st_permissions s)
             | Some books \<Rightarrow> set_halts (sh_halted ev) books (st_permissions s))\<rparr>))"

definition process_event :: "event_type \<Rightarrow> timestamp \<Rightarrow> canister \<Rightarrow> canister option" where
  "process_event payload now c = do {
     s \<leftarrow> apply_state_transition payload now Write (cn_state c);
     Some (c\<lparr>cn_state := s, cn_log := cn_log c @ [\<lparr>ev_timestamp = now, ev_payload = payload\<rparr>]\<rparr>)
   }"

definition record_event :: "event_type \<Rightarrow> timestamp \<Rightarrow> canister \<Rightarrow> canister" where
  "record_event payload now c = c\<lparr>cn_log := cn_log c @ [\<lparr>ev_timestamp = now, ev_payload = payload\<rparr>]\<rparr>"

section \<open>Cancellation\<close>

fun process_settlings :: "settling_event list \<Rightarrow> timestamp \<Rightarrow> canister \<Rightarrow> canister option" where
  "process_settlings [] now c = Some c"
| "process_settlings (ev # evs) now c = do {
     c' \<leftarrow> process_event (Ev_Settling ev) now c;
     process_settlings evs now c'
   }"

definition st_cancel_limit_order ::
  "principal \<Rightarrow> principal option \<Rightarrow> order_id \<Rightarrow> timestamp \<Rightarrow> canister \<Rightarrow>
   ((cancel_limit_order_error + order_record) \<times> canister) option" where
  "st_cancel_limit_order owner canceled_by i now c =
     (case validate_cancel_limit_order owner i (cn_state c) of
        Inl e \<Rightarrow> Some (Inl e, c)
      | Inr _ \<Rightarrow> do {
          let backlog_len = length (st_settling (cn_state c));
          c1 \<leftarrow> process_event (Ev_CancelLimitOrder \<lparr>ce_order_id = i, ce_canceled_by = canceled_by\<rparr>) now c;
          let own = drop backlog_len (st_settling (cn_state c1));
          let c2 = c1\<lparr>cn_state := (cn_state c1)\<lparr>st_settling := take backlog_len (st_settling (cn_state c1))\<rparr>\<rparr>;
          c3 \<leftarrow> process_settlings own now c2;
          order \<leftarrow> history_get (st_orders (cn_state c3)) i;
          ensure (or_status order = Canceled);
          Some (Inr order, c3)
        })"

section \<open>Replay\<close>

fun replay_loop :: "event list \<Rightarrow> stable_memory_options \<Rightarrow> trade_state \<Rightarrow> trade_state option" where
  "replay_loop [] persistence s = Some s"
| "replay_loop (ev # evs) persistence s = do {
     s' \<leftarrow> apply_state_transition (ev_payload ev) (ev_timestamp ev) persistence s;
     replay_loop evs persistence s'
   }"

definition replay_events ::
  "event list \<Rightarrow> order_history \<Rightarrow> trade_history \<Rightarrow> user_registry \<Rightarrow> token_balance \<Rightarrow> stable_memory_options \<Rightarrow>
   trade_state option" where
  "replay_events events orders trades registry balances persistence =
     (case events of
        [] \<Rightarrow> None
      | first # rest \<Rightarrow>
          (case ev_payload first of
             Ev_Init arg \<Rightarrow> do {
               s \<leftarrow> expect_ok (state_new arg orders trades registry balances);
               s' \<leftarrow> replay_loop rest persistence s;
               Some (s'\<lparr>st_settling := []\<rparr>)
             }
           | _ \<Rightarrow> None))"

section \<open>Replay rebuilds the heap\<close>

text \<open>The part of the state that lives on the heap and is a function of the log: mode, policy,
  tokens, pairs, books and permissions.\<close>

definition heap_of ::
  "trade_state \<Rightarrow> mode \<times> execution_policy \<times> order_book_id \<times> (token_id, token_metadata) btree_map \<times>
     trading_pair_map \<times> (order_book_id, order_book) btree_map \<times> permissions" where
  "heap_of s = (st_mode s, st_policy s, st_next_book_id s, st_tokens s, st_pairs s, st_books s, st_permissions s)"

definition stable_of :: "trade_state \<Rightarrow> order_history \<times> trade_history \<times> user_registry \<times> token_balance" where
  "stable_of s = (st_orders s, st_trades s, st_registry s, st_balances s)"

text \<open>A transition that is run with \<open>Write\<close> in one state and with \<open>Skip\<close> in another with the same heap
  ends with the same heap, and \<open>Skip\<close> leaves stable memory alone.\<close>

definition skip_simulates ::
  "(stable_memory_options \<Rightarrow> trade_state \<Rightarrow> trade_state option) \<Rightarrow> bool" where
  "skip_simulates f \<longleftrightarrow> (\<forall>s t s'. heap_of s = heap_of t \<longrightarrow> f Write s = Some s' \<longrightarrow>
     (\<exists>t'. f Skip t = Some t' \<and> heap_of t' = heap_of s' \<and> stable_of t' = stable_of t))"

lemma heap_of_eq:
  "heap_of s = heap_of t \<longleftrightarrow> st_mode s = st_mode t \<and> st_policy s = st_policy t \<and> st_next_book_id s = st_next_book_id t \<and>
     st_tokens s = st_tokens t \<and> st_pairs s = st_pairs t \<and> st_books s = st_books t \<and> st_permissions s = st_permissions t"
  by (simp add: heap_of_def)

lemma stable_of_eq:
  "stable_of s = stable_of t \<longleftrightarrow> st_orders s = st_orders t \<and> st_trades s = st_trades t \<and>
     st_registry s = st_registry t \<and> st_balances s = st_balances t"
  by (simp add: stable_of_def)

lemma base_scale_heap: "heap_of s = heap_of t \<Longrightarrow> base_scale s = base_scale t"
  by (simp add: heap_of_eq base_scale_def fun_eq_iff)

lemma base_scale_for_book_heap: "heap_of s = heap_of t \<Longrightarrow> base_scale_for_book s = base_scale_for_book t"
  using base_scale_heap [of s t] by (simp add: heap_of_eq base_scale_for_book_def fun_eq_iff)

lemma skip_simulatesI:
  assumes "\<And>s t s'. heap_of s = heap_of t \<Longrightarrow> f Write s = Some s' \<Longrightarrow>
     \<exists>t'. f Skip t = Some t' \<and> heap_of t' = heap_of s' \<and> stable_of t' = stable_of t"
  shows "skip_simulates f"
  using assms unfolding skip_simulates_def by blast

lemma reserve_and_record_heap:
  "reserve_and_record user book ord placed_by now token required s = Some s' \<Longrightarrow> heap_of s' = heap_of s"
  by (auto simp: reserve_and_record_def heap_of_eq trap_simps)

lemma skip_limit_order: "skip_simulates (record_limit_order user book ord placed_by now)"
proof (rule skip_simulatesI)
  fix s t s' assume h: "heap_of s = heap_of t" and r: "record_limit_order user book ord placed_by now Write s = Some s'"
  obtain pair scale b token required s1 b' where
      x: "get_pair (st_pairs s) book = Some pair" "base_scale s (tp_base pair) = Some scale"
        "bt_get (st_books s) book = Some b" "order_requirement pair scale ord = Some (token, required)"
        "reserve_and_record user book ord placed_by now token required s = Some s1" "add_pending_order ord b = Some b'"
        "s' = s1\<lparr>st_books := bt_insert book b' (st_books s1)\<rparr>"
    using r by (auto simp: record_limit_order_def trap_simps)
  have "heap_of s1 = heap_of s" by (rule reserve_and_record_heap [OF x(5)])
  then show "\<exists>t'. record_limit_order user book ord placed_by now Skip t = Some t' \<and> heap_of t' = heap_of s' \<and> stable_of t' = stable_of t"
    using x h base_scale_heap [OF h] by (auto simp: record_limit_order_def heap_of_eq stable_of_eq)
qed

lemma skip_cancel: "skip_simulates (record_cancel_limit_order i canceled_by now)"
proof (rule skip_simulatesI)
  fix s t s' assume h: "heap_of s = heap_of t" and r: "record_cancel_limit_order i canceled_by now Write s = Some s'"
  obtain book seq where i: "i = (book, seq)" by (cases i)
  obtain scale b b' removed orders settlement where
      x: "base_scale_for_book s book = Some scale" "bt_get (st_books s) book = Some b"
        "remove_order seq b = Some (Some removed, b')"
        "s' = s\<lparr>st_books := bt_insert book b' (st_books s), st_orders := orders, st_settling := st_settling s @
           [\<lparr>se_book_id = book, se_operations = removed_balance_operations settlement, se_fills = []\<rparr>]\<rparr>"
    using r by (auto simp: i record_cancel_limit_order_def trap_simps)
  then show "\<exists>t'. record_cancel_limit_order i canceled_by now Skip t = Some t' \<and> heap_of t' = heap_of s' \<and> stable_of t' = stable_of t"
    using h base_scale_for_book_heap [OF h] by (auto simp: i record_cancel_limit_order_def heap_of_eq stable_of_eq)
qed

lemma skip_matching: "skip_simulates (record_matching_event ev now)"
proof (rule skip_simulatesI)
  fix s t s' assume h: "heap_of s = heap_of t" and r: "record_matching_event ev now Write s = Some s'"
  obtain scale b out b' orders evs where
      x: "base_scale_for_book s (me_book_id ev) = Some scale" "bt_get (st_books s) (me_book_id ev) = Some b"
        "process_pending_orders (me_orders ev) b = Some (out, b')"
        "s' = s\<lparr>st_books := bt_insert (me_book_id ev) b' (st_books s), st_orders := orders, st_settling := st_settling s @ evs\<rparr>"
    using r by (auto simp: record_matching_event_def Let_def trap_simps)
  then show "\<exists>t'. record_matching_event ev now Skip t = Some t' \<and> heap_of t' = heap_of s' \<and> stable_of t' = stable_of t"
    using h base_scale_for_book_heap [OF h] by (auto simp: record_matching_event_def heap_of_eq stable_of_eq)
qed

lemma skip_settling: "skip_simulates (record_settling_event ev now)"
  by (rule skip_simulatesI) (auto simp: record_settling_event_def heap_of_eq stable_of_eq trap_simps)

lemma skip_deposit: "skip_simulates (st_deposit user token amount)"
  by (rule skip_simulatesI) (auto simp: st_deposit_def heap_of_eq stable_of_eq trap_simps split: prod.splits)

lemma skip_trading_accounts:
  "skip_simulates (st_record_add_trading_account funding trading now)"
  "skip_simulates (st_record_remove_trading_account funding trading)"
  by (rule skip_simulatesI,
      auto simp: st_record_add_trading_account_def st_record_remove_trading_account_def heap_of_eq stable_of_eq trap_simps)+

lemma st_withdraw_heap: "st_withdraw user token amount s = Some (r, s') \<Longrightarrow> heap_of s' = heap_of s"
  by (auto simp: st_withdraw_def heap_of_eq trap_simps split: option.splits)

lemma skip_upgrade: "skip_simulates (\<lambda>_. apply_upgrade arg)"
  by (rule skip_simulatesI)
     (auto simp: apply_upgrade_def heap_of_eq stable_of_eq Let_def trap_simps split: if_splits option.splits)

lemma record_token_heap:
  assumes "heap_of s = heap_of t" "record_token token metadata s = Some s'"
  shows "\<exists>t'. record_token token metadata t = Some t' \<and> heap_of t' = heap_of s' \<and> stable_of t' = stable_of t"
  using assms by (auto simp: record_token_def heap_of_eq stable_of_eq trap_simps split: option.splits)

lemma skip_trading_pair:
  "skip_simulates (\<lambda>_. record_trading_pair book pair bm qm tick lot min_n max_n rates)"
proof (rule skip_simulatesI)
  fix s t s' assume h: "heap_of s = heap_of t"
    and r: "record_trading_pair book pair bm qm tick lot min_n max_n rates s = Some s'"
  obtain s1 s2 pairs nxt where x: "record_token (tp_base pair) bm s = Some s1" "record_token (tp_quote pair) qm s1 = Some s2"
      "book = st_next_book_id s2" "pair_map_insert pair book (st_pairs s2) = Some pairs" "bt_get (st_books s2) book = None"
      "seq_increment (st_next_book_id s2) = Some nxt"
      "s' = s2\<lparr>st_pairs := pairs, st_books := bt_insert book (book_new book tick lot min_n max_n rates) (st_books s2),
         st_next_book_id := nxt\<rparr>"
    using r by (auto simp: record_trading_pair_def Let_def trap_simps)
  obtain t1 where t1: "record_token (tp_base pair) bm t = Some t1" "heap_of t1 = heap_of s1" "stable_of t1 = stable_of t"
    using record_token_heap [OF h x(1)] by blast
  obtain t2 where t2: "record_token (tp_quote pair) qm t1 = Some t2" "heap_of t2 = heap_of s2" "stable_of t2 = stable_of t1"
    using record_token_heap [OF t1(2) [symmetric] x(2)] by blast
  show "\<exists>t'. record_trading_pair book pair bm qm tick lot min_n max_n rates t = Some t' \<and> heap_of t' = heap_of s' \<and> stable_of t' = stable_of t"
    using x t1 t2 by (auto simp: record_trading_pair_def heap_of_eq stable_of_eq)
qed

lemma skip_transition: "skip_simulates (apply_state_transition payload now)"
proof (cases payload)
  case (Ev_Withdraw ev)
  then show ?thesis
    by (intro skip_simulatesI) (auto simp: apply_state_transition_def trap_simps dest: st_withdraw_heap)
next
  case (Ev_AddLimitOrder ev)
  then show ?thesis
    using skip_limit_order by (auto simp: apply_state_transition_def skip_simulates_def Let_def split: prod.split)
next
  case (Ev_SetHalt ev)
  then show ?thesis
    by (intro skip_simulatesI)
       (auto simp: apply_state_transition_def heap_of_eq stable_of_eq split: option.split)
qed (use skip_deposit skip_cancel skip_matching skip_settling skip_trading_accounts skip_upgrade skip_trading_pair
     in \<open>auto simp: apply_state_transition_def skip_simulates_def\<close>)

end
