(* ===== verification/Executor.thy ===== *)
theory Executor
  imports Audit_Log
begin

text \<open>
  The chunked driver of matching and settling (\<open>execute/mod.rs\<close>) and the guards against parallel
  runs (\<open>guard/mod.rs\<close>). The instruction counter belongs to the system: its successive readings
  are a parameter, an arbitrary sequence, and the position of the next reading is threaded through.
\<close>

datatype execution_status = Complete | MoreWork | AlreadyRunning

type_synonym readings = "nat \<Rightarrow> u64"

definition has_matchable_pending_orders :: "trade_state \<Rightarrow> bool" where
  "has_matchable_pending_orders s \<longleftrightarrow>
     list_ex (\<lambda>(i, book). bk_pending_orders book \<noteq> [] \<and> permit_matching (st_permissions s) i = Inr ()) (st_books s)"

definition status_from_state :: "trade_state \<Rightarrow> execution_status" where
  "status_from_state s =
     (if has_matchable_pending_orders s \<or> has_pending_settling_events s then MoreWork else Complete)"

text \<open>The identifiers are distinct, so the comparison of \<open>sort_unstable_by\<close> is total on the list and
  the result is the sort by decreasing count and then by identifier.\<close>

definition books_by_pending_order_count_desc :: "trade_state \<Rightarrow> order_book_id list" where
  "books_by_pending_order_count_desc s =
     map fst (sort_key (\<lambda>(i, n). (Reverse n, i))
       (filter (\<lambda>(_, n). n > 0) (map (\<lambda>(i, book). (i, length (bk_pending_orders book))) (st_books s))))"

text \<open>The loop pops one event per round and settling never adds one, so the length of the queue is
  enough fuel.\<close>

fun drain_loop :: "nat \<Rightarrow> readings \<Rightarrow> u64 \<Rightarrow> timestamp \<Rightarrow> nat \<times> canister \<Rightarrow> (nat \<times> canister) option" where
  "drain_loop 0 counter budget now (k, c) = Some (k, c)"
| "drain_loop (Suc fuel) counter budget now (k, c) =
     (if counter k < budget then
        (case take_next_pending_settling_event (cn_state c) of
           (None, _) \<Rightarrow> Some (Suc k, c)
         | (Some ev, s) \<Rightarrow> do {
             c' \<leftarrow> process_event (Ev_Settling ev) now (c\<lparr>cn_state := s\<rparr>);
             drain_loop fuel counter budget now (Suc k, c')
           })
      else Some (Suc k, c))"

definition drain_settling :: "readings \<Rightarrow> u64 \<Rightarrow> timestamp \<Rightarrow> nat \<times> canister \<Rightarrow> (nat \<times> canister) option" where
  "drain_settling counter budget now kc =
     drain_loop (Suc (length (st_settling (cn_state (snd kc))))) counter budget now kc"

fun books_loop ::
  "readings \<Rightarrow> u64 \<Rightarrow> timestamp \<Rightarrow> order_book_id list \<Rightarrow> nat \<Rightarrow> nat \<times> canister \<Rightarrow> (nat \<times> canister) option" where
  "books_loop counter budget now [] order_budget (k, c) = Some (k, c)"
| "books_loop counter budget now (book_id # books) order_budget (k, c) =
     (if order_budget = 0 then Some (k, c)
      else if counter k \<ge> budget then Some (Suc k, c)
      else (case permit_matching (st_permissions (cn_state c)) book_id of
              Inl _ \<Rightarrow> books_loop counter budget now books order_budget (Suc k, c)
            | Inr _ \<Rightarrow> do {
                book \<leftarrow> bt_get (st_books (cn_state c)) book_id;
                let chunk = take order_budget (pending_order_seqs book);
                if chunk = [] then books_loop counter budget now books order_budget (Suc k, c)
                else do {
                  c1 \<leftarrow> process_event (Ev_Matching \<lparr>me_book_id = book_id, me_orders = chunk\<rparr>) now c;
                  kc \<leftarrow> drain_settling counter budget now (Suc k, c1);
                  books_loop counter budget now books (order_budget - length chunk) kc
                }
              }))"

definition run_once :: "readings \<Rightarrow> timestamp \<Rightarrow> canister \<Rightarrow> (execution_status \<times> canister) option" where
  "run_once counter now c = do {
     let policy = st_policy (cn_state c);
     let budget = ep_instruction_budget policy;
     (k, c1) \<leftarrow> drain_settling counter budget now (0, c);
     if counter k \<ge> budget then Some (status_from_state (cn_state c1), c1)
     else do {
       (k', c2) \<leftarrow> books_loop counter budget now (books_by_pending_order_count_desc (cn_state c1))
         (unat (ep_max_orders_per_chunk policy)) (Suc k, c1);
       Some (status_from_state (cn_state c2), c2)
     }
   }"

section \<open>Guards\<close>

definition timer_guard_new :: "task \<Rightarrow> trade_state \<Rightarrow> trade_state option" where
  "timer_guard_new t s = (if t \<in> st_tasks s then None else Some (s\<lparr>st_tasks := insert t (st_tasks s)\<rparr>))"

definition timer_guard_drop :: "task \<Rightarrow> trade_state \<Rightarrow> trade_state" where
  "timer_guard_drop t s = s\<lparr>st_tasks := st_tasks s - {t}\<rparr>"

definition user_op_guard_new :: "principal \<Rightarrow> token_id \<Rightarrow> trade_state \<Rightarrow> trade_state option" where
  "user_op_guard_new caller token s =
     (if (caller, token) \<in> st_in_flight s then None
      else Some (s\<lparr>st_in_flight := insert (caller, token) (st_in_flight s)\<rparr>))"

definition user_op_guard_drop :: "principal \<Rightarrow> token_id \<Rightarrow> trade_state \<Rightarrow> trade_state" where
  "user_op_guard_drop caller token s = s\<lparr>st_in_flight := st_in_flight s - {(caller, token)}\<rparr>"

text \<open>\<open>process_pending_orders\<close> of \<open>lib.rs\<close>: one run under the guard, which is dropped at the end.\<close>

definition api_process_pending_orders ::
  "readings \<Rightarrow> timestamp \<Rightarrow> canister \<Rightarrow> (execution_status \<times> canister) option" where
  "api_process_pending_orders counter now c =
     (case timer_guard_new ProcessPendingOrders (cn_state c) of
        None \<Rightarrow> Some (AlreadyRunning, c)
      | Some s \<Rightarrow> do {
          (status, c') \<leftarrow> run_once counter now (c\<lparr>cn_state := s\<rparr>);
          Some (status, c'\<lparr>cn_state := timer_guard_drop ProcessPendingOrders (cn_state c')\<rparr>)
        })"

text \<open>\<open>drive_matching\<close> of \<open>lib.rs\<close>: one run, and whether it set a zero-delay timer for the next one.\<close>

definition drive_matching :: "readings \<Rightarrow> timestamp \<Rightarrow> canister \<Rightarrow> (bool \<times> canister) option" where
  "drive_matching counter now c = do {
     (status, c') \<leftarrow> api_process_pending_orders counter now c;
     Some (case status of MoreWork \<Rightarrow> True | Complete \<Rightarrow> False | AlreadyRunning \<Rightarrow> False, c')
   }"

text \<open>The timers it sets, fired one after the other: at most \<open>n\<close> runs, the \<open>j\<close>-th with its own counter and
  time. The flag says whether a timer is still set.\<close>

fun drive_chain :: "nat \<Rightarrow> (nat \<Rightarrow> readings) \<Rightarrow> (nat \<Rightarrow> timestamp) \<Rightarrow> nat \<Rightarrow> canister \<Rightarrow> (bool \<times> canister) option" where
  "drive_chain 0 counters nows j c = Some (True, c)"
| "drive_chain (Suc n) counters nows j c = do {
     (more, c') \<leftarrow> drive_matching (counters j) (nows j) c;
     if more then drive_chain n counters nows (Suc j) c' else Some (False, c')
   }"

end
