(* ===== verification/Snapshot.thy ===== *)
theory Snapshot
  imports Audit_Log
begin

text \<open>
  The snapshot of the heap that an upgrade takes and restores (\<open>state/snapshot/mod.rs\<close>). Balances,
  histories and the registry live in stable memory and are handed to \<open>into_state\<close> as they are.
\<close>

record permissions_snapshot =
  ps_trading_halted :: bool
  ps_halted_pairs :: "order_book_id list"

record state_snapshot =
  ss_mode :: mode
  ss_next_book_id :: order_book_id
  ss_tokens :: "(token_id \<times> token_metadata) list"
  ss_trading_pairs :: "(trading_pair \<times> order_book_id) list"
  ss_order_books :: "order_book_snapshot list"
  ss_ledger_fee_cache :: "(token_id \<times> nat) list"
  ss_pending_settling_events :: "settling_event list option"
  ss_max_orders_per_chunk :: "u32 option"
  ss_instruction_budget :: "u64 option"
  ss_fee_pool :: "fee_entry list option"
  ss_permissions :: "permissions_snapshot option"
  ss_max_settlement_units_per_event :: "u32 option"

definition permissions_snapshot_of :: "permissions \<Rightarrow> permissions_snapshot" where
  "permissions_snapshot_of p =
     \<lparr>ps_trading_halted = pm_trading_halted p, ps_halted_pairs = sorted_list_of_set (pm_halted_pairs p)\<rparr>"

definition permissions_of_snapshot :: "permissions_snapshot \<Rightarrow> permissions" where
  "permissions_of_snapshot ps =
     fold pm_halt_trading (ps_halted_pairs ps)
       (if ps_trading_halted ps then halt_trading_globally permissions_default else permissions_default)"

definition from_state :: "trade_state \<Rightarrow> state_snapshot" where
  "from_state s =
     \<lparr>ss_mode = st_mode s, ss_next_book_id = st_next_book_id s, ss_tokens = st_tokens s,
      ss_trading_pairs = st_pairs s, ss_order_books = map snapshot_of_book (bt_values (st_books s)),
      ss_ledger_fee_cache = st_fee_cache s,
      ss_pending_settling_events = (if st_settling s = [] then None else Some (st_settling s)),
      ss_max_orders_per_chunk = Some (ep_max_orders_per_chunk (st_policy s)),
      ss_instruction_budget = Some (ep_instruction_budget (st_policy s)),
      ss_fee_pool = (let snapshot = fee_pool_snapshot (tb_fee_pool (st_balances s))
                     in if snapshot = [] then None else Some snapshot),
      ss_permissions = (if st_permissions s = permissions_default then None
                        else Some (permissions_snapshot_of (st_permissions s))),
      ss_max_settlement_units_per_event = Some (ep_max_settlement_units_per_event (st_policy s))\<rparr>"

fun insert_unique :: "('k::linorder \<times> 'v) list \<Rightarrow> ('k, 'v) btree_map \<Rightarrow> ('k, 'v) btree_map option" where
  "insert_unique [] m = Some m"
| "insert_unique ((k, v) # rest) m = do {
     ensure (bt_get m k = None);
     insert_unique rest (bt_insert k v m)
   }"

fun insert_pairs :: "(trading_pair \<times> order_book_id) list \<Rightarrow> trading_pair_map \<Rightarrow> trading_pair_map option" where
  "insert_pairs [] m = Some m"
| "insert_pairs ((pair, book) # rest) m = do {
     m' \<leftarrow> pair_map_insert pair book m;
     insert_pairs rest m'
   }"

fun insert_books ::
  "order_book_snapshot list \<Rightarrow> (order_book_id, order_book) btree_map \<Rightarrow> (order_book_id, order_book) btree_map option" where
  "insert_books [] m = Some m"
| "insert_books (sn # rest) m = do {
     book \<leftarrow> book_of_snapshot sn;
     ensure (bt_get m (bs_id sn) = None);
     insert_books rest (bt_insert (bs_id sn) book m)
   }"

definition restore_policy :: "u32 option \<Rightarrow> u64 option \<Rightarrow> u32 option \<Rightarrow> execution_policy option" where
  "restore_policy max_orders budget units =
     (case (max_orders, budget, units) of
        (Some m, Some b, Some u) \<Rightarrow> expect_ok (policy_try_new m b u)
      | (Some m, Some b, None) \<Rightarrow> expect_ok (policy_try_new m b DEFAULT_MAX_SETTLEMENT_UNITS_PER_EVENT)
      | (None, None, None) \<Rightarrow> policy_default
      | _ \<Rightarrow> None)"

definition into_state ::
  "state_snapshot \<Rightarrow> order_history \<Rightarrow> trade_history \<Rightarrow> balance_map \<Rightarrow> user_registry \<Rightarrow> trade_state option" where
  "into_state sn orders trades balances registry = do {
     tokens \<leftarrow> insert_unique (ss_tokens sn) [];
     pairs \<leftarrow> insert_pairs (ss_trading_pairs sn) [];
     books \<leftarrow> insert_books (ss_order_books sn) [];
     fees \<leftarrow> insert_unique (ss_ledger_fee_cache sn) [];
     let settling = (case ss_pending_settling_events sn of None \<Rightarrow> [] | Some evs \<Rightarrow> evs);
     pool \<leftarrow> fee_pool_restore (case ss_fee_pool sn of None \<Rightarrow> [] | Some es \<Rightarrow> es);
     let permissions = (case ss_permissions sn of None \<Rightarrow> permissions_default | Some ps \<Rightarrow> permissions_of_snapshot ps);
     policy \<leftarrow> restore_policy (ss_max_orders_per_chunk sn) (ss_instruction_budget sn)
       (ss_max_settlement_units_per_event sn);
     Some \<lparr>st_mode = ss_mode sn, st_policy = policy, st_next_book_id = ss_next_book_id sn, st_tokens = tokens,
           st_pairs = pairs, st_books = books, st_registry = registry,
           st_balances = \<lparr>tb_balances = balances, tb_fee_pool = pool\<rparr>, st_orders = orders, st_trades = trades,
           st_fee_cache = fees, st_settling = settling, st_tasks = {}, st_in_flight = {},
           st_permissions = permissions\<rparr>
   }"

text \<open>\<open>pre_upgrade\<close> and \<open>post_upgrade\<close> (\<open>lifecycle/mod.rs\<close>): the snapshot is written and read back
  through stable memory, and an upgrade argument is an event.\<close>

datatype oisy_trade_arg = OT_Init init_arg | OT_Upgrade "upgrade_arg option"

definition post_upgrade ::
  "oisy_trade_arg option \<Rightarrow> timestamp \<Rightarrow> state_snapshot \<Rightarrow> order_history \<Rightarrow> trade_history \<Rightarrow> balance_map \<Rightarrow>
   user_registry \<Rightarrow> event list \<Rightarrow> canister option" where
  "post_upgrade arg now sn orders trades balances registry log = do {
     s \<leftarrow> into_state sn orders trades balances registry;
     let c = \<lparr>cn_state = s, cn_log = log\<rparr>;
     (case arg of
        Some (OT_Init _) \<Rightarrow> None
      | Some (OT_Upgrade (Some a)) \<Rightarrow> process_event (Ev_Upgrade a) now c
      | Some (OT_Upgrade None) \<Rightarrow> Some c
      | None \<Rightarrow> Some c)
   }"

definition canister_init :: "oisy_trade_arg \<Rightarrow> timestamp \<Rightarrow> canister option" where
  "canister_init arg now =
     (case arg of
        OT_Upgrade _ \<Rightarrow> None
      | OT_Init a \<Rightarrow> do {
          s \<leftarrow> expect_ok (state_new a history_new history_new user_registry_new \<lparr>tb_balances = [], tb_fee_pool = []\<rparr>);
          Some \<lparr>cn_state = s, cn_log = [\<lparr>ev_timestamp = now, ev_payload = Ev_Init a\<rparr>]\<rparr>
        })"

section \<open>Restoring\<close>

lemma insert_unique_all:
  assumes "bt_ok (m @ es)"
  shows "insert_unique es m = Some (m @ es)"
  using assms
proof (induction es arbitrary: m)
  case (Cons e es)
  obtain k v where e: "e = (k, v)" by (cases e)
  have "bt_get m k = None" "bt_insert k v m = m @ [(k, v)]"
    using Cons.prems by (auto simp: e bt_ok_append bt_get_None bt_keys_def bt_insert_snoc)
  then show ?case using Cons by (simp add: e)
qed simp

end
