(* ===== verification/Text.thy ===== *)
theory Text
  imports Order_Types
begin

text \<open>
  The texts that the canister writes and reads outside the event log: decimal numbers and ASCII
  case of the Rust standard library, and the texts of third-party types as parameters. A string is
  a list of bytes, as in Rust.
\<close>

section \<open>Decimal numbers\<close>

text \<open>\<open>Display\<close> of the unsigned integers: decimal digits without leading zeros.\<close>

definition digit_char :: "nat \<Rightarrow> char" where
  "digit_char d = char_of (48 + d)"

definition digit_val :: "char \<Rightarrow> nat option" where
  "digit_val c = (let n = (of_char c :: nat) in if 48 \<le> n \<and> n \<le> 57 then Some (n - 48) else None)"

fun dec_string :: "nat \<Rightarrow> string" where
  "dec_string n = (if n < 10 then [digit_char n] else dec_string (n div 10) @ [digit_char (n mod 10)])"

declare dec_string.simps [simp del]

text \<open>The number that a list of digits denotes, most significant first.\<close>

definition dec_val :: "string \<Rightarrow> nat" where
  "dec_val s = foldl (\<lambda>acc c. acc * 10 + (of_char c - 48)) 0 s"

definition is_digit :: "char \<Rightarrow> bool" where
  "is_digit c \<longleftrightarrow> digit_val c \<noteq> None"

text \<open>\<open>u64::from_str\<close>: an optional plus sign, at least one digit, an error on overflow.\<close>

definition radix10_step :: "u64 option \<Rightarrow> char \<Rightarrow> u64 option" where
  "radix10_step acc c = do {
     a \<leftarrow> acc;
     d \<leftarrow> digit_val c;
     a' \<leftarrow> checked_mul a 10;
     checked_add a' (of_nat d)
   }"

definition u64_from_str :: "string \<Rightarrow> u64 option" where
  "u64_from_str s =
     (let digits = (case s of c # rest \<Rightarrow> if c = CHR ''+'' then rest else s | [] \<Rightarrow> [])
      in if digits = [] then None else foldl radix10_step (Some 0) digits)"

section \<open>ASCII case\<close>

definition ascii_upper :: "char \<Rightarrow> char" where
  "ascii_upper c = (let n = (of_char c :: nat) in if 97 \<le> n \<and> n \<le> 122 then char_of (n - 32) else c)"

definition to_ascii_uppercase :: "string \<Rightarrow> string" where
  "to_ascii_uppercase s = map ascii_upper s"

definition eq_ignore_ascii_case :: "string \<Rightarrow> string \<Rightarrow> bool" where
  "eq_ignore_ascii_case a b \<longleftrightarrow> to_ascii_uppercase a = to_ascii_uppercase b"

section \<open>Texts of third-party types\<close>

text \<open>
  \<open>principal_text\<close> and \<open>principal_debug\<close> are \<open>Display\<close> and \<open>Debug\<close> of \<open>candid::Principal\<close>,
  \<open>nat_text\<close> is \<open>Display\<close> of \<open>candid::Nat\<close> (digits in groups), \<open>biguint_text\<close> is \<open>Display\<close> of
  \<open>num_bigint::BigUint\<close> (plain digits). The errors of ICRC ledgers are those of \<open>icrc_ledger_types\<close>,
  variant by variant, and their \<open>Display\<close> is a parameter too.
\<close>

datatype transfer_error =
    T_BadFee nat | T_BadBurn nat | T_InsufficientFunds nat | T_TooOld | T_CreatedInFuture u64 | T_Duplicate nat
  | T_TemporarilyUnavailable | T_GenericError nat string

datatype transfer_from_error =
    TF_BadFee nat | TF_BadBurn nat | TF_InsufficientFunds nat | TF_InsufficientAllowance nat | TF_TooOld
  | TF_CreatedInFuture u64 | TF_Duplicate nat | TF_TemporarilyUnavailable | TF_GenericError nat string

record text_ops =
  principal_text :: "principal \<Rightarrow> string"
  principal_debug :: "principal \<Rightarrow> string"
  nat_text :: "nat \<Rightarrow> string"
  biguint_text :: "nat \<Rightarrow> string"
  transfer_error_text :: "transfer_error \<Rightarrow> string"
  transfer_from_error_text :: "transfer_from_error \<Rightarrow> string"

text \<open>What the code relies on: a big integer is printed in decimal.\<close>

definition biguint_text_ok :: "text_ops \<Rightarrow> bool" where
  "biguint_text_ok tx \<longleftrightarrow> biguint_text tx = dec_string"

text \<open>\<open>Debug\<close> of an \<open>Option\<close>, and \<open>join\<close> of the standard library.\<close>

definition option_text :: "('a \<Rightarrow> string) \<Rightarrow> 'a option \<Rightarrow> string" where
  "option_text f x = (case x of None \<Rightarrow> ''None'' | Some v \<Rightarrow> ''Some('' @ f v @ '')'')"

fun join :: "string \<Rightarrow> string list \<Rightarrow> string" where
  "join sep [] = []"
| "join sep [x] = x"
| "join sep (x # y # rest) = x @ sep @ join sep (y # rest)"

section \<open>Digits\<close>

lemma digit_val_char: "d < 10 \<Longrightarrow> digit_val (digit_char d) = Some d"
  by (simp add: digit_val_def digit_char_def Let_def)

lemma is_digit_char [simp]: "d < 10 \<Longrightarrow> is_digit (digit_char d)"
  by (simp add: is_digit_def digit_val_char)

lemma dec_val_append: "dec_val (xs @ ys) = dec_val xs * 10 ^ length ys + dec_val ys"
proof (induction ys rule: rev_induct)
  case (snoc y ys)
  then show ?case by (simp add: dec_val_def algebra_simps flip: append_assoc)
qed (simp add: dec_val_def)

lemma dec_val_Nil [simp]: "dec_val [] = 0"
  by (simp add: dec_val_def)

lemma dec_val_digit [simp]: "d < 10 \<Longrightarrow> dec_val [digit_char d] = d"
  by (simp add: dec_val_def digit_char_def)

lemma digit_char_0: "digit_char 0 = CHR ''0''"
  by (simp only: digit_char_def) code_simp

lemma dec_val_zeros [simp]: "dec_val (replicate n CHR ''0'') = 0"
proof (induction n)
  case (Suc n)
  have "replicate (Suc n) CHR ''0'' = replicate n CHR ''0'' @ [digit_char 0]"
    by (simp add: digit_char_0 replicate_append_same)
  then show ?case using Suc by (simp only: dec_val_append) simp
qed simp

lemma dec_val_dec_string: "dec_val (dec_string n) = n"
proof (induction n rule: dec_string.induct)
  case (1 n)
  show ?case
  proof (cases "n < 10")
    case False
    then have "dec_val (dec_string n) = dec_val (dec_string (n div 10)) * 10 + n mod 10"
      by (subst dec_string.simps) (simp add: dec_val_append)
    with 1 False show ?thesis by simp
  qed (simp add: dec_string.simps [of n])
qed

lemma dec_string_digits: "list_all is_digit (dec_string n)"
proof (induction n rule: dec_string.induct)
  case (1 n)
  then show ?case by (cases "n < 10") (simp_all add: dec_string.simps [of n])
qed

lemma dec_string_nonempty [simp]: "dec_string n \<noteq> []"
  by (simp add: dec_string.simps [of n])

lemma dec_string_inject [simp]: "dec_string m = dec_string n \<longleftrightarrow> m = n"
  by (metis dec_val_dec_string)

lemma dec_string_hd_zero: "hd (dec_string n) = CHR ''0'' \<longleftrightarrow> n = 0"
proof (induction n rule: dec_string.induct)
  case (1 n)
  show ?case
  proof (cases "n < 10")
    case True
    then have "digit_char n = digit_char 0 \<longleftrightarrow> n = 0" by (metis dec_val_digit zero_less_numeral)
    then show ?thesis using True by (simp add: dec_string.simps [of n] digit_char_0)
  next
    case False
    then show ?thesis using 1 by (simp add: dec_string.simps [of n])
  qed
qed

lemma dec_val_bound: "list_all is_digit s \<Longrightarrow> dec_val s < 10 ^ length s"
proof (induction s rule: rev_induct)
  case (snoc c s)
  then have "(dec_val s + 1) * 10 \<le> 10 ^ length s * 10" by (intro mult_le_mono1) simp
  moreover have "(of_char c :: nat) - 48 < 10" using snoc.prems by (auto simp: is_digit_def digit_val_def Let_def split: if_splits)
  ultimately show ?case by (simp add: dec_val_append) (simp add: dec_val_def)
qed simp

lemma foldl_radix10:
  assumes "list_all is_digit s" "dec_val s < 2 ^ 64"
  shows "foldl radix10_step (Some 0) s = Some (of_nat (dec_val s))"
  using assms
proof (induction s rule: rev_induct)
  case (snoc c s)
  obtain d where d: "digit_val c = Some d" "d = of_char c - 48" "d < 10"
    using snoc.prems(1) by (auto simp: is_digit_def digit_val_def Let_def split: if_splits)
  have v: "dec_val (s @ [c]) = dec_val s * 10 + d" using d(2) by (simp add: dec_val_append) (simp add: dec_val_def)
  then have small: "dec_val s * 10 + d < 2 ^ 64" using snoc.prems(2) by simp
  have u: "unat (of_nat (dec_val s) :: u64) = dec_val s" "unat (of_nat d :: u64) = d"
    using small d(3) by (simp_all add: unat_of_nat_small)
  have m: "checked_mul (of_nat (dec_val s)) (10 :: u64) = Some (of_nat (dec_val s * 10))"
    using small u by (simp add: checked_mul_def)
  have u2: "unat (of_nat (dec_val s * 10) :: u64) = dec_val s * 10" using small by (intro unat_of_nat_small) simp
  have "checked_add (of_nat (dec_val s * 10)) (of_nat d :: u64) = Some (of_nat (dec_val s * 10 + d))"
    using small u u2 by (simp add: checked_add_def)
  then show ?case using snoc small d(1) m v by (simp add: radix10_step_def)
qed simp

lemma u64_from_str_dec: "n < 2 ^ 64 \<Longrightarrow> u64_from_str (dec_string n) = Some (of_nat n)"
proof -
  assume n: "n < 2 ^ 64"
  obtain c rest where s: "dec_string n = c # rest" by (metis dec_string_nonempty neq_Nil_conv)
  then have "is_digit c" using dec_string_digits [of n] by simp
  then have "c \<noteq> CHR ''+''" by (auto simp: is_digit_def digit_val_def)
  then have "u64_from_str (dec_string n) = foldl radix10_step (Some 0) (dec_string n)"
    by (simp add: u64_from_str_def Let_def s)
  then show ?thesis using foldl_radix10 [OF dec_string_digits [of n]] n by (simp add: dec_val_dec_string)
qed

end
