(* ===== verification/Api.thy ===== *)
theory Api
  imports Executor Snapshot Text
begin

text \<open>
  The endpoints (\<open>lib.rs\<close>), the client of the ICRC ledgers (\<open>ledger/mod.rs\<close>) and the life cycle
  (\<open>lifecycle/mod.rs\<close>). A ledger is outside the repository: the answer to a call is a parameter. An
  asynchronous endpoint is two operations, what it does before the call and what it does with the
  answer; other messages may run in between, and its in-flight guard is held from the first to the
  second.
\<close>

section \<open>Orders\<close>

definition api_add_limit_order ::
  "biguint_ops \<Rightarrow> limit_order_request \<Rightarrow> runtime \<Rightarrow> canister \<Rightarrow> ((add_limit_order_error + string) \<times> canister) option" where
  "api_add_limit_order big req rt c = do {
     _ \<leftarrow> assert_caller_is_allowed rt (cn_state c);
     let caller = rt_caller rt;
     let owner = effective_account (cn_state c) caller;
     let placed_by = (if caller \<noteq> owner then Some caller else None);
     (case pending_order_try_from big req of
        Inl _ \<Rightarrow> Some (Inl AmountExceedsMaximum, c)
      | Inr pending \<Rightarrow> do {
          validated \<leftarrow> validate_limit_order owner (req_pair req) pending (cn_state c);
          (case validated of
             Inl e \<Rightarrow> Some (Inl e, c)
           | Inr (i, ord) \<Rightarrow>
               (case permit_trading (st_permissions (cn_state c)) (fst i) of
                  Inl UE_TradingHalted \<Rightarrow> Some (Inl TradingHalted, c)
                | Inl UE_NotController \<Rightarrow> None
                | Inr _ \<Rightarrow> do {
                    c' \<leftarrow> process_event (Ev_AddLimitOrder \<lparr>ao_user = owner, ao_order_id = i, ao_side = ord_side ord,
                      ao_price = ord_price ord, ao_quantity = ord_remaining ord, ao_tif = ord_tif ord,
                      ao_placed_by = placed_by\<rparr>) (rt_time rt) c;
                    Some (Inr (order_id_to_string i), c')
                  }))
        })
   }"

datatype api_cancel_error = InvalidOrderId | CancelError cancel_limit_order_error

definition api_cancel_limit_order ::
  "string \<Rightarrow> runtime \<Rightarrow> canister \<Rightarrow> ((api_cancel_error + order_record) \<times> canister) option" where
  "api_cancel_limit_order text_id rt c = do {
     _ \<leftarrow> assert_caller_is_allowed rt (cn_state c);
     let caller = rt_caller rt;
     let owner = effective_account (cn_state c) caller;
     let canceled_by = (if caller \<noteq> owner then Some caller else None);
     (case order_id_parse text_id of
        Inl _ \<Rightarrow> Some (Inl InvalidOrderId, c)
      | Inr i \<Rightarrow> do {
          (result, c') \<leftarrow> st_cancel_limit_order owner canceled_by i (rt_time rt) c;
          Some (case result of Inl e \<Rightarrow> Inl (CancelError e) | Inr record \<Rightarrow> Inr record, c')
        })
   }"

section \<open>Trading accounts\<close>

definition api_add_trading_account ::
  "principal_consts \<Rightarrow> principal \<Rightarrow> runtime \<Rightarrow> canister \<Rightarrow> ((add_trading_account_error + unit) \<times> canister) option" where
  "api_add_trading_account pc trading rt c = do {
     _ \<leftarrow> assert_caller_is_allowed rt (cn_state c);
     let funding = rt_caller rt;
     (case st_validate_add_trading_account pc funding trading (rt_time rt) (cn_state c) of
        Inl e \<Rightarrow> Some (Inl e, c)
      | Inr _ \<Rightarrow> do {
          c' \<leftarrow> process_event (Ev_AddTradingAccount \<lparr>ta_funding = funding, ta_trading = trading\<rparr>) (rt_time rt) c;
          Some (Inr (), c')
        })
   }"

definition api_remove_trading_account ::
  "principal \<Rightarrow> runtime \<Rightarrow> canister \<Rightarrow> ((revoke_error + unit) \<times> canister) option" where
  "api_remove_trading_account trading rt c = do {
     _ \<leftarrow> assert_caller_is_allowed rt (cn_state c);
     let funding = rt_caller rt;
     (case st_validate_remove_trading_account funding trading (cn_state c) of
        Inl e \<Rightarrow> Some (Inl e, c)
      | Inr _ \<Rightarrow> do {
          c' \<leftarrow> process_event (Ev_RemoveTradingAccount \<lparr>ta_funding = funding, ta_trading = trading\<rparr>) (rt_time rt) c;
          Some (Inr (), c')
        })
   }"

section \<open>Market data\<close>

definition DEFAULT_DEPTH_LIMIT :: u32 where
  "DEFAULT_DEPTH_LIMIT = 100"

definition MAX_DEPTH_LIMIT :: u32 where
  "MAX_DEPTH_LIMIT = 1000"

datatype depth_error = LimitTooLarge u32 u32 | Depth_UnknownTradingPair

record public_level =
  pl_price :: nat
  pl_quantity :: nat

definition to_price_level :: "price \<times> quantity \<Rightarrow> public_level" where
  "to_price_level l = \<lparr>pl_price = unat (fst l), pl_quantity = to_nat (snd l)\<rparr>"

record order_book_depth =
  dp_bids :: "public_level list"
  dp_asks :: "public_level list"

definition get_order_book_depth :: "trading_pair \<Rightarrow> u32 option \<Rightarrow> trade_state \<Rightarrow> depth_error + order_book_depth" where
  "get_order_book_depth pair limit s =
     (case (case limit of
              None \<Rightarrow> Inr DEFAULT_DEPTH_LIMIT
            | Some n \<Rightarrow> if n \<le> MAX_DEPTH_LIMIT then Inr n else Inl (LimitTooLarge n MAX_DEPTH_LIMIT)) of
        Inl e \<Rightarrow> Inl e
      | Inr lim \<Rightarrow>
          (case get_order_book s pair of
             None \<Rightarrow> Inl Depth_UnknownTradingPair
           | Some book \<Rightarrow>
               Inr \<lparr>dp_bids = map to_price_level (bid_levels book (unat lim)),
                    dp_asks = map to_price_level (ask_levels book (unat lim))\<rparr>))"

record order_book_ticker =
  tk_bid :: "public_level option"
  tk_ask :: "public_level option"

definition get_order_book_ticker :: "trading_pair \<Rightarrow> trade_state \<Rightarrow> order_book_ticker option" where
  "get_order_book_ticker pair s =
     map_option (\<lambda>book. \<lparr>tk_bid = map_option to_price_level (case bid_levels book 1 of [] \<Rightarrow> None | l # _ \<Rightarrow> Some l),
       tk_ask = map_option to_price_level (case ask_levels book 1 of [] \<Rightarrow> None | l # _ \<Rightarrow> Some l)\<rparr>)
     (get_order_book s pair)"

record trading_pair_info =
  pi_base :: token_id
  pi_base_metadata :: token_metadata
  pi_quote :: token_id
  pi_quote_metadata :: token_metadata
  pi_halted :: bool
  pi_tick_size :: nat
  pi_lot_size :: nat
  pi_fee_rates :: fee_rates
  pi_min_notional :: nat
  pi_max_notional :: "nat option"

definition trading_pair_info_of :: "trade_state \<Rightarrow> trading_pair \<times> order_book_id \<Rightarrow> trading_pair_info option" where
  "trading_pair_info_of s e = do {
     book \<leftarrow> bt_get (st_books s) (snd e);
     base_meta \<leftarrow> bt_get (st_tokens s) (tp_base (fst e));
     quote_meta \<leftarrow> bt_get (st_tokens s) (tp_quote (fst e));
     Some \<lparr>pi_base = tp_base (fst e), pi_base_metadata = base_meta, pi_quote = tp_quote (fst e),
           pi_quote_metadata = quote_meta, pi_halted = is_halted (st_permissions s) (snd e),
           pi_tick_size = unat (bk_tick_size book), pi_lot_size = unat (bk_lot_size book),
           pi_fee_rates = bk_fee_rates book, pi_min_notional = to_nat (bk_min_notional book),
           pi_max_notional = map_option to_nat (bk_max_notional book)\<rparr>
   }"

definition get_trading_pairs :: "trade_state \<Rightarrow> trading_pair_info list option" where
  "get_trading_pairs s = those (map (trading_pair_info_of s) (st_pairs s))"

section \<open>Deposits\<close>

text \<open>The answer of a ledger: a failed call and an answer that does not decode come with the text of the error.\<close>

datatype 'e call_result = CallFailed string | DecodeFailed string | LedgerError 'e | Block nat

datatype deposit_error =
    D_AmountExceedsMaximum | D_UnsupportedToken | D_TradingAccountForbidden | D_OperationInProgress
  | D_CallFailed string | D_DecodeFailed string | D_InsufficientFunds nat | D_InsufficientAllowance nat
  | D_LedgerTemporarilyUnavailable | D_LedgerError transfer_from_error

definition to_ledger_error :: "transfer_from_error \<Rightarrow> deposit_error" where
  "to_ledger_error e = (case e of TF_InsufficientFunds b \<Rightarrow> D_InsufficientFunds b
     | TF_InsufficientAllowance a \<Rightarrow> D_InsufficientAllowance a
     | TF_TemporarilyUnavailable \<Rightarrow> D_LedgerTemporarilyUnavailable
     | _ \<Rightarrow> D_LedgerError e)"

definition ledger_deposit :: "transfer_from_error call_result \<Rightarrow> deposit_error + nat" where
  "ledger_deposit answer = (case answer of CallFailed e \<Rightarrow> Inl (D_CallFailed e) | DecodeFailed e \<Rightarrow> Inl (D_DecodeFailed e)
     | LedgerError e \<Rightarrow> Inl (to_ledger_error e) | Block i \<Rightarrow> Inr i)"

definition is_trading_account :: "trade_state \<Rightarrow> principal \<Rightarrow> bool" where
  "is_trading_account s p = (case registry_lookup (st_registry s) p of Some (Trading _ _) \<Rightarrow> True | _ \<Rightarrow> False)"

text \<open>Up to the ledger call: an error, or the amount to transfer with the guard held.\<close>

definition deposit_start ::
  "biguint_ops \<Rightarrow> token_id \<Rightarrow> nat \<Rightarrow> runtime \<Rightarrow> canister \<Rightarrow> ((deposit_error + quantity) \<times> canister) option" where
  "deposit_start big token requested rt c = do {
     _ \<leftarrow> assert_caller_is_allowed rt (cn_state c);
     Some (case quantity_try_from big requested of
        Inl _ \<Rightarrow> (Inl D_AmountExceedsMaximum, c)
      | Inr amount \<Rightarrow>
          if \<not> is_known_token (cn_state c) token then (Inl D_UnsupportedToken, c)
          else
            (case permit_deposit (st_permissions (cn_state c)) (is_trading_account (cn_state c) (rt_caller rt)) of
               Inl TradingAccountForbidden \<Rightarrow> (Inl D_TradingAccountForbidden, c)
             | Inr _ \<Rightarrow>
                 (case user_op_guard_new (rt_caller rt) token (cn_state c) of
                    None \<Rightarrow> (Inl D_OperationInProgress, c)
                  | Some s \<Rightarrow>
                      let existing = st_get_balance s (rt_caller rt) token
                      in if Option.bind (quantity_add (bal_free existing) (bal_reserved existing))
                              (\<lambda>held. quantity_add held amount) = None
                         then (Inl D_AmountExceedsMaximum, c\<lparr>cn_state := user_op_guard_drop (rt_caller rt) token s\<rparr>)
                         else (Inr amount, c\<lparr>cn_state := s\<rparr>))))
   }"

text \<open>With the answer of the ledger.\<close>

definition deposit_finish ::
  "token_id \<Rightarrow> quantity \<Rightarrow> transfer_from_error call_result \<Rightarrow> runtime \<Rightarrow> canister \<Rightarrow> ((deposit_error + nat) \<times> canister) option" where
  "deposit_finish token amount answer rt c =
     (case ledger_deposit answer of
        Inl e \<Rightarrow> Some (Inl e, c\<lparr>cn_state := user_op_guard_drop (rt_caller rt) token (cn_state c)\<rparr>)
      | Inr block \<Rightarrow> do {
          c' \<leftarrow> process_event (Ev_Deposit \<lparr>de_user = rt_caller rt, de_token = token, de_amount = amount\<rparr>) (rt_time rt) c;
          Some (Inr block, c'\<lparr>cn_state := user_op_guard_drop (rt_caller rt) token (cn_state c')\<rparr>)
        })"

section \<open>Withdrawals\<close>

datatype withdraw_error =
    W_AmountExceedsMaximum | W_UnsupportedToken | W_AmountTooSmall nat | W_TradingAccountForbidden
  | W_OperationInProgress | W_InsufficientBalance nat | W_CallFailed string | W_DecodeFailed string
  | W_LedgerInsufficientFunds nat | W_LedgerTemporarilyUnavailable | W_LedgerFeeChanged | W_LedgerError transfer_error

datatype icrc1_transfer_error = BadFee nat | OtherError withdraw_error

text \<open>\<open>to_ledger_transfer_error\<close>; its \<open>BadFee\<close> branch is unreachable and traps in the source.\<close>

definition icrc1_transfer :: "transfer_error call_result \<Rightarrow> icrc1_transfer_error + nat" where
  "icrc1_transfer answer = (case answer of
     CallFailed e \<Rightarrow> Inl (OtherError (W_CallFailed e)) | DecodeFailed e \<Rightarrow> Inl (OtherError (W_DecodeFailed e))
   | Block i \<Rightarrow> Inr i
   | LedgerError (T_BadFee fee) \<Rightarrow> Inl (BadFee fee)
   | LedgerError (T_InsufficientFunds b) \<Rightarrow> Inl (OtherError (W_LedgerInsufficientFunds b))
   | LedgerError T_TemporarilyUnavailable \<Rightarrow> Inl (OtherError W_LedgerTemporarilyUnavailable)
   | LedgerError e \<Rightarrow> Inl (OtherError (W_LedgerError e)))"

record withdraw_outcome =
  wo_result :: "withdraw_error + nat"
  wo_ledger_fee :: "nat option"

text \<open>The ledger as a function of what it is asked: attempt, amount and fee to answer.\<close>

type_synonym ledger_answers = "nat \<Rightarrow> nat \<Rightarrow> nat \<Rightarrow> transfer_error call_result"

definition ledger_withdraw :: "quantity \<Rightarrow> nat \<Rightarrow> ledger_answers \<Rightarrow> withdraw_outcome" where
  "ledger_withdraw quantity cached_fee ledger =
     (let amount = to_nat quantity;
          capped_fee = min cached_fee (amount - 1);
          transfer_amount = amount - capped_fee
      in case icrc1_transfer (ledger 0 transfer_amount capped_fee) of
           Inr i \<Rightarrow> \<lparr>wo_result = Inr i, wo_ledger_fee = None\<rparr>
         | Inl (OtherError e) \<Rightarrow> \<lparr>wo_result = Inl e, wo_ledger_fee = None\<rparr>
         | Inl (BadFee expected_fee) \<Rightarrow>
             if amount \<le> expected_fee
             then \<lparr>wo_result = Inl (W_AmountTooSmall (expected_fee + 1)), wo_ledger_fee = Some expected_fee\<rparr>
             else (case icrc1_transfer (ledger 1 (amount - expected_fee) expected_fee) of
                     Inr i \<Rightarrow> \<lparr>wo_result = Inr i, wo_ledger_fee = Some expected_fee\<rparr>
                   | Inl (BadFee latest_fee) \<Rightarrow> \<lparr>wo_result = Inl W_LedgerFeeChanged, wo_ledger_fee = Some latest_fee\<rparr>
                   | Inl (OtherError e) \<Rightarrow> \<lparr>wo_result = Inl e, wo_ledger_fee = Some expected_fee\<rparr>))"

definition withdraw_start ::
  "biguint_ops \<Rightarrow> token_id \<Rightarrow> nat \<Rightarrow> runtime \<Rightarrow> canister \<Rightarrow> ((withdraw_error + (quantity \<times> nat)) \<times> canister) option" where
  "withdraw_start big token requested rt c = do {
     _ \<leftarrow> assert_caller_is_allowed rt (cn_state c);
     (case quantity_try_from big requested of
        Inl _ \<Rightarrow> Some (Inl W_AmountExceedsMaximum, c)
      | Inr amount \<Rightarrow>
          if \<not> is_known_token (cn_state c) token then Some (Inl W_UnsupportedToken, c)
          else
            let cached_fee = get_cached_ledger_fee (cn_state c) token
            in if is_zero amount then Some (Inl (W_AmountTooSmall (cached_fee + 1)), c)
               else
                 (case permit_withdraw (st_permissions (cn_state c)) (is_trading_account (cn_state c) (rt_caller rt)) of
                    Inl TradingAccountForbidden \<Rightarrow> Some (Inl W_TradingAccountForbidden, c)
                  | Inr _ \<Rightarrow>
                      (case user_op_guard_new (rt_caller rt) token (cn_state c) of
                         None \<Rightarrow> Some (Inl W_OperationInProgress, c)
                       | Some s \<Rightarrow> do {
                           (result, s') \<leftarrow> st_withdraw (rt_caller rt) token amount s;
                           Some (case result of
                              Inl e \<Rightarrow> (Inl (W_InsufficientBalance (to_nat (ib_available e))),
                                c\<lparr>cn_state := user_op_guard_drop (rt_caller rt) token s'\<rparr>)
                            | Inr _ \<Rightarrow> (Inr (amount, cached_fee), c\<lparr>cn_state := s'\<rparr>))
                         })))
   }"

definition withdraw_finish ::
  "token_id \<Rightarrow> quantity \<Rightarrow> withdraw_outcome \<Rightarrow> runtime \<Rightarrow> canister \<Rightarrow> ((withdraw_error + nat) \<times> canister) option" where
  "withdraw_finish token amount outcome rt c = do {
     let s = (case wo_ledger_fee outcome of
                None \<Rightarrow> cn_state c | Some fee \<Rightarrow> set_cached_ledger_fee token fee (cn_state c));
     (case wo_result outcome of
        Inr block \<Rightarrow> do {
          ensure (block < 2 ^ 64);
          let c1 = record_event (Ev_Withdraw \<lparr>we_block_index = of_nat block, we_user = rt_caller rt, we_token = token,
                we_amount = amount\<rparr>) (rt_time rt) (c\<lparr>cn_state := s\<rparr>);
          Some (Inr block, c1\<lparr>cn_state := user_op_guard_drop (rt_caller rt) token (cn_state c1)\<rparr>)
        }
      | Inl e \<Rightarrow> do {
          s' \<leftarrow> st_deposit (rt_caller rt) token amount Write s;
          Some (Inl e, c\<lparr>cn_state := user_op_guard_drop (rt_caller rt) token s'\<rparr>)
        })
   }"

section \<open>Reading one's own orders, trades and balances\<close>

definition MAX_ORDERS_PER_RESPONSE :: u32 where
  "MAX_ORDERS_PER_RESPONSE = 100"

definition MAX_TRADES_PER_RESPONSE :: u32 where
  "MAX_TRADES_PER_RESPONSE = 100"

definition MAX_FILTER_LEN :: u32 where
  "MAX_FILTER_LEN = 100"

datatype get_my_orders_filter = ById string | ByPage "string option" u32

definition get_my_orders_filter_default :: get_my_orders_filter where
  "get_my_orders_filter_default = ByPage None MAX_ORDERS_PER_RESPONSE"

datatype get_my_orders_error = GO_InvalidOrderId parse_error | GO_OrderNotFound

text \<open>\<open>after.map(parse).transpose()\<close>\<close>

definition parse_cursor :: "(string \<Rightarrow> parse_error + 'i) \<Rightarrow> string option \<Rightarrow> parse_error + 'i option" where
  "parse_cursor parse cursor =
     (case cursor of None \<Rightarrow> Inr None | Some t \<Rightarrow> (case parse t of Inl e \<Rightarrow> Inl e | Inr i \<Rightarrow> Inr (Some i)))"

definition get_my_orders ::
  "get_my_orders_filter option \<Rightarrow> principal \<Rightarrow> trade_state \<Rightarrow>
   (get_my_orders_error + (string \<times> trading_pair \<times> order_record) list) option" where
  "get_my_orders args caller s =
     (let owner = effective_account s caller;
          public = map (\<lambda>(i, pair, record). (order_id_to_string i, pair, record))
      in case (case args of None \<Rightarrow> get_my_orders_filter_default | Some f \<Rightarrow> f) of
           ById t \<Rightarrow>
             (case order_id_parse t of
                Inl e \<Rightarrow> Some (Inl (GO_InvalidOrderId e))
              | Inr i \<Rightarrow> do {
                  found \<leftarrow> get_user_order owner i s;
                  Some (case found of None \<Rightarrow> Inl GO_OrderNotFound | Some order \<Rightarrow> Inr (public [order]))
                })
         | ByPage after_text len \<Rightarrow>
             (case parse_cursor order_id_parse after_text of
                Inl e \<Rightarrow> Some (Inl (GO_InvalidOrderId e))
              | Inr after_id \<Rightarrow> do {
                  page \<leftarrow> get_user_orders owner after_id (unat (min len MAX_ORDERS_PER_RESPONSE)) s;
                  Some (case page of Inl _ \<Rightarrow> Inl GO_OrderNotFound | Inr orders \<Rightarrow> Inr (public orders))
                }))"

datatype trades_filter = ByOrder string "string option" u32 | ByAccount "string option" u32

datatype get_my_trades_error = GM_InvalidOrderId parse_error | GM_InvalidTradeId parse_error | GM_OrderNotFound

definition get_my_trades ::
  "trades_filter \<Rightarrow> principal \<Rightarrow> trade_state \<Rightarrow> (get_my_trades_error + (trade_id \<times> trade_record) list) option" where
  "get_my_trades args caller s =
     (let owner = effective_account s caller
      in case args of
           ByOrder order_text after_text len \<Rightarrow>
             (case order_id_parse order_text of
                Inl e \<Rightarrow> Some (Inl (GM_InvalidOrderId e))
              | Inr i \<Rightarrow>
                  (case parse_cursor trade_id_parse after_text of
                     Inl e \<Rightarrow> Some (Inl (GM_InvalidTradeId e))
                   | Inr after_id \<Rightarrow>
                       Some (case get_user_order_trades owner i after_id (unat (min len MAX_TRADES_PER_RESPONSE)) s of
                               Inr trades \<Rightarrow> Inr (map (\<lambda>(seq, trade). ((i, seq), trade)) trades)
                             | Inl GT_OrderNotFound \<Rightarrow> Inl GM_OrderNotFound
                             | Inl GT_CursorNotFound \<Rightarrow> Inr [])))
         | ByAccount after_text len \<Rightarrow>
             (case parse_cursor trade_id_parse after_text of
                Inl e \<Rightarrow> Some (Inl (GM_InvalidTradeId e))
              | Inr after_id \<Rightarrow> do {
                  page \<leftarrow> get_user_trades owner after_id (unat (min len MAX_TRADES_PER_RESPONSE)) s;
                  Some (case page of Inr trades \<Rightarrow> Inr trades | Inl _ \<Rightarrow> Inr [])
                }))"

datatype get_balances_error = FilterTooLarge u32 u32 | TokenNotSupported token_id

definition validate_filter_len :: "token_id list option \<Rightarrow> get_balances_error + unit" where
  "validate_filter_len f =
     (case f of
        Some entries \<Rightarrow>
          if (of_nat (length entries) :: u32) > MAX_FILTER_LEN
          then Inl (FilterTooLarge (of_nat (length entries)) MAX_FILTER_LEN) else Inr ()
      | None \<Rightarrow> Inr ())"

definition api_get_balances ::
  "token_id list option \<Rightarrow> principal \<Rightarrow> trade_state \<Rightarrow> get_balances_error + user_token_balance list" where
  "api_get_balances f caller s =
     (case validate_filter_len f of
        Inl e \<Rightarrow> Inl e
      | Inr _ \<Rightarrow>
          (case st_get_balances (effective_account s caller) f s of
             Inl t \<Rightarrow> Inl (TokenNotSupported t) | Inr bs \<Rightarrow> Inr bs))"

definition api_get_fee_balances ::
  "token_id list option \<Rightarrow> trade_state \<Rightarrow> (get_balances_error + user_token_balance list) option" where
  "api_get_fee_balances f s =
     (case validate_filter_len f of
        Inl e \<Rightarrow> Some (Inl e)
      | Inr _ \<Rightarrow> do {
          r \<leftarrow> st_get_fee_balances f s;
          Some (case r of Inl t \<Rightarrow> Inl (TokenNotSupported t) | Inr bs \<Rightarrow> Inr bs)
        })"

definition list_supported_tokens :: "trade_state \<Rightarrow> (token_id \<times> token_metadata) list" where
  "list_supported_tokens s = st_tokens s"

section \<open>Administration\<close>

record add_trading_pair_request =
  rq_base :: token_id
  rq_base_metadata :: token_metadata
  rq_quote :: token_id
  rq_quote_metadata :: token_metadata
  rq_tick_size :: nat
  rq_lot_size :: nat
  rq_maker_fee_bps :: u16
  rq_taker_fee_bps :: u16
  rq_min_notional :: nat
  rq_max_notional :: "nat option"

datatype add_trading_pair_error =
    NotController | BaseEqualsQuote | PE_InvalidTickSize | PE_InvalidLotSize | InvalidBasisPoint u16
  | PE_InvalidNotional nat "nat option" | TradingPairAlreadyExists | InconsistentTokenMetadata inconsistent_metadata
  | BaseDecimalsTooLarge u8 | IndivisibleTickLotForBaseDecimals u128 u64 u8

text \<open>The checks that need no state: sizes, rates and notional bounds.\<close>

definition parse_pair_request ::
  "biguint_ops \<Rightarrow> add_trading_pair_request \<Rightarrow>
   add_trading_pair_error + (u128 \<times> u64 \<times> fee_rates \<times> quantity \<times> quantity option)" where
  "parse_pair_request big req =
     (if \<not> (rq_tick_size req < 2 ^ 128 \<and> rq_tick_size req \<noteq> 0) then Inl PE_InvalidTickSize
      else if \<not> (rq_lot_size req < 2 ^ 64 \<and> rq_lot_size req \<noteq> 0) then Inl PE_InvalidLotSize
      else
        (case basis_point_new (rq_maker_fee_bps req) of
           Inl _ \<Rightarrow> Inl (InvalidBasisPoint (rq_maker_fee_bps req))
         | Inr mk \<Rightarrow>
             (case basis_point_new (rq_taker_fee_bps req) of
                Inl _ \<Rightarrow> Inl (InvalidBasisPoint (rq_taker_fee_bps req))
              | Inr tk \<Rightarrow>
                  (case quantity_try_from big (rq_min_notional req) of
                     Inl _ \<Rightarrow> Inl (PE_InvalidNotional (rq_min_notional req) (rq_max_notional req))
                   | Inr min_notional \<Rightarrow>
                       if is_zero min_notional then Inl (PE_InvalidNotional (rq_min_notional req) (rq_max_notional req))
                       else
                         (case (case rq_max_notional req of
                                  None \<Rightarrow> Inr None
                                | Some m \<Rightarrow>
                                    (case quantity_try_from big m of
                                       Inl _ \<Rightarrow> Inl (PE_InvalidNotional (rq_min_notional req) (rq_max_notional req))
                                     | Inr max_notional \<Rightarrow>
                                         if max_notional < min_notional then Inl (PE_InvalidNotional (rq_min_notional req) (rq_max_notional req))
                                         else Inr (Some max_notional))) of
                            Inl e \<Rightarrow> Inl e
                          | Inr max_notional \<Rightarrow>
                              Inr (of_nat (rq_tick_size req), of_nat (rq_lot_size req),
                                   \<lparr>maker = mk, taker = tk\<rparr>, min_notional, max_notional))))))"

text \<open>The checks against the state: a new pair, consistent metadata and exact settlement.\<close>

definition validate_new_pair ::
  "add_trading_pair_request \<Rightarrow> u128 \<Rightarrow> u64 \<Rightarrow> trade_state \<Rightarrow> (add_trading_pair_error + unit) option" where
  "validate_new_pair req tick lot s =
     (let pair = \<lparr>tp_base = rq_base req, tp_quote = rq_quote req\<rparr>
      in if has_trading_pair s pair then Some (Inl TradingPairAlreadyExists)
         else
           (case check_token_metadata_consistency (rq_base req) (rq_base_metadata req) s of
              Inl e \<Rightarrow> Some (Inl (InconsistentTokenMetadata e))
            | Inr _ \<Rightarrow>
                (case check_token_metadata_consistency (rq_quote req) (rq_quote_metadata req) s of
                   Inl e \<Rightarrow> Some (Inl (InconsistentTokenMetadata e))
                 | Inr _ \<Rightarrow>
                     let base_decimals = decimals (rq_base_metadata req)
                     in (case checked_pow (10 :: u64) (unat base_decimals) of
                           None \<Rightarrow> Some (Inl (BaseDecimalsTooLarge base_decimals))
                         | Some scale \<Rightarrow> do {
                             tick_lot \<leftarrow> checked_mul_u64 (from_u128 tick) lot;
                             (_, remainder) \<leftarrow> checked_div_rem_u64 tick_lot scale;
                             Some (if remainder \<noteq> 0
                                   then Inl (IndivisibleTickLotForBaseDecimals tick lot base_decimals)
                                   else Inr ())
                           }))))"

definition add_trading_pair ::
  "biguint_ops \<Rightarrow> add_trading_pair_request \<Rightarrow> runtime \<Rightarrow> canister \<Rightarrow>
   ((add_trading_pair_error + unit) \<times> canister) option" where
  "add_trading_pair big req rt c =
     (if \<not> rt_is_controller rt (rt_caller rt) then Some (Inl NotController, c)
      else if rq_base req = rq_quote req then Some (Inl BaseEqualsQuote, c)
      else
        (case parse_pair_request big req of
           Inl e \<Rightarrow> Some (Inl e, c)
         | Inr (tick, lot, rates, min_notional, max_notional) \<Rightarrow> do {
             validated \<leftarrow> validate_new_pair req tick lot (cn_state c);
             (case validated of
                Inl e \<Rightarrow> Some (Inl e, c)
              | Inr _ \<Rightarrow> do {
                  c' \<leftarrow> process_event (Ev_AddTradingPair
                    \<lparr>ap_book_id = st_next_book_id (cn_state c), ap_base = rq_base req, ap_quote = rq_quote req,
                     ap_tick_size = tick, ap_lot_size = lot, ap_base_metadata = rq_base_metadata req,
                     ap_quote_metadata = rq_quote_metadata req, ap_fee_rates = rates,
                     ap_min_notional = min_notional, ap_max_notional = max_notional\<rparr>) (rt_time rt) c;
                  Some (Inr (), c')
                })
           }))"

definition MAX_HALT_BOOKS :: nat where
  "MAX_HALT_BOOKS = 100"

definition set_halt ::
  "trading_pair list option \<Rightarrow> bool \<Rightarrow> runtime \<Rightarrow> canister \<Rightarrow> ((unauthorized_error + unit) \<times> canister) option" where
  "set_halt pairs halted rt c =
     (if \<not> rt_is_controller rt (rt_caller rt) then Some (Inl UE_NotController, c)
      else do {
        book_ids \<leftarrow>
          (case pairs of
             None \<Rightarrow> Some None
           | Some ps \<Rightarrow> do {
               ensure (length ps \<le> MAX_HALT_BOOKS);
               books \<leftarrow> those (map (get_book_id (st_pairs (cn_state c))) ps);
               Some (Some books)
             });
        c' \<leftarrow> process_event (Ev_SetHalt \<lparr>sh_book_ids = book_ids, sh_halted = halted\<rparr>) (rt_time rt) c;
        Some (Inr (), c')
      })"

definition halt_trading :: "trading_pair list option \<Rightarrow> runtime \<Rightarrow> canister \<Rightarrow> ((unauthorized_error + unit) \<times> canister) option" where
  "halt_trading pairs rt c = set_halt pairs True rt c"

definition resume_trading :: "trading_pair list option \<Rightarrow> runtime \<Rightarrow> canister \<Rightarrow> ((unauthorized_error + unit) \<times> canister) option" where
  "resume_trading pairs rt c = set_halt pairs False rt c"

end
