(* ===== verification/Book_Accounting.thy ===== *)
theory Book_Accounting
  imports Book_Operations Settlement
begin

text \<open>
  Accounting of the orders in a book. A stake is what an order still wants: its number, side,
  limit and remaining quantity. Whatever additive value is put on stakes, matching conserves it:
  the value before a round is the value of the stakes that are left plus the value of the two
  sides of every fill plus the value of the orders that expired. Choosing the value gives the
  reservations, the remaining quantities and the terms of the orders from one lemma.
\<close>

type_synonym stake_value = "order_seq \<Rightarrow> side \<Rightarrow> price \<Rightarrow> nat \<Rightarrow> nat"

definition side_stakes :: "stake_value \<Rightarrow> side \<Rightarrow> (price \<times> resting_order) list \<Rightarrow> nat" where
  "side_stakes f s xs = (\<Sum>(p, r)\<leftarrow>xs. f (ro_id r) s p (q2n (ro_remaining r)))"

definition order_stake :: "stake_value \<Rightarrow> order \<Rightarrow> nat" where
  "order_stake f ord = f (ord_id ord) (ord_side ord) (ord_price ord) (q2n (ord_remaining ord))"

definition removed_stake :: "stake_value \<Rightarrow> order_seq \<times> removed_order \<Rightarrow> nat" where
  "removed_stake f e = f (fst e) (rm_side (snd e)) (rm_price (snd e)) (q2n (rm_remaining (snd e)))"

definition stake_sum :: "stake_value \<Rightarrow> order_book \<Rightarrow> nat" where
  "stake_sum f b = side_stakes f Buy (side_list Buy b) + side_stakes f Sell (side_list Sell b) +
     (\<Sum>ord\<leftarrow>bk_pending_orders b. order_stake f ord)"

definition fill_stake :: "stake_value \<Rightarrow> fill \<Rightarrow> nat" where
  "fill_stake f fl =
     f (fl_maker fl) (opposite (fl_taker_side fl)) (fl_maker_price fl) (q2n (fl_quantity fl)) +
     f (fl_taker fl) (fl_taker_side fl) (fl_taker_price fl) (q2n (fl_quantity fl))"

definition additive :: "nat \<Rightarrow> nat \<Rightarrow> stake_value \<Rightarrow> bool" where
  "additive tick lot f \<longleftrightarrow>
     (\<forall>i s p m n. tick dvd unat p \<longrightarrow> lot dvd m \<longrightarrow> lot dvd n \<longrightarrow> f i s p (m + n) = f i s p m + f i s p n)"

text \<open>What a fill of a well-formed book looks like.\<close>

definition fill_fits :: "nat \<Rightarrow> nat \<Rightarrow> fill \<Rightarrow> bool" where
  "fill_fits tick lot fl \<longleftrightarrow> q2n (fl_quantity fl) \<noteq> 0 \<and> lot dvd q2n (fl_quantity fl) \<and>
     tick dvd unat (fl_maker_price fl) \<and> tick dvd unat (fl_taker_price fl) \<and>
     \<not> stops (fl_taker_side fl) (fl_taker_price fl) (fl_maker_price fl)"

section \<open>One order\<close>

lemma additiveD:
  "additive tick lot f \<Longrightarrow> tick dvd unat p \<Longrightarrow> lot dvd m \<Longrightarrow> lot dvd n \<Longrightarrow> f i s p (m + n) = f i s p m + f i s p n"
  by (simp add: additive_def)

lemma additive_0: "additive tick lot f \<Longrightarrow> tick dvd unat p \<Longrightarrow> f i s p 0 = 0"
  using additiveD [of tick lot f p 0 0 i s] by simp

lemma side_stakes_simps [simp]:
  "side_stakes f s [] = 0"
  "side_stakes f s ((p, r) # xs) = f (ro_id r) s p (q2n (ro_remaining r)) + side_stakes f s xs"
  "side_stakes f s (xs @ ys) = side_stakes f s xs + side_stakes f s ys"
  by (simp_all add: side_stakes_def)

lemma side_stakes_insert [simp]:
  "side_stakes f s (insert_priority s' x xs) = side_stakes f s [x] + side_stakes f s xs"
proof -
  have "side_stakes f s (takeWhile P xs) + side_stakes f s (dropWhile P xs) = side_stakes f s xs" for P
    by (metis side_stakes_simps(3) takeWhile_dropWhile_id)
  then show ?thesis by (cases x) (simp add: insert_priority_def)
qed

lemma stake_sum_side:
  "stake_sum f b = side_stakes f s (side_list s b) + side_stakes f (opposite s) (side_list (opposite s) b) +
     (\<Sum>ord\<leftarrow>bk_pending_orders b. order_stake f ord)"
  by (cases s) (simp_all add: stake_sum_def)

definition maker_fits :: "nat \<Rightarrow> nat \<Rightarrow> price \<times> resting_order \<Rightarrow> bool" where
  "maker_fits tick lot y \<longleftrightarrow> tick dvd unat (fst y) \<and> lot dvd q2n (ro_remaining (snd y)) \<and> q2n (ro_remaining (snd y)) \<noteq> 0"

lemma take_liquidity_stakes:
  assumes "take_liquidity stop n makers = (fs, n', makers')" "additive tick lot f" "lot dvd n"
    "list_all (maker_fits tick lot) makers"
  shows "side_stakes f s makers = side_stakes f s makers' + (\<Sum>(p, i, x)\<leftarrow>fs. f i s p x)"
  using assms
proof (induction stop n makers arbitrary: fs rule: take_liquidity.induct)
  case (2 stop n k r rest)
  let ?m = "q2n (ro_remaining r)"
  have m: "tick dvd unat k" "lot dvd ?m" using "2.prems"(4) by (simp_all add: maker_fits_def)
  show ?case
  proof (cases "stop k \<or> n = 0 \<or> ?m \<le> n")
    case True
    then show ?thesis
      using 2 m by (auto simp: Let_def dvd_diff_nat split: if_splits prod.splits)
  next
    case False
    then have "f (ro_id r) s k ?m = f (ro_id r) s k (?m - n) + f (ro_id r) s k n"
      using additiveD [OF "2.prems"(2) m(1), of "?m - n" n] m(2) "2.prems"(3) by (simp add: dvd_diff_nat)
    moreover have "q2n (n2q (?m - n)) = ?m - n" using q2n_bound [of "ro_remaining r"] by simp
    ultimately show ?thesis using False "2.prems"(1) by auto
  qed
qed simp

lemma take_liquidity_fits:
  assumes "take_liquidity stop n makers = (fs, n', makers')" "lot dvd n" "list_all (maker_fits tick lot) makers"
  shows "\<forall>(p, i, x) \<in> set fs. x \<noteq> 0 \<and> lot dvd x \<and> tick dvd unat p \<and> \<not> stop p"
  using assms
proof (induction stop n makers arbitrary: fs rule: take_liquidity.induct)
  case (2 stop n k r rest)
  show ?case
  proof (cases "stop k \<or> n = 0 \<or> n < q2n (ro_remaining r)")
    case True
    then show ?thesis using 2 by (auto simp: maker_fits_def split: if_splits)
  next
    case False
    then obtain fs' where "take_liquidity stop (n - q2n (ro_remaining r)) rest = (fs', n', makers')"
        "fs = (k, ro_id r, q2n (ro_remaining r)) # fs'"
      using "2.prems"(1) by (auto simp: Let_def split: prod.splits)
    then show ?thesis using 2 False by (auto simp: maker_fits_def dvd_diff_nat)
  qed
qed simp

lemma fills_from_map:
  "unat seq + length fs < 2 ^ 64 \<Longrightarrow> map (\<lambda>f. unat (fl_seq f)) (fills_from ord seq fs) = [unat seq..<unat seq + length fs]"
proof (induction fs arbitrary: seq)
  case (Cons x fs)
  obtain p i q where x: "x = (p, i, q)" by (cases x)
  have "unat (seq + 1) = Suc (unat seq)" using Cons.prems by (subst unat_add_no_overflow) simp_all
  then have "map (\<lambda>f. unat (fl_seq f)) (fills_from ord (seq + 1) fs) = [Suc (unat seq)..<unat seq + Suc (length fs)]"
    using Cons.IH [of "seq + 1"] Cons.prems by simp
  then show ?case by (simp add: x upt_conv_Cons del: upt_Suc)
qed simp

lemma fill_stake_from:
  assumes "\<forall>(p, i, x) \<in> set fs. x < 2 ^ 256"
  shows "(\<Sum>fl\<leftarrow>fills_from ord seq fs. fill_stake f fl) =
    (\<Sum>(p, i, x)\<leftarrow>fs. f i (opposite (ord_side ord)) p x) + (\<Sum>(p, i, x)\<leftarrow>fs. f (ord_id ord) (ord_side ord) (ord_price ord) x)"
  using assms by (induction fs arbitrary: seq) (auto simp: fill_stake_def)

lemma fills_from_fits:
  assumes "tick dvd unat (ord_price ord)"
    "\<forall>(p, i, x) \<in> set fs. x < 2 ^ 256 \<and> x \<noteq> 0 \<and> lot dvd x \<and> tick dvd unat p \<and> \<not> stops (ord_side ord) (ord_price ord) p"
  shows "list_all (fill_fits tick lot) (fills_from ord seq fs)"
  using assms(2)
proof (induction fs arbitrary: seq)
  case (Cons x fs)
  then show ?case using assms(1) by (cases x) (simp add: fill_fits_def)
qed simp

lemma additive_sum:
  assumes "additive tick lot f" "tick dvd unat p" "\<forall>x \<in> set xs. lot dvd x"
  shows "f i s p (sum_list xs) = (\<Sum>x\<leftarrow>xs. f i s p x) \<and> lot dvd sum_list xs"
  using assms(3)
  by (induction xs) (simp_all add: additive_0 [OF assms(1,2)] additiveD [OF assms(1,2)])

lemma makers_fit:
  "book_ok b \<Longrightarrow> list_all (maker_fits (unat (bk_tick_size b)) (unat (bk_lot_size b))) (side_list s b)"
  by (cases s) (auto simp: book_ok_def side_ok_def list_all_iff maker_fits_def valid_amounts_def)

definition killed_stake :: "stake_value \<Rightarrow> match_result \<Rightarrow> nat" where
  "killed_stake f result = (case result of MR_Killed i k \<Rightarrow> removed_stake f (i, k) | _ \<Rightarrow> 0)"

lemma take_liquidity_small:
  assumes "take_liquidity stop (q2n q) makers = (fs, n, makers')" "(p, i, x) \<in> set fs"
  shows "x < 2 ^ 256"
proof -
  have "x \<le> (\<Sum>(_, _, x)\<leftarrow>fs. x)" using assms(2) by (intro member_le_sum_list) force+
  then show ?thesis using take_liquidity_amounts(1) [OF assms(1)] q2n_bound [of q] by simp
qed

text \<open>The taker's stake is the stakes of its fills, at its own price, and that of what is left.\<close>

lemma taker_stake_split:
  assumes f: "additive tick lot f" and t: "tick dvd unat (ord_price ord)" "lot dvd q2n (ord_remaining ord)"
    and amount: "q2n (ord_remaining ord) = (\<Sum>(_, _, x)\<leftarrow>fs. x) + n" and lots: "\<forall>x \<in> set (map (\<lambda>(_, _, x). x) fs). lot dvd x"
  shows "order_stake f ord = (\<Sum>(p, i, x)\<leftarrow>fs. f (ord_id ord) (ord_side ord) (ord_price ord) x) +
    f (ord_id ord) (ord_side ord) (ord_price ord) n"
proof -
  note a = additive_sum [OF f t(1) lots, of "ord_id ord" "ord_side ord"]
  have "lot dvd n" using t(2) a amount by (metis dvd_add_right_iff)
  then show ?thesis
    using a additiveD [OF f t(1), of "\<Sum>(_, _, x)\<leftarrow>fs. x" n "ord_id ord" "ord_side ord"]
    by (simp add: order_stake_def amount comp_def split_def)
qed

lemma executed_stakes:
  assumes ok: "book_ok b" "taker_ok ord b" and f: "additive (unat (bk_tick_size b)) (unat (bk_lot_size b)) f"
    and liq: "take_liquidity (stops (ord_side ord) (ord_price ord)) (q2n (ord_remaining ord))
       (side_list (opposite (ord_side ord)) b) = (fs, n, makers')"
    and q: "queues_list (opposite (ord_side ord)) bids asks = makers'"
      "queues_list (ord_side ord) bids asks = (if n = 0 then side_list (ord_side ord) b
         else insert_priority (ord_side ord) (ord_price ord, resting_from (ord\<lparr>ord_remaining := n2q n\<rparr>)) (side_list (ord_side ord) b))"
  shows "stake_sum f b + order_stake f ord = stake_sum f (matched_book ord ids k n bids asks b) +
      (\<Sum>fl\<leftarrow>fills_from ord (bk_next_fill b) fs. fill_stake f fl)"
    and "list_all (fill_fits (unat (bk_tick_size b)) (unat (bk_lot_size b))) (fills_from ord (bk_next_fill b) fs)"
proof -
  let ?s = "ord_side ord" and ?tick = "unat (bk_tick_size b)" and ?lot = "unat (bk_lot_size b)"
  let ?b = "matched_book ord ids k n bids asks b"
  have t: "?tick dvd unat (ord_price ord)" "?lot dvd q2n (ord_remaining ord)"
    using ok(2) by (simp_all add: taker_ok_def valid_amounts_def)
  note makers = makers_fit [OF ok(1), of "opposite ?s"] and small = take_liquidity_small [OF liq]
  have fits: "\<forall>(p, i, x) \<in> set fs. x \<noteq> 0 \<and> ?lot dvd x \<and> ?tick dvd unat p \<and> \<not> stops ?s (ord_price ord) p"
    by (rule take_liquidity_fits [OF liq t(2) makers])
  then show "list_all (fill_fits ?tick ?lot) (fills_from ord (bk_next_fill b) fs)"
    using small by (intro fills_from_fits [OF t(1)]) blast
  have "\<forall>x \<in> set (map (\<lambda>(_, _, x). x) fs). ?lot dvd x" using fits by auto
  note taker = taker_stake_split [OF f t take_liquidity_amounts(1) [OF liq] this]
  have "stake_sum f ?b = side_stakes f (opposite ?s) makers' + side_stakes f ?s (side_list ?s b) + f (ord_id ord) ?s (ord_price ord) n +
      (\<Sum>o'\<leftarrow>bk_pending_orders b. order_stake f o')"
    unfolding stake_sum_side [of f ?b ?s]
    using q by (simp add: taker_remaining_n2q [OF liq] resting_from_def additive_0 [OF f t(1)])
  then show "stake_sum f b + order_stake f ord = stake_sum f ?b + (\<Sum>fl\<leftarrow>fills_from ord (bk_next_fill b) fs. fill_stake f fl)"
    using take_liquidity_stakes [OF liq f t(2) makers, of "opposite ?s"] fill_stake_from [of fs f ord "bk_next_fill b"] small
    by (fastforce simp: stake_sum_side [of f b ?s] taker)
qed

lemma match_order_stakes:
  assumes ok: "book_ok b" "taker_ok ord b" "fill_load b < 2 ^ 64"
    and f: "additive (unat (bk_tick_size b)) (unat (bk_lot_size b)) f"
    and m: "match_order ord b = Some (Inr result, b')"
  shows "stake_sum f b + order_stake f ord =
        stake_sum f b' + (\<Sum>fl\<leftarrow>result_fills result. fill_stake f fl) + killed_stake f result \<and>
      list_all (fill_fits (unat (bk_tick_size b)) (unat (bk_lot_size b))) (result_fills result) \<and>
      map (\<lambda>fl. unat (fl_seq fl)) (result_fills result) = [unat (bk_next_fill b)..<unat (bk_next_fill b')] \<and>
      unat (bk_next_fill b) \<le> unat (bk_next_fill b')"
proof -
  let ?s = "ord_side ord"
  let ?own = "side_list ?s b" and ?opp = "side_list (opposite ?s) b"
  obtain fs n makers' where liq: "take_liquidity (stops ?s (ord_price ord)) (q2n (ord_remaining ord)) ?opp = (fs, n, makers')"
    by (metis prod_cases3)
  have nf: "unat (bk_next_fill b) + length ?opp < 2 ^ 64"
    using ok(3) length_resting_ids [of b ?s] by (simp add: fill_load_def)
  then have len: "unat (bk_next_fill b) + length fs < 2 ^ 64"
    using length_take_liquidity [OF liq] by simp
  show ?thesis
  proof (cases "ord_tif ord = FillOrKill \<and> n \<noteq> 0")
    case True
    then show ?thesis
      using match_order_killed [OF ok(1,2) liq] m
      by (auto simp: result_fills_def killed_stake_def removed_stake_def order_stake_def)
  next
    case False
    obtain bids asks where x: "match_order ord b = Some (Inr (outcome_of ord (fills_from ord (bk_next_fill b) fs) n),
          matched_book ord (consumed_ids ?opp makers') (length fs) n bids asks b)"
        "queues_list (opposite ?s) bids asks = makers'"
        "queues_list ?s bids asks = (if n = 0 then ?own
           else insert_priority ?s (ord_price ord, resting_from (ord\<lparr>ord_remaining := n2q n\<rparr>)) ?own)"
      using match_order_executed [OF ok(1,2) liq nf] False by blast
    have r: "result = outcome_of ord (fills_from ord (bk_next_fill b) fs) n"
        "b' = matched_book ord (consumed_ids ?opp makers') (length fs) n bids asks b"
      using x(1) m by simp_all
    have fills: "result_fills result = fills_from ord (bk_next_fill b) fs" "killed_stake f result = 0"
      by (auto simp: r(1) outcome_of_def result_fills_def killed_stake_def)
    have "unat (bk_next_fill b') = unat (bk_next_fill b) + length fs"
      using len unat_add_no_overflow [of "bk_next_fill b" "of_nat (length fs)"]
      by (simp add: r(2) matched_book_def unat_of_nat_small)
    then show ?thesis
      using executed_stakes [OF ok(1,2) f liq x(2,3)] fills_from_map [OF len, of ord] by (simp add: fills r(2))
  qed
qed

section \<open>A round of matching\<close>

text \<open>What no operation on a book changes.\<close>

definition book_config :: "order_book \<Rightarrow> order_book_id \<times> u128 \<times> u64 \<times> quantity \<times> quantity option \<times> fee_rates" where
  "book_config b = (bk_id b, bk_tick_size b, bk_lot_size b, bk_min_notional b, bk_max_notional b, bk_fee_rates b)"

lemma book_config_eq:
  "book_config b = book_config b' \<longleftrightarrow> bk_id b = bk_id b' \<and> bk_tick_size b = bk_tick_size b' \<and> bk_lot_size b = bk_lot_size b' \<and>
     bk_min_notional b = bk_min_notional b' \<and> bk_max_notional b = bk_max_notional b' \<and> bk_fee_rates b = bk_fee_rates b'"
  by (simp add: book_config_def)

lemma match_order_config:
  assumes ok: "book_ok b" "taker_ok ord b" "fill_load b < 2 ^ 64" and m: "match_order ord b = Some (Inr result, b')"
  shows "book_config b' = book_config b"
proof -
  let ?s = "ord_side ord"
  obtain fs n makers' where liq: "take_liquidity (stops ?s (ord_price ord)) (q2n (ord_remaining ord))
      (side_list (opposite ?s) b) = (fs, n, makers')"
    by (metis prod_cases3)
  have "unat (bk_next_fill b) + length (side_list (opposite ?s) b) < 2 ^ 64"
    using ok(3) length_resting_ids [of b ?s] by (simp add: fill_load_def)
  then show ?thesis
    using match_order_killed [OF ok(1,2) liq] match_order_executed [OF ok(1,2) liq] m
    by (cases "ord_tif ord = FillOrKill \<and> n \<noteq> 0")
       (auto simp: book_config_eq matched_book_def with_queues_def)
qed

definition expired_stakes :: "stake_value \<Rightarrow> (order_seq, removed_order) btree_map \<Rightarrow> nat" where
  "expired_stakes f m = (\<Sum>e\<leftarrow>m. removed_stake f e)"

lemma expired_stakes_insert:
  "bt_get m k = None \<Longrightarrow> expired_stakes f (bt_insert k v m) = removed_stake f (k, v) + expired_stakes f m"
  by (induction k v m rule: bt_insert.induct) (auto simp: expired_stakes_def split: if_splits)

lemma stake_sum_pop:
  "bk_pending_orders b = ord # rest \<Longrightarrow> stake_sum f b = stake_sum f (b\<lparr>bk_pending_orders := rest\<rparr>) + order_stake f ord"
  by (simp add: stake_sum_def side_list_def)

lemma record_match_result_stakes:
  assumes "i \<notin> set (bt_keys (ma_expired acc))" "match_effect ord b result b1" "ord_id ord = i"
  shows "killed_stake f result + expired_stakes f (ma_expired acc) = expired_stakes f (ma_expired (record_match_result result acc))"
    and "ma_fills (record_match_result result acc) = ma_fills acc @ result_fills result"
    and "set (bt_keys (ma_expired (record_match_result result acc))) \<subseteq> insert i (set (bt_keys (ma_expired acc)))"
proof -
  have none: "bt_get (ma_expired acc) i = None" using assms(1) by (simp add: bt_get_None)
  have id: "k = i" if "result = MR_Killed k x" for k x using assms(2,3) that by (simp add: match_effect_def)
  show "killed_stake f result + expired_stakes f (ma_expired acc) = expired_stakes f (ma_expired (record_match_result result acc))"
      "ma_fills (record_match_result result acc) = ma_fills acc @ result_fills result"
      "set (bt_keys (ma_expired (record_match_result result acc))) \<subseteq> insert i (set (bt_keys (ma_expired acc)))"
    using none id by (auto simp: killed_stake_def record_match_result_def result_fills_def expired_stakes_insert set_bt_keys_insert
        split: match_result.split)
qed

lemma process_loop_stakes:
  assumes "book_ok b" "pending_order_seqs b = expected @ later" "fill_load b + length expected < 2 ^ 64"
    "additive (unat (bk_tick_size b)) (unat (bk_lot_size b)) f"
    "\<forall>i \<in> set (bt_keys (ma_expired acc)). \<forall>j \<in> set (pending_order_seqs b). i < j"
    "process_loop expected (b, acc) = Some (b', acc')"
  shows "\<exists>fills. ma_fills acc' = ma_fills acc @ fills \<and>
    stake_sum f b + expired_stakes f (ma_expired acc) =
      stake_sum f b' + (\<Sum>fl\<leftarrow>fills. fill_stake f fl) + expired_stakes f (ma_expired acc') \<and>
    list_all (fill_fits (unat (bk_tick_size b)) (unat (bk_lot_size b))) fills \<and>
    map (\<lambda>fl. unat (fl_seq fl)) fills = [unat (bk_next_fill b)..<unat (bk_next_fill b')] \<and>
    unat (bk_next_fill b) \<le> unat (bk_next_fill b') \<and> book_config b' = book_config b \<and>
    bk_pending_orders b' = drop (length expected) (bk_pending_orders b) \<and> fill_load b' \<le> fill_load b + length expected"
  using assms
proof (induction expected arbitrary: b acc)
  case Nil
  then show ?case by simp
next
  case (Cons i expected)
  obtain ord rest where p: "bk_pending_orders b = ord # rest" "ord_id ord = i" "map ord_id rest = expected @ later"
    using Cons.prems(2) by (auto simp: pending_order_seqs_def map_eq_Cons_conv)
  let ?b = "b\<lparr>bk_pending_orders := rest\<rparr>"
  have ok: "book_ok ?b" "taker_ok ord ?b" using pop_pending_ok [OF Cons.prems(1) p(1)] .
  have load: "fill_load ?b = fill_load b" by (simp add: fill_load_def resting_ids_def side_list_def)
  then have l: "fill_load ?b < 2 ^ 64" using Cons.prems(3) by simp
  obtain result b1 where m: "match_order ord ?b = Some (Inr result, b1)" "book_ok b1" "bk_pending_orders b1 = rest"
      "fill_load b1 \<le> fill_load ?b + 1" "match_effect ord ?b result b1"
    using match_order_step [OF ok l] by auto
  have f: "additive (unat (bk_tick_size ?b)) (unat (bk_lot_size ?b)) f" using Cons.prems(4) by simp
  have acct: "stake_sum f ?b + order_stake f ord =
        stake_sum f b1 + (\<Sum>fl\<leftarrow>result_fills result. fill_stake f fl) + killed_stake f result"
      "list_all (fill_fits (unat (bk_tick_size b)) (unat (bk_lot_size b))) (result_fills result)"
      "map (\<lambda>fl. unat (fl_seq fl)) (result_fills result) = [unat (bk_next_fill b)..<unat (bk_next_fill b1)]"
      "unat (bk_next_fill b) \<le> unat (bk_next_fill b1)"
    using match_order_stakes [OF ok l f m(1)] by simp_all
  have config: "book_config b1 = book_config b" using match_order_config [OF ok l m(1)] by (simp add: book_config_eq)
  let ?acc = "record_match_result result acc"
  have "i \<notin> set (bt_keys (ma_expired acc))" using Cons.prems(2,5) by auto
  note killed = record_match_result_stakes [OF this m(5) p(2)]
  have seqs: "pending_order_seqs b1 = expected @ later" using p(3) m(3) by (simp add: pending_order_seqs_def)
  have less: "\<forall>k \<in> set (bt_keys (ma_expired ?acc)). \<forall>j \<in> set (pending_order_seqs b1). k < j"
  proof -
    have "sorted_wrt (<) (pending_order_seqs b)" using Cons.prems(1) by (simp add: book_ok_def pending_ok_def)
    then have "\<forall>j \<in> set (expected @ later). i < j" using Cons.prems(2) by simp
    then show ?thesis using killed(3) Cons.prems(2,5) by (auto simp: seqs)
  qed
  have run: "process_loop expected (b1, ?acc) = Some (b', acc')"
    using Cons.prems(6) p(1,2) m(1) by simp
  have "fill_load b1 + length expected < 2 ^ 64" using m(4) Cons.prems(3) load by simp
  moreover have "additive (unat (bk_tick_size b1)) (unat (bk_lot_size b1)) f" using Cons.prems(4) config by (simp add: book_config_eq)
  ultimately obtain fills where IH: "ma_fills acc' = ma_fills ?acc @ fills"
      "stake_sum f b1 + expired_stakes f (ma_expired ?acc) =
        stake_sum f b' + (\<Sum>fl\<leftarrow>fills. fill_stake f fl) + expired_stakes f (ma_expired acc')"
      "list_all (fill_fits (unat (bk_tick_size b1)) (unat (bk_lot_size b1))) fills"
      "map (\<lambda>fl. unat (fl_seq fl)) fills = [unat (bk_next_fill b1)..<unat (bk_next_fill b')]"
      "unat (bk_next_fill b1) \<le> unat (bk_next_fill b')" "book_config b' = book_config b1"
      "bk_pending_orders b' = drop (length expected) (bk_pending_orders b1)" "fill_load b' \<le> fill_load b1 + length expected"
    using Cons.IH [OF m(2) seqs _ _ less run] by auto
  have seq: "map (\<lambda>fl. unat (fl_seq fl)) (result_fills result @ fills) = [unat (bk_next_fill b)..<unat (bk_next_fill b')]"
    using acct(3,4) IH(4,5) upt_add_eq_append [of "unat (bk_next_fill b)" "unat (bk_next_fill b1)" "unat (bk_next_fill b') - unat (bk_next_fill b1)"]
    by simp
  have sum: "stake_sum f b + expired_stakes f (ma_expired acc) =
      stake_sum f b' + (\<Sum>fl\<leftarrow>result_fills result @ fills. fill_stake f fl) + expired_stakes f (ma_expired acc')"
    using acct(1) IH(2) killed(1) stake_sum_pop [OF p(1), of f] by simp
  show ?case
    using IH acct(2,4) killed(2) seq sum config m(3,4) load p(1)
    by (intro exI [of _ "result_fills result @ fills"]) (auto simp: book_config_eq)
qed

lemma process_pending_orders_stakes:
  assumes "book_ok b" "pending_order_seqs b = expected @ later" "fill_load b + length expected < 2 ^ 64"
    "additive (unat (bk_tick_size b)) (unat (bk_lot_size b)) f"
    "process_pending_orders expected b = Some (out, b')"
  shows "stake_sum f b = stake_sum f b' + (\<Sum>fl\<leftarrow>mo_fills out. fill_stake f fl) + expired_stakes f (mo_expired out)"
    and "list_all (fill_fits (unat (bk_tick_size b)) (unat (bk_lot_size b))) (mo_fills out)"
    and "map (\<lambda>fl. unat (fl_seq fl)) (mo_fills out) = [unat (bk_next_fill b)..<unat (bk_next_fill b')]"
    and "unat (bk_next_fill b) \<le> unat (bk_next_fill b')"
    and "book_config b' = book_config b"
    and "bk_pending_orders b' = drop (length expected) (bk_pending_orders b)"
    and "fill_load b' \<le> fill_load b + length expected"
proof -
  let ?acc = "\<lparr>ma_fills = [], ma_resting = {}, ma_expired = []\<rparr> :: matching_acc"
  obtain b1 acc where l: "process_loop expected (b, ?acc) = Some (b1, acc)" "b' = b1\<lparr>bk_filled_orders := {}\<rparr>"
      "mo_fills out = ma_fills acc" "mo_expired out = ma_expired acc"
    using assms(5) by (auto simp: process_pending_orders_def Let_def trap_simps)
  have same: "stake_sum f b' = stake_sum f b1" "fill_load b' = fill_load b1" "book_config b' = book_config b1"
      "bk_next_fill b' = bk_next_fill b1" "bk_pending_orders b' = bk_pending_orders b1"
    by (simp_all add: l(2) stake_sum_def side_list_def fill_load_def resting_ids_def book_config_eq)
  note a = process_loop_stakes [OF assms(1-4) _ l(1)]
  show "stake_sum f b = stake_sum f b' + (\<Sum>fl\<leftarrow>mo_fills out. fill_stake f fl) + expired_stakes f (mo_expired out)"
    "list_all (fill_fits (unat (bk_tick_size b)) (unat (bk_lot_size b))) (mo_fills out)"
    "map (\<lambda>fl. unat (fl_seq fl)) (mo_fills out) = [unat (bk_next_fill b)..<unat (bk_next_fill b')]"
    "unat (bk_next_fill b) \<le> unat (bk_next_fill b')" "book_config b' = book_config b"
    "bk_pending_orders b' = drop (length expected) (bk_pending_orders b)" "fill_load b' \<le> fill_load b + length expected"
    using a by (auto simp: same l(3,4) expired_stakes_def)
qed

section \<open>Terms\<close>

definition stake_terms :: "order_book \<Rightarrow> (order_seq \<times> side \<times> price) set" where
  "stake_terms b = {(ro_id r, s, p) | s p r. (p, r) \<in> set (side_list s b)} \<union>
     (\<lambda>ord. (ord_id ord, ord_side ord, ord_price ord)) ` set (bk_pending_orders b)"

lemma all_side: "(\<forall>s. P s) \<longleftrightarrow> P Buy \<and> P Sell"
  by (metis side.exhaust)

lemma stake_sum_0:
  assumes "book_ok b" "\<And>i s p n. n \<noteq> 0 \<Longrightarrow> f i s p n = 0 \<longleftrightarrow> (i, s, p) \<in> T"
  shows "stake_sum f b = 0 \<longleftrightarrow> stake_terms b \<subseteq> T"
proof -
  have side: "side_stakes f s (side_list s b) = 0 \<longleftrightarrow> (\<forall>(p, r) \<in> set (side_list s b). (ro_id r, s, p) \<in> T)" for s
  proof -
    have "q2n (ro_remaining r) \<noteq> 0" if "(p, r) \<in> set (side_list s b)" for p r
      using makers_fit [OF assms(1), of s] that by (auto simp: list_all_iff maker_fits_def)
    then have "f (ro_id r) s p (q2n (ro_remaining r)) = 0 \<longleftrightarrow> (ro_id r, s, p) \<in> T"
      if "(p, r) \<in> set (side_list s b)" for p r
      using that assms(2) by blast
    then show ?thesis unfolding side_stakes_def sum_list_eq_0_iff by auto
  qed
  have pend: "(\<Sum>ord\<leftarrow>bk_pending_orders b. order_stake f ord) = 0 \<longleftrightarrow>
      (\<forall>ord \<in> set (bk_pending_orders b). (ord_id ord, ord_side ord, ord_price ord) \<in> T)"
  proof -
    have "q2n (ord_remaining ord) \<noteq> 0" if "ord \<in> set (bk_pending_orders b)" for ord
      using assms(1) that by (auto simp: book_ok_def pending_ok_def list_all_iff valid_amounts_def)
    then have "order_stake f ord = 0 \<longleftrightarrow> (ord_id ord, ord_side ord, ord_price ord) \<in> T"
      if "ord \<in> set (bk_pending_orders b)" for ord
      using that assms(2) unfolding order_stake_def by blast
    then show ?thesis by simp
  qed
  have "stake_sum f b = 0 \<longleftrightarrow> side_stakes f Buy (side_list Buy b) = 0 \<and> side_stakes f Sell (side_list Sell b) = 0 \<and>
      (\<Sum>ord\<leftarrow>bk_pending_orders b. order_stake f ord) = 0"
    by (simp add: stake_sum_def)
  moreover have "stake_terms b \<subseteq> T \<longleftrightarrow> (\<forall>s. \<forall>(p, r) \<in> set (side_list s b). (ro_id r, s, p) \<in> T) \<and>
      (\<forall>ord \<in> set (bk_pending_orders b). (ord_id ord, ord_side ord, ord_price ord) \<in> T)"
    by (auto simp: stake_terms_def)
  ultimately show ?thesis unfolding side pend all_side by blast
qed

lemma process_pending_orders_terms:
  assumes ok: "book_ok b" "pending_order_seqs b = expected @ later" "fill_load b + length expected < 2 ^ 64"
    and p: "process_pending_orders expected b = Some (out, b')" "book_ok b'"
    and fl: "fl \<in> set (mo_fills out)"
  shows "(fl_maker fl, opposite (fl_taker_side fl), fl_maker_price fl) \<in> stake_terms b"
    "(fl_taker fl, fl_taker_side fl, fl_taker_price fl) \<in> stake_terms b"
proof -
  let ?f = "\<lambda>i s p n. if (i, s, p) \<in> stake_terms b then 0 else n :: nat"
  have add: "additive (unat (bk_tick_size b)) (unat (bk_lot_size b)) ?f" by (simp add: additive_def)
  note acct = process_pending_orders_stakes [OF ok add p(1)]
  have "stake_sum ?f b = 0" by (subst stake_sum_0 [OF ok(1), of _ "stake_terms b"]) auto
  then have "fill_stake ?f fl = 0" using acct(1) fl by simp
  moreover have "q2n (fl_quantity fl) \<noteq> 0" using acct(2) fl by (auto simp: list_all_iff fill_fits_def)
  ultimately show "(fl_maker fl, opposite (fl_taker_side fl), fl_maker_price fl) \<in> stake_terms b"
      "(fl_taker fl, fl_taker_side fl, fl_taker_price fl) \<in> stake_terms b"
    by (auto simp: fill_stake_def split: if_splits)
qed

section \<open>Enqueueing and removal\<close>

lemma stake_sum_push:
  "stake_sum f (b\<lparr>bk_pending_orders := bk_pending_orders b @ [ord], bk_next_seq := i\<rparr>) = stake_sum f b + order_stake f ord"
  by (simp add: stake_sum_def side_list_def)

lemma stake_sum_remove:
  assumes "book_ok b" "remove_order seq b = Some (Some removed, b')"
  shows "stake_sum f b = stake_sum f b' + removed_stake f (seq, removed)" "book_ok b'" "book_config b' = book_config b"
    "bk_next_seq b' = bk_next_seq b" "bk_next_fill b' = bk_next_fill b" "bk_filled_orders b' = bk_filled_orders b"
    "fill_load b' + length (bk_pending_orders b') < fill_load b + length (bk_pending_orders b)"
proof -
  have "stake_sum f b = stake_sum f b' + removed_stake f (seq, removed) \<and> book_ok b' \<and> book_config b' = book_config b \<and>
    bk_next_seq b' = bk_next_seq b \<and> bk_next_fill b' = bk_next_fill b \<and> bk_filled_orders b' = bk_filled_orders b \<and>
    fill_load b' + length (bk_pending_orders b') < fill_load b + length (bk_pending_orders b)"
  proof (cases "seq \<in> set (resting_ids b)")
    case True
    from remove_resting_ok [OF assms(1) this] obtain s p r bids asks xs ys where
        x: "removed = \<lparr>rm_side = s, rm_price = p, rm_remaining = ro_remaining r\<rparr>"
          "b' = with_queues bids asks b\<lparr>bk_resting_orders := bt_remove seq (bk_resting_orders b)\<rparr>" "ro_id r = seq"
          "side_list s b = xs @ (p, r) # ys" "side_list s b' = xs @ ys" "side_list (opposite s) b' = side_list (opposite s) b" "book_ok b'"
      using assms(2) by (auto simp only: option.inject prod.inject)
    have "stake_sum f b = stake_sum f b' + removed_stake f (seq, removed)"
      unfolding stake_sum_side [of f b s] stake_sum_side [of f b' s]
      using x by (simp add: removed_stake_def with_queues_def)
    moreover have "fill_load b' < fill_load b"
      using x(4-6) length_resting_ids [of b s] length_resting_ids [of b' s] by (simp add: fill_load_def x(2) with_queues_def)
    ultimately show ?thesis using x by (simp add: book_config_eq with_queues_def)
  next
    case False
    then have "seq \<in> set (pending_order_seqs b)" using remove_absent [OF assms(1)] assms(2) by fastforce
    from remove_pending_ok [OF assms(1) False this] obtain ord xs ys where
        x: "removed = \<lparr>rm_side = ord_side ord, rm_price = ord_price ord, rm_remaining = ord_remaining ord\<rparr>"
          "b' = b\<lparr>bk_pending_orders := xs @ ys\<rparr>" "ord_id ord = seq" "bk_pending_orders b = xs @ ord # ys" "book_ok b'"
      using assms(2) by (auto simp only: option.inject prod.inject)
    then show ?thesis
      by (simp add: stake_sum_def side_list_def removed_stake_def order_stake_def book_config_eq fill_load_def resting_ids_def)
  qed
  then show "stake_sum f b = stake_sum f b' + removed_stake f (seq, removed)" "book_ok b'" "book_config b' = book_config b"
    "bk_next_seq b' = bk_next_seq b" "bk_next_fill b' = bk_next_fill b" "bk_filled_orders b' = bk_filled_orders b"
    "fill_load b' + length (bk_pending_orders b') < fill_load b + length (bk_pending_orders b)" by blast+
qed

section \<open>Books of the canister\<close>

text \<open>The value at which an order was admitted, unscaled: price times quantity.\<close>

definition worth_of :: "order_seq \<Rightarrow> stake_value" where
  "worth_of j = (\<lambda>i s p n. if i = j then unat p * n else 0)"

text \<open>A book as the state layer keeps it. Every order that is matched was numbered by the book, so
  the fills still to come never run out of numbers.\<close>

definition book_fit :: "u64 \<Rightarrow> order_book \<Rightarrow> bool" where
  "book_fit scale b \<longleftrightarrow> book_ok b \<and> bk_filled_orders b = {} \<and>
     fill_load b + length (bk_pending_orders b) \<le> unat (bk_next_seq b) \<and> fee_rates_ok (bk_fee_rates b) \<and>
     scale \<noteq> 0 \<and> unat scale dvd unat (bk_tick_size b) * unat (bk_lot_size b) \<and> (\<forall>j. stake_sum (worth_of j) b < 2 ^ 256)"

lemma additive_worth [simp]: "additive tick lot (worth_of j)"
  by (simp add: additive_def worth_of_def algebra_simps)

lemma book_fit_new:
  assumes "tick \<noteq> 0" "lot \<noteq> 0" "fee_rates_ok rates" "scale \<noteq> 0" "unat scale dvd unat tick * unat lot"
  shows "book_fit scale (book_new i tick lot min_notional max_notional rates)"
proof -
  let ?b = "book_new i tick lot min_notional max_notional rates"
  have view: "side_list s ?b = []" "resting_ids ?b = []" "pending_order_seqs ?b = []" for s
    by (cases s; simp add: book_new_def side_list_def queue_new_def resting_ids_def makers_ids_def pending_order_seqs_def)+
  have "book_ok ?b"
    by (simp add: book_ok_def index_ok_def side_ok_def uncrossed_def pending_ok_def view time_ordered_def)
       (simp add: book_new_def assms(1,2) queue_new_def queue_ok_def bt_ok_def index_entries_def)
  then show ?thesis
    using assms by (simp add: book_fit_def fill_load_def view stake_sum_def) (simp add: book_new_def)
qed

lemma order_ids_bounded:
  assumes "book_ok b" "bk_next_seq b \<le> j"
  shows "stake_sum (\<lambda>i s p n. if i = j then g s p n else 0) b = 0"
proof -
  have r: "\<forall>i \<in> set (resting_ids b) \<union> set (pending_order_seqs b). i \<noteq> j"
  proof -
    have "\<forall>i \<in> set (resting_ids b) \<union> set (pending_order_seqs b). i < bk_next_seq b"
      using assms(1) unfolding book_ok_def pending_ok_def by blast
    then show ?thesis using assms(2) leD by blast
  qed
  have side: "side_stakes (\<lambda>i s p n. if i = j then g s p n else 0) s (side_list s b) = 0" for s
  proof -
    have "ro_id r' \<noteq> j" if "(p, r') \<in> set (side_list s b)" for p r'
    proof -
      have "ro_id r' \<in> set (resting_ids b)" using that resting_ids_side [of s b] by (force simp: makers_ids_def)
      then show ?thesis using r by blast
    qed
    then show ?thesis unfolding side_stakes_def sum_list_eq_0_iff by auto
  qed
  have "order_stake (\<lambda>i s p n. if i = j then g s p n else 0) ord = 0" if "ord \<in> set (bk_pending_orders b)" for ord
    using r that by (auto simp: order_stake_def pending_order_seqs_def)
  then show ?thesis by (simp add: stake_sum_def side)
qed

lemma book_fit_push:
  assumes "book_fit scale b" "add_pending_order ord b = Some b'" "unat (ord_price ord) * q2n (ord_remaining ord) < 2 ^ 256"
  shows "book_fit scale b'" "b' = b\<lparr>bk_pending_orders := bk_pending_orders b @ [ord], bk_next_seq := bk_next_seq b + 1\<rparr>"
    "ord_id ord = bk_next_seq b" "valid_amounts b (ord_price ord) (ord_remaining ord)" "unat (bk_next_seq b') = Suc (unat (bk_next_seq b))"
proof -
  have ok: "book_ok b" "bk_lot_size b \<noteq> 0" using assms(1) by (simp_all add: book_fit_def book_ok_def)
  obtain v i where x: "validate_order b (ord_price ord) (ord_remaining ord) = Some (Inr v)" "ord_id ord = bk_next_seq b"
      "seq_increment (bk_next_seq b) = Some i" "b' = b\<lparr>bk_pending_orders := bk_pending_orders b @ [ord], bk_next_seq := i\<rparr>"
    using assms(2) by (auto simp: add_pending_order_def trap_simps)
  have i: "i = bk_next_seq b + 1" "unat (bk_next_seq b) + 1 < 2 ^ 64"
    using x(3) by (auto simp: seq_increment_def checked_add_def split: if_splits)
  show valid: "valid_amounts b (ord_price ord) (ord_remaining ord)" using x(1) ok(2) by (simp add: validate_order_iff)
  show "ord_id ord = bk_next_seq b" by (rule x(2))
  show b': "b' = b\<lparr>bk_pending_orders := bk_pending_orders b @ [ord], bk_next_seq := bk_next_seq b + 1\<rparr>" using x(4) i(1) by simp
  show next_seq: "unat (bk_next_seq b') = Suc (unat (bk_next_seq b))"
    using i by (simp add: b') (subst unat_add_no_overflow, simp_all)
  have "book_ok b'" using add_pending_order_ok(2) [OF ok(1) valid x(2) i(2)] by (simp add: b')
  moreover have "stake_sum (worth_of j) b' < 2 ^ 256" for j
  proof (cases "j = ord_id ord")
    case True
    then have "stake_sum (worth_of j) b = 0" using order_ids_bounded [OF ok(1), of j] x(2) by (simp add: worth_of_def)
    then show ?thesis using assms(3) by (simp add: b' stake_sum_push) (simp add: worth_of_def order_stake_def)
  next
    case False
    then have "stake_sum (worth_of j) b' = stake_sum (worth_of j) b" by (simp add: b' stake_sum_push) (simp add: worth_of_def order_stake_def)
    then show ?thesis using assms(1) by (simp add: book_fit_def)
  qed
  moreover have "fill_load b' = fill_load b" by (simp add: b' fill_load_def resting_ids_def side_list_def)
  moreover have "book_config b' = book_config b" by (simp add: b' book_config_eq)
  moreover have "bk_filled_orders b' = bk_filled_orders b" "length (bk_pending_orders b') = Suc (length (bk_pending_orders b))"
    by (simp_all add: b')
  ultimately show "book_fit scale b'" using assms(1) next_seq by (simp add: book_fit_def book_config_eq)
qed

lemma book_fit_remove:
  assumes "book_fit scale b" "remove_order seq b = Some (Some removed, b')"
  shows "book_fit scale b'"
proof -
  have ok: "book_ok b" using assms(1) by (simp add: book_fit_def)
  note r = stake_sum_remove [OF ok assms(2)]
  have "stake_sum (worth_of j) b' \<le> stake_sum (worth_of j) b" for j using r(1) [of "worth_of j"] by simp
  moreover have "stake_sum (worth_of j) b < 2 ^ 256" for j using assms(1) by (simp add: book_fit_def)
  ultimately have "stake_sum (worth_of j) b' < 2 ^ 256" for j by (meson le_less_trans)
  then show ?thesis using assms(1) r(2-) by (simp add: book_fit_def book_config_eq)
qed

text \<open>A round on a book of the canister: it returns, and its fills and expired orders can be settled.\<close>

lemma stake_in_sum:
  assumes "additive tick lot f" "fill_fits tick lot fl" "fl \<in> set fills"
  shows "f (fl_maker fl) (opposite (fl_taker_side fl)) (fl_maker_price fl) (q2n (fl_quantity fl)) \<le> (\<Sum>fl\<leftarrow>fills. fill_stake f fl)"
    "f (fl_taker fl) (fl_taker_side fl) (fl_taker_price fl) (q2n (fl_quantity fl)) \<le> (\<Sum>fl\<leftarrow>fills. fill_stake f fl)"
proof -
  have "fill_stake f fl \<le> (\<Sum>fl\<leftarrow>fills. fill_stake f fl)" using assms(3) by (intro member_le_sum_list) auto
  then show "f (fl_maker fl) (opposite (fl_taker_side fl)) (fl_maker_price fl) (q2n (fl_quantity fl)) \<le> (\<Sum>fl\<leftarrow>fills. fill_stake f fl)"
    "f (fl_taker fl) (fl_taker_side fl) (fl_taker_price fl) (q2n (fl_quantity fl)) \<le> (\<Sum>fl\<leftarrow>fills. fill_stake f fl)"
    by (simp_all add: fill_stake_def)
qed

lemma dvd_value:
  "unat scale dvd tick * lot \<Longrightarrow> tick dvd unat p \<Longrightarrow> lot dvd n \<Longrightarrow> unat scale dvd unat p * n"
  by (meson dvd_trans mult_dvd_mono)

lemma fits_fill_ok:
  assumes "unat scale dvd tick * lot" "scale \<noteq> 0" "fill_fits tick lot fl"
    "unat (fl_maker_price fl) * q2n (fl_quantity fl) < 2 ^ 256" "unat (fl_taker_price fl) * q2n (fl_quantity fl) < 2 ^ 256"
  shows "fill_ok scale fl"
  using assms dvd_value [OF assms(1), of "fl_maker_price fl" "q2n (fl_quantity fl)"]
    dvd_value [OF assms(1), of "fl_taker_price fl" "q2n (fl_quantity fl)"]
  by (cases "fl_taker_side fl") (simp_all add: fill_ok_def value_ok_def buyer_price_def fill_fits_def not_less)

definition misfit :: "nat \<Rightarrow> nat \<Rightarrow> stake_value" where
  "misfit tick lot = (\<lambda>i s p n. if tick dvd unat p \<and> lot dvd n then 0 else n)"

lemma stake_sum_misfit:
  assumes "book_ok b"
  shows "stake_sum (misfit (unat (bk_tick_size b)) (unat (bk_lot_size b))) b = 0"
proof -
  have "side_stakes (misfit (unat (bk_tick_size b)) (unat (bk_lot_size b))) s (side_list s b) = 0" for s
    using makers_fit [OF assms, of s] by (auto simp: side_stakes_def misfit_def list_all_iff maker_fits_def)
  then show ?thesis
    using assms by (auto simp: stake_sum_def order_stake_def misfit_def book_ok_def pending_ok_def list_all_iff valid_amounts_def)
qed

lemma expired_removed_ok:
  assumes "(i, r) \<in> set es" "expired_stakes (misfit tick lot) es = 0" "expired_stakes (worth_of i) es < 2 ^ 256"
    "unat scale dvd tick * lot" "scale \<noteq> 0"
  shows "removed_ok scale r"
proof -
  have "removed_stake (worth_of i) (i, r) \<le> expired_stakes (worth_of i) es"
    unfolding expired_stakes_def using assms(1) by (intro member_le_sum_list) auto
  then have "unat (rm_price r) * q2n (rm_remaining r) < 2 ^ 256"
    using assms(3) by (simp add: removed_stake_def worth_of_def)
  moreover have "removed_stake (misfit tick lot) (i, r) = 0" using assms(1,2) by (auto simp: expired_stakes_def)
  then have "unat scale dvd unat (rm_price r) * q2n (rm_remaining r)"
    using dvd_value [OF assms(4), of "rm_price r" "q2n (rm_remaining r)"]
    by (auto simp: removed_stake_def misfit_def split: if_splits)
  ultimately show ?thesis using assms(5) by (simp add: removed_ok_def value_ok_def)
qed

lemma book_fit_process:
  assumes fit: "book_fit scale b" and seqs: "pending_order_seqs b = expected @ later"
  shows "\<exists>out b'. process_pending_orders expected b = Some (out, b') \<and> book_fit scale b' \<and>
    book_config b' = book_config b \<and> bk_next_seq b' = bk_next_seq b \<and>
    list_all (fill_ok scale) (mo_fills out) \<and> list_all (\<lambda>(_, r). removed_ok scale r) (mo_expired out)"
proof -
  let ?tick = "unat (bk_tick_size b)" and ?lot = "unat (bk_lot_size b)"
  have b: "book_ok b" "bk_filled_orders b = {}" "fill_load b + length (bk_pending_orders b) \<le> unat (bk_next_seq b)"
      "scale \<noteq> 0" "unat scale dvd ?tick * ?lot" "\<And>j. stake_sum (worth_of j) b < 2 ^ 256"
    using fit by (simp_all add: book_fit_def)
  have len: "length expected + length later = length (bk_pending_orders b)"
    using arg_cong [OF seqs, of length] by (simp add: pending_order_seqs_def)
  then have load: "fill_load b + length expected < 2 ^ 64"
    using b(3) unat_u64_bound [of "bk_next_seq b"] by simp
  obtain out b' where p: "process_pending_orders expected b = Some (out, b')" "book_ok b'" "bk_next_seq b' = bk_next_seq b"
      "bk_filled_orders b' = {}" "pending_order_seqs b' = later"
    using process_pending_orders_ok [OF b(1) seqs load b(2)] by blast
  note acct = process_pending_orders_stakes [OF b(1) seqs load _ p(1)]
  have worth: "stake_sum (worth_of j) b' + (\<Sum>fl\<leftarrow>mo_fills out. fill_stake (worth_of j) fl) +
      expired_stakes (worth_of j) (mo_expired out) < 2 ^ 256" for j
    using acct(1) [of "worth_of j"] b(6) [of j] by simp
  note fits = acct(2) [OF additive_worth]
  have "length (bk_pending_orders b') = length later" using arg_cong [OF p(5), of length] by (simp add: pending_order_seqs_def)
  then have "book_fit scale b'"
    using fit p acct(5,7) [OF additive_worth] len b(3) add_lessD1 [OF add_lessD1 [OF worth]]
    by (simp add: book_fit_def book_config_eq)
  moreover have "fill_ok scale fl" if "fl \<in> set (mo_fills out)" for fl
  proof (rule fits_fill_ok [OF b(5,4)])
    show ff: "fill_fits ?tick ?lot fl" using fits that by (simp add: list_all_iff)
    have "unat (fl_maker_price fl) * q2n (fl_quantity fl) \<le> (\<Sum>x\<leftarrow>mo_fills out. fill_stake (worth_of (fl_maker fl)) x)"
      using stake_in_sum(1) [OF additive_worth ff that, of "fl_maker fl"] by (simp add: worth_of_def)
    then show "unat (fl_maker_price fl) * q2n (fl_quantity fl) < 2 ^ 256" using worth [of "fl_maker fl"] by simp
    have "unat (fl_taker_price fl) * q2n (fl_quantity fl) \<le> (\<Sum>x\<leftarrow>mo_fills out. fill_stake (worth_of (fl_taker fl)) x)"
      using stake_in_sum(2) [OF additive_worth ff that, of "fl_taker fl"] by (simp add: worth_of_def)
    then show "unat (fl_taker_price fl) * q2n (fl_quantity fl) < 2 ^ 256" using worth [of "fl_taker fl"] by simp
  qed
  moreover have "removed_ok scale r" if "(i, r) \<in> set (mo_expired out)" for i r
  proof (rule expired_removed_ok [OF that _ _ b(5,4)])
    have "additive ?tick ?lot (misfit ?tick ?lot)" by (simp add: additive_def misfit_def)
    then show "expired_stakes (misfit ?tick ?lot) (mo_expired out) = 0" using acct(1) stake_sum_misfit [OF b(1)] by simp
    show "expired_stakes (worth_of i) (mo_expired out) < 2 ^ 256" using worth [of i] by simp
  qed
  ultimately show ?thesis
    using p acct(5) [OF additive_worth] by (auto simp: list_all_iff)
qed

end
