(* ===== verification/Heap_Invariant.thy ===== *)
theory Heap_Invariant
  imports Book_Accounting Snapshot
begin

text \<open>
  The invariant of the heap: well-formed maps, one well-formed book per listed pair, prices and
  lots that make settlement exact, a valid policy. Every event that the endpoints emit keeps it,
  and a state that satisfies it comes back from a snapshot as it was.
\<close>

section \<open>The invariant\<close>

definition listed :: "trade_state \<Rightarrow> order_book_id \<Rightarrow> trading_pair \<Rightarrow> u64 \<Rightarrow> bool" where
  "listed s i pair scale \<longleftrightarrow> get_pair (st_pairs s) i = Some pair \<and> tp_base pair \<noteq> tp_quote pair \<and>
     is_known_token s (tp_quote pair) \<and> base_scale s (tp_base pair) = Some scale"

definition books_ok :: "trade_state \<Rightarrow> bool" where
  "books_ok s \<longleftrightarrow> (\<forall>i b. bt_get (st_books s) i = Some b \<longrightarrow>
     i < st_next_book_id s \<and> bk_id b = i \<and> (\<exists>pair scale. listed s i pair scale \<and> book_fit scale b))"

definition maps_ok :: "trade_state \<Rightarrow> bool" where
  "maps_ok s \<longleftrightarrow> bt_ok (st_tokens s) \<and> pair_map_ok (st_pairs s) \<and> bt_ok (st_books s) \<and> policy_ok (st_policy s) \<and>
     finite (pm_halted_pairs (st_permissions s)) \<and> bt_ok (st_fee_cache s) \<and> bt_ok (tb_fee_pool (st_balances s)) \<and>
     (\<forall>pair i. get_book_id (st_pairs s) pair = Some i \<longrightarrow> bt_get (st_books s) i \<noteq> None)"

definition heap_ok :: "trade_state \<Rightarrow> bool" where
  "heap_ok s \<longleftrightarrow> maps_ok s \<and> books_ok s"

lemma heap_okD:
  assumes "heap_ok s" "bt_get (st_books s) i = Some b"
  obtains pair scale where "listed s i pair scale" "book_fit scale b" "bk_id b = i" "i < st_next_book_id s"
  using assms unfolding heap_ok_def books_ok_def by blast

lemma listed_scale: "listed s i pair scale \<Longrightarrow> base_scale_for_book s i = Some scale"
  by (simp add: listed_def base_scale_for_book_def)

lemma listed_unique: "listed s i pair scale \<Longrightarrow> listed s i pair' scale' \<Longrightarrow> pair' = pair \<and> scale' = scale"
  by (auto simp: listed_def)

lemma listed_cong:
  "st_pairs s' = st_pairs s \<Longrightarrow> st_tokens s' = st_tokens s \<Longrightarrow> listed s' = listed s"
  by (simp add: listed_def fun_eq_iff is_known_token_def base_scale_def)

lemma heap_ok_cong:
  assumes "heap_ok s" "st_tokens s' = st_tokens s" "st_pairs s' = st_pairs s" "st_books s' = st_books s"
    "st_next_book_id s' = st_next_book_id s" "policy_ok (st_policy s')" "finite (pm_halted_pairs (st_permissions s'))"
    "bt_ok (st_fee_cache s')" "bt_ok (tb_fee_pool (st_balances s'))"
  shows "heap_ok s'"
  using assms listed_cong [of s' s] by (simp add: heap_ok_def maps_ok_def books_ok_def)

text \<open>Replacing one book by a well-formed book of the same listing.\<close>

lemma heap_ok_book:
  assumes ok: "heap_ok s" and b: "bt_get (st_books s) i = Some b" "listed s i pair scale" "book_fit scale b'" "bk_id b' = i"
    and s': "st_books s' = bt_insert i b' (st_books s)" "st_tokens s' = st_tokens s" "st_pairs s' = st_pairs s"
      "st_next_book_id s' = st_next_book_id s" "st_policy s' = st_policy s" "st_permissions s' = st_permissions s"
      "st_fee_cache s' = st_fee_cache s" "tb_fee_pool (st_balances s') = tb_fee_pool (st_balances s)"
  shows "heap_ok s'"
proof -
  have "i < st_next_book_id s" using heap_okD [OF ok b(1)] by blast
  then have "books_ok s'"
    using ok b listed_cong [OF s'(3,2)] unfolding heap_ok_def books_ok_def by (auto simp: s')
  moreover have "maps_ok s'" using ok by (auto simp: heap_ok_def maps_ok_def s')
  ultimately show ?thesis by (simp add: heap_ok_def)
qed

section \<open>What the endpoints have checked\<close>

definition pair_event_ok :: "add_trading_pair_event \<Rightarrow> bool" where
  "pair_event_ok ev \<longleftrightarrow> ap_base ev \<noteq> ap_quote ev \<and> ap_tick_size ev \<noteq> 0 \<and> ap_lot_size ev \<noteq> 0 \<and> fee_rates_ok (ap_fee_rates ev) \<and>
     (\<exists>scale. checked_pow (10 :: u64) (unat (decimals (ap_base_metadata ev))) = Some scale \<and>
        unat scale dvd unat (ap_tick_size ev) * unat (ap_lot_size ev))"

definition event_guard :: "event_type \<Rightarrow> trade_state \<Rightarrow> bool" where
  "event_guard payload s = (case payload of
     Ev_AddTradingPair ev \<Rightarrow> pair_event_ok ev
   | Ev_AddLimitOrder ev \<Rightarrow> unat (ao_price ev) * q2n (ao_quantity ev) < 2 ^ 256
   | Ev_Matching ev \<Rightarrow>
       (\<exists>b n. bt_get (st_books s) (me_book_id ev) = Some b \<and> me_orders ev = take n (pending_order_seqs b))
   | _ \<Rightarrow> True)"

section \<open>Preservation\<close>

lemma try_mutate_pool: "try_mutate key mutate wb = Some (r, wb') \<Longrightarrow> wb_fee_pool wb' = wb_fee_pool wb"
  by (auto simp: try_mutate_eq split: option.splits sum.splits)

lemma tb_reserve_pool: "tb_reserve u t a tb = Some (r, tb') \<Longrightarrow> tb_fee_pool tb' = tb_fee_pool tb"
  by (auto simp: tb_reserve_def wb_reserve_def with_write_back_def write_back_new_def trap_simps dest: try_mutate_pool)

lemma tb_withdraw_pool: "tb_withdraw u t a tb = Some (r, tb') \<Longrightarrow> tb_fee_pool tb' = tb_fee_pool tb"
  by (auto simp: tb_withdraw_def wb_withdraw_def with_write_back_def write_back_new_def trap_simps dest: try_mutate_pool)

lemma tb_deposit_pool: "tb_deposit u t a tb = Some tb' \<Longrightarrow> tb_fee_pool tb' = tb_fee_pool tb"
  by (auto simp: tb_deposit_def wb_deposit_def with_write_back_def write_back_new_def load_or_create_Some trap_simps)

lemma heap_ok_limit_order:
  assumes ok: "heap_ok s" and r: "record_limit_order user i ord placed_by now Write s = Some s'"
    and worth: "unat (ord_price ord) * q2n (ord_remaining ord) < 2 ^ 256"
  shows "heap_ok s'"
proof -
  obtain b token required s1 b' where x: "bt_get (st_books s) i = Some b"
      "reserve_and_record user i ord placed_by now token required s = Some s1" "add_pending_order ord b = Some b'"
      "s' = s1\<lparr>st_books := bt_insert i b' (st_books s1)\<rparr>"
    using r by (auto simp: record_limit_order_def trap_simps)
  obtain pair scale where l: "listed s i pair scale" "book_fit scale b" "bk_id b = i" using heap_okD [OF ok x(1)] .
  have s1: "st_books s1 = st_books s" "st_tokens s1 = st_tokens s" "st_pairs s1 = st_pairs s" "st_next_book_id s1 = st_next_book_id s"
      "st_policy s1 = st_policy s" "st_permissions s1 = st_permissions s" "st_fee_cache s1 = st_fee_cache s"
      "tb_fee_pool (st_balances s1) = tb_fee_pool (st_balances s)"
    using x(2) by (auto simp: reserve_and_record_def trap_simps dest: tb_reserve_pool)
  note push = book_fit_push [OF l(2) x(3) worth]
  show ?thesis
    by (rule heap_ok_book [OF ok x(1) l(1) push(1)]) (simp_all add: x(4) s1 push(2) l(3))
qed

lemma heap_ok_cancel:
  assumes ok: "heap_ok s" and r: "record_cancel_limit_order i canceled_by now Write s = Some s'"
  shows "heap_ok s'"
proof -
  obtain book seq where i: "i = (book, seq)" by (cases i)
  obtain b b' removed orders evs where x: "bt_get (st_books s) book = Some b" "remove_order seq b = Some (Some removed, b')"
      "s' = s\<lparr>st_books := bt_insert book b' (st_books s), st_orders := orders, st_settling := evs\<rparr>"
    using r by (auto simp: i record_cancel_limit_order_def trap_simps)
  obtain pair scale where l: "listed s book pair scale" "book_fit scale b" "bk_id b = book" using heap_okD [OF ok x(1)] .
  have "book_ok b" using l(2) by (simp add: book_fit_def)
  then have "bk_id b' = book" using stake_sum_remove(3) [of b seq removed b'] x(2) l(3) by (simp add: book_config_eq)
  then show ?thesis by (intro heap_ok_book [OF ok x(1) l(1) book_fit_remove [OF l(2) x(2)]]) (simp_all add: x(3))
qed

lemma take_prefix: "\<exists>later. xs = take n xs @ later"
  by (intro exI [of _ "drop n xs"]) simp

lemma heap_ok_matching:
  assumes ok: "heap_ok s" and r: "record_matching_event ev now Write s = Some s'" and g: "event_guard (Ev_Matching ev) s"
  shows "heap_ok s'"
proof -
  obtain b n where b: "bt_get (st_books s) (me_book_id ev) = Some b" "me_orders ev = take n (pending_order_seqs b)"
    using g by (auto simp: event_guard_def)
  obtain out b' orders evs where x: "process_pending_orders (me_orders ev) b = Some (out, b')"
      "s' = s\<lparr>st_books := bt_insert (me_book_id ev) b' (st_books s), st_orders := orders, st_settling := evs\<rparr>"
    using r b(1) by (auto simp: record_matching_event_def Let_def trap_simps)
  obtain pair scale where l: "listed s (me_book_id ev) pair scale" "book_fit scale b" "bk_id b = me_book_id ev"
    using heap_okD [OF ok b(1)] .
  obtain later where "pending_order_seqs b = me_orders ev @ later" using take_prefix b(2) by metis
  then have fit: "book_fit scale b'" "book_config b' = book_config b"
    using book_fit_process [OF l(2)] x(1) by fastforce+
  show ?thesis by (rule heap_ok_book [OF ok b(1) l(1) fit(1)]) (use fit(2) l(3) in \<open>simp_all add: x(2) book_config_eq\<close>)
qed

lemma apply_operation_pool:
  "bt_ok (wb_fee_pool wb) \<Longrightarrow> apply_operation pair resolved op wb = Some wb' \<Longrightarrow> bt_ok (wb_fee_pool wb')"
  by (cases op)
     (auto simp: apply_operation_def wb_transfer_def wb_unreserve_def withhold_def load_existing_Some load_or_create_Some
       Let_def trap_simps split: if_splits)

lemma apply_operations_pool:
  "bt_ok (wb_fee_pool wb) \<Longrightarrow> apply_operations pair resolved ops wb = Some wb' \<Longrightarrow> bt_ok (wb_fee_pool wb')"
  by (induction ops arbitrary: wb) (auto simp: trap_simps dest: apply_operation_pool)

lemma heap_ok_settling:
  assumes "heap_ok s" "record_settling_event ev now Write s = Some s'"
  shows "heap_ok s'"
proof -
  obtain pair resolved trades wb where x: "apply_operations pair resolved (se_operations ev)
        (write_back_new (tb_balances (st_balances s)) (tb_fee_pool (st_balances s))) = Some wb"
      "s' = s\<lparr>st_trades := trades, st_balances := \<lparr>tb_balances = wb_flush wb, tb_fee_pool = wb_fee_pool wb\<rparr>\<rparr>"
    using assms(2) by (auto simp: record_settling_event_def with_write_back_def trap_simps)
  have "bt_ok (wb_fee_pool wb)"
    using apply_operations_pool [OF _ x(1)] assms(1) by (simp add: heap_ok_def maps_ok_def write_back_new_def)
  then show ?thesis
    using assms(1) by (intro heap_ok_cong [OF assms(1)]) (simp_all add: x(2) heap_ok_def maps_ok_def)
qed

text \<open>A token, once known, keeps its metadata, so listings survive new tokens.\<close>

lemma record_token_effect:
  assumes "record_token t m s = Some s'"
  shows "bt_get (st_tokens s') = (bt_get (st_tokens s))(t \<mapsto> m)" "s' = s\<lparr>st_tokens := st_tokens s'\<rparr>"
    "bt_ok (st_tokens s) \<Longrightarrow> bt_ok (st_tokens s')" "bt_get (st_tokens s) t = Some m' \<Longrightarrow> m' = m"
  using assms by (auto simp: record_token_def trap_simps fun_eq_iff split: option.splits)

lemma listed_mono:
  assumes "listed s i pair scale" "get_pair (st_pairs s') i = Some pair"
    "\<And>t m. bt_get (st_tokens s) t = Some m \<Longrightarrow> bt_get (st_tokens s') t = Some m"
  shows "listed s' i pair scale"
  using assms by (auto simp: listed_def base_scale_def is_known_token_def bt_contains_def trap_simps)

lemma heap_ok_pair:
  assumes ok: "heap_ok s" and g: "pair_event_ok ev"
    and r: "record_trading_pair (ap_book_id ev) \<lparr>tp_base = ap_base ev, tp_quote = ap_quote ev\<rparr>
            (ap_base_metadata ev) (ap_quote_metadata ev) (ap_tick_size ev) (ap_lot_size ev)
            (ap_min_notional ev) (ap_max_notional ev) (ap_fee_rates ev) s = Some s'"
  shows "heap_ok s'"
proof -
  let ?pair = "\<lparr>tp_base = ap_base ev, tp_quote = ap_quote ev\<rparr>" and ?i = "ap_book_id ev"
  let ?b = "book_new ?i (ap_tick_size ev) (ap_lot_size ev) (ap_min_notional ev) (ap_max_notional ev) (ap_fee_rates ev)"
  obtain s1 s2 pairs nxt where x: "record_token (ap_base ev) (ap_base_metadata ev) s = Some s1"
      "record_token (ap_quote ev) (ap_quote_metadata ev) s1 = Some s2" "?i = st_next_book_id s2"
      "pair_map_insert ?pair ?i (st_pairs s2) = Some pairs" "bt_get (st_books s2) ?i = None" "seq_increment (st_next_book_id s2) = Some nxt"
      "s' = s2\<lparr>st_pairs := pairs, st_books := bt_insert ?i ?b (st_books s2), st_next_book_id := nxt\<rparr>"
    using r by (auto simp: record_trading_pair_def Let_def trap_simps)
  note t1 = record_token_effect [OF x(1)] and t2 = record_token_effect [OF x(2)]
  have s2: "s2 = s\<lparr>st_tokens := st_tokens s2\<rparr>" by (subst t2(2), subst t1(2)) simp
  have tokens: "bt_get (st_tokens s2) = (bt_get (st_tokens s))(ap_base ev \<mapsto> ap_base_metadata ev, ap_quote ev \<mapsto> ap_quote_metadata ev)"
    using t1(1) t2(1) by simp
  have keep: "bt_get (st_tokens s') t = Some m" if "bt_get (st_tokens s) t = Some m" for t m
    using that t1(1,4) t2(1,4) by (auto simp: x(7) split: if_splits)
  have st: "st_books s2 = st_books s" "st_pairs s2 = st_pairs s" "st_next_book_id s2 = st_next_book_id s"
      "st_policy s2 = st_policy s" "st_permissions s2 = st_permissions s" "st_fee_cache s2 = st_fee_cache s" "st_balances s2 = st_balances s"
    by (subst s2, simp)+
  have m: "maps_ok s" "books_ok s" using ok by (simp_all add: heap_ok_def)
  have pm: "pair_map_ok (st_pairs s)" using m(1) by (simp add: maps_ok_def)
  note ins = pair_map_insert_ok [OF pm, of ?pair ?i pairs]
  have pairs: "pair_map_insert ?pair ?i (st_pairs s) = Some pairs" using x(4) by (simp add: st)
  have nxt: "nxt = ?i + 1" "?i < nxt" "\<And>j. j < ?i \<Longrightarrow> j < nxt"
    using x(3,6) unat_u64_bound [of ?i]
    by (auto simp: seq_increment_def checked_add_def word_less_nat_alt unat_add_no_overflow split: if_splits)
  obtain scale where sc: "checked_pow (10 :: u64) (unat (decimals (ap_base_metadata ev))) = Some scale"
      "unat scale dvd unat (ap_tick_size ev) * unat (ap_lot_size ev)"
    using g by (auto simp: pair_event_ok_def)
  have "scale \<noteq> 0" using sc(1) by (auto simp: checked_pow_Some)
  then have fit: "book_fit scale ?b" using g sc(2) by (intro book_fit_new) (simp_all add: pair_event_ok_def)
  have new: "listed s' ?i ?pair scale"
    using ins(3) [OF pairs] tokens g sc(1) \<open>scale \<noteq> 0\<close>
    by (auto simp: listed_def x(7) base_scale_def is_known_token_def bt_contains_def pair_event_ok_def ensure_def)
  have old: "listed s' j pair sc'" if "listed s j pair sc'" "j \<noteq> ?i" for j pair sc'
    by (rule listed_mono [OF that(1)]) (use that ins(3) [OF pairs] keep in \<open>auto simp: x(7) listed_def\<close>)
  have "books_ok s'"
    unfolding books_ok_def
  proof (intro allI impI)
    fix j b assume "bt_get (st_books s') j = Some b"
    then consider "j = ?i" "b = ?b" | "j \<noteq> ?i" "bt_get (st_books s) j = Some b" by (auto simp: x(7) st split: if_splits)
    then show "j < st_next_book_id s' \<and> bk_id b = j \<and> (\<exists>pair scale. listed s' j pair scale \<and> book_fit scale b)"
    proof cases
      case 1
      then show ?thesis using new fit nxt by (auto simp: x(7)) (auto simp: book_new_def)
    next
      case 2
      obtain pair sc' where "listed s j pair sc'" "book_fit sc' b" "bk_id b = j" "j < st_next_book_id s"
        using heap_okD [OF ok 2(2)] .
      then show ?thesis using old [of j pair sc'] 2 nxt(3) x(3) st(3) by (auto simp: x(7))
    qed
  qed
  moreover have "bt_ok (st_tokens s2)" using t1(3) t2(3) m(1) by (simp add: maps_ok_def)
  then have "maps_ok s'"
    using m(1) ins [OF pairs] by (auto simp: maps_ok_def x(7) st split: if_splits)
  ultimately show ?thesis by (simp add: heap_ok_def)
qed

lemma set_halts_finite: "finite (pm_halted_pairs p) \<Longrightarrow> finite (pm_halted_pairs (set_halts halted books p))"
proof -
  have "finite (pm_halted_pairs p) \<Longrightarrow> finite (pm_halted_pairs (fold (if h then pm_halt_trading else pm_resume_trading) books p))" for h
    by (induction books arbitrary: p) (auto simp: pm_halt_trading_def pm_resume_trading_def)
  then show "finite (pm_halted_pairs p) \<Longrightarrow> finite (pm_halted_pairs (set_halts halted books p))" by (simp add: set_halts_def)
qed

lemma apply_upgrade_policy: "policy_ok (st_policy s) \<Longrightarrow> apply_upgrade arg s = Some s' \<Longrightarrow> policy_ok (st_policy s')"
  by (auto simp: apply_upgrade_def Let_def trap_simps split: if_splits option.splits intro: policy_try_new_ok)

lemma heap_ok_upgrade:
  assumes "heap_ok s" "apply_upgrade arg s = Some s'"
  shows "heap_ok s'"
proof -
  have "policy_ok (st_policy s)" using assms(1) by (simp add: heap_ok_def maps_ok_def)
  note pol = apply_upgrade_policy [OF this assms(2)]
  have "st_tokens s' = st_tokens s" "st_pairs s' = st_pairs s" "st_books s' = st_books s" "st_next_book_id s' = st_next_book_id s"
      "st_permissions s' = st_permissions s" "st_fee_cache s' = st_fee_cache s" "st_balances s' = st_balances s"
    using assms(2) by (auto simp: apply_upgrade_def Let_def trap_simps split: if_splits option.splits)
  then show ?thesis using assms(1) pol by (intro heap_ok_cong [OF assms(1)]) (simp_all add: heap_ok_def maps_ok_def)
qed

lemma heap_ok_simple:
  assumes "heap_ok s" "heap_of s' = heap_of s" "bt_ok (st_fee_cache s')" "bt_ok (tb_fee_pool (st_balances s'))"
  shows "heap_ok s'"
  using assms by (intro heap_ok_cong [OF assms(1)]) (simp_all add: heap_of_eq heap_ok_def maps_ok_def)

lemma heap_ok_maps: "heap_ok s \<Longrightarrow> bt_ok (st_fee_cache s)" "heap_ok s \<Longrightarrow> bt_ok (tb_fee_pool (st_balances s))"
  by (simp_all add: heap_ok_def maps_ok_def)

lemma heap_ok_deposit:
  assumes "heap_ok s" "st_deposit user token amount Write s = Some s'"
  shows "heap_ok s'"
  using assms(2) heap_ok_maps [OF assms(1)]
  by (intro heap_ok_simple [OF assms(1)])
     (auto simp: st_deposit_def trap_simps heap_of_eq split: prod.splits dest: tb_deposit_pool)

lemma heap_ok_withdraw:
  assumes "heap_ok s" "st_withdraw user token amount s = Some (r, s')"
  shows "heap_ok s'"
  using assms(2) heap_ok_maps [OF assms(1)]
  by (intro heap_ok_simple [OF assms(1)])
     (auto simp: st_withdraw_def trap_simps heap_of_eq split: option.splits dest: tb_withdraw_pool)

lemma heap_ok_event:
  assumes ok: "heap_ok s" and g: "event_guard payload s" and t: "apply_state_transition payload now Write s = Some s'"
  shows "heap_ok s'"
proof (cases payload)
  case (Ev_AddLimitOrder ev)
  then show ?thesis
    using t g heap_ok_limit_order [OF ok]
    by (cases "ao_order_id ev") (auto simp: apply_state_transition_def event_guard_def into_order_def)
next
  case (Ev_Matching ev)
  then show ?thesis using t g by (intro heap_ok_matching [OF ok]) (simp_all add: apply_state_transition_def)
next
  case (Ev_AddTradingAccount ev)
  then show ?thesis using t heap_ok_maps [OF ok]
    by (intro heap_ok_simple [OF ok])
       (auto simp: apply_state_transition_def st_record_add_trading_account_def heap_of_eq trap_simps)
next
  case (Ev_RemoveTradingAccount ev)
  then show ?thesis using t heap_ok_maps [OF ok]
    by (intro heap_ok_simple [OF ok])
       (auto simp: apply_state_transition_def st_record_remove_trading_account_def heap_of_eq trap_simps)
next
  case (Ev_SetHalt ev)
  have "finite (pm_halted_pairs (st_permissions s))" using ok by (simp add: heap_ok_def maps_ok_def)
  then have "finite (pm_halted_pairs (st_permissions s'))"
    using t Ev_SetHalt set_halts_finite [of "st_permissions s"]
    by (auto simp: apply_state_transition_def halt_trading_globally_def resume_trading_globally_def split: option.splits if_splits)
  then show ?thesis using ok t Ev_SetHalt
    by (intro heap_ok_cong [OF ok]) (auto simp: apply_state_transition_def heap_ok_def maps_ok_def)
qed (use t g in \<open>auto simp: apply_state_transition_def event_guard_def trap_simps
       intro: heap_ok_upgrade [OF ok] heap_ok_pair [OF ok] heap_ok_deposit [OF ok] heap_ok_withdraw [OF ok] heap_ok_settling [OF ok]
         heap_ok_cancel [OF ok]\<close>)

section \<open>Snapshots\<close>

lemma insert_pairs_all:
  assumes "pair_map_ok (m @ es)"
  shows "insert_pairs es m = Some (m @ es)"
  using assms
proof (induction es arbitrary: m)
  case (Cons e es)
  obtain k v where e: "e = (k, v)" by (cases e)
  have "bt_get m k = None" "bt_insert k v m = m @ [(k, v)]" "get_pair m v = None"
    using Cons.prems by (auto simp: e pair_map_ok_def bt_ok_append bt_get_None bt_keys_def bt_insert_snoc get_pair_None)
  then show ?case using Cons by (simp add: e pair_map_insert_def get_book_id_def)
qed simp

lemma insert_books_all:
  assumes "bt_ok (m @ es)" "\<forall>(i, b) \<in> set es. book_ok b \<and> bk_id b = i"
  shows "insert_books (map snapshot_of_book (bt_values es)) m = Some (m @ es)"
  using assms
proof (induction es arbitrary: m)
  case Nil
  then show ?case by (simp add: bt_values_def)
next
  case (Cons e es)
  obtain i b where e: "e = (i, b)" by (cases e)
  have "bt_get m i = None" "bt_insert i b m = m @ [(i, b)]"
    using Cons.prems(1) by (auto simp: e bt_ok_append bt_get_None bt_keys_def bt_insert_snoc)
  moreover have "book_of_snapshot (snapshot_of_book b) = Some b" "bs_id (snapshot_of_book b) = i"
    using Cons.prems(2) snapshot_roundtrip [of b] by (auto simp: e snapshot_of_book_def)
  ultimately show ?case using Cons by (simp add: e bt_values_def)
qed

lemma fee_pool_insert_all:
  assumes "bt_ok (m @ es)"
  shows "fee_pool_insert_all (fee_pool_snapshot es) m = Some (m @ es)"
  using assms
proof (induction es arbitrary: m)
  case Nil
  then show ?case by (simp add: fee_pool_snapshot_def)
next
  case (Cons e es)
  obtain k v where e: "e = (k, v)" by (cases e)
  have "bt_get m k = None" "bt_insert k v m = m @ [(k, v)]"
    using Cons.prems by (auto simp: e bt_ok_append bt_get_None bt_keys_def bt_insert_snoc)
  then show ?case using Cons by (simp add: e fee_pool_snapshot_def)
qed

lemma permissions_roundtrip:
  assumes "finite (pm_halted_pairs p)"
  shows "permissions_of_snapshot (permissions_snapshot_of p) = p"
proof -
  have "fold pm_halt_trading is q = q\<lparr>pm_halted_pairs := set is \<union> pm_halted_pairs q\<rparr>" for "is" q
    by (induction "is" arbitrary: q) (auto simp: pm_halt_trading_def intro!: permissions.equality)
  then show ?thesis
    using assms by (auto simp: permissions_of_snapshot_def permissions_snapshot_of_def permissions_default_def
        halt_trading_globally_def intro!: permissions.equality)
qed

lemma policy_roundtrip:
  "policy_ok ep \<Longrightarrow> restore_policy (Some (ep_max_orders_per_chunk ep)) (Some (ep_instruction_budget ep))
     (Some (ep_max_settlement_units_per_event ep)) = Some ep"
  by (simp add: restore_policy_def policy_ok_def)

lemma state_snapshot_roundtrip:
  assumes "heap_ok s"
  shows "into_state (from_state s) (st_orders s) (st_trades s) (tb_balances (st_balances s)) (st_registry s) =
    Some (s\<lparr>st_tasks := {}, st_in_flight := {}\<rparr>)"
proof -
  have m: "bt_ok (st_tokens s)" "pair_map_ok (st_pairs s)" "bt_ok (st_books s)" "policy_ok (st_policy s)"
      "finite (pm_halted_pairs (st_permissions s))" "bt_ok (st_fee_cache s)" "bt_ok (tb_fee_pool (st_balances s))"
    using assms by (simp_all add: heap_ok_def maps_ok_def)
  have "book_ok b \<and> bk_id b = i" if "bt_get (st_books s) i = Some b" for i b
    using heap_okD [OF assms that] by (auto simp: book_fit_def)
  then have "\<forall>(i, b) \<in> set (st_books s). book_ok b \<and> bk_id b = i" by (auto simp: bt_ok_get_iff [OF m(3)])
  then have books: "insert_books (map snapshot_of_book (bt_values (st_books s))) [] = Some (st_books s)"
    using insert_books_all [of "[]" "st_books s"] m(3) by simp
  have pool: "fee_pool_restore (case if fee_pool_snapshot (tb_fee_pool (st_balances s)) = [] then None
        else Some (fee_pool_snapshot (tb_fee_pool (st_balances s))) of None \<Rightarrow> [] | Some es \<Rightarrow> es) = Some (tb_fee_pool (st_balances s))"
    using fee_pool_insert_all [of "[]" "tb_fee_pool (st_balances s)"] m(7)
    by (auto simp: fee_pool_restore_def fee_pool_snapshot_def)
  show ?thesis
    using insert_unique_all [of "[]" "st_tokens s"] insert_pairs_all [of "[]" "st_pairs s"] insert_unique_all [of "[]" "st_fee_cache s"]
      m books pool policy_roundtrip [OF m(4)] permissions_roundtrip [OF m(5)]
    by (auto simp: into_state_def from_state_def Let_def intro!: trade_state.equality token_balance.equality)
qed

end
