(* ===== verification/System.thy ===== *)
theory System
  imports Api Heap_Invariant Balance_Properties
begin

text \<open>
  The canister as a state machine: one step per message, in any order. Deposits and withdrawals
  are two messages with a ledger call between them, so the calls in flight are part of the state
  and everything else may happen while they are. \<open>Principal\<close> constants and the big-integer
  library are parameters of the machine, as are the answers of ledgers, the caller, the time and
  the instruction counter of each message.
\<close>

datatype ledger_call =
    DepositCall principal token_id quantity
  | WithdrawCall principal token_id quantity nat

definition call_key :: "ledger_call \<Rightarrow> principal \<times> token_id" where
  "call_key call = (case call of DepositCall p t _ \<Rightarrow> (p, t) | WithdrawCall p t _ _ \<Rightarrow> (p, t))"

record system =
  sy_canister :: canister
  sy_calls :: "ledger_call list"
  sy_lost :: "ledger_call list"

text \<open>
  When the code after an await traps, its changes are rolled back and the call is dropped with its
  guard. Nothing is credited or logged then: a deposit the ledger has taken and a withdrawal it has paid out are known to
  the ledger only. Such calls are kept in \<open>sy_lost\<close>, which the canister cannot see.
\<close>

definition trapped :: "ledger_call \<Rightarrow> system \<Rightarrow> system" where
  "trapped call y = (let c = sy_canister y; (p, t) = call_key call
     in y\<lparr>sy_canister := c\<lparr>cn_state := user_op_guard_drop p t (cn_state c)\<rparr>,
          sy_calls := remove1 call (sy_calls y), sy_lost := call # sy_lost y\<rparr>)"

inductive sys_step :: "principal_consts \<Rightarrow> biguint_ops \<Rightarrow> system \<Rightarrow> system \<Rightarrow> bool"
  for pc :: principal_consts and big :: biguint_ops where
  step_add_order:
    "api_add_limit_order big req rt (sy_canister y) = Some (r, c) \<Longrightarrow> sys_step pc big y (y\<lparr>sy_canister := c\<rparr>)"
| step_cancel:
    "api_cancel_limit_order i rt (sy_canister y) = Some (rc, c) \<Longrightarrow> sys_step pc big y (y\<lparr>sy_canister := c\<rparr>)"
| step_match:
    "api_process_pending_orders counter now (sy_canister y) = Some (st, c) \<Longrightarrow> sys_step pc big y (y\<lparr>sy_canister := c\<rparr>)"
| step_grant:
    "api_add_trading_account pc trading rt (sy_canister y) = Some (rg, c) \<Longrightarrow> sys_step pc big y (y\<lparr>sy_canister := c\<rparr>)"
| step_revoke:
    "api_remove_trading_account trading rt (sy_canister y) = Some (rr, c) \<Longrightarrow> sys_step pc big y (y\<lparr>sy_canister := c\<rparr>)"
| step_pair:
    "add_trading_pair big preq rt (sy_canister y) = Some (rp, c) \<Longrightarrow> sys_step pc big y (y\<lparr>sy_canister := c\<rparr>)"
| step_halt:
    "set_halt pairs halted rt (sy_canister y) = Some (rh, c) \<Longrightarrow> sys_step pc big y (y\<lparr>sy_canister := c\<rparr>)"
| step_deposit_refused:
    "deposit_start big token n rt (sy_canister y) = Some (Inl e, c) \<Longrightarrow> sys_step pc big y (y\<lparr>sy_canister := c\<rparr>)"
| step_deposit_start:
    "deposit_start big token n rt (sy_canister y) = Some (Inr amount, c) \<Longrightarrow>
     sys_step pc big y (y\<lparr>sy_canister := c, sy_calls := DepositCall (rt_caller rt) token amount # sy_calls y\<rparr>)"
| step_deposit_finish:
    "DepositCall (rt_caller rt) token amount \<in> set (sy_calls y) \<Longrightarrow>
     deposit_finish token amount answer rt (sy_canister y) = Some (rd, c) \<Longrightarrow>
     sys_step pc big y (y\<lparr>sy_canister := c, sy_calls := remove1 (DepositCall (rt_caller rt) token amount) (sy_calls y)\<rparr>)"
| step_deposit_trap:
    "DepositCall (rt_caller rt) token amount \<in> set (sy_calls y) \<Longrightarrow>
     deposit_finish token amount answer rt (sy_canister y) = None \<Longrightarrow>
     sys_step pc big y (trapped (DepositCall (rt_caller rt) token amount) y)"
| step_withdraw_refused:
    "withdraw_start big token n rt (sy_canister y) = Some (Inl ew, c) \<Longrightarrow> sys_step pc big y (y\<lparr>sy_canister := c\<rparr>)"
| step_withdraw_start:
    "withdraw_start big token n rt (sy_canister y) = Some (Inr (amount, fee), c) \<Longrightarrow>
     sys_step pc big y (y\<lparr>sy_canister := c, sy_calls := WithdrawCall (rt_caller rt) token amount fee # sy_calls y\<rparr>)"
| step_withdraw_finish:
    "WithdrawCall (rt_caller rt) token amount fee \<in> set (sy_calls y) \<Longrightarrow>
     withdraw_finish token amount (ledger_withdraw amount fee ledger) rt (sy_canister y) = Some (rw, c) \<Longrightarrow>
     sys_step pc big y (y\<lparr>sy_canister := c, sy_calls := remove1 (WithdrawCall (rt_caller rt) token amount fee) (sy_calls y)\<rparr>)"
| step_withdraw_trap:
    "WithdrawCall (rt_caller rt) token amount fee \<in> set (sy_calls y) \<Longrightarrow>
     withdraw_finish token amount (ledger_withdraw amount fee ledger) rt (sy_canister y) = None \<Longrightarrow>
     sys_step pc big y (trapped (WithdrawCall (rt_caller rt) token amount fee) y)"
| step_upgrade:
    "sy_calls y = [] \<Longrightarrow> s = cn_state (sy_canister y) \<Longrightarrow>
     post_upgrade arg now (from_state s) (st_orders s) (st_trades s) (tb_balances (st_balances s)) (st_registry s)
       (cn_log (sy_canister y)) = Some c \<Longrightarrow>
     sys_step pc big y (y\<lparr>sy_canister := c\<rparr>)"

inductive reachable :: "principal_consts \<Rightarrow> biguint_ops \<Rightarrow> oisy_trade_arg \<Rightarrow> system \<Rightarrow> bool"
  for pc :: principal_consts and big :: biguint_ops and arg :: oisy_trade_arg where
  reach_init: "canister_init arg now = Some c \<Longrightarrow> reachable pc big arg \<lparr>sy_canister = c, sy_calls = [], sy_lost = []\<rparr>"
| reach_step: "reachable pc big arg y \<Longrightarrow> sys_step pc big y y' \<Longrightarrow> reachable pc big arg y'"

section \<open>Elementary steps\<close>

text \<open>Every message is a sequence of few kinds of change: an applied and logged event, a settling event
  taken from the queue, applied and logged, and a change of the task set. The side conditions are
  what the endpoints have checked.\<close>

definition cancellable :: "trade_state \<Rightarrow> order_id \<Rightarrow> bool" where
  "cancellable s i \<longleftrightarrow> (\<exists>r. history_get (st_orders s) i = Some r \<and> (or_status r = Pending \<or> or_status r = Open))"

definition event_allowed :: "principal_consts \<Rightarrow> event_type \<Rightarrow> timestamp \<Rightarrow> trade_state \<Rightarrow> bool" where
  "event_allowed pc payload now s = (case payload of
     Ev_AddTradingAccount ev \<Rightarrow>
       validate_add_trading_account pc (ta_funding ev) (ta_trading ev) now (st_registry s) = Inr () \<and>
       (\<forall>t. (ta_trading ev, t) \<notin> st_in_flight s)
   | Ev_RemoveTradingAccount ev \<Rightarrow> validate_remove_trading_account (ta_funding ev) (ta_trading ev) (st_registry s) = Inr ()
   | Ev_CancelLimitOrder ev \<Rightarrow> cancellable s (ce_order_id ev)
   | Ev_Deposit _ \<Rightarrow> False
   | Ev_Withdraw _ \<Rightarrow> False
   | Ev_Settling _ \<Rightarrow> False
   | Ev_Init _ \<Rightarrow> False
   | _ \<Rightarrow> event_guard payload s)"

inductive event_run :: "principal_consts \<Rightarrow> canister \<Rightarrow> canister \<Rightarrow> bool" for pc :: principal_consts where
  run_refl: "event_run pc c c"
| run_event:
    "event_run pc c c1 \<Longrightarrow> event_allowed pc payload now (cn_state c1) \<Longrightarrow>
     process_event payload now c1 = Some c2 \<Longrightarrow> event_run pc c c2"
| run_settle:
    "event_run pc c c1 \<Longrightarrow> st_settling (cn_state c1) = xs @ ev # ys \<Longrightarrow>
     process_event (Ev_Settling ev) now (c1\<lparr>cn_state := (cn_state c1)\<lparr>st_settling := xs @ ys\<rparr>\<rparr>) = Some c2 \<Longrightarrow>
     event_run pc c c2"
| run_tasks: "event_run pc c c1 \<Longrightarrow> event_run pc c (c1\<lparr>cn_state := (cn_state c1)\<lparr>st_tasks := ts\<rparr>\<rparr>)"

lemma event_run_trans: "event_run pc b c \<Longrightarrow> event_run pc a b \<Longrightarrow> event_run pc a c"
  by (induction rule: event_run.induct) (auto intro: event_run.intros)

lemma event_run_one:
  "process_event payload now c = Some c' \<Longrightarrow> event_allowed pc payload now (cn_state c) \<Longrightarrow> event_run pc c c'"
  by (rule run_event [OF run_refl])

text \<open>What a validated order satisfies.\<close>

lemma validate_limit_order_Inr:
  assumes "validate_limit_order user pair pending s = Some (Inr (i, ord))"
  obtains book b scale amount where "get_book_id (st_pairs s) pair = Some book" "bt_get (st_books s) book = Some b"
    "validate_order b (po_price pending) (po_quantity pending) = Some (Inr ())" "base_scale s (tp_base pair) = Some scale"
    "checked_mul_quantity_scaled (po_price pending) (po_quantity pending) scale = Some (Some amount)"
    "check_notional b amount = Inr ()" "i = (book, bk_next_seq b)" "ord = into_order pending (bk_next_seq b)"
    "(case po_side pending of Buy \<Rightarrow> amount | Sell \<Rightarrow> po_quantity pending) \<le>
       (case get_user_balance s user (case po_side pending of Buy \<Rightarrow> tp_quote pair | Sell \<Rightarrow> tp_base pair) of
          None \<Rightarrow> quantity_ZERO | Some b \<Rightarrow> bal_free b)"
proof -
  obtain book where book: "get_book_id (st_pairs s) pair = Some book"
    using assms by (auto simp: validate_limit_order_def split: option.splits)
  then obtain b v where b: "bt_get (st_books s) book = Some b" "validate_order b (po_price pending) (po_quantity pending) = Some v"
    using assms by (auto simp: validate_limit_order_def trap_simps)
  then obtain u where v: "v = Inr u" using assms book by (cases v) (auto simp: validate_limit_order_def)
  then obtain scale prod where m: "base_scale s (tp_base pair) = Some scale"
      "checked_mul_quantity_scaled (po_price pending) (po_quantity pending) scale = Some prod"
    using assms book b by (auto simp: validate_limit_order_def trap_simps)
  then obtain amount where a: "prod = Some amount" using assms book b v by (cases prod) (auto simp: validate_limit_order_def)
  obtain w where n: "check_notional b amount = Inr w"
    using assms book b v m a by (cases "check_notional b amount") (auto simp: validate_limit_order_def)
  then show ?thesis
    using assms book b v m a
    by (intro that [of book b scale amount])
       (cases "po_side pending"; auto simp: validate_limit_order_def Let_def split: if_splits)+
qed

lemma checked_mul_quantity_scaled_bound:
  "checked_mul_quantity_scaled p q scale = Some (Some amount) \<Longrightarrow> unat p * q2n q < 2 ^ 256"
  by (auto simp: checked_mul_quantity_scaled_def checked_mul_u128_eq mult.commute split: option.splits if_splits)

lemma add_order_effect:
  assumes "api_add_limit_order big req rt c = Some (r, c')"
  shows "c' = c \<or> (\<exists>ev. process_event (Ev_AddLimitOrder ev) (rt_time rt) c = Some c' \<and> event_guard (Ev_AddLimitOrder ev) (cn_state c))"
proof -
  let ?owner = "effective_account (cn_state c) (rt_caller rt)"
  show ?thesis
  proof (cases "pending_order_try_from big req")
    case (Inl e)
    then show ?thesis using assms by (auto simp: api_add_limit_order_def Let_def trap_simps)
  next
    case (Inr pending)
    then obtain validated where v: "validate_limit_order ?owner (req_pair req) pending (cn_state c) = Some validated"
      using assms by (auto simp: api_add_limit_order_def Let_def trap_simps)
    show ?thesis
    proof (cases validated)
      case (Inl e)
      then show ?thesis using assms Inr v by (auto simp: api_add_limit_order_def Let_def trap_simps)
    next
      case placed: (Inr io)
      obtain i ord where io: "io = (i, ord)" by (cases io)
      have "unat (ord_price ord) * q2n (ord_remaining ord) < 2 ^ 256"
        using v unfolding placed io
        by (elim validate_limit_order_Inr) (auto simp: into_order_def dest: checked_mul_quantity_scaled_bound)
      then show ?thesis using assms Inr v placed io
        by (auto simp: api_add_limit_order_def Let_def trap_simps event_guard_def split: sum.splits unauthorized_error.splits)
    qed
  qed
qed

lemma run_add_order: "api_add_limit_order big req rt c = Some (r, c') \<Longrightarrow> event_run pc c c'"
  by (drule add_order_effect) (auto simp: event_allowed_def intro: run_refl elim!: event_run_one)

lemma run_grant: "api_add_trading_account pc trading rt c = Some (r, c') \<Longrightarrow> event_run pc c c'"
  by (auto simp: api_add_trading_account_def st_validate_add_trading_account_def Let_def trap_simps event_allowed_def
      intro: run_refl elim!: event_run_one split: sum.splits if_splits)

lemma run_revoke: "api_remove_trading_account trading rt c = Some (r, c') \<Longrightarrow> event_run pc c c'"
  by (auto simp: api_remove_trading_account_def st_validate_remove_trading_account_def Let_def trap_simps event_allowed_def
      intro: run_refl elim!: event_run_one split: sum.splits)

lemma parse_pair_request_Inr:
  assumes "parse_pair_request big req = Inr (tick, lot, rates, mn, mx)"
  shows "tick \<noteq> 0" "lot \<noteq> 0" "fee_rates_ok rates"
proof -
  obtain mk tk where x: "rq_tick_size req < 2 ^ 128" "rq_tick_size req \<noteq> 0" "rq_lot_size req < 2 ^ 64" "rq_lot_size req \<noteq> 0"
      "basis_point_new (rq_maker_fee_bps req) = Inr mk" "basis_point_new (rq_taker_fee_bps req) = Inr tk"
      "tick = of_nat (rq_tick_size req)" "lot = of_nat (rq_lot_size req)" "rates = \<lparr>maker = mk, taker = tk\<rparr>"
    using assms by (auto simp: parse_pair_request_def split: if_splits sum.splits option.splits)
  show "tick \<noteq> 0" "lot \<noteq> 0" using x by (simp_all add: word_eq_iff_unat unat_of_nat_small)
  show "fee_rates_ok rates"
    using x(5,6) by (auto simp: x(9) fee_rates_ok_def rate_ok_def basis_point_new_def split: if_splits)
qed

lemma validate_new_pair_Inr:
  assumes "validate_new_pair req tick lot s = Some (Inr u)"
  shows "\<exists>scale. checked_pow (10 :: u64) (unat (decimals (rq_base_metadata req))) = Some scale \<and> unat scale dvd unat tick * unat lot"
proof -
  obtain scale tl q r where x: "checked_pow (10 :: u64) (unat (decimals (rq_base_metadata req))) = Some scale"
      "checked_mul_u64 (from_u128 tick) lot = Some tl" "checked_div_rem_u64 tl scale = Some (q, r)" "r = 0"
    using assms by (auto simp: validate_new_pair_def Let_def trap_simps split: if_splits sum.splits option.splits)
  have nz: "scale \<noteq> 0" using x(1) by (auto simp: checked_pow_Some)
  have "q2n tl mod unat scale = 0" using checked_div_rem_u64_Some(2) [OF nz x(3)] x(4) by simp
  moreover have "q2n tl = unat tick * unat lot" using x(2) by (simp add: checked_mul_u64_Some q2n_from_u128)
  ultimately show ?thesis using x(1) by (simp add: dvd_eq_mod_eq_0)
qed

lemma pair_effect:
  assumes "add_trading_pair big req rt c = Some (r, c')"
  shows "c' = c \<or> (\<exists>ev. process_event (Ev_AddTradingPair ev) (rt_time rt) c = Some c' \<and> pair_event_ok ev)"
proof (cases "\<not> rt_is_controller rt (rt_caller rt) \<or> rq_base req = rq_quote req")
  case True
  then show ?thesis using assms by (auto simp: add_trading_pair_def split: if_splits)
next
  case ok: False
  show ?thesis
  proof (cases "parse_pair_request big req")
    case (Inl e)
    then show ?thesis using assms ok by (simp add: add_trading_pair_def)
  next
    case (Inr p)
    obtain tick lot rates mn mx where p: "p = (tick, lot, rates, mn, mx)" by (cases p)
    obtain validated where v: "validate_new_pair req tick lot (cn_state c) = Some validated"
      using assms ok Inr p by (auto simp: add_trading_pair_def trap_simps)
    show ?thesis
      using assms ok Inr p v parse_pair_request_Inr [of big req tick lot rates mn mx] validate_new_pair_Inr [of req tick lot "cn_state c"]
      by (cases validated) (auto simp: add_trading_pair_def trap_simps pair_event_ok_def)
  qed
qed

lemma run_pair: "add_trading_pair big req rt c = Some (r, c') \<Longrightarrow> event_run pc c c'"
  by (drule pair_effect) (auto simp: event_allowed_def event_guard_def intro: run_refl elim!: event_run_one)

lemma run_halt: "set_halt pairs halted rt c = Some (r, c') \<Longrightarrow> event_run pc c c'"
  by (auto simp: set_halt_def trap_simps event_allowed_def event_guard_def intro: run_refl elim!: event_run_one split: if_splits)

text \<open>A cancellation queues one settling event, which \<open>cancel_limit_order\<close> takes out and applies at once.\<close>

lemma cancel_event_effect:
  assumes "process_event (Ev_CancelLimitOrder ev) now c = Some c1"
  obtains sev where "st_settling (cn_state c1) = st_settling (cn_state c) @ [sev]"
  using assms
  by (cases "ce_order_id ev")
     (auto simp: process_event_def apply_state_transition_def record_cancel_limit_order_def Let_def trap_simps)

lemma run_state_cancel:
  assumes cancel: "st_cancel_limit_order owner by' i now c = Some (r, c')"
  shows "event_run pc c c'"
proof (cases "validate_cancel_limit_order owner i (cn_state c)")
  case (Inl e)
  then show ?thesis using cancel by (simp add: st_cancel_limit_order_def run_refl)
next
  case (Inr u)
  let ?n = "length (st_settling (cn_state c))"
  obtain c1 where c1: "process_event (Ev_CancelLimitOrder \<lparr>ce_order_id = i, ce_canceled_by = by'\<rparr>) now c = Some c1"
      "process_settlings (drop ?n (st_settling (cn_state c1))) now
         (c1\<lparr>cn_state := (cn_state c1)\<lparr>st_settling := take ?n (st_settling (cn_state c1))\<rparr>\<rparr>) = Some c'"
    using cancel Inr by (auto simp: st_cancel_limit_order_def Let_def trap_simps)
  obtain sev where q: "st_settling (cn_state c1) = st_settling (cn_state c) @ [sev]" using cancel_event_effect [OF c1(1)] .
  have "cancellable (cn_state c) i"
    using Inr by (auto simp: validate_cancel_limit_order_def cancellable_def split: option.splits if_splits order_status.splits)
  then have "event_run pc c c1" by (intro event_run_one [OF c1(1)]) (simp add: event_allowed_def)
  then show ?thesis
    using run_settle [of pc c c1 "st_settling (cn_state c)" sev "[]" now c'] c1(2) q by (auto simp: trap_simps)
qed

lemma run_cancel:
  assumes "api_cancel_limit_order i rt c = Some (r, c')"
  shows "event_run pc c c'"
proof (cases "order_id_parse i")
  case (Inl e)
  then show ?thesis using assms by (auto simp: api_cancel_limit_order_def Let_def trap_simps intro: run_refl)
next
  case (Inr i')
  then obtain r' owner by' where "st_cancel_limit_order owner by' i' (rt_time rt) c = Some (r', c')"
    using assms unfolding api_cancel_limit_order_def by (auto simp: Let_def Option.bind_eq_Some_conv simp del: split_paired_Ex)
  then show ?thesis by (rule run_state_cancel)
qed

lemma run_drain_loop: "drain_loop fuel counter budget now (k, c) = Some (k', c') \<Longrightarrow> event_run pc c c'"
proof (induction fuel arbitrary: k c)
  case (Suc fuel)
  show ?case
  proof (cases "counter k < budget \<and> st_settling (cn_state c) \<noteq> []")
    case True
    then obtain ev rest c1 where ev: "st_settling (cn_state c) = ev # rest"
        "process_event (Ev_Settling ev) now (c\<lparr>cn_state := (cn_state c)\<lparr>st_settling := rest\<rparr>\<rparr>) = Some c1"
        "drain_loop fuel counter budget now (Suc k, c1) = Some (k', c')"
      using Suc.prems by (auto simp: take_next_pending_settling_event_def trap_simps split: list.splits)
    have "event_run pc c c1" using run_settle [OF run_refl, of c "[]" ev rest now c1] ev(1,2) by simp
    then show ?thesis by (rule event_run_trans [OF Suc.IH [OF ev(3)]])
  next
    case False
    then show ?thesis using Suc.prems
      by (auto simp: take_next_pending_settling_event_def intro: run_refl split: if_splits list.splits)
  qed
qed (simp add: run_refl)

lemma run_books_loop: "books_loop counter budget now books n (k, c) = Some (k', c') \<Longrightarrow> event_run pc c c'"
proof (induction books arbitrary: n k c)
  case (Cons book books)
  show ?case
  proof (cases "n = 0 \<or> counter k \<ge> budget")
    case True
    then show ?thesis using Cons.prems by (auto intro: run_refl split: if_splits)
  next
    case False
    show ?thesis
    proof (cases "permit_matching (st_permissions (cn_state c)) book")
      case (Inl e)
      then show ?thesis using Cons False by simp
    next
      case (Inr u)
      then obtain b where b: "bt_get (st_books (cn_state c)) book = Some b" using Cons.prems False by (auto simp: trap_simps)
      let ?chunk = "take n (pending_order_seqs b)"
      show ?thesis
      proof (cases "?chunk = []")
        case True
        then show ?thesis using Cons False Inr b by simp
      next
        case chunk: False
        then obtain c1 k2 c2 where c1: "process_event (Ev_Matching \<lparr>me_book_id = book, me_orders = ?chunk\<rparr>) now c = Some c1"
            "drain_settling counter budget now (Suc k, c1) = Some (k2, c2)"
            "books_loop counter budget now books (n - length ?chunk) (k2, c2) = Some (k', c')"
          using Cons.prems False Inr b by (auto simp: trap_simps Let_def)
        have "event_run pc c c1"
          using b by (intro event_run_one [OF c1(1)]) (auto simp: event_allowed_def event_guard_def)
        then have "event_run pc c c2"
          using run_drain_loop c1(2) unfolding drain_settling_def by (metis event_run_trans snd_conv)
        then show ?thesis by (rule event_run_trans [OF Cons.IH [OF c1(3)]])
      qed
    qed
  qed
qed (simp add: run_refl)

lemma run_match:
  assumes "api_process_pending_orders counter now c = Some (st, c')"
  shows "event_run pc c c'"
proof (cases "timer_guard_new ProcessPendingOrders (cn_state c)")
  case None
  then show ?thesis using assms by (simp add: api_process_pending_orders_def run_refl)
next
  case (Some s)
  then obtain c1 where c1: "run_once counter now (c\<lparr>cn_state := s\<rparr>) = Some (st, c1)"
      "c' = c1\<lparr>cn_state := timer_guard_drop ProcessPendingOrders (cn_state c1)\<rparr>"
    using assms by (auto simp: api_process_pending_orders_def trap_simps)
  let ?b = "ep_instruction_budget (st_policy s)"
  obtain k2 c2 where c2: "drain_settling counter ?b now (0, c\<lparr>cn_state := s\<rparr>) = Some (k2, c2)"
      and c1': "c1 = c2 \<or> (\<exists>k3 n. books_loop counter ?b now (books_by_pending_order_count_desc (cn_state c2)) n (Suc k2, c2) = Some (k3, c1))"
    using c1(1) by (auto simp: run_once_def Let_def trap_simps split: if_splits)
  have "event_run pc c (c\<lparr>cn_state := s\<rparr>)"
    using Some run_tasks [OF run_refl, of pc c] by (auto simp: timer_guard_new_def split: if_splits)
  moreover have "event_run pc (c\<lparr>cn_state := s\<rparr>) c2" using c2 unfolding drain_settling_def by (rule run_drain_loop)
  moreover have "event_run pc c2 c1" using c1' run_books_loop run_refl by blast
  ultimately have "event_run pc c c1" using event_run_trans by blast
  then show ?thesis unfolding c1(2) timer_guard_drop_def by (rule run_tasks)
qed

section \<open>The changes of the machine\<close>

text \<open>The few ways a message changes the system: a run of events, and the openings and closings of
  ledger calls. A closing may first store the fee the ledger reported.\<close>

inductive sys_change :: "principal_consts \<Rightarrow> system \<Rightarrow> system \<Rightarrow> bool" for pc :: principal_consts where
  change_run: "event_run pc (sy_canister y) c \<Longrightarrow> sys_change pc y (y\<lparr>sy_canister := c\<rparr>)"
| change_open_deposit:
    "(p, t) \<notin> st_in_flight s \<Longrightarrow> \<not> is_trading_account s p \<Longrightarrow> is_known_token s t \<Longrightarrow> s = cn_state (sy_canister y) \<Longrightarrow>
     sys_change pc y (y\<lparr>sy_canister := (sy_canister y)\<lparr>cn_state := s\<lparr>st_in_flight := insert (p, t) (st_in_flight s)\<rparr>\<rparr>,
       sy_calls := DepositCall p t a # sy_calls y\<rparr>)"
| change_open_withdraw:
    "(p, t) \<notin> st_in_flight s \<Longrightarrow> \<not> is_trading_account s p \<Longrightarrow> s = cn_state (sy_canister y) \<Longrightarrow>
     st_withdraw p t a (s\<lparr>st_in_flight := insert (p, t) (st_in_flight s)\<rparr>) = Some (Inr (), s') \<Longrightarrow>
     sys_change pc y (y\<lparr>sy_canister := (sy_canister y)\<lparr>cn_state := s'\<rparr>, sy_calls := WithdrawCall p t a f # sy_calls y\<rparr>)"
| change_deposit_failed:
    "DepositCall p t a \<in> set (sy_calls y) \<Longrightarrow>
     sys_change pc y (y\<lparr>sy_canister := (sy_canister y)\<lparr>cn_state := user_op_guard_drop p t (cn_state (sy_canister y))\<rparr>,
       sy_calls := remove1 (DepositCall p t a) (sy_calls y)\<rparr>)"
| change_trapped: "call \<in> set (sy_calls y) \<Longrightarrow> sys_change pc y (trapped call y)"
| change_deposited:
    "DepositCall p t a \<in> set (sy_calls y) \<Longrightarrow>
     process_event (Ev_Deposit \<lparr>de_user = p, de_token = t, de_amount = a\<rparr>) now (sy_canister y) = Some c \<Longrightarrow>
     sys_change pc y (y\<lparr>sy_canister := c\<lparr>cn_state := user_op_guard_drop p t (cn_state c)\<rparr>,
       sy_calls := remove1 (DepositCall p t a) (sy_calls y)\<rparr>)"
| change_withdrawn:
    "WithdrawCall p t a f \<in> set (sy_calls y) \<Longrightarrow> s = cn_state (sy_canister y) \<Longrightarrow>
     s0 = s \<or> s0 = set_cached_ledger_fee t f' s \<Longrightarrow>
     c = record_event (Ev_Withdraw \<lparr>we_block_index = block, we_user = p, we_token = t, we_amount = a\<rparr>) now
       ((sy_canister y)\<lparr>cn_state := s0\<rparr>) \<Longrightarrow>
     sys_change pc y (y\<lparr>sy_canister := c\<lparr>cn_state := user_op_guard_drop p t (cn_state c)\<rparr>,
       sy_calls := remove1 (WithdrawCall p t a f) (sy_calls y)\<rparr>)"
| change_refunded:
    "WithdrawCall p t a f \<in> set (sy_calls y) \<Longrightarrow> s = cn_state (sy_canister y) \<Longrightarrow>
     s0 = s \<or> s0 = set_cached_ledger_fee t f' s \<Longrightarrow> st_deposit p t a Write s0 = Some s' \<Longrightarrow>
     sys_change pc y (y\<lparr>sy_canister := (sy_canister y)\<lparr>cn_state := user_op_guard_drop p t s'\<rparr>,
       sy_calls := remove1 (WithdrawCall p t a f) (sy_calls y)\<rparr>)"

lemma guard_insert_drop:
  "(p, t) \<notin> st_in_flight s \<Longrightarrow> user_op_guard_drop p t (s\<lparr>st_in_flight := insert (p, t) (st_in_flight s)\<rparr>) = s"
  by (simp add: user_op_guard_drop_def)

lemma deposit_start_cases:
  assumes "deposit_start big token n rt c = Some (r, c')"
  shows "(\<exists>e. r = Inl e \<and> c' = c) \<or>
    (\<exists>amount. r = Inr amount \<and> (rt_caller rt, token) \<notin> st_in_flight (cn_state c) \<and>
       \<not> is_trading_account (cn_state c) (rt_caller rt) \<and> is_known_token (cn_state c) token \<and>
       c' = c\<lparr>cn_state := (cn_state c)\<lparr>st_in_flight := insert (rt_caller rt, token) (st_in_flight (cn_state c))\<rparr>\<rparr>)"
  using assms
  by (auto simp: deposit_start_def trap_simps permit_deposit_def user_op_guard_new_def guard_insert_drop Let_def
      split: sum.splits if_splits)

text \<open>A refused withdrawal leaves the state as it was.\<close>

lemma st_withdraw_refused:
  assumes "st_withdraw p t a s = Some (Inl e, s')"
  shows "s' = s"
proof (cases "lookup_funding_id (st_registry s) p")
  case None
  then show ?thesis using assms by (simp add: st_withdraw_def)
next
  case (Some u)
  then obtain tb where "tb_withdraw u t a (st_balances s) = Some (Inl e, tb)" "s' = s\<lparr>st_balances := tb\<rparr>"
    using assms by (auto simp: st_withdraw_def trap_simps)
  moreover have "wb_withdraw u t a = try_mutate (t, u) (balance_withdraw a)" by (simp add: fun_eq_iff wb_withdraw_def)
  ultimately show ?thesis using try_mutate_failure [of _ _ "st_balances s" e tb] by (simp add: tb_withdraw_def)
qed

lemma withdraw_start_cases:
  assumes "withdraw_start big token n rt c = Some (r, c')"
  shows "(\<exists>e. r = Inl e \<and> c' = c) \<or>
    (rt_caller rt, token) \<notin> st_in_flight (cn_state c) \<and> \<not> is_trading_account (cn_state c) (rt_caller rt) \<and>
    (\<exists>s' amount. st_withdraw (rt_caller rt) token amount
         ((cn_state c)\<lparr>st_in_flight := insert (rt_caller rt, token) (st_in_flight (cn_state c))\<rparr>) = Some (Inr (), s') \<and>
       r = Inr (amount, get_cached_ledger_fee (cn_state c) token) \<and> c' = c\<lparr>cn_state := s'\<rparr>)"
proof (cases "quantity_try_from big n")
  case (Inl e)
  then show ?thesis using assms by (auto simp: withdraw_start_def trap_simps)
next
  case (Inr amount)
  show ?thesis
  proof (cases "is_known_token (cn_state c) token \<and> \<not> is_zero amount \<and> \<not> is_trading_account (cn_state c) (rt_caller rt) \<and>
      (rt_caller rt, token) \<notin> st_in_flight (cn_state c)")
    case False
    then have "\<exists>e. r = Inl e \<and> c' = c"
      using assms Inr
      by (auto simp: withdraw_start_def trap_simps permit_withdraw_def user_op_guard_new_def Let_def split: if_splits)
    then show ?thesis by blast
  next
    case True
    let ?s = "(cn_state c)\<lparr>st_in_flight := insert (rt_caller rt, token) (st_in_flight (cn_state c))\<rparr>"
    obtain result s' where w: "st_withdraw (rt_caller rt) token amount ?s = Some (result, s')"
      using assms Inr True by (auto simp: withdraw_start_def trap_simps permit_withdraw_def user_op_guard_new_def Let_def)
    then have rc: "(case result of
        Inl e \<Rightarrow> (Inl (W_InsufficientBalance (to_nat (ib_available e))), c\<lparr>cn_state := user_op_guard_drop (rt_caller rt) token s'\<rparr>)
      | Inr _ \<Rightarrow> (Inr (amount, get_cached_ledger_fee (cn_state c) token), c\<lparr>cn_state := s'\<rparr>)) = (r, c')"
      using assms Inr True by (auto simp: withdraw_start_def trap_simps permit_withdraw_def user_op_guard_new_def Let_def)
    show ?thesis
    proof (cases result)
      case (Inl e)
      then have "s' = ?s" using st_withdraw_refused w by blast
      then show ?thesis using rc Inl True guard_insert_drop [of "rt_caller rt" token "cn_state c"] by auto
    next
      case placed: (Inr u)
      then show ?thesis using rc w True by auto
    qed
  qed
qed

text \<open>The trip through the snapshot only resets the task set when no call is open.\<close>

lemma upgrade_run:
  assumes "heap_ok (cn_state c)" "st_in_flight (cn_state c) = {}" "s = cn_state c"
    "post_upgrade arg now (from_state s) (st_orders s) (st_trades s) (tb_balances (st_balances s)) (st_registry s) (cn_log c) = Some c'"
  shows "event_run pc c c'"
proof -
  let ?c = "c\<lparr>cn_state := (cn_state c)\<lparr>st_tasks := {}\<rparr>\<rparr>"
  have c: "\<lparr>cn_state = s\<lparr>st_tasks := {}, st_in_flight := {}\<rparr>, cn_log = cn_log c\<rparr> = ?c"
    using assms(2,3) by (cases c) (auto intro!: trade_state.equality)
  have "c' = ?c \<or> (\<exists>a. process_event (Ev_Upgrade a) now ?c = Some c')"
    using assms(4) state_snapshot_roundtrip [OF assms(1)]
    by (auto simp: post_upgrade_def assms(3) [symmetric] c Let_def split: option.splits oisy_trade_arg.splits)
  moreover have "event_run pc c ?c" by (rule run_tasks [OF run_refl])
  moreover have "event_allowed pc (Ev_Upgrade a) now x" for a x by (simp add: event_allowed_def event_guard_def)
  ultimately show ?thesis using run_event [of pc c ?c] by blast
qed

lemma sys_step_change:
  assumes "sys_step pc big y y'" "heap_ok (cn_state (sy_canister y))"
    "sy_calls y = [] \<Longrightarrow> st_in_flight (cn_state (sy_canister y)) = {}"
  shows "sys_change pc y y'"
  using assms(1)
proof cases
  case (step_deposit_refused token n rt e c)
  then show ?thesis using deposit_start_cases [OF step_deposit_refused(2)] change_run [OF run_refl] by auto
next
  case (step_deposit_start token n rt amount c)
  then show ?thesis using deposit_start_cases [OF step_deposit_start(2)] by (auto intro!: change_open_deposit)
next
  case (step_withdraw_refused token n rt e c)
  then show ?thesis using withdraw_start_cases [OF step_withdraw_refused(2)] change_run [OF run_refl] by auto
next
  case (step_withdraw_start token n rt amount fee c)
  then show ?thesis using withdraw_start_cases [OF step_withdraw_start(2)] by (auto intro!: change_open_withdraw)
next
  case (step_deposit_finish rt token amount answer r c)
  then show ?thesis
    by (auto simp: deposit_finish_def trap_simps split: sum.splits intro: change_deposit_failed change_deposited)
next
  case (step_withdraw_finish rt token amount fee ledger r c)
  let ?o = "ledger_withdraw amount fee ledger" and ?s = "cn_state (sy_canister y)"
  define s0 where "s0 = (case wo_ledger_fee ?o of None \<Rightarrow> ?s | Some f \<Rightarrow> set_cached_ledger_fee token f ?s)"
  have s0: "s0 = ?s \<or> s0 = set_cached_ledger_fee token (the (wo_ledger_fee ?o)) ?s" by (simp add: s0_def split: option.split)
  show ?thesis
  proof (cases "wo_result ?o")
    case (Inl e)
    then show ?thesis
      using step_withdraw_finish change_refunded [OF step_withdraw_finish(2) refl s0] unfolding withdraw_finish_def s0_def [symmetric]
      by (auto simp: Let_def trap_simps)
  next
    case (Inr block)
    then show ?thesis
      using step_withdraw_finish change_withdrawn [OF step_withdraw_finish(2) refl s0 refl] unfolding withdraw_finish_def s0_def [symmetric]
      by (auto simp: Let_def trap_simps)
  qed
next
  case (step_upgrade s arg now c)
  then show ?thesis using upgrade_run [OF assms(2) assms(3) step_upgrade(3,4)] change_run by auto
qed (auto intro: change_run change_trapped run_add_order run_cancel run_match run_grant run_revoke run_pair run_halt)

end
