(* ===== verification/System_Invariants.thy ===== *)
theory System_Invariants
  imports System Balance_Properties
begin

text \<open>
  Invariants of the state machine: the registry stays well-formed while deposits and withdrawals
  are in flight, the tokens in the canister are what the log says was paid in and not paid out,
  and the heap is what replaying the log rebuilds.
\<close>

section \<open>Frames\<close>

text \<open>What no operation of the state layer touches, and what only few do.\<close>

definition same_frame :: "trade_state \<Rightarrow> trade_state \<Rightarrow> bool" where
  "same_frame s s' \<longleftrightarrow> st_in_flight s' = st_in_flight s \<and> st_registry s' = st_registry s \<and>
     (\<forall>t. token_total t (st_balances s') = token_total t (st_balances s))"

lemma frame_limit_order: "record_limit_order user book ord placed_by now m s = Some s' \<Longrightarrow> same_frame s s'"
  by (cases m)
     (auto simp: record_limit_order_def reserve_and_record_def same_frame_def trap_simps dest: tb.reserve_total)

lemma frame_cancel: "record_cancel_limit_order i canceled_by now m s = Some s' \<Longrightarrow> same_frame s s'"
  by (cases m; cases i) (auto simp: record_cancel_limit_order_def same_frame_def trap_simps)

lemma frame_matching: "record_matching_event ev now m s = Some s' \<Longrightarrow> same_frame s s'"
  by (cases m) (auto simp: record_matching_event_def Let_def same_frame_def trap_simps)

lemma apply_operation_conserves:
  "wb_ok wb \<Longrightarrow> apply_operation pair resolved op wb = Some wb' \<Longrightarrow> wb_ok wb' \<and> wb_total t wb' = wb_total t wb"
  by (cases op) (auto simp: apply_operation_def Let_def trap_simps dest: wb_transfer_conserves wb_unreserve_conserves)

lemma apply_operations_conserves:
  "wb_ok wb \<Longrightarrow> apply_operations pair resolved ops wb = Some wb' \<Longrightarrow> wb_ok wb' \<and> wb_total t wb' = wb_total t wb"
proof (induction ops arbitrary: wb)
  case (Cons op ops)
  then obtain wb1 where "apply_operation pair resolved op wb = Some wb1" "apply_operations pair resolved ops wb1 = Some wb'"
    by (auto simp: trap_simps)
  then show ?case using Cons.IH [of wb1] apply_operation_conserves [OF Cons.prems(1), of pair resolved op wb1 t] by simp
qed simp

lemma settle_total:
  assumes "with_write_back (\<lambda>wb. do { wb' \<leftarrow> apply_operations pair resolved ops wb; Some ((), wb') }) tb = Some (u, tb')"
  shows "token_total t tb' = token_total t tb"
  using with_write_back_total [where w = "\<lambda>_. 0" and d = "\<lambda>_. 0" and t = t, OF _ assms] apply_operations_conserves
  by (auto simp: trap_simps)

lemma frame_settling: "record_settling_event ev now m s = Some s' \<Longrightarrow> same_frame s s'"
  by (cases m) (auto simp: record_settling_event_def same_frame_def trap_simps dest: settle_total)

lemma frame_upgrade: "apply_upgrade arg s = Some s' \<Longrightarrow> same_frame s s'"
  by (auto simp: apply_upgrade_def Let_def same_frame_def trap_simps split: if_splits option.splits)

lemma frame_token: "record_token token metadata s = Some s' \<Longrightarrow> same_frame s s'"
  by (auto simp: record_token_def same_frame_def trap_simps split: option.splits)

lemma frame_trans: "same_frame a b \<Longrightarrow> same_frame b c \<Longrightarrow> same_frame a c"
  by (simp add: same_frame_def)

lemma frame_pair:
  assumes "record_trading_pair book pair bm qm tick lot mn mx rates s = Some s'"
  shows "same_frame s s'"
proof -
  obtain s1 s2 pairs books nxt where "record_token (tp_base pair) bm s = Some s1" "record_token (tp_quote pair) qm s1 = Some s2"
      "s' = s2\<lparr>st_pairs := pairs, st_books := books, st_next_book_id := nxt\<rparr>"
    using assms by (auto simp: record_trading_pair_def Let_def trap_simps)
  moreover from this have "same_frame s2 s'" by (simp add: same_frame_def)
  ultimately show ?thesis using frame_token frame_trans by blast
qed

definition touches_accounts :: "event_type \<Rightarrow> bool" where
  "touches_accounts payload = (case payload of
     Ev_Deposit _ \<Rightarrow> True | Ev_Withdraw _ \<Rightarrow> True | Ev_AddTradingAccount _ \<Rightarrow> True | Ev_RemoveTradingAccount _ \<Rightarrow> True
   | _ \<Rightarrow> False)"

lemma transition_frame:
  assumes "apply_state_transition payload now m s = Some s'" "\<not> touches_accounts payload"
  shows "same_frame s s'"
proof (cases payload)
  case (Ev_AddLimitOrder ev)
  then show ?thesis using assms(1) frame_limit_order
    by (auto simp: apply_state_transition_def Let_def split: prod.splits)
next
  case (Ev_SetHalt ev)
  then show ?thesis using assms(1) by (auto simp: apply_state_transition_def same_frame_def)
qed (use assms frame_cancel frame_matching frame_settling frame_upgrade frame_pair
     in \<open>auto simp: apply_state_transition_def touches_accounts_def\<close>)

lemma grant_total:
  assumes "apply_state_transition payload now m s = Some s'"
    "\<exists>ev. payload = Ev_AddTradingAccount ev \<or> payload = Ev_RemoveTradingAccount ev"
  shows "st_in_flight s' = st_in_flight s \<and> st_balances s' = st_balances s"
  using assms
  by (cases m) (auto simp: apply_state_transition_def st_record_add_trading_account_def
      st_record_remove_trading_account_def trap_simps)

section \<open>Tokens\<close>

definition deposited :: "token_id \<Rightarrow> event list \<Rightarrow> nat" where
  "deposited t log = (\<Sum>e\<leftarrow>log. case ev_payload e of
     Ev_Deposit ev \<Rightarrow> if de_token ev = t then q2n (de_amount ev) else 0 | _ \<Rightarrow> 0)"

definition withdrawn :: "token_id \<Rightarrow> event list \<Rightarrow> nat" where
  "withdrawn t log = (\<Sum>e\<leftarrow>log. case ev_payload e of
     Ev_Withdraw ev \<Rightarrow> if we_token ev = t then q2n (we_amount ev) else 0 | _ \<Rightarrow> 0)"

definition call_amount :: "token_id \<Rightarrow> ledger_call \<Rightarrow> nat" where
  "call_amount t call = (case call of WithdrawCall _ token amount _ \<Rightarrow> if token = t then q2n amount else 0 | _ \<Rightarrow> 0)"

definition in_transit :: "token_id \<Rightarrow> ledger_call list \<Rightarrow> nat" where
  "in_transit t calls = (\<Sum>c\<leftarrow>calls. call_amount t c)"

definition books_balance :: "token_id \<Rightarrow> system \<Rightarrow> bool" where
  "books_balance t y \<longleftrightarrow>
     token_total t (st_balances (cn_state (sy_canister y))) + in_transit t (sy_calls y) +
       in_transit t (sy_lost y) + withdrawn t (cn_log (sy_canister y)) =
     deposited t (cn_log (sy_canister y))"

lemma log_sums_append [simp]:
  "deposited t (log @ [e]) = deposited t log + (case ev_payload e of Ev_Deposit ev \<Rightarrow> if de_token ev = t then q2n (de_amount ev) else 0 | _ \<Rightarrow> 0)"
  "withdrawn t (log @ [e]) = withdrawn t log + (case ev_payload e of Ev_Withdraw ev \<Rightarrow> if we_token ev = t then q2n (we_amount ev) else 0 | _ \<Rightarrow> 0)"
  by (simp_all add: deposited_def withdrawn_def)

lemma in_transit_Cons [simp]: "in_transit t (c # calls) = call_amount t c + in_transit t calls"
  by (simp add: in_transit_def)

lemma in_transit_remove1: "c \<in> set calls \<Longrightarrow> in_transit t calls = call_amount t c + in_transit t (remove1 c calls)"
  by (induction calls) auto

lemma process_event_Some:
  "process_event payload now c = Some c' \<longleftrightarrow>
   (\<exists>s. apply_state_transition payload now Write (cn_state c) = Some s \<and>
      c' = c\<lparr>cn_state := s, cn_log := cn_log c @ [\<lparr>ev_timestamp = now, ev_payload = payload\<rparr>]\<rparr>)"
  by (auto simp: process_event_def trap_simps)

text \<open>Runs of events keep every total and neither pay in nor out.\<close>

definition same_tokens :: "canister \<Rightarrow> canister \<Rightarrow> bool" where
  "same_tokens c c' \<longleftrightarrow> (\<forall>t. token_total t (st_balances (cn_state c')) = token_total t (st_balances (cn_state c)) \<and>
     deposited t (cn_log c') = deposited t (cn_log c) \<and> withdrawn t (cn_log c') = withdrawn t (cn_log c)) \<and>
     st_in_flight (cn_state c') = st_in_flight (cn_state c)"

lemma process_event_tokens:
  assumes "process_event payload now c = Some c'" "\<forall>ev. payload \<noteq> Ev_Deposit ev" "\<forall>ev. payload \<noteq> Ev_Withdraw ev"
  shows "same_tokens c c'"
proof -
  obtain s where s: "apply_state_transition payload now Write (cn_state c) = Some s"
      "c' = c\<lparr>cn_state := s, cn_log := cn_log c @ [\<lparr>ev_timestamp = now, ev_payload = payload\<rparr>]\<rparr>"
    using assms(1) by (auto simp: process_event_Some)
  have "(\<forall>t. token_total t (st_balances s) = token_total t (st_balances (cn_state c))) \<and> st_in_flight s = st_in_flight (cn_state c)"
  proof (cases "touches_accounts payload")
    case True
    then have "\<exists>ev. payload = Ev_AddTradingAccount ev \<or> payload = Ev_RemoveTradingAccount ev"
      using assms(2,3) by (cases payload) (auto simp: touches_accounts_def)
    then show ?thesis using grant_total [OF s(1)] by simp
  next
    case False
    then show ?thesis using transition_frame [OF s(1)] by (simp add: same_frame_def)
  qed
  then show ?thesis using s(2) assms(2,3) by (auto simp: same_tokens_def split: event_type.split)
qed

lemma event_run_tokens: "event_run pc c c' \<Longrightarrow> same_tokens c c'"
proof (induction rule: event_run.induct)
  case (run_event c c1 payload now c2)
  have "same_tokens c1 c2"
    using run_event.hyps(2) by (intro process_event_tokens [OF run_event.hyps(3)]) (auto simp: event_allowed_def)
  then show ?case using run_event.IH by (simp add: same_tokens_def)
next
  case (run_settle c c1 xs ev ys now c2)
  have "same_tokens (c1\<lparr>cn_state := (cn_state c1)\<lparr>st_settling := xs @ ys\<rparr>\<rparr>) c2"
    by (rule process_event_tokens [OF run_settle.hyps(3)]) simp_all
  then show ?case using run_settle.IH by (simp add: same_tokens_def)
qed (simp_all add: same_tokens_def)

lemma st_deposit_total:
  assumes "st_deposit user token amount Write s = Some s'"
  shows "token_total t (st_balances s') = token_total t (st_balances s) + (if token = t then q2n amount else 0)"
    "st_in_flight s' = st_in_flight s" "heap_of s' = heap_of s" "st_registry s' = snd (get_or_register user (st_registry s))"
proof -
  obtain i reg tb where x: "get_or_register user (st_registry s) = (i, reg)" "tb_deposit i token amount (st_balances s) = Some tb"
      "s' = s\<lparr>st_registry := reg, st_balances := tb\<rparr>"
    using assms by (cases "get_or_register user (st_registry s)") (auto simp: st_deposit_def trap_simps)
  show "token_total t (st_balances s') = token_total t (st_balances s) + (if token = t then q2n amount else 0)"
    using tb.deposit_total [OF x(2), of t] by (simp add: x(3))
  show "st_in_flight s' = st_in_flight s" "heap_of s' = heap_of s" "st_registry s' = snd (get_or_register user (st_registry s))"
    by (simp_all add: x heap_of_eq)
qed

lemma st_withdraw_total:
  assumes "st_withdraw user token amount s = Some (r, s')"
  shows "token_total t (st_balances s') + (case r of Inl _ \<Rightarrow> 0 | Inr _ \<Rightarrow> if token = t then q2n amount else 0) =
      token_total t (st_balances s)"
    "st_in_flight s' = st_in_flight s" "st_registry s' = st_registry s" "heap_of s' = heap_of s"
    "r = Inr u \<Longrightarrow> lookup_funding_id (st_registry s) user \<noteq> None"
  using assms tb.withdraw_total [of _ token amount "st_balances s" r _ t]
  by (auto simp: st_withdraw_def trap_simps heap_of_eq eq_commute [of t] split: option.splits sum.splits)

section \<open>Accounts\<close>

definition accounts_ok :: "trade_state \<Rightarrow> bool" where
  "accounts_ok s \<longleftrightarrow> registry_ok (st_registry s) \<and>
     (\<forall>p t. (p, t) \<in> st_in_flight s \<longrightarrow> bt_get (ur_trading_accounts (st_registry s)) p = None)"

definition calls_ok :: "system \<Rightarrow> bool" where
  "calls_ok y \<longleftrightarrow> (let s = cn_state (sy_canister y) in
     set (map call_key (sy_calls y)) = st_in_flight s \<and> distinct (map call_key (sy_calls y)) \<and>
     (\<forall>p t a f. WithdrawCall p t a f \<in> set (sy_calls y) \<longrightarrow> bt_get (ur_users (st_registry s)) p \<noteq> None) \<and>
     length (ur_users (st_registry s)) < length (cn_log (sy_canister y)))"

lemma event_run_log: "event_run pc c c' \<Longrightarrow> length (cn_log c) \<le> length (cn_log c')"
  by (induction rule: event_run.induct) (auto simp: process_event_Some)

lemma grant_accounts:
  assumes ok: "accounts_ok s" and allowed: "event_allowed pc payload now s"
    and t: "apply_state_transition payload now Write s = Some s'" and touch: "touches_accounts payload"
  shows "accounts_ok s' \<and> ur_users (st_registry s') = ur_users (st_registry s)"
proof -
  have r: "registry_ok (st_registry s)" using ok by (simp add: accounts_ok_def)
  consider (add) ev where "payload = Ev_AddTradingAccount ev" | (remove) ev where "payload = Ev_RemoveTradingAccount ev"
    using allowed touch by (cases payload) (auto simp: touches_accounts_def event_allowed_def)
  then show ?thesis
  proof cases
    case add
    have v: "validate_add_trading_account pc (ta_funding ev) (ta_trading ev) now (st_registry s) = Inr ()"
        "\<forall>t. (ta_trading ev, t) \<notin> st_in_flight s"
      using allowed by (simp_all add: add event_allowed_def)
    from record_add_trading_account_ok [OF r v(1)] t obtain r' where
        "s' = s\<lparr>st_registry := r'\<rparr>" "registry_ok r'" "ur_users r' = ur_users (st_registry s)"
        "bt_get (ur_trading_accounts r') = (bt_get (ur_trading_accounts (st_registry s)))(ta_trading ev \<mapsto> \<lparr>tg_funding = ta_funding ev\<rparr>)"
      by (auto simp: add apply_state_transition_def st_record_add_trading_account_def)
    then show ?thesis using ok v(2) by (auto simp: accounts_ok_def)
  next
    case remove
    have v: "validate_remove_trading_account (ta_funding ev) (ta_trading ev) (st_registry s) = Inr ()"
      using allowed by (simp add: remove event_allowed_def)
    from record_remove_trading_account_ok [OF r v] t obtain r' where
        "s' = s\<lparr>st_registry := r'\<rparr>" "registry_ok r'" "ur_users r' = ur_users (st_registry s)"
        "bt_get (ur_trading_accounts r') = (bt_get (ur_trading_accounts (st_registry s)))(ta_trading ev := None)"
      by (auto simp: remove apply_state_transition_def st_record_remove_trading_account_def)
    then show ?thesis using ok by (auto simp: accounts_ok_def)
  qed
qed

lemma event_run_accounts:
  "event_run pc c c' \<Longrightarrow> accounts_ok (cn_state c) \<Longrightarrow>
   accounts_ok (cn_state c') \<and> ur_users (st_registry (cn_state c')) = ur_users (st_registry (cn_state c))"
proof (induction rule: event_run.induct)
  case (run_event c c1 payload now c2)
  obtain s where s: "apply_state_transition payload now Write (cn_state c1) = Some s" "cn_state c2 = s"
    using run_event.hyps(3) by (auto simp: process_event_Some)
  show ?case
    using grant_accounts [OF _ run_event.hyps(2) s(1)] transition_frame [OF s(1)] run_event.IH run_event.prems s(2)
    by (cases "touches_accounts payload") (simp_all add: same_frame_def accounts_ok_def)
next
  case (run_settle c c1 xs ev ys now c2)
  then have "same_frame ((cn_state c1)\<lparr>st_settling := xs @ ys\<rparr>) (cn_state c2)"
    by (auto simp: process_event_Some touches_accounts_def dest!: transition_frame)
  then show ?case using run_settle.IH run_settle.prems by (simp add: same_frame_def accounts_ok_def)
qed (simp_all add: accounts_ok_def)

section \<open>The heap\<close>

lemma event_run_heap: "event_run pc c c' \<Longrightarrow> heap_ok (cn_state c) \<Longrightarrow> heap_ok (cn_state c')"
proof (induction rule: event_run.induct)
  case (run_event c c1 payload now c2)
  have "event_guard payload (cn_state c1)"
    using run_event.hyps(2) by (cases payload) (simp_all add: event_allowed_def event_guard_def)
  then show ?case using run_event by (auto simp: process_event_Some intro: heap_ok_event)
next
  case (run_settle c c1 xs ev ys now c2)
  then have "heap_ok (cn_state c1)" by blast
  then have "heap_ok ((cn_state c1)\<lparr>st_settling := xs @ ys\<rparr>)"
    by (rule heap_ok_simple) (simp_all add: heap_of_eq heap_ok_maps [OF \<open>heap_ok (cn_state c1)\<close>])
  moreover have "event_guard (Ev_Settling ev) ((cn_state c1)\<lparr>st_settling := xs @ ys\<rparr>)" by (simp add: event_guard_def)
  moreover obtain s where "apply_state_transition (Ev_Settling ev) now Write ((cn_state c1)\<lparr>st_settling := xs @ ys\<rparr>) = Some s" "cn_state c2 = s"
    using run_settle.hyps(3) by (auto simp: process_event_Some)
  ultimately show ?case using heap_ok_event by blast
next
  case (run_tasks c c1 ts)
  then have ok: "heap_ok (cn_state c1)" by blast
  show ?case by (rule heap_ok_simple [OF ok]) (simp_all add: heap_of_eq heap_ok_maps [OF ok])
qed

section \<open>Replay\<close>

text \<open>Replaying the log with \<open>Skip\<close> over any stable memory rebuilds the heap.\<close>

definition replays :: "canister \<Rightarrow> bool" where
  "replays c \<longleftrightarrow> (\<forall>orders trades registry balances. \<exists>s.
     replay_events (cn_log c) orders trades registry balances Skip = Some s \<and>
     heap_of s = heap_of (cn_state c) \<and> stable_of s = (orders, trades, registry, balances) \<and> st_settling s = [])"

lemma replay_loop_append:
  "replay_loop (evs @ [e]) m s = do { s' \<leftarrow> replay_loop evs m s; apply_state_transition (ev_payload e) (ev_timestamp e) m s' }"
proof (induction evs arbitrary: s)
  case Nil
  show ?case by (cases "apply_state_transition (ev_payload e) (ev_timestamp e) m s") simp_all
next
  case (Cons a evs)
  then show ?case by (cases "apply_state_transition (ev_payload a) (ev_timestamp a) m s") simp_all
qed

lemma replay_events_snoc:
  assumes "replay_events log orders trades registry balances Skip = Some s" "heap_of t = heap_of s"
    "apply_state_transition (ev_payload e) (ev_timestamp e) Write t = Some t'"
  shows "\<exists>s'. replay_events (log @ [e]) orders trades registry balances Skip = Some s' \<and> heap_of s' = heap_of t' \<and>
    stable_of s' = stable_of s \<and> st_settling s' = []"
proof -
  obtain first rest a s0 s1 where x: "log = first # rest" "ev_payload first = Ev_Init a"
      "state_new a orders trades registry balances = Inr s0" "replay_loop rest Skip s0 = Some s1" "s = s1\<lparr>st_settling := []\<rparr>"
    using assms(1) by (auto simp: replay_events_def trap_simps split: list.splits event_type.splits)
  have "heap_of t = heap_of s1" using assms(2) x(5) by (simp add: heap_of_eq)
  then obtain s2 where "apply_state_transition (ev_payload e) (ev_timestamp e) Skip s1 = Some s2" "heap_of s2 = heap_of t'" "stable_of s2 = stable_of s1"
    using skip_transition assms(3) unfolding skip_simulates_def by blast
  then show ?thesis
    using x by (auto simp: replay_events_def replay_loop_append heap_of_eq stable_of_eq)
qed

lemma replays_event:
  assumes "replays c" "process_event payload now c = Some c'"
  shows "replays c'"
  unfolding replays_def
proof (intro allI)
  fix orders trades registry balances
  obtain s where s: "replay_events (cn_log c) orders trades registry balances Skip = Some s"
      "heap_of s = heap_of (cn_state c)" "stable_of s = (orders, trades, registry, balances)"
    using assms(1) unfolding replays_def by blast
  obtain s' where s': "apply_state_transition payload now Write (cn_state c) = Some s'"
      "c' = c\<lparr>cn_state := s', cn_log := cn_log c @ [\<lparr>ev_timestamp = now, ev_payload = payload\<rparr>]\<rparr>"
    using assms(2) by (auto simp: process_event_Some)
  show "\<exists>s. replay_events (cn_log c') orders trades registry balances Skip = Some s \<and>
     heap_of s = heap_of (cn_state c') \<and> stable_of s = (orders, trades, registry, balances) \<and> st_settling s = []"
    using replay_events_snoc [OF s(1) s(2) [symmetric], of "\<lparr>ev_timestamp = now, ev_payload = payload\<rparr>" s'] s' s(3) by auto
qed

lemma replays_local: "replays c \<Longrightarrow> cn_log c' = cn_log c \<Longrightarrow> heap_of (cn_state c') = heap_of (cn_state c) \<Longrightarrow> replays c'"
  by (simp add: replays_def)

text \<open>A logged withdrawal is a no-op of the replay.\<close>

lemma replays_withdrawal: "replays c \<Longrightarrow> replays (record_event (Ev_Withdraw ev) now c)"
proof -
  assume r: "replays c"
  show "replays (record_event (Ev_Withdraw ev) now c)"
    unfolding replays_def
  proof (intro allI)
    fix orders trades registry balances
    obtain s where s: "replay_events (cn_log c) orders trades registry balances Skip = Some s"
        "heap_of s = heap_of (cn_state c)" "stable_of s = (orders, trades, registry, balances)" "st_settling s = []"
      using r unfolding replays_def by blast
    then obtain first rest a s0 s1 where x: "cn_log c = first # rest" "ev_payload first = Ev_Init a"
        "state_new a orders trades registry balances = Inr s0" "replay_loop rest Skip s0 = Some s1" "s = s1\<lparr>st_settling := []\<rparr>"
      by (auto simp: replay_events_def trap_simps split: list.splits event_type.splits)
    have "replay_events (cn_log (record_event (Ev_Withdraw ev) now c)) orders trades registry balances Skip = Some s"
      using x by (simp add: replay_events_def record_event_def replay_loop_append apply_state_transition_def)
    then show "\<exists>s. replay_events (cn_log (record_event (Ev_Withdraw ev) now c)) orders trades registry balances Skip = Some s \<and>
       heap_of s = heap_of (cn_state (record_event (Ev_Withdraw ev) now c)) \<and> stable_of s = (orders, trades, registry, balances) \<and> st_settling s = []"
      using s by (simp add: record_event_def)
  qed
qed

lemma event_run_replays: "event_run pc c c' \<Longrightarrow> replays c \<Longrightarrow> replays c'"
proof (induction rule: event_run.induct)
  case (run_settle c c1 xs ev ys now c2)
  then have "replays c1" by blast
  then have "replays (c1\<lparr>cn_state := (cn_state c1)\<lparr>st_settling := xs @ ys\<rparr>\<rparr>)"
    by (rule replays_local) (simp_all add: heap_of_eq)
  then show ?case using replays_event run_settle.hyps(3) by blast
next
  case (run_tasks c c1 ts)
  then have "replays c1" by blast
  then show ?case by (rule replays_local) (simp_all add: heap_of_eq)
qed (auto intro: replays_event)

section \<open>The invariant of the machine\<close>

definition sys_inv :: "system \<Rightarrow> bool" where
  "sys_inv y \<longleftrightarrow> accounts_ok (cn_state (sy_canister y)) \<and> calls_ok y \<and> (\<forall>t. books_balance t y) \<and> replays (sy_canister y) \<and>
     heap_ok (cn_state (sy_canister y))"

lemma sys_inv_init:
  assumes "canister_init arg now = Some c"
  shows "sys_inv \<lparr>sy_canister = c, sy_calls = [], sy_lost = []\<rparr>"
proof -
  obtain a s where a: "arg = OT_Init a" "state_new a history_new history_new user_registry_new \<lparr>tb_balances = [], tb_fee_pool = []\<rparr> = Inr s"
      "c = \<lparr>cn_state = s, cn_log = [\<lparr>ev_timestamp = now, ev_payload = Ev_Init a\<rparr>]\<rparr>"
    using assms by (auto simp: canister_init_def trap_simps split: oisy_trade_arg.splits)
  have s: "st_registry s = user_registry_new" "st_in_flight s = {}" "st_balances s = \<lparr>tb_balances = [], tb_fee_pool = []\<rparr>"
    using a(2) by (auto simp: state_new_def split: sum.splits option.splits)
  have "\<exists>s'. state_new a orders trades registry balances = Inr s' \<and> heap_of s' = heap_of s \<and>
      stable_of s' = (orders, trades, registry, balances) \<and> st_settling s' = []" for orders trades registry balances
    using a(2) by (auto simp: state_new_def heap_of_def stable_of_def split: sum.splits)
  then have "\<exists>s'. replay_events (cn_log c) orders trades registry balances Skip = Some s' \<and> heap_of s' = heap_of (cn_state c) \<and>
      stable_of s' = (orders, trades, registry, balances) \<and> st_settling s' = []" for orders trades registry balances
    by (simp add: replay_events_def a(3)) (force simp: heap_of_eq stable_of_def)
  then have "replays c" by (simp add: replays_def)
  moreover have "heap_ok s"
    using a(2) policy_try_new_ok
    by (auto simp: state_new_def heap_ok_def maps_ok_def books_ok_def bt_ok_def pair_map_ok_def permissions_default_def
        get_book_id_def split: sum.splits option.splits)
  moreover have "token_total t (st_balances s) = 0" for t
    by (simp add: s token_total_def user_total_def bt.total_new pool_amount_def)
  ultimately show ?thesis
    by (simp add: sys_inv_def accounts_ok_def calls_ok_def books_balance_def a(3) s registry_ok_new deposited_def withdrawn_def
        in_transit_def user_registry_new_def [THEN arg_cong, of ur_users])
qed

lemma sys_inv_event_run:
  assumes "sys_inv y" "event_run pc (sy_canister y) c"
  shows "sys_inv (y\<lparr>sy_canister := c\<rparr>)"
  using assms event_run_accounts [OF assms(2)] event_run_tokens [OF assms(2)] event_run_replays [OF assms(2)] event_run_log [OF assms(2)]
    event_run_heap [OF assms(2)]
  by (auto simp: sys_inv_def same_tokens_def calls_ok_def books_balance_def Let_def)

lemma is_trading_account_iff: "is_trading_account s p \<longleftrightarrow> bt_get (ur_trading_accounts (st_registry s)) p \<noteq> None"
  by (auto simp: is_trading_account_def registry_lookup_def split: option.split)

text \<open>Opening a call: the key was free, and it is of no trading account.\<close>

lemma sys_inv_open:
  assumes inv: "sys_inv y" and free: "(p, t) \<notin> st_in_flight (cn_state (sy_canister y))"
    and nt: "\<not> is_trading_account (cn_state (sy_canister y)) p" and key: "call_key call = (p, t)"
    and s: "st_in_flight s = insert (p, t) (st_in_flight (cn_state (sy_canister y)))"
      "st_registry s = st_registry (cn_state (sy_canister y))" "heap_of s = heap_of (cn_state (sy_canister y))" "heap_ok s"
    and tot: "\<And>u. token_total u (st_balances s) + call_amount u call = token_total u (st_balances (cn_state (sy_canister y)))"
    and reg: "\<And>q v a f. call = WithdrawCall q v a f \<Longrightarrow> bt_get (ur_users (st_registry s)) q \<noteq> None"
  shows "sys_inv (y\<lparr>sy_canister := (sy_canister y)\<lparr>cn_state := s\<rparr>, sy_calls := call # sy_calls y\<rparr>)"
proof -
  have bal: "books_balance u (y\<lparr>sy_canister := (sy_canister y)\<lparr>cn_state := s\<rparr>, sy_calls := call # sy_calls y\<rparr>)" for u
  proof -
    have "books_balance u y" using inv by (simp add: sys_inv_def)
    then show ?thesis using tot [of u] by (simp add: books_balance_def)
  qed
  have "replays ((sy_canister y)\<lparr>cn_state := s\<rparr>)"
    by (rule replays_local [of "sy_canister y"]) (use inv s(3) in \<open>simp_all add: sys_inv_def\<close>)
  moreover have "accounts_ok s"
    using inv nt by (auto simp: sys_inv_def accounts_ok_def s is_trading_account_iff)
  moreover have "calls_ok (y\<lparr>sy_canister := (sy_canister y)\<lparr>cn_state := s\<rparr>, sy_calls := call # sy_calls y\<rparr>)"
    using inv free key reg unfolding sys_inv_def calls_ok_def Let_def by (simp add: s) blast
  ultimately show ?thesis using bal s(4) by (simp add: sys_inv_def)
qed

lemma key_of_other_calls:
  assumes "distinct (map call_key calls)" "call \<in> set calls"
  shows "set (map call_key (remove1 call calls)) = set (map call_key calls) - {call_key call}"
    "distinct (map call_key (remove1 call calls))"
proof -
  obtain l r where "calls = l @ call # r" "call \<notin> set l" using split_list_first [OF assms(2)] by blast
  then show "set (map call_key (remove1 call calls)) = set (map call_key calls) - {call_key call}"
      "distinct (map call_key (remove1 call calls))"
    using assms(1) by (auto simp: remove1_append)
qed

text \<open>Closing a call.\<close>

lemma sys_inv_close:
  assumes inv: "sys_inv y" and call: "call \<in> set (sy_calls y)" "call_key call = (p, t)"
    and s: "st_in_flight s = st_in_flight (cn_state (sy_canister y)) - {(p, t)}"
    and reg: "registry_ok (st_registry s)"
      "ur_trading_accounts (st_registry s) = ur_trading_accounts (st_registry (cn_state (sy_canister y)))"
      "\<And>q. bt_get (ur_users (st_registry (cn_state (sy_canister y)))) q \<noteq> None \<Longrightarrow> bt_get (ur_users (st_registry s)) q \<noteq> None"
      "length (ur_users (st_registry s)) < length log"
    and rep: "replays \<lparr>cn_state = s, cn_log = log\<rparr>" "heap_ok s"
    and tot: "\<And>u. books_balance u \<lparr>sy_canister = \<lparr>cn_state = s, cn_log = log\<rparr>, sy_calls = remove1 call (sy_calls y), sy_lost = lost\<rparr>"
  shows "sys_inv \<lparr>sy_canister = \<lparr>cn_state = s, cn_log = log\<rparr>, sy_calls = remove1 call (sy_calls y), sy_lost = lost\<rparr>"
proof -
  have calls: "distinct (map call_key (sy_calls y))" "set (map call_key (sy_calls y)) = st_in_flight (cn_state (sy_canister y))"
    and users: "\<And>q v a f. WithdrawCall q v a f \<in> set (sy_calls y) \<Longrightarrow> bt_get (ur_users (st_registry (cn_state (sy_canister y)))) q \<noteq> None"
    using inv unfolding sys_inv_def calls_ok_def Let_def by blast+
  have "accounts_ok s" using inv by (auto simp: sys_inv_def accounts_ok_def s reg)
  moreover have "calls_ok \<lparr>sy_canister = \<lparr>cn_state = s, cn_log = log\<rparr>, sy_calls = remove1 call (sy_calls y), sy_lost = lost\<rparr>"
    unfolding calls_ok_def Let_def
    using key_of_other_calls [OF calls(1) call(1)] calls(2) reg(3,4) users call(2)
    by (auto simp: s dest: notin_set_remove1 [rotated] set_remove1_subset [THEN subsetD])
  ultimately show ?thesis using rep tot by (simp add: sys_inv_def)
qed

lemma get_or_register_length:
  "length (ur_users (snd (get_or_register p r))) \<le> Suc (length (ur_users r))"
  by (auto simp: get_or_register_def Let_def length_bt_insert_new split: option.split)

lemma get_or_register_snd:
  assumes "registry_ok r" "bt_get (ur_trading_accounts r) p = None" "length (ur_users r) < 2 ^ 64"
  shows "registry_ok (snd (get_or_register p r))" "ur_trading_accounts (snd (get_or_register p r)) = ur_trading_accounts r"
    "bt_get (ur_users r) q \<noteq> None \<Longrightarrow> bt_get (ur_users (snd (get_or_register p r))) q \<noteq> None"
  using get_or_register_ok [OF assms] by auto

lemma heap_of_guard [simp]:
  "heap_of (user_op_guard_drop p t s) = heap_of s" "st_registry (user_op_guard_drop p t s) = st_registry s"
  "st_balances (user_op_guard_drop p t s) = st_balances s"
  "st_in_flight (user_op_guard_drop p t s) = st_in_flight s - {(p, t)}"
  by (simp_all add: user_op_guard_drop_def heap_of_eq)

lemma heap_of_fee_cache [simp]:
  "heap_of (set_cached_ledger_fee t f s) = heap_of s" "st_registry (set_cached_ledger_fee t f s) = st_registry s"
  "st_balances (set_cached_ledger_fee t f s) = st_balances s" "st_in_flight (set_cached_ledger_fee t f s) = st_in_flight s"
  by (simp_all add: set_cached_ledger_fee_def heap_of_eq)

lemma sys_invD:
  assumes "sys_inv y" "call \<in> set (sy_calls y)" "call_key call = (p, t)"
  shows "registry_ok (st_registry (cn_state (sy_canister y)))" "(p, t) \<in> st_in_flight (cn_state (sy_canister y))"
    "bt_get (ur_trading_accounts (st_registry (cn_state (sy_canister y)))) p = None"
    "length (ur_users (st_registry (cn_state (sy_canister y)))) < length (cn_log (sy_canister y))"
    "replays (sy_canister y)"
    "token_total u (st_balances (cn_state (sy_canister y))) + (call_amount u call + in_transit u (remove1 call (sy_calls y))) +
       in_transit u (sy_lost y) + withdrawn u (cn_log (sy_canister y)) = deposited u (cn_log (sy_canister y))"
proof -
  show 1: "(p, t) \<in> st_in_flight (cn_state (sy_canister y))"
    using assms unfolding sys_inv_def calls_ok_def Let_def by (metis image_eqI image_set)
  then show "registry_ok (st_registry (cn_state (sy_canister y)))"
    "bt_get (ur_trading_accounts (st_registry (cn_state (sy_canister y)))) p = None"
    "length (ur_users (st_registry (cn_state (sy_canister y)))) < length (cn_log (sy_canister y))" "replays (sy_canister y)"
    using assms(1) by (auto simp: sys_inv_def accounts_ok_def calls_ok_def Let_def)
  show "token_total u (st_balances (cn_state (sy_canister y))) + (call_amount u call + in_transit u (remove1 call (sy_calls y))) +
       in_transit u (sy_lost y) + withdrawn u (cn_log (sy_canister y)) = deposited u (cn_log (sy_canister y))"
    using assms(1) in_transit_remove1 [OF assms(2), of u] unfolding sys_inv_def books_balance_def by metis
qed

lemma canister_eta: "(c :: canister)\<lparr>cn_state := s\<rparr> = \<lparr>cn_state = s, cn_log = cn_log c\<rparr>"
  by (cases c) simp

lemma system_eta:
  "(y :: system)\<lparr>sy_canister := c, sy_calls := calls\<rparr> = \<lparr>sy_canister = c, sy_calls = calls, sy_lost = sy_lost y\<rparr>"
  "(y :: system)\<lparr>sy_canister := c, sy_calls := calls, sy_lost := lost\<rparr> = \<lparr>sy_canister = c, sy_calls = calls, sy_lost = lost\<rparr>"
  by (cases y; simp)+

lemma trapped_fields [simp]:
  "cn_log (sy_canister (trapped call y)) = cn_log (sy_canister y)"
  "cn_state (sy_canister (trapped call y)) =
     user_op_guard_drop (fst (call_key call)) (snd (call_key call)) (cn_state (sy_canister y))"
  by (simp_all add: trapped_def Let_def split: prod.split)

lemma heap_ok_guard: "heap_ok s \<Longrightarrow> heap_ok (user_op_guard_drop p t s)"
  by (rule heap_ok_simple) (simp_all add: user_op_guard_drop_def heap_of_eq heap_ok_maps)

lemma heap_ok_in_flight: "heap_ok s \<Longrightarrow> heap_ok (s\<lparr>st_in_flight := x\<rparr>)"
  by (rule heap_ok_simple) (simp_all add: heap_of_eq heap_ok_maps)

text \<open>The state when a withdrawal is closed: the fee cache may have changed.\<close>

lemma fee_cached:
  assumes "s0 = s \<or> s0 = set_cached_ledger_fee t f s" "heap_ok s"
  shows "heap_of s0 = heap_of s" "stable_of s0 = stable_of s" "st_in_flight s0 = st_in_flight s" "st_settling s0 = st_settling s"
    "heap_ok s0"
proof -
  show "heap_of s0 = heap_of s" "stable_of s0 = stable_of s" "st_in_flight s0 = st_in_flight s" "st_settling s0 = st_settling s"
    using assms(1) by (auto simp: set_cached_ledger_fee_def heap_of_eq stable_of_eq)
  then show "heap_ok s0"
    using assms heap_ok_maps [OF assms(2)] by (intro heap_ok_simple [OF assms(2)]) (auto simp: set_cached_ledger_fee_def stable_of_eq)
qed

lemma sys_inv_deposited:
  assumes inv: "sys_inv y" and call: "DepositCall p t a \<in> set (sy_calls y)"
    and pe: "process_event (Ev_Deposit \<lparr>de_user = p, de_token = t, de_amount = a\<rparr>) now (sy_canister y) = Some c"
    and len: "length (cn_log c) \<le> 2 ^ 64"
  shows "sys_inv (y\<lparr>sy_canister := c\<lparr>cn_state := user_op_guard_drop p t (cn_state c)\<rparr>, sy_calls := remove1 (DepositCall p t a) (sy_calls y)\<rparr>)"
proof -
  let ?call = "DepositCall p t a" and ?c = "sy_canister y"
  have key: "call_key ?call = (p, t)" by (simp add: call_key_def)
  note d = sys_invD [OF inv call key]
  let ?log = "cn_log ?c @ [\<lparr>ev_timestamp = now, ev_payload = Ev_Deposit \<lparr>de_user = p, de_token = t, de_amount = a\<rparr>\<rparr>]"
  obtain s where s: "st_deposit p t a Write (cn_state ?c) = Some s" and c: "c = \<lparr>cn_state = s, cn_log = ?log\<rparr>"
    using pe by (cases ?c) (auto simp: process_event_Some apply_state_transition_def)
  note sd = st_deposit_total [OF s]
  have users: "length (ur_users (st_registry (cn_state ?c))) < 2 ^ 64" using d(4) len by (simp add: c)
  note gr = get_or_register_snd [OF d(1,3) users]
  have "replays \<lparr>cn_state = user_op_guard_drop p t s, cn_log = ?log\<rparr>"
    by (rule replays_local [OF replays_event [OF d(5) pe]]) (simp_all add: c)
  moreover have "books_balance u \<lparr>sy_canister = \<lparr>cn_state = user_op_guard_drop p t s, cn_log = ?log\<rparr>, sy_calls = remove1 ?call (sy_calls y), sy_lost = sy_lost y\<rparr>" for u
    using d(6) [of u] sd(1) [of u] by (cases "t = u") (simp_all add: books_balance_def call_amount_def ac_simps)
  moreover have "heap_ok s" using inv heap_ok_deposit [OF _ s] by (simp add: sys_inv_def)
  ultimately have "sys_inv \<lparr>sy_canister = \<lparr>cn_state = user_op_guard_drop p t s, cn_log = ?log\<rparr>, sy_calls = remove1 ?call (sy_calls y), sy_lost = sy_lost y\<rparr>"
    using gr sd get_or_register_length [of p "st_registry (cn_state ?c)"] d(4)
    by (intro sys_inv_close [OF inv call key]) (auto intro: heap_ok_guard)
  then show ?thesis by (simp add: c system_eta)
qed

lemma sys_inv_withdrawn:
  assumes inv: "sys_inv y" and call: "WithdrawCall p t a f \<in> set (sy_calls y)"
    and s0: "s0 = cn_state (sy_canister y) \<or> s0 = set_cached_ledger_fee t f' (cn_state (sy_canister y))"
    and c: "c = record_event (Ev_Withdraw \<lparr>we_block_index = block, we_user = p, we_token = t, we_amount = a\<rparr>) now
       ((sy_canister y)\<lparr>cn_state := s0\<rparr>)"
  shows "sys_inv (y\<lparr>sy_canister := c\<lparr>cn_state := user_op_guard_drop p t (cn_state c)\<rparr>, sy_calls := remove1 (WithdrawCall p t a f) (sy_calls y)\<rparr>)"
proof -
  let ?call = "WithdrawCall p t a f" and ?c = "sy_canister y"
  have key: "call_key ?call = (p, t)" by (simp add: call_key_def)
  note d = sys_invD [OF inv call key]
  have "heap_ok (cn_state ?c)" using inv by (simp add: sys_inv_def)
  note fc = fee_cached [OF s0 this]
  have st: "st_registry s0 = st_registry (cn_state ?c)" "st_balances s0 = st_balances (cn_state ?c)"
    using fc(2) by (simp_all add: stable_of_eq)
  let ?c' = "\<lparr>cn_state = user_op_guard_drop p t s0, cn_log = cn_log c\<rparr>"
  have rep: "replays \<lparr>cn_state = s0, cn_log = cn_log ?c\<rparr>" by (rule replays_local [OF d(5)]) (simp_all add: fc)
  have "replays ?c'"
    by (rule replays_local [OF replays_withdrawal [OF rep, of _ now]]) (simp_all add: c record_event_def)
  moreover have "books_balance u \<lparr>sy_canister = ?c', sy_calls = remove1 ?call (sy_calls y), sy_lost = sy_lost y\<rparr>" for u
    using d(6) [of u] by (cases "t = u") (simp_all add: c books_balance_def call_amount_def st record_event_def ac_simps)
  ultimately have "sys_inv \<lparr>sy_canister = ?c', sy_calls = remove1 ?call (sy_calls y), sy_lost = sy_lost y\<rparr>"
    by (intro sys_inv_close [OF inv call key]) (use d(1-5) fc(3) st heap_ok_guard [OF fc(5)] in \<open>auto simp: c record_event_def\<close>)
  moreover have "c\<lparr>cn_state := user_op_guard_drop p t (cn_state c)\<rparr> = ?c'"
    by (simp add: canister_eta c record_event_def)
  ultimately show ?thesis by (simp only: system_eta)
qed

lemma sys_inv_refunded:
  assumes inv: "sys_inv y" and call: "WithdrawCall p t a f \<in> set (sy_calls y)"
    and s0: "s0 = cn_state (sy_canister y) \<or> s0 = set_cached_ledger_fee t f' (cn_state (sy_canister y))"
    and s: "st_deposit p t a Write s0 = Some s"
  shows "sys_inv (y\<lparr>sy_canister := (sy_canister y)\<lparr>cn_state := user_op_guard_drop p t s\<rparr>, sy_calls := remove1 (WithdrawCall p t a f) (sy_calls y)\<rparr>)"
proof -
  let ?call = "WithdrawCall p t a f" and ?c = "sy_canister y"
  have key: "call_key ?call = (p, t)" by (simp add: call_key_def)
  note d = sys_invD [OF inv call key]
  have "heap_ok (cn_state ?c)" using inv by (simp add: sys_inv_def)
  note fc = fee_cached [OF s0 this]
  have st: "st_registry s0 = st_registry (cn_state ?c)" "st_balances s0 = st_balances (cn_state ?c)"
    using fc(2) by (simp_all add: stable_of_eq)
  note sd = st_deposit_total [OF s]
  have "bt_get (ur_users (st_registry (cn_state ?c))) p \<noteq> None"
    using inv call unfolding sys_inv_def calls_ok_def Let_def by blast
  then have reg: "st_registry s = st_registry (cn_state ?c)" by (auto simp: sd(4) st get_or_register_known)
  let ?c' = "\<lparr>cn_state = user_op_guard_drop p t s, cn_log = cn_log ?c\<rparr>"
  have "replays ?c'" by (rule replays_local [OF d(5)]) (simp_all add: sd(3) fc(1))
  moreover have "books_balance u \<lparr>sy_canister = ?c', sy_calls = remove1 ?call (sy_calls y), sy_lost = sy_lost y\<rparr>" for u
    using d(6) [of u] sd(1) [of u] by (cases "t = u") (simp_all add: books_balance_def call_amount_def st ac_simps)
  ultimately have "sys_inv \<lparr>sy_canister = ?c', sy_calls = remove1 ?call (sy_calls y), sy_lost = sy_lost y\<rparr>"
    by (intro sys_inv_close [OF inv call key])
       (use d(1-5) fc(3) st reg sd(2) heap_ok_guard [OF heap_ok_deposit [OF fc(5) s]] in auto)
  then show ?thesis by (simp add: canister_eta system_eta)
qed

text \<open>Every message keeps the invariant, as long as the log is shorter than the 64-bit user ids
  allow.\<close>

theorem sys_inv_change:
  assumes "sys_change pc y y'" and inv: "sys_inv y" and len: "length (cn_log (sy_canister y')) \<le> 2 ^ 64"
  shows "sys_inv y'"
  using assms(1)
proof cases
  case (change_run c)
  then show ?thesis using sys_inv_event_run [OF inv] by simp
next
  case (change_open_deposit p t s a)
  have "heap_ok s" using inv change_open_deposit by (simp add: sys_inv_def)
  then show ?thesis unfolding change_open_deposit(1)
    using change_open_deposit(2-) by (intro sys_inv_open [OF inv]) (auto intro: heap_ok_in_flight simp: call_key_def call_amount_def heap_of_eq)
next
  case (change_open_withdraw p t s a s' f)
  note w = st_withdraw_total [OF change_open_withdraw(5)]
  have ok: "heap_ok s'"
    using inv change_open_withdraw(4) by (intro heap_ok_withdraw [OF heap_ok_in_flight change_open_withdraw(5)]) (simp add: sys_inv_def)
  have "registry_ok (st_registry s)" using inv change_open_withdraw(4) by (simp add: sys_inv_def accounts_ok_def)
  then have "bt_get (ur_users (st_registry s)) p \<noteq> None" using w(5) by (simp add: lookup_funding_id_eq)
  then show ?thesis unfolding change_open_withdraw(1)
    using change_open_withdraw(2-4) w ok by (intro sys_inv_open [OF inv]) (auto simp: call_key_def call_amount_def heap_of_eq)
next
  case (change_deposit_failed p t a)
  have key: "call_key (DepositCall p t a) = (p, t)" by (simp add: call_key_def)
  note d = sys_invD [OF inv change_deposit_failed(2) key]
  have "sys_inv \<lparr>sy_canister = \<lparr>cn_state = user_op_guard_drop p t (cn_state (sy_canister y)), cn_log = cn_log (sy_canister y)\<rparr>,
      sy_calls = remove1 (DepositCall p t a) (sy_calls y), sy_lost = sy_lost y\<rparr>"
    by (rule sys_inv_close [OF inv change_deposit_failed(2) key])
       (use d inv in \<open>auto simp: books_balance_def call_amount_def sys_inv_def intro: replays_local [of "sy_canister y"] heap_ok_guard\<close>)
  then show ?thesis by (simp add: change_deposit_failed(1) canister_eta system_eta)
next
  case (change_trapped call)
  obtain p t where key: "call_key call = (p, t)" by (cases "call_key call")
  note d = sys_invD [OF inv change_trapped(2) key]
  have "sys_inv \<lparr>sy_canister = \<lparr>cn_state = user_op_guard_drop p t (cn_state (sy_canister y)), cn_log = cn_log (sy_canister y)\<rparr>,
      sy_calls = remove1 call (sy_calls y), sy_lost = call # sy_lost y\<rparr>"
  proof (rule sys_inv_close [OF inv change_trapped(2) key])
    show "books_balance u \<lparr>sy_canister = \<lparr>cn_state = user_op_guard_drop p t (cn_state (sy_canister y)), cn_log = cn_log (sy_canister y)\<rparr>,
      sy_calls = remove1 call (sy_calls y), sy_lost = call # sy_lost y\<rparr>" for u
      using d(6) [of u] by (simp add: books_balance_def)
  qed (use d(1-5) inv in \<open>auto simp: sys_inv_def intro: replays_local [of "sy_canister y"] heap_ok_guard\<close>)
  then show ?thesis by (simp add: change_trapped(1) trapped_def key Let_def canister_eta system_eta)
next
  case (change_deposited p t a now c)
  then show ?thesis using sys_inv_deposited [OF inv change_deposited(2,3)] len by simp
next
  case (change_withdrawn p t a f s s0 f' c block now)
  then show ?thesis using sys_inv_withdrawn [OF inv change_withdrawn(2)] by blast
next
  case (change_refunded p t a f s s0 f' s')
  then show ?thesis using sys_inv_refunded [OF inv change_refunded(2)] by blast
qed

lemma sys_inv_step:
  assumes inv: "sys_inv y" and step: "sys_step pc big y y'" and len: "length (cn_log (sy_canister y')) \<le> 2 ^ 64"
  shows "sys_inv y'" "sys_change pc y y'"
proof -
  have "heap_ok (cn_state (sy_canister y))" "sy_calls y = [] \<Longrightarrow> st_in_flight (cn_state (sy_canister y)) = {}"
    using inv by (auto simp: sys_inv_def calls_ok_def Let_def)
  then show "sys_change pc y y'" using sys_step_change [OF step] by blast
  then show "sys_inv y'" using sys_inv_change [OF _ inv len] by blast
qed

lemma post_upgrade_log:
  assumes "post_upgrade arg now sn orders trades balances registry log = Some c"
  shows "length log \<le> length (cn_log c)"
proof -
  obtain s where s: "into_state sn orders trades balances registry = Some s"
    using assms by (auto simp: post_upgrade_def trap_simps)
  consider "arg = None" | a where "arg = Some (OT_Init a)" | "arg = Some (OT_Upgrade None)" | a where "arg = Some (OT_Upgrade (Some a))"
    by (metis oisy_trade_arg.exhaust option.exhaust)
  then show ?thesis using assms s by cases (auto simp: post_upgrade_def process_event_Some)
qed

lemma sys_step_log: "sys_step pc big y y' \<Longrightarrow> length (cn_log (sy_canister y)) \<le> length (cn_log (sy_canister y'))"
proof (induction rule: sys_step.induct)
  case (step_deposit_refused token n rt y e c)
  then show ?case by (auto dest!: deposit_start_cases)
next
  case (step_deposit_start token n rt y amount c)
  then show ?case by (auto dest!: deposit_start_cases)
next
  case (step_withdraw_refused token n rt y e c)
  then show ?case by (auto dest!: withdraw_start_cases)
next
  case (step_withdraw_start token n rt y amount fee c)
  then show ?case by (auto dest!: withdraw_start_cases)
next
  case (step_deposit_finish rt token amount y answer r c)
  then show ?case by (auto simp: deposit_finish_def trap_simps process_event_Some split: sum.splits)
next
  case (step_withdraw_finish rt token amount fee y ledger r c)
  then show ?case by (auto simp: withdraw_finish_def Let_def trap_simps record_event_def split: sum.splits)
next
  case (step_upgrade y s arg now c)
  then show ?case by (auto dest: post_upgrade_log)
qed (auto dest: event_run_log [OF run_add_order] event_run_log [OF run_cancel] event_run_log [OF run_match]
       event_run_log [OF run_grant] event_run_log [OF run_revoke] event_run_log [OF run_pair] event_run_log [OF run_halt])

theorem sys_inv_reachable:
  "reachable pc big arg y \<Longrightarrow> length (cn_log (sy_canister y)) \<le> 2 ^ 64 \<Longrightarrow> sys_inv y"
proof (induction rule: reachable.induct)
  case (reach_init now c)
  then show ?case by (simp add: sys_inv_init)
next
  case (reach_step y y')
  have "length (cn_log (sy_canister y)) \<le> 2 ^ 64" using sys_step_log [OF reach_step.hyps(2)] reach_step.prems by linarith
  then show ?case using sys_inv_step(1) [OF _ reach_step.hyps(2) reach_step.prems] reach_step.IH by blast
qed

end
