(* ===== verification/System_Properties.thy ===== *)
theory System_Properties
  imports System_Invariants Number_Properties
begin

text \<open>Properties of every reachable state, whatever messages arrive and in whatever order ledger
  calls are answered.\<close>

definition ex_init :: oisy_trade_arg where
  "ex_init = OT_Init \<lparr>ia_mode = GeneralAvailability, ia_max_orders_per_chunk = 10, ia_instruction_budget = 1000,
     ia_max_settlement_units_per_event = None\<rparr>"

definition ex_consts :: principal_consts where
  "ex_consts = \<lparr>pc_anonymous = 0, pc_management_canister = 1\<rparr>"

definition ex_state :: trade_state where
  "ex_state = \<lparr>st_mode = GeneralAvailability,
     st_policy = \<lparr>ep_max_orders_per_chunk = 10, ep_instruction_budget = 1000, ep_max_settlement_units_per_event = 256\<rparr>,
     st_next_book_id = 0, st_tokens = [], st_pairs = [], st_books = [], st_registry = user_registry_new,
     st_balances = \<lparr>tb_balances = [], tb_fee_pool = []\<rparr>, st_orders = history_new, st_trades = history_new,
     st_fee_cache = [], st_settling = [], st_tasks = {}, st_in_flight = {},
     st_permissions = \<lparr>pm_trading_halted = True, pm_halted_pairs = {}\<rparr>\<rparr>"

definition ex_system :: system where
  "ex_system = \<lparr>sy_canister = \<lparr>cn_state = ex_state, cn_log =
      [\<lparr>ev_timestamp = 5, ev_payload = Ev_Init \<lparr>ia_mode = GeneralAvailability, ia_max_orders_per_chunk = 10,
          ia_instruction_budget = 1000, ia_max_settlement_units_per_event = None\<rparr>\<rparr>,
       \<lparr>ev_timestamp = 6, ev_payload = Ev_SetHalt \<lparr>sh_book_ids = None, sh_halted = True\<rparr>\<rparr>]\<rparr>, sy_calls = [], sy_lost = []\<rparr>"

text \<open>A canister that was installed and then halted by a controller.\<close>

lemma ex_system_reachable: "reachable ex_consts ex_biguint ex_init ex_system"
proof -
  let ?s = "ex_state\<lparr>st_permissions := permissions_default\<rparr>"
  let ?c = "\<lparr>cn_state = ?s, cn_log = [\<lparr>ev_timestamp = 5, ev_payload = Ev_Init \<lparr>ia_mode = GeneralAvailability,
      ia_max_orders_per_chunk = 10, ia_instruction_budget = 1000, ia_max_settlement_units_per_event = None\<rparr>\<rparr>]\<rparr>"
  let ?rt = "\<lparr>rt_caller = 9, rt_is_controller = (\<lambda>_. True), rt_time = 6\<rparr>"
  have "canister_init ex_init 5 = Some ?c"
    by (simp add: canister_init_def ex_init_def state_new_def policy_try_new_def ex_state_def
        DEFAULT_MAX_SETTLEMENT_UNITS_PER_EVENT_def MAX_INSTRUCTION_BUDGET_def)
  then have r: "reachable ex_consts ex_biguint ex_init \<lparr>sy_canister = ?c, sy_calls = [], sy_lost = []\<rparr>" by (rule reach_init)
  have "set_halt None True ?rt ?c = Some (Inr (), sy_canister ex_system)"
    by (simp add: set_halt_def process_event_def apply_state_transition_def ex_system_def ex_state_def
        halt_trading_globally_def permissions_default_def)
  then have "sys_step ex_consts ex_biguint \<lparr>sy_canister = ?c, sy_calls = [], sy_lost = []\<rparr> ex_system"
    using step_halt [of None True ?rt "\<lparr>sy_canister = ?c, sy_calls = [], sy_lost = []\<rparr>"] by (simp add: ex_system_def)
  then show ?thesis by (rule reach_step [OF r])
qed

lemma ex_system_log: "length (cn_log (sy_canister ex_system)) \<le> 2 ^ 64"
  by (simp add: ex_system_def)

text \<open>C6. The log determines the heap: replaying the event log of a reachable canister over its
  stable memory rebuilds mode, execution policy, tokens, pairs, books and permissions exactly, and
  leaves stable memory as it is.\<close>

theorem replay_rebuilds_state:
  assumes "reachable pc big arg y" "length (cn_log (sy_canister y)) \<le> 2 ^ 64"
  shows "\<exists>s. replay_events (cn_log (sy_canister y)) (st_orders (cn_state (sy_canister y)))
      (st_trades (cn_state (sy_canister y))) (st_registry (cn_state (sy_canister y)))
      (st_balances (cn_state (sy_canister y))) Skip = Some s \<and>
    heap_of s = heap_of (cn_state (sy_canister y)) \<and> stable_of s = stable_of (cn_state (sy_canister y))"
proof -
  have "replays (sy_canister y)" using sys_inv_reachable [OF assms] by (simp add: sys_inv_def)
  then show ?thesis unfolding replays_def stable_of_def [of "cn_state (sy_canister y)"] by blast
qed

theorem replay_rebuilds_state_witness:
  "\<exists>s. replay_events (cn_log (sy_canister ex_system)) history_new history_new user_registry_new
      \<lparr>tb_balances = [], tb_fee_pool = []\<rparr> Skip = Some s \<and> pm_trading_halted (st_permissions s)"
  using replay_rebuilds_state [OF ex_system_reachable ex_system_log]
  by (auto simp: ex_system_def ex_state_def heap_of_eq)

section \<open>Accounts\<close>

definition ex_registry :: user_registry where
  "ex_registry = \<lparr>ur_users = [(5, 0), (8, 1)], ur_trading_accounts = [(6, \<lparr>tg_funding = 5\<rparr>)],
     ur_by_funding = [(0, \<lparr>tl_accounts = [6], tl_last_granted_at = 0\<rparr>)]\<rparr>"

lemma ex_registry_ok: "registry_ok ex_registry"
  unfolding registry_ok_def users_ok_def grants_ok_def
  by (auto simp: ex_registry_def MAX_TRADING_ACCOUNTS_PER_USER_def bt_ok_def split: if_splits)

text \<open>Grants: a grant that validation accepts is recorded, the trading account then acts for its
  granter and for no one else, the granter's list grows by exactly it, every other principal means
  what it meant before, and validation accepts exactly fresh authenticating principals of a
  registered funding account below the cap and after the cooldown.\<close>

lemma grant_correct:
  assumes "registry_ok r" "validate_add_trading_account pc funding trading now r = Inr ()"
  shows "\<exists>r'. record_add_trading_account funding trading now r = Some r' \<and> registry_ok r' \<and>
    map_option effective_principal (registry_lookup r' trading) = Some funding \<and>
    (\<forall>p. p \<noteq> trading \<longrightarrow> registry_lookup r' p = registry_lookup r p) \<and>
    trading_accounts_of r' funding = trading_accounts_of r funding @ [trading] \<and>
    validate_remove_trading_account funding trading r' = Inr () \<and>
    validate_add_trading_account pc funding' trading now' r' \<noteq> Inr ()"
proof -
  obtain r' where r': "record_add_trading_account funding trading now r = Some r'" "registry_ok r'" "ur_users r' = ur_users r"
      "bt_get (ur_trading_accounts r') = (bt_get (ur_trading_accounts r))(trading \<mapsto> \<lparr>tg_funding = funding\<rparr>)"
      "trading_accounts_of r' funding = trading_accounts_of r funding @ [trading]"
    using record_add_trading_account_ok [OF assms] by blast
  have "registry_lookup r' trading = Some (Trading trading \<lparr>tg_funding = funding\<rparr>)"
    by (simp add: registry_lookup_eq r'(4))
  then show ?thesis
    using r' by (intro exI [of _ r'])
      (auto simp: registry_lookup_def effective_principal_def validate_remove_trading_account_def validate_add_trading_account_Inr
         split: option.split)
qed

text \<open>Revocations: only the granter can revoke; a revoked account acts for no one, everyone else
  is unchanged, and it may be granted again.\<close>

lemma revoke_correct:
  assumes "registry_ok r"
  shows "validate_remove_trading_account funding trading r =
      (if registry_lookup r trading = Some (Trading trading \<lparr>tg_funding = funding\<rparr>) then Inr () else Inl NotAllowed) \<and>
    (validate_remove_trading_account funding trading r = Inr () \<longrightarrow>
      (\<exists>r'. record_remove_trading_account funding trading r = Some r' \<and> registry_ok r' \<and>
        registry_lookup r' trading = None \<and> (\<forall>p. p \<noteq> trading \<longrightarrow> registry_lookup r' p = registry_lookup r p) \<and>
        trading_accounts_of r' funding = filter (\<lambda>p. p \<noteq> trading) (trading_accounts_of r funding)))"
proof (intro conjI impI)
  show "validate_remove_trading_account funding trading r =
      (if registry_lookup r trading = Some (Trading trading \<lparr>tg_funding = funding\<rparr>) then Inr () else Inl NotAllowed)"
    by (auto simp: validate_remove_trading_account_def registry_lookup_eq split: option.split intro: trading_grant.equality)
  assume v: "validate_remove_trading_account funding trading r = Inr ()"
  obtain r' where r': "record_remove_trading_account funding trading r = Some r'" "registry_ok r'" "ur_users r' = ur_users r"
      "bt_get (ur_trading_accounts r') = (bt_get (ur_trading_accounts r))(trading := None)"
      "trading_accounts_of r' funding = filter (\<lambda>p. p \<noteq> trading) (trading_accounts_of r funding)"
    using record_remove_trading_account_ok [OF assms v] by blast
  have "bt_get (ur_trading_accounts r) trading \<noteq> None"
    using v by (auto simp: validate_remove_trading_account_def split: option.splits)
  then have "bt_get (ur_users r) trading = None" using assms by (auto simp: registry_ok_def grants_ok_def)
  then show "\<exists>r'. record_remove_trading_account funding trading r = Some r' \<and> registry_ok r' \<and>
        registry_lookup r' trading = None \<and> (\<forall>p. p \<noteq> trading \<longrightarrow> registry_lookup r' p = registry_lookup r p) \<and>
        trading_accounts_of r' funding = filter (\<lambda>p. p \<noteq> trading) (trading_accounts_of r funding)"
    using r' by (auto simp: registry_lookup_def split: option.split)
qed

text \<open>C34. Delegation: a grant that validation accepts is recorded, the trading account then acts for its
  granter and for no one else, and cannot be granted a second time. Only the granter can revoke; a
  revoked account acts for no one. Neither changes what any other principal stands for.\<close>

theorem delegation_correct:
  assumes "registry_ok r"
  shows "(validate_add_trading_account pc funding trading now r = Inr () \<longrightarrow>
      (\<exists>r'. record_add_trading_account funding trading now r = Some r' \<and> registry_ok r' \<and>
        map_option effective_principal (registry_lookup r' trading) = Some funding \<and>
        (\<forall>p. p \<noteq> trading \<longrightarrow> registry_lookup r' p = registry_lookup r p) \<and>
        trading_accounts_of r' funding = trading_accounts_of r funding @ [trading] \<and>
        validate_add_trading_account pc funding' trading now' r' \<noteq> Inr ())) \<and>
    validate_remove_trading_account funding trading r =
      (if registry_lookup r trading = Some (Trading trading \<lparr>tg_funding = funding\<rparr>) then Inr () else Inl NotAllowed) \<and>
    (validate_remove_trading_account funding trading r = Inr () \<longrightarrow>
      (\<exists>r'. record_remove_trading_account funding trading r = Some r' \<and> registry_ok r' \<and>
        registry_lookup r' trading = None \<and> (\<forall>p. p \<noteq> trading \<longrightarrow> registry_lookup r' p = registry_lookup r p) \<and>
        trading_accounts_of r' funding = filter (\<lambda>p. p \<noteq> trading) (trading_accounts_of r funding)))"
  using grant_correct [OF assms] revoke_correct [OF assms] by blast

theorem delegation_correct_witness:
  "(\<exists>r'. record_add_trading_account 8 11 9000000000000 ex_registry = Some r' \<and>
     map_option effective_principal (registry_lookup r' 11) = Some 8) \<and>
   (\<exists>r'. record_remove_trading_account 5 6 ex_registry = Some r' \<and> registry_lookup r' 6 = None)"
proof -
  have grant: "validate_add_trading_account ex_consts 8 11 9000000000000 ex_registry = Inr ()"
    by (simp add: validate_add_trading_account_Inr registry_lookup_eq ex_registry_def ex_consts_def)
  have "\<exists>r'. record_add_trading_account 8 11 9000000000000 ex_registry = Some r' \<and>
      map_option effective_principal (registry_lookup r' 11) = Some 8"
    using delegation_correct [OF ex_registry_ok, of ex_consts 8 11 9000000000000 8 0, THEN conjunct1, THEN mp, OF grant] by blast
  moreover have revoke: "validate_remove_trading_account 5 6 ex_registry = Inr ()"
    by (simp add: validate_remove_trading_account_def ex_registry_def)
  have "\<exists>r'. record_remove_trading_account 5 6 ex_registry = Some r' \<and> registry_lookup r' 6 = None"
    using delegation_correct [OF ex_registry_ok, of ex_consts 5 6, THEN conjunct2, THEN conjunct2, THEN mp, OF revoke] by blast
  ultimately show ?thesis by blast
qed

end
