(* ===== verification/Reservations.thy ===== *)
theory Reservations
  imports Heap_Invariant Balance_Properties
begin

text \<open>
  What the canister has promised. An order in a book holds its reservation, and a queued balance
  operation holds the amount it is going to debit. \<open>locked\<close> sums both for a user and a token;
  the state is \<open>backed\<close> when every reserved balance is exactly what is locked. Matching moves
  locked amounts from the book to the queue, and settling pays them out.
\<close>

definition lock_token :: "side \<Rightarrow> pair_token" where
  "lock_token s = (case s of Buy \<Rightarrow> Quote | Sell \<Rightarrow> Base)"

definition hold :: "(order_seq \<Rightarrow> user_id option) \<Rightarrow> trading_pair \<times> u64 \<Rightarrow> user_id \<Rightarrow> token_id \<Rightarrow> stake_value" where
  "hold own m u t = (\<lambda>i s p n. if own i = Some u \<and> trading_pair_token (fst m) (lock_token s) = t
     then (case s of Buy \<Rightarrow> unat p * n div unat (snd m) | Sell \<Rightarrow> n) else 0)"

definition op_debtor :: "balance_operation \<Rightarrow> order_seq" where
  "op_debtor op = (case op of Transfer from _ _ _ _ \<Rightarrow> from | Unreserve order _ _ \<Rightarrow> order)"

definition op_hold :: "(order_seq \<Rightarrow> user_id option) \<Rightarrow> trading_pair \<times> u64 \<Rightarrow> user_id \<Rightarrow> token_id \<Rightarrow> balance_operation \<Rightarrow> nat" where
  "op_hold own m u t op =
     (if own (op_debtor op) = Some u \<and> trading_pair_token (fst m) (op_token op) = t then q2n (op_amount op) else 0)"

definition ops_hold ::
  "(order_seq \<Rightarrow> user_id option) \<Rightarrow> trading_pair \<times> u64 \<Rightarrow> user_id \<Rightarrow> token_id \<Rightarrow> balance_operation list \<Rightarrow> nat" where
  "ops_hold own m u t ops = (\<Sum>op\<leftarrow>ops. op_hold own m u t op)"

text \<open>Who an order belongs to, and the pair and scale of a book.\<close>

definition order_owner :: "trade_state \<Rightarrow> order_id \<Rightarrow> user_id option" where
  "order_owner s i = do { r \<leftarrow> history_get (st_orders s) i; lookup_funding_id (st_registry s) (or_owner r) }"

definition market :: "trade_state \<Rightarrow> order_book_id \<Rightarrow> (trading_pair \<times> u64) option" where
  "market s i = do { pair \<leftarrow> get_pair (st_pairs s) i; scale \<leftarrow> base_scale s (tp_base pair); Some (pair, scale) }"

definition book_hold :: "trade_state \<Rightarrow> user_id \<Rightarrow> token_id \<Rightarrow> order_book_id \<Rightarrow> order_book \<Rightarrow> nat" where
  "book_hold s u t i b =
     (case market s i of None \<Rightarrow> 0 | Some m \<Rightarrow> stake_sum (hold (\<lambda>q. order_owner s (i, q)) m u t) b)"

definition event_hold :: "trade_state \<Rightarrow> user_id \<Rightarrow> token_id \<Rightarrow> settling_event \<Rightarrow> nat" where
  "event_hold s u t ev =
     (case market s (se_book_id ev) of None \<Rightarrow> 0
      | Some m \<Rightarrow> ops_hold (\<lambda>q. order_owner s (se_book_id ev, q)) m u t (se_operations ev))"

definition locked :: "trade_state \<Rightarrow> user_id \<Rightarrow> token_id \<Rightarrow> nat" where
  "locked s u t = bt.total (book_hold s u t) (st_books s) + (\<Sum>ev\<leftarrow>st_settling s. event_hold s u t ev)"

definition reserved_of :: "balance_map \<Rightarrow> user_id \<Rightarrow> token_id \<Rightarrow> nat" where
  "reserved_of m u t = q2n (bal_reserved (map_balance m (t, u)))"

definition backed :: "trade_state \<Rightarrow> bool" where
  "backed s \<longleftrightarrow> (\<forall>u t. reserved_of (tb_balances (st_balances s)) u t = locked s u t)"

section \<open>Values\<close>

lemma ops_hold_simps [simp]:
  "ops_hold own m u t [] = 0" "ops_hold own m u t (op # ops) = op_hold own m u t op + ops_hold own m u t ops"
  "ops_hold own m u t (ops @ ops') = ops_hold own m u t ops + ops_hold own m u t ops'"
  by (simp_all add: ops_hold_def)

lemma ops_hold_concat: "ops_hold own m u t (concat opss) = (\<Sum>ops\<leftarrow>opss. ops_hold own m u t ops)"
  by (induction opss) simp_all

lemma listed_market: "listed s i pair scale \<Longrightarrow> market s i = Some (pair, scale)"
  by (simp add: listed_def market_def)

lemma additive_hold:
  assumes "unat (snd m) dvd tick * lot"
  shows "additive tick lot (hold own m u t)"
proof -
  have "unat p * (k + n) div unat (snd m) = unat p * k div unat (snd m) + unat p * n div unat (snd m)"
    if "tick dvd unat p" "lot dvd k" for p :: price and k n
    using dvd_value [OF assms that] by (simp add: add_mult_distrib2 div_plus_div_distrib_dvd_left)
  then show ?thesis by (auto simp: additive_def hold_def split: side.split)
qed

text \<open>The operations of a fill debit what the two orders of the fill held for it.\<close>

lemma fill_unit_hold:
  assumes "fill_ok scale fl"
  shows "ops_hold own (pair, scale) u t (su_operations (fill_unit rates scale fl)) = fill_stake (hold own (pair, scale) u t) fl"
proof -
  have v: "value_ok scale (fl_maker_price fl) (fl_quantity fl)" using assms by (simp add: fill_ok_def)
  note d = fill_unit_def fill_balance_operations_def settled_def op_hold_def op_debtor_def v fill_stake_def hold_def lock_token_def
    is_zero_iff surplus_lt [OF assms]
  show ?thesis
  proof (cases "fl_taker_side fl")
    case Buy
    then show ?thesis
      using surplus_value(3) [OF assms] surplus_lt [OF assms]
      by (auto simp: d buyer_price_def quote_value_def [symmetric])
  next
    case Sell
    then have "surplus_of scale fl = 0" by (simp add: surplus_of_def buyer_price_def)
    then show ?thesis using Sell by (auto simp: d quote_value_def [symmetric])
  qed
qed

lemma expired_unit_hold:
  assumes "removed_ok scale r"
  shows "ops_hold own (pair, scale) u t (su_operations (expired_unit scale (i, r))) = removed_stake (hold own (pair, scale) u t) (i, r)"
  using assms
  by (cases "rm_side r")
     (auto simp: expired_unit_def op_hold_def op_debtor_def removed_stake_def hold_def lock_token_def removed_ok_def fee_token_def
        quote_value_def [symmetric])

section \<open>Congruence\<close>

lemma stake_sum_cong:
  assumes "\<And>i s p n. (i, s, p) \<in> stake_terms b \<Longrightarrow> f i s p n = g i s p n"
  shows "stake_sum f b = stake_sum g b"
proof -
  have "side_stakes f s (side_list s b) = side_stakes g s (side_list s b)" for s
  proof -
    have "f (ro_id r) s p n = g (ro_id r) s p n" if "(p, r) \<in> set (side_list s b)" for p r n
    proof -
      have "(ro_id r, s, p) \<in> stake_terms b" using that by (auto simp: stake_terms_def)
      then show ?thesis by (rule assms)
    qed
    then show ?thesis unfolding side_stakes_def by (intro arg_cong [of _ _ sum_list] map_cong) auto
  qed
  moreover have "order_stake f ord = order_stake g ord" if "ord \<in> set (bk_pending_orders b)" for ord
    using that assms by (force simp: order_stake_def stake_terms_def)
  ultimately show ?thesis unfolding stake_sum_def by (metis (mono_tags, lifting) map_cong)
qed

lemma ops_hold_cong:
  assumes "\<And>op. op \<in> set ops \<Longrightarrow> own (op_debtor op) = own' (op_debtor op)"
  shows "ops_hold own m u t ops = ops_hold own' m u t ops"
  unfolding ops_hold_def using assms by (intro arg_cong [of _ _ sum_list] map_cong) (simp_all add: op_hold_def)

lemma op_hold_le: "op \<in> set ops \<Longrightarrow> op_hold own m u t op \<le> ops_hold own m u t ops"
  unfolding ops_hold_def by (intro member_le_sum_list) auto

section \<open>Paying out\<close>

definition wb_reserved :: "write_back \<Rightarrow> user_id \<Rightarrow> token_id \<Rightarrow> nat" where
  "wb_reserved wb u t = q2n (bal_reserved (wb_balance wb (t, u)))"

definition op_ok :: "balance_operation \<Rightarrow> bool" where
  "op_ok op \<longleftrightarrow> q2n (op_amount op) \<noteq> 0 \<and>
     (case op of Transfer _ _ _ amount (Some fee) \<Rightarrow> q2n fee \<le> q2n amount | _ \<Rightarrow> True)"

definition resolves :: "(order_seq \<Rightarrow> user_id option) \<Rightarrow> (order_seq, resolved_order) btree_map \<Rightarrow> order_seq set \<Rightarrow> bool" where
  "resolves own resolved Q \<longleftrightarrow> (\<forall>q \<in> Q. \<exists>rv. bt_get resolved q = Some rv \<and> own q = Some (rv_user rv))"

lemma wb_transfer_reserved:
  assumes "wb_transfer debtor creditor token gross fee wb = Some wb'"
  shows "wb_reserved wb u t = wb_reserved wb' u t + (if u = debtor \<and> t = token then q2n gross else 0)"
proof -
  obtain net pool wb1 where d: "load_existing (token, debtor) (balance_debit_reserved gross) (wb\<lparr>wb_fee_pool := pool\<rparr>) = Some wb1"
    and c: "load_or_create (token, creditor) (balance_deposit net) wb1 = Some wb'"
    using assms by (auto simp: wb_transfer_def trap_simps)
  have "wb_reserved wb u t = wb_reserved wb1 u t + (if u = debtor \<and> t = token then q2n gross else 0)"
    using d by (auto simp: load_existing_Some wb_reserved_def balance_debit_reserved_Some)
  moreover have "wb_reserved wb1 u t = wb_reserved wb' u t"
    using c by (auto simp: load_or_create_Some wb_reserved_def balance_deposit_Some)
  ultimately show ?thesis by simp
qed

lemma wb_unreserve_reserved:
  assumes "wb_unreserve user token amount wb = Some wb'"
  shows "wb_reserved wb u t = wb_reserved wb' u t + (if u = user \<and> t = token then q2n amount else 0)"
  using assms by (auto simp: wb_unreserve_def load_existing_Some wb_reserved_def balance_unreserve_Some)

lemma op_debtor_seqs [simp]: "op_debtor op \<in> set (op_seqs op)"
  by (cases op) (simp_all add: op_debtor_def op_seqs_def)

text \<open>One operation whose debit is reserved: it goes through and uses up exactly its debit.\<close>

lemma apply_operation_pays:
  assumes ok: "wb_ok wb" "\<And>t. wb_total t wb < 2 ^ 256" and op: "op_ok op" "resolves own resolved (set (op_seqs op))"
    and res: "\<And>u t. op_hold own m u t op \<le> wb_reserved wb u t"
      "\<And>u t. wb_reserved wb u t \<noteq> 0 \<Longrightarrow> bt_contains (wb_balances wb) (t, u)"
  shows "\<exists>wb'. apply_operation (fst m) resolved op wb = Some wb' \<and> wb_ok wb' \<and> wb_balances wb' = wb_balances wb \<and>
    (\<forall>t. wb_total t wb' = wb_total t wb) \<and> (\<forall>u t. wb_reserved wb u t = wb_reserved wb' u t + op_hold own m u t op)"
proof -
  let ?t = "trading_pair_token (fst m) (op_token op)"
  obtain rv where rv: "bt_get resolved (op_debtor op) = Some rv" "own (op_debtor op) = Some (rv_user rv)"
    using op(2) op_debtor_seqs [of op] unfolding resolves_def by blast
  have h: "op_hold own m u t op = (if u = rv_user rv \<and> t = ?t then q2n (op_amount op) else 0)" for u t
    using rv(2) by (auto simp: op_hold_def)
  have le: "q2n (op_amount op) \<le> wb_reserved wb (rv_user rv) ?t" using res(1) [of "rv_user rv" ?t] by (simp add: h)
  have row: "bt_contains (wb_balances wb) (?t, rv_user rv)"
    using res(2) [of "rv_user rv" ?t] le op(1) by (auto simp: op_ok_def)
  show ?thesis
  proof (cases op)
    case (Transfer src dst tok amount fee)
    then obtain rv' where rv': "bt_get resolved dst = Some rv'" using op(2) by (auto simp: resolves_def op_seqs_def)
    let ?fee = "case fee of None \<Rightarrow> quantity_ZERO | Some f \<Rightarrow> f"
    have "q2n ?fee \<le> q2n amount" using op(1) Transfer by (auto simp: op_ok_def split: option.splits)
    then obtain wb' where w: "wb_transfer (rv_user rv) (rv_user rv') ?t amount ?fee wb = Some wb'"
      using wb_transfer_succeeds [OF ok row, of amount ?fee "rv_user rv'"] le Transfer by (auto simp: wb_reserved_def)
    then have "apply_operation (fst m) resolved op wb = Some wb'"
      using rv(1) rv' Transfer by (simp add: apply_operation_def op_debtor_def)
    moreover have "wb_reserved wb u t = wb_reserved wb' u t + op_hold own m u t op" for u t
      unfolding h using wb_transfer_reserved [OF w, of u t] Transfer by simp
    ultimately show ?thesis using wb_transfer_conserves [OF ok(1) w] by blast
  next
    case (Unreserve order tok amount)
    then obtain wb' where w: "wb_unreserve (rv_user rv) ?t amount wb = Some wb'"
      using wb_unreserve_succeeds [OF ok row] le by (auto simp: wb_reserved_def)
    then have "apply_operation (fst m) resolved op wb = Some wb'"
      using rv(1) Unreserve by (simp add: apply_operation_def op_debtor_def)
    moreover have "wb_reserved wb u t = wb_reserved wb' u t + op_hold own m u t op" for u t
      unfolding h using wb_unreserve_reserved [OF w, of u t] Unreserve by simp
    ultimately show ?thesis using wb_unreserve_conserves [OF ok(1) w] by blast
  qed
qed

lemma apply_operations_pay:
  assumes "wb_ok wb" "\<And>t. wb_total t wb < 2 ^ 256" "list_all op_ok ops" "resolves own resolved (set (concat (map op_seqs ops)))"
    "\<And>u t. wb_reserved wb u t = rest u t + ops_hold own m u t ops"
    "\<And>u t. wb_reserved wb u t \<noteq> 0 \<Longrightarrow> bt_contains (wb_balances wb) (t, u)"
  shows "\<exists>wb'. apply_operations (fst m) resolved ops wb = Some wb' \<and> wb_ok wb' \<and> wb_balances wb' = wb_balances wb \<and>
    (\<forall>t. wb_total t wb' = wb_total t wb) \<and> (\<forall>u t. wb_reserved wb' u t = rest u t)"
  using assms
proof (induction ops arbitrary: wb)
  case Nil
  then show ?case by simp
next
  case (Cons op ops)
  have "op_hold own m u t op \<le> wb_reserved wb u t" for u t using Cons.prems(5) [of u t] by simp
  moreover have "op_ok op" "resolves own resolved (set (op_seqs op))" using Cons.prems(3,4) by (auto simp: resolves_def)
  ultimately obtain wb1 where w: "apply_operation (fst m) resolved op wb = Some wb1" "wb_ok wb1" "wb_balances wb1 = wb_balances wb"
      "\<And>t. wb_total t wb1 = wb_total t wb" "\<And>u t. wb_reserved wb u t = wb_reserved wb1 u t + op_hold own m u t op"
    using apply_operation_pays [OF Cons.prems(1,2) _ _ _ Cons.prems(6)] by metis
  have "\<exists>wb'. apply_operations (fst m) resolved ops wb1 = Some wb' \<and> wb_ok wb' \<and> wb_balances wb' = wb_balances wb1 \<and>
    (\<forall>t. wb_total t wb' = wb_total t wb1) \<and> (\<forall>u t. wb_reserved wb' u t = rest u t)"
  proof (rule Cons.IH [OF w(2)])
    show "wb_total t wb1 < 2 ^ 256" for t using Cons.prems(2) w(4) by simp
    show "list_all op_ok ops" "resolves own resolved (set (concat (map op_seqs ops)))"
      using Cons.prems(3,4) by (auto simp: resolves_def)
    show "wb_reserved wb1 u t = rest u t + ops_hold own m u t ops" for u t
      using Cons.prems(5) [of u t] w(5) [of u t] by simp
    show "wb_reserved wb1 u t \<noteq> 0 \<Longrightarrow> bt_contains (wb_balances wb1) (t, u)" for u t
      using Cons.prems(6) [of u t] w(3) w(5) [of u t] by simp
  qed
  then show ?case using w by auto
qed

text \<open>A whole batch on the stored balances.\<close>

lemma batch_pays:
  assumes "\<And>t. token_total t tb < 2 ^ 256" "list_all op_ok ops" "resolves own resolved (set (concat (map op_seqs ops)))"
    "\<And>u t. reserved_of (tb_balances tb) u t = rest u t + ops_hold own m u t ops"
  shows "\<exists>tb'. with_write_back (\<lambda>wb. do { wb' \<leftarrow> apply_operations (fst m) resolved ops wb; Some ((), wb') }) tb = Some ((), tb') \<and>
    (\<forall>t. token_total t tb' = token_total t tb) \<and> (\<forall>u t. reserved_of (tb_balances tb') u t = rest u t)"
proof -
  let ?wb = "write_back_new (tb_balances tb) (tb_fee_pool tb)"
  have res: "wb_reserved ?wb u t = reserved_of (tb_balances tb) u t" for u t by (simp add: wb_reserved_def reserved_of_def)
  have "wb_reserved ?wb u t \<noteq> 0 \<Longrightarrow> bt_contains (wb_balances ?wb) (t, u)" for u t
    unfolding res
    by (auto simp: reserved_of_def map_balance_def bt_contains_def write_back_new_def balance_zero_def split: option.splits)
  then obtain wb' where w: "apply_operations (fst m) resolved ops ?wb = Some wb'" "wb_ok wb'"
      "\<And>t. wb_total t wb' = wb_total t ?wb" "\<And>u t. wb_reserved wb' u t = rest u t"
    using apply_operations_pay [OF wb_ok_new _ assms(2,3), of "tb_balances tb" "tb_fee_pool tb" rest m] assms(1,4) res by auto
  let ?tb = "\<lparr>tb_balances = wb_flush wb', tb_fee_pool = wb_fee_pool wb'\<rparr>"
  have "with_write_back (\<lambda>wb. do { wb' \<leftarrow> apply_operations (fst m) resolved ops wb; Some ((), wb') }) tb = Some ((), ?tb)"
    using w(1) by (simp add: with_write_back_def)
  moreover have "token_total t ?tb = token_total t tb" for t using w(3) [of t] by (simp add: wb_total_def [of t wb'] token_total_def)
  moreover have "reserved_of (tb_balances ?tb) u t = rest u t" for u t
    using w(4) [of u t] map_balance_flush [OF w(2)] by (simp add: reserved_of_def wb_reserved_def)
  ultimately show ?thesis by blast
qed

end
