(* ===== verification/Exchange_Invariant.thy ===== *)
theory Exchange_Invariant
  imports Reservations
begin

text \<open>
  The invariant that ties books, order records, trade records, the settlement queue and balances
  together. With it no event of the canister can trap: what a settling event debits is reserved,
  what an update adds to a record fits, what a cancellation removes is in the book. \<open>K\<close> bounds the
  supply of every token; \<open>K < 2 ^ 192\<close> keeps the lifetime sums of an order, one fill after the
  other, within 256 bits.
\<close>

section \<open>The invariant\<close>

definition remaining_of :: "order_seq \<Rightarrow> stake_value" where
  "remaining_of q = (\<lambda>i s p n. if i = q then n else 0)"

definition record_fits :: "nat \<Rightarrow> order_book \<Rightarrow> order_seq \<Rightarrow> order_record \<Rightarrow> bool" where
  "record_fits K b q r \<longleftrightarrow>
     (\<forall>s p. (q, s, p) \<in> stake_terms b \<longrightarrow> s = or_side r \<and> p = or_price r) \<and>
     (q \<in> set (resting_ids b) \<longleftrightarrow> or_status r = Open) \<and>
     (q \<in> set (pending_order_seqs b) \<longleftrightarrow> or_status r = Pending) \<and>
     q2n (or_filled_quantity r) + stake_sum (remaining_of q) b \<le> q2n (or_quantity r) \<and>
     (or_status r \<noteq> Canceled \<and> or_status r \<noteq> Expired \<longrightarrow>
        q2n (or_filled_quantity r) + stake_sum (remaining_of q) b = q2n (or_quantity r)) \<and>
     q2n (or_filled_quote r) \<le> unat (bk_next_fill b) * K \<and> q2n (or_filled_fee r) \<le> unat (bk_next_fill b) * K"

definition records_ok :: "nat \<Rightarrow> trade_state \<Rightarrow> bool" where
  "records_ok K s \<longleftrightarrow> history_ok (st_orders s) \<and>
     (\<forall>i q r. history_get (st_orders s) (i, q) = Some r \<longrightarrow> order_owner s (i, q) \<noteq> None \<and>
        (\<exists>b. bt_get (st_books s) i = Some b \<and> q < bk_next_seq b \<and> record_fits K b q r)) \<and>
     (\<forall>i b q. bt_get (st_books s) i = Some b \<longrightarrow> q < bk_next_seq b \<longrightarrow> history_get (st_orders s) (i, q) \<noteq> None) \<and>
     bt.total (\<lambda>i b. unat (bk_next_seq b)) (st_books s) = length (hi_primary (st_orders s))"

definition event_seqs :: "settling_event \<Rightarrow> order_seq set" where
  "event_seqs ev = set (concat (map op_seqs (se_operations ev)))"

definition fill_event_ok :: "trade_state \<Rightarrow> settling_event \<Rightarrow> fill_event \<Rightarrow> bool" where
  "fill_event_ok s ev f \<longleftrightarrow> fe_taker f \<in> event_seqs ev \<and> fe_maker f \<in> event_seqs ev \<and> fe_taker f \<noteq> fe_maker f \<and>
     fee_rates_ok (fe_rates f) \<and>
     (\<exists>m r. market s (se_book_id ev) = Some m \<and> history_get (st_orders s) (se_book_id ev, fe_maker f) = Some r \<and>
        value_ok (snd m) (or_price r) (fe_quantity f))"

definition event_ok :: "trade_state \<Rightarrow> settling_event \<Rightarrow> bool" where
  "event_ok s ev \<longleftrightarrow> bt_get (st_books s) (se_book_id ev) \<noteq> None \<and> list_all op_ok (se_operations ev) \<and>
     (\<forall>q \<in> event_seqs ev. history_get (st_orders s) (se_book_id ev, q) \<noteq> None) \<and>
     (\<forall>f \<in> set (se_fills ev). fill_event_ok s ev f)"

definition fills_of :: "settling_event \<Rightarrow> (order_book_id \<times> fill_seq) list" where
  "fills_of ev = map (\<lambda>f. (se_book_id ev, fe_seq f)) (se_fills ev)"

definition queued_fills :: "trade_state \<Rightarrow> (order_book_id \<times> fill_seq) list" where
  "queued_fills s = concat (map fills_of (st_settling s))"

definition minted :: "trade_state \<Rightarrow> order_book_id \<Rightarrow> fill_seq \<Rightarrow> bool" where
  "minted s i n \<longleftrightarrow> (\<exists>b. bt_get (st_books s) i = Some b \<and> n < bk_next_fill b)"

definition settling_ok :: "trade_state \<Rightarrow> bool" where
  "settling_ok s \<longleftrightarrow> (\<forall>ev \<in> set (st_settling s). event_ok s ev) \<and> distinct (queued_fills s) \<and>
     (\<forall>(i, n) \<in> set (queued_fills s). minted s i n)"

definition trades_ok :: "trade_state \<Rightarrow> bool" where
  "trades_ok s \<longleftrightarrow> history_ok (st_trades s) \<and>
     (\<forall>i q n. history_get (st_trades s) ((i, q), n) \<noteq> None \<longrightarrow> (i, n) \<notin> set (queued_fills s) \<and> minted s i n) \<and>
     length (hi_primary (st_trades s)) + 2 * length (queued_fills s) \<le>
       2 * bt.total (\<lambda>i b. unat (bk_next_fill b)) (st_books s)"

definition exchange_ok :: "nat \<Rightarrow> trade_state \<Rightarrow> bool" where
  "exchange_ok K s \<longleftrightarrow> (\<forall>t. token_total t (st_balances s) \<le> K) \<and> backed s \<and> records_ok K s \<and> settling_ok s \<and> trades_ok s"

lemma exchange_okD:
  assumes "exchange_ok K s"
  shows "token_total t (st_balances s) \<le> K" "backed s" "records_ok K s" "settling_ok s" "trades_ok s"
  using assms by (simp_all add: exchange_ok_def)

lemma records_okD:
  assumes "records_ok K s" "history_get (st_orders s) (i, q) = Some r"
  obtains b u where "order_owner s (i, q) = Some u" "bt_get (st_books s) i = Some b" "q < bk_next_seq b" "record_fits K b q r"
  using assms unfolding records_ok_def by blast

section \<open>Settling\<close>

lemma resolve_seqs_ok:
  assumes "\<forall>q \<in> set qs. order_owner s (i, q) \<noteq> None"
  shows "\<exists>resolved. resolve_seqs i (st_orders s) (st_registry s) qs = Some resolved \<and>
    (\<forall>q \<in> set qs. \<exists>r rv. history_get (st_orders s) (i, q) = Some r \<and> bt_get resolved q = Some rv \<and>
       order_owner s (i, q) = Some (rv_user rv) \<and> rv_side rv = or_side r \<and> rv_price rv = or_price r)"
  using assms
proof (induction qs)
  case (Cons q qs)
  then obtain resolved where IH: "resolve_seqs i (st_orders s) (st_registry s) qs = Some resolved"
      "\<forall>q \<in> set qs. \<exists>r rv. history_get (st_orders s) (i, q) = Some r \<and> bt_get resolved q = Some rv \<and>
       order_owner s (i, q) = Some (rv_user rv) \<and> rv_side rv = or_side r \<and> rv_price rv = or_price r" by auto
  obtain r u where r: "history_get (st_orders s) (i, q) = Some r" "lookup_funding_id (st_registry s) (or_owner r) = Some u"
    using Cons.prems by (auto simp: order_owner_def trap_simps)
  then show ?case using IH by (auto simp: resolve_order_def order_owner_def)
qed simp

definition leg_ok :: "u64 \<Rightarrow> (order_seq, resolved_order) btree_map \<Rightarrow> fill_event \<Rightarrow> bool" where
  "leg_ok scale resolved f \<longleftrightarrow> bt_get resolved (fe_taker f) \<noteq> None \<and> fe_taker f \<noteq> fe_maker f \<and> fee_rates_ok (fe_rates f) \<and>
     (\<exists>rv. bt_get resolved (fe_maker f) = Some rv \<and> value_ok scale (rv_price rv) (fe_quantity f))"

lemma trade_legs_ok:
  assumes "fee_rates_ok (fe_rates f)" "value_ok scale p (fe_quantity f)"
  shows "\<exists>t m. trade_legs f i sd p scale now = Some ((((i, fe_taker f), fe_seq f), t), (((i, fe_maker f), fe_seq f), m))"
proof -
  let ?fl = "\<lparr>fl_seq = 0, fl_taker = 0, fl_taker_side = sd, fl_taker_price = 0, fl_maker = 0, fl_maker_price = p, fl_quantity = fe_quantity f\<rparr>"
  show ?thesis using fees_eq [of "fe_rates f" scale ?fl] assms by (simp add: trade_legs_def Let_def)
qed

lemma append_fills_ok:
  assumes "history_ok h" "list_all (leg_ok scale resolved) fs" "distinct (map fe_seq fs)"
    "\<And>f q. f \<in> set fs \<Longrightarrow> history_get h ((i, q), fe_seq f) = None" "length (hi_primary h) + 2 * length fs < 2 ^ 64"
  shows "\<exists>h'. append_fills i scale now resolved fs h = Some h' \<and> history_ok h' \<and>
    length (hi_primary h') = length (hi_primary h) + 2 * length fs \<and>
    (\<forall>k. history_get h' k \<noteq> None \<longrightarrow> history_get h k \<noteq> None \<or> fst (fst k) = i \<and> snd k \<in> set (map fe_seq fs))"
  using assms
proof (induction fs arbitrary: h)
  case (Cons f fs)
  obtain tk mk where rv: "bt_get resolved (fe_taker f) = Some tk" "bt_get resolved (fe_maker f) = Some mk"
      "value_ok scale (rv_price mk) (fe_quantity f)" "fee_rates_ok (fe_rates f)" "fe_taker f \<noteq> fe_maker f"
    using Cons.prems(2) by (auto simp: leg_ok_def)
  obtain t m where legs: "trade_legs f i (rv_side tk) (rv_price mk) scale now =
      Some ((((i, fe_taker f), fe_seq f), t), (((i, fe_maker f), fe_seq f), m))"
    using trade_legs_ok [OF rv(4,3)] by blast
  have none: "bt_get (hi_primary h) ((i, q), fe_seq f) = None" for q
    using Cons.prems(4) [of f q] by (simp add: history_get_def)
  have len: "length (hi_primary h) < 2 ^ 64 - 1" using Cons.prems(5) by simp
  obtain h1 where h1: "insert_once (rv_user tk) ((i, fe_taker f), fe_seq f) t h = Some h1" "history_ok h1"
      "history_get h1 = (history_get h)(((i, fe_taker f), fe_seq f) \<mapsto> t)" "length (hi_primary h1) = Suc (length (hi_primary h))"
    using insert_once_ok [OF Cons.prems(1) none len] by blast
  have "history_get h1 ((i, fe_maker f), fe_seq f) = None" using h1(3) rv(5) none by (simp add: history_get_def)
  then have none1: "bt_get (hi_primary h1) ((i, fe_maker f), fe_seq f) = None" by (simp add: history_get_def)
  have len1: "length (hi_primary h1) < 2 ^ 64 - 1" using Cons.prems(5) h1(4) by simp
  obtain h2 where h2: "insert_once (rv_user mk) ((i, fe_maker f), fe_seq f) m h1 = Some h2" "history_ok h2"
      "history_get h2 = (history_get h1)(((i, fe_maker f), fe_seq f) \<mapsto> m)" "length (hi_primary h2) = Suc (length (hi_primary h1))"
    using insert_once_ok [OF h1(2) none1 len1] by blast
  have keys: "history_get h2 k \<noteq> None \<longleftrightarrow> history_get h k \<noteq> None \<or> k \<in> {((i, fe_taker f), fe_seq f), ((i, fe_maker f), fe_seq f)}" for k
    by (auto simp: h2(3) h1(3))
  have "\<exists>h'. append_fills i scale now resolved fs h2 = Some h' \<and> history_ok h' \<and>
    length (hi_primary h') = length (hi_primary h2) + 2 * length fs \<and>
    (\<forall>k. history_get h' k \<noteq> None \<longrightarrow> history_get h2 k \<noteq> None \<or> fst (fst k) = i \<and> snd k \<in> set (map fe_seq fs))"
  proof (rule Cons.IH [OF h2(2)])
    show "list_all (leg_ok scale resolved) fs" "distinct (map fe_seq fs)" using Cons.prems(2,3) by auto
    show "length (hi_primary h2) + 2 * length fs < 2 ^ 64" using Cons.prems(5) h1(4) h2(4) by simp
    fix f' q assume f': "f' \<in> set fs"
    then have "fe_seq f' \<noteq> fe_seq f" using Cons.prems(3) by (auto simp: image_iff)
    then show "history_get h2 ((i, q), fe_seq f') = None" using keys [of "((i, q), fe_seq f')"] Cons.prems(4) [of f' q] f' by simp
  qed
  then obtain h' where h': "append_fills i scale now resolved fs h2 = Some h'" "history_ok h'"
    "length (hi_primary h') = length (hi_primary h2) + 2 * length fs"
    "\<forall>k. history_get h' k \<noteq> None \<longrightarrow> history_get h2 k \<noteq> None \<or> fst (fst k) = i \<and> snd k \<in> set (map fe_seq fs)" by blast
  have "history_get h k \<noteq> None \<or> fst (fst k) = i \<and> snd k \<in> set (map fe_seq (f # fs))" if "history_get h' k \<noteq> None" for k
    using spec [OF h'(4), of k] keys [of k] that by auto
  moreover have "append_fills i scale now resolved (f # fs) h = Some h'"
    using rv(1,2) legs h1(1) h2(1) h'(1) by (simp add: trades_append_def)
  moreover have "length (hi_primary h') = length (hi_primary h) + 2 * length (f # fs)" using h1(4) h2(4) h'(3) by simp
  ultimately show ?case using h'(2) by blast
qed simp

lemma backed_frame:
  assumes "market s' = market s" "order_owner s' = order_owner s"
  shows "book_hold s' = book_hold s" "event_hold s' = event_hold s"
  unfolding book_hold_def [abs_def] event_hold_def [abs_def] assms by (rule refl)+

lemma fills_load:
  assumes "heap_ok s" "records_ok K s"
  shows "bt.total (\<lambda>i b. unat (bk_next_fill b)) (st_books s) \<le> length (hi_primary (st_orders s))"
proof -
  have "unat (bk_next_fill b) \<le> unat (bk_next_seq b)" if b: "bt_get (st_books s) i = Some b" for i b
  proof -
    obtain scale where "book_fit scale b" using heap_okD [OF assms(1) b] by metis
    then show ?thesis by (simp add: book_fit_def fill_load_def)
  qed
  then have "bt.total (\<lambda>i b. unat (bk_next_fill b)) (st_books s) \<le> bt.total (\<lambda>i b. unat (bk_next_seq b)) (st_books s)"
    by (rule bt.total_mono)
  then show ?thesis using assms(2) by (simp add: records_ok_def)
qed

lemma settle_resolves:
  assumes "records_ok K s" "event_ok s ev" "market s (se_book_id ev) = Some m"
  obtains resolved where "resolve_op_orders (se_book_id ev) (se_operations ev) (st_orders s) (st_registry s) = Some resolved"
    "resolves (\<lambda>q. order_owner s (se_book_id ev, q)) resolved (event_seqs ev)" "list_all (leg_ok (snd m) resolved) (se_fills ev)"
proof -
  have "\<forall>q \<in> set (sorted_list_of_set (event_seqs ev)). order_owner s (se_book_id ev, q) \<noteq> None"
  proof
    fix q assume "q \<in> set (sorted_list_of_set (event_seqs ev))"
    then have "history_get (st_orders s) (se_book_id ev, q) \<noteq> None" using assms(2) by (auto simp: event_ok_def event_seqs_def)
    then show "order_owner s (se_book_id ev, q) \<noteq> None" using assms(1) unfolding records_ok_def by blast
  qed
  then obtain resolved where r: "resolve_seqs (se_book_id ev) (st_orders s) (st_registry s) (sorted_list_of_set (event_seqs ev)) = Some resolved"
      "\<forall>q \<in> event_seqs ev. \<exists>r rv. history_get (st_orders s) (se_book_id ev, q) = Some r \<and> bt_get resolved q = Some rv \<and>
       order_owner s (se_book_id ev, q) = Some (rv_user rv) \<and> rv_side rv = or_side r \<and> rv_price rv = or_price r"
    using resolve_seqs_ok [of "sorted_list_of_set (event_seqs ev)" s "se_book_id ev"] by (auto simp: event_seqs_def)
  have "leg_ok (snd m) resolved f" if "f \<in> set (se_fills ev)" for f
  proof -
    have f: "fill_event_ok s ev f" using assms(2) that by (simp add: event_ok_def)
    then obtain rt where "bt_get resolved (fe_taker f) = Some rt" using r(2) unfolding fill_event_ok_def by blast
    moreover obtain r' rv where "history_get (st_orders s) (se_book_id ev, fe_maker f) = Some r'" "bt_get resolved (fe_maker f) = Some rv"
        "rv_price rv = or_price r'"
      using f r(2) unfolding fill_event_ok_def by blast
    ultimately show ?thesis using f assms(3) by (auto simp: leg_ok_def fill_event_ok_def)
  qed
  then show ?thesis
    using r that by (fastforce simp: resolve_op_orders_def event_seqs_def resolves_def list_all_iff)
qed

text \<open>Writing the trades of a queued event moves its fills from the queue to the trade history.\<close>

lemma trades_ok_settle:
  assumes "trades_ok s" "settling_ok s" and q: "st_settling s = xs @ ev # ys"
    and tr: "history_ok trades" "length (hi_primary trades) = length (hi_primary (st_trades s)) + 2 * length (se_fills ev)"
      "\<forall>k. history_get trades k \<noteq> None \<longrightarrow> history_get (st_trades s) k \<noteq> None \<or>
         fst (fst k) = se_book_id ev \<and> snd k \<in> set (map fe_seq (se_fills ev))"
  shows "trades_ok (s\<lparr>st_settling := xs @ ys, st_trades := trades, st_balances := tb\<rparr>)"
proof -
  let ?s = "s\<lparr>st_settling := xs @ ys, st_trades := trades, st_balances := tb\<rparr>"
  have qf: "queued_fills s = concat (map fills_of xs) @ fills_of ev @ concat (map fills_of ys)"
      "queued_fills ?s = concat (map fills_of xs) @ concat (map fills_of ys)"
    by (simp_all add: queued_fills_def q)
  have fr: "minted ?s = minted s" by (auto simp: fun_eq_iff minted_def)
  have "(j, n) \<notin> set (queued_fills ?s) \<and> minted s j n" if new: "history_get trades ((j, q), n) \<noteq> None" for j q n
  proof -
    consider "history_get (st_trades s) ((j, q), n) \<noteq> None" | "(j, n) \<in> set (fills_of ev)"
      using tr(3) [rule_format, OF new] by (auto simp: fills_of_def)
    then show ?thesis
    proof cases
      case 1
      then have "(j, n) \<notin> set (queued_fills s) \<and> minted s j n" using assms(1) unfolding trades_ok_def by blast
      then show ?thesis by (simp add: qf)
    next
      case 2
      then have "minted s j n" using assms(2) by (auto simp: settling_ok_def qf(1))
      moreover have "distinct (queued_fills s)" using assms(2) by (simp add: settling_ok_def)
      ultimately show ?thesis using 2 unfolding qf by auto
    qed
  qed
  moreover have "length (hi_primary trades) + 2 * length (queued_fills ?s) \<le> 2 * bt.total (\<lambda>i b. unat (bk_next_fill b)) (st_books s)"
    using assms(1) by (simp add: trades_ok_def tr(2) qf fills_of_def)
  ultimately show ?thesis using tr(1) unfolding trades_ok_def fr by auto
qed

lemma exchange_settling:
  assumes heap: "heap_ok s" and ex: "exchange_ok K s" and K: "K < 2 ^ 192" and orders: "length (hi_primary (st_orders s)) < 2 ^ 62"
    and q: "st_settling s = xs @ ev # ys"
  shows "\<exists>trades balances. record_settling_event ev now Write (s\<lparr>st_settling := xs @ ys\<rparr>) =
      Some (s\<lparr>st_settling := xs @ ys, st_trades := trades, st_balances := balances\<rparr>) \<and>
    exchange_ok K (s\<lparr>st_settling := xs @ ys, st_trades := trades, st_balances := balances\<rparr>)"
proof -
  let ?i = "se_book_id ev" and ?own = "\<lambda>q. order_owner s (se_book_id ev, q)" and ?start = "s\<lparr>st_settling := xs @ ys\<rparr>"
  note x = exchange_okD [OF ex]
  have ev: "event_ok s ev" using x(4) q by (simp add: settling_ok_def)
  then obtain b where b: "bt_get (st_books s) ?i = Some b" by (auto simp: event_ok_def)
  obtain pair scale where l: "listed s ?i pair scale" using heap_okD [OF heap b] .
  note m = listed_market [OF l]
  obtain resolved where r: "resolve_op_orders ?i (se_operations ev) (st_orders s) (st_registry s) = Some resolved"
      "resolves ?own resolved (event_seqs ev)" "list_all (leg_ok scale resolved) (se_fills ev)"
    using settle_resolves [OF x(3) ev m] by auto
  have qf: "queued_fills s = concat (map fills_of xs) @ fills_of ev @ concat (map fills_of ys)" by (simp add: queued_fills_def q)
  have fills: "length (hi_primary (st_trades s)) + 2 * length (se_fills ev) < 2 ^ 64"
    using x(5) fills_load [OF heap x(3)] orders by (simp add: trades_ok_def qf fills_of_def)
  have "distinct (map fe_seq (se_fills ev))"
    using x(4) unfolding settling_ok_def qf by (simp add: fills_of_def distinct_map inj_on_def)
  moreover have "history_get (st_trades s) ((?i, q'), fe_seq f) = None" if "f \<in> set (se_fills ev)" for f q'
    using x(5) that unfolding trades_ok_def qf by (force simp: fills_of_def)
  ultimately obtain trades where tr: "append_fills ?i scale now resolved (se_fills ev) (st_trades s) = Some trades" "history_ok trades"
      "length (hi_primary trades) = length (hi_primary (st_trades s)) + 2 * length (se_fills ev)"
      "\<forall>k. history_get trades k \<noteq> None \<longrightarrow> history_get (st_trades s) k \<noteq> None \<or> fst (fst k) = ?i \<and> snd k \<in> set (map fe_seq (se_fills ev))"
    using append_fills_ok [OF _ r(3) _ _ fills, of ?i now] x(5) unfolding trades_ok_def by blast
  let ?rest = "\<lambda>u t. bt.total (book_hold s u t) (st_books s) + (\<Sum>ev\<leftarrow>xs @ ys. event_hold s u t ev)"
  have lt: "token_total t (st_balances s) < 2 ^ 256" for t using x(1) [of t] K by simp
  have ops: "list_all op_ok (se_operations ev)" using ev by (simp add: event_ok_def)
  have res: "reserved_of (tb_balances (st_balances s)) u t = ?rest u t + ops_hold ?own (pair, scale) u t (se_operations ev)" for u t
    using x(2) by (simp add: backed_def locked_def q event_hold_def m)
  obtain tb where tb: "with_write_back (\<lambda>wb. do { wb' \<leftarrow> apply_operations pair resolved (se_operations ev) wb; Some ((), wb') })
        (st_balances s) = Some ((), tb)" "\<And>t. token_total t tb = token_total t (st_balances s)"
      "\<And>u t. reserved_of (tb_balances tb) u t = ?rest u t"
    using batch_pays [OF lt ops r(2) [unfolded event_seqs_def] res] by auto
  let ?s = "s\<lparr>st_settling := xs @ ys, st_trades := trades, st_balances := tb\<rparr>"
  have fr: "market ?s = market s" "order_owner ?s = order_owner s" "fill_event_ok ?s = fill_event_ok s" "minted ?s = minted s"
    by (auto simp: fun_eq_iff market_def order_owner_def base_scale_def fill_event_ok_def minted_def)
  have "queued_fills ?s = concat (map fills_of xs) @ concat (map fills_of ys)" by (simp add: queued_fills_def)
  note qf' = this
  have "backed ?s" using tb(3) by (simp add: backed_def locked_def backed_frame [OF fr(1,2)])
  moreover have "records_ok K ?s" using x(3) by (simp add: records_ok_def fr)
  moreover have "settling_ok ?s"
    using x(4) unfolding settling_ok_def qf qf' by (auto simp: event_ok_def fr q)
  moreover have "trades_ok ?s" by (rule trades_ok_settle [OF x(5,4) q tr(2-4)])
  ultimately have "exchange_ok K ?s" using x(1) tb(2) by (simp add: exchange_ok_def)
  moreover have "record_settling_event ev now Write ?start = Some ?s"
    using l listed_scale [OF l] r(1) tr(1) tb(1)
    by (simp add: record_settling_event_def listed_def base_scale_for_book_def base_scale_def)
  ultimately show ?thesis by blast
qed

end
