(* ===== verification/Exchange_Matching.thy ===== *)
theory Exchange_Matching
  imports Exchange_Invariant
begin

text \<open>A matching event keeps the exchange invariant and does not trap: the reservations of the
  filled and expired orders move to the settlement queue, the records follow the book, and all
  sums fit.\<close>

section \<open>A round, once more\<close>

definition removed_from :: "order \<Rightarrow> order_seq \<times> removed_order" where
  "removed_from ord = (ord_id ord, \<lparr>rm_side = ord_side ord, rm_price = ord_price ord, rm_remaining = ord_remaining ord\<rparr>)"

lemma process_loop_expired:
  assumes "book_ok b" "pending_order_seqs b = expected @ later" "fill_load b + length expected < 2 ^ 64"
    "process_loop expected (b, acc) = Some (b', acc')"
  shows "set (ma_expired acc') \<subseteq> set (ma_expired acc) \<union> removed_from ` set (bk_pending_orders b)"
  using assms
proof (induction expected arbitrary: b acc)
  case (Cons i expected)
  obtain ord rest where p: "bk_pending_orders b = ord # rest" "ord_id ord = i" "map ord_id rest = expected @ later"
    using Cons.prems(2) by (auto simp: pending_order_seqs_def map_eq_Cons_conv)
  let ?b = "b\<lparr>bk_pending_orders := rest\<rparr>"
  have ok: "book_ok ?b" "taker_ok ord ?b" using pop_pending_ok [OF Cons.prems(1) p(1)] .
  have load: "fill_load ?b = fill_load b" by (simp add: fill_load_def resting_ids_def side_list_def)
  then have l: "fill_load ?b < 2 ^ 64" using Cons.prems(3) by simp
  obtain result b1 where m: "match_order ord ?b = Some (Inr result, b1)" "book_ok b1" "bk_pending_orders b1 = rest"
      "fill_load b1 \<le> fill_load ?b + 1" "match_effect ord ?b result b1"
    using match_order_step [OF ok l] by auto
  let ?acc = "record_match_result result acc"
  have "set (ma_expired ?acc) \<subseteq> set (ma_expired acc) \<union> {removed_from ord}"
    using m(5) set_bt_insert_subset [of "ord_id ord" _ "ma_expired acc"]
    by (auto simp: record_match_result_def match_effect_def removed_from_def split: match_result.splits)
  moreover have "set (ma_expired acc') \<subseteq> set (ma_expired ?acc) \<union> removed_from ` set (bk_pending_orders b1)"
  proof (rule Cons.IH [OF m(2)])
    show "pending_order_seqs b1 = expected @ later" using p(3) m(3) by (simp add: pending_order_seqs_def)
    show "fill_load b1 + length expected < 2 ^ 64" using m(4) Cons.prems(3) load by simp
    show "process_loop expected (b1, ?acc) = Some (b', acc')" using Cons.prems(4) p(1,2) m(1) by simp
  qed
  ultimately show ?case using m(3) p(1) by auto
qed simp

lemma stake_terms_valid:
  assumes "book_ok b" "(i, s, p) \<in> stake_terms b"
  shows "p \<noteq> 0 \<and> unat (bk_tick_size b) dvd unat p \<and> (i \<in> set (resting_ids b) \<or> i \<in> set (pending_order_seqs b)) \<and> i < bk_next_seq b"
proof -
  have lt: "\<forall>i \<in> set (resting_ids b) \<union> set (pending_order_seqs b). i < bk_next_seq b"
    using assms(1) unfolding book_ok_def pending_ok_def by blast
  consider r where "(p, r) \<in> set (side_list s b)" "i = ro_id r"
    | ord where "ord \<in> set (bk_pending_orders b)" "i = ord_id ord" "s = ord_side ord" "p = ord_price ord"
    using assms(2) by (auto simp: stake_terms_def)
  then show ?thesis
  proof cases
    case (1 r)
    then have "i \<in> set (resting_ids b)" using resting_ids_side [of s b] by (force simp: makers_ids_def)
    moreover have "side_ok b s" using assms(1) by (cases s) (simp_all add: book_ok_def)
    ultimately show ?thesis using 1 lt by (auto simp: side_ok_def list_all_iff valid_amounts_def)
  next
    case (2 ord)
    then have "i \<in> set (pending_order_seqs b)" by (simp add: pending_order_seqs_def)
    then show ?thesis using 2 assms(1) lt by (auto simp: book_ok_def pending_ok_def list_all_iff valid_amounts_def)
  qed
qed

definition round_of :: "u64 \<Rightarrow> order_book \<Rightarrow> order_seq list \<Rightarrow> matching_output \<Rightarrow> order_book \<Rightarrow> bool" where
  "round_of scale b expected out b' \<longleftrightarrow>
     book_fit scale b' \<and> book_config b' = book_config b \<and> bk_next_seq b' = bk_next_seq b \<and>
     list_all (fill_ok scale) (mo_fills out) \<and> list_all (\<lambda>(_, r). removed_ok scale r) (mo_expired out) \<and>
     (\<forall>f. additive (unat (bk_tick_size b)) (unat (bk_lot_size b)) f \<longrightarrow>
        stake_sum f b = stake_sum f b' + (\<Sum>fl\<leftarrow>mo_fills out. fill_stake f fl) + expired_stakes f (mo_expired out)) \<and>
     map (\<lambda>fl. unat (fl_seq fl)) (mo_fills out) = [unat (bk_next_fill b)..<unat (bk_next_fill b')] \<and>
     unat (bk_next_fill b) \<le> unat (bk_next_fill b') \<and> stake_terms b' \<subseteq> stake_terms b \<and>
     (\<forall>fl \<in> set (mo_fills out). q2n (fl_quantity fl) \<noteq> 0 \<and>
        (fl_maker fl, opposite (fl_taker_side fl), fl_maker_price fl) \<in> stake_terms b \<and>
        (fl_taker fl, fl_taker_side fl, fl_taker_price fl) \<in> stake_terms b) \<and>
     set (mo_expired out) \<subseteq> removed_from ` set (bk_pending_orders b) \<and>
     set (resting_ids b') \<inter> mo_filled out = {} \<and>
     set (resting_ids b') \<union> mo_filled out = set (resting_ids b) \<union> (set expected - set (bt_keys (mo_expired out))) \<and>
     mo_resting out = set (resting_ids b') \<inter> set expected \<and> set (bt_keys (mo_expired out)) \<subseteq> set expected"

lemma matching_round:
  assumes fit: "book_fit scale b" and seqs: "pending_order_seqs b = expected @ later"
  shows "\<exists>out b'. process_pending_orders expected b = Some (out, b') \<and> round_of scale b expected out b' \<and> pending_order_seqs b' = later"
proof -
  have b: "book_ok b" "bk_filled_orders b = {}" "fill_load b + length (bk_pending_orders b) \<le> unat (bk_next_seq b)"
    using fit by (simp_all add: book_fit_def)
  have "length expected + length later = length (bk_pending_orders b)"
    using arg_cong [OF seqs, of length] by (simp add: pending_order_seqs_def)
  then have load: "fill_load b + length expected < 2 ^ 64" using b(3) unat_u64_bound [of "bk_next_seq b"] by simp
  obtain out b' where p: "process_pending_orders expected b = Some (out, b')" "book_ok b'" "pending_order_seqs b' = later"
      "set (resting_ids b') \<inter> mo_filled out = {}"
      "set (resting_ids b') \<union> mo_filled out = set (resting_ids b) \<union> (set expected - set (bt_keys (mo_expired out)))"
      "mo_resting out = set (resting_ids b') \<inter> set expected" "set (bt_keys (mo_expired out)) \<subseteq> set expected"
    using process_pending_orders_ok [OF b(1) seqs load b(2)] by blast
  have fit': "book_fit scale b'" "book_config b' = book_config b" "bk_next_seq b' = bk_next_seq b"
      "list_all (fill_ok scale) (mo_fills out)" "list_all (\<lambda>(_, r). removed_ok scale r) (mo_expired out)"
    using book_fit_process [OF fit seqs] p(1) by auto
  note acct = process_pending_orders_stakes [OF b(1) seqs load _ p(1)]
  let ?f = "\<lambda>i s p n. if (i, s, p) \<in> stake_terms b then 0 else n :: nat"
  have add: "additive (unat (bk_tick_size b)) (unat (bk_lot_size b)) ?f" by (simp add: additive_def)
  have "stake_sum ?f b = 0" by (subst stake_sum_0 [OF b(1), of _ "stake_terms b"]) auto
  then have "stake_sum ?f b' = 0" using acct(1) [OF add] by simp
  then have terms: "stake_terms b' \<subseteq> stake_terms b" by (subst (asm) stake_sum_0 [OF p(2), of _ "stake_terms b"]) auto
  obtain b1 acc where l: "process_loop expected (b, \<lparr>ma_fills = [], ma_resting = {}, ma_expired = []\<rparr>) = Some (b1, acc)"
      "mo_expired out = ma_expired acc"
    using p(1) by (auto simp: process_pending_orders_def Let_def trap_simps)
  have "set (mo_expired out) \<subseteq> removed_from ` set (bk_pending_orders b)"
    using process_loop_expired [OF b(1) seqs load l(1)] l(2) by simp
  moreover have "q2n (fl_quantity fl) \<noteq> 0" if "fl \<in> set (mo_fills out)" for fl
    using acct(2) [OF add] that by (auto simp: list_all_iff fill_fits_def)
  ultimately show ?thesis
    using p fit' acct(1) acct(3,4) [OF add] terms process_pending_orders_terms [OF b(1) seqs load p(1,2)]
    unfolding round_of_def by blast
qed

section \<open>Updates of records\<close>

definition updates_to :: "order_update \<Rightarrow> order_record \<Rightarrow> order_record \<Rightarrow> bool" where
  "updates_to u r r' \<longleftrightarrow> or_owner r' = or_owner r \<and> or_side r' = or_side r \<and> or_price r' = or_price r \<and>
     or_quantity r' = or_quantity r \<and> or_status r' = (case ou_status u of None \<Rightarrow> or_status r | Some x \<Rightarrow> x) \<and>
     q2n (or_filled_quantity r') = q2n (or_filled_quantity r) + q2n (ou_filled_delta u) \<and>
     q2n (or_filled_quote r') = q2n (or_filled_quote r) + q2n (ou_quote_delta u) \<and>
     q2n (or_filled_fee r') = q2n (or_filled_fee r) + q2n (ou_fee_delta u)"

definition update_fits :: "order_update \<Rightarrow> order_record \<Rightarrow> bool" where
  "update_fits u r \<longleftrightarrow> q2n (or_filled_quantity r) + q2n (ou_filled_delta u) \<le> q2n (or_quantity r) \<and>
     q2n (or_filled_quote r) + q2n (ou_quote_delta u) < 2 ^ 256 \<and> q2n (or_filled_fee r) + q2n (ou_fee_delta u) < 2 ^ 256"

lemma updates_to_default [simp]: "updates_to order_update_default r r"
  by (simp add: updates_to_def order_update_default_def)

lemma apply_update_fits:
  assumes "history_ok h" "history_get h i = Some r" "update_fits u r"
  shows "\<exists>h' r'. apply_update i u now h = Some h' \<and> history_ok h' \<and> history_get h' = (history_get h)(i \<mapsto> r') \<and>
    updates_to u r r' \<and> length (hi_primary h') = length (hi_primary h)"
proof -
  obtain n where n: "bt_get (hi_primary h) i = Some (n, r)" using assms(2) by (auto simp: history_get_def)
  have q: "q2n (or_filled_quantity r) + q2n (ou_filled_delta u) < 2 ^ 256"
    using assms(3) q2n_bound [of "or_quantity r"] unfolding update_fits_def by (meson le_less_trans)
  obtain r1 changed where r1: "update_apply u r = Some (r1, changed)" "updates_to u r r1"
    using assms(3) q by (auto simp: update_apply_eq update_fits_def updates_to_def)
  let ?r = "if changed then r1\<lparr>or_last_updated_at := Some now\<rparr> else r1"
  have "updates_to u r ?r" using r1(2) by (simp add: updates_to_def)
  moreover have "\<not> changed \<Longrightarrow> ?r = r" using r1(1) update_apply_unchanged by simp
  ultimately show ?thesis
    using modify_ok [OF assms(1) n, of "\<lambda>rec. do { (rec', changed) \<leftarrow> update_apply u rec;
        Some (if changed then rec'\<lparr>or_last_updated_at := Some now\<rparr> else rec', changed) }" ?r changed] r1(1)
    unfolding apply_update_def by fastforce
qed

lemma apply_updates_fit:
  assumes "history_ok h" "bt_ok us" "\<forall>(q, u) \<in> set us. \<exists>r. history_get h (i, q) = Some r \<and> update_fits u r"
  shows "\<exists>h'. apply_updates i us now h = Some h' \<and> history_ok h' \<and> length (hi_primary h') = length (hi_primary h) \<and>
    (\<forall>j q. j \<noteq> i \<longrightarrow> history_get h' (j, q) = history_get h (j, q)) \<and>
    (\<forall>q. history_get h (i, q) = None \<longrightarrow> history_get h' (i, q) = None) \<and>
    (\<forall>q r. history_get h (i, q) = Some r \<longrightarrow> (\<exists>r'. history_get h' (i, q) = Some r' \<and> updates_to (update_of us q) r r'))"
  using assms
proof (induction us arbitrary: h)
  case Nil
  then show ?case by (auto simp: update_of_def)
next
  case (Cons e us)
  obtain q u where e: "e = (q, u)" by (cases e)
  obtain r where r: "history_get h (i, q) = Some r" "update_fits u r" using Cons.prems(3) by (auto simp: e)
  obtain h1 r1 where h1: "apply_update (i, q) u now h = Some h1" "history_ok h1" "history_get h1 = (history_get h)((i, q) \<mapsto> r1)"
      "updates_to u r r1" "length (hi_primary h1) = length (hi_primary h)"
    using apply_update_fits [OF Cons.prems(1) r] by blast
  have fresh: "\<forall>(q', u') \<in> set us. q' \<noteq> q" and us: "bt_ok us" using Cons.prems(2) by (auto simp: e bt_ok_Cons bt_keys_def)
  have "bt_get us q = None" using fresh by (auto simp: bt_get_None bt_keys_def)
  then have upd: "update_of us q = order_update_default" "update_of (e # us) q = u"
      "q' \<noteq> q \<Longrightarrow> update_of (e # us) q' = update_of us q'" for q'
    by (simp_all add: update_of_def e)
  have "\<forall>(q', u') \<in> set us. \<exists>r. history_get h1 (i, q') = Some r \<and> update_fits u' r"
    using Cons.prems(3) fresh by (fastforce simp: h1(3))
  from Cons.IH [OF h1(2) us this] obtain h' where h': "apply_updates i us now h1 = Some h'" "history_ok h'"
      "length (hi_primary h') = length (hi_primary h1)" "\<forall>j q. j \<noteq> i \<longrightarrow> history_get h' (j, q) = history_get h1 (j, q)"
      "\<forall>q. history_get h1 (i, q) = None \<longrightarrow> history_get h' (i, q) = None"
      "\<forall>q r. history_get h1 (i, q) = Some r \<longrightarrow> (\<exists>r'. history_get h' (i, q) = Some r' \<and> updates_to (update_of us q) r r')"
    by blast
  have "\<exists>r'. history_get h' (i, q') = Some r' \<and> updates_to (update_of (e # us) q') r0 r'" if "history_get h (i, q') = Some r0" for q' r0
  proof (cases "q' = q")
    case True
    obtain r' where r': "history_get h' (i, q) = Some r'" "updates_to order_update_default r1 r'" using h'(6) [rule_format, of q r1] upd(1) h1(3) by auto
    have "updates_to u r r'" using r'(2) h1(4) by (simp add: updates_to_def order_update_default_def)
    then show ?thesis using True r'(1) upd(2) r(1) that by auto
  next
    case False
    then show ?thesis using h'(6) that upd(3) by (simp add: h1(3))
  qed
  moreover have "history_get h' (i, q') = None" if "history_get h (i, q') = None" for q'
  proof -
    have "q' \<noteq> q" using that r(1) by auto
    then show ?thesis using h'(5) that by (simp add: h1(3))
  qed
  ultimately show ?case using h1 h' e by auto
qed

section \<open>The keys of the updates\<close>

lemma settle_fills_keys:
  "settle_fills rates scale fs us = Some (us', units) \<Longrightarrow>
   set (bt_keys us') \<subseteq> set (bt_keys us) \<union> fl_maker ` set fs \<union> fl_taker ` set fs"
proof (induction fs arbitrary: us units)
  case (Cons f fs)
  obtain st us1 units' where s: "fill_settlement_new f rates scale = Some st" "accrue_fill st us = Some us1"
      "settle_fills rates scale fs us1 = Some (us', units')"
    using Cons.prems by (auto simp: trap_simps)
  have "fs_fill st = f" using s(1) by (auto simp: fill_settlement_new_def trap_simps)
  then have "set (bt_keys us1) \<subseteq> set (bt_keys us) \<union> {fl_maker f, fl_taker f}"
    using s(2) by (auto simp: accrue_fill_def accrue_order_def Let_def trap_simps)
  then show ?case using Cons.IH [OF s(3)] by auto
qed simp

lemma fold_overlay_keys: "set (bt_keys (fold (overlay_status st) is us)) = set (bt_keys us) \<union> set is"
  by (induction "is" arbitrary: us) (auto simp: overlay_status_def)

lemma from_matching_keys:
  assumes "from_matching out rates scale max_units = Some ms" "finite (mo_resting out)" "finite (mo_filled out)"
  shows "set (bt_keys (ms_updates ms)) \<subseteq> fl_maker ` set (mo_fills out) \<union> fl_taker ` set (mo_fills out) \<union>
    mo_resting out \<union> mo_filled out \<union> set (bt_keys (mo_expired out))"
proof -
  obtain us units where u: "settle_fills rates scale (mo_fills out) [] = Some (us, units)"
      "ms_updates ms = fold (overlay_status Expired) (bt_keys (mo_expired out))
         (fold (overlay_status Filled) (sorted_list_of_set (mo_filled out))
           (fold (overlay_status Open) (sorted_list_of_set (mo_resting out)) us))"
    using assms(1) by (auto simp: from_matching_def Let_def trap_simps)
  show ?thesis using settle_fills_keys [OF u(1)] assms(2,3) by (auto simp: u(2) fold_overlay_keys)
qed

section \<open>Records after a round\<close>

lemma round_ofD:
  assumes "round_of scale b expected out b'"
  shows "book_fit scale b'" "book_config b' = book_config b" "bk_next_seq b' = bk_next_seq b"
    "list_all (fill_ok scale) (mo_fills out)" "list_all (\<lambda>(_, r). removed_ok scale r) (mo_expired out)"
    "\<And>f. additive (unat (bk_tick_size b)) (unat (bk_lot_size b)) f \<Longrightarrow>
       stake_sum f b = stake_sum f b' + (\<Sum>fl\<leftarrow>mo_fills out. fill_stake f fl) + expired_stakes f (mo_expired out)"
    "map (\<lambda>fl. unat (fl_seq fl)) (mo_fills out) = [unat (bk_next_fill b)..<unat (bk_next_fill b')]"
    "unat (bk_next_fill b') = unat (bk_next_fill b) + length (mo_fills out)" "stake_terms b' \<subseteq> stake_terms b"
    "\<And>fl. fl \<in> set (mo_fills out) \<Longrightarrow> q2n (fl_quantity fl) \<noteq> 0 \<and>
        (fl_maker fl, opposite (fl_taker_side fl), fl_maker_price fl) \<in> stake_terms b \<and>
        (fl_taker fl, fl_taker_side fl, fl_taker_price fl) \<in> stake_terms b"
    "set (mo_expired out) \<subseteq> removed_from ` set (bk_pending_orders b)"
    "set (resting_ids b') \<inter> mo_filled out = {}"
    "set (resting_ids b') \<union> mo_filled out = set (resting_ids b) \<union> (set expected - set (bt_keys (mo_expired out)))"
    "mo_resting out = set (resting_ids b') \<inter> set expected" "set (bt_keys (mo_expired out)) \<subseteq> set expected"
proof -
  note r = assms [unfolded round_of_def]
  show "unat (bk_next_fill b') = unat (bk_next_fill b) + length (mo_fills out)"
  proof -
    have "map (\<lambda>fl. unat (fl_seq fl)) (mo_fills out) = [unat (bk_next_fill b)..<unat (bk_next_fill b')]"
      "unat (bk_next_fill b) \<le> unat (bk_next_fill b')" using r by blast+
    then show ?thesis by (metis le_add_diff_inverse length_map length_upt)
  qed
qed (use assms in \<open>unfold round_of_def, blast+\<close>)

text \<open>The status a round gives to an order is its place in the book afterwards.\<close>

lemma round_status_place:
  assumes rd: "round_of scale b expected out b'" and p: "pending_order_seqs b = expected @ later" "pending_order_seqs b' = later"
    and ok: "book_ok b" and st: "st' = (case round_status out q of None \<Rightarrow> st | Some x \<Rightarrow> x)"
    and old: "q \<in> set (resting_ids b) \<longleftrightarrow> st = Open" "q \<in> set (pending_order_seqs b) \<longleftrightarrow> st = Pending"
  shows "q \<in> set (resting_ids b') \<longleftrightarrow> st' = Open" "q \<in> set (pending_order_seqs b') \<longleftrightarrow> st' = Pending"
    "st' \<noteq> Canceled \<and> st' \<noteq> Expired \<Longrightarrow> st \<noteq> Canceled \<and> st \<noteq> Expired \<and> q \<notin> set (bt_keys (mo_expired out))"
proof -
  note r = round_ofD(12-15) [OF rd]
  have sorted: "sorted_wrt (<) (expected @ later)" "\<forall>i \<in> set (resting_ids b). \<forall>j \<in> set (expected @ later). i < j"
    using ok p(1) unfolding book_ok_def pending_ok_def by auto
  have disj: "set expected \<inter> set later = {}" "set (resting_ids b) \<inter> set (expected @ later) = {}"
  proof -
    have "distinct (expected @ later)" using sorted(1) strict_sorted_iff by blast
    then show "set expected \<inter> set later = {}" by simp
    show "set (resting_ids b) \<inter> set (expected @ later) = {}" using sorted(2) by fastforce
  qed
  have sub: "set (resting_ids b') \<subseteq> set (resting_ids b) \<union> set expected" "mo_filled out \<subseteq> set (resting_ids b) \<union> set expected"
    using r(2) by auto
  note s = st round_status_def bt_contains_iff
  show "q \<in> set (resting_ids b') \<longleftrightarrow> st' = Open"
    using r disj old p(1) sub by (auto simp: s split: if_splits)
  show "q \<in> set (pending_order_seqs b') \<longleftrightarrow> st' = Pending"
    using r disj old p sub by (auto simp: s split: if_splits)
  show "st' \<noteq> Canceled \<and> st' \<noteq> Expired \<Longrightarrow> st \<noteq> Canceled \<and> st \<noteq> Expired \<and> q \<notin> set (bt_keys (mo_expired out))"
    using r disj old p(1) sub by (auto simp: s split: if_splits)
qed

lemma filled_sum_stakes: "filled_sum q fs = (\<Sum>fl\<leftarrow>fs. fill_stake (remaining_of q) fl)"
  by (induction fs) (simp_all add: sum_defs fill_stake_def remaining_of_def)

lemma additive_remaining [simp]: "additive tick lot (remaining_of q)"
  by (simp add: additive_def remaining_of_def)

lemma record_fits_round:
  assumes rd: "round_of scale b expected out b'" and p: "pending_order_seqs b = expected @ later" "pending_order_seqs b' = later"
    and ok: "book_ok b" and fit: "record_fits K b q r" and upd: "updates_to u r r'" "ou_status u = round_status out q"
      "q2n (ou_filled_delta u) = filled_sum q (mo_fills out)" "q2n (ou_quote_delta u) \<le> length (mo_fills out) * K"
      "q2n (ou_fee_delta u) \<le> length (mo_fills out) * K"
  shows "record_fits K b' q r'"
proof -
  note r = round_ofD [OF rd]
  have old: "q \<in> set (resting_ids b) \<longleftrightarrow> or_status r = Open" "q \<in> set (pending_order_seqs b) \<longleftrightarrow> or_status r = Pending"
    using fit by (simp_all add: record_fits_def)
  have "or_status r' = (case round_status out q of None \<Rightarrow> or_status r | Some x \<Rightarrow> x)" using upd(1,2) by (simp add: updates_to_def)
  note place = round_status_place [OF rd p ok this old]
  have sum: "q2n (or_filled_quantity r') + stake_sum (remaining_of q) b' + expired_stakes (remaining_of q) (mo_expired out) =
      q2n (or_filled_quantity r) + stake_sum (remaining_of q) b"
    using r(6) [OF additive_remaining, of q] upd(1,3) by (simp add: updates_to_def filled_sum_stakes)
  have "expired_stakes (remaining_of q) (mo_expired out) = 0" if "q \<notin> set (bt_keys (mo_expired out))"
    using that by (auto simp: expired_stakes_def removed_stake_def remaining_of_def bt_keys_def)
  then have "q2n (or_filled_quantity r') + stake_sum (remaining_of q) b' = q2n (or_quantity r')"
    if "or_status r' \<noteq> Canceled \<and> or_status r' \<noteq> Expired"
    using place(3) [OF that] sum fit upd(1) by (simp add: record_fits_def updates_to_def)
  moreover have "q2n (or_filled_quantity r') + stake_sum (remaining_of q) b' \<le> q2n (or_quantity r')"
    using sum fit upd(1) by (simp add: record_fits_def updates_to_def)
  moreover have "q2n (or_filled_quote r') \<le> unat (bk_next_fill b') * K" "q2n (or_filled_fee r') \<le> unat (bk_next_fill b') * K"
    using fit upd r(8) by (simp_all add: record_fits_def updates_to_def add_mult_distrib)
  moreover have "s = or_side r' \<and> p = or_price r'" if "(q, s, p) \<in> stake_terms b'" for s p
  proof -
    have "(q, s, p) \<in> stake_terms b" using r(9) that by blast
    then show ?thesis using fit upd(1) by (simp add: record_fits_def updates_to_def)
  qed
  ultimately show ?thesis using place(1,2) by (simp add: record_fits_def)
qed

lemma update_fits_round:
  assumes rd: "round_of scale b expected out b'" and fit: "record_fits K b q r" and K: "K < 2 ^ 192"
    and upd: "q2n (ou_filled_delta u) = filled_sum q (mo_fills out)" "q2n (ou_quote_delta u) \<le> length (mo_fills out) * K"
      "q2n (ou_fee_delta u) \<le> length (mo_fills out) * K"
  shows "update_fits u r"
proof -
  note r = round_ofD(6,8) [OF rd]
  have "q2n (or_filled_quantity r) + q2n (ou_filled_delta u) \<le> q2n (or_quantity r)"
    using r(1) [OF additive_remaining, of q] fit upd(1) by (simp add: record_fits_def filled_sum_stakes)
  moreover have "x + y < 2 ^ 256" if "x \<le> unat (bk_next_fill b) * K" "y \<le> length (mo_fills out) * K" for x y
  proof -
    have "unat (bk_next_fill b') * K < 2 ^ 64 * 2 ^ 192"
      using unat_u64_bound [of "bk_next_fill b'"] K by (intro mult_strict_mono) simp_all
    then show ?thesis using that r(2) by (simp add: add_mult_distrib)
  qed
  ultimately show ?thesis using fit upd(2,3) by (simp add: update_fits_def record_fits_def)
qed

section \<open>What a fill is worth\<close>

lemma reserved_le_total: "reserved_of (tb_balances tb) u t \<le> token_total t tb"
  using balance_total_le_user_total [of "(t, u)" t "tb_balances tb"]
  by (simp add: reserved_of_def token_total_def balance_total_def)

lemma hold_le:
  assumes "exchange_ok K s" "bt_get (st_books s) i = Some b" "market s i = Some m"
  shows "stake_sum (hold (\<lambda>q. order_owner s (i, q)) m u t) b \<le> K"
proof -
  have "book_hold s u t i b \<le> locked s u t"
    using bt.le_total [OF assms(2), of "book_hold s u t"] by (simp add: locked_def)
  also have "\<dots> \<le> token_total t (st_balances s)"
    using exchange_okD(2) [OF assms(1)] reserved_le_total [of "st_balances s" u t] by (simp add: backed_def)
  also have "\<dots> \<le> K" by (rule exchange_okD(1) [OF assms(1)])
  finally show ?thesis by (simp add: book_hold_def assms(3))
qed

lemma live_record:
  assumes "records_ok K s" "bt_get (st_books s) i = Some b" "book_ok b" "(q, sd, p) \<in> stake_terms b"
  obtains r u where "history_get (st_orders s) (i, q) = Some r" "order_owner s (i, q) = Some u" "record_fits K b q r"
    "or_side r = sd" "or_price r = p"
proof -
  have "q < bk_next_seq b" using stake_terms_valid [OF assms(3,4)] by blast
  then obtain r where r: "history_get (st_orders s) (i, q) = Some r" using assms(1,2) unfolding records_ok_def by blast
  obtain b1 u where "order_owner s (i, q) = Some u" "bt_get (st_books s) i = Some b1" "record_fits K b1 q r"
    using records_okD [OF assms(1) r] .
  moreover from this have "or_side r = sd" "or_price r = p" using assms(2,4) by (auto simp: record_fits_def)
  ultimately show ?thesis using that r assms(2) by simp
qed

lemma fill_worth:
  assumes heap: "heap_ok s" and ex: "exchange_ok K s" and b: "bt_get (st_books s) i = Some b" "listed s i pair scale" "book_fit scale b"
    and rd: "round_of scale b expected out b'" and fl: "fl \<in> set (mo_fills out)"
  shows "quote_value scale (fl_maker_price fl) (fl_quantity fl) \<le> K" "q2n (fl_quantity fl) \<le> K" "fl_maker fl \<noteq> fl_taker fl"
    "quote_value scale (fl_maker_price fl) (fl_quantity fl) \<noteq> 0"
proof -
  note r = round_ofD [OF rd] and t = round_ofD(10) [OF rd fl] and x = exchange_okD [OF ex]
  have ok: "book_ok b" "unat scale dvd unat (bk_tick_size b) * unat (bk_lot_size b)" using b(3) by (simp_all add: book_fit_def)
  have fok: "fill_ok scale fl" using r(4) fl by (simp add: list_all_iff)
  let ?h = "\<lambda>u t. hold (\<lambda>q. order_owner s (i, q)) (pair, scale) u t"
  have sum: "fill_stake (?h u t) fl \<le> K" for u t
  proof -
    have "fill_stake (?h u t) fl \<le> (\<Sum>fl\<leftarrow>mo_fills out. fill_stake (?h u t) fl)" using fl by (intro member_le_sum_list) auto
    also have "\<dots> \<le> stake_sum (?h u t) b" using r(6) [OF additive_hold, of "(pair, scale)"] ok(2) by simp
    also have "\<dots> \<le> K" by (rule hold_le [OF ex b(1) listed_market [OF b(2)]])
    finally show ?thesis .
  qed
  obtain rm um where mk: "history_get (st_orders s) (i, fl_maker fl) = Some rm" "order_owner s (i, fl_maker fl) = Some um"
      "or_side rm = opposite (fl_taker_side fl)"
    using live_record [OF x(3) b(1) ok(1)] t by metis
  obtain rt ut where tk: "history_get (st_orders s) (i, fl_taker fl) = Some rt" "order_owner s (i, fl_taker fl) = Some ut"
      "or_side rt = fl_taker_side fl"
    using live_record [OF x(3) b(1) ok(1)] t by metis
  show "fl_maker fl \<noteq> fl_taker fl" using mk(1,3) tk(1,3) by (cases "fl_taker_side fl") auto
  have le: "quote_value scale (fl_maker_price fl) (fl_quantity fl) \<le> quote_value scale (buyer_price fl) (fl_quantity fl)"
    using surplus_value(3) [OF fok] by linarith
  show "quote_value scale (fl_maker_price fl) (fl_quantity fl) \<le> K"
    using sum [of ut "tp_quote pair"] sum [of um "tp_quote pair"] le mk(2) tk(2)
    by (cases "fl_taker_side fl")
       (auto simp: fill_stake_def hold_def lock_token_def trading_pair_token_def buyer_price_def quote_value_def split: if_splits)
  show "q2n (fl_quantity fl) \<le> K"
    using sum [of ut "tp_base pair"] sum [of um "tp_base pair"] mk(2) tk(2)
    by (cases "fl_taker_side fl") (auto simp: fill_stake_def hold_def lock_token_def trading_pair_token_def split: if_splits)
  have "fl_maker_price fl \<noteq> 0" using stake_terms_valid [OF ok(1)] t by blast
  then have "unat (fl_maker_price fl) * q2n (fl_quantity fl) \<noteq> 0" using t by (simp add: unat_eq_0)
  moreover have "unat scale dvd unat (fl_maker_price fl) * q2n (fl_quantity fl)" using fok by (simp add: fill_ok_def value_ok_def)
  ultimately show "quote_value scale (fl_maker_price fl) (fl_quantity fl) \<noteq> 0"
    unfolding quote_value_def by (simp only: dvd_div_eq_0_iff not_False_eq_True)
qed

lemma role_sum_le:
  assumes "\<And>f. f \<in> set fs \<Longrightarrow> fl_maker f \<noteq> fl_taker f \<and> a f \<le> K \<and> c f \<le> K"
  shows "role_sum a c q fs \<le> length fs * K"
  using assms
proof (induction fs)
  case (Cons f fs)
  have "(if fl_maker f = q then a f else 0) + (if fl_taker f = q then c f else 0) \<le> K" using Cons.prems [of f] by auto
  moreover have "role_sum a c q fs \<le> length fs * K" by (rule Cons.IH) (rule Cons.prems, simp)
  ultimately show ?case by simp
qed simp

lemma round_sums:
  assumes "heap_ok s" "exchange_ok K s" "bt_get (st_books s) i = Some b" "listed s i pair scale" "book_fit scale b"
    "round_of scale b expected out b'" "fee_rates_ok rates"
  shows "quote_sum scale q (mo_fills out) \<le> length (mo_fills out) * K" "fee_sum rates scale q (mo_fills out) \<le> length (mo_fills out) * K"
proof -
  note w = fill_worth [OF assms(1-6)]
  show "quote_sum scale q (mo_fills out) \<le> length (mo_fills out) * K"
    unfolding quote_sum_def by (rule role_sum_le) (use w in blast)
  have "maker_fee_of rates scale f \<le> K \<and> taker_fee_of rates scale f \<le> K" if "f \<in> set (mo_fills out)" for f
    using fee_bounds(1) [OF assms(7), of scale f] fee_bounds(2) [OF assms(7), of f] w(1,2) [OF that]
    by (auto simp: maker_fee_of_def taker_fee_of_def split: side.split)
  then show "fee_sum rates scale q (mo_fills out) \<le> length (mo_fills out) * K"
    unfolding fee_sum_def by (intro role_sum_le) (use w(3) in blast)
qed

section \<open>The queued events\<close>

definition unit_seqs :: "settlement_unit \<Rightarrow> order_seq set" where
  "unit_seqs u = set (concat (map op_seqs (su_operations u)))"

text \<open>A unit that can be settled: its orders have records, its amounts are positive, and its trade
  can be recorded at the price of the maker.\<close>

definition unit_good :: "(order_seq \<Rightarrow> order_record option) \<Rightarrow> u64 \<Rightarrow> settlement_unit \<Rightarrow> bool" where
  "unit_good recs scale u \<longleftrightarrow> list_all op_ok (su_operations u) \<and> (\<forall>q \<in> unit_seqs u. recs q \<noteq> None) \<and>
     (\<forall>f. su_fill u = Some f \<longrightarrow> fe_taker f \<in> unit_seqs u \<and> fe_maker f \<in> unit_seqs u \<and> fe_taker f \<noteq> fe_maker f \<and>
        fee_rates_ok (fe_rates f) \<and> (\<exists>r. recs (fe_maker f) = Some r \<and> value_ok scale (or_price r) (fe_quantity f)))"

lemma fill_ops_ok:
  assumes "fee_rates_ok rates" "fill_ok scale fl" "q2n (fl_quantity fl) \<noteq> 0"
    "quote_value scale (fl_maker_price fl) (fl_quantity fl) \<noteq> 0"
  shows "list_all op_ok (su_operations (fill_unit rates scale fl))"
    "unit_seqs (fill_unit rates scale fl) = {fl_maker fl, fl_taker fl}"
proof -
  have v: "value_ok scale (fl_maker_price fl) (fl_quantity fl)" using assms(2) by (simp add: fill_ok_def)
  have fits: "quote_fee_of rates scale fl < 2 ^ 256" "base_fee_of rates fl < 2 ^ 256"
    using fee_bounds(1) [OF assms(1), of scale fl] fee_bounds(2) [OF assms(1), of fl] quote_value_lt [OF v]
      q2n_bound [of "fl_quantity fl"] by linarith+
  show "list_all op_ok (su_operations (fill_unit rates scale fl))"
    using fee_bounds(1) [OF assms(1), of scale fl] fee_bounds(2) [OF assms(1), of fl] fits assms(3,4) v surplus_lt [OF assms(2)]
    by (cases "fl_taker_side fl")
       (auto simp: op_ok_def fill_unit_def fill_balance_operations_def settled_def nonzero_def is_zero_iff taker_fee_of_def maker_fee_of_def)
  show "unit_seqs (fill_unit rates scale fl) = {fl_maker fl, fl_taker fl}"
    by (cases "fl_taker_side fl")
       (auto simp: unit_seqs_def op_seqs_def fill_unit_def fill_balance_operations_def settled_def)
qed

lemma round_units_good:
  assumes heap: "heap_ok s" and ex: "exchange_ok K s" and b: "bt_get (st_books s) i = Some b" "listed s i pair scale" "book_fit scale b"
    and rd: "round_of scale b expected out b'" and rates: "fee_rates_ok rates"
    and recs: "\<And>q r. history_get (st_orders s) (i, q) = Some r \<Longrightarrow> \<exists>r'. recs q = Some r' \<and> or_price r' = or_price r"
  shows "list_all (unit_good recs scale) (map (fill_unit rates scale) (mo_fills out) @ map (expired_unit scale) (mo_expired out))"
proof -
  note r = round_ofD [OF rd] and x = exchange_okD [OF ex]
  have ok: "book_ok b" using b(3) by (simp add: book_fit_def)
  have "unit_good recs scale (fill_unit rates scale fl)" if fl: "fl \<in> set (mo_fills out)" for fl
  proof -
    note t = r(10) [OF fl] and w = fill_worth [OF heap ex b rd fl]
    have fok: "fill_ok scale fl" using r(4) fl by (simp add: list_all_iff)
    note ops = fill_ops_ok [OF rates fok _ w(4)]
    obtain rm where mk: "history_get (st_orders s) (i, fl_maker fl) = Some rm" "or_price rm = fl_maker_price fl"
      using live_record [OF x(3) b(1) ok] t by metis
    obtain rt where tk: "history_get (st_orders s) (i, fl_taker fl) = Some rt" using live_record [OF x(3) b(1) ok] t by metis
    have "value_ok scale (fl_maker_price fl) (fl_quantity fl)" using fok by (simp add: fill_ok_def)
    moreover obtain rm' rt' where "recs (fl_maker fl) = Some rm'" "or_price rm' = fl_maker_price fl" "recs (fl_taker fl) = Some rt'"
      using recs [OF mk(1)] recs [OF tk] mk(2) by auto
    moreover have "fe_taker f = fl_taker fl \<and> fe_maker f = fl_maker fl \<and> fe_quantity f = fl_quantity fl \<and> fe_rates f = rates"
      if "su_fill (fill_unit rates scale fl) = Some f" for f
      using that by (auto simp: fill_unit_def fill_event_of_def settled_def)
    ultimately show ?thesis
      unfolding unit_good_def using ops(2) ops(1) t w(3) rates by simp
  qed
  moreover have "unit_good recs scale (expired_unit scale e)" if e: "e \<in> set (mo_expired out)" for e
  proof -
    obtain ord where ord: "ord \<in> set (bk_pending_orders b)" "e = removed_from ord" using r(11) e by blast
    then have "(ord_id ord, ord_side ord, ord_price ord) \<in> stake_terms b" by (force simp: stake_terms_def)
    then obtain r1 where "history_get (st_orders s) (i, ord_id ord) = Some r1" using live_record [OF x(3) b(1) ok] by metis
    then have rec: "recs (ord_id ord) \<noteq> None" using recs by auto
    have va: "ord_price ord \<noteq> 0" "q2n (ord_remaining ord) \<noteq> 0" using ok ord(1) by (auto simp: book_ok_def pending_ok_def list_all_iff valid_amounts_def)
    have ro: "removed_ok scale (snd e)" using r(5) e by (cases e) (auto simp: list_all_iff)
    have "quote_value scale (ord_price ord) (ord_remaining ord) \<noteq> 0" if "ord_side ord = Buy"
    proof -
      have "unat (ord_price ord) * q2n (ord_remaining ord) \<noteq> 0" using va by (simp add: unat_eq_0)
      moreover have "unat scale dvd unat (ord_price ord) * q2n (ord_remaining ord)"
        using ro that by (simp add: removed_ok_def value_ok_def ord(2) removed_from_def)
      ultimately show ?thesis unfolding quote_value_def by (simp only: dvd_div_eq_0_iff not_False_eq_True)
    qed
    then show ?thesis
      using rec va ro by (cases "ord_side ord")
        (auto simp: unit_good_def expired_unit_def unit_seqs_def op_seqs_def op_ok_def ord(2) removed_from_def removed_ok_def)
  qed
  ultimately show ?thesis by (auto simp: list_all_iff)
qed

definition batch_event :: "order_book_id \<Rightarrow> settlement_batch \<Rightarrow> settling_event" where
  "batch_event i batch = \<lparr>se_book_id = i, se_operations = sb_operations batch, se_fills = sb_fills batch\<rparr>"

lemma batch_event_simps [simp]:
  "se_book_id (batch_event i (unit_batch us)) = i"
  "se_operations (batch_event i (unit_batch us)) = concat (map su_operations us)"
  "se_fills (batch_event i (unit_batch us)) = concat (map (\<lambda>u. case su_fill u of None \<Rightarrow> [] | Some f \<Rightarrow> [f]) us)"
  by (simp_all add: batch_event_def unit_batch_simps)

lemma batch_event_ok:
  assumes "list_all (unit_good (\<lambda>q. history_get (st_orders s) (i, q)) scale) us" "bt_get (st_books s) i \<noteq> None"
    "market s i = Some (pair, scale)"
  shows "event_ok s (batch_event i (unit_batch us))"
proof -
  let ?ev = "batch_event i (unit_batch us)"
  have seqs: "event_seqs ?ev = (\<Union>u \<in> set us. unit_seqs u)" by (auto simp: event_seqs_def unit_seqs_def)
  have "list_all op_ok (se_operations ?ev)" using assms(1) by (auto simp: list_all_iff unit_good_def)
  moreover have "\<forall>q \<in> event_seqs ?ev. history_get (st_orders s) (i, q) \<noteq> None"
    using assms(1) unfolding seqs by (auto simp: list_all_iff unit_good_def)
  moreover have "fill_event_ok s ?ev f" if f: "f \<in> set (se_fills ?ev)" for f
  proof -
    obtain u where "u \<in> set us" "su_fill u = Some f" using f by (auto split: option.splits)
    then show ?thesis using assms(1,3) unfolding fill_event_ok_def seqs by (fastforce simp: list_all_iff unit_good_def)
  qed
  ultimately show ?thesis using assms(2) by (simp add: event_ok_def)
qed

lemma batch_events_hold:
  "(\<Sum>us\<leftarrow>uss. ops_hold own m u t (se_operations (batch_event i (unit_batch us)))) = (\<Sum>x\<leftarrow>concat uss. ops_hold own m u t (su_operations x))"
  by (induction uss) (simp_all add: ops_hold_concat comp_def)

lemma batch_events_fills:
  "concat (map (\<lambda>us. fills_of (batch_event i (unit_batch us))) uss) =
   map (\<lambda>f. (i, fe_seq f)) (concat (map (\<lambda>u. case su_fill u of None \<Rightarrow> [] | Some f \<Rightarrow> [f]) (concat uss)))"
  by (induction uss) (simp_all add: fills_of_def)

lemma round_fill_events:
  "concat (map (\<lambda>u. case su_fill u of None \<Rightarrow> [] | Some f \<Rightarrow> [f])
     (map (fill_unit rates scale) fls @ map (expired_unit scale) es)) = map (\<lambda>fl. fill_event_of (settled rates scale fl)) fls"
proof -
  have "concat (map (\<lambda>u. case su_fill u of None \<Rightarrow> [] | Some f \<Rightarrow> [f]) (map (expired_unit scale) es)) = []"
    by (induction es) (simp_all add: expired_unit_def)
  moreover have "concat (map (\<lambda>u. case su_fill u of None \<Rightarrow> [] | Some f \<Rightarrow> [f]) (map (fill_unit rates scale) fls)) =
      map (\<lambda>fl. fill_event_of (settled rates scale fl)) fls"
    by (induction fls) (simp_all add: fill_unit_def)
  ultimately show ?thesis by simp
qed

section \<open>The event\<close>

definition orders_follow :: "order_book_id \<Rightarrow> order_updates \<Rightarrow> order_history \<Rightarrow> order_history \<Rightarrow> bool" where
  "orders_follow i us h h' \<longleftrightarrow> history_ok h' \<and> length (hi_primary h') = length (hi_primary h) \<and>
     (\<forall>j q. j \<noteq> i \<longrightarrow> history_get h' (j, q) = history_get h (j, q)) \<and>
     (\<forall>q. history_get h (i, q) = None \<longrightarrow> history_get h' (i, q) = None) \<and>
     (\<forall>q r. history_get h (i, q) = Some r \<longrightarrow> (\<exists>r'. history_get h' (i, q) = Some r' \<and> updates_to (update_of us q) r r'))"

lemma orders_followD:
  assumes "orders_follow i us h h'" "history_get h (j, q) = Some r"
  obtains r' where "history_get h' (j, q) = Some r'" "or_owner r' = or_owner r" "or_price r' = or_price r"
    "j = i \<Longrightarrow> updates_to (update_of us q) r r'" "j \<noteq> i \<Longrightarrow> r' = r"
  using assms unfolding orders_follow_def updates_to_def by (cases "j = i") force+

lemma orders_follow_back:
  assumes "orders_follow i us h h'" "history_get h' (j, q) = Some r'"
  shows "history_get h (j, q) \<noteq> None"
  using assms unfolding orders_follow_def by (cases "j = i") force+

lemma owner_follow:
  assumes "orders_follow i us (st_orders s) (st_orders s')" "st_registry s' = st_registry s"
  shows "order_owner s' = order_owner s"
proof
  fix k :: order_id
  obtain j q where k: "k = (j, q)" by (cases k)
  show "order_owner s' k = order_owner s k"
  proof (cases "history_get (st_orders s) (j, q)")
    case None
    then have "history_get (st_orders s') (j, q) = None" using orders_follow_back [OF assms(1)] by (cases "history_get (st_orders s') (j, q)") blast+
    then show ?thesis using None by (simp add: k order_owner_def)
  next
    case (Some r)
    obtain r' where "history_get (st_orders s') (j, q) = Some r'" "or_owner r' = or_owner r"
      using orders_followD [OF assms(1) Some] .
    then show ?thesis using Some assms(2) by (simp add: k order_owner_def)
  qed
qed

lemma records_follow:
  assumes rec: "records_ok K s" and b: "bt_get (st_books s) i = Some b" "bk_next_seq b' = bk_next_seq b"
    and f: "orders_follow i us (st_orders s) (st_orders s')" and s': "st_registry s' = st_registry s" "st_books s' = bt_insert i b' (st_books s)"
    and fits: "\<And>q r r'. record_fits K b q r \<Longrightarrow> updates_to (update_of us q) r r' \<Longrightarrow> record_fits K b' q r'"
  shows "records_ok K s'"
  unfolding records_ok_def
proof (intro conjI allI impI)
  note own = owner_follow [OF f s'(1)]
  show "history_ok (st_orders s')" using f by (simp add: orders_follow_def)
  show "bt.total (\<lambda>i b. unat (bk_next_seq b)) (st_books s') = length (hi_primary (st_orders s'))"
    using rec f bt.total_put [of "\<lambda>i b. unat (bk_next_seq b)" i b' "st_books s"] b
    by (simp add: records_ok_def orders_follow_def s'(2))
  fix j q
  show "history_get (st_orders s') (j, q) \<noteq> None" if "bt_get (st_books s') j = Some c" "q < bk_next_seq c" for c
  proof -
    have "\<exists>c'. bt_get (st_books s) j = Some c' \<and> q < bk_next_seq c'" using that b by (auto simp: s'(2) split: if_splits)
    then obtain r where "history_get (st_orders s) (j, q) = Some r" using rec unfolding records_ok_def by blast
    then show ?thesis using orders_followD [OF f] by (metis option.distinct(1))
  qed
  fix r' assume r': "history_get (st_orders s') (j, q) = Some r'"
  then obtain r where r: "history_get (st_orders s) (j, q) = Some r" using orders_follow_back [OF f] by blast
  obtain c u where c: "order_owner s (j, q) = Some u" "bt_get (st_books s) j = Some c" "q < bk_next_seq c" "record_fits K c q r"
    using records_okD [OF rec r] .
  show "order_owner s' (j, q) \<noteq> None" using c(1) own by simp
  show "\<exists>c. bt_get (st_books s') j = Some c \<and> q < bk_next_seq c \<and> record_fits K c q r'"
  proof (cases "j = i")
    case True
    then have "updates_to (update_of us q) r r'" using orders_followD [OF f r] r' by auto
    then show ?thesis using True b c fits by (auto simp: s'(2))
  next
    case False
    then have "r' = r" using orders_followD [OF f r] r' by auto
    then show ?thesis using False c by (auto simp: s'(2))
  qed
qed

lemma backed_follow:
  assumes ex: "backed s" and b: "bt_get (st_books s) i = Some b" "market s i = Some m"
    and fr: "market s' = market s" "order_owner s' = order_owner s" "tb_balances (st_balances s') = tb_balances (st_balances s)"
    and s': "st_books s' = bt_insert i b' (st_books s)" "st_settling s' = st_settling s @ evs" "\<forall>ev \<in> set evs. se_book_id ev = i"
    and moved: "\<And>u t. stake_sum (hold (\<lambda>q. order_owner s (i, q)) m u t) b =
        stake_sum (hold (\<lambda>q. order_owner s (i, q)) m u t) b' + (\<Sum>ev\<leftarrow>evs. ops_hold (\<lambda>q. order_owner s (i, q)) m u t (se_operations ev))"
  shows "backed s'"
  unfolding backed_def locked_def backed_frame [OF fr(1,2)] fr(3)
proof (intro allI)
  fix u t
  have "(\<Sum>ev\<leftarrow>evs. event_hold s u t ev) = (\<Sum>ev\<leftarrow>evs. ops_hold (\<lambda>q. order_owner s (i, q)) m u t (se_operations ev))"
    using s'(3) b(2) by (intro arg_cong [of _ _ sum_list] map_cong) (simp_all add: event_hold_def)
  moreover have "bt.total (book_hold s u t) (st_books s') + book_hold s u t i b = bt.total (book_hold s u t) (st_books s) + book_hold s u t i b'"
    using bt.total_put [of "book_hold s u t" i b' "st_books s"] b(1) by (simp add: s'(1))
  ultimately show "reserved_of (tb_balances (st_balances s)) u t = bt.total (book_hold s u t) (st_books s') + (\<Sum>ev\<leftarrow>st_settling s'. event_hold s u t ev)"
    using ex moved [of u t] b(2) by (simp add: backed_def locked_def s'(2) book_hold_def)
qed

lemma event_follow:
  assumes f: "orders_follow i us (st_orders s) (st_orders s')" and m: "market s' = market s"
    and b: "\<And>j. bt_get (st_books s) j \<noteq> None \<Longrightarrow> bt_get (st_books s') j \<noteq> None" and ev: "event_ok s ev"
  shows "event_ok s' ev"
proof -
  have rec: "history_get (st_orders s) (j, q) \<noteq> None \<Longrightarrow> history_get (st_orders s') (j, q) \<noteq> None" for j q
    using orders_followD [OF f] by (metis not_Some_eq)
  have "fill_event_ok s' ev fe" if fe: "fill_event_ok s ev fe" for fe
  proof -
    obtain r where r: "history_get (st_orders s) (se_book_id ev, fe_maker fe) = Some r" using fe by (auto simp: fill_event_ok_def)
    obtain r' where "history_get (st_orders s') (se_book_id ev, fe_maker fe) = Some r'" "or_price r' = or_price r"
      using orders_followD [OF f r] .
    then show ?thesis using fe r by (auto simp: fill_event_ok_def m)
  qed
  then show ?thesis using ev b rec unfolding event_ok_def by blast
qed

lemma queue_follow:
  assumes q: "settling_ok s" "trades_ok s" and b: "bt_get (st_books s) i = Some b"
    and s': "st_books s' = bt_insert i b' (st_books s)" "st_settling s' = st_settling s @ evs" "st_trades s' = st_trades s"
    and old: "\<And>ev. event_ok s ev \<Longrightarrow> event_ok s' ev" and new: "\<forall>ev \<in> set evs. event_ok s' ev"
    and fills: "concat (map fills_of evs) = map (\<lambda>n. (i, n)) ns" "distinct ns" "\<forall>n \<in> set ns. bk_next_fill b \<le> n \<and> n < bk_next_fill b'"
      "unat (bk_next_fill b') = unat (bk_next_fill b) + length ns"
  shows "settling_ok s'" "trades_ok s'"
proof -
  have qf: "queued_fills s' = queued_fills s @ map (\<lambda>n. (i, n)) ns" by (simp add: queued_fills_def s'(2) fills(1))
  have le: "bk_next_fill b \<le> bk_next_fill b'" using fills(4) by (simp add: word_le_nat_alt)
  have mint: "minted s j n \<Longrightarrow> minted s' j n" for j n using b le by (auto simp: minted_def s'(1) split: if_splits)
  have fresh: "\<not> minted s i n" "minted s' i n" if "n \<in> set ns" for n
    using fills(3) that b by (auto simp: minted_def s'(1))
  have m: "\<And>j n. (j, n) \<in> set (queued_fills s) \<Longrightarrow> minted s j n" and d: "distinct (queued_fills s)"
    using q(1) by (auto simp: settling_ok_def)
  have "distinct (queued_fills s')" using d m fresh(1) fills(2) by (auto simp: qf distinct_map inj_on_def)
  moreover have "\<forall>(j, n) \<in> set (queued_fills s'). minted s' j n" using m mint fresh(2) by (auto simp: qf)
  ultimately show "settling_ok s'" using q(1) old new by (auto simp: settling_ok_def s'(2))
  have tot: "bt.total (\<lambda>i b. unat (bk_next_fill b)) (st_books s') = bt.total (\<lambda>i b. unat (bk_next_fill b)) (st_books s) + length ns"
    using bt.total_put [of "\<lambda>i b. unat (bk_next_fill b)" i b' "st_books s"] b fills(4) by (simp add: s'(1))
  have "(j, n) \<notin> set (queued_fills s') \<and> minted s' j n" if "history_get (st_trades s) ((j, o'), n) \<noteq> None" for j o' n
  proof -
    have "(j, n) \<notin> set (queued_fills s)" "minted s j n" using q(2) that unfolding trades_ok_def by blast+
    then show ?thesis using fresh(1) mint by (auto simp: qf)
  qed
  then show "trades_ok s'" using q(2) unfolding trades_ok_def s'(3) tot by (simp add: qf)
qed

text \<open>No sum over the fills of a round leaves 256 bits.\<close>

lemma numbered_record:
  assumes "records_ok K s" "bt_get (st_books s) i = Some b" "q < bk_next_seq b"
  obtains r where "history_get (st_orders s) (i, q) = Some r" "record_fits K b q r"
proof -
  obtain r where r: "history_get (st_orders s) (i, q) = Some r" using assms unfolding records_ok_def by blast
  moreover have "record_fits K b q r" using records_okD [OF assms(1) r] assms(2) by (metis option.inject)
  ultimately show ?thesis by (rule that)
qed

lemma remaining_fits:
  assumes "records_ok K s" "bt_get (st_books s) i = Some b" "book_ok b"
  shows "stake_sum (remaining_of q) b < 2 ^ 256"
proof (cases "q < bk_next_seq b")
  case True
  obtain r where "record_fits K b q r" using numbered_record [OF assms(1,2) True] .
  then show ?thesis using q2n_bound [of "or_quantity r"] unfolding record_fits_def by linarith
next
  case False
  then show ?thesis using order_ids_bounded [OF assms(3), of q "\<lambda>s p n. n"] by (simp add: remaining_of_def)
qed

lemma round_length:
  assumes "round_of scale b expected out b'" "K < 2 ^ 192"
  shows "length (mo_fills out) * K < 2 ^ 256"
proof -
  have "length (mo_fills out) * K < 2 ^ 64 * 2 ^ 192"
    using round_ofD(8) [OF assms(1)] unat_u64_bound [of "bk_next_fill b'"] assms(2) by (intro mult_strict_mono) simp_all
  then show ?thesis by simp
qed

lemma round_sums_fit:
  assumes "heap_ok s" "exchange_ok K s" "K < 2 ^ 192" "bt_get (st_books s) i = Some b" "listed s i pair scale" "book_fit scale b"
    "round_of scale b expected out b'"
  shows "sums_fit (bk_fee_rates b) scale (mo_fills out)"
proof -
  have bk: "book_ok b" "fee_rates_ok (bk_fee_rates b)" using assms(6) by (simp_all add: book_fit_def)
  note sums = round_sums [OF assms(1,2,4-7) bk(2)] and big = round_length [OF assms(7,3)]
  have "filled_sum q (mo_fills out) < 2 ^ 256" for q
  proof -
    have "filled_sum q (mo_fills out) \<le> stake_sum (remaining_of q) b"
      using round_ofD(6) [OF assms(7) additive_remaining, of q] by (simp add: filled_sum_stakes)
    then show ?thesis using remaining_fits [OF exchange_okD(3) [OF assms(2)] assms(4) bk(1), of q] by linarith
  qed
  then show ?thesis unfolding sums_fit_def using le_less_trans [OF sums(1) big] le_less_trans [OF sums(2) big] by blast
qed

text \<open>The orders a round touches are in the book.\<close>

lemma round_keys:
  assumes rd: "round_of scale b expected out b'" and p: "pending_order_seqs b = expected @ later" and ok: "book_ok b"
    and q: "q \<in> fl_maker ` set (mo_fills out) \<union> fl_taker ` set (mo_fills out) \<union> mo_resting out \<union> mo_filled out \<union> set (bt_keys (mo_expired out))"
  shows "q < bk_next_seq b"
proof -
  note r = round_ofD [OF rd]
  have "\<forall>i \<in> set (resting_ids b) \<union> set (pending_order_seqs b). i < bk_next_seq b"
    using ok unfolding book_ok_def pending_ok_def by blast
  moreover have "mo_resting out \<union> mo_filled out \<union> set (bt_keys (mo_expired out)) \<subseteq> set (resting_ids b) \<union> set expected"
    using r(13-15) by blast
  moreover have "fl_maker fl < bk_next_seq b" "fl_taker fl < bk_next_seq b" if "fl \<in> set (mo_fills out)" for fl
    using r(10) [OF that] stake_terms_valid [OF ok] by blast+
  ultimately show ?thesis using q p by auto
qed

definition round_delta :: "nat \<Rightarrow> matching_output \<Rightarrow> order_seq \<Rightarrow> order_update \<Rightarrow> bool" where
  "round_delta K out q u \<longleftrightarrow> ou_status u = round_status out q \<and> q2n (ou_filled_delta u) = filled_sum q (mo_fills out) \<and>
     q2n (ou_quote_delta u) \<le> length (mo_fills out) * K \<and> q2n (ou_fee_delta u) \<le> length (mo_fills out) * K"

lemma round_updates:
  assumes heap: "heap_ok s" and ex: "exchange_ok K s" and K: "K < 2 ^ 192"
    and b: "bt_get (st_books s) i = Some b" "listed s i pair scale" "book_fit scale b"
    and rd: "round_of scale b expected out b'" and p: "pending_order_seqs b = expected @ later"
  shows "\<exists>ms orders n. from_matching out (bk_fee_rates b) scale (ep_max_settlement_units_per_event (st_policy s)) = Some ms \<and>
    apply_updates i (ms_updates ms) now (st_orders s) = Some orders \<and> orders_follow i (ms_updates ms) (st_orders s) orders \<and>
    ms_batches ms = map unit_batch (chunks n (map (fill_unit (bk_fee_rates b) scale) (mo_fills out) @ map (expired_unit scale) (mo_expired out))) \<and>
    (\<forall>q. round_delta K out q (update_of (ms_updates ms) q))"
proof -
  let ?rates = "bk_fee_rates b" and ?fs = "mo_fills out" and ?max = "ep_max_settlement_units_per_event (st_policy s)"
  note r = round_ofD [OF rd] and x = exchange_okD [OF ex]
  have bk: "book_ok b" "fee_rates_ok ?rates" using b(3) by (simp_all add: book_fit_def)
  note sums = round_sums [OF heap ex b rd bk(2)]
  have "mo_resting out \<union> mo_filled out \<subseteq> set (resting_ids b) \<union> set expected" using r(13,14) by blast
  then have fin: "finite (mo_resting out)" "finite (mo_filled out)" by (auto intro: finite_subset [of _ "set (resting_ids b) \<union> set expected"])
  have "?max \<noteq> 0" using heap by (simp add: heap_ok_def maps_ok_def policy_ok_iff)
  then obtain ms where ms: "from_matching out ?rates scale ?max = Some ms" "bt_ok (ms_updates ms)"
      "ms_batches ms = map unit_batch (chunks (unat ?max) (map (fill_unit ?rates scale) ?fs @ map (expired_unit scale) (mo_expired out)))"
      "\<And>q. update_deltas (ms_updates ms) q = (filled_sum q ?fs, quote_sum scale q ?fs, fee_sum ?rates scale q ?fs)"
      "\<And>q. update_marks (ms_updates ms) q = (round_status out q, None)"
    using from_matching_eq [OF bk(2) r(4,5) round_sums_fit [OF heap ex K b rd] fin] by blast
  have delta: "round_delta K out q (update_of (ms_updates ms) q)" for q
    using ms(4,5) [of q] sums by (simp add: round_delta_def update_deltas_def update_marks_def)
  have "\<exists>r0. history_get (st_orders s) (i, q) = Some r0 \<and> update_fits u r0" if qu: "(q, u) \<in> set (ms_updates ms)" for q u
  proof -
    have "q \<in> set (bt_keys (ms_updates ms))" using qu by (force simp: bt_keys_def)
    then have "q < bk_next_seq b" using from_matching_keys [OF ms(1) fin] round_keys [OF rd p bk(1)] by blast
    then obtain r0 where r0: "history_get (st_orders s) (i, q) = Some r0" "record_fits K b q r0" using numbered_record [OF x(3) b(1)] by metis
    have "update_of (ms_updates ms) q = u" using qu ms(2) by (simp add: update_of_def bt_ok_get_iff [THEN iffD2])
    then show ?thesis using r0 delta [of q] update_fits_round [OF rd r0(2) K] by (auto simp: round_delta_def)
  qed
  then obtain orders where "apply_updates i (ms_updates ms) now (st_orders s) = Some orders" "orders_follow i (ms_updates ms) (st_orders s) orders"
    using apply_updates_fit [OF _ ms(2), of "st_orders s" i now] x(3) unfolding orders_follow_def records_ok_def by blast
  then show ?thesis using ms delta by blast
qed

text \<open>What the round takes out of the book is what the queued events hold.\<close>

lemma round_hold:
  assumes rd: "round_of scale b expected out b'" and fit: "book_fit scale b"
  shows "stake_sum (hold own (pair, scale) u t) b = stake_sum (hold own (pair, scale) u t) b' +
    (\<Sum>x\<leftarrow>map (fill_unit rates scale) (mo_fills out) @ map (expired_unit scale) (mo_expired out). ops_hold own (pair, scale) u t (su_operations x))"
proof -
  note r = round_ofD [OF rd]
  have "(\<Sum>x\<leftarrow>map (fill_unit rates scale) (mo_fills out). ops_hold own (pair, scale) u t (su_operations x)) =
      (\<Sum>fl\<leftarrow>mo_fills out. fill_stake (hold own (pair, scale) u t) fl)"
    using r(4) by (simp add: comp_def) (intro arg_cong [of _ _ sum_list] map_cong, auto simp: fill_unit_hold list_all_iff)
  moreover have "(\<Sum>x\<leftarrow>map (expired_unit scale) (mo_expired out). ops_hold own (pair, scale) u t (su_operations x)) =
      expired_stakes (hold own (pair, scale) u t) (mo_expired out)"
    unfolding expired_stakes_def using r(5)
    by (simp add: comp_def) (intro arg_cong [of _ _ sum_list] map_cong, auto simp: expired_unit_hold list_all_iff)
  ultimately show ?thesis
    using r(6) [OF additive_hold, of "(pair, scale)" own u t] fit by (simp add: book_fit_def)
qed

lemma chunks_subset: "us \<in> set (chunks n xs) \<Longrightarrow> set us \<subseteq> set xs"
  by (metis UN_upper concat_chunks set_concat)

lemma round_fill_seqs:
  assumes "round_of scale b expected out b'"
  shows "distinct (map fl_seq (mo_fills out))" "\<forall>n \<in> set (map fl_seq (mo_fills out)). bk_next_fill b \<le> n \<and> n < bk_next_fill b'"
proof -
  have "map unat (map fl_seq (mo_fills out)) = [unat (bk_next_fill b)..<unat (bk_next_fill b')]"
    using round_ofD(7) [OF assms] by (simp add: comp_def)
  note m = this
  have "distinct (map unat (map fl_seq (mo_fills out)))" unfolding m by simp
  then show "distinct (map fl_seq (mo_fills out))" by (simp only: distinct_map)
  have "unat ` set (map fl_seq (mo_fills out)) = {unat (bk_next_fill b)..<unat (bk_next_fill b')}"
    using arg_cong [OF m, of set] by (simp add: image_image)
  then show "\<forall>n \<in> set (map fl_seq (mo_fills out)). bk_next_fill b \<le> n \<and> n < bk_next_fill b'"
    by (auto simp: word_le_nat_alt word_less_nat_alt)
qed

text \<open>A matching event on the next pending orders of a book never traps and keeps the invariant.\<close>

lemma exchange_matching:
  assumes heap: "heap_ok s" and ex: "exchange_ok K s" and K: "K < 2 ^ 192"
    and b: "bt_get (st_books s) (me_book_id ev) = Some b" and p: "pending_order_seqs b = me_orders ev @ later"
  shows "\<exists>b' orders evs. record_matching_event ev now Write s =
      Some (s\<lparr>st_books := bt_insert (me_book_id ev) b' (st_books s), st_orders := orders, st_settling := st_settling s @ evs\<rparr>) \<and>
    exchange_ok K (s\<lparr>st_books := bt_insert (me_book_id ev) b' (st_books s), st_orders := orders, st_settling := st_settling s @ evs\<rparr>) \<and>
    pending_order_seqs b' = later \<and> length (hi_primary orders) = length (hi_primary (st_orders s))"
proof -
  let ?i = "me_book_id ev" and ?rates = "bk_fee_rates b"
  note x = exchange_okD [OF ex]
  obtain pair scale where l: "listed s ?i pair scale" "book_fit scale b" using heap_okD [OF heap b] .
  have bk: "book_ok b" "fee_rates_ok ?rates" using l(2) by (simp_all add: book_fit_def)
  obtain out b' where rd: "process_pending_orders (me_orders ev) b = Some (out, b')" "round_of scale b (me_orders ev) out b'"
      "pending_order_seqs b' = later"
    using matching_round [OF l(2) p] by blast
  let ?units = "map (fill_unit ?rates scale) (mo_fills out) @ map (expired_unit scale) (mo_expired out)"
  obtain ms orders n where ms: "from_matching out ?rates scale (ep_max_settlement_units_per_event (st_policy s)) = Some ms"
      "apply_updates ?i (ms_updates ms) now (st_orders s) = Some orders" "orders_follow ?i (ms_updates ms) (st_orders s) orders"
      "ms_batches ms = map unit_batch (chunks n ?units)" "\<And>q. round_delta K out q (update_of (ms_updates ms) q)"
    using round_updates [OF heap ex K b l rd(2) p, of now] by blast
  let ?evs = "map (\<lambda>us. batch_event ?i (unit_batch us)) (chunks n ?units)"
  let ?s = "s\<lparr>st_books := bt_insert ?i b' (st_books s), st_orders := orders, st_settling := st_settling s @ ?evs\<rparr>"
  have run: "record_matching_event ev now Write s = Some ?s"
    using listed_scale [OF l(1)] b rd(1) ms(1,2,4)
    by (simp add: record_matching_event_def Let_def batch_event_def comp_def)
  have m: "market ?s = market s" by (simp add: fun_eq_iff market_def base_scale_def)
  have fo: "orders_follow ?i (ms_updates ms) (st_orders s) (st_orders ?s)" using ms(3) by simp
  have "market ?s ?i = Some (pair, scale)" using listed_market [OF l(1)] m by simp
  note ev_ok = batch_event_ok [OF _ _ this]
  have "list_all (unit_good (\<lambda>q. history_get orders (?i, q)) scale) ?units"
    by (rule round_units_good [OF heap ex b l rd(2) bk(2)]) (use orders_followD [OF ms(3)] in metis)
  then have good: "list_all (unit_good (\<lambda>q. history_get (st_orders ?s) (?i, q)) scale) us" if "us \<in> set (chunks n ?units)" for us
    using chunks_subset [OF that] by (simp add: list_all_iff subset_iff)
  have new: "\<forall>ev \<in> set ?evs. event_ok ?s ev" using ev_ok [OF good] by auto
  have old: "\<And>ev. event_ok s ev \<Longrightarrow> event_ok ?s ev" by (rule event_follow [OF fo m]) simp
  have fills: "concat (map fills_of ?evs) = map (\<lambda>n. (?i, n)) (map fl_seq (mo_fills out))"
    unfolding map_map comp_def batch_events_fills concat_chunks round_fill_events by (simp add: fill_event_of_def settled_def)
  have "unat (bk_next_fill b') = unat (bk_next_fill b) + length (map fl_seq (mo_fills out))" using round_ofD(8) [OF rd(2)] by simp
  note queue = queue_follow [OF x(4,5) b _ _ _ old new fills round_fill_seqs [OF rd(2)] this]
  have "records_ok K ?s"
  proof (rule records_follow [OF x(3) b round_ofD(3) [OF rd(2)] fo])
    fix q r r' assume "record_fits K b q r" "updates_to (update_of (ms_updates ms) q) r r'"
    then show "record_fits K b' q r'"
      using record_fits_round [OF rd(2) p rd(3) bk(1)] ms(5) [of q] by (simp add: round_delta_def)
  qed simp_all
  moreover have "backed ?s"
  proof (rule backed_follow [OF x(2) b listed_market [OF l(1)] m owner_follow [OF fo]])
    fix u t
    show "stake_sum (hold (\<lambda>q. order_owner s (?i, q)) (pair, scale) u t) b = stake_sum (hold (\<lambda>q. order_owner s (?i, q)) (pair, scale) u t) b' +
      (\<Sum>ev\<leftarrow>?evs. ops_hold (\<lambda>q. order_owner s (?i, q)) (pair, scale) u t (se_operations ev))"
      using round_hold [OF rd(2) l(2)] batch_events_hold [of "\<lambda>q. order_owner s (?i, q)" "(pair, scale)" u t ?i "chunks n ?units"]
      by (simp add: comp_def)
  qed simp_all
  ultimately have "exchange_ok K ?s" using x(1) queue by (simp add: exchange_ok_def)
  then show ?thesis using run rd(3) ms(3) unfolding orders_follow_def by blast
qed

end
