(* ===== verification/Exchange_Orders.thy ===== *)
theory Exchange_Orders
  imports Exchange_Matching
begin

text \<open>The other events keep the exchange invariant: placing and cancelling orders, deposits and
  withdrawals, listings, grants, halts and upgrades.\<close>

section \<open>Frames\<close>

lemma total_agree:
  assumes "\<And>k v. bt_get m k = Some v \<Longrightarrow> f k v = g k v"
  shows "bt.total f m = bt.total g m"
  using bt.total_mono [of m f g] bt.total_mono [of m g f] assms by (simp add: le_antisym)

definition extends :: "trade_state \<Rightarrow> trade_state \<Rightarrow> bool" where
  "extends s s' \<longleftrightarrow> (\<forall>k u. order_owner s k = Some u \<longrightarrow> order_owner s' k = Some u) \<and> (\<forall>i m. market s i = Some m \<longrightarrow> market s' i = Some m)"

lemma hold_extends:
  assumes heap: "heap_ok s" and rec: "records_ok K s" and ext: "extends s s'"
  shows "bt_get (st_books s) i = Some b \<Longrightarrow> book_hold s' u t i b = book_hold s u t i b"
    "event_ok s ev \<Longrightarrow> event_hold s' u t ev = event_hold s u t ev"
proof -
  have own: "order_owner s' (j, q) = order_owner s (j, q)" if rq: "history_get (st_orders s) (j, q) \<noteq> None" for j q
  proof -
    obtain r where "history_get (st_orders s) (j, q) = Some r" using rq by blast
    then obtain u where "order_owner s (j, q) = Some u" using rec unfolding records_ok_def by blast
    then show ?thesis using ext unfolding extends_def by auto
  qed
  have mk: "\<exists>m. market s j = Some m \<and> market s' j = Some m" if c: "bt_get (st_books s) j = Some c" for j c
  proof -
    obtain pair scale where "listed s j pair scale" using heap_okD [OF heap c] .
    then show ?thesis using ext listed_market unfolding extends_def by blast
  qed
  show "book_hold s' u t i b = book_hold s u t i b" if b: "bt_get (st_books s) i = Some b"
  proof -
    obtain scale where "book_fit scale b" using heap_okD [OF heap b] by metis
    then have ok: "book_ok b" by (simp add: book_fit_def)
    have "order_owner s' (i, q) = order_owner s (i, q)" if "(q, sd, p) \<in> stake_terms b" for q sd p
      using live_record [OF rec b ok that] own by (metis option.distinct(1))
    then show ?thesis
      using mk [OF b] by (auto simp: book_hold_def intro!: stake_sum_cong) (auto simp: hold_def)
  qed
  show "event_hold s' u t ev = event_hold s u t ev" if ev: "event_ok s ev"
  proof -
    have "op_debtor op \<in> event_seqs ev" if "op \<in> set (se_operations ev)" for op
      using that by (auto simp: event_seqs_def intro!: bexI [of _ op])
    then have "order_owner s' (se_book_id ev, op_debtor op) = order_owner s (se_book_id ev, op_debtor op)" if "op \<in> set (se_operations ev)" for op
      using that ev own unfolding event_ok_def by blast
    moreover obtain m where "market s (se_book_id ev) = Some m" "market s' (se_book_id ev) = Some m"
      using mk ev unfolding event_ok_def by blast
    ultimately show ?thesis by (auto simp: event_hold_def intro!: ops_hold_cong)
  qed
qed

lemma locked_extends:
  assumes "heap_ok s" "records_ok K s" "settling_ok s" "extends s s'" "st_settling s' = st_settling s"
  shows "bt.total (book_hold s' u t) (st_books s) + (\<Sum>ev\<leftarrow>st_settling s'. event_hold s' u t ev) = locked s u t"
proof -
  have "bt.total (book_hold s' u t) (st_books s) = bt.total (book_hold s u t) (st_books s)"
    by (rule total_agree) (rule hold_extends(1) [OF assms(1,2,4)])
  moreover have "(\<Sum>ev\<leftarrow>st_settling s. event_hold s' u t ev) = (\<Sum>ev\<leftarrow>st_settling s. event_hold s u t ev)"
    using assms(3) hold_extends(2) [OF assms(1,2,4)] by (intro arg_cong [of _ _ sum_list] map_cong) (auto simp: settling_ok_def)
  ultimately show ?thesis by (simp add: locked_def assms(5))
qed

text \<open>Events stay settleable when records, books and markets only grow.\<close>

lemma event_ok_grow:
  assumes "event_ok s ev" "\<And>i m. market s i = Some m \<Longrightarrow> market s' i = Some m"
    "\<And>k r. history_get (st_orders s) k = Some r \<Longrightarrow> history_get (st_orders s') k = Some r"
    "\<And>i. bt_get (st_books s) i \<noteq> None \<Longrightarrow> bt_get (st_books s') i \<noteq> None"
  shows "event_ok s' ev"
proof -
  have "fill_event_ok s' ev f" if "fill_event_ok s ev f" for f
    using that assms(2,3) unfolding fill_event_ok_def by metis
  then show ?thesis using assms unfolding event_ok_def by (metis not_Some_eq)
qed

lemma exchange_frame:
  assumes heap: "heap_ok s" and ex: "exchange_ok K s" and ext: "extends s s'"
    and s': "st_books s' = st_books s" "st_orders s' = st_orders s" "st_trades s' = st_trades s" "st_settling s' = st_settling s"
      "\<And>u t. reserved_of (tb_balances (st_balances s')) u t = reserved_of (tb_balances (st_balances s)) u t"
      "\<And>t. token_total t (st_balances s') \<le> K"
  shows "exchange_ok K s'"
proof -
  note x = exchange_okD [OF ex]
  have "backed s'"
    using x(2) locked_extends [OF heap x(3,4) ext s'(4)] by (simp add: backed_def s'(5)) (simp add: locked_def s'(1))
  moreover have "order_owner s' (i, q) \<noteq> None" if r: "history_get (st_orders s) (i, q) = Some r" for i q r
    using records_okD [OF x(3) r] ext unfolding extends_def by (metis option.distinct(1))
  then have "records_ok K s'" using x(3) unfolding records_ok_def s' by blast
  moreover have qf: "queued_fills s' = queued_fills s" "minted s' = minted s" by (simp_all add: queued_fills_def minted_def fun_eq_iff s')
  moreover have "event_ok s' ev" if "event_ok s ev" for ev
    by (rule event_ok_grow [OF that]) (use ext in \<open>auto simp: extends_def s'\<close>)
  then have "settling_ok s'" using x(4) unfolding settling_ok_def qf s'(4) by blast
  moreover have "trades_ok s'" using x(5) unfolding trades_ok_def qf s' .
  ultimately show ?thesis using s'(6) by (simp add: exchange_ok_def)
qed

section \<open>Cancelling an order\<close>

lemma remove_order_view:
  assumes ok: "book_ok b" and q: "q \<in> set (resting_ids b) \<union> set (pending_order_seqs b)"
  obtains removed b' where "remove_order q b = Some (Some removed, b')" "set (resting_ids b') = set (resting_ids b) - {q}"
    "set (pending_order_seqs b') = set (pending_order_seqs b) - {q}" "stake_terms b' \<subseteq> stake_terms b"
    "valid_amounts b (rm_price removed) (rm_remaining removed)" "(q, rm_side removed, rm_price removed) \<in> stake_terms b"
proof (cases "q \<in> set (resting_ids b)")
  case True
  obtain s p r bids asks b' xs ys where x: "remove_order q b = Some (Some \<lparr>rm_side = s, rm_price = p, rm_remaining = ro_remaining r\<rparr>, b')"
      "b' = with_queues bids asks b\<lparr>bk_resting_orders := bt_remove q (bk_resting_orders b)\<rparr>" "ro_id r = q"
      "side_list s b = xs @ (p, r) # ys" "side_list s b' = xs @ ys" "side_list (opposite s) b' = side_list (opposite s) b"
    using remove_resting_ok [OF ok True] by blast
  have dist: "distinct (resting_ids b)" using ok by (simp add: book_ok_def index_ok_def)
  have ids: "set (resting_ids c) = set (makers_ids (side_list s c)) \<union> set (makers_ids (side_list (opposite s) c))" for c
    by (cases s) (auto simp: resting_ids_def)
  have "set (resting_ids b') = set (resting_ids b) - {q}"
    using dist x(3-6) unfolding ids by (cases s) (auto simp: resting_ids_def makers_ids_def)
  moreover have pend: "pending_order_seqs b' = pending_order_seqs b" "bk_pending_orders b' = bk_pending_orders b"
    by (simp_all add: x(2) with_queues_def pending_order_seqs_def)
  moreover have "q \<notin> set (pending_order_seqs b)" using ok True unfolding book_ok_def pending_ok_def by fastforce
  moreover have "set (side_list s' b') \<subseteq> set (side_list s' b)" for s'
    using x(4-6) by (cases "s' = s") (auto, (cases s; cases s'; simp)+)
  then have "stake_terms b' \<subseteq> stake_terms b" unfolding stake_terms_def pend(2) by blast
  moreover have "side_ok b s" using ok by (cases s) (simp_all add: book_ok_def)
  then have "valid_amounts b p (ro_remaining r)" using x(4) by (simp add: side_ok_def)
  moreover have "(q, s, p) \<in> stake_terms b" using x(3,4) by (fastforce simp: stake_terms_def)
  ultimately show ?thesis using that x(1) by simp
next
  case False
  then have q: "q \<in> set (pending_order_seqs b)" using q by blast
  obtain ord xs ys b' where x: "remove_order q b = Some (Some \<lparr>rm_side = ord_side ord, rm_price = ord_price ord, rm_remaining = ord_remaining ord\<rparr>, b')"
      "b' = b\<lparr>bk_pending_orders := xs @ ys\<rparr>" "ord_id ord = q" "bk_pending_orders b = xs @ ord # ys"
    using remove_pending_ok [OF ok False q] by blast
  have sides: "side_list s b' = side_list s b" "resting_ids b' = resting_ids b" for s by (simp_all add: x(2) side_list_def resting_ids_def)
  have "sorted_wrt (<) (pending_order_seqs b)" using ok by (simp add: book_ok_def pending_ok_def)
  then have "distinct (pending_order_seqs b)" using strict_sorted_iff by blast
  then have "set (pending_order_seqs b') = set (pending_order_seqs b) - {q}" using x(2-4) by (auto simp: pending_order_seqs_def)
  moreover have "stake_terms b' \<subseteq> stake_terms b" unfolding stake_terms_def sides using x(2,4) by auto
  moreover have "valid_amounts b (ord_price ord) (ord_remaining ord)" using ok x(4) by (simp add: book_ok_def pending_ok_def)
  moreover have "(q, ord_side ord, ord_price ord) \<in> stake_terms b" using x(3,4) by (force simp: stake_terms_def)
  ultimately show ?thesis using that x(1) False sides(2) by simp
qed

lemma removed_fits:
  assumes "book_fit scale b" "remove_order q b = Some (Some removed, b')" "valid_amounts b (rm_price removed) (rm_remaining removed)"
  shows "value_ok scale (rm_price removed) (rm_remaining removed)" "quote_value scale (rm_price removed) (rm_remaining removed) \<noteq> 0"
proof -
  have b: "book_ok b" "scale \<noteq> 0" "unat scale dvd unat (bk_tick_size b) * unat (bk_lot_size b)" "stake_sum (worth_of q) b < 2 ^ 256"
    using assms(1) by (simp_all add: book_fit_def)
  have "unat (rm_price removed) * q2n (rm_remaining removed) < 2 ^ 256"
    using stake_sum_remove(1) [OF b(1) assms(2), of "worth_of q"] b(4) by (simp add: removed_stake_def worth_of_def)
  moreover have d: "unat scale dvd unat (rm_price removed) * q2n (rm_remaining removed)"
    using assms(3) by (intro dvd_value [OF b(3)]) (simp_all add: valid_amounts_def)
  ultimately show "value_ok scale (rm_price removed) (rm_remaining removed)" using b(2) by (simp add: value_ok_def)
  have "unat (rm_price removed) * q2n (rm_remaining removed) \<noteq> 0" using assms(3) by (simp add: valid_amounts_def unat_eq_0)
  then show "quote_value scale (rm_price removed) (rm_remaining removed) \<noteq> 0"
    unfolding quote_value_def using d by (simp only: dvd_div_eq_0_iff not_False_eq_True)
qed

lemma record_fits_cancel:
  assumes ok: "book_ok b" and rem: "remove_order q b = Some (Some removed, b')" "set (resting_ids b') = set (resting_ids b) - {q}"
      "set (pending_order_seqs b') = set (pending_order_seqs b) - {q}" "stake_terms b' \<subseteq> stake_terms b"
    and fit: "record_fits K b q' r" and upd: "updates_to (update_of [(q, update_cancel cb)] q') r r'"
  shows "record_fits K b' q' r'"
proof -
  note rm = stake_sum_remove [OF ok rem(1)]
  have sum: "stake_sum (remaining_of q') b = stake_sum (remaining_of q') b' + (if q' = q then q2n (rm_remaining removed) else 0)"
    using rm(1) [of "remaining_of q'"] by (simp add: removed_stake_def remaining_of_def)
  have u: "update_of [(q, update_cancel cb)] q' = (if q' = q then update_cancel cb else order_update_default)"
    by (simp add: update_of_def)
  have terms: "s = or_side r \<and> p = or_price r" if "(q', s, p) \<in> stake_terms b'" for s p
    using that rem(4) fit by (auto simp: record_fits_def)
  show ?thesis
  proof (cases "q' = q")
    case True
    then have "updates_to (update_cancel cb) r r'" using upd unfolding u by simp
    then show ?thesis
      using True fit sum rm(5) rem(2,3) terms by (simp add: record_fits_def updates_to_def update_cancel_def)
  next
    case False
    then have "updates_to order_update_default r r'" using upd unfolding u by simp
    then show ?thesis
      using False fit sum rm(5) rem(2,3) terms by (simp add: record_fits_def updates_to_def order_update_default_def)
  qed
qed

text \<open>The event a cancellation queues.\<close>

definition refund_event :: "order_book_id \<Rightarrow> u64 \<Rightarrow> order_seq \<Rightarrow> removed_order \<Rightarrow> settling_event" where
  "refund_event i scale q removed = \<lparr>se_book_id = i, se_operations = su_operations (expired_unit scale (q, removed)), se_fills = []\<rparr>"

lemma cancel_runs:
  assumes heap: "heap_ok s" and ex: "exchange_ok K s" and r: "history_get (st_orders s) (i, q) = Some r"
    and st: "or_status r = Pending \<or> or_status r = Open"
  obtains b u pair scale removed b' orders where "order_owner s (i, q) = Some u" "bt_get (st_books s) i = Some b" "record_fits K b q r"
    "listed s i pair scale" "book_ok b" "remove_order q b = Some (Some removed, b')" "set (resting_ids b') = set (resting_ids b) - {q}"
    "set (pending_order_seqs b') = set (pending_order_seqs b) - {q}" "stake_terms b' \<subseteq> stake_terms b"
    "(q, rm_side removed, rm_price removed) \<in> stake_terms b" "removed_ok scale removed"
    "orders_follow i [(q, update_cancel cb)] (st_orders s) orders" "list_all op_ok (se_operations (refund_event i scale q removed))"
    "record_cancel_limit_order (i, q) cb now Write s = Some (s\<lparr>st_books := bt_insert i b' (st_books s), st_orders := orders,
       st_settling := st_settling s @ [refund_event i scale q removed]\<rparr>)"
proof -
  note x = exchange_okD [OF ex]
  obtain b u where b: "order_owner s (i, q) = Some u" "bt_get (st_books s) i = Some b" "record_fits K b q r"
    using records_okD [OF x(3) r] .
  obtain pair scale where l: "listed s i pair scale" "book_fit scale b" using heap_okD [OF heap b(2)] .
  have ok: "book_ok b" using l(2) by (simp add: book_fit_def)
  have "q \<in> set (resting_ids b) \<union> set (pending_order_seqs b)" using b(3) st by (auto simp: record_fits_def)
  then obtain removed b' where rem: "remove_order q b = Some (Some removed, b')" "set (resting_ids b') = set (resting_ids b) - {q}"
      "set (pending_order_seqs b') = set (pending_order_seqs b) - {q}" "stake_terms b' \<subseteq> stake_terms b"
      "valid_amounts b (rm_price removed) (rm_remaining removed)" "(q, rm_side removed, rm_price removed) \<in> stake_terms b"
    using remove_order_view [OF ok] by blast
  note rm = stake_sum_remove [OF ok rem(1)] and val = removed_fits [OF l(2) rem(1,5)]
  have ro: "removed_ok scale removed" using val(1) by (simp add: removed_ok_def)
  obtain rs where st: "removed_settlement_new q removed scale = Some rs"
      "removed_balance_operations rs = su_operations (expired_unit scale (q, removed))"
    using removed_settlement_ok [OF ro, of q q Base] unfolding expired_unit_pair settlement_unit.select_convs by blast
  have "update_fits (update_cancel cb) r"
    using b(3) q2n_bound by (auto simp: update_fits_def update_cancel_def record_fits_def)
  then obtain orders where o: "apply_updates i [(q, update_cancel cb)] now (st_orders s) = Some orders"
      "orders_follow i [(q, update_cancel cb)] (st_orders s) orders"
    using apply_updates_fit [of "st_orders s" "[(q, update_cancel cb)]" i now] x(3) r unfolding orders_follow_def records_ok_def by (auto simp: bt_ok_def)
  have ops: "list_all op_ok (se_operations (refund_event i scale q removed))"
    using ro val rem(5) by (cases "rm_side removed") (auto simp: refund_event_def expired_unit_def op_ok_def valid_amounts_def)
  have "record_cancel_limit_order (i, q) cb now Write s = Some (s\<lparr>st_books := bt_insert i b' (st_books s), st_orders := orders,
       st_settling := st_settling s @ [refund_event i scale q removed]\<rparr>)"
    using listed_scale [OF l(1)] b(2) rem(1) o(1) st by (simp add: record_cancel_limit_order_def refund_event_def trap_simps)
  then show ?thesis using that [OF b l(1) ok rem(1-4,6) ro o(2) ops] by blast
qed

lemma exchange_cancel:
  assumes heap: "heap_ok s" and ex: "exchange_ok K s" and r: "history_get (st_orders s) (i, q) = Some r"
    and st: "or_status r = Pending \<or> or_status r = Open"
  shows "\<exists>s'. record_cancel_limit_order (i, q) cb now Write s = Some s' \<and> exchange_ok K s' \<and>
    length (hi_primary (st_orders s')) = length (hi_primary (st_orders s))"
proof -
  note x = exchange_okD [OF ex]
  obtain b u pair scale removed b' orders where c: "order_owner s (i, q) = Some u" "bt_get (st_books s) i = Some b" "record_fits K b q r"
    "listed s i pair scale" "book_ok b" "remove_order q b = Some (Some removed, b')" "set (resting_ids b') = set (resting_ids b) - {q}"
    "set (pending_order_seqs b') = set (pending_order_seqs b) - {q}" "stake_terms b' \<subseteq> stake_terms b"
    "removed_ok scale removed" "orders_follow i [(q, update_cancel cb)] (st_orders s) orders"
    "list_all op_ok (se_operations (refund_event i scale q removed))"
    "record_cancel_limit_order (i, q) cb now Write s = Some (s\<lparr>st_books := bt_insert i b' (st_books s), st_orders := orders,
       st_settling := st_settling s @ [refund_event i scale q removed]\<rparr>)"
    using cancel_runs [OF assms, where cb = cb and now = now] by metis
  note rm = stake_sum_remove [OF c(5,6)]
  let ?ev = "refund_event i scale q removed"
  let ?s = "s\<lparr>st_books := bt_insert i b' (st_books s), st_orders := orders, st_settling := st_settling s @ [?ev]\<rparr>"
  have m: "market ?s = market s" by (simp add: fun_eq_iff market_def base_scale_def)
  have fo: "orders_follow i [(q, update_cancel cb)] (st_orders s) (st_orders ?s)" using c(11) by simp
  have "records_ok K ?s"
    by (rule records_follow [OF x(3) c(2) rm(4) fo]) (use record_fits_cancel [OF c(5-9)] in auto)
  moreover have "backed ?s"
  proof (rule backed_follow [OF x(2) c(2) listed_market [OF c(4)] m owner_follow [OF fo]])
    fix u t
    show "stake_sum (hold (\<lambda>q. order_owner s (i, q)) (pair, scale) u t) b = stake_sum (hold (\<lambda>q. order_owner s (i, q)) (pair, scale) u t) b' +
        (\<Sum>ev\<leftarrow>[?ev]. ops_hold (\<lambda>q. order_owner s (i, q)) (pair, scale) u t (se_operations ev))"
      using rm(1) by (simp add: refund_event_def expired_unit_hold [OF c(10)])
  qed (auto simp: refund_event_def)
  moreover obtain r' where "history_get orders (i, q) = Some r'" using orders_followD [OF c(11) r] .
  then have "event_ok ?s ?ev"
    using c(12) by (cases "rm_side removed") (auto simp: event_ok_def event_seqs_def refund_event_def expired_unit_def op_seqs_def)
  then have "settling_ok ?s \<and> trades_ok ?s"
    using queue_follow [OF x(4,5) c(2), of ?s b' "[?ev]" "[]"] event_follow [OF fo m] rm(5) by (simp add: fills_of_def refund_event_def)
  ultimately show ?thesis using c(13) x(1) c(11) by (auto simp: exchange_ok_def orders_follow_def)
qed

section \<open>Placing an order\<close>

lemma tb_reserve_reserved:
  assumes "tb_reserve u t a tb = Some (Inr x, tb')"
  shows "reserved_of (tb_balances tb') u' t' = reserved_of (tb_balances tb) u' t' + (if u' = u \<and> t' = t then q2n a else 0)"
proof -
  let ?wb = "write_back_new (tb_balances tb) (tb_fee_pool tb)"
  obtain b where b: "balance_reserve a (map_balance (tb_balances tb) (t, u)) = Some (Inr b)"
      "tb_balances tb' = wb_flush (wb_put (t, u) ((wb_row ?wb (t, u))\<lparr>row_balance := b\<rparr>) ?wb)"
    using assms by (auto simp: tb_reserve_def with_write_back_def wb_reserve_def try_mutate_eq trap_simps split: option.splits sum.splits)
  have "wb_ok (wb_put (t, u) ((wb_row ?wb (t, u))\<lparr>row_balance := b\<rparr>) ?wb)" by (rule wb_ok_put) simp_all
  then show ?thesis
    using b(1) by (auto simp: reserved_of_def b(2) map_balance_flush balance_reserve_Inr)
qed

lemma tb_reserve_succeeds:
  assumes "q2n a \<le> q2n (bal_free (map_balance (tb_balances tb) (t, u)))" "token_total t tb < 2 ^ 256"
  shows "\<exists>tb'. tb_reserve u t a tb = Some (Inr (), tb')"
proof -
  let ?b = "map_balance (tb_balances tb) (t, u)"
  have "balance_total ?b \<le> token_total t tb" using balance_total_le_user_total [of "(t, u)" t "tb_balances tb"] by (simp add: token_total_def)
  then have "q2n (bal_reserved ?b) + q2n a < 2 ^ 256" using assms by (simp add: balance_total_def)
  then obtain b where "balance_reserve a ?b = Some (Inr b)"
    using assms(1) by (auto simp: balance_reserve_def quantity_sub_eq quantity_add_eq)
  then show ?thesis by (simp add: tb_reserve_def with_write_back_def wb_reserve_def try_mutate_eq)
qed

lemma order_requirement_eq:
  assumes "value_ok scale (ord_price ord) (ord_remaining ord)"
  obtains required where "order_requirement pair scale ord = Some (trading_pair_token pair (lock_token (ord_side ord)), required)"
    "\<And>own u t. own (ord_id ord) = Some u' \<Longrightarrow> order_stake (hold own (pair, scale) u t) ord =
       (if u = u' \<and> t = trading_pair_token pair (lock_token (ord_side ord)) then q2n required else 0)"
  using assms that
  by (cases "ord_side ord")
     (auto simp: order_requirement_def expect_notional_eq lock_token_def trading_pair_token_def order_stake_def hold_def quote_value_def [symmetric])

definition pushed :: "order \<Rightarrow> order_book \<Rightarrow> order_book" where
  "pushed ord b = b\<lparr>bk_pending_orders := bk_pending_orders b @ [ord], bk_next_seq := bk_next_seq b + 1\<rparr>"

lemma pushed_view [simp]:
  "resting_ids (pushed ord b) = resting_ids b" "pending_order_seqs (pushed ord b) = pending_order_seqs b @ [ord_id ord]"
  "stake_terms (pushed ord b) = insert (ord_id ord, ord_side ord, ord_price ord) (stake_terms b)"
  "bk_next_fill (pushed ord b) = bk_next_fill b" "stake_sum f (pushed ord b) = stake_sum f b + order_stake f ord"
  by (auto simp: pushed_def resting_ids_def side_list_def pending_order_seqs_def stake_terms_def stake_sum_push)

lemma record_fits_pushed:
  assumes "record_fits K b q r" "ord_id ord \<noteq> q"
  shows "record_fits K (pushed ord b) q r"
proof -
  have "order_stake (remaining_of q) ord = 0" using assms(2) by (simp add: order_stake_def remaining_of_def)
  then show ?thesis using assms by (auto simp: record_fits_def)
qed

lemma record_fits_initial:
  assumes ok: "book_ok b" and q: "ord_id ord = bk_next_seq b"
  shows "record_fits K (pushed ord b) (ord_id ord) (initial_record user ord placed_by now)"
proof -
  have lt: "\<forall>j \<in> set (resting_ids b) \<union> set (pending_order_seqs b). j < bk_next_seq b"
    using ok unfolding book_ok_def pending_ok_def by blast
  have "stake_sum (remaining_of (ord_id ord)) b = 0"
    using order_ids_bounded [OF ok, of "ord_id ord" "\<lambda>s p n. n"] q by (simp add: remaining_of_def)
  moreover have "(ord_id ord, sd, p) \<notin> stake_terms b" for sd p using stake_terms_valid [OF ok] q by (metis order_less_irrefl)
  moreover have "ord_id ord \<notin> set (resting_ids b)" using lt q by auto
  ultimately show ?thesis
    by (auto simp: record_fits_def initial_record_def order_stake_def remaining_of_def)
qed

lemma records_place:
  assumes rec: "records_ok K s" and ok: "book_ok b" and b: "bt_get (st_books s) i = Some b" and ord: "ord_id ord = bk_next_seq b"
    and own: "order_owner s' (i, ord_id ord) \<noteq> None" "extends s s'"
    and s': "st_books s' = bt_insert i (pushed ord b) (st_books s)" "history_ok (st_orders s')"
      "history_get (st_orders s') = (history_get (st_orders s))((i, ord_id ord) \<mapsto> initial_record user ord placed_by now)"
      "length (hi_primary (st_orders s')) = Suc (length (hi_primary (st_orders s)))"
    and seq: "unat (bk_next_seq (pushed ord b)) = Suc (unat (bk_next_seq b))"
  shows "records_ok K s'"
  unfolding records_ok_def
proof (intro conjI allI impI)
  have grow: "q < bk_next_seq (pushed ord b) \<longleftrightarrow> q < bk_next_seq b \<or> q = bk_next_seq b" for q
    using seq by (auto simp: word_less_nat_alt intro: word_unat_eq_iff [THEN iffD2])
  show "history_ok (st_orders s')" by (rule s'(2))
  show "bt.total (\<lambda>i b. unat (bk_next_seq b)) (st_books s') = length (hi_primary (st_orders s'))"
    using rec bt.total_put [of "\<lambda>i b. unat (bk_next_seq b)" i "pushed ord b" "st_books s"] b seq
    by (simp add: records_ok_def s'(1,4))
  fix j q
  show "history_get (st_orders s') (j, q) \<noteq> None" if "bt_get (st_books s') j = Some c" "q < bk_next_seq c" for c
  proof (cases "(j, q) = (i, ord_id ord)")
    case False
    then have "\<exists>c'. bt_get (st_books s) j = Some c' \<and> q < bk_next_seq c'"
      using that b ord grow [of q] by (auto simp: s'(1) split: if_splits)
    then show ?thesis using rec False unfolding records_ok_def s'(3) by auto
  qed (simp add: s'(3))
  fix r' assume r': "history_get (st_orders s') (j, q) = Some r'"
  show "order_owner s' (j, q) \<noteq> None"
  proof (cases "(j, q) = (i, ord_id ord)")
    case False
    then have "history_get (st_orders s) (j, q) = Some r'" using r' by (auto simp: s'(3) split: if_splits)
    then obtain v where "order_owner s (j, q) = Some v" using rec unfolding records_ok_def by blast
    then show ?thesis using own(2) by (auto simp: extends_def)
  qed (use own(1) in simp)
  show "\<exists>c. bt_get (st_books s') j = Some c \<and> q < bk_next_seq c \<and> record_fits K c q r'"
  proof (cases "(j, q) = (i, ord_id ord)")
    case True
    then show ?thesis
      using r' record_fits_initial [OF ok ord, of K user placed_by now] grow [of q] ord by (auto simp: s'(1,3))
  next
    case False
    then have r: "history_get (st_orders s) (j, q) = Some r'" using r' by (auto simp: s'(3) split: if_splits)
    obtain c u where "bt_get (st_books s) j = Some c" "q < bk_next_seq c" "record_fits K c q r'" using records_okD [OF rec r] .
    then show ?thesis using b grow [of q] record_fits_pushed [of K b q r' ord] ord by (auto simp: s'(1))
  qed
qed

lemma place_runs:
  assumes heap: "heap_ok s" and ex: "exchange_ok K s" and K: "K < 2 ^ 192" and orders: "length (hi_primary (st_orders s)) < 2 ^ 62"
    and b: "bt_get (st_books s) i = Some b" "listed s i pair scale" "book_ok b"
    and ord: "ord_id ord = bk_next_seq b" "valid_amounts b (ord_price ord) (ord_remaining ord)"
    and user: "lookup_funding_id (st_registry s) user = Some u" "order_requirement pair scale ord = Some (token, required)"
      "q2n required \<le> q2n (bal_free (map_balance (tb_balances (st_balances s)) (token, u)))"
  obtains tb h where "tb_reserve u token required (st_balances s) = Some (Inr (), tb)"
    "record_limit_order user i ord placed_by now Write s =
       Some (s\<lparr>st_balances := tb, st_orders := h, st_books := bt_insert i (pushed ord b) (st_books s)\<rparr>)"
    "history_ok h" "history_get h = (history_get (st_orders s))((i, ord_id ord) \<mapsto> initial_record user ord placed_by now)"
    "length (hi_primary h) = Suc (length (hi_primary (st_orders s)))" "history_get (st_orders s) (i, ord_id ord) = None"
    "unat (bk_next_seq (pushed ord b)) = Suc (unat (bk_next_seq b))"
proof -
  note x = exchange_okD [OF ex]
  have lt: "token_total t (st_balances s) < 2 ^ 256" for t using x(1) [of t] K by simp
  obtain tb where tb: "tb_reserve u token required (st_balances s) = Some (Inr (), tb)" using tb_reserve_succeeds [OF user(3) lt] by blast
  have none: "history_get (st_orders s) (i, ord_id ord) = None"
  proof (rule ccontr)
    assume "history_get (st_orders s) (i, ord_id ord) \<noteq> None"
    then obtain r where "history_get (st_orders s) (i, ord_id ord) = Some r" by blast
    then show False using x(3) b(1) ord(1) unfolding records_ok_def by fastforce
  qed
  have hist: "history_ok (st_orders s)" "bt_get (hi_primary (st_orders s)) (i, ord_id ord) = None" "length (hi_primary (st_orders s)) < 2 ^ 64 - 1"
    using x(3) none orders by (simp_all add: records_ok_def history_get_def)
  obtain h where h: "insert_once u (i, ord_id ord) (initial_record user ord placed_by now) (st_orders s) = Some h" "history_ok h"
      "history_get h = (history_get (st_orders s))((i, ord_id ord) \<mapsto> initial_record user ord placed_by now)"
      "length (hi_primary h) = Suc (length (hi_primary (st_orders s)))"
    using insert_once_ok [OF hist, of u "initial_record user ord placed_by now"] by blast
  have "unat (bk_next_seq b) \<le> bt.total (\<lambda>i b. unat (bk_next_seq b)) (st_books s)" using bt.le_total [OF b(1), of "\<lambda>i b. unat (bk_next_seq b)"] by simp
  then have small: "unat (bk_next_seq b) + 1 < 2 ^ 64" using x(3) orders by (simp add: records_ok_def)
  then have seq: "unat (bk_next_seq (pushed ord b)) = Suc (unat (bk_next_seq b))" by (simp add: pushed_def) (subst unat_add_no_overflow, simp_all)
  have push: "add_pending_order ord b = Some (pushed ord b)" using add_pending_order_ok(1) [OF b(3) ord(2,1) small] by (simp add: pushed_def)
  let ?s = "s\<lparr>st_balances := tb, st_orders := h, st_books := bt_insert i (pushed ord b) (st_books s)\<rparr>"
  have "record_limit_order user i ord placed_by now Write s = Some ?s"
    using b user(1,2) tb h(1) push by (simp add: record_limit_order_def listed_def reserve_and_record_def)
  then show ?thesis using that tb h none seq by blast
qed

lemma exchange_place:
  assumes heap: "heap_ok s" and ex: "exchange_ok K s" and K: "K < 2 ^ 192" and orders: "length (hi_primary (st_orders s)) < 2 ^ 62"
    and b: "bt_get (st_books s) i = Some b" "listed s i pair scale"
    and ord: "ord_id ord = bk_next_seq b" "valid_amounts b (ord_price ord) (ord_remaining ord)" "unat (ord_price ord) * q2n (ord_remaining ord) < 2 ^ 256"
    and user: "lookup_funding_id (st_registry s) user = Some u" "order_requirement pair scale ord = Some (token, required)"
      "q2n required \<le> q2n (bal_free (map_balance (tb_balances (st_balances s)) (token, u)))"
  shows "\<exists>s'. record_limit_order user i ord placed_by now Write s = Some s' \<and> exchange_ok K s' \<and>
    length (hi_primary (st_orders s')) = Suc (length (hi_primary (st_orders s)))"
proof -
  note x = exchange_okD [OF ex]
  have fit: "book_fit scale b" using heap_okD [OF heap b(1)] listed_unique [OF b(2)] by metis
  have ok: "book_ok b" using fit by (simp add: book_fit_def)
  have val: "value_ok scale (ord_price ord) (ord_remaining ord)"
    using fit ord(2,3) by (auto simp: value_ok_def book_fit_def valid_amounts_def intro: dvd_value)
  have stake: "order_stake (hold own (pair, scale) v t) ord = (if v = u \<and> t = token then q2n required else 0)"
    if "own (ord_id ord) = Some u" for own v t
    using order_requirement_eq [OF val, of pair u] user(2) that by (metis option.inject prod.inject)
  obtain tb h where p: "tb_reserve u token required (st_balances s) = Some (Inr (), tb)"
    "record_limit_order user i ord placed_by now Write s =
       Some (s\<lparr>st_balances := tb, st_orders := h, st_books := bt_insert i (pushed ord b) (st_books s)\<rparr>)" (is "_ = Some ?s")
    "history_ok h" "history_get h = (history_get (st_orders s))((i, ord_id ord) \<mapsto> initial_record user ord placed_by now)"
    "length (hi_primary h) = Suc (length (hi_primary (st_orders s)))" "history_get (st_orders s) (i, ord_id ord) = None"
    "unat (bk_next_seq (pushed ord b)) = Suc (unat (bk_next_seq b))"
    using place_runs [OF heap ex K orders b ok ord(1,2) user] .
  have m: "market ?s = market s" by (simp add: fun_eq_iff market_def base_scale_def)
  have own: "order_owner ?s = (order_owner s)((i, ord_id ord) \<mapsto> u)"
    using user(1) by (auto simp: fun_eq_iff order_owner_def p(4) initial_record_def)
  have "order_owner s (i, ord_id ord) = None" using p(6) by (simp add: order_owner_def)
  then have ext: "extends s ?s" by (auto simp: extends_def own m)
  have "records_ok K ?s" by (rule records_place [OF x(3) ok b(1) ord(1) _ ext]) (simp_all add: own p)
  moreover have "backed ?s"
    unfolding backed_def
  proof (intro allI)
    fix v t
    have "book_hold ?s v t i (pushed ord b) = book_hold ?s v t i b + (if v = u \<and> t = token then q2n required else 0)"
      using listed_market [OF b(2)] stake by (simp add: book_hold_def m own)
    then have "locked ?s v t = locked s v t + (if v = u \<and> t = token then q2n required else 0)"
      using locked_extends [OF heap x(3,4) ext, of v t] bt.total_put [of "book_hold ?s v t" i "pushed ord b" "st_books s"] b(1)
      by (simp add: locked_def)
    then show "reserved_of (tb_balances (st_balances ?s)) v t = locked ?s v t"
      using tb_reserve_reserved [OF p(1), of v t] x(2) by (simp add: backed_def)
  qed
  moreover have "settling_ok ?s \<and> trades_ok ?s"
  proof -
    have "event_ok ?s ev" if "event_ok s ev" for ev by (rule event_ok_grow [OF that]) (use m p(4,6) in auto)
    then show ?thesis using queue_follow [OF x(4,5) b(1), of ?s "pushed ord b" "[]" "[]"] by simp
  qed
  ultimately show ?thesis using x(1) p(2,5) tb.reserve_total [OF p(1)] by (simp add: exchange_ok_def)
qed

section \<open>Deposits and withdrawals\<close>

lemma tb_deposit_reserved:
  assumes "tb_deposit u t a tb = Some tb'"
  shows "reserved_of (tb_balances tb') u' t' = reserved_of (tb_balances tb) u' t'"
proof -
  let ?wb = "write_back_new (tb_balances tb) (tb_fee_pool tb)"
  obtain b where b: "balance_deposit a (map_balance (tb_balances tb) (t, u)) = Some b"
      "tb_balances tb' = wb_flush (wb_put (t, u) ((wb_row ?wb (t, u))\<lparr>row_balance := b\<rparr>) ?wb)"
    using assms by (auto simp: tb_deposit_def with_write_back_def wb_deposit_def load_or_create_Some trap_simps)
  have "wb_ok (wb_put (t, u) ((wb_row ?wb (t, u))\<lparr>row_balance := b\<rparr>) ?wb)" by (rule wb_ok_put) simp_all
  then show ?thesis using b(1) by (auto simp: reserved_of_def b(2) map_balance_flush balance_deposit_Some)
qed

lemma tb_withdraw_reserved:
  assumes "tb_withdraw u t a tb = Some (r, tb')"
  shows "reserved_of (tb_balances tb') u' t' = reserved_of (tb_balances tb) u' t'"
proof -
  let ?wb = "write_back_new (tb_balances tb) (tb_fee_pool tb)"
  obtain wb where w: "wb_withdraw u t a ?wb = Some (r, wb)" "tb_balances tb' = wb_flush wb"
    using assms by (auto simp: tb_withdraw_def with_write_back_def trap_simps)
  then consider "wb = ?wb" | b where "balance_withdraw a (map_balance (tb_balances tb) (t, u)) = Some (Inr b)"
      "wb = wb_put (t, u) ((wb_row ?wb (t, u))\<lparr>row_balance := b\<rparr>) ?wb"
    by (auto simp: wb_withdraw_def try_mutate_eq split: option.splits sum.splits)
  then show ?thesis
  proof cases
    case 1
    then show ?thesis by (simp add: reserved_of_def w(2) map_balance_flush)
  next
    case (2 b)
    have "wb_ok wb" unfolding 2(2) by (rule wb_ok_put) simp_all
    then show ?thesis using 2(1) by (auto simp: reserved_of_def w(2) map_balance_flush 2(2) balance_withdraw_Inr)
  qed
qed

lemma tb_deposit_succeeds:
  assumes "token_total t tb + q2n a < 2 ^ 256"
  shows "\<exists>tb'. tb_deposit u t a tb = Some tb'"
proof -
  let ?b = "map_balance (tb_balances tb) (t, u)"
  have "balance_total ?b \<le> token_total t tb" using balance_total_le_user_total [of "(t, u)" t "tb_balances tb"] by (simp add: token_total_def)
  then have "q2n (bal_free ?b) + q2n a < 2 ^ 256" using assms by (simp add: balance_total_def)
  then obtain b where "balance_deposit a ?b = Some b" by (auto simp: balance_deposit_def quantity_add_eq)
  then show ?thesis by (simp add: tb_deposit_def with_write_back_def wb_deposit_def load_or_create_def Let_def wb_balance_def [symmetric])
qed

lemma market_cong: "st_pairs s' = st_pairs s \<Longrightarrow> st_tokens s' = st_tokens s \<Longrightarrow> market s' = market s"
  by (simp add: fun_eq_iff market_def base_scale_def)

lemma extends_registry:
  assumes "st_pairs s' = st_pairs s" "st_tokens s' = st_tokens s" "st_orders s' = st_orders s"
    "\<And>p u. lookup_funding_id (st_registry s) p = Some u \<Longrightarrow> lookup_funding_id (st_registry s') p = Some u"
  shows "extends s s'"
  using assms(3,4) market_cong [OF assms(1,2)] by (auto simp: extends_def order_owner_def trap_simps)

lemma lookup_users:
  assumes "registry_ok r" "registry_ok r'" "\<And>p u. bt_get (ur_users r) p = Some u \<Longrightarrow> bt_get (ur_users r') p = Some u"
  shows "lookup_funding_id r p = Some u \<Longrightarrow> lookup_funding_id r' p = Some u"
  using assms by (simp add: lookup_funding_id_eq)

lemma exchange_deposit:
  assumes heap: "heap_ok s" and ex: "exchange_ok K s" and d: "st_deposit p t a Write s = Some s'" and tot: "\<And>t. token_total t (st_balances s') \<le> K"
    and reg: "\<And>q u. lookup_funding_id (st_registry s) q = Some u \<Longrightarrow> lookup_funding_id (st_registry s') q = Some u"
  shows "exchange_ok K s'"
proof -
  obtain i r tb where x: "get_or_register p (st_registry s) = (i, r)" "tb_deposit i t a (st_balances s) = Some tb"
      "s' = s\<lparr>st_registry := r, st_balances := tb\<rparr>"
    using d by (cases "get_or_register p (st_registry s)") (auto simp: st_deposit_def trap_simps)
  have "extends s s'" by (rule extends_registry) (use reg in \<open>simp_all add: x(3)\<close>)
  then show ?thesis
    by (rule exchange_frame [OF heap ex]) (use tot tb_deposit_reserved [OF x(2)] in \<open>simp_all add: x(3)\<close>)
qed

lemma exchange_withdraw:
  assumes heap: "heap_ok s" and ex: "exchange_ok K s" and w: "st_withdraw p t a s = Some (r, s')"
  shows "exchange_ok K s'"
proof -
  have "s' = s \<or> (\<exists>u tb. tb_withdraw u t a (st_balances s) = Some (r, tb) \<and> s' = s\<lparr>st_balances := tb\<rparr>)"
    using w by (auto simp: st_withdraw_def trap_simps split: option.splits)
  then show ?thesis
  proof
    assume "\<exists>u tb. tb_withdraw u t a (st_balances s) = Some (r, tb) \<and> s' = s\<lparr>st_balances := tb\<rparr>"
    then obtain u tb where x: "tb_withdraw u t a (st_balances s) = Some (r, tb)" "s' = s\<lparr>st_balances := tb\<rparr>" by blast
    have le: "token_total v tb \<le> K" for v
      using tb.withdraw_total [OF x(1), of v] exchange_okD(1) [OF ex, of v] by linarith
    have "extends s s'" by (rule extends_registry) (simp_all add: x(2))
    then show ?thesis
      by (rule exchange_frame [OF heap ex]) (use le tb_withdraw_reserved [OF x(1)] in \<open>simp_all add: x(2)\<close>)
  qed (use ex in simp)
qed

text \<open>Changes outside the exchange.\<close>

lemma exchange_simple:
  assumes heap: "heap_ok s" and ex: "exchange_ok K s"
    and s': "st_pairs s' = st_pairs s" "st_tokens s' = st_tokens s" "st_books s' = st_books s" "st_orders s' = st_orders s"
      "st_trades s' = st_trades s" "st_settling s' = st_settling s" "st_balances s' = st_balances s"
      "\<And>q u. lookup_funding_id (st_registry s) q = Some u \<Longrightarrow> lookup_funding_id (st_registry s') q = Some u"
  shows "exchange_ok K s'"
  by (rule exchange_frame [OF heap ex extends_registry]) (use exchange_okD(1) [OF ex] in \<open>simp_all add: s'\<close>)

section \<open>Listing a pair\<close>

lemma exchange_pair:
  assumes heap: "heap_ok s" "heap_ok s'" and ex: "exchange_ok K s"
    and s': "st_books s' = bt_insert i b (st_books s)" "st_orders s' = st_orders s" "st_trades s' = st_trades s"
      "st_settling s' = st_settling s" "st_balances s' = st_balances s" "st_registry s' = st_registry s"
      "\<And>j m. market s j = Some m \<Longrightarrow> market s' j = Some m"
    and new: "bt_get (st_books s) i = None" "bk_next_seq b = 0" "bk_next_fill b = 0" "\<And>f. stake_sum f b = 0"
  shows "exchange_ok K s'"
proof -
  note x = exchange_okD [OF ex]
  have own: "order_owner s' = order_owner s" by (simp add: order_owner_def fun_eq_iff s')
  have ext: "extends s s'" using s'(7) by (simp add: extends_def own)
  have put: "bt.total f (st_books s') = bt.total f (st_books s) + f i b" for f :: "order_book_id \<Rightarrow> order_book \<Rightarrow> nat"
    using bt.total_put [of f i b "st_books s"] new(1) by (simp add: s'(1))
  have keep: "bt_get (st_books s') j = Some c" if "bt_get (st_books s) j = Some c" for j c using that new(1) by (auto simp: s'(1))
  have "book_hold s' u t i b = 0" for u t by (simp add: book_hold_def new(4) split: option.split)
  then have "backed s'"
    using x(2) locked_extends [OF heap(1) x(3,4) ext s'(4)] put by (simp add: backed_def s'(5)) (simp add: locked_def)
  moreover have "records_ok K s'"
    unfolding records_ok_def s' own put [unfolded s'(1)]
  proof (intro conjI allI impI)
    show "history_ok (st_orders s)" "bt.total (\<lambda>i b. unat (bk_next_seq b)) (st_books s) + unat (bk_next_seq b) = length (hi_primary (st_orders s))"
      using x(3) new(2) by (simp_all add: records_ok_def)
    fix j q
    show "history_get (st_orders s) (j, q) \<noteq> None" if "bt_get (bt_insert i b (st_books s)) j = Some c" "q < bk_next_seq c" for c
      using that x(3) new(2) unfolding records_ok_def by (auto split: if_splits)
    fix r assume r: "history_get (st_orders s) (j, q) = Some r"
    show "order_owner s (j, q) \<noteq> None" using r x(3) unfolding records_ok_def by blast
    show "\<exists>c. bt_get (bt_insert i b (st_books s)) j = Some c \<and> q < bk_next_seq c \<and> record_fits K c q r"
      using r x(3) keep unfolding records_ok_def s'(1) by blast
  qed
  moreover have qf: "queued_fills s' = queued_fills s" by (simp add: queued_fills_def s')
  moreover have mint: "minted s j n \<Longrightarrow> minted s' j n" for j n using keep by (auto simp: minted_def)
  moreover have "event_ok s' ev" if "event_ok s ev" for ev
    by (rule event_ok_grow [OF that]) (use s'(7) keep in \<open>auto simp: s'(2)\<close>)
  then have "settling_ok s'" using x(4) mint unfolding settling_ok_def qf s'(4) by blast
  moreover have "trades_ok s'" using x(5) mint put new(3) unfolding trades_ok_def qf s'(3) by fastforce
  ultimately show ?thesis using x(1) by (simp add: exchange_ok_def s'(5))
qed

end
