(* ===== verification/Exchange_System.thy ===== *)
theory Exchange_System
  imports Exchange_Orders System_Invariants
begin

text \<open>The exchange invariant on the state machine: it holds in every reachable state, as long as
  deposits stay below \<open>2 ^ 192\<close> per token and the log below \<open>2 ^ 62\<close> events.\<close>

section \<open>Events\<close>

lemma exchange_limit_order:
  assumes heap: "heap_ok s" and ex: "exchange_ok K s" "K < 2 ^ 192" "length (hi_primary (st_orders s)) < 2 ^ 62"
    and worth: "unat (ord_price ord) * q2n (ord_remaining ord) < 2 ^ 256"
    and r: "record_limit_order user i ord placed_by now Write s = Some s'"
  shows "exchange_ok K s' \<and> length (hi_primary (st_orders s')) = Suc (length (hi_primary (st_orders s)))"
proof -
  have Inr: "\<exists>w. expect_ok res = Some w \<Longrightarrow> res = Inr ()" for res :: "insufficient_balance + unit" by (cases res) simp_all
  obtain pair scale b token required u tb b' where x: "get_pair (st_pairs s) i = Some pair" "base_scale s (tp_base pair) = Some scale"
      "bt_get (st_books s) i = Some b" "order_requirement pair scale ord = Some (token, required)"
      "lookup_funding_id (st_registry s) user = Some u" "tb_reserve u token required (st_balances s) = Some (Inr (), tb)"
      "add_pending_order ord b = Some b'"
    using r by (auto simp: record_limit_order_def reserve_and_record_def trap_simps dest!: Inr)
  obtain pair' scale' where l: "listed s i pair' scale'" "book_fit scale' b" using heap_okD [OF heap x(3)] .
  then have "pair' = pair" "scale' = scale" using x(1,2) by (auto simp: listed_def)
  note l = l [unfolded this]
  note push = book_fit_push [OF l(2) x(7) worth]
  have "q2n required \<le> q2n (bal_free (map_balance (tb_balances (st_balances s)) (token, u)))"
    using x(6) by (auto simp: tb_reserve_def with_write_back_def wb_reserve_def try_mutate_eq trap_simps balance_reserve_Inr split: option.splits sum.splits)
  from exchange_place [OF heap ex x(3) l(1) push(3,4) worth x(5,4) this, of placed_by now] show ?thesis using r by auto
qed

lemma exchange_trading_pair:
  assumes heap: "heap_ok s" "heap_ok s'" and ex: "exchange_ok K s"
    and r: "record_trading_pair i pair bm qm tick lot mn mx rates s = Some s'"
  shows "exchange_ok K s' \<and> st_orders s' = st_orders s"
proof -
  let ?b = "book_new i tick lot mn mx rates"
  obtain s1 s2 pairs nxt where x: "record_token (tp_base pair) bm s = Some s1" "record_token (tp_quote pair) qm s1 = Some s2"
      "pair_map_insert pair i (st_pairs s2) = Some pairs" "bt_get (st_books s2) i = None"
      "s' = s2\<lparr>st_pairs := pairs, st_books := bt_insert i ?b (st_books s2), st_next_book_id := nxt\<rparr>"
    using r by (auto simp: record_trading_pair_def Let_def trap_simps)
  note t1 = record_token_effect [OF x(1)] and t2 = record_token_effect [OF x(2)]
  have s2: "s2 = s\<lparr>st_tokens := st_tokens s2\<rparr>" by (subst t2(2), subst t1(2)) simp
  have st: "st_books s2 = st_books s" "st_pairs s2 = st_pairs s" "st_orders s2 = st_orders s" "st_trades s2 = st_trades s"
      "st_settling s2 = st_settling s" "st_balances s2 = st_balances s" "st_registry s2 = st_registry s"
    by (subst s2, simp)+
  have keep: "bt_get (st_tokens s') t = Some m" if "bt_get (st_tokens s) t = Some m" for t m
    using that t1(1,4) t2(1,4) by (auto simp: x(5) split: if_splits)
  have pm: "pair_map_ok (st_pairs s)" using heap(1) by (simp add: heap_ok_def maps_ok_def)
  have pairs: "pair_map_insert pair i (st_pairs s) = Some pairs" using x(3) by (simp add: st)
  have "get_pair (st_pairs s) i = None" using pairs by (auto simp: pair_map_insert_def trap_simps)
  then have "market s' j = Some m" if "market s j = Some m" for j m
    using that pair_map_insert_ok(3) [OF pm pairs] keep
    by (auto simp: market_def base_scale_def trap_simps x(5) split: if_splits)
  moreover have "stake_sum f ?b = 0" for f
    by (simp add: stake_sum_def book_new_def side_list_def queue_new_def) 
  moreover have "bk_next_seq ?b = 0" "bk_next_fill ?b = 0" by (simp_all add: book_new_def)
  moreover have "st_books s' = bt_insert i ?b (st_books s)" "st_orders s' = st_orders s" "st_trades s' = st_trades s"
      "st_settling s' = st_settling s" "st_balances s' = st_balances s" "st_registry s' = st_registry s" "bt_get (st_books s) i = None"
    using x(4) by (simp_all add: x(5) st)
  ultimately have "exchange_ok K s'" by (intro exchange_pair [OF heap ex])
  then show ?thesis by (simp add: x(5) st)
qed

lemma upgrade_frame:
  assumes "apply_upgrade arg s = Some s'"
  shows "s' = s\<lparr>st_mode := st_mode s', st_policy := st_policy s'\<rparr>"
  using assms by (auto simp: apply_upgrade_def Let_def trap_simps split: if_splits option.splits)

definition lively :: "nat \<Rightarrow> trade_state \<Rightarrow> bool" where
  "lively K s \<longleftrightarrow> heap_ok s \<and> accounts_ok s \<and> exchange_ok K s"

lemma livelyD: "lively K s \<Longrightarrow> heap_ok s" "lively K s \<Longrightarrow> accounts_ok s" "lively K s \<Longrightarrow> exchange_ok K s"
  by (simp_all add: lively_def)

lemma exchange_event:
  assumes l: "lively K s" "K < 2 ^ 192" "length (hi_primary (st_orders s)) < 2 ^ 62"
    and allowed: "event_allowed pc payload now s" and t: "apply_state_transition payload now Write s = Some s'" and heap': "heap_ok s'"
  shows "exchange_ok K s' \<and> length (hi_primary (st_orders s')) \<le> Suc (length (hi_primary (st_orders s)))"
proof -
  note heap = livelyD(1) [OF l(1)] and ex = livelyD(3) [OF l(1)]
  have reg: "registry_ok (st_registry s)" using l(1) by (simp add: lively_def accounts_ok_def)
  show ?thesis
  proof (cases payload)
    case (Ev_Upgrade arg)
    then have "s' = s\<lparr>st_mode := st_mode s', st_policy := st_policy s'\<rparr>" using t by (simp add: apply_state_transition_def upgrade_frame)
    then show ?thesis by (metis (no_types, lifting) exchange_simple [OF heap ex] le_SucI order_refl trade_state.select_convs
        trade_state.surjective trade_state.update_convs(1,2))
  next
    case (Ev_AddTradingPair ev)
    then show ?thesis using t exchange_trading_pair [OF heap heap' ex] by (simp add: apply_state_transition_def)
  next
    case (Ev_AddLimitOrder ev)
    obtain i q where iq: "ao_order_id ev = (i, q)" by (cases "ao_order_id ev")
    let ?ord = "\<lparr>ord_id = q, ord_side = ao_side ev, ord_price = ao_price ev, ord_remaining = ao_quantity ev, ord_tif = ao_tif ev\<rparr>"
    have "unat (ord_price ?ord) * q2n (ord_remaining ?ord) < 2 ^ 256"
      using allowed Ev_AddLimitOrder by (simp add: event_allowed_def event_guard_def)
    moreover have "record_limit_order (ao_user ev) i ?ord (ao_placed_by ev) now Write s = Some s'"
      using t Ev_AddLimitOrder iq by (simp add: apply_state_transition_def into_order_def)
    ultimately show ?thesis using exchange_limit_order [OF heap ex l(2,3)] by (metis order_refl)
  next
    case (Ev_Matching ev)
    then obtain b n where b: "bt_get (st_books s) (me_book_id ev) = Some b" "me_orders ev = take n (pending_order_seqs b)"
      using allowed by (auto simp: event_allowed_def event_guard_def)
    then have "pending_order_seqs b = me_orders ev @ drop n (pending_order_seqs b)" by simp
    from exchange_matching [OF heap ex l(2) b(1) this, of now] show ?thesis
      using t Ev_Matching by (auto simp: apply_state_transition_def)
  next
    case (Ev_CancelLimitOrder ev)
    obtain i q where iq: "ce_order_id ev = (i, q)" by (cases "ce_order_id ev")
    then obtain r where "history_get (st_orders s) (i, q) = Some r" "or_status r = Pending \<or> or_status r = Open"
      using allowed Ev_CancelLimitOrder by (auto simp: event_allowed_def cancellable_def)
    from exchange_cancel [OF heap ex this, of "ce_canceled_by ev" now] show ?thesis
      using t Ev_CancelLimitOrder iq by (auto simp: apply_state_transition_def)
  next
    case (Ev_SetHalt ev)
    then have "st_pairs s' = st_pairs s" "st_tokens s' = st_tokens s" "st_books s' = st_books s" "st_orders s' = st_orders s"
        "st_trades s' = st_trades s" "st_settling s' = st_settling s" "st_balances s' = st_balances s" "st_registry s' = st_registry s"
      using t by (auto simp: apply_state_transition_def)
    then show ?thesis using exchange_simple [OF heap ex] by simp
  next
    case (Ev_AddTradingAccount ev)
    then obtain r' where "record_add_trading_account (ta_funding ev) (ta_trading ev) now (st_registry s) = Some r'" "registry_ok r'" "ur_users r' = ur_users (st_registry s)"
      using allowed record_add_trading_account_ok [OF reg] by (fastforce simp: event_allowed_def)
    then show ?thesis
      using t Ev_AddTradingAccount lookup_users [OF reg] exchange_simple [OF heap ex]
      by (auto simp: apply_state_transition_def st_record_add_trading_account_def)
  next
    case (Ev_RemoveTradingAccount ev)
    then obtain r' where "record_remove_trading_account (ta_funding ev) (ta_trading ev) (st_registry s) = Some r'" "registry_ok r'" "ur_users r' = ur_users (st_registry s)"
      using allowed record_remove_trading_account_ok [OF reg] by (fastforce simp: event_allowed_def)
    then show ?thesis
      using t Ev_RemoveTradingAccount lookup_users [OF reg] exchange_simple [OF heap ex]
      by (auto simp: apply_state_transition_def st_record_remove_trading_account_def)
  qed (use allowed in \<open>simp_all add: event_allowed_def\<close>)
qed

section \<open>Runs and messages\<close>

text \<open>The number of orders is bounded by the log.\<close>

definition counted :: "canister \<Rightarrow> bool" where
  "counted c \<longleftrightarrow> length (hi_primary (st_orders (cn_state c))) \<le> length (cn_log c)"

lemma event_run_lively:
  assumes "event_run pc c c'" "lively K (cn_state c)" "counted c" "K < 2 ^ 192" "length (cn_log c') < 2 ^ 62"
  shows "lively K (cn_state c') \<and> counted c'"
  using assms
proof (induction rule: event_run.induct)
  case (run_event c c1 payload now c2)
  obtain s where s: "apply_state_transition payload now Write (cn_state c1) = Some s" "cn_state c2 = s"
      "length (cn_log c2) = Suc (length (cn_log c1))"
    using run_event.hyps(3) by (auto simp: process_event_Some)
  have l: "lively K (cn_state c1)" "counted c1" using run_event s(3) by auto
  have step: "event_run pc c1 c2" by (rule event_run.run_event [OF run_refl run_event.hyps(2,3)])
  have fr: "heap_ok s" "accounts_ok s" using event_run_heap [OF step] event_run_accounts [OF step] l(1) s(2) by (simp_all add: lively_def)
  have "length (hi_primary (st_orders (cn_state c1))) < 2 ^ 62" using l(2) run_event.prems(4) s(3) by (simp add: counted_def)
  from exchange_event [OF l(1) run_event.prems(3) this run_event.hyps(2) s(1) fr(1)] show ?case
    using fr l(2) s(2,3) by (auto simp: lively_def counted_def)
next
  case (run_settle c c1 xs ev ys now c2)
  let ?s1 = "cn_state c1"
  have len: "length (cn_log c2) = Suc (length (cn_log c1))" using run_settle.hyps(3) by (auto simp: process_event_Some)
  have l: "lively K ?s1" "counted c1" using run_settle len by auto
  have orders: "length (hi_primary (st_orders ?s1)) < 2 ^ 62" using l(2) run_settle.prems(4) len by (simp add: counted_def)
  obtain trades balances where e: "record_settling_event ev now Write (?s1\<lparr>st_settling := xs @ ys\<rparr>) =
      Some (?s1\<lparr>st_settling := xs @ ys, st_trades := trades, st_balances := balances\<rparr>)"
      "exchange_ok K (?s1\<lparr>st_settling := xs @ ys, st_trades := trades, st_balances := balances\<rparr>)"
    using exchange_settling [OF livelyD(1,3) [OF l(1)] run_settle.prems(3) orders run_settle.hyps(2), of now] by blast
  have s2: "cn_state c2 = ?s1\<lparr>st_settling := xs @ ys, st_trades := trades, st_balances := balances\<rparr>"
    using run_settle.hyps(3) e(1) by (auto simp: process_event_Some apply_state_transition_def)
  have step: "event_run pc c1 c2" by (rule event_run.run_settle [OF run_refl run_settle.hyps(2,3)])
  have "heap_ok (cn_state c2)" "accounts_ok (cn_state c2)"
    using event_run_heap [OF step] event_run_accounts [OF step] l(1) by (simp_all add: lively_def)
  then show ?case using e(2) l(2) len by (simp add: lively_def counted_def s2)
next
  case (run_tasks c c1 ts)
  then have l: "lively K (cn_state c1)" "counted c1" by auto
  have step: "event_run pc c1 (c1\<lparr>cn_state := (cn_state c1)\<lparr>st_tasks := ts\<rparr>\<rparr>)" by (rule event_run.run_tasks [OF run_refl])
  have "exchange_ok K ((cn_state c1)\<lparr>st_tasks := ts\<rparr>)" by (rule exchange_simple [OF livelyD(1,3) [OF l(1)]]) simp_all
  then show ?case
    using event_run_heap [OF step] event_run_accounts [OF step] l by (simp add: lively_def counted_def)
qed simp

lemma sys_inv_lively:
  assumes "sys_inv y" "exchange_ok K (cn_state (sy_canister y))"
  shows "lively K (cn_state (sy_canister y))"
  using assms by (simp add: sys_inv_def lively_def)

lemma total_deposited: "sys_inv y \<Longrightarrow> token_total t (st_balances (cn_state (sy_canister y))) \<le> deposited t (cn_log (sy_canister y))"
  unfolding sys_inv_def books_balance_def by (elim conjE allE [of _ t]) linarith

lemma exchange_guard: "heap_ok s \<Longrightarrow> exchange_ok K s \<Longrightarrow> exchange_ok K (user_op_guard_drop p t s)"
  by (erule exchange_simple) (simp_all add: user_op_guard_drop_def)

lemma exchange_in_flight: "heap_ok s \<Longrightarrow> exchange_ok K s \<Longrightarrow> exchange_ok K (s\<lparr>st_in_flight := x\<rparr>)"
  by (erule exchange_simple) simp_all

lemma exchange_fee_cache:
  "s0 = s \<or> s0 = set_cached_ledger_fee t f s \<Longrightarrow> heap_ok s \<Longrightarrow> exchange_ok K s \<Longrightarrow> exchange_ok K s0"
  using exchange_simple [of s K s0] by (auto simp: set_cached_ledger_fee_def)

lemma deposit_lookup:
  assumes "registry_ok (st_registry s)" "bt_get (ur_trading_accounts (st_registry s)) p = None" "length (ur_users (st_registry s)) < 2 ^ 64"
    "st_deposit p t a Write s = Some s'" "lookup_funding_id (st_registry s) q = Some u"
  shows "lookup_funding_id (st_registry s') q = Some u"
proof -
  obtain i r' where r': "get_or_register p (st_registry s) = (i, r')" "registry_ok r'" "bt_get (ur_users r') = (bt_get (ur_users (st_registry s)))(p \<mapsto> i)"
    using get_or_register_ok [OF assms(1-3)] by blast
  have "st_registry s' = r'" using assms(4) r'(1) by (auto simp: st_deposit_def trap_simps)
  moreover have "bt_get (ur_users (st_registry s)) p = Some v \<Longrightarrow> v = i" for v using r'(1) by (auto simp: get_or_register_known)
  ultimately show ?thesis using assms(1,5) r'(2,3) by (auto simp: lookup_funding_id_eq)
qed

text \<open>The last change of a finished call: a deposit, or the refund of a failed withdrawal.\<close>

lemma exchange_credit:
  assumes inv: "sys_inv y" and call: "call \<in> set (sy_calls y)" "call_key call = (p, t)" and ex: "exchange_ok K s" "heap_ok s"
    and s: "st_registry s = st_registry (cn_state (sy_canister y))" "st_deposit p t a Write s = Some s'"
    and len: "length (cn_log (sy_canister y)) < 2 ^ 62" and tot: "\<And>t. token_total t (st_balances s') \<le> K"
  shows "exchange_ok K (user_op_guard_drop p t s')"
proof -
  note d = sys_invD [OF inv call]
  have "exchange_ok K s'"
    by (rule exchange_deposit [OF ex(2,1) s(2) tot]) (use deposit_lookup [OF _ _ _ s(2)] d(1,3,4) len in \<open>simp add: s(1)\<close>)
  then show ?thesis using exchange_guard heap_ok_deposit [OF ex(2) s(2)] by blast
qed

lemma sys_change_lively:
  assumes ch: "sys_change pc y y'" and inv: "sys_inv y" "sys_inv y'" and l: "exchange_ok K (cn_state (sy_canister y))" "counted (sy_canister y)"
    and K: "K < 2 ^ 192" "\<And>t. deposited t (cn_log (sy_canister y')) \<le> K" and len: "length (cn_log (sy_canister y')) < 2 ^ 62"
  shows "exchange_ok K (cn_state (sy_canister y')) \<and> counted (sy_canister y')"
proof -
  have heap: "heap_ok (cn_state (sy_canister y))" "heap_ok (cn_state (sy_canister y'))" using inv by (simp_all add: sys_inv_def)
  have tot: "token_total t (st_balances (cn_state (sy_canister y'))) \<le> K" for t using total_deposited [OF inv(2), of t] K(2) [of t] by linarith
  from ch show ?thesis
  proof cases
    case (change_run c)
    then show ?thesis using event_run_lively [of pc "sy_canister y" c K] sys_inv_lively [OF inv(1) l(1)] l(2) K(1) len by (simp add: lively_def)
  next
    case (change_open_deposit p t s a)
    then show ?thesis using exchange_in_flight [OF heap(1) l(1)] l(2) by (simp add: counted_def)
  next
    case (change_open_withdraw p t s a s' f)
    have "st_orders s' = st_orders s" using change_open_withdraw(5) by (auto simp: st_withdraw_def trap_simps split: option.splits)
    then show ?thesis
      using change_open_withdraw exchange_withdraw [OF heap_ok_in_flight exchange_in_flight change_open_withdraw(5)] heap(1) l by (simp add: counted_def)
  next
    case (change_deposit_failed p t a)
    then show ?thesis using exchange_guard [OF heap(1) l(1)] l(2) by (simp add: counted_def user_op_guard_drop_def)
  next
    case (change_trapped call)
    then show ?thesis
      using exchange_guard [OF heap(1) l(1), of "fst (call_key call)" "snd (call_key call)"] l(2) by (simp add: counted_def user_op_guard_drop_def)
  next
    case (change_deposited p t a now c)
    then obtain s' where s': "st_deposit p t a Write (cn_state (sy_canister y)) = Some s'" "cn_state c = s'" "length (cn_log c) = Suc (length (cn_log (sy_canister y)))"
      by (auto simp: process_event_Some apply_state_transition_def)
    have "exchange_ok K (user_op_guard_drop p t s')"
      by (rule exchange_credit [OF inv(1) change_deposited(2) _ l(1) heap(1) _ s'(1)])
         (use tot len s' change_deposited(1) in \<open>simp_all add: call_key_def user_op_guard_drop_def\<close>)
    moreover have "st_orders s' = st_orders (cn_state (sy_canister y))" using s'(1) by (auto simp: st_deposit_def trap_simps split: prod.splits)
    ultimately show ?thesis using change_deposited(1) s' l(2) by (simp add: counted_def user_op_guard_drop_def)
  next
    case (change_withdrawn p t a f s s0 f' c block now)
    have s0: "exchange_ok K s0" "heap_ok s0" "st_orders s0 = st_orders s"
      using exchange_fee_cache [OF change_withdrawn(4)] fee_cached(5) [OF change_withdrawn(4)] change_withdrawn(3,4) heap(1) l(1)
      by (auto simp: set_cached_ledger_fee_def)
    then show ?thesis using change_withdrawn exchange_guard [OF s0(2,1)] l(2) by (simp add: counted_def record_event_def user_op_guard_drop_def)
  next
    case (change_refunded p t a f s s0 f' s')
    have s0: "exchange_ok K s0" "heap_ok s0" "st_orders s0 = st_orders s" "st_registry s0 = st_registry s"
      using exchange_fee_cache [OF change_refunded(4)] fee_cached(5) [OF change_refunded(4)] change_refunded(3,4) heap(1) l(1)
      by (auto simp: set_cached_ledger_fee_def)
    have "exchange_ok K (user_op_guard_drop p t s')"
      by (rule exchange_credit [OF inv(1) change_refunded(2) _ s0(1,2) _ change_refunded(5)])
         (use tot len s0 change_refunded(1,3) in \<open>simp_all add: call_key_def user_op_guard_drop_def\<close>)
    moreover have "st_orders s' = st_orders s0" using change_refunded(5) by (auto simp: st_deposit_def trap_simps split: prod.splits)
    ultimately show ?thesis using change_refunded(1,3) s0(3) l(2) by (simp add: counted_def user_op_guard_drop_def)
  qed
qed

section \<open>Reachable states\<close>

lemma event_run_prefix: "event_run pc c c' \<Longrightarrow> \<exists>evs. cn_log c' = cn_log c @ evs"
  by (induction rule: event_run.induct) (auto simp: process_event_Some)

lemma sys_change_prefix: "sys_change pc y y' \<Longrightarrow> \<exists>evs. cn_log (sy_canister y') = cn_log (sy_canister y) @ evs"
  by (induction rule: sys_change.induct) (auto simp: process_event_Some record_event_def dest: event_run_prefix)

lemma exchange_init:
  assumes "canister_init arg now = Some c"
  shows "exchange_ok K (cn_state c) \<and> counted c"
proof -
  obtain a s where a: "state_new a history_new history_new user_registry_new \<lparr>tb_balances = [], tb_fee_pool = []\<rparr> = Inr s" "cn_state c = s"
    using assms by (auto simp: canister_init_def trap_simps split: oisy_trade_arg.splits)
  have s: "st_books s = []" "st_orders s = history_new" "st_trades s = history_new" "st_settling s = []"
      "st_balances s = \<lparr>tb_balances = [], tb_fee_pool = []\<rparr>"
    using a(1) by (auto simp: state_new_def split: sum.splits option.splits)
  have "token_total t (st_balances s) = 0" for t by (simp add: s token_total_def user_total_def bt.total_new pool_amount_def)
  moreover have "backed s" by (simp add: backed_def locked_def s bt.total_new reserved_of_def map_balance_def balance_zero_def)
  moreover have "records_ok K s" by (simp add: records_ok_def s bt.total_new history_get_def) (simp add: history_new_def)
  moreover have "settling_ok s" "trades_ok s"
    by (simp_all add: settling_ok_def trades_ok_def queued_fills_def s bt.total_new history_get_def) (simp_all add: history_new_def)
  ultimately show ?thesis by (simp add: exchange_ok_def counted_def a(2) s) (simp add: history_new_def)
qed

lemma deposited_append: "deposited t (log @ evs) = deposited t log + deposited t evs"
  by (simp add: deposited_def)

theorem exchange_reachable:
  "reachable pc big arg y \<Longrightarrow> length (cn_log (sy_canister y)) < 2 ^ 62 \<Longrightarrow> (\<And>t. deposited t (cn_log (sy_canister y)) \<le> K) \<Longrightarrow>
   K < 2 ^ 192 \<Longrightarrow> exchange_ok K (cn_state (sy_canister y)) \<and> counted (sy_canister y)"
proof (induction rule: reachable.induct)
  case (reach_init now c)
  then show ?case by (simp add: exchange_init)
next
  case (reach_step y y')
  have "length (cn_log (sy_canister y)) \<le> length (cn_log (sy_canister y'))" by (rule sys_step_log [OF reach_step.hyps(2)])
  then have len: "length (cn_log (sy_canister y)) < 2 ^ 62" "length (cn_log (sy_canister y)) \<le> 2 ^ 64" "length (cn_log (sy_canister y')) \<le> 2 ^ 64"
    using reach_step.prems(1) by simp_all
  have inv: "sys_inv y" by (rule sys_inv_reachable [OF reach_step.hyps(1) len(2)])
  note st = sys_inv_step [OF inv reach_step.hyps(2) len(3)]
  obtain evs where "cn_log (sy_canister y') = cn_log (sy_canister y) @ evs" using sys_change_prefix [OF st(2)] by blast
  then have "deposited t (cn_log (sy_canister y)) \<le> K" for t using reach_step.prems(2) [of t] by (simp add: deposited_append)
  then have "exchange_ok K (cn_state (sy_canister y)) \<and> counted (sy_canister y)" using reach_step.IH [OF len(1)] reach_step.prems(3) by blast
  then show ?case
    using sys_change_lively [OF st(2) inv st(1)] reach_step.prems by blast
qed

end
