(* ===== verification/Exchange_Liveness.thy ===== *)
theory Exchange_Liveness
  imports Exchange_System
begin

text \<open>
  What the exchange invariant gives: a run of the matching engine returns whatever the instruction
  counter says, it makes progress whenever the counter lets it start, and the chain of runs that
  \<open>drive_matching\<close> schedules ends with nothing left to match or settle. Orders in, orders out,
  deposits and withdrawals never trap either.
\<close>

definition alive :: "nat \<Rightarrow> canister \<Rightarrow> bool" where
  "alive K c \<longleftrightarrow> lively K (cn_state c) \<and> K < 2 ^ 192 \<and> length (hi_primary (st_orders (cn_state c))) < 2 ^ 62"

lemma aliveD:
  assumes "alive K c"
  shows "heap_ok (cn_state c)" "accounts_ok (cn_state c)" "exchange_ok K (cn_state c)" "K < 2 ^ 192"
    "length (hi_primary (st_orders (cn_state c))) < 2 ^ 62"
  using assms by (simp_all add: alive_def lively_def)

lemma alive_run:
  assumes "event_run pc c c'" "alive K c" "exchange_ok K (cn_state c')"
    "length (hi_primary (st_orders (cn_state c'))) = length (hi_primary (st_orders (cn_state c)))"
  shows "alive K c'"
  using assms event_run_heap [OF assms(1)] event_run_accounts [OF assms(1)] by (simp add: alive_def lively_def)

lemma alive_tasks: "alive K c \<Longrightarrow> alive K (c\<lparr>cn_state := (cn_state c)\<lparr>st_tasks := ts\<rparr>\<rparr>)"
  by (rule alive_run [OF run_tasks [OF run_refl, of undefined]])
     (auto simp: alive_def lively_def intro: exchange_simple)

section \<open>Draining the settlement queue\<close>

text \<open>What draining leaves alone.\<close>

definition same_books :: "canister \<Rightarrow> canister \<Rightarrow> bool" where
  "same_books c c' \<longleftrightarrow> st_books (cn_state c') = st_books (cn_state c) \<and>
     st_permissions (cn_state c') = st_permissions (cn_state c) \<and> st_policy (cn_state c') = st_policy (cn_state c)"

lemma settle_next:
  assumes l: "alive K c" and q: "st_settling (cn_state c) = ev # rest"
  shows "\<exists>c'. process_event (Ev_Settling ev) now (c\<lparr>cn_state := (cn_state c)\<lparr>st_settling := rest\<rparr>\<rparr>) = Some c' \<and>
    alive K c' \<and> same_books c c' \<and> st_settling (cn_state c') = rest"
proof -
  let ?s = "cn_state c"
  obtain trades balances where e: "record_settling_event ev now Write (?s\<lparr>st_settling := rest\<rparr>) =
      Some (?s\<lparr>st_settling := rest, st_trades := trades, st_balances := balances\<rparr>)"
      "exchange_ok K (?s\<lparr>st_settling := rest, st_trades := trades, st_balances := balances\<rparr>)"
    using exchange_settling [OF aliveD(1,3-5) [OF l], of "[]" ev rest now] q by auto
  let ?c = "c\<lparr>cn_state := (cn_state c)\<lparr>st_settling := rest\<rparr>\<rparr>"
  obtain c' where c': "process_event (Ev_Settling ev) now ?c = Some c'"
      "cn_state c' = ?s\<lparr>st_settling := rest, st_trades := trades, st_balances := balances\<rparr>"
    using e(1) by (auto simp: process_event_Some apply_state_transition_def)
  have "event_run undefined c c'" using run_settle [OF run_refl, of c "[]" ev rest now c'] q c'(1) by simp
  then have "alive K c'" by (rule alive_run [OF _ l]) (use e(2) in \<open>simp_all add: c'(2)\<close>)
  then show ?thesis using c' by (auto simp: same_books_def)
qed

lemma drain_loop_runs:
  assumes "alive K c"
  shows "\<exists>k' c' n. drain_loop fuel counter budget now (k, c) = Some (k', c') \<and> alive K c' \<and> same_books c c' \<and>
    st_settling (cn_state c') = drop n (st_settling (cn_state c)) \<and>
    (0 < fuel \<and> counter k < budget \<and> st_settling (cn_state c) \<noteq> [] \<longrightarrow> 0 < n) \<and>
    (st_settling (cn_state c) = [] \<and> 0 < fuel \<longrightarrow> c' = c \<and> k' = Suc k) \<and>
    (length (st_settling (cn_state c)) < fuel \<and> (\<forall>j. counter j < budget) \<longrightarrow> st_settling (cn_state c') = [])"
  using assms
proof (induction fuel arbitrary: k c)
  case 0
  then show ?case by (auto simp: same_books_def intro: exI [of _ 0])
next
  case (Suc fuel)
  show ?case
  proof (cases "counter k < budget \<and> st_settling (cn_state c) \<noteq> []")
    case True
    then obtain ev rest where q: "st_settling (cn_state c) = ev # rest" by (auto simp: neq_Nil_conv)
    obtain c1 where c1: "process_event (Ev_Settling ev) now (c\<lparr>cn_state := (cn_state c)\<lparr>st_settling := rest\<rparr>\<rparr>) = Some c1"
        "alive K c1" "same_books c c1" "st_settling (cn_state c1) = rest"
      using settle_next [OF Suc.prems q] by blast
    obtain k' c' n where IH: "drain_loop fuel counter budget now (Suc k, c1) = Some (k', c')" "alive K c'" "same_books c1 c'"
        "st_settling (cn_state c') = drop n rest"
        "length rest < fuel \<and> (\<forall>j. counter j < budget) \<longrightarrow> st_settling (cn_state c') = []"
      using Suc.IH [OF c1(2), of "Suc k"] unfolding c1(4) by blast
    have "drain_loop (Suc fuel) counter budget now (k, c) = Some (k', c')"
      using True IH(1) c1(1) by (simp add: take_next_pending_settling_event_def q)
    moreover have "st_settling (cn_state c') = drop (Suc n) (st_settling (cn_state c))" by (simp add: q IH(4))
    moreover have "same_books c c'" using c1(3) IH(3) by (simp add: same_books_def)
    ultimately show ?thesis using IH(2,5) q by (intro exI [of _ k'] exI [of _ c'] exI [of _ "Suc n"]) simp
  next
    case False
    then have "drain_loop (Suc fuel) counter budget now (k, c) = Some (Suc k, c)"
      by (auto simp: take_next_pending_settling_event_def)
    then show ?thesis using False Suc.prems by (intro exI [of _ "Suc k"] exI [of _ c] exI [of _ 0]) (auto simp: same_books_def)
  qed
qed

lemma drain_settling_runs:
  assumes "alive K c"
  obtains k' c' n where "drain_settling counter budget now (k, c) = Some (k', c')" "alive K c'" "same_books c c'"
    "st_settling (cn_state c') = drop n (st_settling (cn_state c))"
    "counter k < budget \<Longrightarrow> st_settling (cn_state c) \<noteq> [] \<Longrightarrow> 0 < n"
    "st_settling (cn_state c) = [] \<Longrightarrow> c' = c \<and> k' = Suc k"
    "\<forall>j. counter j < budget \<Longrightarrow> st_settling (cn_state c') = []"
  using drain_loop_runs [OF assms, of "Suc (length (st_settling (cn_state c)))" counter budget now k]
  unfolding drain_settling_def by (auto simp del: drain_loop.simps)

section \<open>Matching the books\<close>

text \<open>The orders of a book that a run may match, and those of all books.\<close>

definition waiting :: "permissions \<Rightarrow> order_book_id \<Rightarrow> order_book \<Rightarrow> nat" where
  "waiting p i b = (if permit_matching p i = Inr () then length (bk_pending_orders b) else 0)"

definition waits :: "canister \<Rightarrow> order_book_id \<Rightarrow> nat" where
  "waits c i = (case bt_get (st_books (cn_state c)) i of None \<Rightarrow> 0 | Some b \<Rightarrow> waiting (st_permissions (cn_state c)) i b)"

definition backlog :: "canister \<Rightarrow> nat" where
  "backlog c = bt.total (waiting (st_permissions (cn_state c))) (st_books (cn_state c))"

definition same_limits :: "canister \<Rightarrow> canister \<Rightarrow> bool" where
  "same_limits c c' \<longleftrightarrow> dom (bt_get (st_books (cn_state c'))) = dom (bt_get (st_books (cn_state c))) \<and>
     st_permissions (cn_state c') = st_permissions (cn_state c) \<and> st_policy (cn_state c') = st_policy (cn_state c)"

lemma same_limits_trans: "same_limits a b \<Longrightarrow> same_limits b c \<Longrightarrow> same_limits a c"
  by (simp add: same_limits_def)

lemma same_books_limits: "same_books c c' \<Longrightarrow> same_limits c c' \<and> waits c' = waits c \<and> backlog c' = backlog c"
  by (simp add: same_books_def same_limits_def waits_def backlog_def fun_eq_iff cong: option.case_cong)

lemma backlog_waits: "backlog c = (\<Sum>i \<in> dom (bt_get (st_books (cn_state c))). waits c i)"
  unfolding backlog_def bt.total_def by (rule sum.cong) (auto simp: waits_def)

lemma match_chunk:
  assumes l: "alive K c" and b: "bt_get (st_books (cn_state c)) i = Some b" and p: "permit_matching (st_permissions (cn_state c)) i = Inr ()"
    and chunk: "chunk = take n (pending_order_seqs b)"
  shows "\<exists>c'. process_event (Ev_Matching \<lparr>me_book_id = i, me_orders = chunk\<rparr>) now c = Some c' \<and> alive K c' \<and> same_limits c c' \<and>
    waits c' = (waits c)(i := waits c i - n) \<and> backlog c' + length chunk = backlog c"
proof -
  let ?s = "cn_state c" and ?ev = "\<lparr>me_book_id = i, me_orders = chunk\<rparr>"
  have q: "pending_order_seqs b = me_orders ?ev @ drop n (pending_order_seqs b)" by (simp add: chunk)
  obtain b' orders evs where m: "record_matching_event ?ev now Write ?s =
        Some (?s\<lparr>st_books := bt_insert i b' (st_books ?s), st_orders := orders, st_settling := st_settling ?s @ evs\<rparr>)"
      "exchange_ok K (?s\<lparr>st_books := bt_insert i b' (st_books ?s), st_orders := orders, st_settling := st_settling ?s @ evs\<rparr>)"
      "pending_order_seqs b' = drop n (pending_order_seqs b)" "length (hi_primary orders) = length (hi_primary (st_orders ?s))"
    using exchange_matching [OF aliveD(1,3,4) [OF l], of ?ev b, OF _ q, of now] b by auto
  then obtain c' where c': "process_event (Ev_Matching ?ev) now c = Some c'"
      "cn_state c' = ?s\<lparr>st_books := bt_insert i b' (st_books ?s), st_orders := orders, st_settling := st_settling ?s @ evs\<rparr>"
    by (auto simp: process_event_Some apply_state_transition_def)
  have "event_run undefined c c'"
    using b chunk by (intro event_run_one [OF c'(1)]) (auto simp: event_allowed_def event_guard_def)
  then have "alive K c'" by (rule alive_run [OF _ l]) (use m(2,4) in \<open>simp_all add: c'(2)\<close>)
  moreover have len: "length (bk_pending_orders b') = length (bk_pending_orders b) - n"
    using arg_cong [OF m(3), of length] by (simp add: pending_order_seqs_def)
  then have "waits c' = (waits c)(i := waits c i - n)" using b by (auto simp: fun_eq_iff waits_def c'(2) waiting_def cong: option.case_cong)
  moreover have "same_limits c c'" using b by (auto simp: same_limits_def c'(2) split: if_splits)
  moreover have "backlog c' + length chunk = backlog c"
    using bt.total_put [of "waiting (st_permissions ?s)" i b' "st_books ?s"] b p len
    by (auto simp: backlog_def c'(2) waiting_def chunk pending_order_seqs_def split: if_splits)
  ultimately show ?thesis using c'(1) by blast
qed

text \<open>A chunk of the first book is matched and settled.\<close>

lemma book_step:
  assumes l: "alive K c" and b: "bt_get (st_books (cn_state c)) i = Some b" and w: "0 < waits c i" "0 < n" and k: "counter k < budget"
  obtains k' c' where "alive K c'" "same_limits c c'" "waits c' = (waits c)(i := waits c i - n)"
    "backlog c' + min n (waits c i) = backlog c" "\<forall>j. counter j < budget \<Longrightarrow> st_settling (cn_state c') = []"
    "\<And>books. books_loop counter budget now (i # books) n (k, c) = books_loop counter budget now books (n - min n (waits c i)) (k', c')"
proof -
  have p: "permit_matching (st_permissions (cn_state c)) i = Inr ()" and len: "waits c i = length (pending_order_seqs b)"
    using w(1) b by (auto simp: waits_def waiting_def pending_order_seqs_def split: if_splits)
  let ?chunk = "take n (pending_order_seqs b)"
  obtain c1 where c1: "process_event (Ev_Matching \<lparr>me_book_id = i, me_orders = ?chunk\<rparr>) now c = Some c1" "alive K c1" "same_limits c c1"
      "waits c1 = (waits c)(i := waits c i - n)" "backlog c1 + length ?chunk = backlog c"
    using match_chunk [OF l b p refl] by blast
  obtain k' c' m where c': "drain_settling counter budget now (Suc k, c1) = Some (k', c')" "alive K c'" "same_books c1 c'"
      "\<forall>j. counter j < budget \<Longrightarrow> st_settling (cn_state c') = []"
    using drain_settling_runs [OF c1(2), of counter budget now "Suc k"] by metis
  note s = same_books_limits [OF c'(3)]
  have "?chunk \<noteq> []" using w len by auto
  then have "books_loop counter budget now (i # books) n (k, c) = books_loop counter budget now books (n - min n (waits c i)) (k', c')" for books
    using w(2) k [unfolded not_le [symmetric]] p b c1(1) c'(1) len by (auto simp: Let_def min.commute)
  then show ?thesis using that [OF c'(2)] c1(3-5) s same_limits_trans c'(4) len by (simp add: min.commute)
qed

lemma books_loop_runs:
  assumes "alive K c" "distinct books" "set books \<subseteq> dom (bt_get (st_books (cn_state c)))"
  shows "\<exists>k' c'. books_loop counter budget now books n (k, c) = Some (k', c') \<and> alive K c' \<and> same_limits c c' \<and>
    (backlog c' < backlog c \<or> c' = c) \<and>
    (0 < n \<and> (\<exists>i \<in> set books. 0 < waits c i) \<and> (\<forall>j < k + length books. counter j < budget) \<longrightarrow> backlog c' < backlog c) \<and>
    (st_settling (cn_state c) = [] \<and> (\<forall>j. counter j < budget) \<longrightarrow>
       st_settling (cn_state c') = [] \<and> backlog c' + min n (\<Sum>i\<leftarrow>books. waits c i) = backlog c)"
  using assms
proof (induction books arbitrary: n k c)
  case Nil
  then show ?case by (simp add: same_limits_def)
next
  case (Cons i books)
  obtain b where b: "bt_get (st_books (cn_state c)) i = Some b" using Cons.prems(3) by auto
  consider "n = 0 \<or> budget \<le> counter k" | "n \<noteq> 0" "counter k < budget" "waits c i = 0" | "n \<noteq> 0" "counter k < budget" "waits c i \<noteq> 0"
    by fastforce
  then show ?case
  proof cases
    case 1
    then have "\<exists>k'. books_loop counter budget now (i # books) n (k, c) = Some (k', c)" by auto
    moreover have "0 < n \<longrightarrow> \<not> counter k < budget" using 1 by auto
    ultimately show ?thesis using Cons.prems(1) by (fastforce simp: same_limits_def)
  next
    case 2
    then have "books_loop counter budget now (i # books) n (k, c) = books_loop counter budget now books n (Suc k, c)"
      using b by (auto simp: waits_def waiting_def pending_order_seqs_def permit_matching_def Let_def split: if_splits)
    then show ?thesis using Cons.IH [OF Cons.prems(1), of n "Suc k"] Cons.prems(2,3) 2(3) by fastforce
  next
    case 3
    obtain k1 c1 where s: "alive K c1" "same_limits c c1" "waits c1 = (waits c)(i := waits c i - n)" "backlog c1 + min n (waits c i) = backlog c"
        "\<forall>j. counter j < budget \<Longrightarrow> st_settling (cn_state c1) = []"
        "books_loop counter budget now (i # books) n (k, c) = books_loop counter budget now books (n - min n (waits c i)) (k1, c1)"
      using book_step [OF Cons.prems(1) b] 3 by (metis neq0_conv)
    have dom: "set books \<subseteq> dom (bt_get (st_books (cn_state c1)))" using s(2) Cons.prems(3) by (simp add: same_limits_def)
    have sum: "(\<Sum>j\<leftarrow>books. waits c1 j) = (\<Sum>j\<leftarrow>books. waits c j)"
      using Cons.prems(2) by (auto simp: s(3) intro!: arg_cong [of _ _ sum_list])
    obtain k' c' where IH: "books_loop counter budget now books (n - min n (waits c i)) (k1, c1) = Some (k', c')" "alive K c'"
        "same_limits c1 c'" "backlog c' < backlog c1 \<or> c' = c1"
        "(st_settling (cn_state c1) = [] \<and> (\<forall>j. counter j < budget) \<longrightarrow>
          st_settling (cn_state c') = [] \<and> backlog c' + min (n - min n (waits c i)) (\<Sum>i\<leftarrow>books. waits c1 i) = backlog c1)"
      using Cons.IH [OF s(1) _ dom, of "n - min n (waits c i)" k1] Cons.prems(2) by auto
    have "backlog c' < backlog c" using IH(4) s(4) 3 by auto
    moreover have "st_settling (cn_state c') = [] \<and> backlog c' + min n (\<Sum>i\<leftarrow>i # books. waits c i) = backlog c" if "\<forall>j. counter j < budget"
      using IH(5) s(4,5) that by (auto simp: sum min_def split: if_splits)
    ultimately show ?thesis using s(6) IH(1,2) same_limits_trans [OF s(2) IH(3)] by auto
  qed
qed

section \<open>One run of the executor\<close>

lemma books_by_pending:
  assumes "bt_ok (st_books s)"
  shows "distinct (books_by_pending_order_count_desc s)" "length (books_by_pending_order_count_desc s) \<le> length (st_books s)"
    "set (books_by_pending_order_count_desc s) = {i. \<exists>b. bt_get (st_books s) i = Some b \<and> bk_pending_orders b \<noteq> []}"
proof -
  let ?m = "map (\<lambda>(i, book). (i, length (bk_pending_orders book))) (st_books s)"
  have keys: "map fst ?m = bt_keys (st_books s)" by (simp add: bt_keys_def comp_def case_prod_beta)
  have "distinct (map fst ?m)" unfolding keys by (rule bt_ok_distinct [OF assms])
  then have "distinct (map fst (filter (\<lambda>(_, n). n > 0) ?m))" by (rule distinct_map_filter)
  then show "distinct (books_by_pending_order_count_desc s)"
    by (simp add: books_by_pending_order_count_desc_def distinct_map)
  have "length (filter (\<lambda>(_, n). n > 0) ?m) \<le> length ?m" by (rule length_filter_le)
  then show "length (books_by_pending_order_count_desc s) \<le> length (st_books s)" by (simp add: books_by_pending_order_count_desc_def)
  show "set (books_by_pending_order_count_desc s) = {i. \<exists>b. bt_get (st_books s) i = Some b \<and> bk_pending_orders b \<noteq> []}"
    by (force simp: books_by_pending_order_count_desc_def bt_ok_get_iff [OF assms])
qed

lemma backlog_books:
  assumes "bt_ok (st_books (cn_state c))"
  shows "backlog c = (\<Sum>i\<leftarrow>books_by_pending_order_count_desc (cn_state c). waits c i)"
proof -
  note b = books_by_pending [OF assms]
  have "backlog c = (\<Sum>i \<in> set (books_by_pending_order_count_desc (cn_state c)). waits c i)"
    unfolding backlog_waits by (rule sum.mono_neutral_right) (auto simp: b(3) waits_def waiting_def bt.finite_dom split: option.splits)
  then show ?thesis by (simp add: sum_list_distinct_conv_sum_set b(1))
qed

lemma has_matchable_backlog:
  assumes "bt_ok (st_books (cn_state c))"
  shows "has_matchable_pending_orders (cn_state c) \<longleftrightarrow> 0 < backlog c"
proof -
  have "has_matchable_pending_orders (cn_state c) \<longleftrightarrow> (\<exists>i. 0 < waits c i)"
    by (fastforce simp: has_matchable_pending_orders_def list_ex_iff waits_def waiting_def bt_ok_get_iff [OF assms, symmetric] split: option.splits if_splits)
  moreover have "i \<in> dom (bt_get (st_books (cn_state c)))" if "0 < waits c i" for i using that by (auto simp: waits_def split: option.splits)
  ultimately show ?thesis unfolding backlog_waits by (metis bt.finite_dom neq0_conv sum_eq_0_iff)
qed

lemma status_backlog:
  assumes "bt_ok (st_books (cn_state c))"
  shows "status_from_state (cn_state c) = (if backlog c = 0 \<and> st_settling (cn_state c) = [] then Complete else MoreWork)"
  by (simp add: status_from_state_def has_matchable_backlog [OF assms] has_pending_settling_events_def)

lemma alive_books: "alive K c \<Longrightarrow> bt_ok (st_books (cn_state c))"
  by (simp add: alive_def lively_def heap_ok_def maps_ok_def)

text \<open>The work left: orders to match, then events to settle.\<close>

definition work :: "canister \<Rightarrow> nat \<times> nat" where
  "work c = (backlog c, length (st_settling (cn_state c)))"

definition less_work :: "((nat \<times> nat) \<times> (nat \<times> nat)) set" where
  "less_work = less_than <*lex*> less_than"

lemma wf_less_work: "wf less_work"
  by (simp add: less_work_def wf_lex_prod)

lemma matching_phase:
  assumes l: "alive K c" and n: "0 < n"
  shows "\<exists>k' c'. books_loop counter budget now (books_by_pending_order_count_desc (cn_state c)) n (k, c) = Some (k', c') \<and>
    alive K c' \<and> same_limits c c' \<and> (backlog c' < backlog c \<or> c' = c) \<and>
    (0 < backlog c \<and> (\<forall>j < k + length (st_books (cn_state c)). counter j < budget) \<longrightarrow> backlog c' < backlog c) \<and>
    (st_settling (cn_state c) = [] \<and> (\<forall>j. counter j < budget) \<longrightarrow> st_settling (cn_state c') = [] \<and> backlog c' = backlog c - n)"
proof -
  let ?books = "books_by_pending_order_count_desc (cn_state c)"
  note b = books_by_pending [OF alive_books [OF l]] and sum = backlog_books [OF alive_books [OF l]]
  have some: "\<exists>i \<in> set ?books. 0 < waits c i" if "0 < backlog c"
    using that unfolding sum by (auto simp: sum_list_eq_0_iff neq0_conv [symmetric] simp del: neq0_conv)
  have low: "\<forall>j < k + length ?books. counter j < budget" if "\<forall>j < k + length (st_books (cn_state c)). counter j < budget"
    using that b(2) by simp
  have "set ?books \<subseteq> dom (bt_get (st_books (cn_state c)))" by (auto simp: b(3))
  from books_loop_runs [OF l b(1) this, of counter budget now n k] obtain k' c' where
      r: "books_loop counter budget now ?books n (k, c) = Some (k', c')" "alive K c'" "same_limits c c'" "backlog c' < backlog c \<or> c' = c"
        "0 < n \<and> (\<exists>i \<in> set ?books. 0 < waits c i) \<and> (\<forall>j < k + length ?books. counter j < budget) \<longrightarrow> backlog c' < backlog c"
        "st_settling (cn_state c) = [] \<and> (\<forall>j. counter j < budget) \<longrightarrow>
           st_settling (cn_state c') = [] \<and> backlog c' + min n (\<Sum>i\<leftarrow>?books. waits c i) = backlog c" by auto
  have "st_settling (cn_state c) = [] \<and> (\<forall>j. counter j < budget) \<longrightarrow> st_settling (cn_state c') = [] \<and> backlog c' = backlog c - n"
    using r(6) unfolding sum [symmetric] by auto
  moreover have "0 < backlog c \<and> (\<forall>j < k + length (st_books (cn_state c)). counter j < budget) \<longrightarrow> backlog c' < backlog c"
    using r(5) n some low by blast
  ultimately show ?thesis using r(1-4) by (intro exI [of _ k'] exI [of _ c']) simp
qed

lemma run_once_runs:
  assumes l: "alive K c"
  defines "budget \<equiv> ep_instruction_budget (st_policy (cn_state c))"
  shows "\<exists>c'. run_once counter now c = Some (status_from_state (cn_state c'), c') \<and> alive K c' \<and> same_limits c c' \<and>
    (status_from_state (cn_state c) = MoreWork \<and> (\<forall>j < length (st_books (cn_state c)) + 2. counter j < budget) \<longrightarrow>
       (work c', work c) \<in> less_work) \<and>
    (status_from_state (cn_state c) \<noteq> MoreWork \<longrightarrow> c' = c) \<and>
    ((\<forall>j. counter j < budget) \<longrightarrow> st_settling (cn_state c') = [] \<and>
       backlog c' = backlog c - unat (ep_max_orders_per_chunk (st_policy (cn_state c))))"
proof -
  let ?n = "unat (ep_max_orders_per_chunk (st_policy (cn_state c)))"
  have n: "0 < ?n" using aliveD(1) [OF l] by (simp add: heap_ok_def maps_ok_def policy_ok_iff unat_gt_0)
  obtain k c1 m where d: "drain_settling counter budget now (0, c) = Some (k, c1)" "alive K c1" "same_books c c1"
      "st_settling (cn_state c1) = drop m (st_settling (cn_state c))"
      "counter 0 < budget \<Longrightarrow> st_settling (cn_state c) \<noteq> [] \<Longrightarrow> 0 < m"
      "st_settling (cn_state c) = [] \<Longrightarrow> c1 = c \<and> k = Suc 0"
      "\<forall>j. counter j < budget \<Longrightarrow> st_settling (cn_state c1) = []"
    using drain_settling_runs [OF l, of counter budget now 0] by metis
  note s = same_books_limits [OF d(3)] and more = status_backlog [OF alive_books [OF l]]
  show ?thesis
  proof (cases "budget \<le> counter k")
    case True
    then have "run_once counter now c = Some (status_from_state (cn_state c1), c1)"
      using d(1) by (simp add: run_once_def budget_def Let_def)
    moreover have "(work c1, work c) \<in> less_work" if "\<forall>j < length (st_books (cn_state c)) + 2. counter j < budget"
      using d(4-6) that True s by (fastforce simp: work_def less_work_def)
    moreover have "\<not> (\<forall>j. counter j < budget)" using True by (auto simp: not_less)
    ultimately show ?thesis using d(2,6) s more by (intro exI [of _ c1]) auto
  next
    case False
    obtain k2 c2 where r: "books_loop counter budget now (books_by_pending_order_count_desc (cn_state c1)) ?n (Suc k, c1) = Some (k2, c2)"
        "alive K c2" "same_limits c1 c2" "backlog c2 < backlog c1 \<or> c2 = c1"
        "0 < backlog c1 \<and> (\<forall>j < Suc k + length (st_books (cn_state c1)). counter j < budget) \<longrightarrow> backlog c2 < backlog c1"
        "st_settling (cn_state c1) = [] \<and> (\<forall>j. counter j < budget) \<longrightarrow> st_settling (cn_state c2) = [] \<and> backlog c2 = backlog c1 - ?n"
      using matching_phase [OF d(2) n, of counter budget now "Suc k"] by blast
    have "run_once counter now c = Some (status_from_state (cn_state c2), c2)"
      using False d(1) r(1) by (simp add: run_once_def budget_def Let_def)
    moreover have "(work c2, work c) \<in> less_work" if "status_from_state (cn_state c) = MoreWork"
      and low: "\<forall>j < length (st_books (cn_state c)) + 2. counter j < budget"
    proof (cases "st_settling (cn_state c) = []")
      case True
      then have "0 < backlog c" using that more by (auto split: if_splits)
      then show ?thesis using r(5) d(6) True low by (simp add: work_def less_work_def)
    next
      case False
      then show ?thesis using d(4,5) r(4) s low by (auto simp: work_def less_work_def)
    qed
    moreover have "status_from_state (cn_state c) \<noteq> MoreWork \<longrightarrow> c2 = c" using more d(6) r(4) by auto
    ultimately show ?thesis using r(2,6) d(7) s same_limits_trans [OF _ r(3)] by (intro exI [of _ c2]) simp
  qed
qed

section \<open>The chain of runs\<close>

lemma work_tasks [simp]:
  "backlog (c\<lparr>cn_state := (cn_state c)\<lparr>st_tasks := ts\<rparr>\<rparr>) = backlog c"
  "work (c\<lparr>cn_state := (cn_state c)\<lparr>st_tasks := ts\<rparr>\<rparr>) = work c"
  "status_from_state (s\<lparr>st_tasks := ts\<rparr>) = status_from_state s"
  by (simp_all add: work_def backlog_def status_from_state_def has_matchable_pending_orders_def has_pending_settling_events_def)

lemma process_pending_runs:
  assumes l: "alive K c" and idle: "ProcessPendingOrders \<notin> st_tasks (cn_state c)"
  defines "budget \<equiv> ep_instruction_budget (st_policy (cn_state c))"
  shows "\<exists>c'. api_process_pending_orders counter now c = Some (status_from_state (cn_state c'), c') \<and> alive K c' \<and> same_limits c c' \<and>
    ProcessPendingOrders \<notin> st_tasks (cn_state c') \<and>
    (status_from_state (cn_state c) = MoreWork \<and> (\<forall>j < length (st_books (cn_state c)) + 2. counter j < budget) \<longrightarrow>
       (work c', work c) \<in> less_work) \<and>
    (status_from_state (cn_state c) \<noteq> MoreWork \<longrightarrow> work c' = work c) \<and>
    ((\<forall>j. counter j < budget) \<longrightarrow> st_settling (cn_state c') = [] \<and>
       backlog c' = backlog c - unat (ep_max_orders_per_chunk (st_policy (cn_state c))))"
proof -
  let ?c = "c\<lparr>cn_state := (cn_state c)\<lparr>st_tasks := insert ProcessPendingOrders (st_tasks (cn_state c))\<rparr>\<rparr>"
  obtain c1 where r: "run_once counter now ?c = Some (status_from_state (cn_state c1), c1)" "alive K c1" "same_limits ?c c1"
      "status_from_state (cn_state c) = MoreWork \<and> (\<forall>j < length (st_books (cn_state c)) + 2. counter j < budget) \<longrightarrow> (work c1, work c) \<in> less_work"
      "status_from_state (cn_state c) \<noteq> MoreWork \<longrightarrow> work c1 = work c"
      "(\<forall>j. counter j < budget) \<longrightarrow> st_settling (cn_state c1) = [] \<and>
         backlog c1 = backlog c - unat (ep_max_orders_per_chunk (st_policy (cn_state c)))"
    using run_once_runs [OF alive_tasks [OF l, of "insert ProcessPendingOrders (st_tasks (cn_state c))"], of counter now]
    by (elim exE conjE) (rule that, simp_all add: budget_def)
  let ?c' = "c1\<lparr>cn_state := timer_guard_drop ProcessPendingOrders (cn_state c1)\<rparr>"
  have same': "work ?c' = work c1" "backlog ?c' = backlog c1" "status_from_state (cn_state ?c') = status_from_state (cn_state c1)"
    by (simp_all add: timer_guard_drop_def)
  have "api_process_pending_orders counter now c = Some (status_from_state (cn_state ?c'), ?c')"
    using r(1) idle unfolding same' by (simp add: api_process_pending_orders_def timer_guard_new_def)
  moreover have "alive K ?c'" unfolding timer_guard_drop_def by (rule alive_tasks [OF r(2)])
  ultimately show ?thesis
    using r(3-6) unfolding same' [symmetric] by (intro exI [of _ ?c']) (simp add: same_limits_def timer_guard_drop_def)
qed

lemma drive_matching_runs:
  assumes l: "alive K c" and idle: "ProcessPendingOrders \<notin> st_tasks (cn_state c)"
  defines "budget \<equiv> ep_instruction_budget (st_policy (cn_state c))"
  shows "\<exists>c'. drive_matching counter now c = Some (status_from_state (cn_state c') = MoreWork, c') \<and> alive K c' \<and> same_limits c c' \<and>
    ProcessPendingOrders \<notin> st_tasks (cn_state c') \<and>
    (status_from_state (cn_state c) = MoreWork \<and> (\<forall>j < length (st_books (cn_state c)) + 2. counter j < budget) \<longrightarrow>
       (work c', work c) \<in> less_work) \<and>
    (status_from_state (cn_state c) \<noteq> MoreWork \<longrightarrow> work c' = work c) \<and>
    ((\<forall>j. counter j < budget) \<longrightarrow> st_settling (cn_state c') = [] \<and>
       backlog c' = backlog c - unat (ep_max_orders_per_chunk (st_policy (cn_state c))))"
proof -
  have "drive_matching counter now c = Some (status_from_state (cn_state c') = MoreWork, c')"
    if "api_process_pending_orders counter now c = Some (status_from_state (cn_state c'), c')" for c'
    using that by (simp add: drive_matching_def status_from_state_def)
  then show ?thesis using process_pending_runs [OF l idle, of counter now] unfolding budget_def by blast
qed

definition at_rest :: "canister \<Rightarrow> bool" where
  "at_rest c \<longleftrightarrow> \<not> has_matchable_pending_orders (cn_state c) \<and> \<not> has_pending_settling_events (cn_state c)"

lemma at_rest_status: "at_rest c \<longleftrightarrow> status_from_state (cn_state c) \<noteq> MoreWork"
  by (simp add: at_rest_def status_from_state_def)

text \<open>The counter lets a run look at every book at least once.\<close>

definition enough_instructions :: "readings \<Rightarrow> canister \<Rightarrow> bool" where
  "enough_instructions counter c \<longleftrightarrow>
     (\<forall>j < length (st_books (cn_state c)) + 2. counter j < ep_instruction_budget (st_policy (cn_state c)))"

lemma same_limits_enough:
  assumes "same_limits c c'" "alive K c" "alive K c'"
  shows "enough_instructions counter c' = enough_instructions counter c"
proof -
  have "length (st_books (cn_state d)) = card (dom (bt_get (st_books (cn_state d))))" if "alive K d" for d
  proof -
    have "distinct (map fst (st_books (cn_state d)))" using bt_ok_distinct [OF alive_books [OF that]] by (simp add: bt_keys_def)
    moreover have "bt_get (st_books (cn_state d)) = map_of (st_books (cn_state d))" by (simp add: fun_eq_iff bt_get_def)
    ultimately show ?thesis using distinct_card [of "map fst (st_books (cn_state d))"] by (simp add: dom_map_of_conv_image_fst)
  qed
  then show ?thesis using assms by (simp add: enough_instructions_def same_limits_def)
qed

lemma status_work: "alive K c \<Longrightarrow> status_from_state (cn_state c) = MoreWork \<longleftrightarrow> work c \<noteq> (0, 0)"
  using status_backlog [OF alive_books] by (auto simp: work_def)

lemma drive_chain_ends:
  assumes "alive K c" "ProcessPendingOrders \<notin> st_tasks (cn_state c)" "\<And>j. enough_instructions (counters j) c"
  shows "\<exists>n c'. drive_chain n counters nows j c = Some (False, c') \<and> alive K c' \<and> at_rest c'"
  using assms
proof (induction "work c" arbitrary: c j rule: wf_induct_rule [OF wf_less_work])
  case (1 c)
  obtain c1 where c1: "drive_matching (counters j) (nows j) c = Some (status_from_state (cn_state c1) = MoreWork, c1)" "alive K c1"
      "same_limits c c1" "ProcessPendingOrders \<notin> st_tasks (cn_state c1)"
      "status_from_state (cn_state c) = MoreWork \<longrightarrow> (work c1, work c) \<in> less_work"
      "status_from_state (cn_state c) \<noteq> MoreWork \<longrightarrow> work c1 = work c"
    using drive_matching_runs [OF 1(2,3), of "counters j" "nows j"] 1(4) [of j] by (auto simp: enough_instructions_def)
  show ?case
  proof (cases "at_rest c1")
    case True
    then have "drive_chain (Suc 0) counters nows j c = Some (False, c1)" using c1(1) by (simp add: at_rest_status)
    then show ?thesis using True c1(2) by blast
  next
    case False
    then have "(work c1, work c) \<in> less_work" using c1(5,6) status_work [OF 1(2)] status_work [OF c1(2)] by (auto simp: at_rest_status)
    then have "\<exists>n c'. drive_chain n counters nows (Suc j) c1 = Some (False, c') \<and> alive K c' \<and> at_rest c'"
      using c1(2,4) 1(4) same_limits_enough [OF c1(3) 1(2) c1(2)] by (intro 1(1)) auto
    then obtain n c' where "drive_chain n counters nows (Suc j) c1 = Some (False, c')" "alive K c'" "at_rest c'" by blast
    then have "drive_chain (Suc n) counters nows j c = Some (False, c')" using c1(1) False by (simp add: at_rest_status)
    then show ?thesis using \<open>alive K c'\<close> \<open>at_rest c'\<close> by blast
  qed
qed

text \<open>When the counter never runs out, each run matches a full chunk.\<close>

lemma drive_chain_bounded:
  assumes "alive K c" "ProcessPendingOrders \<notin> st_tasks (cn_state c)"
    "\<And>i j. counters i j < ep_instruction_budget (st_policy (cn_state c))"
    "backlog c \<le> Suc n * unat (ep_max_orders_per_chunk (st_policy (cn_state c)))"
  shows "\<exists>c'. drive_chain (Suc n) counters nows j c = Some (False, c') \<and> alive K c' \<and> at_rest c'"
  using assms
proof (induction n arbitrary: c j)
  case (0 c)
  obtain c1 where c1: "drive_matching (counters j) (nows j) c = Some (status_from_state (cn_state c1) = MoreWork, c1)" "alive K c1"
      "st_settling (cn_state c1) = []" "backlog c1 = backlog c - unat (ep_max_orders_per_chunk (st_policy (cn_state c)))"
    using drive_matching_runs [OF 0(1,2), of "counters j" "nows j"] 0(3) by auto
  then have "status_from_state (cn_state c1) \<noteq> MoreWork" using 0(4) by (simp add: status_work work_def)
  then show ?case using c1(1,2) by (simp add: at_rest_status)
next
  case (Suc n c)
  obtain c1 where c1: "drive_matching (counters j) (nows j) c = Some (status_from_state (cn_state c1) = MoreWork, c1)" "alive K c1"
      "same_limits c c1" "ProcessPendingOrders \<notin> st_tasks (cn_state c1)"
      "backlog c1 = backlog c - unat (ep_max_orders_per_chunk (st_policy (cn_state c)))"
    using drive_matching_runs [OF Suc(2,3), of "counters j" "nows j"] Suc(4) by auto
  have "st_policy (cn_state c1) = st_policy (cn_state c)" using c1(3) by (simp add: same_limits_def)
  then have "\<exists>c'. drive_chain (Suc n) counters nows (Suc j) c1 = Some (False, c') \<and> alive K c' \<and> at_rest c'"
    using c1(2,4,5) Suc(4,5) by (intro Suc(1)) auto
  then show ?case using c1(1,2) by (cases "at_rest c1") (auto simp: at_rest_status simp del: drive_chain.simps(2) simp add: drive_chain.simps(2) [of "Suc n"])
qed

section \<open>The guard of the executor is free between messages\<close>

lemma record_token_tasks: "record_token token metadata s = Some s' \<Longrightarrow> st_tasks s' = st_tasks s"
  by (auto simp: record_token_def trap_simps split: option.splits)

lemma transition_tasks:
  assumes "apply_state_transition payload now Write s = Some s'"
  shows "st_tasks s' = st_tasks s"
proof (cases payload)
  case (Ev_AddTradingPair ev)
  then show ?thesis
    using assms by (auto simp: apply_state_transition_def record_trading_pair_def Let_def trap_simps dest!: record_token_tasks)
next
  case (Ev_AddLimitOrder ev)
  then show ?thesis
    using assms by (auto simp: apply_state_transition_def record_limit_order_def reserve_and_record_def Let_def trap_simps split: prod.splits)
next
  case (Ev_CancelLimitOrder ev)
  then show ?thesis
    using assms by (cases "ce_order_id ev") (auto simp: apply_state_transition_def record_cancel_limit_order_def Let_def trap_simps)
next
  case (Ev_Upgrade arg)
  then show ?thesis using assms upgrade_frame [of arg s s'] by (auto simp: apply_state_transition_def dest: arg_cong [of _ _ st_tasks])
qed (use assms in \<open>auto simp: apply_state_transition_def st_deposit_def st_withdraw_def record_matching_event_def record_settling_event_def
  st_record_add_trading_account_def st_record_remove_trading_account_def Let_def trap_simps split: prod.splits option.splits\<close>)

lemma process_event_tasks: "process_event payload now c = Some c' \<Longrightarrow> st_tasks (cn_state c') = st_tasks (cn_state c)"
  by (auto simp: process_event_Some dest: transition_tasks)

lemma process_settlings_tasks: "process_settlings evs now c = Some c' \<Longrightarrow> st_tasks (cn_state c') = st_tasks (cn_state c)"
  by (induction evs arbitrary: c) (auto simp: trap_simps dest: process_event_tasks)

lemma cancel_tasks:
  assumes "st_cancel_limit_order owner by' i now c = Some (r, c')"
  shows "st_tasks (cn_state c') = st_tasks (cn_state c)"
  using assms
  by (cases "validate_cancel_limit_order owner i (cn_state c)")
     (auto simp: st_cancel_limit_order_def Let_def trap_simps dest!: process_event_tasks process_settlings_tasks)

lemma post_upgrade_tasks:
  assumes "post_upgrade arg now snap orders trades balances registry log = Some c"
  shows "st_tasks (cn_state c) = {}"
proof -
  obtain s where s: "into_state snap orders trades balances registry = Some s" using assms by (auto simp: post_upgrade_def trap_simps)
  then have "st_tasks s = {}" by (auto simp: into_state_def Let_def trap_simps)
  then show ?thesis
    using assms s by (auto simp: post_upgrade_def Let_def split: option.splits oisy_trade_arg.splits dest!: process_event_tasks)
qed

lemma deposit_tasks: "st_deposit p t a Write s = Some s' \<Longrightarrow> st_tasks s' = st_tasks s"
  by (cases "get_or_register p (st_registry s)") (auto simp: st_deposit_def trap_simps)

lemma start_tasks:
  "deposit_start big token n rt c = Some (r, c') \<Longrightarrow> st_tasks (cn_state c') = st_tasks (cn_state c)"
  by (drule deposit_start_cases) auto

lemma withdraw_start_tasks:
  assumes "withdraw_start big token n rt c = Some (r, c')"
  shows "st_tasks (cn_state c') = st_tasks (cn_state c)"
  using withdraw_start_cases [OF assms] by (auto simp: st_withdraw_def trap_simps split: option.splits)

lemma finish_tasks:
  "deposit_finish token amount answer rt c = Some (r, c') \<Longrightarrow> st_tasks (cn_state c') = st_tasks (cn_state c)"
  by (cases "ledger_deposit answer") (auto simp: deposit_finish_def user_op_guard_drop_def trap_simps dest: process_event_tasks)

lemma withdraw_finish_tasks:
  assumes "withdraw_finish token amount outcome rt c = Some (rw, c')"
  shows "st_tasks (cn_state c') = st_tasks (cn_state c)"
proof -
  define s0 where "s0 = (case wo_ledger_fee outcome of None \<Rightarrow> cn_state c | Some fee \<Rightarrow> set_cached_ledger_fee token fee (cn_state c))"
  have s0: "st_tasks s0 = st_tasks (cn_state c)" by (simp add: s0_def set_cached_ledger_fee_def split: option.split)
  show ?thesis
  proof (cases "wo_result outcome")
    case (Inl e)
    then obtain s' where "st_deposit (rt_caller rt) token amount Write s0 = Some s'" "cn_state c' = user_op_guard_drop (rt_caller rt) token s'"
      using assms unfolding withdraw_finish_def s0_def [symmetric] by (auto simp: Let_def trap_simps)
    then show ?thesis using s0 deposit_tasks by (simp add: user_op_guard_drop_def)
  next
    case (Inr block)
    have rec: "cn_state (record_event p now d) = cn_state d" for p now d by (simp add: record_event_def)
    from Inr have "cn_state c' = user_op_guard_drop (rt_caller rt) token s0"
      using assms unfolding withdraw_finish_def s0_def [symmetric] by (auto simp: Let_def trap_simps rec)
    then show ?thesis using s0 by (simp add: user_op_guard_drop_def)
  qed
qed

lemma match_tasks:
  assumes "api_process_pending_orders counter now c = Some (st, c')" "st_tasks (cn_state c) = {}"
  shows "st_tasks (cn_state c') = {}"
  using assms by (auto simp: api_process_pending_orders_def timer_guard_new_def timer_guard_drop_def trap_simps) (metis task.exhaust)

lemma order_tasks:
  "api_add_limit_order big req rt c = Some (r, c') \<Longrightarrow> st_tasks (cn_state c') = st_tasks (cn_state c)"
  "add_trading_pair big preq rt c = Some (rp, c') \<Longrightarrow> st_tasks (cn_state c') = st_tasks (cn_state c)"
  by (auto dest!: add_order_effect pair_effect process_event_tasks)

lemma api_cancel_tasks:
  assumes "api_cancel_limit_order i rt c = Some (rc, c')"
  shows "st_tasks (cn_state c') = st_tasks (cn_state c)"
proof (cases "order_id_parse i")
  case (Inl e)
  then show ?thesis using assms by (auto simp: api_cancel_limit_order_def Let_def trap_simps)
next
  case (Inr i')
  then obtain r' owner by' where "st_cancel_limit_order owner by' i' (rt_time rt) c = Some (r', c')"
    using assms unfolding api_cancel_limit_order_def by (auto simp: Let_def Option.bind_eq_Some_conv simp del: split_paired_Ex)
  then show ?thesis by (rule cancel_tasks)
qed

lemma admin_tasks:
  "api_add_trading_account pc trading rt c = Some (rg, c') \<Longrightarrow> st_tasks (cn_state c') = st_tasks (cn_state c)"
  "api_remove_trading_account trading rt c = Some (rr, c') \<Longrightarrow> st_tasks (cn_state c') = st_tasks (cn_state c)"
  "set_halt pairs halted rt c = Some (rh, c') \<Longrightarrow> st_tasks (cn_state c') = st_tasks (cn_state c)"
  by (auto simp: api_add_trading_account_def api_remove_trading_account_def set_halt_def Let_def trap_simps
      split: sum.splits if_splits dest!: process_event_tasks)

lemma step_idle:
  assumes "sys_step pc big y y'" "st_tasks (cn_state (sy_canister y)) = {}"
  shows "st_tasks (cn_state (sy_canister y')) = {}"
  using assms(1)
  by cases (use assms(2) in \<open>simp_all add: order_tasks api_cancel_tasks match_tasks admin_tasks start_tasks withdraw_start_tasks
    finish_tasks withdraw_finish_tasks post_upgrade_tasks user_op_guard_drop_def\<close>)

lemma reachable_idle: "reachable pc big arg y \<Longrightarrow> st_tasks (cn_state (sy_canister y)) = {}"
proof (induction rule: reachable.induct)
  case (reach_init now c)
  then show ?case by (auto simp: canister_init_def state_new_def trap_simps split: oisy_trade_arg.splits sum.splits)
qed (auto dest: step_idle)

lemma reachable_alive:
  assumes "reachable pc big arg y" "length (cn_log (sy_canister y)) < 2 ^ 62" "\<And>t. deposited t (cn_log (sy_canister y)) \<le> K" "K < 2 ^ 192"
  shows "alive K (sy_canister y)"
proof -
  have "length (cn_log (sy_canister y)) \<le> 2 ^ 64" using assms(2) by simp
  note inv = sys_inv_reachable [OF assms(1) this]
  have "exchange_ok K (cn_state (sy_canister y))" "counted (sy_canister y)" using exchange_reachable [OF assms] by simp_all
  then show ?thesis using sys_inv_lively [OF inv] assms(2,4) by (simp add: alive_def counted_def)
qed

end
