(* ===== verification/Exchange_Messages.thy ===== *)
theory Exchange_Messages
  imports Exchange_Liveness
begin

text \<open>
  Messages from users never trap: a cancellation goes through and refunds exactly what the order
  still reserves, a validated order is placed, and the answers of ledgers are always booked.
\<close>

section \<open>Cancelling\<close>

text \<open>What an order still reserves, by its record.\<close>

definition open_value :: "u64 \<Rightarrow> order_record \<Rightarrow> nat" where
  "open_value scale r = (let left = q2n (or_quantity r) - q2n (or_filled_quantity r) in
     case or_side r of Buy \<Rightarrow> unat (or_price r) * left div unat scale | Sell \<Rightarrow> left)"

lemma stake_sum_absent:
  assumes "q \<notin> set (resting_ids b)" "q \<notin> set (pending_order_seqs b)"
  shows "stake_sum (remaining_of q) b = 0"
proof -
  have "stake_sum (remaining_of q) b = stake_sum (\<lambda>i s p n. 0) b"
  proof (rule stake_sum_cong)
    fix i s p n assume "(i, s, p) \<in> stake_terms b"
    then have "i \<in> set (resting_ids b) \<or> i \<in> set (pending_order_seqs b)"
      by (cases s) (force simp: stake_terms_def resting_ids_def makers_ids_def pending_order_seqs_def)+
    then show "remaining_of q i s p n = 0" using assms by (auto simp: remaining_of_def)
  qed
  also have "\<dots> = 0" by (simp add: stake_sum_def side_stakes_def order_stake_def case_prod_unfold)
  finally show ?thesis .
qed

lemma removed_stake_open:
  assumes fits: "record_fits K b q r" "or_status r = Pending \<or> or_status r = Open" and ok: "book_ok b"
    and rem: "remove_order q b = Some (Some removed, b')" "set (resting_ids b') = set (resting_ids b) - {q}"
      "set (pending_order_seqs b') = set (pending_order_seqs b) - {q}" "(q, rm_side removed, rm_price removed) \<in> stake_terms b"
    and own: "own q = Some v"
  shows "removed_stake (hold own (pair, scale) u t) (q, removed) =
    (if u = v \<and> trading_pair_token pair (lock_token (or_side r)) = t then open_value scale r else 0)"
proof -
  have "stake_sum (remaining_of q) b' = 0" using rem(2,3) by (intro stake_sum_absent) auto
  then have "stake_sum (remaining_of q) b = q2n (rm_remaining removed)"
    using stake_sum_remove(1) [OF ok rem(1), of "remaining_of q"] by (simp add: removed_stake_def remaining_of_def)
  then have "q2n (rm_remaining removed) = q2n (or_quantity r) - q2n (or_filled_quantity r)"
      "rm_side removed = or_side r" "rm_price removed = or_price r"
    using fits rem(4) by (auto simp: record_fits_def)
  then show ?thesis using own by (cases "or_side r") (auto simp: removed_stake_def hold_def open_value_def)
qed

lemma refund_balance_total:
  assumes "with_write_back (\<lambda>wb. do { wb' \<leftarrow> apply_operations pair resolved (se_operations (refund_event i scale q removed)) wb; Some ((), wb') }) tb
    = Some ((), tb')"
  shows "balance_total (map_balance (tb_balances tb') k) = balance_total (map_balance (tb_balances tb) k)"
proof -
  obtain tk a where op: "se_operations (refund_event i scale q removed) = [Unreserve q tk a]"
    by (cases "rm_side removed") (auto simp: refund_event_def expired_unit_def)
  let ?wb = "write_back_new (tb_balances tb) (tb_fee_pool tb)"
  obtain key b where w: "balance_unreserve a (map_balance (tb_balances tb) key) = Some b"
      "tb_balances tb' = wb_flush (wb_put key ((wb_row ?wb key)\<lparr>row_balance := b\<rparr>) ?wb)"
    using assms unfolding op
    by (fastforce simp: with_write_back_def apply_operation_def op_token_def Let_def trap_simps wb_unreserve_def load_existing_Some)
  have "wb_ok (wb_put key ((wb_row ?wb key)\<lparr>row_balance := b\<rparr>) ?wb)" by (rule wb_ok_put) simp_all
  then show ?thesis using w(1) by (auto simp: w(2) map_balance_flush balance_unreserve_Some balance_total_def)
qed

text \<open>The state before and after a cancellation that went through.\<close>

definition canceled_from :: "order_id \<Rightarrow> order_record \<Rightarrow> trade_state \<Rightarrow> order_record \<Rightarrow> trade_state \<Rightarrow> bool" where
  "canceled_from i r s r' s' \<longleftrightarrow> history_get (st_orders s') i = Some r' \<and> or_status r' = Canceled \<and>
     q2n (or_filled_quantity r') = q2n (or_filled_quantity r) \<and> st_settling s' = st_settling s \<and>
     (\<exists>b. bt_get (st_books s') (fst i) = Some b \<and> snd i \<notin> set (resting_ids b) \<and> snd i \<notin> set (pending_order_seqs b)) \<and>
     (\<exists>u pair scale. lookup_funding_id (st_registry s) (or_owner r) = Some u \<and> get_pair (st_pairs s) (fst i) = Some pair \<and>
       base_scale s (tp_base pair) = Some scale \<and>
       (\<forall>k. balance_total (map_balance (tb_balances (st_balances s')) k) = balance_total (map_balance (tb_balances (st_balances s)) k) \<and>
          q2n (bal_reserved (map_balance (tb_balances (st_balances s)) k)) = q2n (bal_reserved (map_balance (tb_balances (st_balances s')) k)) +
            (if k = (trading_pair_token pair (lock_token (or_side r)), u) then open_value scale r else 0)))"

lemma canceled_reserves:
  assumes res: "backed s" "backed s'" and m: "market s' = market s" "order_owner s' = order_owner s" "market s i = Some (pair, scale)"
    and b: "bt_get (st_books s) i = Some b" "st_books s' = bt_insert i b' (st_books s)" "st_settling s' = st_settling s"
    and sum: "\<And>u t. stake_sum (hold (\<lambda>q. order_owner s (i, q)) (pair, scale) u t) b =
      stake_sum (hold (\<lambda>q. order_owner s (i, q)) (pair, scale) u t) b' + g u t"
  shows "reserved_of (tb_balances (st_balances s)) u t = reserved_of (tb_balances (st_balances s')) u t + g u t"
proof -
  have "locked s u t = locked s' u t + g u t"
    using bt.total_put [of "book_hold s u t" i b' "st_books s"] b(1) sum [of u t]
    by (simp add: locked_def backed_frame [OF m(1,2)] b(2,3) book_hold_def m(3))
  then show ?thesis using res by (simp add: backed_def)
qed

lemma canceled_state:
  assumes ex: "exchange_ok K s" "exchange_ok K s'" and r: "history_get (st_orders s) (i, q) = Some r" "or_status r = Pending \<or> or_status r = Open"
    and k: "order_owner s (i, q) = Some v" "bt_get (st_books s) i = Some b" "record_fits K b q r" "listed s i pair scale" "book_ok b"
      "remove_order q b = Some (Some removed, b')" "set (resting_ids b') = set (resting_ids b) - {q}"
      "set (pending_order_seqs b') = set (pending_order_seqs b) - {q}" "(q, rm_side removed, rm_price removed) \<in> stake_terms b"
      "orders_follow i [(q, update_cancel cb)] (st_orders s) orders"
    and s': "s' = s\<lparr>st_books := bt_insert i b' (st_books s), st_orders := orders, st_trades := trades, st_balances := tb\<rparr>"
      "record_settling_event (refund_event i scale q removed) now Write start = Some s'" "st_balances start = st_balances s"
    and r': "history_get orders (i, q) = Some r'" "updates_to (update_cancel cb) r r'"
  shows "canceled_from (i, q) r s r' s'"
proof -
  have m: "market s' = market s" by (simp add: fun_eq_iff market_def base_scale_def s'(1))
  have fo: "orders_follow i [(q, update_cancel cb)] (st_orders s) (st_orders s')" using k(10) by (simp add: s'(1))
  have own: "order_owner s' = order_owner s" by (rule owner_follow [OF fo]) (simp add: s'(1))
  have "reserved_of (tb_balances (st_balances s)) u t = reserved_of (tb_balances (st_balances s')) u t +
      (if u = v \<and> trading_pair_token pair (lock_token (or_side r)) = t then open_value scale r else 0)" for u t
    by (rule canceled_reserves [OF exchange_okD(2) [OF ex(1)] exchange_okD(2) [OF ex(2)] m own listed_market [OF k(4)] k(2)])
       (use stake_sum_remove(1) [OF k(5,6)] removed_stake_open [OF k(3) r(2) k(5-9), of "\<lambda>q. order_owner s (i, q)" v] k(1)
        in \<open>simp_all add: s'(1)\<close>)
  then have res: "q2n (bal_reserved (map_balance (tb_balances (st_balances s)) k)) = q2n (bal_reserved (map_balance (tb_balances (st_balances s')) k)) +
      (if k = (trading_pair_token pair (lock_token (or_side r)), v) then open_value scale r else 0)" for k
    by (cases k) (auto simp: reserved_of_def)
  have tot: "balance_total (map_balance (tb_balances (st_balances s')) k) = balance_total (map_balance (tb_balances (st_balances s)) k)" for k
    using s'(2,3) by (auto simp: record_settling_event_def trap_simps dest: refund_balance_total)
  have "lookup_funding_id (st_registry s) (or_owner r) = Some v" using k(1) r(1) by (simp add: order_owner_def)
  then show ?thesis
    unfolding canceled_from_def using r' res tot k(4,7,8) by (auto simp: s'(1) updates_to_def update_cancel_def listed_def)
qed

lemma cancel_settles:
  assumes l: "alive K c" and r: "history_get (st_orders (cn_state c)) (i, q) = Some r" and own: "or_owner r = owner"
    and st: "or_status r = Pending \<or> or_status r = Open"
  shows "\<exists>r' c'. st_cancel_limit_order owner cb (i, q) now c = Some (Inr r', c') \<and> alive K c' \<and>
    canceled_from (i, q) r (cn_state c) r' (cn_state c')"
proof -
  let ?s = "cn_state c"
  note x = aliveD [OF l]
  obtain b u pair scale removed b' orders where k: "order_owner ?s (i, q) = Some u" "bt_get (st_books ?s) i = Some b" "record_fits K b q r"
    "listed ?s i pair scale" "book_ok b" "remove_order q b = Some (Some removed, b')" "set (resting_ids b') = set (resting_ids b) - {q}"
    "set (pending_order_seqs b') = set (pending_order_seqs b) - {q}" "(q, rm_side removed, rm_price removed) \<in> stake_terms b"
    "orders_follow i [(q, update_cancel cb)] (st_orders ?s) orders"
    "record_cancel_limit_order (i, q) cb now Write ?s = Some (?s\<lparr>st_books := bt_insert i b' (st_books ?s), st_orders := orders,
       st_settling := st_settling ?s @ [refund_event i scale q removed]\<rparr>)"
    using cancel_runs [OF x(1,3) r st, where cb = cb and now = now] by metis
  let ?ev = "refund_event i scale q removed" and ?ce = "Ev_CancelLimitOrder \<lparr>ce_order_id = (i, q), ce_canceled_by = cb\<rparr>"
  obtain c1 where c1: "process_event ?ce now c = Some c1" "cn_state c1 = ?s\<lparr>st_books := bt_insert i b' (st_books ?s), st_orders := orders,
       st_settling := st_settling ?s @ [?ev]\<rparr>"
    using k(11) by (auto simp: process_event_Some apply_state_transition_def)
  have run: "event_run undefined c c1"
    by (rule event_run_one [OF c1(1)]) (use r st in \<open>auto simp: event_allowed_def cancellable_def\<close>)
  obtain s1 where "record_cancel_limit_order (i, q) cb now Write ?s = Some s1" "exchange_ok K s1"
      "length (hi_primary (st_orders s1)) = length (hi_primary (st_orders ?s))"
    using exchange_cancel [OF x(1,3) r st, of cb now] by blast
  then have "alive K c1" using alive_run [OF run l] k(11) c1(2) by simp
  note x1 = aliveD [OF this]
  obtain trades tb where e: "record_settling_event ?ev now Write (cn_state c1\<lparr>st_settling := st_settling ?s\<rparr>) =
      Some (cn_state c1\<lparr>st_settling := st_settling ?s, st_trades := trades, st_balances := tb\<rparr>)"
      "exchange_ok K (cn_state c1\<lparr>st_settling := st_settling ?s, st_trades := trades, st_balances := tb\<rparr>)"
    using exchange_settling [OF x1(1,3-5), of "st_settling ?s" ?ev "[]" now] by (auto simp: c1(2))
  let ?c = "c1\<lparr>cn_state := (cn_state c1)\<lparr>st_settling := st_settling ?s\<rparr>\<rparr>"
  obtain c' where c': "process_event (Ev_Settling ?ev) now ?c = Some c'"
      "cn_state c' = cn_state c1\<lparr>st_settling := st_settling ?s, st_trades := trades, st_balances := tb\<rparr>"
    using e(1) by (auto simp: process_event_Some apply_state_transition_def)
  have "event_run undefined c c'" using run_settle [OF run, of "st_settling ?s" ?ev "[]" now c'] c'(1) by (simp add: c1(2))
  then have alive: "alive K c'" by (rule alive_run [OF _ l]) (use e(2) k(10) in \<open>simp_all add: c'(2) c1(2) orders_follow_def\<close>)
  obtain r' where r': "history_get orders (i, q) = Some r'" "updates_to (update_cancel cb) r r'"
    using orders_followD [OF k(10) r] by (force simp: update_of_def)
  have "st_cancel_limit_order owner cb (i, q) now c = Some (Inr r', c')"
    using r own st c1 c' r' by (auto simp: st_cancel_limit_order_def validate_cancel_limit_order_def Let_def updates_to_def update_cancel_def)
  moreover have "canceled_from (i, q) r ?s r' (cn_state c')"
    by (rule canceled_state [OF x(3) _ r st k(1-10) _ _ _ r', where start = "cn_state c1\<lparr>st_settling := st_settling ?s\<rparr>" and trades = trades and tb = tb and now = now])
       (use e in \<open>simp_all add: c'(2) c1(2)\<close>)
  ultimately show ?thesis using alive by blast
qed

section \<open>Placing\<close>

text \<open>The book of a listed pair, and the scale of its base token.\<close>

lemma pair_book:
  assumes l: "alive K c" and i: "get_book_id (st_pairs (cn_state c)) pair = Some i"
  obtains b scale where "bt_get (st_books (cn_state c)) i = Some b" "base_scale (cn_state c) (tp_base pair) = Some scale" "book_ok b"
    "scale \<noteq> 0" "unat scale dvd unat (bk_tick_size b) * unat (bk_lot_size b)"
proof -
  note heap = aliveD(1) [OF l]
  have maps: "pair_map_ok (st_pairs (cn_state c))" "bt_get (st_books (cn_state c)) i \<noteq> None" using heap i by (auto simp: heap_ok_def maps_ok_def)
  then obtain b where b: "bt_get (st_books (cn_state c)) i = Some b" by blast
  obtain pair' scale where m: "listed (cn_state c) i pair' scale" "book_fit scale b" using heap_okD [OF heap b] .
  have "pair' = pair" using m(1) i get_pair_iff [OF maps(1), of i pair] by (simp add: listed_def)
  then show thesis using m b by (intro that [of b scale]) (simp_all add: listed_def book_fit_def)
qed

text \<open>Validation never traps: it accepts or names the reason.\<close>

lemma validation_returns:
  assumes l: "alive K c"
  shows "\<exists>v. validate_limit_order owner pair pending (cn_state c) = Some v"
proof (cases "get_book_id (st_pairs (cn_state c)) pair")
  case None
  then show ?thesis by (simp add: validate_limit_order_def)
next
  case (Some i)
  let ?p = "po_price pending" and ?q = "po_quantity pending"
  obtain b scale where b: "bt_get (st_books (cn_state c)) i = Some b" "base_scale (cn_state c) (tp_base pair) = Some scale"
    and fit: "book_ok b" "scale \<noteq> 0" "unat scale dvd unat (bk_tick_size b) * unat (bk_lot_size b)" using pair_book [OF l Some] .
  then obtain v where v: "validate_order b ?p ?q = Some v" using validate_order_eq [of b ?p ?q] by (auto simp: book_ok_def)
  show ?thesis
  proof (cases v)
    case (Inl e)
    then show ?thesis using Some b v by (simp add: validate_limit_order_def)
  next
    case (Inr u)
    then have "valid_amounts b ?p ?q" using v fit(1) validate_order_iff [of b ?p ?q] by (simp add: book_ok_def)
    then have "unat scale dvd unat ?p * q2n ?q" by (intro dvd_value [OF fit(3)]) (simp_all add: valid_amounts_def)
    then obtain product where "checked_mul_quantity_scaled ?p ?q scale = Some product"
      using fit(2) by (auto simp: checked_mul_quantity_scaled_eq)
    then show ?thesis
      using Some b v Inr by (cases product) (auto simp: validate_limit_order_def Let_def split: sum.split prod.split)
  qed
qed

text \<open>
  The state before and after a request was placed as order \<open>i\<close>, in terms of the request: the order stands last among the
  pending ones of the book of the pair, numbered with the next sequence number of that book; its record is new and pending;
  its value moved from free to reserved. Every other book, record and balance is as it was.
\<close>

definition requested_order :: "limit_order_request \<Rightarrow> order_seq \<Rightarrow> order" where
  "requested_order req q = \<lparr>ord_id = q, ord_side = req_side req, ord_price = of_nat (req_price req),
     ord_remaining = n2q (req_quantity req), ord_tif = (case req_tif req of None \<Rightarrow> GoodTilCanceled | Some tif \<Rightarrow> tif)\<rparr>"

definition requested_record :: "limit_order_request \<Rightarrow> principal \<Rightarrow> principal option \<Rightarrow> timestamp \<Rightarrow> order_record" where
  "requested_record req owner placed_by now =
     \<lparr>or_owner = owner, or_side = req_side req, or_price = of_nat (req_price req), or_quantity = n2q (req_quantity req),
      or_status = Pending, or_created_at = now, or_filled_quantity = Quantity 0 0, or_last_updated_at = None,
      or_time_in_force = (case req_tif req of None \<Rightarrow> GoodTilCanceled | Some tif \<Rightarrow> tif),
      or_filled_quote = Quantity 0 0, or_filled_fee = Quantity 0 0, or_placed_by = placed_by, or_canceled_by = None\<rparr>"

text \<open>A buyer locks the value at the limit in the quote token, a seller the quantity in the base token.\<close>

definition requested_token :: "limit_order_request \<Rightarrow> token_id" where
  "requested_token req = (case req_side req of Buy \<Rightarrow> tp_quote (req_pair req) | Sell \<Rightarrow> tp_base (req_pair req))"

definition requested_amount :: "nat \<Rightarrow> limit_order_request \<Rightarrow> nat" where
  "requested_amount scale req = (case req_side req of Buy \<Rightarrow> req_price req * req_quantity req div scale | Sell \<Rightarrow> req_quantity req)"

definition placed_from :: "limit_order_request \<Rightarrow> principal \<Rightarrow> principal option \<Rightarrow> timestamp \<Rightarrow> order_id \<Rightarrow> trade_state \<Rightarrow> trade_state \<Rightarrow> bool" where
  "placed_from req owner placed_by now i s s' \<longleftrightarrow>
     req_price req < 2 ^ 128 \<and> req_quantity req < 2 ^ 256 \<and>
     (\<exists>b. get_book_id (st_pairs s) (req_pair req) = Some (fst i) \<and> bt_get (st_books s) (fst i) = Some b \<and> snd i = bk_next_seq b \<and>
        st_books s' = bt_insert (fst i) (b\<lparr>bk_pending_orders := bk_pending_orders b @ [requested_order req (bk_next_seq b)],
          bk_next_seq := bk_next_seq b + 1\<rparr>) (st_books s)) \<and>
     history_get (st_orders s) i = None \<and>
     history_get (st_orders s') = (history_get (st_orders s))(i \<mapsto> requested_record req owner placed_by now) \<and>
     (\<exists>u scale. lookup_funding_id (st_registry s) owner = Some u \<and> base_scale s (tp_base (req_pair req)) = Some scale \<and>
       unat scale dvd req_price req * req_quantity req \<and>
       (\<forall>k. balance_total (map_balance (tb_balances (st_balances s')) k) = balance_total (map_balance (tb_balances (st_balances s)) k) \<and>
          q2n (bal_reserved (map_balance (tb_balances (st_balances s')) k)) = q2n (bal_reserved (map_balance (tb_balances (st_balances s)) k)) +
            (if k = (requested_token req, u) then requested_amount (unat scale) req else 0)))"

lemma pending_order_of_request:
  assumes "biguint_ok big" "pending_order_try_from big req = Inr pending"
  shows "req_price req < 2 ^ 128" "req_quantity req < 2 ^ 256" "po_side pending = req_side req"
    "unat (po_price pending) = req_price req" "q2n (po_quantity pending) = req_quantity req"
    "into_order pending q = requested_order req q"
proof -
  have p: "req_price req < 2 ^ 128" "req_quantity req < 2 ^ 256"
    "pending = \<lparr>po_side = req_side req, po_price = of_nat (req_price req), po_quantity = n2q (req_quantity req),
       po_tif = (case req_tif req of None \<Rightarrow> GoodTilCanceled | Some t \<Rightarrow> t)\<rparr>"
    using assms(2) by (auto simp: pending_order_try_from_def quantity_try_from_eq [OF assms(1)] split: if_splits sum.splits)
  then show "req_price req < 2 ^ 128" "req_quantity req < 2 ^ 256" "po_side pending = req_side req" "unat (po_price pending) = req_price req"
    "q2n (po_quantity pending) = req_quantity req" "into_order pending q = requested_order req q"
    by (simp_all add: unat_of_nat_small into_order_def requested_order_def)
qed

lemma tb_reserve_rows:
  assumes "tb_reserve u t a tb = Some (Inr x, tb')"
  shows "balance_total (map_balance (tb_balances tb') k) = balance_total (map_balance (tb_balances tb) k)"
proof -
  let ?wb = "write_back_new (tb_balances tb) (tb_fee_pool tb)"
  obtain b where b: "balance_reserve a (map_balance (tb_balances tb) (t, u)) = Some (Inr b)"
      "tb_balances tb' = wb_flush (wb_put (t, u) ((wb_row ?wb (t, u))\<lparr>row_balance := b\<rparr>) ?wb)"
    using assms by (auto simp: tb_reserve_def with_write_back_def wb_reserve_def try_mutate_eq trap_simps split: option.splits sum.splits)
  have "wb_ok (wb_put (t, u) ((wb_row ?wb (t, u))\<lparr>row_balance := b\<rparr>) ?wb)" by (rule wb_ok_put) simp_all
  then show ?thesis using b(1) by (auto simp: b(2) map_balance_flush balance_reserve_Inr balance_total_def)
qed

lemma validated_order:
  assumes l: "alive K c" and v: "validate_limit_order owner pair pending (cn_state c) = Some (Inr ((i, q), ord))"
  obtains b scale u token required where "bt_get (st_books (cn_state c)) i = Some b" "listed (cn_state c) i pair scale" "book_ok b"
    "q = bk_next_seq b" "ord_id ord = bk_next_seq b" "valid_amounts b (ord_price ord) (ord_remaining ord)"
    "lookup_funding_id (st_registry (cn_state c)) owner = Some u" "order_requirement pair scale ord = Some (token, required)"
    "q2n required \<le> q2n (bal_free (map_balance (tb_balances (st_balances (cn_state c))) (token, u)))"
    "unat (ord_price ord) * q2n (ord_remaining ord) < 2 ^ 256" "get_book_id (st_pairs (cn_state c)) pair = Some i"
    "ord = into_order pending (bk_next_seq b)" "unat scale dvd unat (po_price pending) * q2n (po_quantity pending)"
    "base_scale (cn_state c) (tp_base pair) = Some scale"
    "token = (case po_side pending of Buy \<Rightarrow> tp_quote pair | Sell \<Rightarrow> tp_base pair)"
    "q2n required = (case po_side pending of Buy \<Rightarrow> unat (po_price pending) * q2n (po_quantity pending) div unat scale
       | Sell \<Rightarrow> q2n (po_quantity pending))"
proof -
  let ?s = "cn_state c"
  note heap = aliveD(1) [OF l]
  obtain b scale amount where x: "get_book_id (st_pairs ?s) pair = Some i" "bt_get (st_books ?s) i = Some b" "q = bk_next_seq b"
      "validate_order b (po_price pending) (po_quantity pending) = Some (Inr ())" "base_scale ?s (tp_base pair) = Some scale"
      "checked_mul_quantity_scaled (po_price pending) (po_quantity pending) scale = Some (Some amount)" "ord = into_order pending (bk_next_seq b)"
      "(case po_side pending of Buy \<Rightarrow> amount | Sell \<Rightarrow> po_quantity pending) \<le>
        (case get_user_balance ?s owner (case po_side pending of Buy \<Rightarrow> tp_quote pair | Sell \<Rightarrow> tp_base pair) of
          None \<Rightarrow> quantity_ZERO | Some b \<Rightarrow> bal_free b)"
    using validate_limit_order_Inr [OF v] by (metis prod.inject)
  obtain pair' scale' where m: "listed ?s i pair' scale'" "book_fit scale' b" using heap_okD [OF heap x(2)] .
  have "pair_map_ok (st_pairs ?s)" using heap by (simp add: heap_ok_def maps_ok_def)
  then have "pair' = pair" "scale' = scale" using m(1) x(1,5) get_pair_iff [of "st_pairs ?s" i pair] by (auto simp: listed_def)
  note m = m [unfolded this]
  have fit: "book_ok b" "scale \<noteq> 0" "unat scale dvd unat (bk_tick_size b) * unat (bk_lot_size b)" using m(2) by (simp_all add: book_fit_def)
  have va: "valid_amounts b (po_price pending) (po_quantity pending)" using x(4) fit(1) validate_order_iff by (simp add: book_ok_def)
  have lt: "unat (po_price pending) * q2n (po_quantity pending) < 2 ^ 256" by (rule checked_mul_quantity_scaled_bound [OF x(6)])
  have d: "unat scale dvd unat (po_price pending) * q2n (po_quantity pending)"
    using va by (intro dvd_value [OF fit(3)]) (simp_all add: valid_amounts_def)
  have val: "value_ok scale (po_price pending) (po_quantity pending)" using d lt fit(2) by (simp add: value_ok_def)
  have am: "amount = n2q (quote_value scale (po_price pending) (po_quantity pending))"
    using x(6) lt checked_mul_quantity_scaled_eq [OF fit(2) d] by (simp add: quote_value_def)
  have "unat (po_price pending) * q2n (po_quantity pending) \<noteq> 0" using va by (simp add: valid_amounts_def unat_eq_0)
  then have "quote_value scale (po_price pending) (po_quantity pending) \<noteq> 0"
    unfolding quote_value_def using d by (simp only: dvd_div_eq_0_iff not_False_eq_True)
  then have "q2n amount \<noteq> 0" using quote_value_lt [OF val] by (simp add: am)
  moreover have "q2n (po_quantity pending) \<noteq> 0" using va by (simp add: valid_amounts_def)
  moreover define token required where "token = (case po_side pending of Buy \<Rightarrow> tp_quote pair | Sell \<Rightarrow> tp_base pair)"
    and "required = (case po_side pending of Buy \<Rightarrow> amount | Sell \<Rightarrow> po_quantity pending)"
  ultimately have "0 < q2n required" by (cases "po_side pending") simp_all
  moreover have "q2n required \<le> q2n (case get_user_balance ?s owner token of None \<Rightarrow> quantity_ZERO | Some b \<Rightarrow> bal_free b)"
    using x(8) by (simp add: token_def required_def q2n_le)
  ultimately obtain u bal where u: "lookup_funding_id (st_registry ?s) owner = Some u" "get_balance (st_balances ?s) u token = Some bal"
      "q2n required \<le> q2n (bal_free bal)"
    by (auto simp: get_user_balance_def trap_simps split: option.splits)
  have "order_requirement pair scale ord = Some (token, required)"
    using am val by (cases "po_side pending") (simp_all add: order_requirement_def x(7) into_order_def token_def required_def expect_notional_eq)
  moreover have "q2n required = (case po_side pending of Buy \<Rightarrow> unat (po_price pending) * q2n (po_quantity pending) div unat scale
       | Sell \<Rightarrow> q2n (po_quantity pending))"
    using quote_value_lt [OF val] by (simp add: required_def am quote_value_def split: side.split)
  ultimately show ?thesis
    using that [OF x(2) m(1) fit(1) x(3), of u token required] va u lt x(1,5) d
    by (auto simp: x(7) into_order_def get_balance_def map_balance_def token_def)
qed

lemma place_settles:
  assumes l: "alive K c" and big: "biguint_ok big" "pending_order_try_from big req = Inr pending"
    and v: "validate_limit_order owner (req_pair req) pending (cn_state c) = Some (Inr (i, ord))"
  shows "\<exists>c'. process_event (Ev_AddLimitOrder \<lparr>ao_user = owner, ao_order_id = i, ao_side = ord_side ord, ao_price = ord_price ord,
      ao_quantity = ord_remaining ord, ao_tif = ord_tif ord, ao_placed_by = placed_by\<rparr>) now c = Some c' \<and>
    placed_from req owner placed_by now i (cn_state c) (cn_state c')"
proof -
  note q = pending_order_of_request [OF big]
  obtain bi q where i: "i = (bi, q)" by (cases i)
  let ?s = "cn_state c"
  note x = aliveD [OF l]
  obtain b scale u token required where k: "bt_get (st_books ?s) bi = Some b" "listed ?s bi (req_pair req) scale" "book_ok b"
    "q = bk_next_seq b" "ord_id ord = bk_next_seq b" "valid_amounts b (ord_price ord) (ord_remaining ord)"
    "lookup_funding_id (st_registry ?s) owner = Some u" "order_requirement (req_pair req) scale ord = Some (token, required)"
    "q2n required \<le> q2n (bal_free (map_balance (tb_balances (st_balances ?s)) (token, u)))"
    and g: "get_book_id (st_pairs ?s) (req_pair req) = Some bi" "ord = requested_order req (bk_next_seq b)"
      "unat scale dvd req_price req * req_quantity req" "base_scale ?s (tp_base (req_pair req)) = Some scale"
      "token = requested_token req" "q2n required = requested_amount (unat scale) req"
    using validated_order [OF l v [unfolded i]] by (metis q(3-6) requested_token_def requested_amount_def)
  have rq: "initial_record owner ord placed_by now = requested_record req owner placed_by now"
    by (simp add: g(2) initial_record_def requested_record_def requested_order_def quantity_ZERO_def)
  obtain tb h where p: "tb_reserve u token required (st_balances ?s) = Some (Inr (), tb)"
    "record_limit_order owner bi ord placed_by now Write ?s =
       Some (?s\<lparr>st_balances := tb, st_orders := h, st_books := bt_insert bi (pushed ord b) (st_books ?s)\<rparr>)"
    "history_get h = (history_get (st_orders ?s))((bi, ord_id ord) \<mapsto> initial_record owner ord placed_by now)"
    "history_get (st_orders ?s) (bi, ord_id ord) = None"
    using place_runs [OF x(1,3-5) k(1-3,5-9), where placed_by = placed_by and now = now] by metis
  have ord: "\<lparr>ord_id = q, ord_side = ord_side ord, ord_price = ord_price ord, ord_remaining = ord_remaining ord, ord_tif = ord_tif ord\<rparr> = ord"
    using k(4,5) by (intro order.equality) simp_all
  let ?s' = "?s\<lparr>st_balances := tb, st_orders := h, st_books := bt_insert bi (pushed ord b) (st_books ?s)\<rparr>"
  have "q2n (bal_reserved (map_balance (tb_balances tb) k)) = q2n (bal_reserved (map_balance (tb_balances (st_balances ?s)) k)) +
      (if k = (token, u) then q2n required else 0)" for k
    using tb_reserve_reserved [OF p(1)] by (cases k) (simp add: reserved_of_def)
  then have "placed_from req owner placed_by now i ?s ?s'"
    unfolding placed_from_def using q(1,2) k(1,4,5,7) g p(3,4) tb_reserve_rows [OF p(1)] rq by (auto simp: i pushed_def)
  then show ?thesis using p(2) by (auto simp: process_event_Some apply_state_transition_def i into_order_def ord)
qed

text \<open>The endpoint: every call of an admitted caller returns, and an accepted one placed the order.\<close>

lemma add_limit_order_returns:
  assumes l: "alive K c" and big: "biguint_ok big" and allowed: "caller_is_allowed (st_mode (cn_state c)) rt"
  defines "owner \<equiv> effective_account (cn_state c) (rt_caller rt)"
  shows "\<exists>r c'. api_add_limit_order big req rt c = Some (r, c') \<and>
    (\<forall>e. r = Inl e \<longrightarrow> c' = c) \<and>
    (\<forall>i. r = Inr i \<longrightarrow> (\<exists>j. i = order_id_to_string j \<and> \<not> is_halted (st_permissions (cn_state c)) (fst j) \<and>
       placed_from req owner (if rt_caller rt \<noteq> owner then Some (rt_caller rt) else None) (rt_time rt) j (cn_state c) (cn_state c')))"
proof (cases "pending_order_try_from big req")
  case (Inl e)
  then show ?thesis using allowed by (simp add: api_add_limit_order_def assert_caller_is_allowed_def Let_def)
next
  case (Inr pending)
  obtain v where v: "validate_limit_order owner (req_pair req) pending (cn_state c) = Some v" using validation_returns [OF l] by blast
  show ?thesis
  proof (cases v)
    case (Inl e)
    then show ?thesis using Inr v allowed by (simp add: api_add_limit_order_def assert_caller_is_allowed_def Let_def owner_def)
  next
    case placed: (Inr io)
    obtain i ord where io: "io = (i, ord)" by (cases io)
    show ?thesis
      using place_settles [OF l big Inr v [unfolded placed io], of "if rt_caller rt \<noteq> owner then Some (rt_caller rt) else None" "rt_time rt"]
        Inr v allowed placed io
      by (cases "is_halted (st_permissions (cn_state c)) (fst i)")
         (auto simp: api_add_limit_order_def assert_caller_is_allowed_def Let_def permit_trading_def owner_def intro!: exI [of _ i] simp del: split_paired_Ex)
  qed
qed

text \<open>The endpoint of a cancellation: it returns for every admitted caller, and it succeeds for the owner
  of an order that is not in a final state.\<close>

lemma cancel_limit_order_returns:
  assumes l: "alive K c" and allowed: "caller_is_allowed (st_mode (cn_state c)) rt"
  shows "\<exists>r c'. api_cancel_limit_order text_id rt c = Some (r, c') \<and> (\<forall>e. r = Inl e \<longrightarrow> c' = c)"
proof (cases "order_id_parse text_id")
  case (Inl e)
  then show ?thesis using allowed by (simp add: api_cancel_limit_order_def assert_caller_is_allowed_def Let_def)
next
  case (Inr i)
  obtain b q where i: "i = (b, q)" by (cases i)
  let ?owner = "effective_account (cn_state c) (rt_caller rt)"
  show ?thesis
  proof (cases "validate_cancel_limit_order ?owner i (cn_state c)")
    case (Inl e)
    then show ?thesis
      using Inr allowed by (simp add: api_cancel_limit_order_def assert_caller_is_allowed_def st_cancel_limit_order_def Let_def)
  next
    case ok: (Inr u)
    obtain r where r: "history_get (st_orders (cn_state c)) (b, q) = Some r" "or_owner r = ?owner" "or_status r = Pending \<or> or_status r = Open"
      using ok unfolding i by (auto simp: validate_cancel_limit_order_def split: option.splits if_splits order_status.splits)
    show ?thesis
      using cancel_settles [OF l r, of "if rt_caller rt \<noteq> ?owner then Some (rt_caller rt) else None" "rt_time rt"] Inr allowed
      unfolding i by (auto simp: api_cancel_limit_order_def assert_caller_is_allowed_def Let_def)
  qed
qed

section \<open>Answers of ledgers\<close>

lemma deposit_settles:
  assumes "token_total t (st_balances s) + q2n a < 2 ^ 256"
  shows "\<exists>s'. st_deposit p t a Write s = Some s'"
proof -
  obtain i r where g: "get_or_register p (st_registry s) = (i, r)" by (cases "get_or_register p (st_registry s)")
  obtain tb where "tb_deposit i t a (st_balances s) = Some tb" using tb_deposit_succeeds [OF assms] by blast
  then show ?thesis using g by (simp add: st_deposit_def)
qed

text \<open>A credit: the free balance of the user, who is registered now, grew by the amount; nothing else changed.\<close>

definition credited :: "principal \<Rightarrow> token_id \<Rightarrow> nat \<Rightarrow> trade_state \<Rightarrow> trade_state \<Rightarrow> bool" where
  "credited p t n s s' \<longleftrightarrow>
     (\<exists>u. lookup_funding_id (st_registry s') p = Some u \<and>
       (\<forall>k. bal_reserved (map_balance (tb_balances (st_balances s')) k) = bal_reserved (map_balance (tb_balances (st_balances s)) k) \<and>
          q2n (bal_free (map_balance (tb_balances (st_balances s')) k)) =
            q2n (bal_free (map_balance (tb_balances (st_balances s)) k)) + (if k = (t, u) then n else 0))) \<and>
     tb_fee_pool (st_balances s') = tb_fee_pool (st_balances s) \<and> heap_of s' = heap_of s \<and>
     st_orders s' = st_orders s \<and> st_trades s' = st_trades s \<and> st_settling s' = st_settling s"

lemma tb_deposit_rows:
  assumes "tb_deposit u t a tb = Some tb'"
  shows "map_balance (tb_balances tb') k = (if k = (t, u) then (map_balance (tb_balances tb) k)\<lparr>bal_free := bal_free (map_balance (tb_balances tb') k)\<rparr>
      else map_balance (tb_balances tb) k)"
    "q2n (bal_free (map_balance (tb_balances tb') k)) = q2n (bal_free (map_balance (tb_balances tb) k)) + (if k = (t, u) then q2n a else 0)"
    "tb_fee_pool tb' = tb_fee_pool tb"
proof -
  let ?wb = "write_back_new (tb_balances tb) (tb_fee_pool tb)"
  obtain b where b: "balance_deposit a (map_balance (tb_balances tb) (t, u)) = Some b"
      "tb_balances tb' = wb_flush (wb_put (t, u) ((wb_row ?wb (t, u))\<lparr>row_balance := b\<rparr>) ?wb)" "tb_fee_pool tb' = tb_fee_pool tb"
    using assms by (auto simp: tb_deposit_def with_write_back_def wb_deposit_def load_or_create_Some trap_simps)
  have "wb_ok (wb_put (t, u) ((wb_row ?wb (t, u))\<lparr>row_balance := b\<rparr>) ?wb)" by (rule wb_ok_put) simp_all
  then have m: "map_balance (tb_balances tb') k = (if k = (t, u) then b else map_balance (tb_balances tb) k)" for k
    by (simp add: b(2) map_balance_flush)
  show "map_balance (tb_balances tb') k = (if k = (t, u) then (map_balance (tb_balances tb) k)\<lparr>bal_free := bal_free (map_balance (tb_balances tb') k)\<rparr>
      else map_balance (tb_balances tb) k)"
    "q2n (bal_free (map_balance (tb_balances tb') k)) = q2n (bal_free (map_balance (tb_balances tb) k)) + (if k = (t, u) then q2n a else 0)"
    "tb_fee_pool tb' = tb_fee_pool tb"
    using b(1,3) by (auto simp: m balance_deposit_Some)
qed

lemma st_deposit_credits:
  assumes s: "st_deposit p t a Write s = Some s'" and r: "registry_ok (st_registry s)" "bt_get (ur_trading_accounts (st_registry s)) p = None"
    "length (ur_users (st_registry s)) < 2 ^ 64"
  shows "credited p t (q2n a) s s'"
proof -
  obtain u r' where g: "get_or_register p (st_registry s) = (u, r')" "registry_ok r'" "bt_get (ur_users r') p = Some u"
    using get_or_register_ok [OF r] by fastforce
  then obtain tb where tb: "tb_deposit u t a (st_balances s) = Some tb" "s' = s\<lparr>st_registry := r', st_balances := tb\<rparr>"
    using s by (auto simp: st_deposit_def trap_simps)
  have "bal_reserved (map_balance (tb_balances tb) k) = bal_reserved (map_balance (tb_balances (st_balances s)) k)" for k
    by (subst tb_deposit_rows(1) [OF tb(1)]) simp
  then show ?thesis
    using tb_deposit_rows(2,3) [OF tb(1)] g(2,3) by (auto simp: credited_def tb(2) heap_of_eq lookup_funding_id_eq)
qed

text \<open>What the answer to an open call makes of the canister: the call is closed in every case.\<close>

definition deposit_booked :: "principal \<Rightarrow> token_id \<Rightarrow> quantity \<Rightarrow> transfer_from_error call_result \<Rightarrow> timestamp \<Rightarrow>
    canister \<Rightarrow> deposit_error + nat \<Rightarrow> canister \<Rightarrow> bool" where
  "deposit_booked p t a answer now c r c' \<longleftrightarrow>
     st_in_flight (cn_state c') = st_in_flight (cn_state c) - {(p, t)} \<and>
     (case answer of
        Block i \<Rightarrow> r = Inr i \<and> credited p t (q2n a) (cn_state c) (cn_state c') \<and>
          cn_log c' = cn_log c @ [\<lparr>ev_timestamp = now, ev_payload = Ev_Deposit \<lparr>de_user = p, de_token = t, de_amount = a\<rparr>\<rparr>]
      | _ \<Rightarrow> isl r \<and> cn_log c' = cn_log c \<and> stable_of (cn_state c') = stable_of (cn_state c) \<and> heap_of (cn_state c') = heap_of (cn_state c))"

text \<open>The block of the transfer that a ledger accepts: the first attempt is made with the cached fee, capped below the
  amount, the second with the fee the ledger asks for, if it leaves anything to transfer. Transfer and fee add up to the amount.\<close>

definition paid_out :: "nat \<Rightarrow> nat \<Rightarrow> ledger_answers \<Rightarrow> nat option" where
  "paid_out a cached ledger =
     (let fee = min cached (a - 1)
      in case ledger 0 (a - fee) fee of
           Block i \<Rightarrow> Some i
         | LedgerError (T_BadFee asked) \<Rightarrow>
             if asked < a then (case ledger 1 (a - asked) asked of Block i \<Rightarrow> Some i | _ \<Rightarrow> None) else None
         | _ \<Rightarrow> None)"

definition withdrawal_booked :: "principal \<Rightarrow> token_id \<Rightarrow> quantity \<Rightarrow> nat \<Rightarrow> ledger_answers \<Rightarrow> timestamp \<Rightarrow>
    canister \<Rightarrow> withdraw_error + nat \<Rightarrow> canister \<Rightarrow> bool" where
  "withdrawal_booked p t a cached ledger now c r c' \<longleftrightarrow>
     st_in_flight (cn_state c') = st_in_flight (cn_state c) - {(p, t)} \<and>
     (case paid_out (q2n a) cached ledger of
        Some block \<Rightarrow> r = Inr block \<and>
          stable_of (cn_state c') = stable_of (cn_state c) \<and> heap_of (cn_state c') = heap_of (cn_state c) \<and>
          cn_log c' = cn_log c @ [\<lparr>ev_timestamp = now, ev_payload = Ev_Withdraw \<lparr>we_block_index = of_nat block, we_user = p,
            we_token = t, we_amount = a\<rparr>\<rparr>]
      | None \<Rightarrow> isl r \<and> credited p t (q2n a) (cn_state c) (cn_state c') \<and> cn_log c' = cn_log c)"

lemma deposit_answer_booked:
  assumes inv: "sys_inv y" and call: "DepositCall (rt_caller rt) t a \<in> set (sy_calls y)"
    and lt: "deposited t (cn_log (sy_canister y)) + q2n a < 2 ^ 256" and len: "length (cn_log (sy_canister y)) \<le> 2 ^ 64"
  shows "\<exists>r c'. deposit_finish t a answer rt (sy_canister y) = Some (r, c') \<and>
    deposit_booked (rt_caller rt) t a answer (rt_time rt) (sy_canister y) r c'"
proof (cases "ledger_deposit answer")
  case (Inl e)
  have "st_registry (user_op_guard_drop p q s) = st_registry s" "stable_of (user_op_guard_drop p q s) = stable_of s" for p q s
    by (simp_all add: user_op_guard_drop_def stable_of_def)
  then show ?thesis
    using Inl by (cases answer) (auto simp: deposit_finish_def deposit_booked_def ledger_deposit_def)
next
  case (Inr block)
  note d = sys_invD [OF inv call, of "rt_caller rt" t]
  have "token_total t (st_balances (cn_state (sy_canister y))) + q2n a < 2 ^ 256" using total_deposited [OF inv, of t] lt by linarith
  then obtain s' where s': "st_deposit (rt_caller rt) t a Write (cn_state (sy_canister y)) = Some s'" using deposit_settles by blast
  have "credited (rt_caller rt) t (q2n a) (cn_state (sy_canister y)) s'"
    using st_deposit_credits [OF s'] d(1,3,4) len by (simp add: call_key_def)
  then have "credited (rt_caller rt) t (q2n a) (cn_state (sy_canister y)) (user_op_guard_drop (rt_caller rt) t s')"
    by (simp add: credited_def) (simp add: user_op_guard_drop_def)
  moreover have "answer = Block block" using Inr by (cases answer) (auto simp: ledger_deposit_def)
  ultimately show ?thesis
    using Inr s' st_deposit_total(2) [OF s']
    by (simp add: deposit_finish_def process_event_def apply_state_transition_def record_event_def deposit_booked_def)
qed

lemma icrc1_transfer_eq:
  "icrc1_transfer answer = Inr i \<longleftrightarrow> answer = Block i"
  "icrc1_transfer answer = Inl (BadFee fee) \<longleftrightarrow> answer = LedgerError (T_BadFee fee)"
  "icrc1_transfer (Block i) = Inr i" "icrc1_transfer (LedgerError (T_BadFee fee)) = Inl (BadFee fee)"
  by (auto simp: icrc1_transfer_def split: call_result.splits transfer_error.splits)

lemma ledger_withdraw_result:
  "wo_result (ledger_withdraw a cached ledger) = Inr block \<longleftrightarrow> paid_out (q2n a) cached ledger = Some block"
proof (cases "icrc1_transfer (ledger 0 (q2n a - min cached (q2n a - 1)) (min cached (q2n a - 1)))")
  case (Inr i)
  then show ?thesis by (simp add: ledger_withdraw_def paid_out_def icrc1_transfer_eq to_nat_eq Let_def)
next
  case first: (Inl x)
  show ?thesis
  proof (cases x)
    case (OtherError e)
    then show ?thesis
      using first by (auto simp: ledger_withdraw_def paid_out_def to_nat_eq Let_def icrc1_transfer_def split: call_result.splits transfer_error.splits)
  next
    case (BadFee fee)
    have bad: "ledger 0 (q2n a - min cached (q2n a - 1)) (min cached (q2n a - 1)) = LedgerError (T_BadFee fee)"
      using first BadFee by (simp add: icrc1_transfer_eq)
    show ?thesis
    proof (cases "q2n a \<le> fee")
      case True
      then show ?thesis by (simp add: ledger_withdraw_def paid_out_def to_nat_eq Let_def bad icrc1_transfer_eq(4) del: One_nat_def)
    next
      case False
      then show ?thesis
        by (auto simp: ledger_withdraw_def paid_out_def to_nat_eq Let_def bad icrc1_transfer_def simp del: One_nat_def
            split: call_result.split transfer_error.split)
    qed
  qed
qed

lemma paid_out_whole:
  assumes "paid_out a cached ledger = Some block"
  shows "\<exists>n fee. fee \<le> a \<and> ledger n (a - fee) fee = Block block"
proof -
  let ?fee = "min cached (a - 1)"
  consider "ledger 0 (a - ?fee) ?fee = Block block" | asked where "asked < a" "ledger 1 (a - asked) asked = Block block"
    using assms by (auto simp: paid_out_def Let_def split: call_result.splits transfer_error.splits if_splits)
  then show ?thesis
  proof cases
    case 1
    moreover have "?fee \<le> a" by linarith
    ultimately show ?thesis by blast
  next
    case 2
    then show ?thesis using less_imp_le by blast
  qed
qed

lemma withdraw_answer_booked:
  fixes ledger :: ledger_answers
  assumes inv: "sys_inv y" and call: "WithdrawCall (rt_caller rt) t a f \<in> set (sy_calls y)"
    and lt: "deposited t (cn_log (sy_canister y)) < 2 ^ 256" and len: "length (cn_log (sy_canister y)) \<le> 2 ^ 64"
    and block: "\<And>n amount fee block. ledger n amount fee = Block block \<Longrightarrow> block < 2 ^ 64"
  shows "\<exists>r c'. withdraw_finish t a (ledger_withdraw a f ledger) rt (sy_canister y) = Some (r, c') \<and>
    withdrawal_booked (rt_caller rt) t a f ledger (rt_time rt) (sy_canister y) r c'"
proof -
  let ?s = "cn_state (sy_canister y)" and ?o = "ledger_withdraw a f ledger" and ?p = "rt_caller rt"
  define s0 where "s0 = (case wo_ledger_fee ?o of None \<Rightarrow> ?s | Some fee \<Rightarrow> set_cached_ledger_fee t fee ?s)"
  have bal: "st_balances s0 = st_balances ?s" "st_registry s0 = st_registry ?s" "heap_of s0 = heap_of ?s" "stable_of s0 = stable_of ?s"
    "st_settling s0 = st_settling ?s" "st_in_flight s0 = st_in_flight ?s" "st_orders s0 = st_orders ?s" "st_trades s0 = st_trades ?s"
    by (simp_all add: s0_def set_cached_ledger_fee_def stable_of_def heap_of_def split: option.split)
  have guard: "stable_of (user_op_guard_drop p q s) = stable_of s" for p q s by (simp add: user_op_guard_drop_def stable_of_def)
  show ?thesis
  proof (cases "wo_result ?o")
    case (Inl e)
    note d = sys_invD [OF inv call, of ?p t]
    have "q2n a \<le> in_transit t (sy_calls y)" using in_transit_remove1 [OF call, of t] by (simp add: call_amount_def)
    moreover have "token_total t (st_balances ?s) + in_transit t (sy_calls y) + in_transit t (sy_lost y) + withdrawn t (cn_log (sy_canister y)) =
        deposited t (cn_log (sy_canister y))" using inv by (simp add: sys_inv_def books_balance_def)
    ultimately have "token_total t (st_balances s0) + q2n a < 2 ^ 256" using lt unfolding bal by linarith
    then obtain s' where s': "st_deposit ?p t a Write s0 = Some s'" using deposit_settles by blast
    have "credited ?p t (q2n a) s0 s'" using st_deposit_credits [OF s'] d(1,3,4) len by (simp add: call_key_def bal)
    then have "credited ?p t (q2n a) ?s (user_op_guard_drop ?p t s')"
      by (simp add: credited_def bal) (simp add: user_op_guard_drop_def)
    then show ?thesis
      using Inl s' st_deposit_total(2) [OF s'] ledger_withdraw_result [of a f ledger]
      unfolding withdraw_finish_def s0_def [symmetric] by (auto simp: Let_def withdrawal_booked_def bal split: option.split)
  next
    case (Inr b)
    have paid: "paid_out (q2n a) f ledger = Some b" using Inr by (simp add: ledger_withdraw_result)
    then have "b < 2 ^ 64" using block paid_out_whole by blast
    then show ?thesis
      using Inr paid unfolding withdraw_finish_def s0_def [symmetric] by (auto simp: Let_def withdrawal_booked_def record_event_def bal guard)
  qed
qed

end
