(* ===== verification/Exchange_Examples.thy ===== *)
theory Exchange_Examples
  imports Exchange_Messages System_Properties
begin

text \<open>A canister that lists one pair and holds one deposit and one pending order, reached message by
  message. It is the concrete state at which the properties of the exchange are applied.\<close>

definition ex_meta :: token_metadata where
  "ex_meta = \<lparr>symbol = ''TOK'', decimals = 0\<rparr>"

definition ex_pair_request :: add_trading_pair_request where
  "ex_pair_request = \<lparr>rq_base = 1, rq_base_metadata = ex_meta, rq_quote = 2, rq_quote_metadata = ex_meta, rq_tick_size = 1, rq_lot_size = 1,
     rq_maker_fee_bps = 0, rq_taker_fee_bps = 0, rq_min_notional = 1, rq_max_notional = None\<rparr>"

definition ex_rt :: "principal \<Rightarrow> runtime" where
  "ex_rt p = \<lparr>rt_caller = p, rt_is_controller = (\<lambda>q. q = 9), rt_time = 7\<rparr>"

definition ex_event :: "event_type \<Rightarrow> event" where
  "ex_event payload = \<lparr>ev_timestamp = 7, ev_payload = payload\<rparr>"

definition ex_log0 :: "event list" where
  "ex_log0 = [\<lparr>ev_timestamp = 5, ev_payload = Ev_Init \<lparr>ia_mode = GeneralAvailability,
      ia_max_orders_per_chunk = 10, ia_instruction_budget = 1000, ia_max_settlement_units_per_event = None\<rparr>\<rparr>]"

definition ex_market :: order_book where
  "ex_market = book_new 0 1 1 (Quantity 0 1) None \<lparr>maker = 0, taker = 0\<rparr>"

definition ex_listed :: trade_state where
  "ex_listed = ex_state\<lparr>st_permissions := permissions_default, st_next_book_id := 1, st_tokens := [(1, ex_meta), (2, ex_meta)],
     st_pairs := [(\<lparr>tp_base = 1, tp_quote = 2\<rparr>, 0)], st_books := [(0, ex_market)]\<rparr>"

definition ex_log1 :: "event list" where
  "ex_log1 = ex_log0 @ [ex_event (Ev_AddTradingPair \<lparr>ap_book_id = 0, ap_base = 1, ap_quote = 2, ap_tick_size = 1, ap_lot_size = 1,
      ap_base_metadata = ex_meta, ap_quote_metadata = ex_meta, ap_fee_rates = \<lparr>maker = 0, taker = 0\<rparr>, ap_min_notional = Quantity 0 1,
      ap_max_notional = None\<rparr>)]"

lemma ex_quantity: "n < 2 ^ 64 \<Longrightarrow> quantity_try_from ex_biguint n = Inr (Quantity 0 (of_nat n))"
  by (simp add: quantity_try_from_eq [OF ex_biguint_ok] n2q_def)

lemma ex_init_reached: "reachable ex_consts ex_biguint ex_init
  \<lparr>sy_canister = \<lparr>cn_state = ex_state\<lparr>st_permissions := permissions_default\<rparr>, cn_log = ex_log0\<rparr>, sy_calls = [], sy_lost = []\<rparr>"
  by (rule reach_init [of _ 5])
     (simp add: canister_init_def ex_init_def state_new_def policy_try_new_def ex_state_def ex_log0_def
        DEFAULT_MAX_SETTLEMENT_UNITS_PER_EVENT_def MAX_INSTRUCTION_BUDGET_def)

lemma ex_validate: "validate_new_pair ex_pair_request 1 1 (ex_state\<lparr>st_permissions := permissions_default\<rparr>) = Some (Inr ())"
  by (simp add: validate_new_pair_def ex_pair_request_def ex_meta_def ex_state_def has_trading_pair_def check_token_metadata_consistency_def
      pair_map_contains_def Let_def checked_pow_def checked_mul_u64_eq checked_div_rem_u64_eq from_u128_def q2n_def bt_contains_def)

lemma ex_pair_added: "add_trading_pair ex_biguint ex_pair_request (ex_rt 9)
    \<lparr>cn_state = ex_state\<lparr>st_permissions := permissions_default\<rparr>, cn_log = ex_log0\<rparr> = Some (Inr (), \<lparr>cn_state = ex_listed, cn_log = ex_log1\<rparr>)"
proof -
  have "parse_pair_request ex_biguint ex_pair_request = Inr (1, 1, \<lparr>maker = 0, taker = 0\<rparr>, Quantity 0 1, None)"
    by (simp add: parse_pair_request_def ex_pair_request_def basis_point_new_def ex_quantity is_zero_iff q2n_def)
  moreover have "record_trading_pair 0 \<lparr>tp_base = 1, tp_quote = 2\<rparr> ex_meta ex_meta 1 1 (Quantity 0 1) None \<lparr>maker = 0, taker = 0\<rparr>
      (ex_state\<lparr>st_permissions := permissions_default\<rparr>) = Some ex_listed"
    by (simp add: record_trading_pair_def record_token_def pair_map_insert_def get_book_id_def get_pair_def ex_state_def ex_listed_def
        ex_market_def ex_meta_def seq_increment_def checked_add_def Let_def)
  ultimately show ?thesis
    using ex_validate
    by (simp add: add_trading_pair_def ex_rt_def process_event_def apply_state_transition_def ex_log1_def ex_event_def)
       (simp add: ex_pair_request_def ex_state_def)
qed

lemma ex_listed_reached: "reachable ex_consts ex_biguint ex_init \<lparr>sy_canister = \<lparr>cn_state = ex_listed, cn_log = ex_log1\<rparr>, sy_calls = [], sy_lost = []\<rparr>"
  using reach_step [OF ex_init_reached] step_pair [of ex_biguint ex_pair_request "ex_rt 9" "\<lparr>sy_canister = \<lparr>cn_state =
      ex_state\<lparr>st_permissions := permissions_default\<rparr>, cn_log = ex_log0\<rparr>, sy_calls = [], sy_lost = []\<rparr>"] ex_pair_added by fastforce

text \<open>A deposit of 100 of the quote token by principal 5.\<close>

lemma ex_deposit_started: "deposit_start ex_biguint 2 100 (ex_rt 5) \<lparr>cn_state = ex_listed, cn_log = ex_log1\<rparr> =
    Some (Inr (Quantity 0 100), \<lparr>cn_state = ex_listed\<lparr>st_in_flight := {(5, 2)}\<rparr>, cn_log = ex_log1\<rparr>)"
  by (simp add: deposit_start_def assert_caller_is_allowed_def caller_is_allowed_def ex_quantity ex_rt_def ex_listed_def ex_state_def
      is_known_token_def bt_contains_def permit_deposit_def is_trading_account_def registry_lookup_def user_registry_new_def
      user_op_guard_new_def Let_def st_get_balance_def get_user_balance_def lookup_funding_id_def balance_zero_def quantity_add_eq q2n_def n2q_def quantity_ZERO_def)

definition ex_funded :: trade_state where
  "ex_funded = ex_listed\<lparr>st_registry := user_registry_new\<lparr>ur_users := [(5, 0)]\<rparr>,
     st_balances := \<lparr>tb_balances = [((2, 0), \<lparr>bal_free = Quantity 0 100, bal_reserved = quantity_ZERO\<rparr>)], tb_fee_pool = []\<rparr>\<rparr>"

definition ex_log2 :: "event list" where
  "ex_log2 = ex_log1 @ [ex_event (Ev_Deposit \<lparr>de_user = 5, de_token = 2, de_amount = Quantity 0 100\<rparr>)]"

lemma ex_deposit_finished: "deposit_finish 2 (Quantity 0 100) (Block 3) (ex_rt 5)
    \<lparr>cn_state = ex_listed\<lparr>st_in_flight := {(5, 2)}\<rparr>, cn_log = ex_log1\<rparr> = Some (Inr 3, \<lparr>cn_state = ex_funded, cn_log = ex_log2\<rparr>)"
  by (simp add: deposit_finish_def ledger_deposit_def process_event_def apply_state_transition_def st_deposit_def get_or_register_def
      ex_listed_def ex_state_def user_registry_new_def tb_deposit_def with_write_back_def wb_deposit_def load_or_create_def write_back_new_def
      wb_row_def row_load_def balance_deposit_def balance_zero_def quantity_add_eq q2n_def n2q_def quantity_ZERO_def wb_put_def wb_flush_def flush_row_def
      worth_persisting_def balance_is_zero_def is_zero_iff user_op_guard_drop_def ex_funded_def ex_log2_def ex_event_def ex_rt_def Let_def)

lemma ex_deposit_open: "reachable ex_consts ex_biguint ex_init \<lparr>sy_canister = \<lparr>cn_state = ex_listed\<lparr>st_in_flight := {(5, 2)}\<rparr>, cn_log = ex_log1\<rparr>,
    sy_calls = [DepositCall 5 2 (Quantity 0 100)], sy_lost = []\<rparr>"
  using reach_step [OF ex_listed_reached] ex_deposit_started
    step_deposit_start [of ex_biguint 2 100 "ex_rt 5" "\<lparr>sy_canister = \<lparr>cn_state = ex_listed, cn_log = ex_log1\<rparr>, sy_calls = [], sy_lost = []\<rparr>"]
  by (fastforce simp: ex_rt_def)

lemma ex_funded_reached: "reachable ex_consts ex_biguint ex_init \<lparr>sy_canister = \<lparr>cn_state = ex_funded, cn_log = ex_log2\<rparr>, sy_calls = [], sy_lost = []\<rparr>"
proof -
  let ?y = "\<lparr>sy_canister = \<lparr>cn_state = ex_listed\<lparr>st_in_flight := {(5, 2)}\<rparr>, cn_log = ex_log1\<rparr>, sy_calls = [DepositCall 5 2 (Quantity 0 100)], sy_lost = []\<rparr>"
  have caller: "rt_caller (ex_rt 5) = 5" by (simp add: ex_rt_def)
  show ?thesis
    using reach_step [OF ex_deposit_open] step_deposit_finish [of "ex_rt 5" 2 "Quantity 0 100" ?y "Block 3"] ex_deposit_finished by (fastforce simp: caller)
qed

text \<open>An order of principal 5 to buy 3 at 10.\<close>

definition ex_request :: limit_order_request where
  "ex_request = \<lparr>req_pair = \<lparr>tp_base = 1, tp_quote = 2\<rparr>, req_side = Buy, req_price = 10, req_quantity = 3, req_tif = None\<rparr>"

definition ex_order :: order where
  "ex_order = \<lparr>ord_id = 0, ord_side = Buy, ord_price = 10, ord_remaining = Quantity 0 3, ord_tif = GoodTilCanceled\<rparr>"

definition ex_traded :: trade_state where
  "ex_traded = ex_funded\<lparr>
     st_balances := \<lparr>tb_balances = [((2, 0), \<lparr>bal_free = Quantity 0 70, bal_reserved = Quantity 0 30\<rparr>)], tb_fee_pool = []\<rparr>,
     st_orders := \<lparr>hi_primary = [((0, 0), (0, initial_record 5 ex_order None 7))], hi_by_user = [((0, 0), (0, 0))]\<rparr>,
     st_books := [(0, ex_market\<lparr>bk_pending_orders := [ex_order], bk_next_seq := 1\<rparr>)]\<rparr>"

definition ex_log3 :: "event list" where
  "ex_log3 = ex_log2 @ [ex_event (Ev_AddLimitOrder \<lparr>ao_user = 5, ao_order_id = (0, 0), ao_side = Buy, ao_price = 10,
     ao_quantity = Quantity 0 3, ao_tif = GoodTilCanceled, ao_placed_by = None\<rparr>)]"

lemma ex_validated: "validate_limit_order 5 \<lparr>tp_base = 1, tp_quote = 2\<rparr> \<lparr>po_side = Buy, po_price = 10, po_quantity = Quantity 0 3, po_tif = GoodTilCanceled\<rparr>
    ex_funded = Some (Inr ((0, 0), ex_order))"
proof -
  have "checked_mul_quantity_scaled 10 (Quantity 0 3) 1 = Some (Some (Quantity 0 30))"
    by (simp add: checked_mul_quantity_scaled_eq q2n_def n2q_def)
  moreover have "validate_order ex_market 10 (Quantity 0 3) = Some (Inr ())"
    by (subst validate_order_eq) (simp_all add: ex_market_def book_new_def q2n_def)
  moreover have "check_notional ex_market (Quantity 0 30) = Inr ()"
    by (simp add: check_notional_def ex_market_def book_new_def nat_simps q2n_def)
  ultimately show ?thesis
    by (simp add: validate_limit_order_def ex_funded_def ex_listed_def ex_state_def get_book_id_def base_scale_def ex_meta_def checked_pow_def
        get_user_balance_def lookup_funding_id_def funding_id_def registry_lookup_def user_registry_new_def get_balance_def Let_def nat_simps q2n_def
        into_order_def ex_order_def) (simp add: ex_market_def book_new_def)
qed

lemma ex_recorded: "record_limit_order 5 0 ex_order None 7 Write ex_funded = Some ex_traded"
proof -
  have "order_requirement \<lparr>tp_base = 1, tp_quote = 2\<rparr> 1 ex_order = Some (2, Quantity 0 30)"
    by (simp add: order_requirement_def ex_order_def expect_notional_def checked_mul_quantity_scaled_eq q2n_def n2q_def)
  moreover have "add_pending_order ex_order ex_market = Some (ex_market\<lparr>bk_pending_orders := [ex_order], bk_next_seq := 1\<rparr>)"
    by (simp add: add_pending_order_def validate_order_eq ex_order_def ex_market_def book_new_def q2n_def seq_increment_def checked_add_def)
  moreover have "reserve_and_record 5 0 ex_order None 7 2 (Quantity 0 30) ex_funded = Some (ex_traded\<lparr>st_books := st_books ex_funded\<rparr>)"
    by (simp add: reserve_and_record_def ex_funded_def ex_listed_def ex_state_def ex_traded_def lookup_funding_id_def funding_id_def registry_lookup_def
        user_registry_new_def tb_reserve_def with_write_back_def wb_reserve_def try_mutate_def write_back_new_def row_load_def balance_reserve_def
        quantity_sub_eq quantity_add_eq q2n_def n2q_def quantity_ZERO_def wb_put_def wb_flush_def flush_row_def worth_persisting_def
        insert_once_def history_new_def history_len_def Let_def ex_order_def)
  ultimately show ?thesis
    by (simp add: record_limit_order_def ex_funded_def ex_listed_def ex_state_def get_pair_def base_scale_def ex_meta_def checked_pow_def)
       (simp add: ex_traded_def ex_funded_def ex_listed_def ex_state_def)
qed

lemma ex_pending: "pending_order_try_from ex_biguint ex_request =
    Inr \<lparr>po_side = Buy, po_price = 10, po_quantity = Quantity 0 3, po_tif = GoodTilCanceled\<rparr>"
  by (simp add: pending_order_try_from_def ex_request_def ex_quantity)

lemma ex_order_added: "api_add_limit_order ex_biguint ex_request (ex_rt 5) \<lparr>cn_state = ex_funded, cn_log = ex_log2\<rparr> =
    Some (Inr (order_id_to_string (0, 0)), \<lparr>cn_state = ex_traded, cn_log = ex_log3\<rparr>)"
proof -
  have "effective_account ex_funded 5 = 5"
    by (simp add: effective_account_def ex_funded_def registry_lookup_def user_registry_new_def effective_principal_def)
  moreover have "st_mode ex_funded = GeneralAvailability" "\<not> is_halted (st_permissions ex_funded) 0"
    by (simp_all add: ex_funded_def ex_listed_def ex_state_def is_halted_def permissions_default_def)
  moreover have "process_event (Ev_AddLimitOrder \<lparr>ao_user = 5, ao_order_id = (0, 0), ao_side = Buy, ao_price = 10,
     ao_quantity = Quantity 0 3, ao_tif = GoodTilCanceled, ao_placed_by = None\<rparr>) 7 \<lparr>cn_state = ex_funded, cn_log = ex_log2\<rparr> =
     Some \<lparr>cn_state = ex_traded, cn_log = ex_log3\<rparr>"
    using ex_recorded by (simp add: process_event_def apply_state_transition_def into_order_def ex_order_def ex_log3_def ex_event_def)
  ultimately show ?thesis
    using ex_validated ex_pending
    by (simp add: api_add_limit_order_def assert_caller_is_allowed_def caller_is_allowed_def ex_rt_def ex_request_def permit_trading_def Let_def ex_order_def)
qed

definition ex_exchange :: system where
  "ex_exchange = \<lparr>sy_canister = \<lparr>cn_state = ex_traded, cn_log = ex_log3\<rparr>, sy_calls = [], sy_lost = []\<rparr>"

lemma ex_exchange_reached: "reachable ex_consts ex_biguint ex_init ex_exchange"
  using reach_step [OF ex_funded_reached] ex_order_added
    step_add_order [of ex_biguint ex_request "ex_rt 5" "\<lparr>sy_canister = \<lparr>cn_state = ex_funded, cn_log = ex_log2\<rparr>, sy_calls = [], sy_lost = []\<rparr>"]
  by (fastforce simp: ex_exchange_def)

text \<open>The same request again is accepted: 70 are still free.\<close>

lemma ex_second_order: "validate_limit_order 5 \<lparr>tp_base = 1, tp_quote = 2\<rparr> \<lparr>po_side = Buy, po_price = 10, po_quantity = Quantity 0 3, po_tif = GoodTilCanceled\<rparr>
    (cn_state (sy_canister ex_exchange)) = Some (Inr ((0, 1), ex_order\<lparr>ord_id := 1\<rparr>))"
proof -
  let ?b = "ex_market\<lparr>bk_pending_orders := [ex_order], bk_next_seq := 1\<rparr>"
  have "checked_mul_quantity_scaled 10 (Quantity 0 3) 1 = Some (Some (Quantity 0 30))"
    by (simp add: checked_mul_quantity_scaled_eq q2n_def n2q_def)
  moreover have "validate_order ?b 10 (Quantity 0 3) = Some (Inr ())"
    by (subst validate_order_eq) (simp_all add: ex_market_def book_new_def q2n_def)
  moreover have "check_notional ?b (Quantity 0 30) = Inr ()"
    by (simp add: check_notional_def ex_market_def book_new_def nat_simps q2n_def)
  ultimately show ?thesis
    by (simp add: validate_limit_order_def ex_exchange_def ex_traded_def ex_funded_def ex_listed_def ex_state_def get_book_id_def base_scale_def
        ex_meta_def checked_pow_def get_user_balance_def lookup_funding_id_def funding_id_def registry_lookup_def user_registry_new_def
        get_balance_def Let_def nat_simps q2n_def into_order_def ex_order_def)
qed

lemma ex_exchange_log: "length (cn_log (sy_canister ex_exchange)) < 2 ^ 62"
  by (simp add: ex_exchange_def ex_log3_def ex_log2_def ex_log1_def ex_log0_def)

lemma ex_exchange_deposited: "deposited t (cn_log (sy_canister ex_exchange)) \<le> 100"
  by (simp add: ex_exchange_def ex_log3_def ex_log2_def ex_log1_def ex_log0_def ex_event_def deposited_def q2n_def)

text \<open>Principal 5 grants principal 6 the right to trade for it, and then withdraws 40 of the 70 that are free. The
  withdrawal has left the balance, and the call to the ledger is open.\<close>

definition ex_granted :: trade_state where
  "ex_granted = ex_traded\<lparr>st_registry := \<lparr>ur_users = [(5, 0)], ur_trading_accounts = [(6, \<lparr>tg_funding = 5\<rparr>)],
     ur_by_funding = [(0, \<lparr>tl_accounts = [6], tl_last_granted_at = 7\<rparr>)]\<rparr>\<rparr>"

definition ex_log4 :: "event list" where
  "ex_log4 = ex_log3 @ [ex_event (Ev_AddTradingAccount \<lparr>ta_funding = 5, ta_trading = 6\<rparr>)]"

lemma ex_account_granted: "api_add_trading_account ex_consts 6 (ex_rt 5) \<lparr>cn_state = ex_traded, cn_log = ex_log3\<rparr> =
    Some (Inr (), \<lparr>cn_state = ex_granted, cn_log = ex_log4\<rparr>)"
proof -
  have r: "st_registry ex_traded = user_registry_new\<lparr>ur_users := [(5, 0)]\<rparr>" "st_in_flight ex_traded = {}" "st_mode ex_traded = GeneralAvailability"
    by (simp_all add: ex_traded_def ex_funded_def ex_listed_def ex_state_def)
  show ?thesis
    by (simp add: api_add_trading_account_def assert_caller_is_allowed_def caller_is_allowed_def ex_rt_def Let_def
        st_validate_add_trading_account_def validate_add_trading_account_def process_event_def apply_state_transition_def
        st_record_add_trading_account_def record_add_trading_account_def r registry_lookup_def lookup_funding_id_def funding_id_def
        user_registry_new_def ex_consts_def ex_log4_def ex_event_def)
       (simp add: ex_granted_def ex_traded_def)
qed

lemma ex_granted_reached: "reachable ex_consts ex_biguint ex_init \<lparr>sy_canister = \<lparr>cn_state = ex_granted, cn_log = ex_log4\<rparr>, sy_calls = [], sy_lost = []\<rparr>"
  using reach_step [OF ex_exchange_reached] step_grant [of ex_consts 6 "ex_rt 5" ex_exchange] ex_account_granted
  by (fastforce simp: ex_exchange_def)

definition ex_paying :: system where
  "ex_paying = \<lparr>sy_canister = \<lparr>cn_state = ex_granted\<lparr>st_in_flight := {(5, 2)},
       st_balances := \<lparr>tb_balances = [((2, 0), \<lparr>bal_free = Quantity 0 30, bal_reserved = Quantity 0 30\<rparr>)], tb_fee_pool = []\<rparr>\<rparr>,
     cn_log = ex_log4\<rparr>, sy_calls = [WithdrawCall 5 2 (Quantity 0 40) 0], sy_lost = []\<rparr>"

lemma ex_withdraw_started: "withdraw_start ex_biguint 2 40 (ex_rt 5) \<lparr>cn_state = ex_granted, cn_log = ex_log4\<rparr> =
    Some (Inr (Quantity 0 40, 0), sy_canister ex_paying)"
  by (simp add: withdraw_start_def assert_caller_is_allowed_def caller_is_allowed_def ex_quantity ex_rt_def ex_granted_def ex_traded_def ex_funded_def
      ex_listed_def ex_state_def is_known_token_def bt_contains_def permit_withdraw_def is_trading_account_def registry_lookup_def
      user_op_guard_new_def Let_def get_cached_ledger_fee_def is_zero_iff q2n_def st_withdraw_def lookup_funding_id_def funding_id_def
      tb_withdraw_def with_write_back_def wb_withdraw_def try_mutate_def write_back_new_def row_load_def balance_withdraw_def
      quantity_sub_eq n2q_def wb_put_def wb_flush_def flush_row_def worth_persisting_def balance_is_zero_def ex_paying_def)

lemma ex_paying_reached: "reachable ex_consts ex_biguint ex_init ex_paying"
  using reach_step [OF ex_granted_reached] ex_withdraw_started
    step_withdraw_start [of ex_biguint 2 40 "ex_rt 5" "\<lparr>sy_canister = \<lparr>cn_state = ex_granted, cn_log = ex_log4\<rparr>, sy_calls = [], sy_lost = []\<rparr>"]
  by (fastforce simp: ex_rt_def ex_paying_def)

lemma ex_paying_log: "length (cn_log (sy_canister ex_paying)) \<le> 2 ^ 64" "length (cn_log (sy_canister ex_paying)) < 2 ^ 62"
  by (simp_all add: ex_paying_def ex_log4_def ex_log3_def ex_log2_def ex_log1_def ex_log0_def)

lemma ex_paying_deposited: "deposited t (cn_log (sy_canister ex_paying)) = (if t = 2 then 100 else 0)"
  by (simp add: ex_paying_def ex_log4_def ex_log3_def ex_log2_def ex_log1_def ex_log0_def ex_event_def deposited_def q2n_def)

end
