(* ===== verification/Listing.thy ===== *)
theory Listing
  imports System_Invariants
begin

text \<open>
  Listing a pair (\<open>add_trading_pair\<close>): what each of its errors says of the request and the state, and what an accepted request makes
  of the state, both in plain numbers.
\<close>

section \<open>Refusals\<close>

definition listing_error_true :: "add_trading_pair_request \<Rightarrow> runtime \<Rightarrow> trade_state \<Rightarrow> add_trading_pair_error \<Rightarrow> bool" where
  "listing_error_true req rt s e \<longleftrightarrow>
     (case e of
        NotController \<Rightarrow> \<not> rt_is_controller rt (rt_caller rt)
      | BaseEqualsQuote \<Rightarrow> rq_base req = rq_quote req
      | PE_InvalidTickSize \<Rightarrow> rq_tick_size req = 0 \<or> 2 ^ 128 \<le> rq_tick_size req
      | PE_InvalidLotSize \<Rightarrow> rq_lot_size req = 0 \<or> 2 ^ 64 \<le> rq_lot_size req
      | InvalidBasisPoint v \<Rightarrow> v \<in> {rq_maker_fee_bps req, rq_taker_fee_bps req} \<and> 10000 < unat v
      | PE_InvalidNotional lo hi \<Rightarrow>
          lo = rq_min_notional req \<and> hi = rq_max_notional req \<and>
          (lo = 0 \<or> 2 ^ 256 \<le> lo \<or> (\<exists>m. hi = Some m \<and> (m < lo \<or> 2 ^ 256 \<le> m)))
      | TradingPairAlreadyExists \<Rightarrow> get_book_id (st_pairs s) \<lparr>tp_base = rq_base req, tp_quote = rq_quote req\<rparr> \<noteq> None
      | InconsistentTokenMetadata m \<Rightarrow>
          (im_token m, im_submitted m) \<in> {(rq_base req, rq_base_metadata req), (rq_quote req, rq_quote_metadata req)} \<and>
          bt_get (st_tokens s) (im_token m) = Some (im_expected m) \<and> im_expected m \<noteq> im_submitted m
      | BaseDecimalsTooLarge d \<Rightarrow> d = decimals (rq_base_metadata req) \<and> 2 ^ 64 \<le> (10 :: nat) ^ unat d
      | IndivisibleTickLotForBaseDecimals tick lot d \<Rightarrow>
          unat tick = rq_tick_size req \<and> unat lot = rq_lot_size req \<and> d = decimals (rq_base_metadata req) \<and>
          \<not> 10 ^ unat d dvd rq_tick_size req * rq_lot_size req)"

definition requested_rates :: "add_trading_pair_request \<Rightarrow> fee_rates" where
  "requested_rates req = \<lparr>maker = rq_maker_fee_bps req, taker = rq_taker_fee_bps req\<rparr>"

text \<open>The errors that the request alone explains.\<close>

definition request_error :: "add_trading_pair_error \<Rightarrow> bool" where
  "request_error e \<longleftrightarrow> (case e of PE_InvalidTickSize \<Rightarrow> True | PE_InvalidLotSize \<Rightarrow> True | InvalidBasisPoint _ \<Rightarrow> True
     | PE_InvalidNotional _ _ \<Rightarrow> True | _ \<Rightarrow> False)"

lemma parsed_pair:
  assumes big: "biguint_ok big"
  shows "case parse_pair_request big req of
      Inl e \<Rightarrow> listing_error_true req rt s e
    | Inr p \<Rightarrow> p = (of_nat (rq_tick_size req), of_nat (rq_lot_size req), requested_rates req, n2q (rq_min_notional req),
          map_option n2q (rq_max_notional req)) \<and> (request_error e \<longrightarrow> \<not> listing_error_true req rt s e)"
proof -
  have rate: "basis_point_new v = (if 10000 < unat v then Inl (OutOfRange v) else Inr v)" for v
    by (simp add: basis_point_new_def basis_point_MAX_def word_less_nat_alt)
  note parse = parse_pair_request_def listing_error_true_def request_error_def quantity_try_from_eq [OF big] rate is_zero_iff requested_rates_def
    q2n_less
  show ?thesis
  proof (cases "rq_min_notional req < 2 ^ 256")
    case True
    show ?thesis
    proof (cases "rq_max_notional req")
      case None
      then show ?thesis using True by (auto simp: parse not_less split: add_trading_pair_error.split)
    next
      case (Some m)
      then show ?thesis using True by (cases "m < 2 ^ 256") (auto simp: parse not_less split: add_trading_pair_error.split)
    qed
  next
    case False
    then show ?thesis by (auto simp: parse not_less)
  qed
qed

text \<open>The checks against the state never trap: the product of a tick and a lot size has at most 192 bits.\<close>

lemma settlement_check:
  assumes "scale \<noteq> 0" "unat tick = t" "unat lot = l"
  shows "do { tick_lot \<leftarrow> checked_mul_u64 (from_u128 tick) lot; (_, remainder) \<leftarrow> checked_div_rem_u64 tick_lot scale; Some (f remainder) } =
    Some (f (of_nat (t * l mod unat scale)))"
proof -
  have "t * l < 2 ^ 128 * 2 ^ 64" using assms(2,3) unat_u128_bound [of tick] unat_u64_bound [of lot] by (intro mult_strict_mono) auto
  then have "t * l < 2 ^ 256" by simp
  then show ?thesis using assms by (simp add: checked_mul_u64_eq checked_div_rem_u64_eq)
qed

lemma validated_pair:
  fixes s :: trade_state
  assumes sizes: "rq_tick_size req < 2 ^ 128" "rq_lot_size req < 2 ^ 64"
  defines "v \<equiv> validate_new_pair req (of_nat (rq_tick_size req)) (of_nat (rq_lot_size req)) s"
  shows "(\<exists>e. v = Some (Inl e) \<and> listing_error_true req rt s e) \<or>
    v = Some (Inr ()) \<and> (\<forall>e. \<not> request_error e \<and> e \<noteq> NotController \<and> e \<noteq> BaseEqualsQuote \<longrightarrow> \<not> listing_error_true req rt s e)"
proof -
  let ?d = "decimals (rq_base_metadata req)" and ?t = "of_nat (rq_tick_size req) :: u128" and ?l = "of_nat (rq_lot_size req) :: u64"
  let ?pair = "\<lparr>tp_base = rq_base req, tp_quote = rq_quote req\<rparr>" and ?prod = "rq_tick_size req * rq_lot_size req"
  let ?clash = "\<lambda>t m. (\<exists>x. bt_get (st_tokens s) t = Some x \<and> x \<noteq> m)"
  have nat: "unat ?t = rq_tick_size req" "unat ?l = rq_lot_size req" using sizes by (simp_all add: unat_of_nat_small)
  have pair: "has_trading_pair s ?pair \<longleftrightarrow> get_book_id (st_pairs s) ?pair \<noteq> None"
    by (simp add: has_trading_pair_def pair_map_contains_def bt_contains_def get_book_id_def)
  have token: "check_token_metadata_consistency t m s =
      (if ?clash t m then Inl \<lparr>im_token = t, im_expected = the (bt_get (st_tokens s) t), im_submitted = m\<rparr> else Inr ())" for t m
    by (auto simp: check_token_metadata_consistency_def split: option.splits)
  show ?thesis
  proof (cases "get_book_id (st_pairs s) ?pair = None \<and> \<not> ?clash (rq_base req) (rq_base_metadata req) \<and> \<not> ?clash (rq_quote req) (rq_quote_metadata req)")
    case False
    then show ?thesis
      by (cases "get_book_id (st_pairs s) ?pair = None"; cases "?clash (rq_base req) (rq_base_metadata req)")
         (auto simp: v_def validate_new_pair_def pair token listing_error_true_def Let_def)
  next
    case fresh: True
    then have "check_token_metadata_consistency (rq_base req) (rq_base_metadata req) s = Inr ()"
        "check_token_metadata_consistency (rq_quote req) (rq_quote_metadata req) s = Inr ()" "\<not> has_trading_pair s ?pair"
      by (auto simp: token pair)
    then have v: "v = (case checked_pow (10 :: u64) (unat ?d) of None \<Rightarrow> Some (Inl (BaseDecimalsTooLarge ?d))
      | Some scale \<Rightarrow> do { tick_lot \<leftarrow> checked_mul_u64 (from_u128 ?t) ?l; (_, remainder) \<leftarrow> checked_div_rem_u64 tick_lot scale;
          Some (if remainder \<noteq> 0 then Inl (IndivisibleTickLotForBaseDecimals ?t ?l ?d) else Inr ()) })"
      by (simp add: v_def validate_new_pair_def Let_def)
    show ?thesis
    proof (cases "checked_pow (10 :: u64) (unat ?d)")
      case None
      then have "2 ^ 64 \<le> (10 :: nat) ^ unat ?d" by (simp add: checked_pow_def split: if_splits)
      then show ?thesis using None by (simp add: v listing_error_true_def)
    next
      case (Some scale)
      then have pow: "unat scale = 10 ^ unat ?d" by (simp add: checked_pow_Some)
      then have nz: "scale \<noteq> 0" by auto
      then have "?prod mod unat scale < 2 ^ 64" using unat_u64_bound [of scale] by (meson mod_less_divisor less_trans unat_gt_0)
      then have rem: "of_nat (?prod mod unat scale) = (0 :: u64) \<longleftrightarrow> 10 ^ unat ?d dvd ?prod"
        by (simp add: word_eq_iff_unat unat_of_nat_small pow dvd_eq_mod_eq_0)
      have "(10 :: nat) ^ unat ?d < 2 ^ 64" using pow unat_u64_bound [of scale] by simp
      moreover have "v = Some (if 10 ^ unat ?d dvd ?prod then Inr () else Inl (IndivisibleTickLotForBaseDecimals ?t ?l ?d))"
        using Some by (simp add: v settlement_check [OF nz nat] rem)
      ultimately show ?thesis
        using fresh nat by (auto simp: listing_error_true_def request_error_def split: add_trading_pair_error.split)
    qed
  qed
qed

section \<open>The new market\<close>

definition requested_book :: "add_trading_pair_request \<Rightarrow> order_book_id \<Rightarrow> order_book" where
  "requested_book req i = book_new i (of_nat (rq_tick_size req)) (of_nat (rq_lot_size req)) (n2q (rq_min_notional req))
     (map_option n2q (rq_max_notional req)) (requested_rates req)"

definition listed_from :: "add_trading_pair_request \<Rightarrow> trade_state \<Rightarrow> trade_state \<Rightarrow> bool" where
  "listed_from req s s' \<longleftrightarrow>
     (let i = st_next_book_id s; pair = \<lparr>tp_base = rq_base req, tp_quote = rq_quote req\<rparr>
      in get_book_id (st_pairs s') = (get_book_id (st_pairs s))(pair \<mapsto> i) \<and>
         bt_get (st_books s) i = None \<and> bt_get (st_books s') = (bt_get (st_books s))(i \<mapsto> requested_book req i) \<and>
         bt_get (st_tokens s') = (bt_get (st_tokens s))(rq_base req \<mapsto> rq_base_metadata req, rq_quote req \<mapsto> rq_quote_metadata req) \<and>
         st_next_book_id s' = i + 1 \<and> stable_of s' = stable_of s \<and> st_permissions s' = st_permissions s \<and>
         st_settling s' = st_settling s \<and> st_in_flight s' = st_in_flight s \<and> st_mode s' = st_mode s \<and> st_policy s' = st_policy s)"

text \<open>A book identifier that was not given out is in no map.\<close>

lemma next_book_free:
  assumes "heap_ok s"
  shows "bt_get (st_books s) (st_next_book_id s) = None" "get_pair (st_pairs s) (st_next_book_id s) = None"
proof -
  show none: "bt_get (st_books s) (st_next_book_id s) = None"
    using heap_okD [OF assms, of "st_next_book_id s"] by (metis less_irrefl not_None_eq)
  have ok: "pair_map_ok (st_pairs s)" "\<forall>pair i. get_book_id (st_pairs s) pair = Some i \<longrightarrow> bt_get (st_books s) i \<noteq> None"
    using assms by (simp_all add: heap_ok_def maps_ok_def)
  then show "get_pair (st_pairs s) (st_next_book_id s) = None"
    using none get_pair_iff [OF ok(1), of "st_next_book_id s"] by (metis not_None_eq)
qed

lemma pair_recorded:
  assumes heap: "heap_ok s" and id: "Suc (unat (st_next_book_id s)) < 2 ^ 64" and ne: "rq_base req \<noteq> rq_quote req"
    and fresh: "\<forall>e. \<not> request_error e \<and> e \<noteq> NotController \<and> e \<noteq> BaseEqualsQuote \<longrightarrow> \<not> listing_error_true req rt s e"
  shows "\<exists>s'. record_trading_pair (st_next_book_id s) \<lparr>tp_base = rq_base req, tp_quote = rq_quote req\<rparr> (rq_base_metadata req) (rq_quote_metadata req)
      (of_nat (rq_tick_size req)) (of_nat (rq_lot_size req)) (n2q (rq_min_notional req)) (map_option n2q (rq_max_notional req))
      (requested_rates req) s = Some s' \<and> listed_from req s s'"
proof -
  let ?pair = "\<lparr>tp_base = rq_base req, tp_quote = rq_quote req\<rparr>" and ?i = "st_next_book_id s"
  have new: "get_book_id (st_pairs s) ?pair = None"
    using spec [OF fresh, of TradingPairAlreadyExists] by (simp add: listing_error_true_def request_error_def)
  have meta: "x = m" if "bt_get (st_tokens s) t = Some x" "(t, m) \<in> {(rq_base req, rq_base_metadata req), (rq_quote req, rq_quote_metadata req)}" for t m x
    using spec [OF fresh, of "InconsistentTokenMetadata \<lparr>im_token = t, im_expected = x, im_submitted = m\<rparr>"] that
    by (auto simp: listing_error_true_def request_error_def)
  obtain s1 where s1: "record_token (rq_base req) (rq_base_metadata req) s = Some s1"
    using meta [of "rq_base req"] by (cases "bt_get (st_tokens s) (rq_base req)") (auto simp: record_token_def ensure_def)
  note t1 = record_token_effect [OF s1]
  obtain s2 where s2: "record_token (rq_quote req) (rq_quote_metadata req) s1 = Some s2"
    using meta [of "rq_quote req"] t1(1) ne by (cases "bt_get (st_tokens s) (rq_quote req)") (auto simp: record_token_def ensure_def)
  note t2 = record_token_effect [OF s2]
  have eq: "s2 = s\<lparr>st_tokens := st_tokens s2\<rparr>" by (subst t2(2), subst t1(2)) simp
  have tokens: "bt_get (st_tokens s2) = (bt_get (st_tokens s))(rq_base req \<mapsto> rq_base_metadata req, rq_quote req \<mapsto> rq_quote_metadata req)"
    using t1(1) t2(1) by simp
  have st: "st_pairs s2 = st_pairs s" "st_books s2 = st_books s" "st_next_book_id s2 = ?i" "stable_of s2 = stable_of s"
      "st_permissions s2 = st_permissions s" "st_settling s2 = st_settling s" "st_in_flight s2 = st_in_flight s" "st_mode s2 = st_mode s"
      "st_policy s2 = st_policy s"
    by (subst eq, simp add: stable_of_def)+
  have next_id: "seq_increment ?i = Some (?i + 1)" using id by (simp add: seq_increment_def checked_add_def)
  have ins: "pair_map_insert ?pair ?i (st_pairs s) = Some (bt_insert ?pair ?i (st_pairs s))"
    using new next_book_free [OF heap] by (simp add: pair_map_insert_def ensure_def)
  let ?s' = "s2\<lparr>st_pairs := bt_insert ?pair ?i (st_pairs s), st_books := bt_insert ?i (requested_book req ?i) (st_books s), st_next_book_id := ?i + 1\<rparr>"
  have "listed_from req s ?s'"
    using next_book_free [OF heap] tokens st
    by (simp add: listed_from_def Let_def stable_of_def get_book_id_def fun_eq_iff)
  then show ?thesis
    using s1 s2 next_id ins next_book_free(1) [OF heap] st by (simp add: record_trading_pair_def requested_book_def ensure_def)
qed

lemma add_trading_pair_returns:
  assumes heap: "heap_ok (cn_state c)" and id: "Suc (unat (st_next_book_id (cn_state c))) < 2 ^ 64" and big: "biguint_ok big"
  shows "\<exists>r c'. add_trading_pair big req rt c = Some (r, c') \<and>
    (case r of Inl e \<Rightarrow> c' = c \<and> listing_error_true req rt (cn_state c) e
     | Inr _ \<Rightarrow> (\<forall>e. \<not> listing_error_true req rt (cn_state c) e) \<and> listed_from req (cn_state c) (cn_state c'))"
proof (cases "rt_is_controller rt (rt_caller rt) \<and> rq_base req \<noteq> rq_quote req")
  case False
  then show ?thesis by (auto simp: add_trading_pair_def listing_error_true_def)
next
  case admitted: True
  note parsed = parsed_pair [OF big, of req rt "cn_state c"]
  show ?thesis
  proof (cases "parse_pair_request big req")
    case (Inl e)
    then show ?thesis using admitted parsed by (simp add: add_trading_pair_def)
  next
    case (Inr p)
    then have p: "p = (of_nat (rq_tick_size req), of_nat (rq_lot_size req), requested_rates req, n2q (rq_min_notional req),
        map_option n2q (rq_max_notional req))"
      and well: "request_error e \<longrightarrow> \<not> listing_error_true req rt (cn_state c) e" for e using parsed [of e] by simp_all
    have sizes: "rq_tick_size req < 2 ^ 128" "rq_lot_size req < 2 ^ 64"
      using well [of PE_InvalidTickSize] well [of PE_InvalidLotSize] by (simp_all add: request_error_def listing_error_true_def)
    from validated_pair [OF sizes, of "cn_state c" rt] show ?thesis
    proof (elim disjE exE conjE)
      fix e assume "validate_new_pair req (of_nat (rq_tick_size req)) (of_nat (rq_lot_size req)) (cn_state c) = Some (Inl e)"
        "listing_error_true req rt (cn_state c) e"
      then show ?thesis using admitted Inr by (simp add: add_trading_pair_def p)
    next
      assume v: "validate_new_pair req (of_nat (rq_tick_size req)) (of_nat (rq_lot_size req)) (cn_state c) = Some (Inr ())"
        and fresh: "\<forall>e. \<not> request_error e \<and> e \<noteq> NotController \<and> e \<noteq> BaseEqualsQuote \<longrightarrow> \<not> listing_error_true req rt (cn_state c) e"
      have "\<not> listing_error_true req rt (cn_state c) NotController" "\<not> listing_error_true req rt (cn_state c) BaseEqualsQuote"
        using admitted by (simp_all add: listing_error_true_def)
      then have "\<not> listing_error_true req rt (cn_state c) e" for e using fresh well by blast
      then show ?thesis
        using pair_recorded [OF heap id _ fresh] admitted Inr v
        by (auto simp: add_trading_pair_def p process_event_def apply_state_transition_def)
    qed
  qed
qed

end
