(* ===== verification/Exchange_Properties.thy ===== *)
theory Exchange_Properties
  imports Exchange_Examples Listing
begin

text \<open>
  The properties of the exchange as a whole. All of them speak of reachable states, with two bounds:
  the log is shorter than \<open>2 ^ 62\<close> events, and no token has ever had more than \<open>K < 2 ^ 192\<close> units deposited.
  Below them no counter of the canister and no sum of amounts overflows, so the traps on overflow are
  dead code; no other assumption on messages, ledgers or the instruction counter is made.
\<close>

text \<open>C1. Tokens are conserved: in every reachable state, for every token, what users hold, free or
  reserved, plus the fee pool plus the withdrawals whose ledger call is still open plus what the
  log says was withdrawn is exactly what the log says was deposited. No matching, settlement,
  fee, cancellation or failed withdrawal creates or destroys anything. Withdrawals whose answer
  trapped are counted beside the open ones: they have left the balance and are neither logged nor
  refunded.\<close>

theorem tokens_conserved:
  assumes "reachable pc big arg y" "length (cn_log (sy_canister y)) \<le> 2 ^ 64"
  shows "token_total t (st_balances (cn_state (sy_canister y))) + in_transit t (sy_calls y) + in_transit t (sy_lost y) +
    withdrawn t (cn_log (sy_canister y)) = deposited t (cn_log (sy_canister y))"
  using sys_inv_reachable [OF assms] by (simp add: sys_inv_def books_balance_def)

theorem tokens_conserved_witness:
  "token_total 2 (st_balances (cn_state (sy_canister ex_paying))) = 60 \<and> in_transit 2 (sy_calls ex_paying) = 40 \<and>
   deposited 2 (cn_log (sy_canister ex_paying)) = 100"
proof -
  have "in_transit 2 (sy_calls ex_paying) = 40" "in_transit 2 (sy_lost ex_paying) = 0" "withdrawn 2 (cn_log (sy_canister ex_paying)) = 0"
    by (simp_all add: ex_paying_def in_transit_def call_amount_def q2n_def ex_log4_def ex_log3_def ex_log2_def ex_log1_def ex_log0_def ex_event_def withdrawn_def)
  then show ?thesis using tokens_conserved [OF ex_paying_reached ex_paying_log(1), of 2] ex_paying_deposited by simp
qed

text \<open>C15. Accounts stay separate while deposits and withdrawals are in flight: no principal is both
  a funding and a trading account, no two principals share a user id, a funding account has at most
  four trading accounts, a principal with an open ledger call is no trading account, and there is
  at most one open call per caller and token.\<close>

theorem accounts_separate:
  assumes "reachable pc big arg y" "length (cn_log (sy_canister y)) \<le> 2 ^ 64"
  shows "let s = cn_state (sy_canister y); r = st_registry s in
    (bt_get (ur_trading_accounts r) p = None \<or> bt_get (ur_users r) p = None) \<and>
    (lookup_funding_id r p = Some i \<and> lookup_funding_id r q = Some i \<longrightarrow> p = q) \<and>
    length (trading_accounts_of r p) \<le> MAX_TRADING_ACCOUNTS_PER_USER \<and>
    (call \<in> set (sy_calls y) \<longrightarrow> \<not> is_trading_account s (fst (call_key call))) \<and>
    distinct (map call_key (sy_calls y))"
proof -
  let ?s = "cn_state (sy_canister y)" and ?r = "st_registry (cn_state (sy_canister y))"
  have inv: "accounts_ok ?s" "calls_ok y" using sys_inv_reachable [OF assms] by (simp_all add: sys_inv_def)
  then have r: "registry_ok ?r" by (simp add: accounts_ok_def)
  have "length (trading_accounts_of ?r p) \<le> MAX_TRADING_ACCOUNTS_PER_USER"
    using r by (auto simp: trading_accounts_of_def lookup_funding_id_eq registry_ok_def grants_ok_def split: option.splits
        bind_splits)
  moreover have "\<not> is_trading_account ?s (fst (call_key call))" if "call \<in> set (sy_calls y)"
  proof -
    have "call_key call \<in> st_in_flight ?s" using inv(2) that by (auto simp: calls_ok_def Let_def)
    then show ?thesis using inv(1) by (cases "call_key call") (auto simp: accounts_ok_def is_trading_account_iff)
  qed
  moreover have "bt_get (ur_trading_accounts ?r) p = None \<or> bt_get (ur_users ?r) p = None"
    using r by (cases "bt_get (ur_trading_accounts ?r) p") (auto simp: registry_ok_def grants_ok_def)
  ultimately show ?thesis
    using inv(2) funding_id_unique [OF r] by (auto simp: Let_def calls_ok_def)
qed

theorem accounts_separate_witness:
  "let r = st_registry (cn_state (sy_canister ex_paying)) in
     bt_get (ur_trading_accounts r) 6 = Some \<lparr>tg_funding = 5\<rparr> \<and> bt_get (ur_users r) 6 = None \<and>
     trading_accounts_of r 5 = [6] \<and> length (trading_accounts_of r 5) \<le> MAX_TRADING_ACCOUNTS_PER_USER \<and>
     sy_calls ex_paying = [WithdrawCall 5 2 (Quantity 0 40) 0] \<and> \<not> is_trading_account (cn_state (sy_canister ex_paying)) 5 \<and>
     is_trading_account (cn_state (sy_canister ex_paying)) 6"
proof -
  have r: "st_registry (cn_state (sy_canister ex_paying)) = \<lparr>ur_users = [(5, 0)], ur_trading_accounts = [(6, \<lparr>tg_funding = 5\<rparr>)],
      ur_by_funding = [(0, \<lparr>tl_accounts = [6], tl_last_granted_at = 7\<rparr>)]\<rparr>"
    and calls: "sy_calls ex_paying = [WithdrawCall 5 2 (Quantity 0 40) 0]"
    by (simp_all add: ex_paying_def ex_granted_def)
  have "bt_get (ur_users (st_registry (cn_state (sy_canister ex_paying)))) 6 = None"
    using accounts_separate [OF ex_paying_reached ex_paying_log(1), of 6] by (simp add: Let_def r)
  moreover have "length (trading_accounts_of (st_registry (cn_state (sy_canister ex_paying))) 5) \<le> MAX_TRADING_ACCOUNTS_PER_USER"
      "\<not> is_trading_account (cn_state (sy_canister ex_paying)) 5"
    using accounts_separate [OF ex_paying_reached ex_paying_log(1), of 5 _ _ "WithdrawCall 5 2 (Quantity 0 40) 0"]
    by (simp_all add: Let_def calls call_key_def)
  ultimately show ?thesis
    by (simp add: Let_def r calls trading_accounts_of_def lookup_funding_id_def funding_id_def registry_lookup_def is_trading_account_def)
qed

text \<open>C2. Solvency: what a user's balance shows as reserved is, token by token, exactly what her open
  orders still lock in the books plus what settlement events that wait in the queue will take from
  it. Nothing is locked twice, and nothing stays locked without an order.\<close>

theorem reserves_backed:
  assumes "reachable pc big arg y" "length (cn_log (sy_canister y)) < 2 ^ 62"
    "\<And>t. deposited t (cn_log (sy_canister y)) \<le> K" "K < 2 ^ 192"
  shows "q2n (bal_reserved (map_balance (tb_balances (st_balances (cn_state (sy_canister y)))) (t, u))) = locked (cn_state (sy_canister y)) u t"
proof -
  have "backed (cn_state (sy_canister y))" by (rule exchange_okD(2) [OF aliveD(3) [OF reachable_alive [OF assms]]])
  then show ?thesis by (simp add: backed_def reserved_of_def)
qed

theorem reserves_backed_witness: "locked (cn_state (sy_canister ex_exchange)) 0 2 = 30"
  using reserves_backed [OF ex_exchange_reached ex_exchange_log ex_exchange_deposited, of 2 0]
  by (simp add: ex_exchange_def ex_traded_def map_balance_def q2n_def)

text \<open>C13. Every order record agrees with the books: it exists exactly for the sequence numbers its book
  has given out, it is open exactly while the order rests in the book and pending exactly while it
  waits to be matched, side and price are those of the book, and filled plus remaining quantity is
  the ordered quantity unless the order was canceled or expired, when it is at most that.\<close>

theorem records_agree_with_books:
  assumes "reachable pc big arg y" "length (cn_log (sy_canister y)) < 2 ^ 62"
    "\<And>t. deposited t (cn_log (sy_canister y)) \<le> K" "K < 2 ^ 192"
  defines "s \<equiv> cn_state (sy_canister y)"
  shows "(history_get (st_orders s) (i, q) \<noteq> None \<longleftrightarrow> (\<exists>b. bt_get (st_books s) i = Some b \<and> q < bk_next_seq b)) \<and>
    (\<forall>r b. history_get (st_orders s) (i, q) = Some r \<and> bt_get (st_books s) i = Some b \<longrightarrow>
       (or_status r = Open \<longleftrightarrow> q \<in> set (resting_ids b)) \<and> (or_status r = Pending \<longleftrightarrow> q \<in> set (pending_order_seqs b)) \<and>
       (\<forall>p x. (p, x) \<in> set (side_list sd b) \<and> ro_id x = q \<longrightarrow> sd = or_side r \<and> p = or_price r) \<and>
       q2n (or_filled_quantity r) + stake_sum (remaining_of q) b \<le> q2n (or_quantity r) \<and>
       (or_status r \<in> {Pending, Open, Filled} \<longrightarrow> q2n (or_filled_quantity r) + stake_sum (remaining_of q) b = q2n (or_quantity r)))"
proof -
  have ok: "records_ok K s" unfolding s_def by (rule exchange_okD(3) [OF aliveD(3) [OF reachable_alive [OF assms(1-4)]]])
  show ?thesis
  proof (intro conjI allI impI)
    show "history_get (st_orders s) (i, q) \<noteq> None \<longleftrightarrow> (\<exists>b. bt_get (st_books s) i = Some b \<and> q < bk_next_seq b)"
      using ok unfolding records_ok_def by blast
    fix r b assume h: "history_get (st_orders s) (i, q) = Some r \<and> bt_get (st_books s) i = Some b"
    then have fits: "record_fits K b q r" using records_okD [OF ok, of i q r] by (metis option.inject)
    then show "or_status r = Open \<longleftrightarrow> q \<in> set (resting_ids b)" "or_status r = Pending \<longleftrightarrow> q \<in> set (pending_order_seqs b)"
        "q2n (or_filled_quantity r) + stake_sum (remaining_of q) b \<le> q2n (or_quantity r)"
      unfolding record_fits_def by simp_all
    show "q2n (or_filled_quantity r) + stake_sum (remaining_of q) b = q2n (or_quantity r)" if "or_status r \<in> {Pending, Open, Filled}"
      using fits that unfolding record_fits_def by fastforce
    fix p x assume "(p, x) \<in> set (side_list sd b) \<and> ro_id x = q"
    then have "(q, sd, p) \<in> stake_terms b" by (auto simp: stake_terms_def)
    then show "sd = or_side r" "p = or_price r" using fits unfolding record_fits_def by blast+
  qed
qed

theorem records_agree_with_books_witness:
  "history_get (st_orders (cn_state (sy_canister ex_exchange))) (0, 0) \<noteq> None \<and>
   history_get (st_orders (cn_state (sy_canister ex_exchange))) (0, 1) = None"
  using records_agree_with_books [OF ex_exchange_reached ex_exchange_log ex_exchange_deposited, of 0 0]
    records_agree_with_books [OF ex_exchange_reached ex_exchange_log ex_exchange_deposited, of 0 1]
  by (simp add: ex_exchange_def ex_traded_def)

text \<open>C5. Matching finishes: from any reachable state the chain of zero-delay timers that
  \<open>drive_matching\<close> sets is finite, provided the counter lets every run look at each book once. No
  run traps, and after the last one no book that may match has a pending order and no settlement
  event waits.\<close>

theorem matching_completes:
  assumes "reachable pc big arg y" "length (cn_log (sy_canister y)) < 2 ^ 62"
    "\<And>t. deposited t (cn_log (sy_canister y)) \<le> K" "K < 2 ^ 192"
    and enough: "\<And>j. enough_instructions (counters j) (sy_canister y)"
  shows "\<exists>n c'. drive_chain n counters nows 0 (sy_canister y) = Some (False, c') \<and>
    \<not> has_matchable_pending_orders (cn_state c') \<and> st_settling (cn_state c') = []"
proof -
  have "\<exists>n c'. drive_chain n counters nows 0 (sy_canister y) = Some (False, c') \<and> alive K c' \<and> at_rest c'"
    using reachable_idle [OF assms(1)] enough by (intro drive_chain_ends [OF reachable_alive [OF assms(1-4)]]) simp_all
  then show ?thesis by (auto simp: at_rest_def has_pending_settling_events_def)
qed

theorem matching_completes_witness:
  "\<exists>n c'. drive_chain n (\<lambda>j k. of_nat (30 * k)) (\<lambda>j. 8) 0 (sy_canister ex_exchange) = Some (False, c') \<and>
    \<not> has_matchable_pending_orders (cn_state c') \<and> st_settling (cn_state c') = []"
  by (rule matching_completes [OF ex_exchange_reached ex_exchange_log ex_exchange_deposited])
     (auto simp: enough_instructions_def ex_exchange_def ex_traded_def ex_funded_def ex_listed_def ex_state_def less_Suc_eq
        numeral_3_eq_3)

text \<open>C17. The length of the chain: when the counter stays below the budget, a run matches a full chunk,
  so \<open>n + 1\<close> runs clear every backlog of at most \<open>n + 1\<close> chunks of \<open>max_orders_per_chunk\<close> orders. And a run
  terminates for every counter: it returns \<open>Complete\<close> or \<open>MoreWork\<close>, by what its last state still has to
  do, never traps, and never finds the guard taken.\<close>

theorem matching_chain_bounded:
  assumes "reachable pc big arg y" "length (cn_log (sy_canister y)) < 2 ^ 62"
    "\<And>t. deposited t (cn_log (sy_canister y)) \<le> K" "K < 2 ^ 192"
  shows "(\<exists>c'. api_process_pending_orders counter now (sy_canister y) = Some (status_from_state (cn_state c'), c')) \<and>
    ((\<forall>i j. counters i j < ep_instruction_budget (st_policy (cn_state (sy_canister y)))) \<longrightarrow>
     backlog (sy_canister y) \<le> Suc n * unat (ep_max_orders_per_chunk (st_policy (cn_state (sy_canister y)))) \<longrightarrow>
     (\<exists>c'. drive_chain (Suc n) counters nows 0 (sy_canister y) = Some (False, c') \<and>
       \<not> has_matchable_pending_orders (cn_state c') \<and> st_settling (cn_state c') = []))"
proof -
  note l = reachable_alive [OF assms] and idle = reachable_idle [OF assms(1)]
  have "\<exists>c'. drive_chain (Suc n) counters nows 0 (sy_canister y) = Some (False, c') \<and> alive K c' \<and> at_rest c'"
    if "\<forall>i j. counters i j < ep_instruction_budget (st_policy (cn_state (sy_canister y)))"
      "backlog (sy_canister y) \<le> Suc n * unat (ep_max_orders_per_chunk (st_policy (cn_state (sy_canister y))))"
    using that idle by (intro drive_chain_bounded [OF l]) simp_all
  then show ?thesis
    using process_pending_runs [OF l, of counter now] idle by (auto simp: at_rest_def has_pending_settling_events_def simp del: drive_chain.simps)
qed

theorem matching_chain_bounded_witness:
  "\<exists>c'. drive_chain 1 (\<lambda>i j. 999) (\<lambda>j. 8) 0 (sy_canister ex_exchange) = Some (False, c') \<and> \<not> has_matchable_pending_orders (cn_state c')"
proof -
  have b: "backlog (sy_canister ex_exchange) \<le> Suc 0 * unat (ep_max_orders_per_chunk (st_policy (cn_state (sy_canister ex_exchange))))"
    unfolding backlog_books [OF alive_books [OF reachable_alive [OF ex_exchange_reached ex_exchange_log ex_exchange_deposited]], simplified]
    by (simp add: ex_exchange_def ex_traded_def ex_funded_def ex_listed_def ex_state_def books_by_pending_order_count_desc_def waits_def waiting_def)
  then show ?thesis
    using matching_chain_bounded [OF ex_exchange_reached ex_exchange_log ex_exchange_deposited, of "\<lambda>_. 0" 0 "\<lambda>i j. 999" 0 "\<lambda>j. 8"]
    by (simp add: ex_exchange_def ex_traded_def ex_funded_def ex_listed_def ex_state_def del: drive_chain.simps) blast
qed

text \<open>C4. Users can always get out: whoever owns an order that is pending or open can cancel it in any
  reachable state, also while trading is halted. The call returns the record, now canceled with its
  fills unchanged, the order leaves its book, no other event is settled on the way, and exactly what
  the unfilled part had reserved moves from reserved to free; no other balance changes.\<close>

theorem cancel_refunds_owner:
  assumes "reachable pc big arg y" "length (cn_log (sy_canister y)) < 2 ^ 62"
    "\<And>t. deposited t (cn_log (sy_canister y)) \<le> K" "K < 2 ^ 192"
    and r: "history_get (st_orders (cn_state (sy_canister y))) i = Some r" "or_status r = Pending \<or> or_status r = Open"
  shows "\<exists>r' c'. st_cancel_limit_order (or_owner r) canceled_by i now (sy_canister y) = Some (Inr r', c') \<and>
    canceled_from i r (cn_state (sy_canister y)) r' (cn_state c')"
  using cancel_settles [OF reachable_alive [OF assms(1-4)], of "fst i" "snd i" r "or_owner r" canceled_by now] r by auto

theorem cancel_refunds_owner_witness:
  "\<exists>r' c'. st_cancel_limit_order 5 None (0, 0) 9 (sy_canister ex_exchange) = Some (Inr r', c') \<and> or_status r' = Canceled \<and>
    q2n (bal_reserved (map_balance (tb_balances (st_balances (cn_state c'))) (2, 0))) + 30 =
    q2n (bal_reserved (map_balance (tb_balances (st_balances (cn_state (sy_canister ex_exchange)))) (2, 0)))"
proof -
  let ?s = "cn_state (sy_canister ex_exchange)" and ?r = "initial_record 5 ex_order None 7"
  have r: "history_get (st_orders ?s) (0, 0) = Some ?r" by (simp add: ex_exchange_def ex_traded_def history_get_def)
  obtain r' c' where c': "st_cancel_limit_order (or_owner ?r) None (0, 0) 9 (sy_canister ex_exchange) = Some (Inr r', c')"
      "canceled_from (0, 0) ?r ?s r' (cn_state c')"
    using cancel_refunds_owner [OF ex_exchange_reached ex_exchange_log ex_exchange_deposited _ r, of None 9] by (auto simp: initial_record_def)
  obtain u pair scale where u: "lookup_funding_id (st_registry ?s) (or_owner ?r) = Some u" "get_pair (st_pairs ?s) 0 = Some pair"
      "base_scale ?s (tp_base pair) = Some scale"
      "\<forall>k. q2n (bal_reserved (map_balance (tb_balances (st_balances ?s)) k)) = q2n (bal_reserved (map_balance (tb_balances (st_balances (cn_state c'))) k)) +
         (if k = (trading_pair_token pair (lock_token (or_side ?r)), u) then open_value scale ?r else 0)"
    using c'(2) by (auto simp: canceled_from_def)
  have "u = 0" "pair = \<lparr>tp_base = 1, tp_quote = 2\<rparr>" "scale = 1"
    using u(1-3) by (auto simp: ex_exchange_def ex_traded_def ex_funded_def ex_listed_def ex_meta_def initial_record_def lookup_funding_id_def
        funding_id_def registry_lookup_def user_registry_new_def get_pair_def base_scale_def checked_pow_def)
  then show ?thesis
    using c' u(4) by (auto simp: canceled_from_def initial_record_def ex_order_def lock_token_def trading_pair_token_def open_value_def q2n_def quantity_ZERO_def)
qed

text \<open>C8. Placing an order: for a caller the mode admits, \<open>add_limit_order\<close> always returns. On an error the
  canister is unchanged. Otherwise the pair of the request has a book that is not halted, and the order it
  gets is the requested one: its side, price, quantity and time in force, the next sequence number of that
  book, and the last place among the pending orders; it is recorded as pending for the account the caller
  acts for, and exactly what the request takes, price times quantity in the quote token for a buyer
  and the quantity in the base token for a seller, moved from free to reserved in that account. No other
  book, record or balance changes. Of the big integers of the request it is only asked that their
  library reads and writes numbers.\<close>

theorem order_placed_exactly:
  assumes "reachable pc big arg y" "length (cn_log (sy_canister y)) < 2 ^ 62"
    "\<And>t. deposited t (cn_log (sy_canister y)) \<le> K" "K < 2 ^ 192"
    and "biguint_ok big" and "caller_is_allowed (st_mode (cn_state (sy_canister y))) rt"
  defines "s \<equiv> cn_state (sy_canister y)"
  defines "owner \<equiv> effective_account s (rt_caller rt)"
  shows "\<exists>r c'. api_add_limit_order big req rt (sy_canister y) = Some (r, c') \<and>
    (\<forall>e. r = Inl e \<longrightarrow> c' = sy_canister y) \<and>
    (\<forall>i. r = Inr i \<longrightarrow> (\<exists>j. i = order_id_to_string j \<and> \<not> is_halted (st_permissions s) (fst j) \<and>
       placed_from req owner (if rt_caller rt \<noteq> owner then Some (rt_caller rt) else None) (rt_time rt) j s (cn_state c')))"
  using add_limit_order_returns [OF reachable_alive [OF assms(1-4)] assms(5,6), of req] unfolding s_def owner_def .

theorem order_placed_exactly_witness:
  "\<exists>c' j. api_add_limit_order ex_biguint ex_request (ex_rt 5) (sy_canister ex_exchange) = Some (Inr (order_id_to_string j), c') \<and>
    placed_from ex_request 5 None 7 j (cn_state (sy_canister ex_exchange)) (cn_state c')"
proof -
  let ?c = "sy_canister ex_exchange"
  have owner: "effective_account (cn_state ?c) 5 = 5"
    by (simp add: ex_exchange_def ex_traded_def effective_account_def ex_funded_def registry_lookup_def user_registry_new_def effective_principal_def)
  have allowed: "caller_is_allowed (st_mode (cn_state ?c)) (ex_rt 5)"
    by (simp add: caller_is_allowed_def ex_exchange_def ex_traded_def ex_funded_def ex_listed_def ex_state_def)
  have rt: "rt_caller (ex_rt 5) = 5" "rt_time (ex_rt 5) = 7" by (simp_all add: ex_rt_def)
  obtain r c' where r: "api_add_limit_order ex_biguint ex_request (ex_rt 5) ?c = Some (r, c')"
      "\<forall>i. r = Inr i \<longrightarrow> (\<exists>j. i = order_id_to_string j \<and> \<not> is_halted (st_permissions (cn_state ?c)) (fst j) \<and>
         placed_from ex_request 5 (if 5 \<noteq> (5 :: nat) then Some 5 else None) 7 j (cn_state ?c) (cn_state c'))"
    using order_placed_exactly [OF ex_exchange_reached ex_exchange_log ex_exchange_deposited _ ex_biguint_ok allowed, of ex_request,
        unfolded rt owner] by auto
  have "\<not> is_halted (st_permissions (cn_state ?c)) 0"
    by (simp add: ex_exchange_def ex_traded_def ex_funded_def ex_listed_def ex_state_def is_halted_def permissions_default_def)
  then have "r \<noteq> Inl e" for e
    using r(1) ex_second_order allowed
    by (auto simp: api_add_limit_order_def assert_caller_is_allowed_def ex_pending rt owner permit_trading_def Let_def trap_simps)
       (auto simp: ex_request_def trap_simps)
  then obtain i where "r = Inr i" by (cases r) auto
  then show ?thesis using r by fastforce
qed

text \<open>C14. Answers of ledgers are booked, whatever they are and whatever happened since the call was made. A deposit that
  its ledger confirms returns the block, credits exactly the amount to the caller, and is logged; one that fails
  changes nothing. A withdrawal that its ledger confirms, at the cached fee or at the fee the ledger asked for, returns
  the block and is logged, with no balance touched; one that fails for any reason returns an error and exactly the
  amount is credited back to the caller. In every case the operation is no longer in flight. The bounds: the supply
  that passes through the canister stays below \<open>2 ^ 256\<close> units of the token, and block indices fit in 64 bits.\<close>

theorem ledger_answers_booked:
  fixes ledger :: ledger_answers
  assumes "reachable pc big arg y" "length (cn_log (sy_canister y)) \<le> 2 ^ 64" "deposited t (cn_log (sy_canister y)) + q2n a < 2 ^ 256"
    and block: "\<forall>n amount fee block. ledger n amount fee = Block block \<longrightarrow> block < 2 ^ 64"
  shows "(DepositCall (rt_caller rt) t a \<in> set (sy_calls y) \<longrightarrow>
      (\<exists>r c'. deposit_finish t a answer rt (sy_canister y) = Some (r, c') \<and>
        deposit_booked (rt_caller rt) t a answer (rt_time rt) (sy_canister y) r c')) \<and>
    (WithdrawCall (rt_caller rt) t a fee \<in> set (sy_calls y) \<longrightarrow>
      (\<exists>r c'. withdraw_finish t a (ledger_withdraw a fee ledger) rt (sy_canister y) = Some (r, c') \<and>
        withdrawal_booked (rt_caller rt) t a fee ledger (rt_time rt) (sy_canister y) r c'))"
proof -
  note inv = sys_inv_reachable [OF assms(1,2)]
  have "deposited t (cn_log (sy_canister y)) < 2 ^ 256" using assms(3) by linarith
  then show ?thesis using deposit_answer_booked [OF inv _ assms(3,2)] withdraw_answer_booked [OF inv _ _ assms(2), of rt t a fee ledger] block by blast
qed

theorem ledger_answers_booked_witness:
  "(\<exists>r c'. deposit_finish 2 (Quantity 0 100) (Block 3) (ex_rt 5) \<lparr>cn_state = ex_listed\<lparr>st_in_flight := {(5, 2)}\<rparr>, cn_log = ex_log1\<rparr> = Some (r, c') \<and>
      r = Inr 3 \<and> credited 5 2 100 ex_listed (cn_state c') \<and> st_in_flight (cn_state c') = {}) \<and>
   (\<exists>r c'. withdraw_finish 2 (Quantity 0 40) (ledger_withdraw (Quantity 0 40) 0 (\<lambda>_ _ _. LedgerError T_TooOld)) (ex_rt 5) (sy_canister ex_paying) =
        Some (r, c') \<and> isl r \<and> credited 5 2 40 (cn_state (sy_canister ex_paying)) (cn_state c') \<and> st_in_flight (cn_state c') = {}) \<and>
   (\<exists>r c'. withdraw_finish 2 (Quantity 0 40) (ledger_withdraw (Quantity 0 40) 0
          (\<lambda>n amount fee. if fee = 3 then Block 8 else LedgerError (T_BadFee 3))) (ex_rt 5) (sy_canister ex_paying) =
        Some (r, c') \<and> r = Inr 8 \<and> cn_log c' = ex_log4 @ [ex_event (Ev_Withdraw \<lparr>we_block_index = 8, we_user = 5, we_token = 2,
          we_amount = Quantity 0 40\<rparr>)])"
proof (intro conjI)
  let ?asks_more = "\<lambda>n amount fee. if fee = 3 then Block 8 else LedgerError (T_BadFee 3)"
  have more: "\<forall>n amount fee block. ?asks_more n amount fee = Block block \<longrightarrow> block < 2 ^ 64" by (simp split: if_splits)
  have rt: "rt_caller (ex_rt 5) = 5" "rt_time (ex_rt 5) = 7" by (simp_all add: ex_rt_def)
  have paying: "sy_calls ex_paying = [WithdrawCall 5 2 (Quantity 0 40) 0]" "cn_log (sy_canister ex_paying) = ex_log4"
      "st_in_flight (cn_state (sy_canister ex_paying)) = {(5, 2)}" by (simp_all add: ex_paying_def)
  have small: "deposited 2 (cn_log (sy_canister ex_paying)) + q2n (Quantity 0 40) < 2 ^ 256" by (simp add: ex_paying_deposited q2n_def)
  have listed: "credited 5 2 n (ex_listed\<lparr>st_in_flight := {(5, 2)}\<rparr>) s = credited 5 2 n ex_listed s" for n s
    by (simp add: credited_def heap_of_def)
  show "\<exists>r c'. deposit_finish 2 (Quantity 0 100) (Block 3) (ex_rt 5) \<lparr>cn_state = ex_listed\<lparr>st_in_flight := {(5, 2)}\<rparr>, cn_log = ex_log1\<rparr> =
      Some (r, c') \<and> r = Inr 3 \<and> credited 5 2 100 ex_listed (cn_state c') \<and> st_in_flight (cn_state c') = {}"
    using ledger_answers_booked [OF ex_deposit_open, of 2 "Quantity 0 100" "\<lambda>_ _ _. CallFailed []" "ex_rt 5" "Block 3"]
    by (auto simp: ex_log1_def ex_log0_def deposited_def ex_event_def q2n_def rt deposit_booked_def listed)
  show "\<exists>r c'. withdraw_finish 2 (Quantity 0 40) (ledger_withdraw (Quantity 0 40) 0 (\<lambda>_ _ _. LedgerError T_TooOld)) (ex_rt 5)
      (sy_canister ex_paying) = Some (r, c') \<and> isl r \<and> credited 5 2 40 (cn_state (sy_canister ex_paying)) (cn_state c') \<and>
      st_in_flight (cn_state c') = {}"
    using ledger_answers_booked [OF ex_paying_reached ex_paying_log(1) small, of "\<lambda>_ _ _. LedgerError T_TooOld" "ex_rt 5" _ 0]
    by (auto simp: rt paying withdrawal_booked_def paid_out_def q2n_def)
  show "\<exists>r c'. withdraw_finish 2 (Quantity 0 40) (ledger_withdraw (Quantity 0 40) 0
          (\<lambda>n amount fee. if fee = 3 then Block 8 else LedgerError (T_BadFee 3))) (ex_rt 5) (sy_canister ex_paying) =
        Some (r, c') \<and> r = Inr 8 \<and> cn_log c' = ex_log4 @ [ex_event (Ev_Withdraw \<lparr>we_block_index = 8, we_user = 5, we_token = 2,
          we_amount = Quantity 0 40\<rparr>)]"
    using ledger_answers_booked [where ledger = ?asks_more and rt = "ex_rt 5" and fee = 0, OF ex_paying_reached ex_paying_log(1) small more]
    by (auto simp: rt paying withdrawal_booked_def paid_out_def q2n_def ex_event_def)
qed

text \<open>C38. Listing a pair: \<open>add_trading_pair\<close> always returns while book identifiers last. It accepts exactly when no error applies:
  the caller is a controller, the tokens differ, tick and lot size are positive and fit their width, both rates are
  at most 10000 basis points, the notional bounds are positive, in order and below \<open>2 ^ 256\<close>, the pair is new, the metadata agree with those
  on file, and the scale of the base token fits in 64 bits and divides tick times lot. Then the pair has the next book identifier, an
  empty book with the requested parameters and both tokens on file, and nothing else changes. An error leaves the
  canister as it was and is true of the request and the state, with the values it carries.\<close>

theorem pair_listed_exactly:
  assumes "reachable pc big arg y" "length (cn_log (sy_canister y)) \<le> 2 ^ 64" "biguint_ok big"
    and "Suc (unat (st_next_book_id (cn_state (sy_canister y)))) < 2 ^ 64"
  defines "s \<equiv> cn_state (sy_canister y)"
  shows "\<exists>r c'. add_trading_pair big req rt (sy_canister y) = Some (r, c') \<and>
    (case r of Inl e \<Rightarrow> c' = sy_canister y \<and> listing_error_true req rt s e
     | Inr _ \<Rightarrow> (\<forall>e. \<not> listing_error_true req rt s e) \<and> listed_from req s (cn_state c'))"
proof -
  have "heap_ok (cn_state (sy_canister y))" using sys_inv_reachable [OF assms(1,2)] by (simp add: sys_inv_def)
  then show ?thesis unfolding s_def by (rule add_trading_pair_returns [OF _ assms(4,3)])
qed

theorem pair_listed_exactly_witness:
  "(\<exists>c'. add_trading_pair ex_biguint ex_pair_request (ex_rt 9) \<lparr>cn_state = ex_state\<lparr>st_permissions := permissions_default\<rparr>, cn_log = ex_log0\<rparr> =
      Some (Inr (), c') \<and> listed_from ex_pair_request (ex_state\<lparr>st_permissions := permissions_default\<rparr>) (cn_state c') \<and>
      bt_get (st_books (cn_state c')) 0 = Some (requested_book ex_pair_request 0)) \<and>
   (\<exists>e. add_trading_pair ex_biguint ex_pair_request (ex_rt 9) \<lparr>cn_state = ex_listed, cn_log = ex_log1\<rparr> =
     Some (Inl e, \<lparr>cn_state = ex_listed, cn_log = ex_log1\<rparr>) \<and> listing_error_true ex_pair_request (ex_rt 9) ex_listed e)"
proof (intro conjI)
  have zero: "st_next_book_id ex_state = 0" by (simp add: ex_state_def)
  show "\<exists>c'. add_trading_pair ex_biguint ex_pair_request (ex_rt 9) \<lparr>cn_state = ex_state\<lparr>st_permissions := permissions_default\<rparr>, cn_log = ex_log0\<rparr> =
      Some (Inr (), c') \<and> listed_from ex_pair_request (ex_state\<lparr>st_permissions := permissions_default\<rparr>) (cn_state c') \<and>
      bt_get (st_books (cn_state c')) 0 = Some (requested_book ex_pair_request 0)"
    using pair_listed_exactly [OF ex_init_reached _ ex_biguint_ok, of ex_pair_request "ex_rt 9"] ex_pair_added
    by (simp add: ex_log0_def zero) (simp add: listed_from_def Let_def zero)
  have "st_next_book_id ex_listed = 1" "length ex_log1 \<le> 2 ^ 64" by (simp_all add: ex_listed_def ex_log1_def ex_log0_def)
  moreover have "listing_error_true ex_pair_request (ex_rt 9) ex_listed TradingPairAlreadyExists"
    by (simp add: listing_error_true_def ex_listed_def ex_pair_request_def get_book_id_def)
  ultimately show "\<exists>e. add_trading_pair ex_biguint ex_pair_request (ex_rt 9) \<lparr>cn_state = ex_listed, cn_log = ex_log1\<rparr> =
     Some (Inl e, \<lparr>cn_state = ex_listed, cn_log = ex_log1\<rparr>) \<and> listing_error_true ex_pair_request (ex_rt 9) ex_listed e"
    using pair_listed_exactly [OF ex_listed_reached _ ex_biguint_ok, of ex_pair_request "ex_rt 9"] by (auto split: sum.splits) (metis obj_sumE old.unit.exhaust)
qed

text \<open>An upgrade changes nothing: with no ledger call open, writing the snapshot, reading it back and
  restarting without an upgrade argument gives the very same canister, pending settlement included.\<close>

theorem upgrade_is_identity:
  assumes "reachable pc big arg y" "length (cn_log (sy_canister y)) \<le> 2 ^ 64" "sy_calls y = []"
  defines "s \<equiv> cn_state (sy_canister y)"
  shows "post_upgrade None now (from_state s) (st_orders s) (st_trades s) (tb_balances (st_balances s)) (st_registry s)
    (cn_log (sy_canister y)) = Some (sy_canister y)"
proof -
  have inv: "heap_ok s" "calls_ok y" using sys_inv_reachable [OF assms(1,2)] by (simp_all add: sys_inv_def s_def)
  then have "st_in_flight s = {}" using assms(3) by (simp add: calls_ok_def Let_def s_def)
  moreover have "st_tasks s = {}" using reachable_idle [OF assms(1)] by (simp add: s_def)
  ultimately have "s\<lparr>st_tasks := {}, st_in_flight := {}\<rparr> = s" by (intro trade_state.equality) simp_all
  then show ?thesis using state_snapshot_roundtrip [OF inv(1)] by (simp add: post_upgrade_def) (simp add: s_def)
qed

end
