(* ===== verification/Public_Types.thy ===== *)
theory Public_Types
  imports Text Trade_State
begin

text \<open>
  The public data of the Candid interface (\<open>libs/types/src/lib.rs\<close>), the conversions into it
  (\<open>order/history/mod.rs\<close>, \<open>order/trades/mod.rs\<close>) and its \<open>Display\<close> texts. Enumerations that the
  interface declares a second time with the same variants (\<open>Side\<close>, \<open>TimeInForce\<close>, \<open>OrderStatus\<close>,
  \<open>PairToken\<close>) and the one-field wrappers of a principal are the types of the order component.
\<close>

section \<open>Texts of the enumerations\<close>

definition side_debug :: "side \<Rightarrow> string" where
  "side_debug s = (case s of Buy \<Rightarrow> ''Buy'' | Sell \<Rightarrow> ''Sell'')"

definition time_in_force_debug :: "time_in_force \<Rightarrow> string" where
  "time_in_force_debug t = (case t of GoodTilCanceled \<Rightarrow> ''GoodTilCanceled'' | FillOrKill \<Rightarrow> ''FillOrKill'')"

definition order_status_debug :: "order_status \<Rightarrow> string" where
  "order_status_debug s =
     (case s of Pending \<Rightarrow> ''Pending'' | Open \<Rightarrow> ''Open'' | Filled \<Rightarrow> ''Filled'' | Canceled \<Rightarrow> ''Canceled''
      | Expired \<Rightarrow> ''Expired'')"

definition trading_pair_text :: "text_ops \<Rightarrow> trading_pair \<Rightarrow> string" where
  "trading_pair_text tx pair = principal_text tx (tp_base pair) @ ''/'' @ principal_text tx (tp_quote pair)"

definition token_id_text :: "text_ops \<Rightarrow> token_id \<Rightarrow> string" where
  "token_id_text tx token = principal_text tx token"

section \<open>Orders\<close>

definition limit_order_request_text :: "text_ops \<Rightarrow> limit_order_request \<Rightarrow> string" where
  "limit_order_request_text tx req =
     ''LimitOrderRequest(pair='' @ trading_pair_text tx (req_pair req) @ '', side='' @ side_debug (req_side req) @
     '', price='' @ nat_text tx (req_price req) @ '', quantity='' @ nat_text tx (req_quantity req) @
     '', time_in_force='' @ option_text time_in_force_debug (req_tif req) @ '')''"

record public_order_record =
  pr_owner :: principal
  pr_side :: side
  pr_price :: nat
  pr_quantity :: nat
  pr_filled_quantity :: nat
  pr_status :: order_status
  pr_created_at :: u64
  pr_last_updated_at :: "u64 option"
  pr_time_in_force :: time_in_force
  pr_filled_quote :: nat
  pr_filled_fee :: nat
  pr_placed_by :: "principal option"
  pr_canceled_by :: "principal option"

definition order_record_public :: "order_record \<Rightarrow> public_order_record" where
  "order_record_public r =
     \<lparr>pr_owner = or_owner r, pr_side = or_side r, pr_price = unat (or_price r), pr_quantity = to_nat (or_quantity r),
      pr_filled_quantity = to_nat (or_filled_quantity r), pr_status = or_status r, pr_created_at = or_created_at r,
      pr_last_updated_at = or_last_updated_at r, pr_time_in_force = or_time_in_force r,
      pr_filled_quote = to_nat (or_filled_quote r), pr_filled_fee = to_nat (or_filled_fee r),
      pr_placed_by = or_placed_by r, pr_canceled_by = or_canceled_by r\<rparr>"

definition order_record_text :: "text_ops \<Rightarrow> public_order_record \<Rightarrow> string" where
  "order_record_text tx r =
     ''OrderRecord(owner='' @ principal_text tx (pr_owner r) @ '', side='' @ side_debug (pr_side r) @
     '', price='' @ nat_text tx (pr_price r) @ '', quantity='' @ nat_text tx (pr_quantity r) @
     '', filled_quantity='' @ nat_text tx (pr_filled_quantity r) @ '', status='' @ order_status_debug (pr_status r) @
     '', created_at='' @ dec_string (unat (pr_created_at r)) @
     '', last_updated_at='' @ option_text (\<lambda>t. dec_string (unat t)) (pr_last_updated_at r) @
     '', time_in_force='' @ time_in_force_debug (pr_time_in_force r) @
     '', filled_quote='' @ nat_text tx (pr_filled_quote r) @ '', filled_fee='' @ nat_text tx (pr_filled_fee r) @
     '', placed_by='' @ option_text (principal_text tx) (pr_placed_by r) @
     '', canceled_by='' @ option_text (principal_text tx) (pr_canceled_by r) @ '')''"

record user_order =
  uo_id :: string
  uo_pair :: trading_pair
  uo_order :: public_order_record

section \<open>Trades\<close>

record public_trade =
  pt_id :: string
  pt_order_id :: string
  pt_side :: side
  pt_price :: nat
  pt_quantity :: nat
  pt_notional :: nat
  pt_fee :: nat
  pt_fee_token :: pair_token
  pt_is_maker :: bool
  pt_timestamp :: u64

definition trade_into_public :: "trade_id \<Rightarrow> trade_record \<Rightarrow> public_trade" where
  "trade_into_public i t =
     \<lparr>pt_id = trade_id_to_string i, pt_order_id = order_id_to_string (fst i), pt_side = tr_side t,
      pt_price = unat (tr_price t), pt_quantity = to_nat (tr_quantity t), pt_notional = to_nat (tr_notional t),
      pt_fee = to_nat (tr_fee t), pt_fee_token = tr_fee_token t, pt_is_maker = tr_is_maker t,
      pt_timestamp = tr_timestamp t\<rparr>"

section \<open>Deposits and withdrawals\<close>

record deposit_request =
  dr_token :: token_id
  dr_amount :: nat

record withdraw_request =
  wr_token :: token_id
  wr_amount :: nat

definition deposit_request_text :: "text_ops \<Rightarrow> deposit_request \<Rightarrow> string" where
  "deposit_request_text tx req =
     ''DepositRequest(token_id='' @ token_id_text tx (dr_token req) @ '', amount='' @ nat_text tx (dr_amount req) @ '')''"

definition withdraw_request_text :: "text_ops \<Rightarrow> withdraw_request \<Rightarrow> string" where
  "withdraw_request_text tx req =
     ''WithdrawRequest(token_id='' @ token_id_text tx (wr_token req) @ '', amount='' @ nat_text tx (wr_amount req) @ '')''"

section \<open>Nothing is lost\<close>

lemma unat_inject_u128 [simp]: "unat (a :: u128) = unat b \<longleftrightarrow> a = b"
  by (simp add: word_eq_iff_unat)

lemma unat_inject_u64 [simp]: "unat (a :: u64) = unat b \<longleftrightarrow> a = b"
  by (simp add: word_eq_iff_unat)

lemma to_nat_inject [simp]: "to_nat a = to_nat b \<longleftrightarrow> a = b"
  by (simp add: to_nat_eq)

lemma order_record_public_inject: "order_record_public r = order_record_public r' \<longleftrightarrow> r = r'"
  by (auto simp: order_record_public_def intro: order_record.equality)

end
