(* ===== verification/Public_Errors.thy ===== *)
theory Public_Errors
  imports Public_Types Api
begin

text \<open>
  The user-facing errors (\<open>libs/types/src/error/mod.rs\<close>): a disposition with a leaf, and an advisory
  message that the leaf's \<open>Display\<close> gives. The conversions of the internal errors are in
  \<open>state/mod.rs\<close>, \<open>ledger/mod.rs\<close>, \<open>lib.rs\<close> and \<open>main.rs\<close>.
\<close>

section \<open>The envelope\<close>

datatype ('r, 't, 'i) error_kind =
  RequestError "'r option" | TemporaryError "'t option" | InternalError "'i option"

record ('r, 't, 'i) public_error =
  er_kind :: "('r, 't, 'i) error_kind"
  er_message :: "string option"

definition error_request :: "('r \<Rightarrow> string) \<Rightarrow> 'r \<Rightarrow> ('r, 't, 'i) public_error" where
  "error_request text leaf = \<lparr>er_kind = RequestError (Some leaf), er_message = Some (text leaf)\<rparr>"

definition error_temporary :: "('t \<Rightarrow> string) \<Rightarrow> 't \<Rightarrow> ('r, 't, 'i) public_error" where
  "error_temporary text leaf = \<lparr>er_kind = TemporaryError (Some leaf), er_message = Some (text leaf)\<rparr>"

definition error_internal :: "('i \<Rightarrow> string) \<Rightarrow> 'i \<Rightarrow> ('r, 't, 'i) public_error" where
  "error_internal text leaf = \<lparr>er_kind = InternalError (Some leaf), er_message = Some (text leaf)\<rparr>"

definition error_text :: "('r, 't, 'i) public_error \<Rightarrow> string" where
  "error_text e =
     (case er_kind e of RequestError _ \<Rightarrow> ''request'' | TemporaryError _ \<Rightarrow> ''temporary'' | InternalError _ \<Rightarrow> ''internal'') @
     '' error: '' @ (case er_message e of None \<Rightarrow> ''<no detail>'' | Some m \<Rightarrow> m)"

text \<open>\<open>Never\<close> has no value. HOL types are inhabited, so it is a type without constructors: nothing in
  the model can build a leaf of it.\<close>

typedecl never

section \<open>Leaves and their texts\<close>

datatype add_limit_order_request_error =
    ALR_AmountExceedsMaximum
  | ALR_UnknownTradingPair
  | ALR_InvalidPrice nat nat
  | ALR_InvalidQuantity nat nat
  | ALR_InsufficientBalance token_id nat nat
  | ALR_InvalidNotional nat nat "nat option"

definition invalid_notional_message :: "text_ops \<Rightarrow> nat \<Rightarrow> nat \<Rightarrow> nat option \<Rightarrow> string" where
  "invalid_notional_message tx notional lo hi =
     (case hi of
        Some hi' \<Rightarrow> ''notional '' @ nat_text tx notional @ '' is outside the allowed range ['' @ nat_text tx lo @ '', '' @
          nat_text tx hi' @ '']''
      | None \<Rightarrow> ''notional '' @ nat_text tx notional @ '' is below the minimum '' @ nat_text tx lo)"

definition add_limit_order_request_text :: "text_ops \<Rightarrow> add_limit_order_request_error \<Rightarrow> string" where
  "add_limit_order_request_text tx e =
     (case e of
        ALR_AmountExceedsMaximum \<Rightarrow> ''the amount exceeds the maximum supported value''
      | ALR_UnknownTradingPair \<Rightarrow> ''the requested trading pair is not registered''
      | ALR_InvalidPrice p tick \<Rightarrow>
          ''price '' @ nat_text tx p @ '' is not a positive multiple of tick size '' @ nat_text tx tick
      | ALR_InvalidQuantity q lot \<Rightarrow>
          ''quantity '' @ nat_text tx q @ '' is not a positive multiple of lot size '' @ nat_text tx lot
      | ALR_InsufficientBalance token available required \<Rightarrow>
          ''insufficient balance for token '' @ principal_text tx token @ '': available '' @ nat_text tx available @
          '', required '' @ nat_text tx required
      | ALR_InvalidNotional notional lo hi \<Rightarrow> invalid_notional_message tx notional lo hi)"

datatype add_limit_order_temporary_error = ALT_TradingHalted

definition add_limit_order_temporary_text :: "add_limit_order_temporary_error \<Rightarrow> string" where
  "add_limit_order_temporary_text e = (case e of ALT_TradingHalted \<Rightarrow> ''trading is halted; no new orders are accepted'')"

datatype cancel_limit_order_request_error =
  CLR_InvalidOrderId | CLR_OrderNotFound | CLR_NotOrderOwner | CLR_OrderAlreadyTerminal

definition cancel_limit_order_request_text :: "cancel_limit_order_request_error \<Rightarrow> string" where
  "cancel_limit_order_request_text e =
     (case e of
        CLR_InvalidOrderId \<Rightarrow> ''the supplied order id is not a well-formed order id''
      | CLR_OrderNotFound \<Rightarrow> ''no order with the given id exists''
      | CLR_NotOrderOwner \<Rightarrow> ''the caller does not own the order''
      | CLR_OrderAlreadyTerminal \<Rightarrow> ''the order has reached a terminal state and can no longer be canceled'')"

datatype get_my_orders_request_error = GOR_InvalidOrderId | GOR_OrderNotFound

definition get_my_orders_request_text :: "get_my_orders_request_error \<Rightarrow> string" where
  "get_my_orders_request_text e =
     (case e of
        GOR_InvalidOrderId \<Rightarrow> ''the supplied order id is not a well-formed order id''
      | GOR_OrderNotFound \<Rightarrow> ''no order with the given id exists for the caller'')"

datatype deposit_request_error =
    DPR_AmountExceedsMaximum
  | DPR_UnsupportedToken token_id
  | DPR_InsufficientFunds nat
  | DPR_InsufficientAllowance nat
  | DPR_TradingAccountForbidden

definition deposit_request_error_text :: "text_ops \<Rightarrow> deposit_request_error \<Rightarrow> string" where
  "deposit_request_error_text tx e =
     (case e of
        DPR_AmountExceedsMaximum \<Rightarrow> ''the amount exceeds the maximum supported value''
      | DPR_UnsupportedToken token \<Rightarrow> ''token '' @ principal_text tx token @ '' is not supported''
      | DPR_InsufficientFunds balance \<Rightarrow> ''insufficient funds: balance '' @ nat_text tx balance
      | DPR_InsufficientAllowance allowance \<Rightarrow> ''insufficient allowance: '' @ nat_text tx allowance
      | DPR_TradingAccountForbidden \<Rightarrow> ''a trading account cannot deposit'')"

datatype deposit_temporary_error =
  DPT_OperationInProgress | DPT_LedgerTemporarilyUnavailable | DPT_CallFailed principal string string

definition deposit_temporary_error_text :: "text_ops \<Rightarrow> deposit_temporary_error \<Rightarrow> string" where
  "deposit_temporary_error_text tx e =
     (case e of
        DPT_OperationInProgress \<Rightarrow> ''another deposit or withdrawal is already in flight''
      | DPT_LedgerTemporarilyUnavailable \<Rightarrow> ''the token ledger is temporarily unavailable''
      | DPT_CallFailed ledger meth reason \<Rightarrow>
          ''call to '' @ principal_text tx ledger @ ''.'' @ meth @ '' failed: '' @ reason)"

datatype deposit_internal_error = DPI_LedgerError string | DPI_CandidDecodeFailed principal string string

definition deposit_internal_error_text :: "text_ops \<Rightarrow> deposit_internal_error \<Rightarrow> string" where
  "deposit_internal_error_text tx e =
     (case e of
        DPI_LedgerError reason \<Rightarrow> ''ledger error: '' @ reason
      | DPI_CandidDecodeFailed ledger meth reason \<Rightarrow>
          ''failed to decode the response from '' @ principal_text tx ledger @ ''.'' @ meth @ '': '' @ reason)"

datatype withdraw_request_error =
    WDR_AmountExceedsMaximum
  | WDR_AmountTooSmall nat
  | WDR_UnsupportedToken token_id
  | WDR_InsufficientBalance nat
  | WDR_TradingAccountForbidden

definition withdraw_request_error_text :: "text_ops \<Rightarrow> withdraw_request_error \<Rightarrow> string" where
  "withdraw_request_error_text tx e =
     (case e of
        WDR_AmountExceedsMaximum \<Rightarrow> ''the amount exceeds the maximum supported value''
      | WDR_AmountTooSmall min_amount \<Rightarrow> ''the amount is too small; the minimum withdrawal is '' @ nat_text tx min_amount
      | WDR_UnsupportedToken token \<Rightarrow> ''token '' @ principal_text tx token @ '' is not supported''
      | WDR_InsufficientBalance available \<Rightarrow> ''insufficient free balance: available '' @ nat_text tx available
      | WDR_TradingAccountForbidden \<Rightarrow> ''a trading account cannot withdraw'')"

datatype withdraw_temporary_error =
    WDT_OperationInProgress
  | WDT_LedgerTemporarilyUnavailable
  | WDT_CallFailed principal string string
  | WDT_LedgerFeeChanged

definition withdraw_temporary_error_text :: "text_ops \<Rightarrow> withdraw_temporary_error \<Rightarrow> string" where
  "withdraw_temporary_error_text tx e =
     (case e of
        WDT_OperationInProgress \<Rightarrow> ''another deposit or withdrawal is already in flight''
      | WDT_LedgerTemporarilyUnavailable \<Rightarrow> ''the token ledger is temporarily unavailable''
      | WDT_CallFailed ledger meth reason \<Rightarrow>
          ''call to '' @ principal_text tx ledger @ ''.'' @ meth @ '' failed: '' @ reason
      | WDT_LedgerFeeChanged \<Rightarrow> ''the ledger fee changed before the transfer was applied'')"

datatype withdraw_internal_error =
    WDI_LedgerError string
  | WDI_LedgerInsufficientFunds nat
  | WDI_CandidDecodeFailed principal string string

definition withdraw_internal_error_text :: "text_ops \<Rightarrow> withdraw_internal_error \<Rightarrow> string" where
  "withdraw_internal_error_text tx e =
     (case e of
        WDI_LedgerError reason \<Rightarrow> ''ledger error: '' @ reason
      | WDI_LedgerInsufficientFunds balance \<Rightarrow>
          ''ledger reported insufficient funds (balance '' @ nat_text tx balance @ '') against OISY TRADE's own accounting''
      | WDI_CandidDecodeFailed ledger meth reason \<Rightarrow>
          ''failed to decode the response from '' @ principal_text tx ledger @ ''.'' @ meth @ '': '' @ reason)"

datatype get_order_book_ticker_request_error = OTR_UnknownTradingPair

definition get_order_book_ticker_request_text :: "get_order_book_ticker_request_error \<Rightarrow> string" where
  "get_order_book_ticker_request_text e =
     (case e of OTR_UnknownTradingPair \<Rightarrow> ''the requested trading pair is not registered'')"

datatype get_order_book_depth_request_error = ODR_UnknownTradingPair | ODR_LimitTooLarge u32 u32

definition get_order_book_depth_request_text :: "get_order_book_depth_request_error \<Rightarrow> string" where
  "get_order_book_depth_request_text e =
     (case e of
        ODR_UnknownTradingPair \<Rightarrow> ''the requested trading pair is not registered''
      | ODR_LimitTooLarge requested hi \<Rightarrow>
          ''requested depth limit '' @ dec_string (unat requested) @ '' exceeds the maximum '' @ dec_string (unat hi))"

datatype add_trading_account_request_error =
    ATR_FundingAccountNotFound
  | ATR_InvalidTradingAccount
  | ATR_NonAuthenticatingTradingAccount
  | ATR_AlreadyTradingAccount
  | ATR_TooManyTradingAccounts u32

datatype add_trading_account_temporary_error = ATT_FundingOperationInProgress | ATT_RateLimit u64

definition add_trading_account_request_text :: "add_trading_account_request_error \<Rightarrow> string" where
  "add_trading_account_request_text e =
     (case e of
        ATR_FundingAccountNotFound \<Rightarrow> ''the funding account is not a valid granter''
      | ATR_InvalidTradingAccount \<Rightarrow> ''the proposed trading account is not a valid, unregistered principal''
      | ATR_NonAuthenticatingTradingAccount \<Rightarrow> ''the proposed trading account is a non-authenticating principal''
      | ATR_AlreadyTradingAccount \<Rightarrow> ''the principal is already a trading account''
      | ATR_TooManyTradingAccounts hi \<Rightarrow>
          ''the granter already has the maximum of '' @ dec_string (unat hi) @ '' trading accounts'')"

definition add_trading_account_temporary_text :: "add_trading_account_temporary_error \<Rightarrow> string" where
  "add_trading_account_temporary_text e =
     (case e of
        ATT_FundingOperationInProgress \<Rightarrow> ''the principal has an in-flight deposit or withdrawal''
      | ATT_RateLimit retry_after \<Rightarrow> ''grant rate limit active; retry after '' @ dec_string (unat retry_after) @ '' ns'')"

datatype remove_trading_account_request_error = RTR_NotAllowed

definition remove_trading_account_request_text :: "remove_trading_account_request_error \<Rightarrow> string" where
  "remove_trading_account_request_text e = (case e of RTR_NotAllowed \<Rightarrow> ''not allowed to remove this trading account'')"

datatype get_my_trades_request_error = GTR_InvalidOrderId | GTR_InvalidTradeId | GTR_OrderNotFound

definition get_my_trades_request_text :: "get_my_trades_request_error \<Rightarrow> string" where
  "get_my_trades_request_text e =
     (case e of
        GTR_InvalidOrderId \<Rightarrow> ''the supplied order id is not a well-formed order id''
      | GTR_InvalidTradeId \<Rightarrow> ''the supplied cursor is not a well-formed trade id''
      | GTR_OrderNotFound \<Rightarrow> ''no order with the given id exists for the caller'')"

datatype get_balances_request_error = GBR_TokenNotSupported token_id | GBR_FilterTooLarge u32 u32

text \<open>\<open>{0:?}\<close> of \<open>FilterToken::ById\<close> is the derived \<open>Debug\<close> of the variant and of \<open>TokenId\<close>.\<close>

definition get_balances_request_text :: "text_ops \<Rightarrow> get_balances_request_error \<Rightarrow> string" where
  "get_balances_request_text tx e =
     (case e of
        GBR_TokenNotSupported token \<Rightarrow>
          ''the filter referenced an unsupported token ById(TokenId { ledger_id: '' @ principal_debug tx token @ '' })''
      | GBR_FilterTooLarge len hi \<Rightarrow>
          ''the filter has '' @ dec_string (unat len) @ '' entries, exceeding the maximum '' @ dec_string (unat hi))"

section \<open>Conversions\<close>

type_synonym public_add_limit_order_error =
  "(add_limit_order_request_error, add_limit_order_temporary_error, never) public_error"
type_synonym public_deposit_error = "(deposit_request_error, deposit_temporary_error, deposit_internal_error) public_error"
type_synonym public_withdraw_error =
  "(withdraw_request_error, withdraw_temporary_error, withdraw_internal_error) public_error"
type_synonym public_add_trading_account_error =
  "(add_trading_account_request_error, add_trading_account_temporary_error, never) public_error"
type_synonym 'r request_only_error = "('r, never, never) public_error"

definition add_limit_order_error_public :: "text_ops \<Rightarrow> add_limit_order_error \<Rightarrow> public_add_limit_order_error" where
  "add_limit_order_error_public tx e =
     (let req = error_request (add_limit_order_request_text tx)
      in case e of
           AmountExceedsMaximum \<Rightarrow> req ALR_AmountExceedsMaximum
         | UnknownTradingPair \<Rightarrow> req ALR_UnknownTradingPair
         | InvalidOrder (InvalidTickSize p tick) \<Rightarrow> req (ALR_InvalidPrice (unat p) (unat tick))
         | InvalidOrder (InvalidLotSize q lot) \<Rightarrow> req (ALR_InvalidQuantity (to_nat q) (unat lot))
         | InsufficientBalance token available required \<Rightarrow>
             req (ALR_InsufficientBalance token (to_nat available) (to_nat required))
         | InvalidNotional notional lo hi \<Rightarrow>
             req (ALR_InvalidNotional (to_nat notional) (to_nat lo) (map_option to_nat hi))
         | TradingHalted \<Rightarrow> error_temporary add_limit_order_temporary_text ALT_TradingHalted)"

text \<open>An unparsable identifier is an error of the endpoint, the others come from the state.\<close>

definition cancel_limit_order_error_public :: "api_cancel_error \<Rightarrow> cancel_limit_order_request_error request_only_error" where
  "cancel_limit_order_error_public e =
     error_request cancel_limit_order_request_text
       (case e of
          InvalidOrderId \<Rightarrow> CLR_InvalidOrderId
        | CancelError OrderNotFound \<Rightarrow> CLR_OrderNotFound
        | CancelError NotOrderOwner \<Rightarrow> CLR_NotOrderOwner
        | CancelError OrderAlreadyTerminal \<Rightarrow> CLR_OrderAlreadyTerminal)"

definition remove_trading_account_error_public :: "revoke_error \<Rightarrow> remove_trading_account_request_error request_only_error" where
  "remove_trading_account_error_public e =
     (case e of NotAllowed \<Rightarrow> error_request remove_trading_account_request_text RTR_NotAllowed)"

text \<open>Several reasons share a leaf; the message is written per reason, not taken from the leaf.\<close>

definition add_trading_account_error_public :: "add_trading_account_error \<Rightarrow> public_add_trading_account_error" where
  "add_trading_account_error_public e =
     (let (kind, message) =
        (case e of
           AT_Grant GranterNotRegistered \<Rightarrow>
             (RequestError (Some ATR_FundingAccountNotFound), ''the funding account is not a registered user'')
         | AT_Grant GranterIsTradingAccount \<Rightarrow>
             (RequestError (Some ATR_FundingAccountNotFound), ''the funding account is itself a trading account'')
         | AT_Grant SelfGrant \<Rightarrow>
             (RequestError (Some ATR_InvalidTradingAccount), ''a funding account cannot whitelist itself'')
         | AT_Grant NonAuthenticatingTradingAccount \<Rightarrow>
             (RequestError (Some ATR_NonAuthenticatingTradingAccount),
              ''the proposed trading account is a non-authenticating principal'')
         | AT_Grant AlreadyRegisteredUser \<Rightarrow>
             (RequestError (Some ATR_InvalidTradingAccount), ''the proposed trading account is already a registered user'')
         | AT_Grant AlreadyTradingAccount \<Rightarrow>
             (RequestError (Some ATR_AlreadyTradingAccount), ''the principal is already a trading account'')
         | AT_Grant TooManyTradingAccounts \<Rightarrow>
             (RequestError (Some (ATR_TooManyTradingAccounts (of_nat MAX_TRADING_ACCOUNTS_PER_USER))),
              ''the granter already has the maximum number of trading accounts'')
         | AT_FundingOperationInProgress \<Rightarrow>
             (TemporaryError (Some ATT_FundingOperationInProgress),
              ''the trading account has an in-flight deposit or withdrawal'')
         | AT_Grant (CooldownActive retry_after) \<Rightarrow>
             (TemporaryError (Some (ATT_RateLimit retry_after)),
              ''the grant cooldown has not elapsed since the previous grant''))
      in \<lparr>er_kind = kind, er_message = Some message\<rparr>)"

text \<open>The errors of a deposit: those of the endpoint, and those of \<open>ledger::deposit\<close> and
  \<open>to_ledger_error\<close> with the ledger that was called.\<close>

definition deposit_error_public :: "text_ops \<Rightarrow> token_id \<Rightarrow> deposit_error \<Rightarrow> public_deposit_error" where
  "deposit_error_public tx token e =
     (let req = error_request (deposit_request_error_text tx);
          tmp = error_temporary (deposit_temporary_error_text tx);
          internal = error_internal (deposit_internal_error_text tx)
      in case e of
           D_AmountExceedsMaximum \<Rightarrow> req DPR_AmountExceedsMaximum
         | D_UnsupportedToken \<Rightarrow> req (DPR_UnsupportedToken token)
         | D_TradingAccountForbidden \<Rightarrow> req DPR_TradingAccountForbidden
         | D_OperationInProgress \<Rightarrow> tmp DPT_OperationInProgress
         | D_CallFailed reason \<Rightarrow> tmp (DPT_CallFailed token ''icrc2_transfer_from'' reason)
         | D_DecodeFailed reason \<Rightarrow> internal (DPI_CandidDecodeFailed token ''icrc2_transfer_from'' reason)
         | D_InsufficientFunds balance \<Rightarrow> req (DPR_InsufficientFunds balance)
         | D_InsufficientAllowance allowance \<Rightarrow> req (DPR_InsufficientAllowance allowance)
         | D_LedgerTemporarilyUnavailable \<Rightarrow> tmp DPT_LedgerTemporarilyUnavailable
         | D_LedgerError err \<Rightarrow> internal (DPI_LedgerError (transfer_from_error_text tx err)))"

definition withdraw_error_public :: "text_ops \<Rightarrow> token_id \<Rightarrow> withdraw_error \<Rightarrow> public_withdraw_error" where
  "withdraw_error_public tx token e =
     (let req = error_request (withdraw_request_error_text tx);
          tmp = error_temporary (withdraw_temporary_error_text tx);
          internal = error_internal (withdraw_internal_error_text tx)
      in case e of
           W_AmountExceedsMaximum \<Rightarrow> req WDR_AmountExceedsMaximum
         | W_UnsupportedToken \<Rightarrow> req (WDR_UnsupportedToken token)
         | W_AmountTooSmall min_amount \<Rightarrow> req (WDR_AmountTooSmall min_amount)
         | W_TradingAccountForbidden \<Rightarrow> req WDR_TradingAccountForbidden
         | W_OperationInProgress \<Rightarrow> tmp WDT_OperationInProgress
         | W_InsufficientBalance available \<Rightarrow> req (WDR_InsufficientBalance available)
         | W_CallFailed reason \<Rightarrow> tmp (WDT_CallFailed token ''icrc1_transfer'' reason)
         | W_DecodeFailed reason \<Rightarrow> internal (WDI_CandidDecodeFailed token ''icrc1_transfer'' reason)
         | W_LedgerInsufficientFunds balance \<Rightarrow> internal (WDI_LedgerInsufficientFunds balance)
         | W_LedgerTemporarilyUnavailable \<Rightarrow> tmp WDT_LedgerTemporarilyUnavailable
         | W_LedgerFeeChanged \<Rightarrow> tmp WDT_LedgerFeeChanged
         | W_LedgerError err \<Rightarrow> internal (WDI_LedgerError (transfer_error_text tx err)))"

definition depth_error_public :: "depth_error \<Rightarrow> get_order_book_depth_request_error request_only_error" where
  "depth_error_public e =
     error_request get_order_book_depth_request_text
       (case e of
          LimitTooLarge requested hi \<Rightarrow> ODR_LimitTooLarge requested hi
        | Depth_UnknownTradingPair \<Rightarrow> ODR_UnknownTradingPair)"

definition get_my_orders_error_public :: "get_my_orders_error \<Rightarrow> get_my_orders_request_error request_only_error" where
  "get_my_orders_error_public e =
     error_request get_my_orders_request_text
       (case e of GO_InvalidOrderId _ \<Rightarrow> GOR_InvalidOrderId | GO_OrderNotFound \<Rightarrow> GOR_OrderNotFound)"

definition get_my_trades_error_public :: "get_my_trades_error \<Rightarrow> get_my_trades_request_error request_only_error" where
  "get_my_trades_error_public e =
     error_request get_my_trades_request_text
       (case e of
          GM_InvalidOrderId _ \<Rightarrow> GTR_InvalidOrderId
        | GM_InvalidTradeId _ \<Rightarrow> GTR_InvalidTradeId
        | GM_OrderNotFound \<Rightarrow> GTR_OrderNotFound)"

definition get_balances_error_public :: "text_ops \<Rightarrow> get_balances_error \<Rightarrow> get_balances_request_error request_only_error" where
  "get_balances_error_public tx e =
     error_request (get_balances_request_text tx)
       (case e of
          FilterTooLarge len hi \<Rightarrow> GBR_FilterTooLarge len hi
        | TokenNotSupported token \<Rightarrow> GBR_TokenNotSupported token)"

section \<open>What is logged\<close>

definition should_log_deposit_error :: "public_deposit_error \<Rightarrow> bool" where
  "should_log_deposit_error e \<longleftrightarrow>
     (case er_kind e of
        InternalError _ \<Rightarrow> True
      | TemporaryError (Some leaf) \<Rightarrow>
          (case leaf of
             DPT_LedgerTemporarilyUnavailable \<Rightarrow> True
           | DPT_CallFailed _ _ _ \<Rightarrow> True
           | DPT_OperationInProgress \<Rightarrow> False)
      | TemporaryError None \<Rightarrow> False
      | RequestError _ \<Rightarrow> False)"

definition should_log_withdraw_error :: "public_withdraw_error \<Rightarrow> bool" where
  "should_log_withdraw_error e \<longleftrightarrow>
     (case er_kind e of
        InternalError _ \<Rightarrow> True
      | TemporaryError (Some leaf) \<Rightarrow>
          (case leaf of
             WDT_LedgerTemporarilyUnavailable \<Rightarrow> True
           | WDT_CallFailed _ _ _ \<Rightarrow> True
           | WDT_LedgerFeeChanged \<Rightarrow> True
           | WDT_OperationInProgress \<Rightarrow> False)
      | TemporaryError None \<Rightarrow> False
      | RequestError _ \<Rightarrow> False)"

section \<open>The contract of the envelope\<close>

text \<open>
  The interface that every endpoint's errors share: they are built by the three constructors, so
  that the disposition always has its leaf and the message is the leaf's text.
\<close>

locale error_envelope =
  fixes public :: "'e \<Rightarrow> ('r, 't, 'i) public_error"
    and request_text :: "'r \<Rightarrow> string"
    and temporary_text :: "'t \<Rightarrow> string"
    and internal_text :: "'i \<Rightarrow> string"
  assumes built: "(\<exists>l. public e = error_request request_text l) \<or> (\<exists>l. public e = error_temporary temporary_text l) \<or>
    (\<exists>l. public e = error_internal internal_text l)"
begin

definition leaf_text :: "('r, 't, 'i) error_kind \<Rightarrow> string option" where
  "leaf_text k = (case k of RequestError l \<Rightarrow> map_option request_text l | TemporaryError l \<Rightarrow> map_option temporary_text l
     | InternalError l \<Rightarrow> map_option internal_text l)"

lemma message_is_leaf_text: "er_message (public e) = leaf_text (er_kind (public e)) \<and> er_message (public e) \<noteq> None"
  using built [of e] by (auto simp: error_request_def error_temporary_def error_internal_def leaf_text_def)

lemma kind_determines: "er_kind (public e) = er_kind (public e') \<Longrightarrow> public e = public e'"
  using message_is_leaf_text [of e] message_is_leaf_text [of e'] by (auto intro: public_error.equality)

end

lemmas envelope_defs = error_request_def error_temporary_def error_internal_def

interpretation placing: error_envelope "add_limit_order_error_public tx" "add_limit_order_request_text tx"
    add_limit_order_temporary_text "\<lambda>_. []" for tx
  by unfold_locales
     (auto simp: add_limit_order_error_public_def Let_def split: add_limit_order_error.split match_order_error.split)

interpretation canceling: error_envelope cancel_limit_order_error_public cancel_limit_order_request_text "\<lambda>_. []" "\<lambda>_. []"
  by unfold_locales (auto simp: cancel_limit_order_error_public_def)

interpretation revoking: error_envelope remove_trading_account_error_public remove_trading_account_request_text
    "\<lambda>_. []" "\<lambda>_. []"
  by unfold_locales (auto simp: remove_trading_account_error_public_def split: revoke_error.split)

interpretation depositing: error_envelope "deposit_error_public tx token" "deposit_request_error_text tx"
    "deposit_temporary_error_text tx" "deposit_internal_error_text tx" for tx token
  by unfold_locales (auto simp: deposit_error_public_def Let_def split: deposit_error.split)

interpretation withdrawing: error_envelope "withdraw_error_public tx token" "withdraw_request_error_text tx"
    "withdraw_temporary_error_text tx" "withdraw_internal_error_text tx" for tx token
  by unfold_locales (auto simp: withdraw_error_public_def Let_def split: withdraw_error.split)

interpretation depth_query: error_envelope depth_error_public get_order_book_depth_request_text "\<lambda>_. []" "\<lambda>_. []"
  by unfold_locales (auto simp: depth_error_public_def)

interpretation orders_query: error_envelope get_my_orders_error_public get_my_orders_request_text "\<lambda>_. []" "\<lambda>_. []"
  by unfold_locales (auto simp: get_my_orders_error_public_def)

interpretation trades_query: error_envelope get_my_trades_error_public get_my_trades_request_text "\<lambda>_. []" "\<lambda>_. []"
  by unfold_locales (auto simp: get_my_trades_error_public_def)

interpretation balances_query: error_envelope "get_balances_error_public tx" "get_balances_request_text tx" "\<lambda>_. []" "\<lambda>_. []"
    for tx
  by unfold_locales (auto simp: get_balances_error_public_def)

end
