(* ===== verification/Event_Export.thy ===== *)
theory Event_Export
  imports Public_Types Audit_Log
begin

text \<open>
  The event log as a debug query serves it: the reading side of \<open>storage/mod.rs\<close> and \<open>get_events\<close>
  with its nested functions (\<open>main.rs\<close>), over the public event types of
  \<open>libs/types-internal/src/event.rs\<close>. Sequence numbers and time stamps are wrapped 64-bit words, so
  \<open>get()\<close> and \<open>as_nanos()\<close> are the words themselves.
\<close>

section \<open>Reading the log\<close>

definition total_event_count :: "event list \<Rightarrow> u64" where
  "total_event_count log = of_nat (length log)"

definition get_event :: "u64 \<Rightarrow> event list \<Rightarrow> event option" where
  "get_event idx log = (if unat idx < length log then Some (log ! unat idx) else None)"

section \<open>Public events\<close>

record px_order_id =
  xo_book_id :: u64
  xo_seq :: u64

datatype px_balance_operation =
    PX_Transfer (x_from_order: u64) (x_to_order: u64) (x_token: pair_token) (x_amount: nat) (x_fee: "nat option")
  | PX_Unreserve (x_order: u64) (x_token: pair_token) (x_amount: nat)

record px_fill_event =
  xf_fill_seq :: u64
  xf_taker_order_seq :: u64
  xf_maker_order_seq :: u64
  xf_quantity :: nat
  xf_maker_fee_bps :: u16
  xf_taker_fee_bps :: u16

record px_add_trading_pair_event =
  xp_book_id :: u64
  xp_base :: token_id
  xp_quote :: token_id
  xp_tick_size :: nat
  xp_lot_size :: nat
  xp_base_metadata :: token_metadata
  xp_quote_metadata :: token_metadata
  xp_maker_fee_bps :: u16
  xp_taker_fee_bps :: u16
  xp_min_notional :: nat
  xp_max_notional :: "nat option"

record px_deposit_event =
  xd_user :: principal
  xd_token :: token_id
  xd_amount :: nat

record px_withdraw_event =
  xw_block_index :: u64
  xw_user :: principal
  xw_token :: token_id
  xw_amount :: nat

record px_add_limit_order_event =
  xl_user :: principal
  xl_order_id :: px_order_id
  xl_side :: side
  xl_price :: nat
  xl_quantity :: nat
  xl_time_in_force :: time_in_force
  xl_placed_by :: "principal option"

record px_cancel_limit_order_event =
  xc_order_id :: px_order_id
  xc_canceled_by :: "principal option"

record px_matching_event =
  xm_book_id :: u64
  xm_orders :: "u64 list"

record px_settling_event =
  xs_book_id :: u64
  xs_balance_operations :: "px_balance_operation list"
  xs_fills :: "px_fill_event list"

record px_set_halt_event =
  xh_book_ids :: "u64 list option"
  xh_halted :: bool

record px_trading_account_event =
  xt_funding :: principal
  xt_trading :: principal

datatype px_event_type =
    PX_Init init_arg
  | PX_Upgrade upgrade_arg
  | PX_AddTradingPair px_add_trading_pair_event
  | PX_Deposit px_deposit_event
  | PX_AddLimitOrder px_add_limit_order_event
  | PX_CancelLimitOrder px_cancel_limit_order_event
  | PX_Settling px_settling_event
  | PX_Matching px_matching_event
  | PX_Withdraw px_withdraw_event
  | PX_SetHalt px_set_halt_event
  | PX_AddTradingAccount px_trading_account_event
  | PX_RemoveTradingAccount px_trading_account_event

record px_event =
  xe_timestamp :: u64
  xe_payload :: px_event_type

definition map_balance_operation :: "balance_operation \<Rightarrow> px_balance_operation" where
  "map_balance_operation op =
     (case op of
        Transfer from_seq to_seq token amount fee \<Rightarrow>
          PX_Transfer from_seq to_seq token (to_nat amount) (map_option to_nat fee)
      | Unreserve seq token amount \<Rightarrow> PX_Unreserve seq token (to_nat amount))"

definition map_fill_event :: "fill_event \<Rightarrow> px_fill_event" where
  "map_fill_event f =
     \<lparr>xf_fill_seq = fe_seq f, xf_taker_order_seq = fe_taker f, xf_maker_order_seq = fe_maker f,
      xf_quantity = to_nat (fe_quantity f), xf_maker_fee_bps = maker (fe_rates f), xf_taker_fee_bps = taker (fe_rates f)\<rparr>"

definition map_order_id :: "order_id \<Rightarrow> px_order_id" where
  "map_order_id i = \<lparr>xo_book_id = fst i, xo_seq = snd i\<rparr>"

definition map_payload :: "event_type \<Rightarrow> px_event_type" where
  "map_payload payload =
     (case payload of
        Ev_Init args \<Rightarrow> PX_Init args
      | Ev_Upgrade args \<Rightarrow> PX_Upgrade args
      | Ev_AddTradingPair e \<Rightarrow> PX_AddTradingPair
          \<lparr>xp_book_id = ap_book_id e, xp_base = ap_base e, xp_quote = ap_quote e, xp_tick_size = unat (ap_tick_size e),
           xp_lot_size = unat (ap_lot_size e), xp_base_metadata = ap_base_metadata e,
           xp_quote_metadata = ap_quote_metadata e, xp_maker_fee_bps = maker (ap_fee_rates e),
           xp_taker_fee_bps = taker (ap_fee_rates e), xp_min_notional = to_nat (ap_min_notional e),
           xp_max_notional = map_option to_nat (ap_max_notional e)\<rparr>
      | Ev_Deposit e \<Rightarrow> PX_Deposit \<lparr>xd_user = de_user e, xd_token = de_token e, xd_amount = to_nat (de_amount e)\<rparr>
      | Ev_Withdraw e \<Rightarrow> PX_Withdraw
          \<lparr>xw_block_index = we_block_index e, xw_user = we_user e, xw_token = we_token e,
           xw_amount = to_nat (we_amount e)\<rparr>
      | Ev_AddLimitOrder e \<Rightarrow> PX_AddLimitOrder
          \<lparr>xl_user = ao_user e, xl_order_id = map_order_id (ao_order_id e), xl_side = ao_side e,
           xl_price = unat (ao_price e), xl_quantity = to_nat (ao_quantity e), xl_time_in_force = ao_tif e,
           xl_placed_by = ao_placed_by e\<rparr>
      | Ev_CancelLimitOrder e \<Rightarrow> PX_CancelLimitOrder
          \<lparr>xc_order_id = map_order_id (ce_order_id e), xc_canceled_by = ce_canceled_by e\<rparr>
      | Ev_Matching e \<Rightarrow> PX_Matching \<lparr>xm_book_id = me_book_id e, xm_orders = me_orders e\<rparr>
      | Ev_Settling e \<Rightarrow> PX_Settling
          \<lparr>xs_book_id = se_book_id e, xs_balance_operations = map map_balance_operation (se_operations e),
           xs_fills = map map_fill_event (se_fills e)\<rparr>
      | Ev_SetHalt e \<Rightarrow> PX_SetHalt \<lparr>xh_book_ids = sh_book_ids e, xh_halted = sh_halted e\<rparr>
      | Ev_AddTradingAccount e \<Rightarrow> PX_AddTradingAccount \<lparr>xt_funding = ta_funding e, xt_trading = ta_trading e\<rparr>
      | Ev_RemoveTradingAccount e \<Rightarrow> PX_RemoveTradingAccount \<lparr>xt_funding = ta_funding e, xt_trading = ta_trading e\<rparr>)"

definition map_event :: "event \<Rightarrow> px_event" where
  "map_event e = \<lparr>xe_timestamp = ev_timestamp e, xe_payload = map_payload (ev_payload e)\<rparr>"

section \<open>The query\<close>

definition MAX_EVENTS_PER_RESPONSE :: u64 where
  "MAX_EVENTS_PER_RESPONSE = 2000"

record get_events_args =
  ga_start :: u64
  ga_length :: u64

record get_events_result =
  gr_events :: "px_event list"
  gr_total_event_count :: u64

text \<open>\<open>usize::try_from\<close>: the canister is compiled to 32-bit WebAssembly, so an index of \<open>2 ^ 32\<close> or
  more traps.\<close>

definition usize_try_from :: "u64 \<Rightarrow> nat option" where
  "usize_try_from n = (if unat n < 2 ^ 32 then Some (unat n) else None)"

definition get_events :: "get_events_args \<Rightarrow> event list \<Rightarrow> get_events_result option" where
  "get_events args log = do {
     start \<leftarrow> usize_try_from (ga_start args);
     len \<leftarrow> usize_try_from (min (ga_length args) MAX_EVENTS_PER_RESPONSE);
     Some \<lparr>gr_events = map map_event (take len (drop start log)), gr_total_event_count = total_event_count log\<rparr>
   }"

section \<open>The export loses nothing\<close>

lemma map_option_to_nat_inject: "map_option to_nat a = map_option to_nat b \<Longrightarrow> a = b"
  by (cases a; cases b) auto

lemma map_balance_operation_inject: "map_balance_operation a = map_balance_operation b \<Longrightarrow> a = b"
  by (auto simp: map_balance_operation_def dest: map_option_to_nat_inject split: balance_operation.splits)

lemma map_fill_event_inject: "map_fill_event a = map_fill_event b \<Longrightarrow> a = b"
  by (auto simp: map_fill_event_def intro!: fill_event.equality fee_rates.equality)

lemma map_order_id_inject: "map_order_id a = map_order_id b \<Longrightarrow> a = b"
  by (simp add: map_order_id_def prod_eq_iff)

lemma map_inject: "map f xs = map f ys \<Longrightarrow> (\<And>x y. f x = f y \<Longrightarrow> x = y) \<Longrightarrow> xs = ys"
  by (metis injI list.inj_map inj_eq)

lemma add_trading_pair_inject:
  "map_payload (Ev_AddTradingPair a) = map_payload (Ev_AddTradingPair b) \<Longrightarrow> a = b"
  unfolding map_payload_def event_type.case px_event_type.inject px_add_trading_pair_event.ext_inject
  by (elim conjE, intro add_trading_pair_event.equality fee_rates.equality)
     (simp_all add: map_option_to_nat_inject unat_inject_u64)

lemma settling_inject: "map_payload (Ev_Settling a) = map_payload (Ev_Settling b) \<Longrightarrow> a = b"
  by (auto simp: map_payload_def intro!: settling_event.equality
      dest!: map_inject [OF _ map_balance_operation_inject] map_inject [OF _ map_fill_event_inject])

lemma map_payload_inject: "map_payload a = map_payload b \<Longrightarrow> a = b"
proof (cases a)
  case (Ev_AddTradingPair e)
  moreover assume "map_payload a = map_payload b"
  ultimately show ?thesis using add_trading_pair_inject by (cases b) (auto simp: map_payload_def)
next
  case (Ev_Settling e)
  moreover assume "map_payload a = map_payload b"
  ultimately show ?thesis using settling_inject by (cases b) (auto simp: map_payload_def)
qed (cases b; auto simp: map_payload_def dest: map_order_id_inject
      intro!: deposit_event.equality withdraw_event.equality add_limit_order_event.equality
        cancel_limit_order_event.equality matching_event.equality set_halt_event.equality trading_account_event.equality)+

lemma map_event_inject: "map_event a = map_event b \<Longrightarrow> a = b"
  by (auto simp: map_event_def dest: map_payload_inject intro: event.equality)

section \<open>Pages\<close>

lemma concat_pages:
  assumes "0 < n"
  shows "concat (map (\<lambda>k. take n (drop (k * n) xs)) [0..<m]) = take (m * n) xs"
proof (induction m)
  case (Suc m)
  have "take (m * n + n) xs = take (m * n) xs @ take n (drop (m * n) xs)" by (rule take_add)
  then show ?case using Suc by (simp add: add.commute)
qed simp

lemma get_events_page:
  assumes "k * 2000 < 2 ^ 32"
  shows "get_events \<lparr>ga_start = of_nat (k * 2000), ga_length = 2000\<rparr> log =
     Some \<lparr>gr_events = map map_event (take 2000 (drop (k * 2000) log)), gr_total_event_count = total_event_count log\<rparr>"
proof -
  have "unat (of_nat (k * 2000) :: u64) = k * 2000" using assms by (intro unat_of_nat_small) simp
  then show ?thesis using assms by (simp add: get_events_def usize_try_from_def MAX_EVENTS_PER_RESPONSE_def)
qed

end
