(* ===== verification/Dashboard.thy ===== *)
theory Dashboard
  imports Public_Types Heap_Invariant
begin

text \<open>
  The read-only pages for operators: the data of the HTML dashboard (\<open>dashboard/mod.rs\<close>) and the
  Prometheus metrics (\<open>metrics/mod.rs\<close>). The HTML template is filled by askama and not modelled;
  the metrics are modelled up to the conversion of a value to a floating-point number.
\<close>

section \<open>Amounts\<close>

definition DEPTH_LEVELS :: nat where
  "DEPTH_LEVELS = 20"

text \<open>\<open>{:0>width$}\<close>: zeros on the left up to a width.\<close>

definition pad_left_zeros :: "nat \<Rightarrow> string \<Rightarrow> string" where
  "pad_left_zeros width s = replicate (width - length s) CHR ''0'' @ s"

definition trim_end_zeros :: "string \<Rightarrow> string" where
  "trim_end_zeros s = rev (dropWhile (\<lambda>c. c = CHR ''0'') (rev s))"

definition format_scaled :: "string \<Rightarrow> u8 \<Rightarrow> string" where
  "format_scaled raw decimals8 =
     (let d = unat decimals8
      in if d = 0 then raw
         else let padded = pad_left_zeros (d + 1) raw;
                  cut = length padded - d;
                  frac = trim_end_zeros (drop cut padded)
              in if frac = [] then take cut padded else take cut padded @ ''.'' @ frac)"

record amount =
  am_decimal_value :: string
  am_raw_value :: string

definition amount_new :: "text_ops \<Rightarrow> nat \<Rightarrow> u8 \<Rightarrow> amount" where
  "amount_new tx raw d = \<lparr>am_decimal_value = format_scaled (biguint_text tx raw) d, am_raw_value = nat_text tx raw\<rparr>"

section \<open>Depth\<close>

record pair_decimals =
  pd_base :: u8
  pd_quote :: u8

record dashboard_level =
  dl_price :: amount
  dl_quantity :: amount

record dashboard_depth_level =
  dd_price :: amount
  dd_quantity :: amount
  dd_bar_width_percent :: u8

record dashboard_depth =
  dh_bids :: "dashboard_depth_level list"
  dh_asks :: "dashboard_depth_level list"

definition saturating_to_u128 :: "quantity \<Rightarrow> u128" where
  "saturating_to_u128 q = (if high q \<noteq> 0 then - 1 else low q)"

text \<open>Division by zero traps.\<close>

definition bar_width_percent :: "u128 \<Rightarrow> u128 \<Rightarrow> u8 option" where
  "bar_width_percent qty hi =
     (if hi = 0 then Some 0
      else do {
        percent \<leftarrow>
          (case checked_mul qty 100 of
             Some scaled \<Rightarrow> Some (scaled div hi)
           | None \<Rightarrow> do { ensure (hi div 100 \<noteq> 0); Some (qty div (hi div 100)) });
        Some (ucast (min percent 100))
      })"

definition level :: "text_ops \<Rightarrow> pair_decimals \<Rightarrow> price \<times> quantity \<Rightarrow> dashboard_level" where
  "level tx d l = \<lparr>dl_price = amount_new tx (unat (fst l)) (pd_quote d), dl_quantity = amount_new tx (to_nat (snd l)) (pd_base d)\<rparr>"

definition depth_level :: "text_ops \<Rightarrow> u128 \<Rightarrow> pair_decimals \<Rightarrow> price \<times> quantity \<Rightarrow> dashboard_depth_level option" where
  "depth_level tx hi d l = do {
     w \<leftarrow> bar_width_percent (saturating_to_u128 (snd l)) hi;
     Some \<lparr>dd_price = amount_new tx (unat (fst l)) (pd_quote d), dd_quantity = amount_new tx (to_nat (snd l)) (pd_base d),
           dd_bar_width_percent = w\<rparr>
   }"

definition depth_levels ::
  "text_ops \<Rightarrow> (price \<times> quantity) list \<Rightarrow> u128 \<Rightarrow> pair_decimals \<Rightarrow> dashboard_depth_level list option" where
  "depth_levels tx levels hi d = those (map (depth_level tx hi d) levels)"

definition depth_max :: "(price \<times> quantity) list \<Rightarrow> u128" where
  "depth_max levels = fold (\<lambda>l acc. max (saturating_to_u128 (snd l)) acc) levels 0"

definition build_depth ::
  "text_ops \<Rightarrow> (price \<times> quantity) list \<Rightarrow> (price \<times> quantity) list \<Rightarrow> pair_decimals \<Rightarrow> dashboard_depth option" where
  "build_depth tx bids asks d = do {
     let hi = depth_max (bids @ asks);
     bs \<leftarrow> depth_levels tx bids hi d;
     as \<leftarrow> depth_levels tx asks hi d;
     Some \<lparr>dh_bids = bs, dh_asks = as\<rparr>
   }"

definition depth_is_empty :: "dashboard_depth \<Rightarrow> bool" where
  "depth_is_empty d \<longleftrightarrow> dh_bids d = [] \<and> dh_asks d = []"

section \<open>The page\<close>

record dashboard_pair =
  dq_book_id :: u64
  dq_base_symbol :: string
  dq_quote_symbol :: string
  dq_quote_decimals :: u8
  dq_tick_size :: amount
  dq_lot_size :: amount
  dq_maker_fee_bps :: u16
  dq_taker_fee_bps :: u16
  dq_bids_len :: nat
  dq_asks_len :: nat
  dq_pending_orders_len :: nat
  dq_resting_orders_len :: nat
  dq_best_bid :: "dashboard_level option"
  dq_best_ask :: "dashboard_level option"
  dq_spread :: "amount option"
  dq_depth :: dashboard_depth

definition first_of :: "'a list \<Rightarrow> 'a option" where
  "first_of xs = (case xs of [] \<Rightarrow> None | x # _ \<Rightarrow> Some x)"

definition book_spread :: "(price \<times> quantity) option \<Rightarrow> (price \<times> quantity) option \<Rightarrow> price option" where
  "book_spread bid ask =
     (case (bid, ask) of (Some (b, _), Some (a, _)) \<Rightarrow> price_checked_sub a b | _ \<Rightarrow> None)"

definition build_pair ::
  "text_ops \<Rightarrow> u64 \<Rightarrow> string \<Rightarrow> string \<Rightarrow> pair_decimals \<Rightarrow> order_book \<Rightarrow> dashboard_pair option" where
  "build_pair tx book_id base_symbol quote_symbol d book = do {
     let bids = bid_levels book DEPTH_LEVELS;
     let asks = ask_levels book DEPTH_LEVELS;
     depth \<leftarrow> build_depth tx bids asks d;
     Some \<lparr>dq_book_id = book_id, dq_base_symbol = base_symbol, dq_quote_symbol = quote_symbol, dq_quote_decimals = pd_quote d,
           dq_tick_size = amount_new tx (unat (bk_tick_size book)) (pd_quote d),
           dq_lot_size = amount_new tx (unat (bk_lot_size book)) (pd_base d),
           dq_maker_fee_bps = maker (bk_fee_rates book), dq_taker_fee_bps = taker (bk_fee_rates book),
           dq_bids_len = length (bk_bids book), dq_asks_len = length (bk_asks book),
           dq_pending_orders_len = length (bk_pending_orders book),
           dq_resting_orders_len = length (bk_resting_orders book),
           dq_best_bid = map_option (level tx d) (first_of bids), dq_best_ask = map_option (level tx d) (first_of asks),
           dq_spread = map_option (\<lambda>p. amount_new tx (unat p) (pd_quote d)) (book_spread (first_of bids) (first_of asks)),
           dq_depth = depth\<rparr>
   }"

record dashboard_token =
  dt_ledger_id :: principal
  dt_symbol :: string
  dt_decimals :: u8

record dashboard_template =
  dm_canister_id :: principal
  dm_mode :: string
  dm_total_events :: u64
  dm_tokens :: "dashboard_token list"
  dm_pairs :: "dashboard_pair list"

text \<open>A \<open>BTreeSet\<close> is walked in order.\<close>

definition format_mode :: "text_ops \<Rightarrow> mode \<Rightarrow> string" where
  "format_mode tx m =
     (case m of
        GeneralAvailability \<Rightarrow> ''GeneralAvailability''
      | RestrictedTo ps \<Rightarrow>
          if ps = {} then ''RestrictedTo: (none)''
          else ''RestrictedTo: '' @ join '', '' (map (principal_text tx) (sorted_list_of_set ps)))"

definition dashboard_pair_of :: "text_ops \<Rightarrow> trade_state \<Rightarrow> trading_pair \<times> order_book_id \<Rightarrow> dashboard_pair option" where
  "dashboard_pair_of tx s e = do {
     book \<leftarrow> bt_get (st_books s) (snd e);
     base \<leftarrow> bt_get (st_tokens s) (tp_base (fst e));
     quote \<leftarrow> bt_get (st_tokens s) (tp_quote (fst e));
     build_pair tx (bk_id book) (symbol base) (symbol quote) \<lparr>pd_base = decimals base, pd_quote = decimals quote\<rparr> book
   }"

definition dashboard_from_state :: "text_ops \<Rightarrow> trade_state \<Rightarrow> principal \<Rightarrow> u64 \<Rightarrow> dashboard_template option" where
  "dashboard_from_state tx s canister_id total_events = do {
     let tokens = map (\<lambda>(t, m). \<lparr>dt_ledger_id = t, dt_symbol = symbol m, dt_decimals = decimals m\<rparr>) (st_tokens s);
     pairs \<leftarrow> those (map (dashboard_pair_of tx s) (st_pairs s));
     Some \<lparr>dm_canister_id = canister_id, dm_mode = format_mode tx (st_mode s), dm_total_events = total_events,
           dm_tokens = tokens, dm_pairs = pairs\<rparr>
   }"

section \<open>Metrics\<close>

definition format_token_symbol :: "token_metadata \<Rightarrow> string" where
  "format_token_symbol m = to_ascii_uppercase (symbol m)"

record order_book_metrics =
  om_base_token :: string
  om_quote_token :: string
  om_bid :: "price option"
  om_ask :: "price option"
  om_pending_orders_len :: nat
  om_resting_orders_len :: nat

definition order_book_metrics_of :: "trade_state \<Rightarrow> trading_pair \<times> order_book_id \<Rightarrow> order_book_metrics option" where
  "order_book_metrics_of s e = do {
     book \<leftarrow> bt_get (st_books s) (snd e);
     base \<leftarrow> bt_get (st_tokens s) (tp_base (fst e));
     quote \<leftarrow> bt_get (st_tokens s) (tp_quote (fst e));
     Some \<lparr>om_base_token = format_token_symbol base, om_quote_token = format_token_symbol quote,
           om_bid = map_option fst (first_of (bid_levels book 1)), om_ask = map_option fst (first_of (ask_levels book 1)),
           om_pending_orders_len = length (bk_pending_orders book), om_resting_orders_len = length (bk_resting_orders book)\<rparr>
   }"

definition order_book_metrics_from_state :: "trade_state \<Rightarrow> order_book_metrics list option" where
  "order_book_metrics_from_state s = those (map (order_book_metrics_of s) (st_pairs s))"

text \<open>A value as it is before the conversion to \<open>f64\<close>: a whole number, or an amount of smallest units
  with the decimals it is divided by.\<close>

datatype sample_value = Whole nat | Scaled quantity u8

record sample =
  sm_name :: string
  sm_labels :: "(string \<times> string) list"
  sm_value :: sample_value

definition metric_labels :: "order_book_metrics \<Rightarrow> (string \<times> string) list" where
  "metric_labels m = [(''base'', om_base_token m), (''quote'', om_quote_token m)]"

definition encode_order_book_metrics :: "order_book_metrics list \<Rightarrow> sample list" where
  "encode_order_book_metrics books =
     (let gauge = (\<lambda>name value. List.map_filter (\<lambda>m. map_option (\<lambda>v. \<lparr>sm_name = name, sm_labels = metric_labels m,
            sm_value = Whole v\<rparr>) (value m)) books)
      in gauge ''bid'' (\<lambda>m. map_option unat (om_bid m)) @ gauge ''ask'' (\<lambda>m. map_option unat (om_ask m)) @
         gauge ''pending_orders'' (\<lambda>m. Some (om_pending_orders_len m)) @
         gauge ''resting_orders'' (\<lambda>m. Some (om_resting_orders_len m)))"

fun fee_samples :: "(token_id, token_metadata) btree_map \<Rightarrow> (token_id \<times> quantity) list \<Rightarrow> sample list option" where
  "fee_samples tokens [] = Some []"
| "fee_samples tokens ((t, amount) # rest) =
     (if is_zero amount then fee_samples tokens rest
      else do {
        metadata \<leftarrow> bt_get tokens t;
        others \<leftarrow> fee_samples tokens rest;
        Some (\<lparr>sm_name = ''fee_balance'', sm_labels = [(''token'', format_token_symbol metadata)],
               sm_value = Scaled amount (decimals metadata)\<rparr> # others)
      })"

definition encode_fee_balances :: "trade_state \<Rightarrow> sample list option" where
  "encode_fee_balances s = fee_samples (st_tokens s) (tb_fee_pool (st_balances s))"

text \<open>The readings of the system API are arguments; a WebAssembly page has 65536 bytes.\<close>

definition encode_metrics :: "nat \<Rightarrow> nat \<Rightarrow> nat \<Rightarrow> trade_state \<Rightarrow> event list \<Rightarrow> sample list option" where
  "encode_metrics cycle_balance stable_pages heap_bytes s log = do {
     books \<leftarrow> order_book_metrics_from_state s;
     fees \<leftarrow> encode_fee_balances s;
     Some ([\<lparr>sm_name = ''cycle_balance'', sm_labels = [], sm_value = Whole cycle_balance\<rparr>,
            \<lparr>sm_name = ''stable_memory_bytes'', sm_labels = [], sm_value = Whole (stable_pages * 65536)\<rparr>,
            \<lparr>sm_name = ''heap_memory_bytes'', sm_labels = [], sm_value = Whole heap_bytes\<rparr>,
            \<lparr>sm_name = ''event_total'', sm_labels = [], sm_value = Whole (length log)\<rparr>,
            \<lparr>sm_name = ''trading_pair_count'', sm_labels = [], sm_value = Whole (length (st_pairs s))\<rparr>] @
           encode_order_book_metrics books @ fees)
   }"

section \<open>Bars\<close>

text \<open>The percentage on numbers.\<close>

definition share_percent :: "nat \<Rightarrow> nat \<Rightarrow> nat" where
  "share_percent qty hi = 100 * qty div hi"

lemma share_percent_le: "qty \<le> hi \<Longrightarrow> share_percent qty hi \<le> 100"
proof -
  assume "qty \<le> hi"
  then have "100 * qty div hi \<le> 100 * hi div hi" by (intro div_le_mono) simp
  then show ?thesis by (cases "hi = 0") (simp_all add: share_percent_def)
qed

lemma coarse_percent_near:
  fixes qty hi :: nat
  assumes "qty \<le> hi" "10000 \<le> hi"
  shows "share_percent qty hi \<le> qty div (hi div 100) \<and> qty div (hi div 100) \<le> share_percent qty hi + 1"
proof -
  let ?m = "hi div 100" and ?p = "share_percent qty hi"
  have m: "100 * ?m \<le> hi" "hi < 100 * ?m + 100" "100 \<le> ?m" using assms(2) by linarith+
  have "?p * hi \<le> 100 * qty" unfolding share_percent_def by (rule div_times_less_eq_dividend)
  moreover have "?p * (100 * ?m) \<le> ?p * hi" using m(1) by (rule mult_le_mono2)
  ultimately have "?p * ?m \<le> qty" by linarith
  then have lower: "?p \<le> qty div ?m" using m(3) by (simp add: less_eq_div_iff_mult_less_eq)
  have "100 * qty < (?p + 1) * hi"
    using assms(2) dividend_less_times_div [of hi "100 * qty"] by (simp add: share_percent_def mult.commute)
  also have "\<dots> \<le> (?p + 1) * (100 * ?m + 100)" using m(2) by (intro mult_le_mono2) simp
  also have "\<dots> = 100 * ((?p + 1) * ?m + (?p + 1))" by (simp add: algebra_simps)
  finally have "qty < (?p + 1) * ?m + (?p + 1)" by (rule mult_less_cancel1 [THEN iffD1, THEN conjunct2])
  moreover have "?p \<le> 100" by (rule share_percent_le [OF assms(1)])
  ultimately have "qty < (?p + 2) * ?m \<or> ?p = 100 \<and> \<not> qty < (?p + 2) * ?m" using m(3) by auto
  moreover have "\<not> (?p = 100 \<and> \<not> qty < (?p + 2) * ?m)" using m assms(1) by auto
  ultimately have "qty < (?p + 2) * ?m" by blast
  then have "qty div ?m < ?p + 2" using m(3) by (intro less_mult_imp_div_less)
  with lower show ?thesis by linarith
qed

lemma bar_width_percent_ok:
  assumes "qty \<le> hi"
  shows "\<exists>w. bar_width_percent qty hi = Some w \<and> unat w \<le> 100 \<and>
    share_percent (unat qty) (unat hi) \<le> unat w \<and> unat w \<le> share_percent (unat qty) (unat hi) + 1"
proof (cases "hi = 0")
  case True
  then show ?thesis by (simp add: bar_width_percent_def share_percent_def)
next
  case False
  let ?p = "share_percent (unat qty) (unat hi)"
  have le: "unat qty \<le> unat hi" using assms by (simp add: word_le_nat_alt)
  have pos: "0 < unat hi" using False by (simp add: unat_gt_0)
  have cap: "\<exists>w. Some (ucast (min x 100) :: u8) = Some w \<and> unat w \<le> 100 \<and> ?p \<le> unat w \<and> unat w \<le> ?p + 1"
    if "?p \<le> unat x" "unat x \<le> ?p + 1" for x :: u128
  proof -
    have m: "unat (min x 100) = min (unat x) 100" by (simp add: min_def word_le_nat_alt)
    then have "unat (ucast (min x 100) :: u8) = min (unat x) 100" by (subst unat_ucast_small) auto
    then show ?thesis using that share_percent_le [OF le] by auto
  qed
  show ?thesis
  proof (cases "checked_mul qty 100")
    case None
    then have big: "2 ^ 128 \<le> 100 * unat qty" by (simp add: checked_mul_None mult.commute)
    then have "10000 \<le> unat hi" using le by simp
    note near = coarse_percent_near [OF le this]
    have "unat (hi div 100) = unat hi div 100" by (simp add: unat_div)
    moreover from this have "hi div 100 \<noteq> 0" using \<open>10000 \<le> unat hi\<close> by (auto simp: div_eq_0_iff)
    ultimately show ?thesis using False None near cap [of "qty div (hi div 100)"]
      by (simp add: bar_width_percent_def ensure_def unat_div)
  next
    case (Some scaled)
    then have "unat scaled = 100 * unat qty" by (simp add: checked_mul_Some mult.commute)
    then have "unat (scaled div hi) = ?p" by (simp add: unat_div share_percent_def)
    then show ?thesis using False Some cap [of "scaled div hi"] by (simp add: bar_width_percent_def)
  qed
qed

section \<open>Decimal values\<close>

text \<open>Reading a decimal text back: digits, and after a point at most \<open>d\<close> more. The result is the number
  of smallest units, exactly.\<close>

definition parse_scaled :: "nat \<Rightarrow> string \<Rightarrow> nat" where
  "parse_scaled d s =
     (let whole = takeWhile (\<lambda>c. c \<noteq> CHR ''.'') s;
          frac = drop 1 (dropWhile (\<lambda>c. c \<noteq> CHR ''.'') s)
      in dec_val whole * 10 ^ d + dec_val frac * 10 ^ (d - length frac))"

lemma trim_end_zeros_append: "\<exists>k. s = trim_end_zeros s @ replicate k CHR ''0''"
proof -
  have zeros: "takeWhile (\<lambda>c. c = z) t = replicate (length (takeWhile (\<lambda>c. c = z) t)) z" for z :: char and t
    by (induction t) auto
  let ?t = "takeWhile (\<lambda>c. c = CHR ''0'') (rev s)"
  have "rev s = ?t @ dropWhile (\<lambda>c. c = CHR ''0'') (rev s)" by simp
  then have "s = trim_end_zeros s @ rev ?t" by (simp only: trim_end_zeros_def flip: rev_append) simp
  moreover have "rev ?t = replicate (length ?t) CHR ''0''" by (subst zeros) simp
  ultimately show ?thesis by metis
qed

lemma trim_end_zeros_last: "trim_end_zeros s \<noteq> [] \<Longrightarrow> last (trim_end_zeros s) \<noteq> CHR ''0''"
  using hd_dropWhile [of "\<lambda>c. c = CHR ''0''" "rev s"] by (simp add: trim_end_zeros_def last_rev)

lemma dec_val_trim: "dec_val (trim_end_zeros s) * 10 ^ (length s - length (trim_end_zeros s)) = dec_val s"
proof -
  obtain k where k: "s = trim_end_zeros s @ replicate k CHR ''0''" using trim_end_zeros_append by blast
  have "length s = length (trim_end_zeros s) + k" using arg_cong [OF k, of length] by simp
  moreover have "dec_val s = dec_val (trim_end_zeros s) * 10 ^ k" using arg_cong [OF k, of dec_val] by (simp add: dec_val_append)
  ultimately show ?thesis by simp
qed

lemma digit_not_point: "is_digit c \<Longrightarrow> c \<noteq> CHR ''.''"
  by (auto simp: is_digit_def digit_val_def)

lemma takeWhile_point: "list_all is_digit ds \<Longrightarrow> takeWhile (\<lambda>c. c \<noteq> CHR ''.'') (ds @ ''.'' @ rest) = ds \<and>
    dropWhile (\<lambda>c. c \<noteq> CHR ''.'') (ds @ ''.'' @ rest) = ''.'' @ rest"
  by (induction ds) (auto dest: digit_not_point)

lemma takeWhile_no_point: "list_all is_digit ds \<Longrightarrow> takeWhile (\<lambda>c. c \<noteq> CHR ''.'') ds = ds \<and>
    dropWhile (\<lambda>c. c \<noteq> CHR ''.'') ds = []"
  by (induction ds) (auto dest: digit_not_point)

lemma parse_format_scaled:
  assumes "list_all is_digit raw"
  shows "parse_scaled (unat d) (format_scaled raw d) = dec_val raw"
proof (cases "unat d = 0")
  case True
  then have "format_scaled raw d = raw" by (simp add: format_scaled_def)
  then show ?thesis unfolding parse_scaled_def Let_def
    by (simp only: takeWhile_no_point [OF assms] True) simp
next
  case False
  let ?padded = "pad_left_zeros (unat d + 1) raw"
  let ?cut = "length ?padded - unat d"
  let ?whole = "take ?cut ?padded" and ?rest = "drop ?cut ?padded"
  let ?frac = "trim_end_zeros ?rest"
  have len: "unat d < length ?padded" "length ?rest = unat d" by (auto simp: pad_left_zeros_def)
  have zero: "is_digit CHR ''0''" using is_digit_char [of 0] by (simp only: digit_char_0)
  have digits: "list_all is_digit ?padded" using assms zero by (auto simp: pad_left_zeros_def list_all_iff)
  then have whole: "list_all is_digit ?whole" by (auto simp: list_all_iff dest: in_set_takeD)
  have "dec_val raw = dec_val ?padded" by (simp add: pad_left_zeros_def dec_val_append)
  also have "\<dots> = dec_val (?whole @ ?rest)" by simp
  also have "\<dots> = dec_val ?whole * 10 ^ unat d + dec_val ?rest" by (simp only: dec_val_append len(2))
  finally have v: "dec_val raw = dec_val ?whole * 10 ^ unat d + dec_val ?rest" .
  have trim: "dec_val ?frac * 10 ^ (unat d - length ?frac) = dec_val ?rest" using dec_val_trim [of ?rest] by (simp only: len(2))
  show ?thesis
  proof (cases "?frac = []")
    case True
    then have "format_scaled raw d = ?whole" using False by (simp add: format_scaled_def Let_def)
    moreover have "dec_val ?rest = 0" using trim True by simp
    ultimately show ?thesis unfolding parse_scaled_def Let_def using v
      by (simp only: takeWhile_no_point [OF whole]) simp
  next
    case frac: False
    then have "format_scaled raw d = ?whole @ ''.'' @ ?frac" using False by (simp add: format_scaled_def Let_def)
    then show ?thesis unfolding parse_scaled_def Let_def using v trim
      by (simp only: takeWhile_point [OF whole, of ?frac]) simp
  qed
qed

section \<open>Pages of a well-formed state\<close>

lemma depth_max_ge: "l \<in> set levels \<Longrightarrow> saturating_to_u128 (snd l) \<le> depth_max levels"
proof -
  have "acc \<le> fold (\<lambda>l acc. max (saturating_to_u128 (snd l)) acc) levels acc \<and>
      (l \<in> set levels \<longrightarrow> saturating_to_u128 (snd l) \<le> fold (\<lambda>l acc. max (saturating_to_u128 (snd l)) acc) levels acc)" for acc
  proof (induction levels arbitrary: acc)
    case (Cons x levels)
    let ?a = "max (saturating_to_u128 (snd x)) acc" and ?f = "fold (\<lambda>l acc. max (saturating_to_u128 (snd l)) acc) levels"
    have "acc \<le> ?a" "saturating_to_u128 (snd x) \<le> ?a" by (rule max.cobounded2, rule max.cobounded1)
    moreover have "?a \<le> ?f ?a" "l \<in> set levels \<longrightarrow> saturating_to_u128 (snd l) \<le> ?f ?a" using Cons by blast+
    ultimately have "acc \<le> ?f ?a" "saturating_to_u128 (snd x) \<le> ?f ?a" by (blast intro: order_trans)+
    then show ?case using \<open>l \<in> set levels \<longrightarrow> _\<close> by auto
  qed simp
  then show "l \<in> set levels \<Longrightarrow> saturating_to_u128 (snd l) \<le> depth_max levels" by (simp add: depth_max_def)
qed

lemma those_Some_iff: "(\<exists>ys. those (map f xs) = Some ys \<and> list_all P ys) \<longleftrightarrow> (\<forall>x \<in> set xs. \<exists>y. f x = Some y \<and> P y)"
  by (induction xs) (auto split: option.splits)

lemma depth_levels_ok:
  assumes "\<forall>l \<in> set levels. saturating_to_u128 (snd l) \<le> hi"
  shows "\<exists>ls. depth_levels tx levels hi d = Some ls \<and> list_all (\<lambda>l. unat (dd_bar_width_percent l) \<le> 100) ls"
  unfolding depth_levels_def those_Some_iff
  using assms bar_width_percent_ok by (fastforce simp: depth_level_def)

lemma build_depth_ok:
  "\<exists>d. build_depth tx bids asks ds = Some d \<and>
     list_all (\<lambda>l. unat (dd_bar_width_percent l) \<le> 100) (dh_bids d @ dh_asks d)"
proof -
  have "\<forall>l \<in> set bids. saturating_to_u128 (snd l) \<le> depth_max (bids @ asks)"
    "\<forall>l \<in> set asks. saturating_to_u128 (snd l) \<le> depth_max (bids @ asks)" by (auto intro: depth_max_ge)
  from depth_levels_ok [OF this(1), of tx ds] depth_levels_ok [OF this(2), of tx ds]
  show ?thesis by (auto simp: build_depth_def Let_def)
qed

lemma heap_ok_pair_parts:
  assumes "heap_ok s" "e \<in> set (st_pairs s)"
  obtains book base quote where "bt_get (st_books s) (snd e) = Some book" "bt_get (st_tokens s) (tp_base (fst e)) = Some base"
    "bt_get (st_tokens s) (tp_quote (fst e)) = Some quote" "bk_id book = snd e" "book_ok book"
proof -
  obtain pair i where e: "e = (pair, i)" by (cases e)
  have pm: "pair_map_ok (st_pairs s)" using assms(1) by (simp add: heap_ok_def maps_ok_def)
  then have "get_book_id (st_pairs s) pair = Some i"
    using assms(2) e by (simp add: get_book_id_def pair_map_ok_def bt_ok_get_iff)
  then obtain book where b: "bt_get (st_books s) i = Some book"
    using assms(1) by (auto simp: heap_ok_def maps_ok_def)
  obtain pair' scale where l: "listed s i pair' scale" "book_fit scale book" "bk_id book = i" using heap_okD [OF assms(1) b] .
  have "pair' = pair"
    using get_pair_in_set [of "st_pairs s" i pair'] l(1) pm assms(2) e
    by (auto simp: listed_def pair_map_ok_def distinct_map dest: inj_onD [of snd _ "(pair', i)" "(pair, i)"])
  then show ?thesis
    using that b l e by (auto simp: listed_def base_scale_def is_known_token_def bt_contains_def trap_simps book_fit_def)
qed

end
