(* ===== verification/Endpoints.thy ===== *)
theory Endpoints
  imports System Public_Errors Event_Export Dashboard
begin

text \<open>
  The entry points of the canister (\<open>main.rs\<close>): each calls the operation of \<open>lib.rs\<close>, converts its
  result to the public one, writes to the canister log (\<open>types-internal/src/log.rs\<close>) and arms
  timers; the life cycle (\<open>lifecycle/mod.rs\<close>) with the snapshot cell of stable memory
  (\<open>storage/mod.rs\<close>). Text of third-party types, the encoder of the snapshot and the wording of a
  failed ledger call are parameters.
\<close>

section \<open>The log\<close>

datatype priority = Info | Debug

definition priority_text :: "priority \<Rightarrow> string" where
  "priority_text p = (case p of Info \<Rightarrow> ''INFO'' | Debug \<Rightarrow> ''DEBUG'')"

definition priority_from_str :: "string \<Rightarrow> string + priority" where
  "priority_from_str s =
     (if eq_ignore_ascii_case s ''info'' then Inr Info
      else if eq_ignore_ascii_case s ''debug'' then Inr Debug
      else Inl (''unrecognized priority '' @ [CHR 0x27] @ s @ [CHR 0x27] @ ''; expected one of: info | debug''))"

record log_entry =
  le_timestamp :: timestamp
  le_priority :: priority
  le_message :: string

section \<open>The service\<close>

text \<open>
  What the entry points work on: the canister with its open ledger calls, the log written since the
  last upgrade, the zero-delay timers that have not fired, whether the periodic timer is set, and
  the bytes of the snapshot cell.
\<close>

record 'b service =
  sv_system :: system
  sv_entries :: "log_entry list"
  sv_timers :: nat
  sv_interval :: bool
  sv_cell :: "'b list"

definition sv_canister :: "'b service \<Rightarrow> canister" where
  "sv_canister sv = sy_canister (sv_system sv)"

definition set_canister :: "canister \<Rightarrow> 'b service \<Rightarrow> 'b service" where
  "set_canister c sv = sv\<lparr>sv_system := (sv_system sv)\<lparr>sy_canister := c\<rparr>\<rparr>"

definition canlog :: "priority \<Rightarrow> string \<Rightarrow> timestamp \<Rightarrow> 'b service \<Rightarrow> 'b service" where
  "canlog p message now sv =
     sv\<lparr>sv_entries := sv_entries sv @ [\<lparr>le_timestamp = now, le_priority = p, le_message = message\<rparr>]\<rparr>"

text \<open>\<open>set_timer(Duration::ZERO, ...)\<close> with \<open>drive_matching\<close>, and the timer firing.\<close>

definition arm_matching :: "'b service \<Rightarrow> 'b service" where
  "arm_matching sv = sv\<lparr>sv_timers := Suc (sv_timers sv)\<rparr>"

definition main_drive_matching :: "readings \<Rightarrow> timestamp \<Rightarrow> 'b service \<Rightarrow> 'b service option" where
  "main_drive_matching counter now sv = do {
     (more, c) \<leftarrow> drive_matching counter now (sv_canister sv);
     let sv1 = set_canister c sv;
     Some (if more then arm_matching sv1 else sv1)
   }"

section \<open>Orders\<close>

definition main_add_limit_order ::
  "biguint_ops \<Rightarrow> text_ops \<Rightarrow> limit_order_request \<Rightarrow> runtime \<Rightarrow> 'b service \<Rightarrow>
   ((public_add_limit_order_error + string) \<times> 'b service) option" where
  "main_add_limit_order big tx req rt sv = do {
     (result, c) \<leftarrow> api_add_limit_order big req rt (sv_canister sv);
     let sv1 = set_canister c sv;
     Some (case result of
        Inl e \<Rightarrow> (Inl (add_limit_order_error_public tx e), sv1)
      | Inr i \<Rightarrow> (Inr i, arm_matching (canlog Info
          (''[add_limit_order]: created order_id='' @ i @ '' for request '' @ limit_order_request_text tx req) (rt_time rt) sv1)))
   }"

definition main_cancel_limit_order ::
  "text_ops \<Rightarrow> string \<Rightarrow> runtime \<Rightarrow> 'b service \<Rightarrow>
   ((cancel_limit_order_request_error request_only_error + public_order_record) \<times> 'b service) option" where
  "main_cancel_limit_order tx i rt sv = do {
     (result, c) \<leftarrow> api_cancel_limit_order i rt (sv_canister sv);
     let sv1 = set_canister c sv;
     Some (case result of
        Inl e \<Rightarrow> (Inl (cancel_limit_order_error_public e), sv1)
      | Inr record \<Rightarrow> (Inr (order_record_public record), canlog Info
          (''[cancel_limit_order]: canceled order_id='' @ i @ '': '' @ order_record_text tx (order_record_public record))
          (rt_time rt) sv1))
   }"

section \<open>Trading accounts\<close>

definition main_add_trading_account ::
  "principal_consts \<Rightarrow> text_ops \<Rightarrow> principal \<Rightarrow> runtime \<Rightarrow> 'b service \<Rightarrow>
   ((public_add_trading_account_error + unit) \<times> 'b service) option" where
  "main_add_trading_account pc tx trading rt sv = do {
     (result, c) \<leftarrow> api_add_trading_account pc trading rt (sv_canister sv);
     let sv1 = set_canister c sv;
     Some (case result of
        Inl e \<Rightarrow> (Inl (add_trading_account_error_public e), sv1)
      | Inr _ \<Rightarrow> (Inr (), canlog Info
          (''[add_trading_account]: whitelisted trading account '' @ principal_text tx trading) (rt_time rt) sv1))
   }"

definition main_remove_trading_account ::
  "text_ops \<Rightarrow> principal \<Rightarrow> runtime \<Rightarrow> 'b service \<Rightarrow>
   ((remove_trading_account_request_error request_only_error + unit) \<times> 'b service) option" where
  "main_remove_trading_account tx trading rt sv = do {
     (result, c) \<leftarrow> api_remove_trading_account trading rt (sv_canister sv);
     let sv1 = set_canister c sv;
     Some (case result of
        Inl e \<Rightarrow> (Inl (remove_trading_account_error_public e), sv1)
      | Inr _ \<Rightarrow> (Inr (), canlog Info
          (''[remove_trading_account]: revoked trading account '' @ principal_text tx trading) (rt_time rt) sv1))
   }"

section \<open>Deposits and withdrawals\<close>

text \<open>
  An asynchronous entry point is two messages: up to the ledger call, where a refusal answers at
  once, and the rest with the ledger's answer. What is logged is decided at the end in both cases.
\<close>

definition log_deposit ::
  "text_ops \<Rightarrow> deposit_request \<Rightarrow> timestamp \<Rightarrow> public_deposit_error + nat \<Rightarrow> 'b service \<Rightarrow> 'b service" where
  "log_deposit tx req now result sv =
     (case result of
        Inr block \<Rightarrow> canlog Info (''[deposit]: successful deposit for request '' @ deposit_request_text tx req @
          '', block_index='' @ nat_text tx block) now sv
      | Inl e \<Rightarrow>
          if should_log_deposit_error e
          then canlog Debug (''[deposit]: deposit for request '' @ deposit_request_text tx req @ '' failed, error='' @ error_text e) now sv
          else sv)"

definition main_deposit_call ::
  "biguint_ops \<Rightarrow> text_ops \<Rightarrow> deposit_request \<Rightarrow> runtime \<Rightarrow> 'b service \<Rightarrow>
   (public_deposit_error option \<times> 'b service) option" where
  "main_deposit_call big tx req rt sv = do {
     (result, c) \<leftarrow> deposit_start big (dr_token req) (dr_amount req) rt (sv_canister sv);
     let sv1 = set_canister c sv;
     Some (case result of
        Inl e \<Rightarrow> (let err = deposit_error_public tx (dr_token req) e
                  in (Some err, log_deposit tx req (rt_time rt) (Inl err) sv1))
      | Inr amount \<Rightarrow> (None, sv1\<lparr>sv_system := (sv_system sv1)\<lparr>
          sy_calls := DepositCall (rt_caller rt) (dr_token req) amount # sy_calls (sv_system sv1)\<rparr>\<rparr>))
   }"

definition main_deposit_return ::
  "text_ops \<Rightarrow> deposit_request \<Rightarrow> quantity \<Rightarrow> transfer_from_error call_result \<Rightarrow> runtime \<Rightarrow> 'b service \<Rightarrow>
   ((public_deposit_error + nat) \<times> 'b service) option" where
  "main_deposit_return tx req amount answer rt sv = do {
     (result, c) \<leftarrow> deposit_finish (dr_token req) amount answer rt (sv_canister sv);
     let sv1 = sv\<lparr>sv_system := (sv_system sv)\<lparr>sy_canister := c,
       sy_calls := remove1 (DepositCall (rt_caller rt) (dr_token req) amount) (sy_calls (sv_system sv))\<rparr>\<rparr>;
     let public = map_sum (deposit_error_public tx (dr_token req)) id result;
     Some (public, log_deposit tx req (rt_time rt) public sv1)
   }"

definition log_withdraw ::
  "text_ops \<Rightarrow> withdraw_request \<Rightarrow> timestamp \<Rightarrow> public_withdraw_error + nat \<Rightarrow> 'b service \<Rightarrow> 'b service" where
  "log_withdraw tx req now result sv =
     (case result of
        Inr block \<Rightarrow> canlog Info (''[withdraw]: successful withdrawal for request '' @ withdraw_request_text tx req @
          '', block_index='' @ nat_text tx block) now sv
      | Inl e \<Rightarrow>
          if should_log_withdraw_error e
          then canlog Debug (''[withdraw]: withdrawal for request '' @ withdraw_request_text tx req @ '' failed, error='' @ error_text e) now sv
          else sv)"

definition main_withdraw_call ::
  "biguint_ops \<Rightarrow> text_ops \<Rightarrow> withdraw_request \<Rightarrow> runtime \<Rightarrow> 'b service \<Rightarrow>
   (public_withdraw_error option \<times> 'b service) option" where
  "main_withdraw_call big tx req rt sv = do {
     (result, c) \<leftarrow> withdraw_start big (wr_token req) (wr_amount req) rt (sv_canister sv);
     let sv1 = set_canister c sv;
     Some (case result of
        Inl e \<Rightarrow> (let err = withdraw_error_public tx (wr_token req) e
                  in (Some err, log_withdraw tx req (rt_time rt) (Inl err) sv1))
      | Inr (amount, fee) \<Rightarrow> (None, sv1\<lparr>sv_system := (sv_system sv1)\<lparr>
          sy_calls := WithdrawCall (rt_caller rt) (wr_token req) amount fee # sy_calls (sv_system sv1)\<rparr>\<rparr>))
   }"

definition main_withdraw_return ::
  "text_ops \<Rightarrow> withdraw_request \<Rightarrow> quantity \<Rightarrow> nat \<Rightarrow> ledger_answers \<Rightarrow> runtime \<Rightarrow> 'b service \<Rightarrow>
   ((public_withdraw_error + nat) \<times> 'b service) option" where
  "main_withdraw_return tx req amount fee ledger rt sv = do {
     (result, c) \<leftarrow> withdraw_finish (wr_token req) amount (ledger_withdraw amount fee ledger) rt (sv_canister sv);
     let sv1 = sv\<lparr>sv_system := (sv_system sv)\<lparr>sy_canister := c,
       sy_calls := remove1 (WithdrawCall (rt_caller rt) (wr_token req) amount fee) (sy_calls (sv_system sv))\<rparr>\<rparr>;
     let public = map_sum (withdraw_error_public tx (wr_token req)) id result;
     Some (public, log_withdraw tx req (rt_time rt) public sv1)
   }"

section \<open>Administration\<close>

definition main_add_trading_pair ::
  "biguint_ops \<Rightarrow> add_trading_pair_request \<Rightarrow> runtime \<Rightarrow> 'b service \<Rightarrow> ((add_trading_pair_error + unit) \<times> 'b service) option" where
  "main_add_trading_pair big req rt sv = do {
     (result, c) \<leftarrow> add_trading_pair big req rt (sv_canister sv);
     Some (result, set_canister c sv)
   }"

definition main_halt_trading ::
  "trading_pair list option \<Rightarrow> runtime \<Rightarrow> 'b service \<Rightarrow> ((unauthorized_error + unit) \<times> 'b service) option" where
  "main_halt_trading pairs rt sv = do {
     (result, c) \<leftarrow> halt_trading pairs rt (sv_canister sv);
     Some (result, set_canister c sv)
   }"

definition main_resume_trading ::
  "trading_pair list option \<Rightarrow> runtime \<Rightarrow> 'b service \<Rightarrow> ((unauthorized_error + unit) \<times> 'b service) option" where
  "main_resume_trading pairs rt sv = do {
     (result, c) \<leftarrow> resume_trading pairs rt (sv_canister sv);
     let sv1 = set_canister c sv;
     Some (result, case result of Inl _ \<Rightarrow> sv1 | Inr _ \<Rightarrow> arm_matching sv1)
   }"

section \<open>Queries\<close>

definition main_get_my_trading_accounts :: "runtime \<Rightarrow> 'b service \<Rightarrow> principal list" where
  "main_get_my_trading_accounts rt sv = trading_accounts_of (st_registry (cn_state (sv_canister sv))) (rt_caller rt)"

definition main_get_order_book_ticker ::
  "trading_pair \<Rightarrow> 'b service \<Rightarrow> get_order_book_ticker_request_error request_only_error + order_book_ticker" where
  "main_get_order_book_ticker pair sv =
     (case get_order_book_ticker pair (cn_state (sv_canister sv)) of
        None \<Rightarrow> Inl (error_request get_order_book_ticker_request_text OTR_UnknownTradingPair)
      | Some ticker \<Rightarrow> Inr ticker)"

definition main_get_order_book_depth ::
  "trading_pair \<Rightarrow> u32 option \<Rightarrow> 'b service \<Rightarrow> get_order_book_depth_request_error request_only_error + order_book_depth" where
  "main_get_order_book_depth pair limit sv =
     map_sum depth_error_public id (get_order_book_depth pair limit (cn_state (sv_canister sv)))"

definition main_get_balances ::
  "text_ops \<Rightarrow> token_id list option \<Rightarrow> runtime \<Rightarrow> 'b service \<Rightarrow> get_balances_request_error request_only_error + user_token_balance list" where
  "main_get_balances tx f rt sv =
     map_sum (get_balances_error_public tx) id (api_get_balances f (rt_caller rt) (cn_state (sv_canister sv)))"

definition main_get_fee_balances ::
  "text_ops \<Rightarrow> token_id list option \<Rightarrow> 'b service \<Rightarrow>
   (get_balances_request_error request_only_error + user_token_balance list) option" where
  "main_get_fee_balances tx f sv =
     map_option (map_sum (get_balances_error_public tx) id) (api_get_fee_balances f (cn_state (sv_canister sv)))"

definition main_get_my_orders ::
  "get_my_orders_filter option \<Rightarrow> runtime \<Rightarrow> 'b service \<Rightarrow>
   (get_my_orders_request_error request_only_error + user_order list) option" where
  "main_get_my_orders args rt sv =
     map_option (map_sum get_my_orders_error_public
        (map (\<lambda>(i, pair, record). \<lparr>uo_id = i, uo_pair = pair, uo_order = order_record_public record\<rparr>)))
       (get_my_orders args (rt_caller rt) (cn_state (sv_canister sv)))"

definition main_get_my_trades ::
  "trades_filter \<Rightarrow> runtime \<Rightarrow> 'b service \<Rightarrow> (get_my_trades_request_error request_only_error + public_trade list) option" where
  "main_get_my_trades args rt sv =
     map_option (map_sum get_my_trades_error_public (map (\<lambda>(i, trade). trade_into_public i trade)))
       (get_my_trades args (rt_caller rt) (cn_state (sv_canister sv)))"

definition main_get_events :: "get_events_args \<Rightarrow> 'b service \<Rightarrow> get_events_result option" where
  "main_get_events args sv = get_events args (cn_log (sv_canister sv))"

section \<open>The snapshot cell\<close>

text \<open>The encoder of a snapshot and its decoder, which fails on bytes it did not write.\<close>

record 'b snapshot_codec =
  sc_encode :: "state_snapshot \<Rightarrow> 'b list"
  sc_decode :: "'b list \<Rightarrow> state_snapshot option"

text \<open>What the code relies on: what was encoded decodes, and an encoding is never empty.\<close>

definition codec_ok :: "'b snapshot_codec \<Rightarrow> bool" where
  "codec_ok codec \<longleftrightarrow> (\<forall>sn. sc_encode codec sn \<noteq> [] \<and> sc_decode codec (sc_encode codec sn) = Some sn)"

definition snapshot_save :: "'b snapshot_codec \<Rightarrow> state_snapshot \<Rightarrow> 'b service \<Rightarrow> nat \<times> 'b service" where
  "snapshot_save codec sn sv = (let buf = sc_encode codec sn in (length buf, sv\<lparr>sv_cell := buf\<rparr>))"

definition snapshot_load :: "'b snapshot_codec \<Rightarrow> 'b service \<Rightarrow> (state_snapshot option \<times> 'b service) option" where
  "snapshot_load codec sv =
     (if sv_cell sv = [] then Some (None, sv)
      else do {
        sn \<leftarrow> sc_decode codec (sv_cell sv);
        Some (Some sn, sv\<lparr>sv_cell := []\<rparr>)
      })"

section \<open>Life cycle\<close>

definition setup_timers :: "'b service \<Rightarrow> 'b service" where
  "setup_timers sv = sv\<lparr>sv_interval := True\<rparr>"

definition main_init :: "oisy_trade_arg \<Rightarrow> timestamp \<Rightarrow> 'b service option" where
  "main_init arg now = do {
     c \<leftarrow> canister_init arg now;
     let sv = \<lparr>sv_system = \<lparr>sy_canister = c, sy_calls = [], sy_lost = []\<rparr>, sv_entries = [], sv_timers = 0, sv_interval = False, sv_cell = []\<rparr>;
     Some (canlog Info ''[init]: OISY TRADE canister initialized'' now (setup_timers sv))
   }"

definition main_pre_upgrade :: "'b snapshot_codec \<Rightarrow> readings \<Rightarrow> timestamp \<Rightarrow> 'b service \<Rightarrow> 'b service" where
  "main_pre_upgrade codec counter now sv =
     (let (bytes, sv1) = snapshot_save codec (from_state (cn_state (sv_canister sv))) sv
      in canlog Info (''[pre_upgrade]: state snapshot written ('' @ dec_string bytes @ '' bytes), total instructions used: '' @
           dec_string (unat (counter 1 - counter 0))) now sv1)"

text \<open>
  The new version starts with an empty heap: what it has of the old one is stable memory, that is the
  histories, the balances, the registry, the event log and the snapshot cell. Timers and log
  entries are gone.
\<close>

definition main_post_upgrade ::
  "'b snapshot_codec \<Rightarrow> oisy_trade_arg option \<Rightarrow> readings \<Rightarrow> timestamp \<Rightarrow> 'b service \<Rightarrow> 'b service option" where
  "main_post_upgrade codec arg counter now old = do {
     let s = cn_state (sv_canister old);
     (found, sv) \<leftarrow> snapshot_load codec (old\<lparr>sv_entries := [], sv_timers := 0, sv_interval := False\<rparr>);
     snapshot \<leftarrow> found;
     c \<leftarrow> post_upgrade arg now snapshot (st_orders s) (st_trades s) (tb_balances (st_balances s)) (st_registry s)
            (cn_log (sv_canister old));
     let sv1 = canlog Info (''[post_upgrade]: state restored from snapshot, total instructions used: '' @
           dec_string (unat (counter 1 - counter 0))) now (set_canister c sv);
     Some (setup_timers sv1)
   }"

section \<open>HTTP\<close>

text \<open>The parts of the request, log and response libraries that \<open>http_request\<close> calls.\<close>

datatype sort = Ascending | Descending

record 'q http_ops =
  ho_path :: "'q \<Rightarrow> string"
  ho_raw_query_param :: "'q \<Rightarrow> string \<Rightarrow> string option"
  ho_sort_from_str :: "string \<Rightarrow> sort option"
  ho_sort_logs :: "sort \<Rightarrow> log_entry list \<Rightarrow> log_entry list"
  ho_serialize_logs :: "nat \<Rightarrow> log_entry list \<Rightarrow> string"
  ho_render :: "dashboard_template \<Rightarrow> string + string"
  ho_encode :: "int \<Rightarrow> sample list \<Rightarrow> string + string"

datatype http_response =
    Http_Ok string string
  | Http_BadRequest string
  | Http_ServerError string
  | Http_NotFound

definition push_logs :: "priority \<Rightarrow> 'b service \<Rightarrow> log_entry list" where
  "push_logs p sv = filter (\<lambda>e. le_priority e = p) (sv_entries sv)"

definition ordering_from_query_params :: "'q http_ops \<Rightarrow> string option \<Rightarrow> u64 \<Rightarrow> sort" where
  "ordering_from_query_params ho param max_skip_timestamp =
     (case Option.bind param (ho_sort_from_str ho) of
        Some order \<Rightarrow> order
      | None \<Rightarrow> if max_skip_timestamp = 0 then Ascending else Descending)"

definition MAX_BODY_SIZE :: nat where
  "MAX_BODY_SIZE = 2000000"

definition logs_response :: "'q http_ops \<Rightarrow> 'q \<Rightarrow> 'b service \<Rightarrow> http_response" where
  "logs_response ho request sv =
     (case (case ho_raw_query_param ho request ''time'' of
              Some arg \<Rightarrow> map_option Some (u64_from_str arg)
            | None \<Rightarrow> Some None) of
        None \<Rightarrow> Http_BadRequest (''failed to parse the '' @ [CHR 0x27] @ ''time'' @ [CHR 0x27] @ '' parameter'')
      | Some time \<Rightarrow>
          let max_skip_timestamp = (case time of Some t \<Rightarrow> t | None \<Rightarrow> 0);
              entries = (case map_option priority_from_str (ho_raw_query_param ho request ''priority'') of
                           Some (Inr priority) \<Rightarrow> push_logs priority sv
                         | Some (Inl _) \<Rightarrow> push_logs Info sv @ push_logs Debug sv
                         | None \<Rightarrow> push_logs Info sv @ push_logs Debug sv);
              retained = filter (\<lambda>e. le_timestamp e \<ge> max_skip_timestamp) entries;
              order = ordering_from_query_params ho (ho_raw_query_param ho request ''sort'') max_skip_timestamp
          in Http_Ok ''application/json; charset=utf-8'' (ho_serialize_logs ho MAX_BODY_SIZE (ho_sort_logs ho order retained)))"

record system_readings =
  sr_canister_id :: principal
  sr_time :: timestamp
  sr_cycle_balance :: nat
  sr_stable_pages :: nat
  sr_heap_bytes :: nat

text \<open>\<open>time() as i64 / 1_000_000\<close>, a division that truncates towards zero.\<close>

definition millis_of :: "timestamp \<Rightarrow> int" where
  "millis_of t = sgn (sint t) * (\<bar>sint t\<bar> div 1000000)"

definition http_request ::
  "'q http_ops \<Rightarrow> text_ops \<Rightarrow> 'q \<Rightarrow> system_readings \<Rightarrow> 'b service \<Rightarrow> http_response option" where
  "http_request ho tx request sr sv =
     (let s = cn_state (sv_canister sv); log = cn_log (sv_canister sv)
      in if ho_path ho request = ''/logs'' then Some (logs_response ho request sv)
         else if ho_path ho request = ''/dashboard'' then do {
           dashboard \<leftarrow> dashboard_from_state tx s (sr_canister_id sr) (total_event_count log);
           Some (case ho_render ho dashboard of
              Inr body \<Rightarrow> Http_Ok ''text/html; charset=utf-8'' body
            | Inl e \<Rightarrow> Http_ServerError (''template error: '' @ e))
         }
         else if ho_path ho request = ''/metrics'' then do {
           samples \<leftarrow> encode_metrics (sr_cycle_balance sr) (sr_stable_pages sr) (sr_heap_bytes sr) s log;
           Some (case ho_encode ho (millis_of (sr_time sr)) samples of
              Inr body \<Rightarrow> Http_Ok ''text/plain; version=0.0.4; charset=utf-8'' body
            | Inl e \<Rightarrow> Http_ServerError e)
         }
         else Some Http_NotFound)"

section \<open>The service as a state machine\<close>

text \<open>
  One step per message, without upgrades first: every update entry point, both halves of the
  asynchronous ones, a zero-delay timer and the periodic timer. A message that traps changes nothing, except
  that the second half of an asynchronous entry point drops its call and the guard.
\<close>

inductive service_step :: "principal_consts \<Rightarrow> biguint_ops \<Rightarrow> text_ops \<Rightarrow> 'b service \<Rightarrow> 'b service \<Rightarrow> bool"
  for pc :: principal_consts and big :: biguint_ops and tx :: text_ops where
  msg_add_limit_order: "main_add_limit_order big tx req rt sv = Some (ra, sv') \<Longrightarrow> service_step pc big tx sv sv'"
| msg_cancel_limit_order: "main_cancel_limit_order tx i rt sv = Some (rc, sv') \<Longrightarrow> service_step pc big tx sv sv'"
| msg_add_trading_account: "main_add_trading_account pc tx trading rt sv = Some (rg, sv') \<Longrightarrow> service_step pc big tx sv sv'"
| msg_remove_trading_account: "main_remove_trading_account tx trading rt sv = Some (rr, sv') \<Longrightarrow> service_step pc big tx sv sv'"
| msg_deposit_call: "main_deposit_call big tx dreq rt sv = Some (rd, sv') \<Longrightarrow> service_step pc big tx sv sv'"
| msg_deposit_return:
    "DepositCall (rt_caller rt) (dr_token dreq) amount \<in> set (sy_calls (sv_system sv)) \<Longrightarrow>
     main_deposit_return tx dreq amount answer rt sv = Some (rdr, sv') \<Longrightarrow> service_step pc big tx sv sv'"
| msg_deposit_trap:
    "DepositCall (rt_caller rt) (dr_token dreq) amount \<in> set (sy_calls (sv_system sv)) \<Longrightarrow>
     main_deposit_return tx dreq amount answer rt sv = None \<Longrightarrow>
     service_step pc big tx sv (sv\<lparr>sv_system := trapped (DepositCall (rt_caller rt) (dr_token dreq) amount) (sv_system sv)\<rparr>)"
| msg_withdraw_call: "main_withdraw_call big tx wreq rt sv = Some (rw, sv') \<Longrightarrow> service_step pc big tx sv sv'"
| msg_withdraw_return:
    "WithdrawCall (rt_caller rt) (wr_token wreq) amount fee \<in> set (sy_calls (sv_system sv)) \<Longrightarrow>
     main_withdraw_return tx wreq amount fee ledger rt sv = Some (rwr, sv') \<Longrightarrow> service_step pc big tx sv sv'"
| msg_withdraw_trap:
    "WithdrawCall (rt_caller rt) (wr_token wreq) amount fee \<in> set (sy_calls (sv_system sv)) \<Longrightarrow>
     main_withdraw_return tx wreq amount fee ledger rt sv = None \<Longrightarrow>
     service_step pc big tx sv (sv\<lparr>sv_system := trapped (WithdrawCall (rt_caller rt) (wr_token wreq) amount fee) (sv_system sv)\<rparr>)"
| msg_add_trading_pair: "main_add_trading_pair big preq rt sv = Some (rp, sv') \<Longrightarrow> service_step pc big tx sv sv'"
| msg_halt_trading: "main_halt_trading pairs rt sv = Some (rh, sv') \<Longrightarrow> service_step pc big tx sv sv'"
| msg_resume_trading: "main_resume_trading pairs rt sv = Some (rs, sv') \<Longrightarrow> service_step pc big tx sv sv'"
| timer_fires:
    "sv_timers sv = Suc n \<Longrightarrow> main_drive_matching counter now (sv\<lparr>sv_timers := n\<rparr>) = Some sv' \<Longrightarrow> service_step pc big tx sv sv'"
| interval_fires:
    "sv_interval sv \<Longrightarrow> main_drive_matching counter now sv = Some sv' \<Longrightarrow> service_step pc big tx sv sv'"

text \<open>An upgrade runs \<open>pre_upgrade\<close> in the old version and \<open>post_upgrade\<close> in the new one, with no call open.\<close>

inductive service_upgrade :: "'b snapshot_codec \<Rightarrow> 'b service \<Rightarrow> 'b service \<Rightarrow> bool" for codec :: "'b snapshot_codec" where
  upgrade:
    "sy_calls (sv_system sv) = [] \<Longrightarrow>
     main_post_upgrade codec arg counter' now' (main_pre_upgrade codec counter now sv) = Some sv' \<Longrightarrow>
     service_upgrade codec sv sv'"

inductive service_reachable ::
  "principal_consts \<Rightarrow> biguint_ops \<Rightarrow> text_ops \<Rightarrow> 'b snapshot_codec \<Rightarrow> oisy_trade_arg \<Rightarrow> 'b service \<Rightarrow> bool"
  for pc :: principal_consts and big :: biguint_ops and tx :: text_ops and codec :: "'b snapshot_codec" and arg :: oisy_trade_arg where
  installed: "main_init arg now = Some sv \<Longrightarrow> service_reachable pc big tx codec arg sv"
| stepped: "service_reachable pc big tx codec arg sv \<Longrightarrow> service_step pc big tx sv sv' \<Longrightarrow> service_reachable pc big tx codec arg sv'"
| upgraded: "service_reachable pc big tx codec arg sv \<Longrightarrow> service_upgrade codec sv sv' \<Longrightarrow> service_reachable pc big tx codec arg sv'"

end
