(* ===== verification/Market_Data.thy ===== *)
theory Market_Data
  imports Dashboard Api
begin

text \<open>
  What the depth, the ticker and the pages for operators show of a well-formed book: the price levels
  in order, best first, each with the sum of the orders resting there.
\<close>

section \<open>Levels\<close>

text \<open>The reference: the prices of one side, best first, and what rests at a price.\<close>

definition level_prices :: "side \<Rightarrow> order_book \<Rightarrow> price list" where
  "level_prices s b = remdups_adj (map fst (side_list s b))"

definition level_total :: "side \<Rightarrow> order_book \<Rightarrow> price \<Rightarrow> nat" where
  "level_total s b p = sum_list (map (\<lambda>(_, r). q2n (ro_remaining r)) (filter (\<lambda>(q, _). q = p) (side_list s b)))"

definition levels :: "side \<Rightarrow> order_book \<Rightarrow> nat \<Rightarrow> (price \<times> quantity) list" where
  "levels s b n = (case s of Buy \<Rightarrow> bid_levels b n | Sell \<Rightarrow> ask_levels b n)"

text \<open>\<open>saturating\<close> addition in a fold is the sum, capped at the largest quantity.\<close>

lemma foldl_saturating:
  "foldl (\<lambda>acc r. case quantity_add acc (ro_remaining r) of None \<Rightarrow> quantity_MAX | Some q \<Rightarrow> q) (n2q (min n (2 ^ 256 - 1))) queue =
     n2q (min (n + sum_list (map (\<lambda>r. q2n (ro_remaining r)) queue)) (2 ^ 256 - 1))"
proof (induction queue arbitrary: n)
  case (Cons r queue)
  have max: "quantity_MAX = n2q (2 ^ 256 - 1)" by (simp add: quantity_MAX_def n2q_def)
  have "(case quantity_add (n2q (min n (2 ^ 256 - 1))) (ro_remaining r) of None \<Rightarrow> quantity_MAX | Some q \<Rightarrow> q) =
      n2q (min (n + q2n (ro_remaining r)) (2 ^ 256 - 1))"
    using q2n_bound [of "ro_remaining r"] by (auto simp: quantity_add_eq max min_def)
  then show ?case using Cons [of "n + q2n (ro_remaining r)"] by (simp add: add.assoc)
qed simp

lemma sum_remaining_eq:
  "q2n (sum_remaining queue) = min (sum_list (map (\<lambda>r. q2n (ro_remaining r)) queue)) (2 ^ 256 - 1)"
proof -
  have zero: "quantity_ZERO = n2q (min 0 (2 ^ 256 - 1))" by (simp add: quantity_ZERO_def n2q_def)
  show ?thesis unfolding sum_remaining_def zero foldl_saturating by simp
qed

lemma queue_levels:
  assumes "queue_ok q"
  shows "map fst q = remdups_adj (map fst (queue_list q))"
    "(k, vs) \<in> set q \<Longrightarrow> map snd (filter (\<lambda>(j, _). j = k) (queue_list q)) = vs"
proof -
  have ok: "bt_ok q" "\<forall>(_, vs) \<in> set q. vs \<noteq> []" using assms by (simp_all add: queue_ok_def)
  show "map fst q = remdups_adj (map fst (queue_list q))"
    using ok
  proof (induction q)
    case (Cons e q)
    obtain v vs where e: "snd e = v # vs" using Cons.prems(2) by (cases "snd e") auto
    have IH: "map fst q = remdups_adj (map fst (queue_list q))" using Cons by (simp add: bt_ok_Cons split_def)
    have next_key: "fst e \<noteq> k" if "map fst (queue_list q) = k # ks" for k ks
    proof -
      have "k \<in> set (map fst q)" unfolding IH using that by simp
      then show ?thesis using Cons.prems(1) by (auto simp: bt_ok_Cons bt_keys_def)
    qed
    have "map fst (queue_list (e # q)) = replicate (Suc (length vs)) (fst e) @ map fst (queue_list q)"
      using e by (simp add: comp_def map_replicate_const)
    also have "remdups_adj \<dots> = fst e # remdups_adj (map fst (queue_list q))"
    proof (cases "map fst (queue_list q)")
      case Nil
      then show ?thesis using remdups_adj_replicate [of "Suc (length vs)" "fst e"] by simp
    next
      case (Cons k ks)
      have "remdups_adj (replicate (Suc n) (fst e) @ k # ks) = fst e # remdups_adj (k # ks)" for n
        using next_key [OF Cons] by (induction n) simp_all
      then show ?thesis using Cons by simp
    qed
    finally show ?case using IH by simp
  qed simp
  show "map snd (filter (\<lambda>(j, _). j = k) (queue_list q)) = vs" if "(k, vs) \<in> set q"
    using ok that
  proof (induction q)
    case (Cons e q)
    have none: "filter (\<lambda>(j, _). j = k) (queue_list q) = []" if "k \<notin> set (bt_keys q)" for k
      using that by (force simp: queue_list_def bt_keys_def filter_empty_conv)
    show ?case
    proof (cases "e = (k, vs)")
      case True
      then have "k \<notin> set (bt_keys q)" using Cons.prems(1) by (auto simp: bt_ok_Cons)
      then show ?thesis using True none by (simp add: filter_map comp_def)
    next
      case False
      then have k: "(k, vs) \<in> set q" using Cons.prems(3) by auto
      then have "fst e \<noteq> k" using Cons.prems(1) by (force simp: bt_ok_Cons bt_keys_def)
      then show ?thesis using Cons k by (simp add: filter_map comp_def bt_ok_Cons split_def)
    qed
  qed simp
qed

text \<open>The better of two prices: a higher bid, a lower ask.\<close>

fun better :: "side \<Rightarrow> price \<Rightarrow> price \<Rightarrow> bool" where
  "better Buy p q \<longleftrightarrow> p > q"
| "better Sell p q \<longleftrightarrow> p < q"

definition levels_show :: "side \<Rightarrow> order_book \<Rightarrow> (price \<times> quantity) list \<Rightarrow> bool" where
  "levels_show s b ls \<longleftrightarrow> sorted_wrt (better s) (map fst ls) \<and>
     (\<forall>(p, q) \<in> set ls. q2n q = min (level_total s b p) (2 ^ 256 - 1) \<and> 0 < q2n q)"

text \<open>The levels of a queue under an injective reading of its keys as prices.\<close>

lemma read_levels:
  fixes price_of :: "'k::linorder \<Rightarrow> price"
  assumes q: "queue_ok q" and inj: "inj price_of" and rest: "\<forall>(_, r) \<in> set xs. 0 < q2n (ro_remaining r)"
    and xs: "xs = map (\<lambda>(k, r). (price_of k, r)) (queue_list q)"
    and ls: "ls = map (\<lambda>(k, vs). (price_of k, sum_remaining vs)) (take n q)"
  shows "map fst ls = take n (remdups_adj (map fst xs))"
    "(p, t) \<in> set ls \<Longrightarrow> q2n t =
       min (sum_list (map (\<lambda>(_, r). q2n (ro_remaining r)) (filter (\<lambda>(j, _). j = p) xs))) (2 ^ 256 - 1) \<and> 0 < q2n t"
proof -
  have "map price_of (map fst q) = remdups_adj (map fst xs)"
    unfolding queue_levels(1) [OF q] by (simp add: xs split_def comp_def remdups_adj_map_injective [OF inj, symmetric])
  moreover have "map fst ls = take n (map price_of (map fst q))" by (simp add: ls split_def comp_def take_map)
  ultimately show "map fst ls = take n (remdups_adj (map fst xs))" by simp
  assume "(p, t) \<in> set ls"
  then obtain k vs where k: "(k, vs) \<in> set q" "p = price_of k" "t = sum_remaining vs" by (auto simp: ls dest: in_set_takeD)
  have "map snd (filter (\<lambda>(j, _). j = p) xs) = map snd (filter (\<lambda>(j, _). j = k) (queue_list q))"
    by (simp add: xs k(2) filter_map comp_def split_def inj_eq [OF inj])
  then have vs: "map snd (filter (\<lambda>(j, _). j = p) xs) = vs" using queue_levels(2) [OF q k(1)] by simp
  have "sum_list (map (\<lambda>r. q2n (ro_remaining r)) vs) =
      sum_list (map (\<lambda>(_, r). q2n (ro_remaining r)) (filter (\<lambda>(j, _). j = p) xs))"
    by (simp add: comp_def split_def flip: vs)
  moreover have "\<forall>r \<in> set vs. 0 < q2n (ro_remaining r)" using rest by (auto simp flip: vs)
  moreover have "vs \<noteq> []" using q k(1) by (auto simp: queue_ok_def)
  ultimately show "q2n t =
      min (sum_list (map (\<lambda>(_, r). q2n (ro_remaining r)) (filter (\<lambda>(j, _). j = p) xs))) (2 ^ 256 - 1) \<and> 0 < q2n t"
    by (cases vs) (auto simp: k(3) sum_remaining_eq)
qed

lemma side_levels:
  assumes "book_ok b"
  shows "map fst (levels s b n) = take n (level_prices s b)" "levels_show s b (levels s b n)"
proof -
  have ok: "queue_ok (bk_bids b)" "queue_ok (bk_asks b)" using assms by (simp_all add: book_ok_def)
  have rest: "\<forall>(_, r) \<in> set (side_list s b). 0 < q2n (ro_remaining r)" for s
    using assms by (cases s) (auto simp: book_ok_def side_ok_def list_all_iff valid_amounts_def)
  have inj: "inj (unreverse :: price reverse \<Rightarrow> price)" "inj (\<lambda>p :: price. p)" by (auto simp: inj_def reverse.expand)
  note buy = read_levels [OF ok(1) inj(1) rest [of Buy] _ refl, where n = n]
  note sell = read_levels [OF ok(2) inj(2) rest [of Sell] _ refl, where n = n]
  have buys: "side_list Buy b = map (\<lambda>(k, r). (unreverse k, r)) (queue_list (bk_bids b))" by (simp add: side_list_def)
  have sells: "side_list Sell b = map (\<lambda>(k, r). (k, r)) (queue_list (bk_asks b))" by (simp add: side_list_def)
  show prices: "map fst (levels s b n) = take n (level_prices s b)"
    using buy(1) [OF buys] sell(1) [OF sells] by (cases s) (simp_all add: levels_def bid_levels_def ask_levels_def level_prices_def)
  have "sorted_wrt (<) (map fst (bk_bids b))" "sorted_wrt (<) (map fst (bk_asks b))"
    using ok by (simp_all add: queue_ok_def bt_ok_def bt_keys_def)
  then have "sorted_wrt (better s) (map fst (levels s b n))"
    by (cases s) (simp_all add: levels_def bid_levels_def ask_levels_def split_def comp_def sorted_wrt_map less_reverse_def sorted_wrt_take)
  moreover have "q2n t = min (level_total s b p) (2 ^ 256 - 1) \<and> 0 < q2n t" if "(p, t) \<in> set (levels s b n)" for p t
  proof (cases s)
    case Buy
    then show ?thesis using that buy(2) [OF buys, of p t] unfolding level_total_def levels_def bid_levels_def Buy side.case by blast
  next
    case Sell
    then show ?thesis using that sell(2) [OF sells, of p t] unfolding level_total_def levels_def ask_levels_def Sell side.case by blast
  qed
  ultimately show "levels_show s b (levels s b n)" by (auto simp: levels_show_def)
qed

section \<open>The two sides\<close>

lemma levels_uncrossed:
  assumes "book_ok b" "bid \<in> set (levels Buy b n)" "ask \<in> set (levels Sell b m)"
  shows "fst bid < fst ask"
proof -
  have "fst l \<in> fst ` set (side_list s b)" if "l \<in> set (levels s b n)" for l s n
  proof -
    have "fst l \<in> set (map fst (levels s b n))" using that by simp
    then show ?thesis unfolding side_levels(1) [OF assms(1)] by (auto simp: level_prices_def dest!: in_set_takeD)
  qed
  from this [OF assms(2)] this [OF assms(3)] obtain x y where xy: "x \<in> set (side_list Buy b)" "fst bid = fst x"
      "y \<in> set (side_list Sell b)" "fst ask = fst y" by (auto elim!: imageE)
  then have "fst x < fst y" using assms(1) by (simp add: book_ok_def uncrossed_def)
  then show ?thesis using xy by simp
qed

lemma best_prices_uncrossed:
  assumes "book_ok b" "first_of (bid_levels b n) = Some (bid, x)" "first_of (ask_levels b m) = Some (ask, y)"
  shows "bid < ask"
proof -
  have "first_of ls = Some l \<Longrightarrow> l \<in> set ls" for ls :: "(price \<times> quantity) list" and l
    by (cases ls) (auto simp: first_of_def)
  from this [OF assms(2)] this [OF assms(3)] show ?thesis
    using levels_uncrossed [OF assms(1), of "(bid, x)" n "(ask, y)" m] by (simp add: levels_def)
qed

text \<open>What a pair's page shows: bars of at most 100 percent, and a positive spread between a best bid
  and a best ask.\<close>

lemma build_pair_ok:
  assumes "book_ok b"
  shows "\<exists>p. build_pair tx i bs qs ds b = Some p \<and> dq_book_id p = i \<and>
    list_all (\<lambda>l. unat (dd_bar_width_percent l) \<le> 100) (dh_bids (dq_depth p) @ dh_asks (dq_depth p)) \<and>
    (dq_best_bid p \<noteq> None \<longrightarrow> dq_best_ask p \<noteq> None \<longrightarrow>
       (\<exists>sp. sp \<noteq> 0 \<and> dq_spread p = Some (amount_new tx (unat (sp :: price)) (pd_quote ds))))"
proof -
  let ?bids = "bid_levels b DEPTH_LEVELS" and ?asks = "ask_levels b DEPTH_LEVELS"
  obtain d where d: "build_depth tx ?bids ?asks ds = Some d"
      "list_all (\<lambda>l. unat (dd_bar_width_percent l) \<le> 100) (dh_bids d @ dh_asks d)" using build_depth_ok by blast
  have "\<exists>sp. sp \<noteq> 0 \<and> book_spread (first_of ?bids) (first_of ?asks) = Some sp"
    if "first_of ?bids = Some l" "first_of ?asks = Some m" for l m
  proof -
    have lt: "fst l < fst m" using best_prices_uncrossed [OF assms] that by (cases l, cases m) auto
    then have "price_checked_sub (fst m) (fst l) = Some (fst m - fst l)" by (simp add: price_checked_sub_def checked_sub_def)
    moreover have "fst m - fst l \<noteq> 0" using lt by auto
    ultimately show ?thesis using that by (cases l, cases m) (auto simp: book_spread_def)
  qed
  then show ?thesis using d by (force simp: build_pair_def Let_def)
qed

end
