(* ===== verification/Queries.thy ===== *)
theory Queries
  imports Exchange_Liveness Market_Data
begin

text \<open>
  Queries never trap: every lookup that the code expects to succeed does, in every reachable state. The
  fee pool needs an invariant of its own, that it holds entries of registered tokens only.
\<close>

section \<open>The fee pool holds registered tokens\<close>

definition pool_known :: "trade_state \<Rightarrow> bool" where
  "pool_known s \<longleftrightarrow> (\<forall>t \<in> set (bt_keys (tb_fee_pool (st_balances s))). bt_contains (st_tokens s) t)"

definition tokens_kept :: "trade_state \<Rightarrow> trade_state \<Rightarrow> bool" where
  "tokens_kept s s' \<longleftrightarrow> tb_fee_pool (st_balances s') = tb_fee_pool (st_balances s) \<and>
     (\<forall>t. bt_contains (st_tokens s) t \<longrightarrow> bt_contains (st_tokens s') t)"

lemma pool_known_kept: "tokens_kept s s' \<Longrightarrow> pool_known s \<Longrightarrow> pool_known s'"
  by (simp add: tokens_kept_def pool_known_def)

lemma kept_token: "record_token t m s = Some s' \<Longrightarrow> tokens_kept s s'"
  by (auto simp: record_token_def tokens_kept_def trap_simps bt_contains_def split: option.splits)

lemma kept_trans: "tokens_kept a b \<Longrightarrow> tokens_kept b c \<Longrightarrow> tokens_kept a c"
  by (simp add: tokens_kept_def)

lemma kept_pair:
  assumes "record_trading_pair i pair bm qm tick lot mn mx rates s = Some s'"
  shows "tokens_kept s s'"
proof -
  obtain s1 s2 where x: "record_token (tp_base pair) bm s = Some s1" "record_token (tp_quote pair) qm s1 = Some s2"
      "st_tokens s' = st_tokens s2" "st_balances s' = st_balances s2"
    using assms by (auto simp: record_trading_pair_def Let_def trap_simps)
  from kept_trans [OF kept_token [OF x(1)] kept_token [OF x(2)]] show ?thesis using x(3,4) by (simp add: tokens_kept_def)
qed

lemma kept_deposit: "st_deposit p t a m s = Some s' \<Longrightarrow> tokens_kept s s'"
  by (cases "get_or_register p (st_registry s)"; cases m)
     (auto simp: st_deposit_def tokens_kept_def trap_simps dest: tb_deposit_pool)

lemma kept_withdraw: "st_withdraw p t a s = Some (r, s') \<Longrightarrow> tokens_kept s s'"
  by (auto simp: st_withdraw_def tokens_kept_def trap_simps dest: tb_withdraw_pool split: option.splits)

lemma kept_order: "record_limit_order u i ord pb now m s = Some s' \<Longrightarrow> tokens_kept s s'"
  by (cases m) (auto simp: record_limit_order_def reserve_and_record_def tokens_kept_def Let_def trap_simps dest: tb_reserve_pool)

lemma kept_transition:
  assumes "apply_state_transition payload now Write s = Some s'" "\<forall>ev. payload \<noteq> Ev_Settling ev"
  shows "tokens_kept s s'"
proof (cases payload)
  case (Ev_AddLimitOrder ev)
  then show ?thesis using assms(1) kept_order by (auto simp: apply_state_transition_def Let_def split: prod.splits)
next
  case (Ev_AddTradingPair ev)
  then show ?thesis using assms(1) kept_pair by (auto simp: apply_state_transition_def)
next
  case (Ev_Deposit ev)
  then show ?thesis using assms(1) kept_deposit by (auto simp: apply_state_transition_def)
next
  case (Ev_Withdraw ev)
  then show ?thesis using assms(1) kept_withdraw by (auto simp: apply_state_transition_def trap_simps)
next
  case (Ev_Upgrade arg)
  then show ?thesis using assms(1)
    by (auto simp: apply_state_transition_def apply_upgrade_def tokens_kept_def Let_def trap_simps split: option.splits if_splits)
qed (use assms in \<open>auto simp: apply_state_transition_def tokens_kept_def record_cancel_limit_order_def record_matching_event_def
      st_record_add_trading_account_def st_record_remove_trading_account_def Let_def trap_simps split: option.splits if_splits prod.splits\<close>)

lemma apply_operation_keys:
  assumes "apply_operation pair resolved op wb = Some wb'"
  shows "set (bt_keys (wb_fee_pool wb')) \<subseteq> insert (tp_base pair) (insert (tp_quote pair) (set (bt_keys (wb_fee_pool wb))))"
  using assms
  by (cases op)
     (auto simp: apply_operation_def wb_transfer_def wb_unreserve_def withhold_def load_existing_Some load_or_create_Some
       trading_pair_token_def Let_def trap_simps split: if_splits pair_token.splits)

lemma apply_operations_keys:
  "apply_operations pair resolved ops wb = Some wb' \<Longrightarrow>
   set (bt_keys (wb_fee_pool wb')) \<subseteq> insert (tp_base pair) (insert (tp_quote pair) (set (bt_keys (wb_fee_pool wb))))"
proof (induction ops arbitrary: wb)
  case (Cons op ops)
  then obtain wb1 where "apply_operation pair resolved op wb = Some wb1" "apply_operations pair resolved ops wb1 = Some wb'"
    by (auto simp: trap_simps)
  then show ?case using Cons.IH [of wb1] apply_operation_keys by blast
qed auto

lemma listed_pair:
  assumes "heap_ok s" "get_pair (st_pairs s) i = Some pair"
  shows "bt_contains (st_tokens s) (tp_base pair) \<and> bt_contains (st_tokens s) (tp_quote pair)"
  by (rule heap_ok_pair_parts [OF assms(1) get_pair_in_set [OF assms(2)]]) (auto simp: bt_contains_def)

lemma pool_known_settling:
  assumes "heap_ok s" "pool_known s" "record_settling_event ev now Write s = Some s'"
  shows "pool_known s'"
proof -
  obtain pair resolved trades wb where x: "get_pair (st_pairs s) (se_book_id ev) = Some pair"
      "apply_operations pair resolved (se_operations ev)
        (write_back_new (tb_balances (st_balances s)) (tb_fee_pool (st_balances s))) = Some wb"
      "s' = s\<lparr>st_trades := trades, st_balances := \<lparr>tb_balances = wb_flush wb, tb_fee_pool = wb_fee_pool wb\<rparr>\<rparr>"
    using assms(3) by (auto simp: record_settling_event_def with_write_back_def trap_simps)
  show ?thesis
    using apply_operations_keys [OF x(2)] listed_pair [OF assms(1) x(1)] assms(2)
    by (auto simp: pool_known_def x(3) write_back_new_def)
qed

lemma event_run_pool:
  "event_run pc c c' \<Longrightarrow> heap_ok (cn_state c) \<Longrightarrow> pool_known (cn_state c) \<Longrightarrow> pool_known (cn_state c')"
proof (induction rule: event_run.induct)
  case (run_event c c1 payload now c2)
  have "\<forall>ev. payload \<noteq> Ev_Settling ev" using run_event.hyps(2) by (auto simp: event_allowed_def)
  then show ?case using run_event by (auto simp: process_event_Some intro: pool_known_kept [OF kept_transition])
next
  case (run_settle c c1 xs ev ys now c2)
  let ?s = "(cn_state c1)\<lparr>st_settling := xs @ ys\<rparr>"
  have ok: "heap_ok (cn_state c1)" by (rule event_run_heap [OF run_settle.hyps(1) run_settle.prems(1)])
  have "heap_ok ?s" by (rule heap_ok_simple [OF ok]) (simp_all add: heap_of_eq heap_ok_maps [OF ok])
  moreover have "pool_known ?s" using run_settle by (simp add: pool_known_def)
  moreover have "record_settling_event ev now Write ?s = Some (cn_state c2)"
    using run_settle.hyps(3) by (auto simp: process_event_Some apply_state_transition_def)
  ultimately show ?case by (rule pool_known_settling)
qed (simp_all add: pool_known_def)

lemma pool_known_frame [simp]:
  "pool_known (user_op_guard_drop p t s) = pool_known s" "pool_known (s\<lparr>st_in_flight := x\<rparr>) = pool_known s"
  "pool_known (set_cached_ledger_fee t f s) = pool_known s"
  by (simp_all add: pool_known_def user_op_guard_drop_def set_cached_ledger_fee_def)

lemma sys_change_pool:
  assumes "sys_change pc y y'" "heap_ok (cn_state (sy_canister y))" "pool_known (cn_state (sy_canister y))"
  shows "pool_known (cn_state (sy_canister y'))"
  using assms(1)
proof cases
  case (change_run c)
  then show ?thesis using event_run_pool assms(2,3) by auto
next
  case (change_open_withdraw p t s a s' f)
  then show ?thesis using pool_known_kept [OF kept_withdraw [OF change_open_withdraw(5)]] assms(3) by simp
next
  case (change_deposited p t a now c)
  have "tokens_kept (cn_state (sy_canister y)) (cn_state c)"
    using change_deposited(3) by (auto simp: process_event_Some intro: kept_transition)
  then show ?thesis using change_deposited(1) pool_known_kept assms(3) by simp
next
  case (change_refunded p t a f s s0 f' s')
  have "pool_known s0" using change_refunded(3,4) assms(3) by auto
  then show ?thesis using change_refunded(1) pool_known_kept [OF kept_deposit [OF change_refunded(5)]] by simp
qed (use assms(3) in \<open>auto simp: record_event_def\<close>)

lemma reachable_pool:
  assumes "reachable pc big arg y" "length (cn_log (sy_canister y)) \<le> 2 ^ 64"
  shows "pool_known (cn_state (sy_canister y))"
  using assms
proof (induction rule: reachable.induct)
  case (reach_init now c)
  then show ?case by (auto simp: canister_init_def state_new_def pool_known_def trap_simps split: oisy_trade_arg.splits sum.splits)
next
  case (reach_step y y')
  have len: "length (cn_log (sy_canister y)) \<le> 2 ^ 64" using sys_step_log [OF reach_step.hyps(2)] reach_step.prems by linarith
  note inv = sys_inv_reachable [OF reach_step.hyps(1) len]
  have "sys_change pc y y'" by (rule sys_inv_step(2) [OF inv reach_step.hyps(2) reach_step.prems])
  then show ?case using sys_change_pool reach_step.IH [OF len] inv by (simp add: sys_inv_def)
qed

section \<open>Reading pairs, fees and metrics\<close>

lemma get_trading_pairs_returns:
  assumes "heap_ok s"
  shows "\<exists>ps. get_trading_pairs s = Some ps \<and> map (\<lambda>p. (pi_base p, pi_quote p)) ps = map (\<lambda>e. (tp_base (fst e), tp_quote (fst e))) (st_pairs s)"
proof -
  have "\<exists>p. trading_pair_info_of s e = Some p \<and> (pi_base p, pi_quote p) = (tp_base (fst e), tp_quote (fst e))" if "e \<in> set (st_pairs s)" for e
    by (rule heap_ok_pair_parts [OF assms that]) (simp add: trading_pair_info_of_def)
  then have "\<exists>ps. those (map (trading_pair_info_of s) es) = Some ps \<and>
      map (\<lambda>p. (pi_base p, pi_quote p)) ps = map (\<lambda>e. (tp_base (fst e), tp_quote (fst e))) es" if "set es \<subseteq> set (st_pairs s)" for es
    using that by (induction es) fastforce+
  then show ?thesis by (simp add: get_trading_pairs_def)
qed

lemma fee_entries_returns:
  assumes "\<forall>t \<in> set (bt_keys pool). bt_contains tokens t"
  shows "fee_entries tokens pool \<noteq> None" "fee_samples tokens pool \<noteq> None"
proof -
  have "fee_entries tokens pool \<noteq> None \<and> fee_samples tokens pool \<noteq> None"
    using assms
  proof (induction pool)
    case (Cons e pool)
    obtain t a m where e: "e = (t, a)" "bt_get tokens t = Some m" using Cons.prems by (cases e) (auto simp: bt_contains_def)
    then show ?case using Cons by auto
  qed simp
  then show "fee_entries tokens pool \<noteq> None" "fee_samples tokens pool \<noteq> None" by blast+
qed

lemma metrics_return:
  assumes "heap_ok s" "pool_known s"
  shows "encode_metrics cycles pages heap s log \<noteq> None"
proof -
  have "\<exists>m. order_book_metrics_of s e = Some m" if "e \<in> set (st_pairs s)" for e
    by (rule heap_ok_pair_parts [OF assms(1) that]) (simp add: order_book_metrics_of_def)
  then have "\<exists>ms. order_book_metrics_from_state s = Some ms \<and> list_all (\<lambda>_. True) ms"
    unfolding order_book_metrics_from_state_def those_Some_iff by simp
  then show ?thesis
    using fee_entries_returns(2) [of "tb_fee_pool (st_balances s)" "st_tokens s"] assms(2)
    by (auto simp: encode_metrics_def encode_fee_balances_def pool_known_def)
qed

lemma those_length: "those xs = Some ys \<Longrightarrow> length ys = length xs"
  by (induction xs arbitrary: ys) (auto split: option.splits)

text \<open>The dashboard renders: one section per pair, bars of at most 100 percent, and a positive spread
  wherever both sides quote a price.\<close>

definition pair_drawn :: "dashboard_pair \<Rightarrow> bool" where
  "pair_drawn p \<longleftrightarrow>
     list_all (\<lambda>l. unat (dd_bar_width_percent l) \<le> 100) (dh_bids (dq_depth p) @ dh_asks (dq_depth p)) \<and>
     (dq_best_bid p \<noteq> None \<longrightarrow> dq_best_ask p \<noteq> None \<longrightarrow> dq_spread p \<noteq> None)"

lemma dashboard_returns:
  assumes "heap_ok s"
  shows "\<exists>d. dashboard_from_state tx s me n = Some d \<and> list_all pair_drawn (dm_pairs d) \<and> length (dm_pairs d) = length (st_pairs s) \<and>
    map dt_ledger_id (dm_tokens d) = bt_keys (st_tokens s)"
proof -
  have "\<exists>p. dashboard_pair_of tx s e = Some p \<and> pair_drawn p" if e: "e \<in> set (st_pairs s)" for e
  proof -
    obtain book base quote where x: "bt_get (st_books s) (snd e) = Some book" "bt_get (st_tokens s) (tp_base (fst e)) = Some base"
      "bt_get (st_tokens s) (tp_quote (fst e)) = Some quote" "book_ok book" using heap_ok_pair_parts [OF assms e] by blast
    show ?thesis
      using x(1-3) build_pair_ok [OF x(4), of tx "bk_id book" "symbol base" "symbol quote" "\<lparr>pd_base = decimals base, pd_quote = decimals quote\<rparr>"]
      by (auto simp: dashboard_pair_of_def pair_drawn_def)
  qed
  then obtain ps where ps: "those (map (dashboard_pair_of tx s) (st_pairs s)) = Some ps" "list_all pair_drawn ps"
    using those_Some_iff [of "dashboard_pair_of tx s" "st_pairs s" pair_drawn] by blast
  have "length ps = length (st_pairs s)" using those_length [OF ps(1)] by simp
  then show ?thesis using ps by (simp add: dashboard_from_state_def bt_keys_def split_def o_def)
qed

lemma heap_ok_book_id:
  assumes "heap_ok s" "get_book_id (st_pairs s) pair = Some i"
  shows "\<exists>b. bt_get (st_books s) i = Some b \<and> book_ok b"
proof -
  have "(pair, i) \<in> set (st_pairs s)" using assms(2) by (auto simp: get_book_id_def dest: bt_get_in_set)
  from heap_ok_pair_parts [OF assms(1) this] show ?thesis by (metis snd_conv)
qed

end
