(* ===== verification/Ownership.thy ===== *)
theory Ownership
  imports Queries
begin

text \<open>
  Who sees what: the per-user indexes of the order and trade histories list, under a user, only orders
  that user placed and trades of such orders. The owner of an order never changes.
\<close>

section \<open>The invariant\<close>

definition owner_of :: "trade_state \<Rightarrow> order_id \<Rightarrow> principal option" where
  "owner_of s k = map_option or_owner (history_get (st_orders s) k)"

definition entry_owned :: "trade_state \<Rightarrow> user_id \<Rightarrow> order_id \<Rightarrow> bool" where
  "entry_owned s u k \<longleftrightarrow> (\<exists>p. owner_of s k = Some p \<and> bt_get (ur_users (st_registry s)) p = Some u)"

definition index_owned :: "trade_state \<Rightarrow> bool" where
  "index_owned s \<longleftrightarrow> (\<forall>e \<in> set (hi_by_user (st_orders s)). entry_owned s (fst (fst e)) (snd e)) \<and>
     (\<forall>e \<in> set (hi_by_user (st_trades s)). entry_owned s (fst (fst e)) (fst (snd e)))"

definition owners_kept :: "trade_state \<Rightarrow> trade_state \<Rightarrow> bool" where
  "owners_kept s s' \<longleftrightarrow> (\<forall>k p. owner_of s k = Some p \<longrightarrow> owner_of s' k = Some p) \<and>
     (\<forall>p u. bt_get (ur_users (st_registry s)) p = Some u \<longrightarrow> bt_get (ur_users (st_registry s')) p = Some u)"

lemma entry_owned_kept: "owners_kept s s' \<Longrightarrow> entry_owned s u k \<Longrightarrow> entry_owned s' u k"
  unfolding owners_kept_def entry_owned_def by blast

lemma index_owned_kept:
  assumes "index_owned s" "owners_kept s s'"
    "set (hi_by_user (st_orders s')) \<subseteq> set (hi_by_user (st_orders s))" "set (hi_by_user (st_trades s')) \<subseteq> set (hi_by_user (st_trades s))"
  shows "index_owned s'"
  using assms(1,3,4) entry_owned_kept [OF assms(2)] unfolding index_owned_def by fast

section \<open>Events\<close>

lemma insert_once_effect:
  assumes "insert_once u k r h = Some h'"
  shows "history_get h' = (history_get h)(k \<mapsto> r)" "history_get h k = None"
    "\<exists>q. set (hi_by_user h') \<subseteq> insert ((u, q), k) (set (hi_by_user h))"
proof -
  have h': "h' = h\<lparr>hi_primary := bt_insert k (history_len h, r) (hi_primary h), hi_by_user := bt_insert (u, history_len h) k (hi_by_user h)\<rparr>"
      "bt_get (hi_primary h) k = None"
    using assms by (simp_all add: insert_once_def Let_def trap_simps)
  show "history_get h' = (history_get h)(k \<mapsto> r)" "history_get h k = None" using h'(2) by (auto simp: h'(1) history_get_def)
  show "\<exists>q. set (hi_by_user h') \<subseteq> insert ((u, q), k) (set (hi_by_user h))"
    using set_bt_insert_subset [of "(u, history_len h)" k "hi_by_user h"] by (intro exI [of _ "history_len h"]) (simp add: h'(1))
qed

lemma apply_update_effect:
  assumes "apply_update k upd now h = Some h'"
  shows "hi_by_user h' = hi_by_user h" "map_option or_owner (history_get h' j) = map_option or_owner (history_get h j)"
proof -
  have status: "or_owner (fst (apply_status upd st)) = or_owner (fst st)" for st
    by (cases st) (simp add: apply_status_def split: option.split)
  have filled: "apply_filled upd st = Some st' \<Longrightarrow> or_owner (fst st') = or_owner (fst st)" for st st'
    by (auto simp: apply_filled_def trap_simps split: if_splits)
  have quote: "apply_quote upd st = Some st' \<Longrightarrow> or_owner (fst st') = or_owner (fst st)" for st st'
    by (auto simp: apply_quote_def trap_simps split: if_splits)
  have fee: "apply_fee upd st = Some st' \<Longrightarrow> or_owner (fst st') = or_owner (fst st)" for st st'
    by (auto simp: apply_fee_def trap_simps split: if_splits)
  have keep: "or_owner r' = or_owner r" if ua: "update_apply upd r = Some (r', changed)" for r r' changed
  proof -
    obtain st st' where x: "apply_filled upd (apply_status upd (r, False)) = Some st" "apply_quote upd st = Some st'"
        "apply_fee upd st' = Some (r', changed)"
      using ua unfolding update_apply_def Option.bind_eq_Some_conv by blast
    from filled [OF x(1)] quote [OF x(2)] fee [OF x(3)] status [of "(r, False)"] show ?thesis by simp
  qed
  show "hi_by_user h' = hi_by_user h" using assms by (auto simp: apply_update_def modify_def trap_simps)
  show "map_option or_owner (history_get h' j) = map_option or_owner (history_get h j)"
    using assms keep by (auto simp: apply_update_def modify_def history_get_def trap_simps split: if_splits)
qed

lemma apply_updates_effect:
  assumes "apply_updates i us now h = Some h'"
  shows "hi_by_user h' = hi_by_user h \<and> (\<forall>j. map_option or_owner (history_get h' j) = map_option or_owner (history_get h j))"
  using assms
proof (induction us arbitrary: h)
  case (Cons x us)
  then obtain q upd h1 where "apply_update (i, q) upd now h = Some h1" "apply_updates i us now h1 = Some h'"
    by (cases x) (auto simp: trap_simps)
  then show ?case using Cons.IH [of h1] apply_update_effect [of "(i, q)" upd now h h1] by simp
qed simp

lemma owned_update:
  assumes "index_owned s" "hi_by_user (st_orders s') = hi_by_user (st_orders s)" "st_registry s' = st_registry s" "st_trades s' = st_trades s"
    "\<forall>j. map_option or_owner (history_get (st_orders s') j) = map_option or_owner (history_get (st_orders s) j)"
  shows "index_owned s'"
  by (rule index_owned_kept [OF assms(1)]) (simp_all add: assms(2-4) owners_kept_def owner_of_def assms(5))

lemma owned_place:
  assumes own: "index_owned s" and reg: "registry_ok (st_registry s)" and r: "record_limit_order p i ord pb now Write s = Some s'"
  shows "index_owned s'"
proof -
  obtain u orders where x: "lookup_funding_id (st_registry s) p = Some u"
      "insert_once u (i, ord_id ord) (initial_record p ord pb now) (st_orders s) = Some orders"
      "st_orders s' = orders" "st_registry s' = st_registry s" "st_trades s' = st_trades s"
    using r by (auto simp: record_limit_order_def reserve_and_record_def trap_simps)
  note e = insert_once_effect [OF x(2)]
  obtain q where q: "set (hi_by_user orders) \<subseteq> insert ((u, q), (i, ord_id ord)) (set (hi_by_user (st_orders s)))" using e(3) by blast
  have kept: "owners_kept s s'" using e(1,2) by (auto simp: owners_kept_def owner_of_def x(3,4))
  have new: "entry_owned s' u (i, ord_id ord)"
    using x(1) reg e(1) by (simp add: entry_owned_def owner_of_def x(3,4) initial_record_def lookup_funding_id_eq)
  show ?thesis
    unfolding index_owned_def x(3,5)
  proof (intro conjI ballI)
    fix e
    assume "e \<in> set (hi_by_user orders)"
    then consider "e = ((u, q), (i, ord_id ord))" | "e \<in> set (hi_by_user (st_orders s))" using q by blast
    then show "entry_owned s' (fst (fst e)) (snd e)"
      using new own entry_owned_kept [OF kept] by cases (simp_all add: index_owned_def)
  qed (use own entry_owned_kept [OF kept] in \<open>simp add: index_owned_def\<close>)
qed

lemma resolve_seqs_owner:
  assumes "resolve_seqs i h r qs = Some resolved" "bt_get resolved q = Some rv"
  shows "\<exists>rec. history_get h (i, q) = Some rec \<and> lookup_funding_id r (or_owner rec) = Some (rv_user rv)"
  using assms
proof (induction qs arbitrary: resolved)
  case (Cons x qs)
  then obtain rx others where "resolve_order i h r x = Some rx" "resolve_seqs i h r qs = Some others" "resolved = (x, rx) # others"
    by (auto simp: trap_simps)
  then show ?case using Cons.IH [of others] Cons.prems(2) by (auto simp: resolve_order_def trap_simps split: if_splits)
qed simp

lemma append_fills_index:
  assumes "append_fills i scale now resolved fs h = Some h'"
    "\<And>q rv. bt_get resolved q = Some rv \<Longrightarrow> entry_owned s (rv_user rv) (i, q)"
    "\<forall>e \<in> set (hi_by_user h). entry_owned s (fst (fst e)) (fst (snd e))"
  shows "\<forall>e \<in> set (hi_by_user h'). entry_owned s (fst (fst e)) (fst (snd e))"
  using assms(1,3)
proof (induction fs arbitrary: h)
  case (Cons f fs)
  obtain tk mk tl ml h1 where x: "bt_get resolved (fe_taker f) = Some tk" "bt_get resolved (fe_maker f) = Some mk"
      "trade_legs f i (rv_side tk) (rv_price mk) scale now = Some (tl, ml)"
      "trades_append tl (rv_user tk) ml (rv_user mk) h = Some h1" "append_fills i scale now resolved fs h1 = Some h'"
    using Cons.prems(1) by (auto simp: trap_simps)
  have legs: "fst (fst tl) = (i, fe_taker f)" "fst (fst ml) = (i, fe_maker f)" using x(3) by (auto simp: trade_legs_def Let_def trap_simps)
  obtain h0 where h0: "insert_once (rv_user tk) (fst tl) (snd tl) h = Some h0" "insert_once (rv_user mk) (fst ml) (snd ml) h0 = Some h1"
    using x(4) by (auto simp: trades_append_def trap_simps)
  have step: "\<forall>e \<in> set (hi_by_user h2'). entry_owned s (fst (fst e)) (fst (snd e))"
    if ins: "insert_once u k r h2 = Some h2'" and own: "entry_owned s u (fst k)" "\<forall>e \<in> set (hi_by_user h2). entry_owned s (fst (fst e)) (fst (snd e))"
    for u k h2 h2' and r :: trade_record
  proof
    fix e
    assume e: "e \<in> set (hi_by_user h2')"
    obtain q where "set (hi_by_user h2') \<subseteq> insert ((u, q), k) (set (hi_by_user h2))" using insert_once_effect(3) [OF ins] by blast
    then consider "e = ((u, q), k)" | "e \<in> set (hi_by_user h2)" using e by blast
    then show "entry_owned s (fst (fst e)) (fst (snd e))" using own by cases simp_all
  qed
  have "\<forall>e \<in> set (hi_by_user h0). entry_owned s (fst (fst e)) (fst (snd e))"
    by (rule step [OF h0(1) _ Cons.prems(2)]) (simp add: legs assms(2) [OF x(1)])
  then have "\<forall>e \<in> set (hi_by_user h1). entry_owned s (fst (fst e)) (fst (snd e))"
    by (intro step [OF h0(2)]) (simp add: legs assms(2) [OF x(2)])
  then show ?case using Cons.IH [OF x(5)] by blast
qed simp

lemma owned_settling:
  assumes own: "index_owned s" and reg: "registry_ok (st_registry s)" and r: "record_settling_event ev now Write s = Some s'"
  shows "index_owned s'"
proof -
  obtain scale resolved trades where x: "resolve_op_orders (se_book_id ev) (se_operations ev) (st_orders s) (st_registry s) = Some resolved"
      "append_fills (se_book_id ev) scale now resolved (se_fills ev) (st_trades s) = Some trades"
      "st_orders s' = st_orders s" "st_registry s' = st_registry s" "st_trades s' = trades"
    using r by (auto simp: record_settling_event_def trap_simps)
  have "entry_owned s (rv_user rv) (se_book_id ev, q)" if "bt_get resolved q = Some rv" for q rv
    using resolve_seqs_owner [OF x(1) [unfolded resolve_op_orders_def] that] reg
    by (auto simp: entry_owned_def owner_of_def lookup_funding_id_eq)
  from append_fills_index [OF x(2) this] have "\<forall>e \<in> set (hi_by_user trades). entry_owned s (fst (fst e)) (fst (snd e))"
    using own by (simp add: index_owned_def)
  then show ?thesis using own by (simp add: index_owned_def entry_owned_def owner_of_def x(3-5))
qed

lemma owned_frame:
  assumes "index_owned s" "st_orders s' = st_orders s" "st_trades s' = st_trades s"
    "\<And>p u. bt_get (ur_users (st_registry s)) p = Some u \<Longrightarrow> bt_get (ur_users (st_registry s')) p = Some u"
  shows "index_owned s'"
  by (rule index_owned_kept [OF assms(1)]) (use assms(4) in \<open>simp_all add: assms(2,3) owners_kept_def owner_of_def\<close>)

lemma owned_event:
  assumes own: "index_owned s" and reg: "registry_ok (st_registry s)" and allowed: "event_allowed pc payload now s"
    and t: "apply_state_transition payload now Write s = Some s'" and users: "ur_users (st_registry s') = ur_users (st_registry s)"
  shows "index_owned s'"
proof (cases payload)
  case (Ev_AddLimitOrder ev)
  then show ?thesis using t owned_place [OF own reg] by (auto simp: apply_state_transition_def Let_def split: prod.splits)
next
  case (Ev_Matching ev)
  then obtain us h where x: "apply_updates (me_book_id ev) us now (st_orders s) = Some h" "st_orders s' = h" "st_trades s' = st_trades s"
      "st_registry s' = st_registry s"
    using t by (auto simp: apply_state_transition_def record_matching_event_def Let_def trap_simps)
  show ?thesis by (rule owned_update [OF own]) (use apply_updates_effect [OF x(1)] in \<open>simp_all add: x(2-4)\<close>)
next
  case (Ev_CancelLimitOrder ev)
  then obtain upd h where x: "apply_update (ce_order_id ev) upd now (st_orders s) = Some h" "st_orders s' = h" "st_trades s' = st_trades s"
      "st_registry s' = st_registry s"
    using t by (cases "ce_order_id ev") (auto simp: apply_state_transition_def record_cancel_limit_order_def Let_def trap_simps)
  show ?thesis by (rule owned_update [OF own]) (use apply_update_effect [OF x(1)] in \<open>simp_all add: x(2-4)\<close>)
next
  case (Ev_AddTradingPair ev)
  then have "st_orders s' = st_orders s \<and> st_trades s' = st_trades s"
    using t by (auto simp: apply_state_transition_def record_trading_pair_def record_token_def Let_def trap_simps split: option.splits)
  then show ?thesis using owned_frame [OF own] users by simp
next
  case (Ev_Upgrade arg)
  then have "st_orders s' = st_orders s \<and> st_trades s' = st_trades s"
    using t by (auto simp: apply_state_transition_def apply_upgrade_def Let_def trap_simps split: option.splits if_splits)
  then show ?thesis using owned_frame [OF own] users by simp
qed (use allowed t users owned_frame [OF own] in \<open>auto simp: event_allowed_def apply_state_transition_def
      st_record_add_trading_account_def st_record_remove_trading_account_def trap_simps\<close>)

lemma event_run_owned:
  "event_run pc c c' \<Longrightarrow> accounts_ok (cn_state c) \<Longrightarrow> index_owned (cn_state c) \<Longrightarrow> index_owned (cn_state c')"
proof (induction rule: event_run.induct)
  case (run_event c c1 payload now c2)
  have acc: "accounts_ok (cn_state c1)" using event_run_accounts [OF run_event.hyps(1) run_event.prems(1)] by blast
  have step: "event_run pc c1 c2" by (rule event_run.run_event [OF run_refl run_event.hyps(2,3)])
  obtain s where s: "apply_state_transition payload now Write (cn_state c1) = Some s" "cn_state c2 = s"
    using run_event.hyps(3) by (auto simp: process_event_Some)
  show ?case using owned_event [OF _ _ run_event.hyps(2) s(1)] run_event.IH run_event.prems event_run_accounts [OF step acc] acc s(2)
    by (simp add: accounts_ok_def)
next
  case (run_settle c c1 xs ev ys now c2)
  let ?s = "(cn_state c1)\<lparr>st_settling := xs @ ys\<rparr>"
  have "registry_ok (st_registry ?s)"
    using event_run_accounts [OF run_settle.hyps(1) run_settle.prems(1)] by (simp add: accounts_ok_def)
  moreover have "index_owned ?s" using owned_frame [of "cn_state c1" ?s] run_settle by simp
  moreover have "record_settling_event ev now Write ?s = Some (cn_state c2)"
    using run_settle.hyps(3) by (auto simp: process_event_Some apply_state_transition_def)
  ultimately show ?case using owned_settling by blast
next
  case (run_tasks c c1 ts)
  then show ?case using owned_frame [of "cn_state c1" "(cn_state c1)\<lparr>st_tasks := ts\<rparr>"] by simp
qed simp

section \<open>Messages\<close>

lemma deposit_users:
  assumes "registry_ok (st_registry s)" "bt_get (ur_trading_accounts (st_registry s)) p = None" "length (ur_users (st_registry s)) < 2 ^ 64"
    "st_deposit p t a Write s = Some s'" "bt_get (ur_users (st_registry s)) q = Some u"
  shows "bt_get (ur_users (st_registry s')) q = Some u"
proof -
  obtain i r' where r': "get_or_register p (st_registry s) = (i, r')" "bt_get (ur_users r') = (bt_get (ur_users (st_registry s)))(p \<mapsto> i)"
    using get_or_register_ok [OF assms(1-3)] by blast
  have "st_registry s' = r'" using assms(4) r'(1) by (auto simp: st_deposit_def trap_simps)
  moreover have "bt_get (ur_users (st_registry s)) p = Some v \<Longrightarrow> v = i" for v using r'(1) by (auto simp: get_or_register_known)
  ultimately show ?thesis using assms(5) r'(2) by auto
qed

lemma owned_deposit:
  assumes own: "index_owned s" and inv: "sys_inv y" and call: "call \<in> set (sy_calls y)" "call_key call = (p, t)"
    and s: "st_registry s = st_registry (cn_state (sy_canister y))" "st_deposit p t a Write s = Some s'"
    and len: "length (cn_log (sy_canister y)) < 2 ^ 64"
  shows "index_owned s'"
proof -
  note d = sys_invD [OF inv call]
  have "st_orders s' = st_orders s" "st_trades s' = st_trades s"
    using s(2) by (cases "get_or_register p (st_registry s)"; auto simp: st_deposit_def trap_simps)+
  then show ?thesis
    by (rule owned_frame [OF own]) (use deposit_users [OF _ _ _ s(2)] d(1,3,4) len in \<open>simp add: s(1)\<close>)
qed

lemma sys_change_owned:
  assumes ch: "sys_change pc y y'" and inv: "sys_inv y" and own: "index_owned (cn_state (sy_canister y))"
    and len: "length (cn_log (sy_canister y)) < 2 ^ 64"
  shows "index_owned (cn_state (sy_canister y'))"
  using ch
proof cases
  case (change_run c)
  then show ?thesis using event_run_owned own inv by (simp add: sys_inv_def)
next
  case (change_open_deposit p t s a)
  then show ?thesis using owned_frame [OF own] by simp
next
  case (change_open_withdraw p t s a s' f)
  have "st_orders s' = st_orders s" "st_trades s' = st_trades s" "st_registry s' = st_registry s"
    using change_open_withdraw(5) by (auto simp: st_withdraw_def trap_simps split: option.splits)
  then show ?thesis using change_open_withdraw(1,4) owned_frame [OF own] by simp
next
  case (change_deposit_failed p t a)
  then show ?thesis using owned_frame [OF own] by (simp add: user_op_guard_drop_def)
next
  case (change_trapped call)
  then show ?thesis using owned_frame [OF own] by (simp add: user_op_guard_drop_def)
next
  case (change_deposited p t a now c)
  have "st_deposit p t a Write (cn_state (sy_canister y)) = Some (cn_state c)"
    using change_deposited(3) by (auto simp: process_event_Some apply_state_transition_def)
  from owned_deposit [OF own inv change_deposited(2) _ refl this len] have "index_owned (cn_state c)" by (simp add: call_key_def)
  then show ?thesis using change_deposited(1) owned_frame [of "cn_state c"] by (simp add: user_op_guard_drop_def)
next
  case (change_withdrawn p t a f s s0 f' c block now)
  then show ?thesis using owned_frame [OF own] by (auto simp: record_event_def user_op_guard_drop_def set_cached_ledger_fee_def)
next
  case (change_refunded p t a f s s0 f' s')
  have s0: "index_owned s0" "st_registry s0 = st_registry (cn_state (sy_canister y))"
    using change_refunded(3,4) owned_frame [OF own] own by (auto simp: set_cached_ledger_fee_def)
  from owned_deposit [OF s0(1) inv change_refunded(2) _ s0(2) change_refunded(5) len] have "index_owned s'" by (simp add: call_key_def)
  then show ?thesis using change_refunded(1) owned_frame [of s'] by (simp add: user_op_guard_drop_def)
qed

lemma reachable_owned:
  assumes "reachable pc big arg y" "length (cn_log (sy_canister y)) < 2 ^ 64"
  shows "index_owned (cn_state (sy_canister y))"
  using assms
proof (induction rule: reachable.induct)
  case (reach_init now c)
  then show ?case
    by (auto simp: canister_init_def state_new_def index_owned_def history_new_def trap_simps split: oisy_trade_arg.splits sum.splits)
next
  case (reach_step y y')
  have len: "length (cn_log (sy_canister y)) < 2 ^ 64" using sys_step_log [OF reach_step.hyps(2)] reach_step.prems by linarith
  then have inv: "sys_inv y" using sys_inv_reachable [OF reach_step.hyps(1)] by simp
  have "sys_change pc y y'" using sys_inv_step(2) [OF inv reach_step.hyps(2)] reach_step.prems by simp
  then show ?case using sys_change_owned [OF _ inv reach_step.IH [OF len] len] by blast
qed

section \<open>What a caller sees\<close>

lemma registry_ok_inj:
  "registry_ok r \<Longrightarrow> bt_get (ur_users r) p = Some u \<Longrightarrow> bt_get (ur_users r) q = Some u \<Longrightarrow> q = p"
  unfolding registry_ok_def users_ok_def by blast

text \<open>A user's own list is complete and holds nothing else.\<close>

lemma user_keys_exact:
  assumes own: "index_owned s" and hist: "history_ok (st_orders s)" and reg: "registry_ok (st_registry s)"
    and u: "bt_get (ur_users (st_registry s)) p = Some u"
  shows "k \<in> set (user_keys u (st_orders s)) \<longleftrightarrow> owner_of s k = Some p"
proof
  assume "k \<in> set (user_keys u (st_orders s))"
  then obtain q where "((u, q), k) \<in> set (hi_by_user (st_orders s))" by (auto simp: user_keys_def)
  then obtain p' where "owner_of s k = Some p'" "bt_get (ur_users (st_registry s)) p' = Some u"
    using own by (fastforce simp: index_owned_def entry_owned_def)
  then show "owner_of s k = Some p" using registry_ok_inj [OF reg u] by simp
next
  assume k: "owner_of s k = Some p"
  then obtain q r where "(k, q, r) \<in> set (hi_primary (st_orders s))"
    by (auto simp: owner_of_def history_get_def dest: bt_get_in_set)
  then have "(q, k) \<in> (\<lambda>(k, s, _). (s, k)) ` set (hi_primary (st_orders s))" by force
  then have "(q, k) \<in> (\<lambda>((_, s), k). (s, k)) ` set (hi_by_user (st_orders s))" using hist by (simp add: history_ok_def)
  then obtain u' where u': "((u', q), k) \<in> set (hi_by_user (st_orders s))" by auto
  then have "entry_owned s u' k" using own by (fastforce simp: index_owned_def)
  then have "u' = u" using k u by (simp add: entry_owned_def)
  then show "k \<in> set (user_keys u (st_orders s))" using u' by (force simp: user_keys_def)
qed

lemma trade_keys_owned:
  assumes own: "index_owned s" and reg: "registry_ok (st_registry s)"
    and u: "bt_get (ur_users (st_registry s)) p = Some u" and k: "k \<in> set (user_keys u (st_trades s))"
  shows "owner_of s (fst k) = Some p"
proof -
  obtain q where "((u, q), k) \<in> set (hi_by_user (st_trades s))" using k by (auto simp: user_keys_def)
  then obtain p' where "owner_of s (fst k) = Some p'" "bt_get (ur_users (st_registry s)) p' = Some u"
    using own by (fastforce simp: index_owned_def entry_owned_def)
  then show ?thesis using registry_ok_inj [OF reg u] by simp
qed

lemma own_pairs:
  assumes "heap_ok s" "records_ok K s" "history_get (st_orders s) i = Some r"
  obtains pair where "get_pair (st_pairs s) (fst i) = Some pair"
proof -
  obtain b where "bt_get (st_books s) (fst i) = Some b"
    using records_okD [OF assms(2), of "fst i" "snd i" r] assms(3) by auto
  then show ?thesis using heap_okD [OF assms(1)] that by (metis listed_def)
qed

lemma orders_with_pairs_returns:
  assumes "heap_ok s" "records_ok K s" "\<forall>i \<in> set ids. history_get (st_orders s) i \<noteq> None"
  shows "\<exists>os. orders_with_pairs s ids = Some os \<and> map fst os = ids \<and>
    (\<forall>(i, pair, r) \<in> set os. history_get (st_orders s) i = Some r \<and> get_pair (st_pairs s) (fst i) = Some pair)"
  using assms(3)
proof (induction ids)
  case (Cons i ids)
  then obtain r where r: "history_get (st_orders s) i = Some r" by auto
  obtain pair where "get_pair (st_pairs s) (fst i) = Some pair" using own_pairs [OF assms(1,2) r] .
  then show ?case using Cons r by auto
qed simp

text \<open>The state the queries are asked in.\<close>

definition settled_view :: "nat \<Rightarrow> trade_state \<Rightarrow> bool" where
  "settled_view K s \<longleftrightarrow> heap_ok s \<and> records_ok K s \<and> trades_ok s \<and> registry_ok (st_registry s) \<and> index_owned s \<and> pool_known s"

lemma reachable_view:
  assumes "reachable pc big arg y" "length (cn_log (sy_canister y)) < 2 ^ 62"
    "\<And>t. deposited t (cn_log (sy_canister y)) \<le> K" "K < 2 ^ 192"
  shows "settled_view K (cn_state (sy_canister y))"
proof -
  have len: "length (cn_log (sy_canister y)) < 2 ^ 64" "length (cn_log (sy_canister y)) \<le> 2 ^ 64" using assms(2) by simp_all
  have "sys_inv y" by (rule sys_inv_reachable [OF assms(1) len(2)])
  then have "heap_ok (cn_state (sy_canister y))" "registry_ok (st_registry (cn_state (sy_canister y)))"
    by (simp_all add: sys_inv_def accounts_ok_def)
  then show ?thesis
    using exchange_okD(3,5) [OF aliveD(3) [OF reachable_alive [OF assms]]] reachable_owned [OF assms(1) len(1)] reachable_pool [OF assms(1) len(2)]
    by (simp add: settled_view_def)
qed

lemma get_user_order_returns:
  assumes "settled_view K s"
  shows "\<exists>x. get_user_order p i s = Some x \<and> (owner_of s i \<noteq> Some p \<longrightarrow> x = None) \<and>
    (owner_of s i = Some p \<longrightarrow> (\<exists>pair r. x = Some (i, pair, r) \<and> history_get (st_orders s) i = Some r))"
proof (cases "history_get (st_orders s) i")
  case None
  then show ?thesis by (simp add: get_user_order_def owner_of_def)
next
  case (Some r)
  have h: "heap_ok s" "records_ok K s" using assms by (simp_all add: settled_view_def)
  obtain pair where "get_pair (st_pairs s) (fst i) = Some pair" using own_pairs [OF h Some] .
  then show ?thesis using Some by (auto simp: get_user_order_def owner_of_def)
qed

lemma get_user_orders_returns:
  assumes "settled_view K s"
  shows "\<exists>x. get_user_orders p after_id n s = Some x \<and>
    (\<forall>os. x = Inr os \<longrightarrow> (\<forall>(i, pair, r) \<in> set os. owner_of s i = Some p \<and> history_get (st_orders s) i = Some r))"
proof (cases "lookup_funding_id (st_registry s) p")
  case None
  then show ?thesis by (auto simp: get_user_orders_def split: option.splits)
next
  case (Some u)
  have v: "heap_ok s" "records_ok K s" "registry_ok (st_registry s)" "index_owned s" and h: "history_ok (st_orders s)"
    using assms by (simp_all add: settled_view_def records_ok_def)
  have u: "bt_get (ur_users (st_registry s)) p = Some u" using Some v(3) by (simp add: lookup_funding_id_eq)
  note own = user_keys_exact [OF v(4) h v(3) u]
  show ?thesis
  proof (cases "page_spec (user_keys u (st_orders s)) after_id n")
    case (Inl e)
    then show ?thesis using Some by (simp add: get_user_orders_def orders_after_def page_by_user_spec [OF h])
  next
    case (Inr ids)
    then have sub: "set ids \<subseteq> set (user_keys u (st_orders s))" by (rule page_spec_subset)
    have "\<forall>i \<in> set ids. history_get (st_orders s) i \<noteq> None"
    proof
      fix i assume "i \<in> set ids"
      then have "owner_of s i = Some p" using sub own by blast
      then show "history_get (st_orders s) i \<noteq> None" by (auto simp: owner_of_def)
    qed
    from orders_with_pairs_returns [OF v(1,2) this] obtain os where os: "orders_with_pairs s ids = Some os" "map fst os = ids"
        "\<forall>(i, pair, r) \<in> set os. history_get (st_orders s) i = Some r \<and> get_pair (st_pairs s) (fst i) = Some pair" by blast
    have "owner_of s i = Some p" if listed: "(i, pair, r) \<in> set os" for i pair r
    proof -
      have "i \<in> set (map fst os)" using listed by force
      then show ?thesis using sub own os(2) by blast
    qed
    then show ?thesis using Some Inr os by (auto simp: get_user_orders_def orders_after_def page_by_user_spec [OF h])
  qed
qed

text \<open>\<open>get_my_orders\<close> answers, with the caller's own orders only.\<close>

lemma get_my_orders_by_id:
  assumes view: "settled_view K s" and f: "(case args of None \<Rightarrow> get_my_orders_filter_default | Some f \<Rightarrow> f) = ById t"
    and i: "order_id_parse t = Inr i"
  shows "get_my_orders args caller s = Some (Inl GO_OrderNotFound) \<or>
    (\<exists>pair r. get_my_orders args caller s = Some (Inr [(order_id_to_string i, pair, r)]) \<and>
       owner_of s i = Some (effective_account s caller) \<and> history_get (st_orders s) i = Some r)"
proof -
  let ?p = "effective_account s caller"
  obtain x where x: "get_user_order ?p i s = Some x" "owner_of s i \<noteq> Some ?p \<longrightarrow> x = None"
      "owner_of s i = Some ?p \<longrightarrow> (\<exists>pair r. x = Some (i, pair, r) \<and> history_get (st_orders s) i = Some r)"
    using get_user_order_returns [OF view, of ?p i] by blast
  show ?thesis
  proof (cases "owner_of s i = Some ?p")
    case True
    then show ?thesis using f i x(1,3) by (auto simp: get_my_orders_def Let_def)
  next
    case False
    then show ?thesis using f i x(1,2) by (simp add: get_my_orders_def Let_def)
  qed
qed

lemma get_my_orders_own:
  assumes "settled_view K s"
  shows "\<exists>x. get_my_orders args caller s = Some x \<and> (\<forall>os. x = Inr os \<longrightarrow> (\<forall>(t, pair, r) \<in> set os.
     or_owner r = effective_account s caller \<and> (\<exists>i. t = order_id_to_string i \<and> history_get (st_orders s) i = Some r)))"
proof -
  let ?p = "effective_account s caller"
  have seen: "or_owner r = ?p" if "owner_of s i = Some ?p" "history_get (st_orders s) i = Some r" for i r
    using that by (simp add: owner_of_def)
  let ?f = "case args of None \<Rightarrow> get_my_orders_filter_default | Some f \<Rightarrow> f"
  show ?thesis
  proof (cases ?f)
    case (ById t)
    show ?thesis
    proof (cases "order_id_parse t")
      case (Inl e)
      then show ?thesis using ById by (simp add: get_my_orders_def Let_def)
    next
      case (Inr i)
      then show ?thesis using get_my_orders_by_id [OF assms ById Inr, of caller] seen by fastforce
    qed
  next
    case (ByPage after_text n)
    show ?thesis
    proof (cases "parse_cursor order_id_parse after_text")
      case (Inl e)
      then show ?thesis using ByPage by (simp add: get_my_orders_def Let_def)
    next
      case c: (Inr c)
      obtain x where x: "get_user_orders ?p c (unat (min n MAX_ORDERS_PER_RESPONSE)) s = Some x"
          "\<forall>os. x = Inr os \<longrightarrow> (\<forall>(i, pair, r) \<in> set os. owner_of s i = Some ?p \<and> history_get (st_orders s) i = Some r)"
        using get_user_orders_returns [OF assms] by blast
      then have "or_owner r = ?p \<and> history_get (st_orders s) i = Some r" if "x = Inr os" "(i, pair, r) \<in> set os" for os i pair r
        using seen that by fast
      then show ?thesis using ByPage c x(1)
        by (cases x) (fastforce simp: get_my_orders_def Let_def)+
    qed
  qed
qed

text \<open>\<open>get_my_trades\<close> answers, with fills of the caller's own orders only.\<close>

lemma get_user_trades_returns:
  assumes "settled_view K s"
  shows "\<exists>x. get_user_trades p after_id n s = Some x \<and>
    (\<forall>ts. x = Inr ts \<longrightarrow> (\<forall>(i, t) \<in> set ts. owner_of s (fst i) = Some p \<and> history_get (st_trades s) i = Some t))"
proof (cases "lookup_funding_id (st_registry s) p")
  case None
  then show ?thesis by (simp add: get_user_trades_def)
next
  case (Some u)
  have v: "registry_ok (st_registry s)" "index_owned s" and h: "history_ok (st_trades s)"
    using assms by (simp_all add: settled_view_def trades_ok_def)
  have u: "bt_get (ur_users (st_registry s)) p = Some u" using Some v(1) by (simp add: lookup_funding_id_eq)
  obtain page where page: "trades_after u after_id n (st_trades s) = Some page"
      "case page_spec (user_keys u (st_trades s)) after_id n of Inl e \<Rightarrow> page = Inl e
       | Inr ids \<Rightarrow> \<exists>ts. page = Inr ts \<and> map fst ts = ids \<and> list_all (\<lambda>(i, t). history_get (st_trades s) i = Some t) ts"
    using trades_after_page [OF h] by blast
  have row: "owner_of s (fst i) = Some p \<and> history_get (st_trades s) i = Some t" if ts: "page = Inr ts" "(i, t) \<in> set ts" for ts i t
  proof -
    obtain ids where ids: "page_spec (user_keys u (st_trades s)) after_id n = Inr ids"
      using page(2) ts(1) by (cases "page_spec (user_keys u (st_trades s)) after_id n") auto
    then have fst: "map fst ts = ids" and get: "list_all (\<lambda>(i, t). history_get (st_trades s) i = Some t) ts"
      using page(2) ts(1) by simp_all
    have "i \<in> set (map fst ts)" using ts(2) by force
    then have "i \<in> set (user_keys u (st_trades s))" using page_spec_subset [OF ids] fst by blast
    then show ?thesis using trade_keys_owned [OF v(2,1) u] get ts(2) by (auto simp: list_all_iff)
  qed
  have "get_user_trades p after_id n s = Some page" using Some page(1) by (simp add: get_user_trades_def)
  then show ?thesis using row by blast
qed

lemma get_user_order_trades_own:
  assumes "settled_view K s" "get_user_order_trades p i c m s = Inr ts" "(q, t) \<in> set ts"
  shows "owner_of s i = Some p \<and> history_get (st_trades s) (i, q) = Some t"
proof -
  have h: "history_ok (st_trades s)" using assms(1) by (simp add: settled_view_def trades_ok_def)
  have "owner_of s i = Some p" "trades_for_order i c m (st_trades s) = Inr ts"
    using assms(2)
    by (auto simp: get_user_order_trades_def owner_of_def Let_def split: option.splits if_splits sum.splits cursor_not_found.splits)
  then show ?thesis using trades_for_order_lookup [OF h _ assms(3)] by blast
qed

lemma get_my_trades_own:
  assumes "settled_view K s"
  shows "\<exists>x. get_my_trades args caller s = Some x \<and> (\<forall>ts. x = Inr ts \<longrightarrow> (\<forall>(i, t) \<in> set ts.
     owner_of s (fst i) = Some (effective_account s caller) \<and> history_get (st_trades s) i = Some t))"
proof (cases args)
  case (ByOrder order_text after_text n)
  let ?p = "effective_account s caller"
  show ?thesis
  proof (cases "\<exists>i c. order_id_parse order_text = Inr i \<and> parse_cursor trade_id_parse after_text = Inr c")
    case True
    then obtain i c where ic: "order_id_parse order_text = Inr i" "parse_cursor trade_id_parse after_text = Inr c" by blast
    let ?g = "get_user_order_trades ?p i c (unat (min n MAX_TRADES_PER_RESPONSE)) s"
    have eq: "get_my_trades args caller s = Some (case ?g of Inr trades \<Rightarrow> Inr (map (\<lambda>(seq, trade). ((i, seq), trade)) trades)
        | Inl GT_OrderNotFound \<Rightarrow> Inl GM_OrderNotFound | Inl GT_CursorNotFound \<Rightarrow> Inr [])"
      using ByOrder ic by (simp add: get_my_trades_def Let_def)
    show ?thesis
    proof (cases ?g)
      case (Inl e)
      then show ?thesis by (cases e) (simp_all add: eq)
    next
      case (Inr ts)
      have "\<forall>(j, t) \<in> set (map (\<lambda>(seq, trade). ((i, seq), trade)) ts).
          owner_of s (fst j) = Some ?p \<and> history_get (st_trades s) j = Some t"
        using get_user_order_trades_own [OF assms Inr] by auto
      then show ?thesis using Inr by (simp add: eq)
    qed
  next
    case False
    then show ?thesis using ByOrder
      by (cases "order_id_parse order_text"; cases "parse_cursor trade_id_parse after_text") (simp_all add: get_my_trades_def Let_def)
  qed
next
  case (ByAccount after_text n)
  show ?thesis
  proof (cases "parse_cursor trade_id_parse after_text")
    case (Inl e)
    then show ?thesis using ByAccount by (simp add: get_my_trades_def Let_def)
  next
    case (Inr c)
    obtain x where x: "get_user_trades (effective_account s caller) c (unat (min n MAX_TRADES_PER_RESPONSE)) s = Some x"
        "\<forall>ts. x = Inr ts \<longrightarrow> (\<forall>(i, t) \<in> set ts. owner_of s (fst i) = Some (effective_account s caller) \<and>
           history_get (st_trades s) i = Some t)"
      using get_user_trades_returns [OF assms] by blast
    have "get_my_trades args caller s = Some (case x of Inr trades \<Rightarrow> Inr trades | Inl _ \<Rightarrow> Inr [])"
      using ByAccount Inr x(1) by (simp add: get_my_trades_def Let_def)
    then show ?thesis using x(2) by (cases x) simp_all
  qed
qed

end
