(* ===== verification/Service.thy ===== *)
theory Service
  imports Endpoints Ownership
begin

text \<open>
  The service refines the canister's state machine: every message of an entry point is a step of it,
  so that what holds of its reachable states holds behind the entry points. Work never waits
  without a timer, and the snapshot cell is empty outside an upgrade.
\<close>

section \<open>Refinement\<close>

lemma canister_sel [simp]:
  "sv_canister (set_canister c sv) = c" "sv_canister (canlog p m now sv) = sv_canister sv"
  "sv_canister (arm_matching sv) = sv_canister sv" "sv_canister (setup_timers sv) = sv_canister sv"
  "sv_system (set_canister c sv) = (sv_system sv)\<lparr>sy_canister := c\<rparr>" "sv_system (canlog p m now sv) = sv_system sv"
  "sv_system (arm_matching sv) = sv_system sv" "sv_system (setup_timers sv) = sv_system sv"
  by (simp_all add: sv_canister_def set_canister_def canlog_def arm_matching_def setup_timers_def)

lemma service_sel [simp]:
  "sv_cell (set_canister c sv) = sv_cell sv" "sv_cell (canlog p m now sv) = sv_cell sv"
  "sv_cell (arm_matching sv) = sv_cell sv" "sv_cell (setup_timers sv) = sv_cell sv"
  "sv_interval (set_canister c sv) = sv_interval sv" "sv_interval (canlog p m now sv) = sv_interval sv"
  "sv_interval (arm_matching sv) = sv_interval sv" "sv_interval (setup_timers sv)"
  "sv_timers (set_canister c sv) = sv_timers sv" "sv_timers (canlog p m now sv) = sv_timers sv"
  "sv_timers (arm_matching sv) = Suc (sv_timers sv)" "sv_timers (setup_timers sv) = sv_timers sv"
  by (simp_all add: set_canister_def canlog_def arm_matching_def setup_timers_def)

lemma log_sel [simp]:
  "sv_system (log_deposit tx req now r sv) = sv_system sv" "sv_system (log_withdraw tx wreq now rw sv) = sv_system sv"
  "sv_cell (log_deposit tx req now r sv) = sv_cell sv" "sv_cell (log_withdraw tx wreq now rw sv) = sv_cell sv"
  "sv_interval (log_deposit tx req now r sv) = sv_interval sv" "sv_interval (log_withdraw tx wreq now rw sv) = sv_interval sv"
  "sv_timers (log_deposit tx req now r sv) = sv_timers sv" "sv_timers (log_withdraw tx wreq now rw sv) = sv_timers sv"
  by (simp_all add: log_deposit_def log_withdraw_def split: sum.split)

named_theorems main_defs

declare main_add_limit_order_def [main_defs] main_cancel_limit_order_def [main_defs] main_add_trading_account_def [main_defs]
  main_remove_trading_account_def [main_defs] main_deposit_call_def [main_defs] main_deposit_return_def [main_defs]
  main_withdraw_call_def [main_defs] main_withdraw_return_def [main_defs] main_add_trading_pair_def [main_defs]
  main_halt_trading_def [main_defs] main_resume_trading_def [main_defs] main_drive_matching_def [main_defs]

text \<open>What no message touches.\<close>

definition same_store :: "'b service \<Rightarrow> 'b service \<Rightarrow> bool" where
  "same_store sv sv' \<longleftrightarrow> sv_cell sv' = sv_cell sv \<and> sv_interval sv' = sv_interval sv"

lemma deposit_call_refines:
  assumes "main_deposit_call big tx req rt sv = Some (r, sv')"
  shows "sys_step pc big (sv_system sv) (sv_system sv') \<and> same_store sv sv' \<and> sv_timers sv' = sv_timers sv"
proof -
  obtain x c where x: "deposit_start big (dr_token req) (dr_amount req) rt (sy_canister (sv_system sv)) = Some (x, c)"
    using assms by (auto simp: main_deposit_call_def sv_canister_def trap_simps)
  show ?thesis
  proof (cases x)
    case (Inl e)
    have "sv_system sv' = (sv_system sv)\<lparr>sy_canister := c\<rparr>" "same_store sv sv'" "sv_timers sv' = sv_timers sv"
      using assms x Inl by (auto simp: main_deposit_call_def sv_canister_def same_store_def Let_def)
    then show ?thesis using step_deposit_refused x Inl by metis
  next
    case (Inr amount)
    have "sv_system sv' = (sv_system sv)\<lparr>sy_canister := c, sy_calls := DepositCall (rt_caller rt) (dr_token req) amount # sy_calls (sv_system sv)\<rparr>" "same_store sv sv'" "sv_timers sv' = sv_timers sv"
      using assms x Inr by (auto simp: main_deposit_call_def sv_canister_def same_store_def Let_def)
    then show ?thesis using step_deposit_start x Inr by metis
  qed
qed

lemma withdraw_call_refines:
  assumes "main_withdraw_call big tx req rt sv = Some (r, sv')"
  shows "sys_step pc big (sv_system sv) (sv_system sv') \<and> same_store sv sv' \<and> sv_timers sv' = sv_timers sv"
proof -
  obtain x c where x: "withdraw_start big (wr_token req) (wr_amount req) rt (sy_canister (sv_system sv)) = Some (x, c)"
    using assms by (auto simp: main_withdraw_call_def sv_canister_def trap_simps)
  show ?thesis
  proof (cases x)
    case (Inl e)
    have "sv_system sv' = (sv_system sv)\<lparr>sy_canister := c\<rparr>" "same_store sv sv'" "sv_timers sv' = sv_timers sv"
      using assms x Inl by (auto simp: main_withdraw_call_def sv_canister_def same_store_def Let_def)
    then show ?thesis using step_withdraw_refused x Inl by metis
  next
    case (Inr af)
    obtain amount fee where af: "af = (amount, fee)" by (cases af)
    have "sv_system sv' = (sv_system sv)\<lparr>sy_canister := c, sy_calls := WithdrawCall (rt_caller rt) (wr_token req) amount fee # sy_calls (sv_system sv)\<rparr>" "same_store sv sv'" "sv_timers sv' = sv_timers sv"
      using assms x Inr af by (auto simp: main_withdraw_call_def sv_canister_def same_store_def Let_def)
    then show ?thesis using step_withdraw_start x Inr af by metis
  qed
qed

lemma deposit_return_refines:
  assumes "DepositCall (rt_caller rt) (dr_token req) amount \<in> set (sy_calls (sv_system sv))"
    "main_deposit_return tx req amount answer rt sv = Some (r, sv')"
  shows "sys_step pc big (sv_system sv) (sv_system sv') \<and> same_store sv sv' \<and> sv_timers sv' = sv_timers sv"
  using assms by (auto simp: main_deposit_return_def sv_canister_def same_store_def trap_simps Let_def intro!: step_deposit_finish)

lemma withdraw_return_refines:
  assumes "WithdrawCall (rt_caller rt) (wr_token req) amount fee \<in> set (sy_calls (sv_system sv))"
    "main_withdraw_return tx req amount fee ledger rt sv = Some (r, sv')"
  shows "sys_step pc big (sv_system sv) (sv_system sv') \<and> same_store sv sv' \<and> sv_timers sv' = sv_timers sv"
  using assms by (auto simp: main_withdraw_return_def sv_canister_def same_store_def trap_simps Let_def intro!: step_withdraw_finish)

lemma return_traps:
  "main_deposit_return tx dreq amount answer rt sv = None \<Longrightarrow> deposit_finish (dr_token dreq) amount answer rt (sy_canister (sv_system sv)) = None"
  "main_withdraw_return tx wreq amount fee ledger rt sv = None \<Longrightarrow>
   withdraw_finish (wr_token wreq) amount (ledger_withdraw amount fee ledger) rt (sy_canister (sv_system sv)) = None"
  by (auto simp: main_deposit_return_def main_withdraw_return_def sv_canister_def Let_def bind_eq_None_conv split: prod.splits)

lemma drive_refines:
  assumes "main_drive_matching counter now sv = Some sv'"
  shows "sys_step pc big (sv_system sv) (sv_system sv') \<and> same_store sv sv'"
  using assms
  by (auto simp: main_drive_matching_def drive_matching_def same_store_def sv_canister_def trap_simps Let_def intro!: step_match split: if_splits)

text \<open>What an entry point does to the canister and to the timers.\<close>

lemma main_add_order_effect:
  assumes "main_add_limit_order big tx req rt sv = Some (r, sv')"
  obtains x c where "api_add_limit_order big req rt (sv_canister sv) = Some (x, c)" "sv_system sv' = (sv_system sv)\<lparr>sy_canister := c\<rparr>"
    "sv_timers sv' = (case x of Inl _ \<Rightarrow> sv_timers sv | Inr _ \<Rightarrow> Suc (sv_timers sv))" "same_store sv sv'"
proof -
  obtain x c where x: "api_add_limit_order big req rt (sv_canister sv) = Some (x, c)"
    using assms by (auto simp: main_defs trap_simps)
  show ?thesis using assms x by (cases x) (auto simp: main_defs same_store_def intro!: that)
qed

lemma main_cancel_effect:
  assumes "main_cancel_limit_order tx i rt sv = Some (r, sv')"
  obtains x c where "api_cancel_limit_order i rt (sv_canister sv) = Some (x, c)" "sv_system sv' = (sv_system sv)\<lparr>sy_canister := c\<rparr>"
    "sv_timers sv' = sv_timers sv" "same_store sv sv'"
proof -
  obtain x c where x: "api_cancel_limit_order i rt (sv_canister sv) = Some (x, c)"
    using assms by (auto simp: main_defs trap_simps)
  show ?thesis using assms x by (cases x) (auto simp: main_defs same_store_def intro!: that)
qed

lemma main_grant_effect:
  assumes "main_add_trading_account pc tx trading rt sv = Some (r, sv')"
  obtains x c where "api_add_trading_account pc trading rt (sv_canister sv) = Some (x, c)" "sv_system sv' = (sv_system sv)\<lparr>sy_canister := c\<rparr>"
    "sv_timers sv' = sv_timers sv" "same_store sv sv'"
proof -
  obtain x c where x: "api_add_trading_account pc trading rt (sv_canister sv) = Some (x, c)"
    using assms by (auto simp: main_defs trap_simps)
  show ?thesis using assms x by (cases x) (auto simp: main_defs same_store_def intro!: that)
qed

lemma main_revoke_effect:
  assumes "main_remove_trading_account tx trading rt sv = Some (r, sv')"
  obtains x c where "api_remove_trading_account trading rt (sv_canister sv) = Some (x, c)" "sv_system sv' = (sv_system sv)\<lparr>sy_canister := c\<rparr>"
    "sv_timers sv' = sv_timers sv" "same_store sv sv'"
proof -
  obtain x c where x: "api_remove_trading_account trading rt (sv_canister sv) = Some (x, c)"
    using assms by (auto simp: main_defs trap_simps)
  show ?thesis using assms x by (cases x) (auto simp: main_defs same_store_def intro!: that)
qed

lemma main_pair_effect:
  assumes "main_add_trading_pair big preq rt sv = Some (r, sv')"
  obtains x c where "add_trading_pair big preq rt (sv_canister sv) = Some (x, c)" "sv_system sv' = (sv_system sv)\<lparr>sy_canister := c\<rparr>"
    "sv_timers sv' = sv_timers sv" "same_store sv sv'"
proof -
  obtain x c where x: "add_trading_pair big preq rt (sv_canister sv) = Some (x, c)"
    using assms by (auto simp: main_defs trap_simps)
  show ?thesis using assms x by (cases x) (auto simp: main_defs same_store_def intro!: that)
qed

lemma main_halt_effect:
  assumes "main_halt_trading pairs rt sv = Some (r, sv')"
  obtains x c where "halt_trading pairs rt (sv_canister sv) = Some (x, c)" "sv_system sv' = (sv_system sv)\<lparr>sy_canister := c\<rparr>"
    "sv_timers sv' = sv_timers sv" "same_store sv sv'"
proof -
  obtain x c where x: "halt_trading pairs rt (sv_canister sv) = Some (x, c)"
    using assms by (auto simp: main_defs trap_simps)
  show ?thesis using assms x by (cases x) (auto simp: main_defs same_store_def intro!: that)
qed

lemma main_resume_effect:
  assumes "main_resume_trading pairs rt sv = Some (r, sv')"
  obtains x c where "resume_trading pairs rt (sv_canister sv) = Some (x, c)" "sv_system sv' = (sv_system sv)\<lparr>sy_canister := c\<rparr>"
    "sv_timers sv' = (case x of Inl _ \<Rightarrow> sv_timers sv | Inr _ \<Rightarrow> Suc (sv_timers sv))" "same_store sv sv'"
proof -
  obtain x c where x: "resume_trading pairs rt (sv_canister sv) = Some (x, c)"
    using assms by (auto simp: main_defs trap_simps)
  show ?thesis using assms x by (cases x) (auto simp: main_defs same_store_def intro!: that)
qed

lemma step_refines: "service_step pc big tx sv sv' \<Longrightarrow> sys_step pc big (sv_system sv) (sv_system sv') \<and> same_store sv sv'"
proof (induction rule: service_step.induct)
  case (msg_add_limit_order req rt sv ra sv')
  then show ?case using step_add_order by (metis main_add_order_effect sv_canister_def)
next
  case (msg_cancel_limit_order i rt sv rc sv')
  then show ?case using step_cancel by (metis main_cancel_effect sv_canister_def)
next
  case (msg_add_trading_account trading rt sv rg sv')
  then show ?case using step_grant by (metis main_grant_effect sv_canister_def)
next
  case (msg_remove_trading_account trading rt sv rr sv')
  then show ?case using step_revoke by (metis main_revoke_effect sv_canister_def)
next
  case (msg_deposit_call dreq rt sv rd sv')
  then show ?case using deposit_call_refines by blast
next
  case (msg_deposit_return rt dreq amount sv answer rdr sv')
  then show ?case using deposit_return_refines by blast
next
  case (msg_deposit_trap rt dreq amount sv answer)
  from step_deposit_trap [OF this(1) return_traps(1) [OF this(2)]] show ?case by (simp add: same_store_def)
next
  case (msg_withdraw_call wreq rt sv rw sv')
  then show ?case using withdraw_call_refines by blast
next
  case (msg_withdraw_return rt wreq amount fee sv ledger rwr sv')
  then show ?case using withdraw_return_refines by blast
next
  case (msg_withdraw_trap rt wreq amount fee sv ledger)
  from step_withdraw_trap [OF this(1) return_traps(2) [OF this(2)]] show ?case by (simp add: same_store_def)
next
  case (msg_add_trading_pair preq rt sv rp sv')
  then show ?case using step_pair by (metis main_pair_effect sv_canister_def)
next
  case (msg_halt_trading pairs rt sv rh sv')
  then show ?case using step_halt by (metis main_halt_effect halt_trading_def sv_canister_def)
next
  case (msg_resume_trading pairs rt sv rs sv')
  then show ?case using step_halt by (metis main_resume_effect resume_trading_def sv_canister_def)
next
  case (timer_fires sv n counter now sv')
  then show ?case using drive_refines [of counter now "sv\<lparr>sv_timers := n\<rparr>"] by (simp add: same_store_def)
next
  case (interval_fires sv counter now sv')
  then show ?case by (simp add: drive_refines)
qed

lemma upgrade_refines:
  assumes "codec_ok codec" "service_upgrade codec sv sv'"
  shows "sys_step pc big (sv_system sv) (sv_system sv') \<and> sv_cell sv' = [] \<and> sv_interval sv'"
  using assms(2)
proof cases
  case (upgrade arg counter' now' counter now)
  let ?sv = "main_pre_upgrade codec counter now sv" and ?s = "cn_state (sv_canister sv)"
  have pre: "sv_system ?sv = sv_system sv" "sv_canister ?sv = sv_canister sv" "sv_cell ?sv = sc_encode codec (from_state ?s)"
    by (simp_all add: main_pre_upgrade_def snapshot_save_def Let_def sv_canister_def)
  then have "snapshot_load codec (?sv\<lparr>sv_entries := [], sv_timers := 0, sv_interval := False\<rparr>) =
      Some (Some (from_state ?s), ?sv\<lparr>sv_entries := [], sv_timers := 0, sv_interval := False, sv_cell := []\<rparr>)"
    using assms(1) by (simp add: snapshot_load_def codec_ok_def)
  then obtain c where c: "post_upgrade arg now' (from_state ?s) (st_orders ?s) (st_trades ?s) (tb_balances (st_balances ?s))
       (st_registry ?s) (cn_log (sv_canister sv)) = Some c" "sv_system sv' = (sv_system sv)\<lparr>sy_canister := c\<rparr>"
      "sv_cell sv' = []" "sv_interval sv'"
    using upgrade(2) pre by (auto simp: main_post_upgrade_def Let_def trap_simps)
  then show ?thesis using step_upgrade [OF upgrade(1) refl] by (metis sv_canister_def)
qed

lemma service_refines:
  assumes "codec_ok codec" "service_reachable pc big tx codec arg sv"
  shows "reachable pc big arg (sv_system sv) \<and> sv_cell sv = [] \<and> sv_interval sv"
  using assms(2)
proof (induction rule: service_reachable.induct)
  case (installed now sv)
  then show ?case by (auto simp: main_init_def trap_simps Let_def intro: reach_init)
next
  case (stepped sv sv')
  then show ?case using step_refines unfolding same_store_def by (metis reach_step)
next
  case (upgraded sv sv')
  then show ?case using upgrade_refines [OF assms(1)] by (metis reach_step)
qed

section \<open>No lost wake-up\<close>

text \<open>A change that adds neither a matchable order nor a settling event.\<close>

definition quiet :: "trade_state \<Rightarrow> trade_state \<Rightarrow> bool" where
  "quiet s s' \<longleftrightarrow> (has_matchable_pending_orders s' \<longrightarrow> has_matchable_pending_orders s) \<and> (st_settling s = [] \<longrightarrow> st_settling s' = [])"

lemma quiet_refl [simp]: "quiet s s"
  by (simp add: quiet_def)

lemma quiet_trans: "quiet a b \<Longrightarrow> quiet b c \<Longrightarrow> quiet a c"
  by (simp add: quiet_def)

lemma quiet_status: "quiet s s' \<Longrightarrow> status_from_state s' = MoreWork \<Longrightarrow> status_from_state s = MoreWork"
  by (auto simp: quiet_def status_from_state_def has_pending_settling_events_def split: if_splits)

lemma quiet_same: "st_books s' = st_books s \<Longrightarrow> st_permissions s' = st_permissions s \<Longrightarrow> st_settling s' = st_settling s \<Longrightarrow> quiet s s'"
  by (simp add: quiet_def has_matchable_pending_orders_def)

lemma has_matchable_iff:
  "has_matchable_pending_orders s \<longleftrightarrow>
     (\<exists>i b. (i, b) \<in> set (st_books s) \<and> bk_pending_orders b \<noteq> [] \<and> \<not> is_halted (st_permissions s) i)"
  by (force simp: has_matchable_pending_orders_def list_ex_iff permit_matching_def split: if_splits)

lemma quiet_book:
  assumes "st_books s' = bt_insert i b' (st_books s)" "st_permissions s' = st_permissions s" "st_settling s' = st_settling s"
    and "bk_pending_orders b' \<noteq> [] \<Longrightarrow> \<exists>b. (i, b) \<in> set (st_books s) \<and> bk_pending_orders b \<noteq> []"
  shows "quiet s s'"
proof -
  have "has_matchable_pending_orders s" if m: "has_matchable_pending_orders s'"
  proof -
    obtain j b where b: "(j, b) \<in> set (bt_insert i b' (st_books s))" "bk_pending_orders b \<noteq> []" "\<not> is_halted (st_permissions s) j"
      using m assms(1,2) by (auto simp: has_matchable_iff)
    then consider "j = i" "b = b'" | "(j, b) \<in> set (st_books s)" using set_bt_insert_subset by fastforce
    then show ?thesis using b assms(4) by cases (auto simp: has_matchable_iff)
  qed
  then show ?thesis using assms(3) by (simp add: quiet_def)
qed

lemma halts_mono: "is_halted p i \<Longrightarrow> is_halted (fold pm_halt_trading books p) i"
proof (induction books arbitrary: p)
  case (Cons b books)
  have "is_halted (pm_halt_trading b p) i" using Cons.prems by (auto simp: is_halted_def pm_halt_trading_def)
  then show ?case using Cons.IH by simp
qed simp

lemma remove_first_subset: "remove_first P xs = Some (x, ys) \<Longrightarrow> xs \<noteq> []"
  by (cases xs) auto

lemma remove_order_pending:
  assumes "remove_order seq b = Some (r, b')" "bk_pending_orders b' \<noteq> []"
  shows "bk_pending_orders b \<noteq> []"
  using assms remove_first_subset
  by (auto simp: remove_order_def Let_def trap_simps split: option.splits prod.splits side.splits)

lemma record_token_same:
  "record_token token metadata s = Some s' \<Longrightarrow>
   st_books s' = st_books s \<and> st_permissions s' = st_permissions s \<and> st_settling s' = st_settling s"
  by (auto simp: record_token_def trap_simps split: option.splits)

lemma quiet_pair:
  assumes "record_trading_pair book pair bm qm tick lot mn mx rates s = Some s'"
  shows "quiet s s'"
proof -
  obtain s1 s2 pairs n where x: "record_token (tp_base pair) bm s = Some s1" "record_token (tp_quote pair) qm s1 = Some s2"
      "s' = s2\<lparr>st_pairs := pairs, st_books := bt_insert book (book_new book tick lot mn mx rates) (st_books s2), st_next_book_id := n\<rparr>"
    using assms by (auto simp: record_trading_pair_def Let_def trap_simps)
  show ?thesis
    using record_token_same [OF x(1)] record_token_same [OF x(2)] x(3)
    by (intro quiet_book [of s' book "book_new book tick lot mn mx rates"]) (simp_all add: book_new_def)
qed

lemma quiet_halt:
  assumes "process_event (Ev_SetHalt \<lparr>sh_book_ids = books, sh_halted = True\<rparr>) now c = Some c'"
  shows "quiet (cn_state c) (cn_state c')"
proof -
  obtain p where p: "cn_state c' = (cn_state c)\<lparr>st_permissions := p\<rparr>" "\<And>i. is_halted (st_permissions (cn_state c)) i \<Longrightarrow> is_halted p i"
    using assms halts_mono
    by (auto simp: process_event_Some apply_state_transition_def set_halts_def is_halted_def halt_trading_globally_def split: option.splits)
  then show ?thesis by (auto simp: quiet_def has_matchable_iff)
qed

lemma quiet_settlings:
  "process_settlings evs now c = Some c' \<Longrightarrow>
   st_books (cn_state c') = st_books (cn_state c) \<and> st_permissions (cn_state c') = st_permissions (cn_state c) \<and>
   st_settling (cn_state c') = st_settling (cn_state c)"
  by (induction evs arbitrary: c) (auto simp: trap_simps process_event_Some apply_state_transition_def record_settling_event_def)

lemma quiet_cancel:
  assumes "st_cancel_limit_order owner by' i now c = Some (r, c')"
  shows "quiet (cn_state c) (cn_state c')"
proof (cases "validate_cancel_limit_order owner i (cn_state c)")
  case (Inl e)
  then show ?thesis using assms by (simp add: st_cancel_limit_order_def)
next
  case (Inr u)
  obtain book seq where i: "i = (book, seq)" by (cases i)
  let ?n = "length (st_settling (cn_state c))"
  obtain c1 where c1: "process_event (Ev_CancelLimitOrder \<lparr>ce_order_id = i, ce_canceled_by = by'\<rparr>) now c = Some c1"
      "process_settlings (drop ?n (st_settling (cn_state c1))) now
         (c1\<lparr>cn_state := (cn_state c1)\<lparr>st_settling := take ?n (st_settling (cn_state c1))\<rparr>\<rparr>) = Some c'"
    using assms Inr by (auto simp: st_cancel_limit_order_def Let_def trap_simps)
  obtain b b' found sev where b: "bt_get (st_books (cn_state c)) book = Some b" "remove_order seq b = Some (found, b')"
      "st_books (cn_state c1) = bt_insert book b' (st_books (cn_state c))" "st_permissions (cn_state c1) = st_permissions (cn_state c)"
      "st_settling (cn_state c1) = st_settling (cn_state c) @ [sev]"
    using c1(1) by (auto simp: i process_event_Some apply_state_transition_def record_cancel_limit_order_def Let_def trap_simps)
  show ?thesis
    using quiet_settlings [OF c1(2)] b remove_order_pending [OF b(2)] bt_get_in_set [OF b(1)]
    by (intro quiet_book [of _ book b']) auto
qed

lemma quiet_events:
  "process_event (Ev_AddTradingAccount ga) now c = Some c' \<Longrightarrow> quiet (cn_state c) (cn_state c')"
  "process_event (Ev_RemoveTradingAccount gr) now c = Some c' \<Longrightarrow> quiet (cn_state c) (cn_state c')"
  "process_event (Ev_Deposit de) now c = Some c' \<Longrightarrow> quiet (cn_state c) (cn_state c')"
  by (auto simp: process_event_Some apply_state_transition_def st_record_add_trading_account_def st_record_remove_trading_account_def
      st_deposit_def trap_simps intro!: quiet_same split: prod.splits)

lemma quiet_pair_event: "process_event (Ev_AddTradingPair pe) now c = Some c' \<Longrightarrow> quiet (cn_state c) (cn_state c')"
  by (auto simp: process_event_Some apply_state_transition_def intro: quiet_pair)

lemma quiet_guard [simp]: "quiet s (user_op_guard_drop p t s')= quiet s s'"
  by (simp add: quiet_def user_op_guard_drop_def has_matchable_pending_orders_def)

lemma quiet_deposit: "st_deposit p t a Write s = Some s' \<Longrightarrow> quiet s s'"
  by (cases "get_or_register p (st_registry s)") (auto simp: st_deposit_def trap_simps intro!: quiet_same)

lemma quiet_api_cancel:
  assumes "api_cancel_limit_order i rt c = Some (r, c')"
  shows "quiet (cn_state c) (cn_state c')"
proof (cases "order_id_parse i")
  case (Inl e)
  then show ?thesis using assms by (auto simp: api_cancel_limit_order_def Let_def trap_simps)
next
  case (Inr i')
  then obtain r' owner by' where "st_cancel_limit_order owner by' i' (rt_time rt) c = Some (r', c')"
    using assms unfolding api_cancel_limit_order_def by (auto simp: Let_def Option.bind_eq_Some_conv simp del: split_paired_Ex)
  then show ?thesis by (rule quiet_cancel)
qed

lemma quiet_api:
  "api_add_trading_account pc trading rt c = Some (rg, c') \<Longrightarrow> quiet (cn_state c) (cn_state c')"
  "api_remove_trading_account trading rt c = Some (rr, c') \<Longrightarrow> quiet (cn_state c) (cn_state c')"
  "halt_trading pairs rt c = Some (rh, c') \<Longrightarrow> quiet (cn_state c) (cn_state c')"
  by (auto simp: api_add_trading_account_def api_remove_trading_account_def halt_trading_def set_halt_def Let_def trap_simps
      split: sum.splits if_splits dest: quiet_events quiet_halt)

lemma quiet_api_pair: "add_trading_pair big preq rt c = Some (rp, c') \<Longrightarrow> quiet (cn_state c) (cn_state c')"
  by (auto dest!: pair_effect quiet_pair_event)

lemma quiet_deposit_start: "deposit_start big token n rt c = Some (r, c') \<Longrightarrow> quiet (cn_state c) (cn_state c')"
  by (drule deposit_start_cases) (auto intro: quiet_same)

lemma quiet_deposit_finish: "deposit_finish token amount answer rt c = Some (r, c') \<Longrightarrow> quiet (cn_state c) (cn_state c')"
  by (cases "ledger_deposit answer") (auto simp: deposit_finish_def trap_simps dest: quiet_events)

lemma quiet_withdraw_start:
  assumes "withdraw_start big token n rt c = Some (r, c')"
  shows "quiet (cn_state c) (cn_state c')"
  using withdraw_start_cases [OF assms] by (auto simp: st_withdraw_def trap_simps intro!: quiet_same split: option.splits)

lemma quiet_withdraw_finish:
  assumes "withdraw_finish token amount outcome rt c = Some (rw, c')"
  shows "quiet (cn_state c) (cn_state c')"
proof -
  define s0 where "s0 = (case wo_ledger_fee outcome of None \<Rightarrow> cn_state c | Some fee \<Rightarrow> set_cached_ledger_fee token fee (cn_state c))"
  have s0: "quiet (cn_state c) s0" by (auto simp: s0_def set_cached_ledger_fee_def intro!: quiet_same split: option.split)
  have rec: "cn_state (record_event p now d) = cn_state d" for p now d by (simp add: record_event_def)
  have "cn_state c' = user_op_guard_drop (rt_caller rt) token s0 \<or>
      (\<exists>s'. st_deposit (rt_caller rt) token amount Write s0 = Some s' \<and> cn_state c' = user_op_guard_drop (rt_caller rt) token s')"
    using assms unfolding withdraw_finish_def s0_def [symmetric]
    by (cases "wo_result outcome") (auto simp: Let_def trap_simps rec)
  then show ?thesis using s0 quiet_trans [OF s0 quiet_deposit] by auto
qed

lemma refused_order:
  assumes "api_add_limit_order big req rt c = Some (Inl e, c')"
  shows "c' = c"
proof (cases "pending_order_try_from big req")
  case (Inl e)
  then show ?thesis using assms by (auto simp: api_add_limit_order_def Let_def trap_simps)
next
  case (Inr pending)
  let ?owner = "effective_account (cn_state c) (rt_caller rt)"
  obtain validated where v: "validate_limit_order ?owner (req_pair req) pending (cn_state c) = Some validated"
    using assms Inr by (auto simp: api_add_limit_order_def Let_def trap_simps)
  show ?thesis
  proof (cases validated)
    case (Inl e)
    then show ?thesis using assms Inr v by (auto simp: api_add_limit_order_def Let_def trap_simps)
  next
    case placed: (Inr io)
    obtain i ord where "io = (i, ord)" by (cases io)
    then show ?thesis using assms Inr v placed
      by (auto simp: api_add_limit_order_def Let_def trap_simps split: sum.splits unauthorized_error.splits)
  qed
qed

lemma call_canister:
  "main_deposit_call big tx dreq rt sv = Some (rd, sv') \<Longrightarrow>
     \<exists>x. deposit_start big (dr_token dreq) (dr_amount dreq) rt (sv_canister sv) = Some (x, sv_canister sv')"
  "main_withdraw_call big tx wreq rt sv = Some (rw, sv') \<Longrightarrow>
     \<exists>y. withdraw_start big (wr_token wreq) (wr_amount wreq) rt (sv_canister sv) = Some (y, sv_canister sv')"
proof -
  assume "main_deposit_call big tx dreq rt sv = Some (rd, sv')"
  then show "\<exists>x. deposit_start big (dr_token dreq) (dr_amount dreq) rt (sv_canister sv) = Some (x, sv_canister sv')"
    unfolding main_deposit_call_def
    by (cases "deposit_start big (dr_token dreq) (dr_amount dreq) rt (sv_canister sv)")
       (auto simp: sv_canister_def Let_def split: sum.split_asm)
next
  assume "main_withdraw_call big tx wreq rt sv = Some (rw, sv')"
  then show "\<exists>y. withdraw_start big (wr_token wreq) (wr_amount wreq) rt (sv_canister sv) = Some (y, sv_canister sv')"
    unfolding main_withdraw_call_def
    by (cases "withdraw_start big (wr_token wreq) (wr_amount wreq) rt (sv_canister sv)")
       (auto simp: sv_canister_def Let_def split: sum.split_asm)
qed

lemma refused_resume: "resume_trading pairs rt c = Some (Inl e, c') \<Longrightarrow> c' = c"
  by (auto simp: resume_trading_def set_halt_def trap_simps split: if_splits)

text \<open>A service with work to do has a zero-delay timer that will do it.\<close>

definition awake :: "'b service \<Rightarrow> bool" where
  "awake sv \<longleftrightarrow> (status_from_state (cn_state (sv_canister sv)) = MoreWork \<longrightarrow> 0 < sv_timers sv)"

lemma awake_quiet:
  assumes "awake sv" "quiet (cn_state (sv_canister sv)) (cn_state (sv_canister sv'))" "sv_timers sv \<le> sv_timers sv'"
  shows "awake sv'"
  using assms quiet_status by (auto simp: awake_def)

lemma awake_armed:
  assumes "awake sv" "sv_system sv' = (sv_system sv)\<lparr>sy_canister := c\<rparr>"
    "sv_timers sv' = (case x of Inl _ \<Rightarrow> sv_timers sv | Inr _ \<Rightarrow> Suc (sv_timers sv))" "\<And>e. x = Inl e \<Longrightarrow> c = sv_canister sv"
  shows "awake sv'"
  using assms by (cases x) (auto simp: awake_def sv_canister_def)

lemma awake_drive:
  assumes "main_drive_matching counter now sv = Some sv'" "st_tasks (cn_state (sv_canister sv)) = {}"
  shows "awake sv'"
proof -
  obtain st c where x: "api_process_pending_orders counter now (sv_canister sv) = Some (st, c)" "sv_canister sv' = c"
      "sv_timers sv' = (if st = MoreWork then Suc (sv_timers sv) else sv_timers sv)"
    using assms(1) by (auto simp: main_drive_matching_def drive_matching_def trap_simps Let_def split: if_splits execution_status.splits)
  have "status_from_state (cn_state c) = st"
    using x(1) assms(2)
    by (auto simp: api_process_pending_orders_def timer_guard_new_def timer_guard_drop_def run_once_def Let_def trap_simps
        split: if_splits)
  then show ?thesis using x(2,3) by (simp add: awake_def)
qed

lemma awake_init: "main_init arg now = Some sv \<Longrightarrow> awake sv"
  by (auto simp: main_init_def canister_init_def state_new_def trap_simps Let_def awake_def setup_timers_def canlog_def sv_canister_def
      status_from_state_def has_matchable_pending_orders_def has_pending_settling_events_def split: oisy_trade_arg.splits sum.splits)

lemma awake_step:
  assumes "service_step pc big tx sv sv'" "awake sv" "st_tasks (cn_state (sv_canister sv)) = {}"
  shows "awake sv'"
  using assms(1)
proof cases
  case (msg_add_limit_order req rt ra)
  then show ?thesis by (rule main_add_order_effect) (auto intro: awake_armed [OF assms(2)] dest: refused_order)
next
  case (msg_cancel_limit_order i rt rc)
  then show ?thesis
    by (rule main_cancel_effect) (auto simp: sv_canister_def intro!: awake_quiet [OF assms(2)] dest: quiet_api_cancel)
next
  case (msg_add_trading_account trading rt rg)
  then show ?thesis
    by (rule main_grant_effect) (auto simp: sv_canister_def intro!: awake_quiet [OF assms(2)] dest: quiet_api)
next
  case (msg_remove_trading_account trading rt rr)
  then show ?thesis
    by (rule main_revoke_effect) (auto simp: sv_canister_def intro!: awake_quiet [OF assms(2)] dest: quiet_api)
next
  case (msg_deposit_call dreq rt rd)
  then have "quiet (cn_state (sv_canister sv)) (cn_state (sv_canister sv'))" "sv_timers sv' = sv_timers sv"
    using call_canister(1) quiet_deposit_start deposit_call_refines [of big tx dreq rt sv rd sv' pc] by blast+
  then show ?thesis by (auto intro: awake_quiet [OF assms(2)])
next
  case (msg_deposit_return rt dreq amount answer rdr)
  then show ?thesis
    by (auto simp: main_deposit_return_def sv_canister_def trap_simps Let_def intro!: awake_quiet [OF assms(2)] dest: quiet_deposit_finish)
next
  case (msg_deposit_trap rt dreq amount answer)
  then show ?thesis by (auto simp: sv_canister_def intro!: awake_quiet [OF assms(2)])
next
  case (msg_withdraw_call wreq rt rw)
  then have "quiet (cn_state (sv_canister sv)) (cn_state (sv_canister sv'))" "sv_timers sv' = sv_timers sv"
    using call_canister(2) quiet_withdraw_start withdraw_call_refines [of big tx wreq rt sv rw sv' pc] by blast+
  then show ?thesis by (auto intro: awake_quiet [OF assms(2)])
next
  case (msg_withdraw_return rt wreq amount fee ledger rwr)
  then show ?thesis
    by (auto simp: main_withdraw_return_def sv_canister_def trap_simps Let_def intro!: awake_quiet [OF assms(2)] dest: quiet_withdraw_finish)
next
  case (msg_withdraw_trap rt wreq amount fee ledger)
  then show ?thesis by (auto simp: sv_canister_def intro!: awake_quiet [OF assms(2)])
next
  case (msg_add_trading_pair preq rt rp)
  then show ?thesis
    by (rule main_pair_effect) (auto simp: sv_canister_def intro!: awake_quiet [OF assms(2)] dest: quiet_api_pair)
next
  case (msg_halt_trading pairs rt rh)
  then show ?thesis
    by (rule main_halt_effect) (auto simp: sv_canister_def intro!: awake_quiet [OF assms(2)] dest: quiet_api)
next
  case (msg_resume_trading pairs rt rs)
  then show ?thesis by (rule main_resume_effect) (auto intro: awake_armed [OF assms(2)] dest: refused_resume)
next
  case (timer_fires n counter now)
  then show ?thesis using awake_drive [of counter now "sv\<lparr>sv_timers := n\<rparr>" sv'] assms(3) by (simp add: sv_canister_def)
next
  case (interval_fires counter now)
  then show ?thesis using awake_drive assms(3) by blast
qed

end
