(* ===== verification/Client.thy ===== *)
theory Client
  imports Endpoints
begin

text \<open>
  The client library (\<open>libs/client/src/lib.rs\<close>). Every method of the client is one call of a method of the
  canister by its name, whose answer is decoded and unwrapped, so that a rejected call or an answer of
  another type panics (\<open>None\<close>); the two lookups also take the first element of the list they get. The
  transport of \<open>ic_cdk\<close> is a parameter: \<open>Call::bounded_wait\<close> may reject the call or time out. What is asked of
  it is in \<open>relays_queries\<close>.
\<close>

section \<open>Values\<close>

text \<open>The arguments and replies of the canister's methods, as the Candid layer of the two sides sees them.\<close>

datatype call_arg =
    Arg_LimitOrder limit_order_request
  | Arg_OrderId string
  | Arg_MyOrders "get_my_orders_filter option"
  | Arg_MyTrades trades_filter
  | Arg_Principal principal
  | Arg_Unit
  | Arg_Pair trading_pair
  | Arg_Depth trading_pair "u32 option"
  | Arg_Deposit deposit_request
  | Arg_Withdraw withdraw_request
  | Arg_Tokens "token_id list option"
  | Arg_AddPair add_trading_pair_request
  | Arg_Pairs "trading_pair list option"

datatype reply =
    is_order_id: Re_OrderId (un_order_id: "public_add_limit_order_error + string")
  | is_canceled: Re_Canceled (un_canceled: "cancel_limit_order_request_error request_only_error + public_order_record")
  | is_orders: Re_Orders (un_orders: "get_my_orders_request_error request_only_error + user_order list")
  | is_trades: Re_Trades (un_trades: "get_my_trades_request_error request_only_error + public_trade list")
  | is_granted: Re_Granted (un_granted: "public_add_trading_account_error + unit")
  | is_revoked: Re_Revoked (un_revoked: "remove_trading_account_request_error request_only_error + unit")
  | is_accounts: Re_Accounts (un_accounts: "principal list")
  | is_pairs: Re_Pairs (un_pairs: "trading_pair_info list")
  | is_ticker: Re_Ticker (un_ticker: "get_order_book_ticker_request_error request_only_error + order_book_ticker")
  | is_depth: Re_Depth (un_depth: "get_order_book_depth_request_error request_only_error + order_book_depth")
  | is_deposited: Re_Deposited (un_deposited: "public_deposit_error + nat")
  | is_withdrawn: Re_Withdrawn (un_withdrawn: "public_withdraw_error + nat")
  | is_balances: Re_Balances (un_balances: "get_balances_request_error request_only_error + user_token_balance list")
  | is_tokens: Re_Tokens (un_tokens: "(token_id \<times> token_metadata) list")
  | is_listed: Re_Listed (un_listed: "add_trading_pair_error + unit")
  | is_admin: Re_Admin (un_admin: "unauthorized_error + unit")

section \<open>Calls\<close>

datatype reject_code = SysFatal | SysTransient | DestinationInvalid | CanisterReject | CanisterError | SysUnknown

text \<open>\<open>CallFailed\<close> of \<open>ic_cdk\<close>: a rejection, whose code may be unrecognised, or a call that was not made.\<close>

datatype call_failed = CallRejected "reject_code option" string | CallNotMade string

definition call_failed_to_reject :: "call_failed \<Rightarrow> reject_code \<times> string" where
  "call_failed_to_reject err =
     (case err of
        CallRejected code message \<Rightarrow> (case code of Some c \<Rightarrow> c | None \<Rightarrow> SysUnknown, message)
      | CallNotMade text \<Rightarrow> (CanisterError, text))"

text \<open>\<open>IcRuntime::call\<close>: the transport takes the callee, the method, its arguments and the cycles; the response is
  decoded as a value of the type that the caller expects.\<close>

type_synonym transport = "principal \<Rightarrow> string \<Rightarrow> call_arg \<Rightarrow> nat \<Rightarrow> call_failed + reply"

definition ic_runtime_call ::
  "transport \<Rightarrow> (reply \<Rightarrow> string + 'o) \<Rightarrow> principal \<Rightarrow> string \<Rightarrow> call_arg \<Rightarrow> nat \<Rightarrow> (reject_code \<times> string) + 'o" where
  "ic_runtime_call bounded_wait candid_tuple callee method args cycles =
     (case bounded_wait callee method args cycles of
        Inl err \<Rightarrow> Inl (call_failed_to_reject err)
      | Inr response \<Rightarrow>
          (case candid_tuple response of
             Inl e \<Rightarrow> Inl (CanisterError, e)
           | Inr res \<Rightarrow> Inr res))"

record client =
  cl_runtime :: transport
  cl_decode_error :: string
  cl_canister :: principal

definition client_new :: "transport \<Rightarrow> string \<Rightarrow> principal \<Rightarrow> client" where
  "client_new runtime decode_error canister = \<lparr>cl_runtime = runtime, cl_decode_error = decode_error, cl_canister = canister\<rparr>"

text \<open>\<open>self.runtime.call(self.oisy_trade_canister, method, args, 0).await.unwrap()\<close>.\<close>

definition client_call :: "client \<Rightarrow> (reply \<Rightarrow> bool) \<Rightarrow> (reply \<Rightarrow> 'o) \<Rightarrow> string \<Rightarrow> call_arg \<Rightarrow> 'o option" where
  "client_call c of_type value_of method args =
     (case ic_runtime_call (cl_runtime c) (\<lambda>r. if of_type r then Inr (value_of r) else Inl (cl_decode_error c))
             (cl_canister c) method args 0 of
        Inl _ \<Rightarrow> None
      | Inr answer \<Rightarrow> Some answer)"

section \<open>Methods\<close>

definition client_add_limit_order :: "client \<Rightarrow> limit_order_request \<Rightarrow> (public_add_limit_order_error + string) option" where
  "client_add_limit_order c request = client_call c is_order_id un_order_id ''add_limit_order'' (Arg_LimitOrder request)"

definition client_cancel_limit_order ::
  "client \<Rightarrow> string \<Rightarrow> (cancel_limit_order_request_error request_only_error + public_order_record) option" where
  "client_cancel_limit_order c order_id = client_call c is_canceled un_canceled ''cancel_limit_order'' (Arg_OrderId order_id)"

definition client_get_my_orders ::
  "client \<Rightarrow> get_my_orders_filter \<Rightarrow> (get_my_orders_request_error request_only_error + user_order list) option" where
  "client_get_my_orders c args = client_call c is_orders un_orders ''get_my_orders'' (Arg_MyOrders (Some args))"

definition client_get_my_trades ::
  "client \<Rightarrow> trades_filter \<Rightarrow> (get_my_trades_request_error request_only_error + public_trade list) option" where
  "client_get_my_trades c args = client_call c is_trades un_trades ''get_my_trades'' (Arg_MyTrades args)"

definition client_add_trading_account :: "client \<Rightarrow> principal \<Rightarrow> (public_add_trading_account_error + unit) option" where
  "client_add_trading_account c trading = client_call c is_granted un_granted ''add_trading_account'' (Arg_Principal trading)"

definition client_remove_trading_account ::
  "client \<Rightarrow> principal \<Rightarrow> (remove_trading_account_request_error request_only_error + unit) option" where
  "client_remove_trading_account c trading = client_call c is_revoked un_revoked ''remove_trading_account'' (Arg_Principal trading)"

definition client_get_my_trading_accounts :: "client \<Rightarrow> principal list option" where
  "client_get_my_trading_accounts c = client_call c is_accounts un_accounts ''get_my_trading_accounts'' Arg_Unit"

definition client_get_my_order ::
  "client \<Rightarrow> string \<Rightarrow> (get_my_orders_request_error request_only_error + user_order) option" where
  "client_get_my_order c order_id = do {
     answer \<leftarrow> client_get_my_orders c (ById order_id);
     (case answer of
        Inl e \<Rightarrow> Some (Inl e)
      | Inr [] \<Rightarrow> None
      | Inr (order # _) \<Rightarrow> Some (Inr order))
   }"

definition client_get_trading_pairs :: "client \<Rightarrow> trading_pair_info list option" where
  "client_get_trading_pairs c = client_call c is_pairs un_pairs ''get_trading_pairs'' Arg_Unit"

definition client_get_order_book_ticker ::
  "client \<Rightarrow> trading_pair \<Rightarrow> (get_order_book_ticker_request_error request_only_error + order_book_ticker) option" where
  "client_get_order_book_ticker c pair = client_call c is_ticker un_ticker ''get_order_book_ticker'' (Arg_Pair pair)"

definition client_get_order_book_depth ::
  "client \<Rightarrow> trading_pair \<Rightarrow> u32 option \<Rightarrow> (get_order_book_depth_request_error request_only_error + order_book_depth) option" where
  "client_get_order_book_depth c pair limit = client_call c is_depth un_depth ''get_order_book_depth'' (Arg_Depth pair limit)"

definition client_deposit :: "client \<Rightarrow> deposit_request \<Rightarrow> (public_deposit_error + nat) option" where
  "client_deposit c request = client_call c is_deposited un_deposited ''deposit'' (Arg_Deposit request)"

definition client_withdraw :: "client \<Rightarrow> withdraw_request \<Rightarrow> (public_withdraw_error + nat) option" where
  "client_withdraw c request = client_call c is_withdrawn un_withdrawn ''withdraw'' (Arg_Withdraw request)"

definition client_get_balances ::
  "client \<Rightarrow> token_id list option \<Rightarrow> (get_balances_request_error request_only_error + user_token_balance list) option" where
  "client_get_balances c f = client_call c is_balances un_balances ''get_balances'' (Arg_Tokens f)"

definition client_get_fee_balances ::
  "client \<Rightarrow> token_id list option \<Rightarrow> (get_balances_request_error request_only_error + user_token_balance list) option" where
  "client_get_fee_balances c f = client_call c is_balances un_balances ''get_fee_balances'' (Arg_Tokens f)"

definition client_get_balance ::
  "client \<Rightarrow> token_id \<Rightarrow> (get_balances_request_error request_only_error + nat \<times> nat) option" where
  "client_get_balance c token = do {
     result \<leftarrow> client_get_balances c (Some [token]);
     (case result of
        Inl e \<Rightarrow> Some (Inl e)
      | Inr [] \<Rightarrow> None
      | Inr (entry # _) \<Rightarrow> Some (Inr (ut_free entry, ut_reserved entry)))
   }"

definition client_list_supported_tokens :: "client \<Rightarrow> (token_id \<times> token_metadata) list option" where
  "client_list_supported_tokens c = client_call c is_tokens un_tokens ''list_supported_tokens'' Arg_Unit"

definition client_add_trading_pair :: "client \<Rightarrow> add_trading_pair_request \<Rightarrow> (add_trading_pair_error + unit) option" where
  "client_add_trading_pair c request = client_call c is_listed un_listed ''add_trading_pair'' (Arg_AddPair request)"

definition client_halt_trading :: "client \<Rightarrow> trading_pair list option \<Rightarrow> (unauthorized_error + unit) option" where
  "client_halt_trading c pairs = client_call c is_admin un_admin ''halt_trading'' (Arg_Pairs pairs)"

definition client_resume_trading :: "client \<Rightarrow> trading_pair list option \<Rightarrow> (unauthorized_error + unit) option" where
  "client_resume_trading c pairs = client_call c is_admin un_admin ''resume_trading'' (Arg_Pairs pairs)"

section \<open>What the client relies on\<close>

text \<open>
  The contract of the two queries behind the lookups: a lookup by id that succeeds has an order, and a filter of one
  token that succeeds has its entry. A client that sees nothing but answers of the queries gets the first element of
  every list that it receives.
\<close>

locale lookup_queries =
  fixes orders :: "string \<Rightarrow> (get_my_orders_request_error request_only_error + user_order list) option"
    and balances :: "token_id \<Rightarrow> get_balances_request_error request_only_error + user_token_balance list"
  assumes order_found: "orders i = Some (Inr os) \<Longrightarrow> os \<noteq> []"
    and entry_found: "balances t = Inr bs \<Longrightarrow> map ut_token bs = [t]"
begin

lemma get_my_order_answers:
  assumes "\<And>answer. client_get_my_orders c (ById i) = Some answer \<Longrightarrow> orders i = Some answer"
  shows "client_get_my_order c i = map_option (map_sum id hd) (client_get_my_orders c (ById i))"
proof (cases "client_get_my_orders c (ById i)")
  case (Some answer)
  then show ?thesis using order_found [of i] assms [OF Some] by (cases answer) (auto simp: client_get_my_order_def split: list.split)
qed (simp add: client_get_my_order_def)

lemma get_balance_answers:
  assumes "\<And>answer. client_get_balances c (Some [t]) = Some answer \<Longrightarrow> balances t = answer"
  shows "client_get_balance c t =
    map_option (map_sum id (\<lambda>bs. (ut_free (hd bs), ut_reserved (hd bs)))) (client_get_balances c (Some [t]))"
proof (cases "client_get_balances c (Some [t])")
  case (Some answer)
  then show ?thesis using entry_found [of t] assms [OF Some] by (cases answer) (auto simp: client_get_balance_def split: list.split)
qed (simp add: client_get_balance_def)

end

lemma canister_order_found:
  assumes "main_get_my_orders (Some (ById i)) rt sv = Some (Inr os)"
  shows "os \<noteq> []"
proof -
  obtain x where x: "get_my_orders (Some (ById i)) (rt_caller rt) (cn_state (sv_canister sv)) = Some x" "os = [] \<Longrightarrow> x = Inr []"
    using assms by (cases "get_my_orders (Some (ById i)) (rt_caller rt) (cn_state (sv_canister sv))")
      (auto simp: main_get_my_orders_def map_sum_def split: sum.splits)
  then show ?thesis
    by (cases "order_id_parse i") (auto simp: get_my_orders_def Let_def trap_simps split: option.splits)
qed

lemma canister_entry_found:
  assumes "main_get_balances tx (Some [t]) rt sv = Inr bs"
  shows "map ut_token bs = [t]"
  using assms
  by (auto simp: main_get_balances_def api_get_balances_def validate_filter_len_def MAX_FILTER_LEN_def
      st_get_balances_def Let_def public_balance_def map_sum_def split: sum.splits option.splits)

interpretation canister_lookups: lookup_queries "\<lambda>i. main_get_my_orders (Some (ById i)) rt sv" "\<lambda>t. main_get_balances tx (Some [t]) rt sv"
  for rt sv tx
  by unfold_locales (auto dest: canister_order_found canister_entry_found)

section \<open>The transport\<close>

text \<open>
  What the client relies on of the transport to the canister \<open>self\<close>: a call of one of the two queries either fails, for whatever
  reason, or brings the reply that the entry point gives to the caller. No call is promised to succeed.
\<close>

definition relays_queries :: "transport \<Rightarrow> principal \<Rightarrow> text_ops \<Rightarrow> runtime \<Rightarrow> 'b service \<Rightarrow> bool" where
  "relays_queries net self tx rt sv \<longleftrightarrow>
     (\<forall>f r. net self ''get_my_orders'' (Arg_MyOrders f) 0 = Inr r \<longrightarrow> (\<exists>answer. main_get_my_orders f rt sv = Some answer \<and> r = Re_Orders answer)) \<and>
     (\<forall>f r. net self ''get_balances'' (Arg_Tokens f) 0 = Inr r \<longrightarrow> r = Re_Balances (main_get_balances tx f rt sv))"

lemma client_orders:
  assumes "relays_queries net self tx rt sv"
  shows "client_get_my_orders (client_new net err self) f =
    (if isl (net self ''get_my_orders'' (Arg_MyOrders (Some f)) 0) then None else main_get_my_orders (Some f) rt sv)"
proof (cases "net self ''get_my_orders'' (Arg_MyOrders (Some f)) 0")
  case (Inr r)
  then obtain answer where "main_get_my_orders (Some f) rt sv = Some answer" "r = Re_Orders answer"
    using assms unfolding relays_queries_def by blast
  then show ?thesis using Inr by (simp add: client_get_my_orders_def client_call_def ic_runtime_call_def client_new_def)
qed (simp add: client_get_my_orders_def client_call_def ic_runtime_call_def client_new_def)

lemma client_balances:
  assumes "relays_queries net self tx rt sv"
  shows "client_get_balances (client_new net err self) f =
    (if isl (net self ''get_balances'' (Arg_Tokens f) 0) then None else Some (main_get_balances tx f rt sv))"
proof (cases "net self ''get_balances'' (Arg_Tokens f) 0")
  case (Inr r)
  then have "r = Re_Balances (main_get_balances tx f rt sv)" using assms unfolding relays_queries_def by blast
  then show ?thesis using Inr by (simp add: client_get_balances_def client_call_def ic_runtime_call_def client_new_def)
qed (simp add: client_get_balances_def client_call_def ic_runtime_call_def client_new_def)

lemma client_order_answer:
  assumes "relays_queries net self tx rt sv"
  shows "client_get_my_order (client_new net err self) i =
    (if isl (net self ''get_my_orders'' (Arg_MyOrders (Some (ById i))) 0) then None
     else map_option (map_sum id hd) (main_get_my_orders (Some (ById i)) rt sv))"
  by (subst canister_lookups.get_my_order_answers [of _ _ rt sv]) (auto simp: client_orders [OF assms] split: if_splits)

lemma client_balance_answer:
  assumes "relays_queries net self tx rt sv"
  shows "client_get_balance (client_new net err self) t =
    (if isl (net self ''get_balances'' (Arg_Tokens (Some [t])) 0) then None
     else Some (map_sum id (\<lambda>bs. (ut_free (hd bs), ut_reserved (hd bs))) (main_get_balances tx (Some [t]) rt sv)))"
  by (subst canister_lookups.get_balance_answers [of _ _ tx rt sv]) (auto simp: client_balances [OF assms] split: if_splits)

end
