(* ===== verification/Refusals.thy ===== *)
theory Refusals
  imports Exchange_Messages Endpoints
begin

text \<open>
  What a refusal says of the state. For every leaf of the public errors of \<open>add_limit_order\<close> and \<open>cancel_limit_order\<close> there is a
  condition on the request and the state, in terms of plain numbers, under which the leaf, with the values it carries, is
  true. The lemmas show that the canister refuses exactly when one of the conditions holds, and names one that does.
\<close>

section \<open>Orders\<close>

definition free_funds :: "trade_state \<Rightarrow> principal \<Rightarrow> token_id \<Rightarrow> nat" where
  "free_funds s p t =
     (case lookup_funding_id (st_registry s) p of
        None \<Rightarrow> 0 | Some u \<Rightarrow> q2n (bal_free (map_balance (tb_balances (st_balances s)) (t, u))))"

definition book_of_pair :: "trade_state \<Rightarrow> trading_pair \<Rightarrow> order_book option" where
  "book_of_pair s pair = Option.bind (get_book_id (st_pairs s) pair) (bt_get (st_books s))"

definition request_leaf_true :: "limit_order_request \<Rightarrow> principal \<Rightarrow> trade_state \<Rightarrow> add_limit_order_request_error \<Rightarrow> bool" where
  "request_leaf_true req owner s leaf \<longleftrightarrow>
     (case leaf of
        ALR_AmountExceedsMaximum \<Rightarrow>
          2 ^ 128 \<le> req_price req \<or> 2 ^ 256 \<le> req_quantity req \<or> 2 ^ 256 \<le> req_price req * req_quantity req
      | ALR_UnknownTradingPair \<Rightarrow> get_book_id (st_pairs s) (req_pair req) = None
      | ALR_InvalidPrice price tick \<Rightarrow>
          price = req_price req \<and> map_option (\<lambda>b. unat (bk_tick_size b)) (book_of_pair s (req_pair req)) = Some tick \<and>
          (price = 0 \<or> \<not> tick dvd price)
      | ALR_InvalidQuantity quantity lot \<Rightarrow>
          quantity = req_quantity req \<and> map_option (\<lambda>b. unat (bk_lot_size b)) (book_of_pair s (req_pair req)) = Some lot \<and>
          (quantity = 0 \<or> \<not> lot dvd quantity)
      | ALR_InvalidNotional notional lo hi \<Rightarrow>
          (\<exists>scale. base_scale s (tp_base (req_pair req)) = Some scale \<and> notional = req_price req * req_quantity req div unat scale) \<and>
          map_option (\<lambda>b. (q2n (bk_min_notional b), map_option q2n (bk_max_notional b))) (book_of_pair s (req_pair req)) = Some (lo, hi) \<and>
          (notional < lo \<or> (\<exists>m. hi = Some m \<and> m < notional))
      | ALR_InsufficientBalance token available required \<Rightarrow>
          token = requested_token req \<and> available = free_funds s owner token \<and>
          (\<exists>scale. base_scale s (tp_base (req_pair req)) = Some scale \<and> required = requested_amount (unat scale) req) \<and>
          available < required)"

definition order_refused_for ::
  "limit_order_request \<Rightarrow> principal \<Rightarrow> trade_state \<Rightarrow>
   (add_limit_order_request_error, add_limit_order_temporary_error, never) error_kind \<Rightarrow> bool" where
  "order_refused_for req owner s kind \<longleftrightarrow>
     (case kind of
        RequestError (Some leaf) \<Rightarrow> request_leaf_true req owner s leaf
      | TemporaryError (Some ALT_TradingHalted) \<Rightarrow>
          (\<exists>i. get_book_id (st_pairs s) (req_pair req) = Some i \<and> is_halted (st_permissions s) i)
      | _ \<Rightarrow> False)"

section \<open>Validation in plain numbers\<close>

definition checked_order ::
  "order_book \<Rightarrow> nat \<Rightarrow> (token_id \<Rightarrow> nat) \<Rightarrow> trading_pair \<Rightarrow> order_book_id \<Rightarrow> pending_order \<Rightarrow> add_limit_order_error + (order_id \<times> order)" where
  "checked_order b scale free pair i pending =
     (let p = unat (po_price pending); q = q2n (po_quantity pending); n = p * q div scale;
          t = (case po_side pending of Buy \<Rightarrow> tp_quote pair | Sell \<Rightarrow> tp_base pair);
          r = (case po_side pending of Buy \<Rightarrow> n | Sell \<Rightarrow> q)
      in if p = 0 \<or> \<not> unat (bk_tick_size b) dvd p then Inl (InvalidOrder (InvalidTickSize (po_price pending) (bk_tick_size b)))
         else if q = 0 \<or> \<not> unat (bk_lot_size b) dvd q then Inl (InvalidOrder (InvalidLotSize (po_quantity pending) (bk_lot_size b)))
         else if 2 ^ 256 \<le> p * q then Inl AmountExceedsMaximum
         else if n < q2n (bk_min_notional b) \<or> (\<exists>m. bk_max_notional b = Some m \<and> q2n m < n)
         then Inl (InvalidNotional (n2q n) (bk_min_notional b) (bk_max_notional b))
         else if free t < r then Inl (InsufficientBalance t (n2q (free t)) (n2q r))
         else Inr ((i, bk_next_seq b), into_order pending (bk_next_seq b)))"

lemma free_funds_lt: "free_funds s p t < 2 ^ 256"
  using q2n_bound by (auto simp: free_funds_def split: option.split)

lemma free_funds_eq: "(case get_user_balance s p t of None \<Rightarrow> quantity_ZERO | Some bal \<Rightarrow> bal_free bal) = n2q (free_funds s p t)"
proof -
  have "n2q 0 = quantity_ZERO" by (simp add: n2q_def quantity_ZERO_def)
  then show ?thesis
    by (simp add: get_user_balance_def free_funds_def get_balance_def map_balance_def balance_zero_def split: option.split)
qed

lemma div_small: "n < 2 ^ 256 \<Longrightarrow> n div m < 2 ^ 256" for n m :: nat
  by (meson div_le_dividend le_less_trans)

lemma validation_eq:
  assumes l: "alive K c" and i: "get_book_id (st_pairs (cn_state c)) pair = Some i"
    and b: "bt_get (st_books (cn_state c)) i = Some b" and scale: "base_scale (cn_state c) (tp_base pair) = Some scale"
  shows "validate_limit_order owner pair pending (cn_state c) =
    Some (checked_order b (unat scale) (free_funds (cn_state c) owner) pair i pending)"
proof -
  let ?p = "po_price pending" and ?q = "po_quantity pending"
  have fit: "book_ok b" "scale \<noteq> 0" "unat scale dvd unat (bk_tick_size b) * unat (bk_lot_size b)"
    using pair_book [OF l i] b scale by (metis option.inject)+
  have v: "validate_order b ?p ?q = Some (
      if unat ?p = 0 \<or> \<not> unat (bk_tick_size b) dvd unat ?p then Inl (InvalidTickSize ?p (bk_tick_size b))
      else if q2n ?q = 0 \<or> \<not> unat (bk_lot_size b) dvd q2n ?q then Inl (InvalidLotSize ?q (bk_lot_size b)) else Inr ())"
    using validate_order_eq [of b ?p ?q] fit(1) by (simp add: book_ok_def unat_eq_0)
  show ?thesis
  proof (cases "unat ?p = 0 \<or> \<not> unat (bk_tick_size b) dvd unat ?p \<or> q2n ?q = 0 \<or> \<not> unat (bk_lot_size b) dvd q2n ?q")
    case True
    then show ?thesis using i b by (auto simp: validate_limit_order_def checked_order_def v Let_def)
  next
    case False
    then have d: "unat scale dvd unat ?p * q2n ?q" by (intro dvd_value [OF fit(3)]) simp_all
    note mul = checked_mul_quantity_scaled_eq [OF fit(2) d]
    show ?thesis
    proof (cases "unat ?p * q2n ?q < 2 ^ 256")
      case True
      then show ?thesis
        using False i b scale
        by (cases "po_side pending"; cases "bk_max_notional b")
           (simp_all add: validate_limit_order_def checked_order_def v Let_def mul check_notional_def free_funds_eq q2n_less
              q2n_n2q [OF div_small [OF True]] q2n_n2q [OF free_funds_lt])
    next
      case big: False
      then show ?thesis using False i b scale by (simp add: validate_limit_order_def checked_order_def v mul)
    qed
  qed
qed

text \<open>The leaf that an endpoint error is published with.\<close>

lemma add_limit_order_error_kind:
  "er_kind (add_limit_order_error_public tx AmountExceedsMaximum) = RequestError (Some ALR_AmountExceedsMaximum)"
  "er_kind (add_limit_order_error_public tx UnknownTradingPair) = RequestError (Some ALR_UnknownTradingPair)"
  "er_kind (add_limit_order_error_public tx (InvalidOrder (InvalidTickSize p tick))) = RequestError (Some (ALR_InvalidPrice (unat p) (unat tick)))"
  "er_kind (add_limit_order_error_public tx (InvalidOrder (InvalidLotSize q lot))) = RequestError (Some (ALR_InvalidQuantity (q2n q) (unat lot)))"
  "er_kind (add_limit_order_error_public tx (InsufficientBalance t a r)) = RequestError (Some (ALR_InsufficientBalance t (q2n a) (q2n r)))"
  "er_kind (add_limit_order_error_public tx (InvalidNotional n lo hi)) = RequestError (Some (ALR_InvalidNotional (q2n n) (q2n lo) (map_option q2n hi)))"
  "er_kind (add_limit_order_error_public tx TradingHalted) = TemporaryError (Some ALT_TradingHalted)"
  by (simp_all add: add_limit_order_error_public_def envelope_defs to_nat_eq [abs_def] Let_def)

lemma checked_order_leaf:
  assumes i: "get_book_id (st_pairs s) (req_pair req) = Some i" and b: "bt_get (st_books s) i = Some b"
    and scale: "base_scale s (tp_base (req_pair req)) = Some scale"
    and big: "biguint_ok big" and pending: "pending_order_try_from big req = Inr pending"
  shows "case checked_order b (unat scale) (free_funds s owner) (req_pair req) i pending of
      Inl e \<Rightarrow> order_refused_for req owner s (er_kind (add_limit_order_error_public tx e))
    | Inr x \<Rightarrow> fst (fst x) = i \<and> \<not> request_leaf_true req owner s leaf"
proof -
  note q = pending_order_of_request [OF big pending]
  note leaf = checked_order_def add_limit_order_error_kind order_refused_for_def request_leaf_true_def book_of_pair_def i b scale
    q(3-5) requested_token_def [symmetric] requested_amount_def [symmetric] Let_def
  let ?n = "req_price req * req_quantity req" and ?t = "requested_token req" and ?a = "requested_amount (unat scale) req"
  show ?thesis
  proof (cases "req_price req = 0 \<or> \<not> unat (bk_tick_size b) dvd req_price req \<or> req_quantity req = 0 \<or>
      \<not> unat (bk_lot_size b) dvd req_quantity req \<or> 2 ^ 256 \<le> ?n")
    case True
    then show ?thesis by (auto simp: leaf)
  next
    case valid: False
    then have small: "?n < 2 ^ 256" by linarith
    have fits: "q2n (n2q (?n div unat scale)) = ?n div unat scale" "q2n (n2q (free_funds s owner ?t)) = free_funds s owner ?t"
      by (simp_all only: q2n_n2q [OF div_small [OF small]] q2n_n2q [OF free_funds_lt])
    have "?a < 2 ^ 256" using div_small [OF small] q(2) by (simp add: requested_amount_def split: side.split)
    then have amount: "q2n (n2q ?a) = ?a" by (rule q2n_n2q)
    show ?thesis
    proof (cases "?n div unat scale < q2n (bk_min_notional b) \<or> (\<exists>m. bk_max_notional b = Some m \<and> q2n m < ?n div unat scale)")
      case True
      then show ?thesis using valid fits by (auto simp: leaf)
    next
      case False
      then show ?thesis using valid q(1,2) fits amount
        by (cases "free_funds s owner ?t < ?a") (auto simp: leaf split: add_limit_order_request_error.split)
    qed
  qed
qed

lemma order_refusals:
  assumes l: "alive K c" and big: "biguint_ok big" and r: "api_add_limit_order big req rt c = Some (r, c')"
  defines "owner \<equiv> effective_account (cn_state c) (rt_caller rt)"
  shows "case r of Inl e \<Rightarrow> order_refused_for req owner (cn_state c) (er_kind (add_limit_order_error_public tx e))
    | Inr _ \<Rightarrow> \<not> order_refused_for req owner (cn_state c) kind"
proof (cases "pending_order_try_from big req")
  case (Inl x)
  then have "2 ^ 128 \<le> req_price req \<or> 2 ^ 256 \<le> req_quantity req"
    by (auto simp: pending_order_try_from_def quantity_try_from_eq [OF big] not_less split: if_splits)
  moreover have "r = Inl AmountExceedsMaximum" using r Inl by (auto simp: api_add_limit_order_def Let_def trap_simps)
  ultimately show ?thesis by (auto simp: add_limit_order_error_kind order_refused_for_def request_leaf_true_def)
next
  case (Inr pending)
  let ?s = "cn_state c"
  show ?thesis
  proof (cases "get_book_id (st_pairs ?s) (req_pair req)")
    case None
    then have "r = Inl UnknownTradingPair" using r Inr by (auto simp: api_add_limit_order_def validate_limit_order_def Let_def trap_simps)
    then show ?thesis using None by (simp add: add_limit_order_error_kind order_refused_for_def request_leaf_true_def)
  next
    case (Some i)
    obtain b scale where b: "bt_get (st_books ?s) i = Some b" "base_scale ?s (tp_base (req_pair req)) = Some scale" using pair_book [OF l Some] .
    let ?v = "checked_order b (unat scale) (free_funds ?s owner) (req_pair req) i pending"
    have v: "validate_limit_order owner (req_pair req) pending ?s = Some ?v" by (rule validation_eq [OF l Some b])
    note leaf = checked_order_leaf [OF Some b big Inr, of owner tx]
    show ?thesis
    proof (cases ?v)
      case refused: (Inl e)
      then have "r = Inl e" using r Inr v by (auto simp: api_add_limit_order_def owner_def Let_def trap_simps)
      then show ?thesis using leaf refused by simp
    next
      case accepted: (Inr x)
      then have "fst (fst x) = i" "\<not> request_leaf_true req owner ?s z" for z using leaf [of z] by simp_all
      moreover have "is_halted (st_permissions ?s) (fst (fst x)) \<and> r = Inl TradingHalted \<or> \<not> is_halted (st_permissions ?s) (fst (fst x)) \<and> \<not> isl r"
        using r Inr v accepted
        by (cases x; cases "is_halted (st_permissions ?s) (fst (fst x))")
           (auto simp: api_add_limit_order_def owner_def Let_def trap_simps permit_trading_def)
      ultimately show ?thesis using Some
        by (cases r) (auto simp: add_limit_order_error_kind order_refused_for_def split: error_kind.split option.split add_limit_order_temporary_error.split)
    qed
  qed
qed

section \<open>Cancellations\<close>

definition cancel_refused_for ::
  "string \<Rightarrow> principal \<Rightarrow> trade_state \<Rightarrow> (cancel_limit_order_request_error, never, never) error_kind \<Rightarrow> bool" where
  "cancel_refused_for given owner s kind \<longleftrightarrow>
     (case kind of
        RequestError (Some CLR_InvalidOrderId) \<Rightarrow> (\<forall>i. given \<noteq> order_id_to_string i)
      | RequestError (Some CLR_OrderNotFound) \<Rightarrow> (\<exists>i. given = order_id_to_string i \<and> history_get (st_orders s) i = None)
      | RequestError (Some CLR_NotOrderOwner) \<Rightarrow>
          (\<exists>i r. given = order_id_to_string i \<and> history_get (st_orders s) i = Some r \<and> or_owner r \<noteq> owner)
      | RequestError (Some CLR_OrderAlreadyTerminal) \<Rightarrow>
          (\<exists>i r. given = order_id_to_string i \<and> history_get (st_orders s) i = Some r \<and> or_owner r = owner \<and>
             or_status r \<in> {Filled, Canceled, Expired})
      | _ \<Rightarrow> False)"

lemma order_id_parse_iff: "order_id_parse given = Inr i \<longleftrightarrow> given = order_id_to_string i"
  by (simp add: order_id_parse_def order_id_to_string_def order_id.parse_iff)

lemma cancel_refusals:
  assumes r: "api_cancel_limit_order given rt c = Some (r, c')"
  defines "owner \<equiv> effective_account (cn_state c) (rt_caller rt)"
  shows "case r of Inl e \<Rightarrow> cancel_refused_for given owner (cn_state c) (er_kind (cancel_limit_order_error_public e))
    | Inr _ \<Rightarrow> \<not> cancel_refused_for given owner (cn_state c) kind"
proof (cases "order_id_parse given")
  case (Inl e)
  then have "\<forall>i. given \<noteq> order_id_to_string i" using order_id_parse_iff [of given] by fastforce
  moreover have "r = Inl InvalidOrderId" using r Inl by (auto simp: api_cancel_limit_order_def Let_def trap_simps)
  ultimately show ?thesis by (simp add: cancel_refused_for_def cancel_limit_order_error_public_def envelope_defs)
next
  case (Inr i)
  then have given: "given = order_id_to_string j \<longleftrightarrow> j = i" for j by (auto simp: order_id_parse_iff [symmetric])
  note leaf = cancel_refused_for_def given cancel_limit_order_error_public_def envelope_defs
  obtain by' x where x: "st_cancel_limit_order owner by' i (rt_time rt) c = Some (x, c')" "r = (case x of Inl e \<Rightarrow> Inl (CancelError e) | Inr record \<Rightarrow> Inr record)"
    using r Inr unfolding api_cancel_limit_order_def owner_def by (auto simp: Let_def Option.bind_eq_Some_conv simp del: split_paired_Ex)
  show ?thesis
  proof (cases "validate_cancel_limit_order owner i (cn_state c)")
    case refused: (Inl e)
    then have "r = Inl (CancelError e)" using x by (auto simp: st_cancel_limit_order_def)
    then show ?thesis using refused
      by (auto simp: validate_cancel_limit_order_def leaf split: option.splits if_splits order_status.splits)
  next
    case accepted: (Inr u)
    then have "\<not> isl r" using x by (auto simp: st_cancel_limit_order_def Let_def trap_simps)
    then show ?thesis using accepted
      by (cases r) (auto simp: validate_cancel_limit_order_def leaf
         split: option.splits if_splits order_status.splits error_kind.split cancel_limit_order_request_error.split)
  qed
qed

end
