(* ===== verification/Service_Properties.thy ===== *)
theory Service_Properties
  imports Service Client Refusals Exchange_Examples
begin

text \<open>Properties of the entry points, the queries and the pages, with their examples.\<close>

section \<open>An example behind the entry points\<close>

definition ex_text :: text_ops where
  "ex_text = \<lparr>principal_text = (\<lambda>p. ''p''), principal_debug = (\<lambda>p. ''p''), nat_text = dec_string, biguint_text = dec_string,
     transfer_error_text = (\<lambda>_. ''error''), transfer_from_error_text = (\<lambda>_. ''error'')\<rparr>"

definition ex_codec :: "state_snapshot snapshot_codec" where
  "ex_codec = \<lparr>sc_encode = (\<lambda>sn. [sn]), sc_decode = (\<lambda>bytes. case bytes of [sn] \<Rightarrow> Some sn | _ \<Rightarrow> None)\<rparr>"

lemma ex_codec_ok: "codec_ok ex_codec"
  by (simp add: codec_ok_def ex_codec_def)

abbreviation ex_reached :: "state_snapshot service \<Rightarrow> bool" where
  "ex_reached \<equiv> service_reachable ex_consts ex_biguint ex_text ex_codec ex_init"

definition ex_run :: "state_snapshot service \<Rightarrow> bool" where
  "ex_run sv \<longleftrightarrow> (\<exists>sv0. main_init ex_init 5 = Some sv0 \<and> (service_step ex_consts ex_biguint ex_text)\<^sup>*\<^sup>* sv0 sv)"

lemma ex_run_step: "ex_run sv \<Longrightarrow> service_step ex_consts ex_biguint ex_text sv sv' \<Longrightarrow> ex_run sv'"
  by (auto simp: ex_run_def intro: rtranclp.rtrancl_into_rtrancl)

lemma ex_run_reached:
  assumes "ex_run sv"
  shows "ex_reached sv"
proof -
  obtain sv0 where "main_init ex_init 5 = Some sv0" and run: "(service_step ex_consts ex_biguint ex_text)\<^sup>*\<^sup>* sv0 sv"
    using assms by (auto simp: ex_run_def)
  then have "ex_reached sv0" by (intro installed)
  with run show ?thesis by (induction rule: rtranclp_induct) (auto intro: stepped)
qed

lemma ex_installed:
  "\<exists>sv. ex_run sv \<and> sv_timers sv = 0 \<and>
     sv_system sv = \<lparr>sy_canister = \<lparr>cn_state = ex_state\<lparr>st_permissions := permissions_default\<rparr>, cn_log = ex_log0\<rparr>, sy_calls = [], sy_lost = []\<rparr>"
proof -
  obtain sv where "main_init ex_init 5 = Some sv" "sv_timers (sv :: state_snapshot service) = 0"
      "sv_system sv = \<lparr>sy_canister = \<lparr>cn_state = ex_state\<lparr>st_permissions := permissions_default\<rparr>, cn_log = ex_log0\<rparr>, sy_calls = [], sy_lost = []\<rparr>"
    by (simp add: main_init_def canister_init_def ex_init_def state_new_def policy_try_new_def ex_state_def ex_log0_def
        DEFAULT_MAX_SETTLEMENT_UNITS_PER_EVENT_def MAX_INSTRUCTION_BUDGET_def)
  then show ?thesis unfolding ex_run_def by blast
qed

lemma ex_service_listed:
  "\<exists>sv. ex_run sv \<and> sv_timers sv = 0 \<and> sv_system sv = \<lparr>sy_canister = \<lparr>cn_state = ex_listed, cn_log = ex_log1\<rparr>, sy_calls = [], sy_lost = []\<rparr>"
proof -
  obtain sv where sv: "ex_run sv" "sv_timers sv = 0"
      "sv_system sv = \<lparr>sy_canister = \<lparr>cn_state = ex_state\<lparr>st_permissions := permissions_default\<rparr>, cn_log = ex_log0\<rparr>, sy_calls = [], sy_lost = []\<rparr>"
    using ex_installed by blast
  let ?sv = "set_canister \<lparr>cn_state = ex_listed, cn_log = ex_log1\<rparr> sv"
  have "main_add_trading_pair ex_biguint ex_pair_request (ex_rt 9) sv = Some (Inr (), ?sv)"
    using sv(3) ex_pair_added by (simp add: main_add_trading_pair_def sv_canister_def)
  then have "ex_run ?sv" by (intro ex_run_step [OF sv(1)] msg_add_trading_pair)
  then show ?thesis using sv by (intro exI [of _ ?sv]) simp
qed

lemma ex_service_funded:
  "\<exists>sv. ex_run sv \<and> sv_timers sv = 0 \<and> sv_system sv = \<lparr>sy_canister = \<lparr>cn_state = ex_funded, cn_log = ex_log2\<rparr>, sy_calls = [], sy_lost = []\<rparr>"
proof -
  let ?req = "\<lparr>dr_token = 2, dr_amount = 100\<rparr>" and ?rt = "ex_rt 5"
  obtain sv where sv: "ex_run sv" "sv_timers sv = 0"
      "sv_system sv = \<lparr>sy_canister = \<lparr>cn_state = ex_listed, cn_log = ex_log1\<rparr>, sy_calls = [], sy_lost = []\<rparr>"
    using ex_service_listed by blast
  obtain sv1 where sv1: "main_deposit_call ex_biguint ex_text ?req ?rt sv = Some (None, sv1)" "sv_timers sv1 = 0"
      "sv_system sv1 = \<lparr>sy_canister = \<lparr>cn_state = ex_listed\<lparr>st_in_flight := {(5, 2)}\<rparr>, cn_log = ex_log1\<rparr>,
         sy_calls = [DepositCall 5 2 (Quantity 0 100)], sy_lost = []\<rparr>"
    using sv(2,3) ex_deposit_started by (simp add: main_deposit_call_def sv_canister_def Let_def) (simp add: ex_rt_def)
  obtain r sv2 where sv2: "main_deposit_return ex_text ?req (Quantity 0 100) (Block 3) ?rt sv1 = Some (r, sv2)" "sv_timers sv2 = 0"
      "sv_system sv2 = \<lparr>sy_canister = \<lparr>cn_state = ex_funded, cn_log = ex_log2\<rparr>, sy_calls = [], sy_lost = []\<rparr>"
    using sv1(2,3) ex_deposit_finished by (simp add: main_deposit_return_def sv_canister_def Let_def) (simp add: ex_rt_def)
  have "service_step ex_consts ex_biguint ex_text sv1 sv2"
    using sv1(3) by (intro msg_deposit_return [OF _ sv2(1)]) (simp add: ex_rt_def)
  then show ?thesis using ex_run_step [OF ex_run_step [OF sv(1) msg_deposit_call [OF sv1(1)]]] sv2(2,3) by blast
qed

text \<open>The order of the example is placed, and its timer is armed.\<close>

lemma ex_service_run: "\<exists>sv. ex_run sv \<and> sv_timers sv = 1 \<and> sv_system sv = ex_exchange"
proof -
  obtain sv where sv: "ex_run sv" "sv_timers sv = 0"
      "sv_system sv = \<lparr>sy_canister = \<lparr>cn_state = ex_funded, cn_log = ex_log2\<rparr>, sy_calls = [], sy_lost = []\<rparr>"
    using ex_service_funded by blast
  obtain r sv1 where sv1: "main_add_limit_order ex_biguint ex_text ex_request (ex_rt 5) sv = Some (r, sv1)" "sv_timers sv1 = 1"
      "sv_system sv1 = ex_exchange"
    using sv(2,3) ex_order_added by (simp add: main_add_limit_order_def sv_canister_def Let_def ex_exchange_def)
  show ?thesis using ex_run_step [OF sv(1) msg_add_limit_order [OF sv1(1)]] sv1 by blast
qed

section \<open>The service\<close>

text \<open>C11. The entry points refine the canister's state machine: whatever sequence of calls, ledger answers,
  timers and upgrades the service has gone through, the canister behind it is in a state that the
  machine reaches, so every invariant of the machine holds behind the entry points. The
  periodic timer is always set, the snapshot cell is empty outside an upgrade, and a
  \<open>post_upgrade\<close> without its \<open>pre_upgrade\<close> traps instead of restoring an old snapshot.\<close>

theorem service_refines_canister:
  assumes "codec_ok codec" "service_reachable pc big tx codec arg sv"
  shows "reachable pc big arg (sv_system sv) \<and> sv_interval sv \<and> sv_cell sv = [] \<and>
    main_post_upgrade codec upgrade_arg counter now sv = None"
proof -
  have "reachable pc big arg (sv_system sv) \<and> sv_cell sv = [] \<and> sv_interval sv" by (rule service_refines [OF assms])
  then show ?thesis by (simp add: main_post_upgrade_def snapshot_load_def Let_def)
qed

theorem service_refines_canister_witness:
  "\<exists>sv. sv_system sv = ex_exchange \<and> sv_timers sv = 1 \<and> sv_interval sv \<and> main_post_upgrade ex_codec None (\<lambda>_. 0) 9 sv = None"
proof -
  obtain sv where sv: "ex_reached sv" "sv_timers sv = 1" "sv_system sv = ex_exchange" using ex_service_run ex_run_reached by blast
  then show ?thesis using service_refines_canister [OF ex_codec_ok sv(1)] by blast
qed

text \<open>C10. No wake-up is lost: after the installation, and after every run of the matching timer, work
  never waits without a zero-delay timer. Whatever messages follow, as long as there is an order
  to match or a settling event to apply, a timer is armed that will run \<open>drive_matching\<close>. An upgrade
  drops the timers, and then the periodic timer takes over.\<close>

theorem no_lost_wakeup:
  assumes "codec_ok codec"
    and "main_init arg now = Some sv \<or>
      (\<exists>sv0 counter. service_reachable pc big tx codec arg sv0 \<and> main_drive_matching counter now sv0 = Some sv)"
    and "(service_step pc big tx)\<^sup>*\<^sup>* sv sv'"
    and "has_matchable_pending_orders (cn_state (sv_canister sv')) \<or> st_settling (cn_state (sv_canister sv')) \<noteq> []"
  shows "0 < sv_timers sv'"
proof -
  have start: "awake sv \<and> service_reachable pc big tx codec arg sv"
    using assms(2)
  proof
    assume "main_init arg now = Some sv"
    then show ?thesis using awake_init installed by blast
  next
    assume "\<exists>sv0 counter. service_reachable pc big tx codec arg sv0 \<and> main_drive_matching counter now sv0 = Some sv"
    then obtain sv0 counter where x: "service_reachable pc big tx codec arg sv0" "main_drive_matching counter now sv0 = Some sv" by blast
    note r = service_refines [OF assms(1) x(1)]
    have "awake sv" using awake_drive [OF x(2)] reachable_idle [of pc big arg "sv_system sv0"] r by (simp add: sv_canister_def)
    then show ?thesis using stepped [OF x(1) interval_fires [OF _ x(2)]] r by blast
  qed
  have "awake sv' \<and> service_reachable pc big tx codec arg sv'"
    using assms(3)
  proof (induction rule: rtranclp_induct)
    case (step a b)
    then have "st_tasks (cn_state (sv_canister a)) = {}"
      using reachable_idle service_refines [OF assms(1)] by (metis sv_canister_def)
    then show ?case using step awake_step stepped by metis
  qed (rule start)
  then show ?thesis using assms(4) by (auto simp: awake_def status_from_state_def has_pending_settling_events_def)
qed

theorem no_lost_wakeup_witness:
  "\<exists>sv sv' :: state_snapshot service. main_init ex_init 5 = Some sv \<and> (service_step ex_consts ex_biguint ex_text)\<^sup>*\<^sup>* sv sv' \<and>
     sv_system sv' = ex_exchange \<and> 0 < sv_timers sv'"
proof -
  obtain sv sv' where x: "main_init ex_init 5 = Some sv" "(service_step ex_consts ex_biguint ex_text)\<^sup>*\<^sup>* sv (sv' :: state_snapshot service)"
      "sv_system sv' = ex_exchange" using ex_service_run unfolding ex_run_def by blast
  have "has_matchable_pending_orders (cn_state (sv_canister sv'))"
    by (simp add: x(3) sv_canister_def ex_exchange_def ex_traded_def ex_funded_def ex_listed_def ex_state_def has_matchable_iff
        is_halted_def permissions_default_def)
  then show ?thesis using no_lost_wakeup [OF ex_codec_ok disjI1 [OF x(1)] x(2)] x by blast
qed

section \<open>Queries\<close>

text \<open>C12. Users see their own records only: in every reachable state \<open>get_my_orders\<close> and \<open>get_my_trades\<close> answer
  without a trap for every caller and every filter; every order they list is one whose owner is the account the
  caller acts for, with the stored record, and every trade is a stored fill of such an order.\<close>

theorem queries_show_own_records:
  assumes "reachable pc big arg y" "length (cn_log (sy_canister y)) < 2 ^ 62"
    "\<And>t. deposited t (cn_log (sy_canister y)) \<le> K" "K < 2 ^ 192"
  shows "(\<exists>x. get_my_orders filter_orders caller (cn_state (sy_canister y)) = Some x \<and>
      (\<forall>os. x = Inr os \<longrightarrow> (\<forall>(t, pair, r) \<in> set os. or_owner r = effective_account (cn_state (sy_canister y)) caller \<and>
         (\<exists>i. t = order_id_to_string i \<and> history_get (st_orders (cn_state (sy_canister y))) i = Some r)))) \<and>
    (\<exists>z. get_my_trades filter_trades caller (cn_state (sy_canister y)) = Some z \<and>
      (\<forall>ts. z = Inr ts \<longrightarrow> (\<forall>(i, t) \<in> set ts. history_get (st_trades (cn_state (sy_canister y))) i = Some t \<and>
         (\<exists>r. history_get (st_orders (cn_state (sy_canister y))) (fst i) = Some r \<and>
            or_owner r = effective_account (cn_state (sy_canister y)) caller))))"
proof -
  note v = reachable_view [OF assms]
  have own: "owner_of s i = Some p \<longleftrightarrow> (\<exists>r. history_get (st_orders s) i = Some r \<and> or_owner r = p)" for s i p
    by (auto simp: owner_of_def)
  show ?thesis using get_my_orders_own [OF v] get_my_trades_own [OF v] unfolding own by fast
qed

theorem queries_show_own_records_witness:
  "\<exists>os. get_my_orders None 5 (cn_state (sy_canister ex_exchange)) = Some (Inr os) \<and>
     (\<forall>(t, pair, r) \<in> set os. or_owner r = 5) \<and> os \<noteq> []"
proof -
  have five: "effective_account (cn_state (sy_canister ex_exchange)) 5 = 5"
    by (simp add: ex_exchange_def ex_traded_def ex_funded_def effective_account_def registry_lookup_def user_registry_new_def effective_principal_def)
  have page: "get_my_orders None 5 (cn_state (sy_canister ex_exchange)) =
      Some (Inr [(order_id_to_string (0, 0), \<lparr>tp_base = 1, tp_quote = 2\<rparr>, initial_record 5 ex_order None 7)])"
    unfolding get_my_orders_def five
    by (simp add: ex_exchange_def ex_traded_def ex_funded_def ex_listed_def get_my_orders_filter_default_def parse_cursor_def get_user_orders_def
        lookup_funding_id_def registry_lookup_def user_registry_new_def funding_id_def orders_after_def page_by_user_def MAX_ORDERS_PER_RESPONSE_def
        Let_def range_user history_get_def get_pair_def)
  then show ?thesis
    using queries_show_own_records [OF ex_exchange_reached ex_exchange_log ex_exchange_deposited, of None 5 "ByAccount None 1"]
    unfolding five by auto
qed

text \<open>C18. A user's list is complete: in every reachable state the orders indexed under an account's user id are
  exactly the orders whose records it owns, each listed once, and the trades indexed under it are fills
  of its own orders.\<close>

theorem user_index_exact:
  assumes "reachable pc big arg y" "length (cn_log (sy_canister y)) < 2 ^ 62"
    "\<And>t. deposited t (cn_log (sy_canister y)) \<le> K" "K < 2 ^ 192"
    and "lookup_funding_id (st_registry (cn_state (sy_canister y))) p = Some u"
  shows "distinct (user_keys u (st_orders (cn_state (sy_canister y)))) \<and>
    (i \<in> set (user_keys u (st_orders (cn_state (sy_canister y)))) \<longleftrightarrow>
       (\<exists>r. history_get (st_orders (cn_state (sy_canister y))) i = Some r \<and> or_owner r = p)) \<and>
    (k \<in> set (user_keys u (st_trades (cn_state (sy_canister y)))) \<longrightarrow>
       (\<exists>r. history_get (st_orders (cn_state (sy_canister y))) (fst k) = Some r \<and> or_owner r = p))"
proof -
  let ?s = "cn_state (sy_canister y)"
  have v: "index_owned ?s" "registry_ok (st_registry ?s)" and h: "history_ok (st_orders ?s)"
    using reachable_view [OF assms(1-4)] by (simp_all add: settled_view_def records_ok_def)
  have u: "bt_get (ur_users (st_registry ?s)) p = Some u" using assms(5) v(2) by (simp add: lookup_funding_id_eq)
  have own: "owner_of ?s i = Some p \<longleftrightarrow> (\<exists>r. history_get (st_orders ?s) i = Some r \<and> or_owner r = p)" for i
    by (auto simp: owner_of_def)
  show ?thesis
    using distinct_user_keys [OF h, of u] user_keys_exact [OF v(1) h v(2) u, of i] trade_keys_owned [OF v u, of k] unfolding own by blast
qed

theorem user_index_exact_witness: "(0, 0) \<in> set (user_keys 0 (st_orders (cn_state (sy_canister ex_exchange))))"
proof -
  have "lookup_funding_id (st_registry (cn_state (sy_canister ex_exchange))) 5 = Some 0"
    by (simp add: ex_exchange_def ex_traded_def ex_funded_def lookup_funding_id_def registry_lookup_def user_registry_new_def funding_id_def)
  moreover have "history_get (st_orders (cn_state (sy_canister ex_exchange))) (0, 0) = Some (initial_record 5 ex_order None 7)"
    by (simp add: ex_exchange_def ex_traded_def history_get_def)
  ultimately show ?thesis
    using user_index_exact [OF ex_exchange_reached ex_exchange_log ex_exchange_deposited, of 5 0 "(0, 0)" undefined]
    by (simp add: initial_record_def)
qed

text \<open>C19. The market data are the book: in every reachable state a depth request within the limit for a listed pair is
  answered with the first price levels of both sides, best price first, each with the sum of what rests
  there (capped at the largest quantity, never zero), and every bid is below every ask; the ticker is the first
  level of each side. A larger limit and an unlisted pair are refused.\<close>

theorem depth_shows_book:
  assumes "reachable pc big arg y" "length (cn_log (sy_canister y)) \<le> 2 ^ 64"
  shows "case get_order_book_depth pair limit (cn_state (sy_canister y)) of
      Inl (LimitTooLarge n m) \<Rightarrow> limit = Some n \<and> m = MAX_DEPTH_LIMIT \<and> m < n
    | Inl Depth_UnknownTradingPair \<Rightarrow> get_book_id (st_pairs (cn_state (sy_canister y))) pair = None
    | Inr d \<Rightarrow> \<exists>i b n. get_book_id (st_pairs (cn_state (sy_canister y))) pair = Some i \<and> bt_get (st_books (cn_state (sy_canister y))) i = Some b \<and>
        n = unat (case limit of None \<Rightarrow> DEFAULT_DEPTH_LIMIT | Some l \<Rightarrow> l) \<and> n \<le> 1000 \<and>
        dp_bids d = map to_price_level (levels Buy b n) \<and> dp_asks d = map to_price_level (levels Sell b n) \<and>
        map fst (levels Buy b n) = take n (level_prices Buy b) \<and> map fst (levels Sell b n) = take n (level_prices Sell b) \<and>
        levels_show Buy b (levels Buy b n) \<and> levels_show Sell b (levels Sell b n) \<and>
        (\<forall>bid \<in> set (levels Buy b n). \<forall>ask \<in> set (levels Sell b n). fst bid < fst ask) \<and>
        get_order_book_ticker pair (cn_state (sy_canister y)) =
          Some \<lparr>tk_bid = map_option to_price_level (first_of (levels Buy b 1)), tk_ask = map_option to_price_level (first_of (levels Sell b 1))\<rparr>"
proof (cases "\<exists>n. limit = Some n \<and> MAX_DEPTH_LIMIT < n")
  case True
  then show ?thesis by (auto simp: get_order_book_depth_def)
next
  case small: False
  let ?s = "cn_state (sy_canister y)" and ?l = "case limit of None \<Rightarrow> DEFAULT_DEPTH_LIMIT | Some l \<Rightarrow> l"
  have heap: "heap_ok ?s" using sys_inv_reachable [OF assms] by (simp add: sys_inv_def)
  show ?thesis
  proof (cases "get_book_id (st_pairs ?s) pair")
    case None
    then show ?thesis using small by (auto simp: get_order_book_depth_def get_order_book_def split: option.splits)
  next
    case (Some i)
    obtain b where b: "bt_get (st_books ?s) i = Some b" "book_ok b" using heap_ok_book_id [OF heap Some] by blast
    have n: "unat ?l \<le> 1000" using small by (auto simp: MAX_DEPTH_LIMIT_def DEFAULT_DEPTH_LIMIT_def word_le_nat_alt not_less split: option.splits)
    have depth: "get_order_book_depth pair limit ?s =
        Inr \<lparr>dp_bids = map to_price_level (levels Buy b (unat ?l)), dp_asks = map to_price_level (levels Sell b (unat ?l))\<rparr>"
      using small Some b by (auto simp: get_order_book_depth_def get_order_book_def levels_def split: option.splits)
    have ticker: "get_order_book_ticker pair ?s =
        Some \<lparr>tk_bid = map_option to_price_level (first_of (levels Buy b 1)), tk_ask = map_option to_price_level (first_of (levels Sell b 1))\<rparr>"
      using Some b(1) by (simp add: get_order_book_ticker_def get_order_book_def levels_def first_of_def)
    show ?thesis unfolding depth using Some b n ticker side_levels [OF b(2)] levels_uncrossed [OF b(2)] by simp
  qed
qed

theorem depth_shows_book_witness:
  "\<exists>d. get_order_book_depth \<lparr>tp_base = 1, tp_quote = 2\<rparr> None (cn_state (sy_canister ex_exchange)) = Inr d"
proof -
  have "length (cn_log (sy_canister ex_exchange)) \<le> 2 ^ 64" using ex_exchange_log by simp
  from depth_shows_book [OF ex_exchange_reached this, where pair = "\<lparr>tp_base = 1, tp_quote = 2\<rparr>" and limit = None] show ?thesis
    by (cases "get_order_book_depth \<lparr>tp_base = 1, tp_quote = 2\<rparr> None (cn_state (sy_canister ex_exchange))")
       (auto simp: ex_exchange_def ex_traded_def ex_funded_def ex_listed_def get_book_id_def split: depth_error.splits)
qed

text \<open>C35. The pages for operators answer: in every reachable state the list of pairs, the fee balances and every HTTP
  request are served without a trap. The dashboard has one section per pair, with bars of at most 100
  percent and a spread wherever both sides quote a price; the metrics find the symbols of every pair and the
  metadata of every token in the fee pool.\<close>

theorem pages_answer:
  assumes "reachable pc big arg (sv_system sv)" "length (cn_log (sv_canister sv)) \<le> 2 ^ 64"
  shows "(\<exists>ps. get_trading_pairs (cn_state (sv_canister sv)) = Some ps \<and> length ps = length (st_pairs (cn_state (sv_canister sv)))) \<and>
    api_get_fee_balances f (cn_state (sv_canister sv)) \<noteq> None \<and>
    (\<exists>r. http_request ho tx request sr sv = Some r) \<and>
    (\<exists>d. dashboard_from_state tx (cn_state (sv_canister sv)) me n = Some d \<and> length (dm_pairs d) = length (st_pairs (cn_state (sv_canister sv))) \<and>
       (\<forall>p \<in> set (dm_pairs d). (\<forall>l \<in> set (dh_bids (dq_depth p) @ dh_asks (dq_depth p)). unat (dd_bar_width_percent l) \<le> 100) \<and>
          (dq_best_bid p \<noteq> None \<longrightarrow> dq_best_ask p \<noteq> None \<longrightarrow> dq_spread p \<noteq> None)))"
proof -
  let ?s = "cn_state (sv_canister sv)"
  have log: "length (cn_log (sy_canister (sv_system sv))) \<le> 2 ^ 64" using assms(2) by (simp add: sv_canister_def)
  have heap: "heap_ok ?s" using sys_inv_reachable [OF assms(1) log] by (simp add: sys_inv_def sv_canister_def)
  have pool: "pool_known ?s" using reachable_pool [OF assms(1) log] by (simp add: sv_canister_def)
  obtain ps where ps: "get_trading_pairs ?s = Some ps"
      "map (\<lambda>p. (pi_base p, pi_quote p)) ps = map (\<lambda>e. (tp_base (fst e), tp_quote (fst e))) (st_pairs ?s)"
    using get_trading_pairs_returns [OF heap] by blast
  have pairs: "\<exists>ps. get_trading_pairs ?s = Some ps \<and> length ps = length (st_pairs ?s)"
    using ps(1) arg_cong [OF ps(2), of length] by simp
  have fees: "api_get_fee_balances f ?s \<noteq> None"
    using fee_entries_returns(1) [of "tb_fee_pool (st_balances ?s)" "st_tokens ?s"] pool
    by (auto simp: api_get_fee_balances_def st_get_fee_balances_def pool_known_def split: sum.splits option.splits)
  have metrics: "\<exists>m. encode_metrics c p h ?s l = Some m" for c p h l using metrics_return [OF heap pool] by blast
  have dash: "\<exists>d. dashboard_from_state tx ?s me n = Some d \<and> list_all pair_drawn (dm_pairs d) \<and> length (dm_pairs d) = length (st_pairs ?s)" for me n
    using dashboard_returns [OF heap] by blast
  have http: "\<exists>r. http_request ho tx request sr sv = Some r"
    using dash [of "sr_canister_id sr" "total_event_count (cn_log (sv_canister sv))"]
      metrics [of "sr_cycle_balance sr" "sr_stable_pages sr" "sr_heap_bytes sr" "cn_log (sv_canister sv)"]
    by (auto simp: http_request_def Let_def)
  show ?thesis using pairs fees http dash [of me n] unfolding list_all_iff pair_drawn_def by blast
qed

theorem pages_answer_witness:
  "\<exists>d. dashboard_from_state ex_text (cn_state (sy_canister ex_exchange)) 1 4 = Some d \<and> length (dm_pairs d) = 1"
proof -
  obtain sv where sv: "ex_reached sv" "sv_system sv = ex_exchange" using ex_service_run ex_run_reached by blast
  have "length (cn_log (sv_canister sv)) \<le> 2 ^ 64" using ex_exchange_log sv(2) by (simp add: sv_canister_def)
  moreover have "length (st_pairs (cn_state (sy_canister ex_exchange))) = 1"
    by (simp add: ex_exchange_def ex_traded_def ex_funded_def ex_listed_def)
  ultimately show ?thesis
    using pages_answer [of ex_consts ex_biguint ex_init sv None undefined ex_text undefined undefined 1 4] ex_exchange_reached sv(2)
    unfolding sv_canister_def by metis
qed

section \<open>The client\<close>











section \<open>Errors and logs\<close>

text \<open>The message of a refusal is the text of its leaf.\<close>

lemma set_canister_same: "set_canister (sv_canister sv) sv = sv"
  by (simp add: set_canister_def sv_canister_def)

lemma order_message:
  "er_message (add_limit_order_error_public tx e) = (case er_kind (add_limit_order_error_public tx e) of
     RequestError (Some leaf) \<Rightarrow> Some (add_limit_order_request_text tx leaf)
   | TemporaryError (Some leaf) \<Rightarrow> Some (add_limit_order_temporary_text leaf) | _ \<Rightarrow> None)"
  by (auto simp: add_limit_order_error_public_def envelope_defs Let_def split: add_limit_order_error.split match_order_error.split)

lemma cancel_message:
  "er_message (cancel_limit_order_error_public e) = (case er_kind (cancel_limit_order_error_public e) of
     RequestError (Some leaf) \<Rightarrow> Some (cancel_limit_order_request_text leaf) | _ \<Rightarrow> None)"
  by (simp add: cancel_limit_order_error_public_def envelope_defs)

text \<open>C37. Refusals tell the cause: \<open>add_limit_order\<close> and \<open>cancel_limit_order\<close> return for every admitted caller. They refuse exactly
  when a cause for refusal is true of the request and the state, the published leaf is one that is true, with the
  values it carries (the tick or lot size of the book, the notional and its bounds, the token with the available and the
  required amount), the message is the text of that leaf, and the service is left as it was.\<close>

theorem refusals_tell_the_cause:
  fixes sv :: "'b service"
  assumes "reachable pc big arg (sv_system sv)" "length (cn_log (sv_canister sv)) < 2 ^ 62"
    "\<And>t. deposited t (cn_log (sv_canister sv)) \<le> K" "K < 2 ^ 192" and "biguint_ok big"
    and allowed: "caller_is_allowed (st_mode (cn_state (sv_canister sv))) rt"
  defines "s \<equiv> cn_state (sv_canister sv)"
  defines "owner \<equiv> effective_account s (rt_caller rt)"
  shows "(\<exists>r sv'. main_add_limit_order big tx req rt sv = Some (r, sv') \<and>
      (isl r \<longleftrightarrow> (\<exists>kind. order_refused_for req owner s kind)) \<and>
      (\<forall>e. r = Inl e \<longrightarrow> sv' = sv \<and> order_refused_for req owner s (er_kind e) \<and>
         er_message e = (case er_kind e of RequestError (Some leaf) \<Rightarrow> Some (add_limit_order_request_text tx leaf)
           | TemporaryError (Some leaf) \<Rightarrow> Some (add_limit_order_temporary_text leaf) | _ \<Rightarrow> None))) \<and>
    (\<exists>r sv'. main_cancel_limit_order tx i rt sv = Some (r, sv') \<and>
      (isl r \<longleftrightarrow> (\<exists>kind. cancel_refused_for i owner s kind)) \<and>
      (\<forall>e. r = Inl e \<longrightarrow> sv' = sv \<and> cancel_refused_for i owner s (er_kind e) \<and>
         er_message e = (case er_kind e of RequestError (Some leaf) \<Rightarrow> Some (cancel_limit_order_request_text leaf) | _ \<Rightarrow> None)))"
proof -
  have l: "alive K (sv_canister sv)" using reachable_alive [OF assms(1-4) [unfolded sv_canister_def]] by (simp add: sv_canister_def)
  obtain ro co where o: "api_add_limit_order big req rt (sv_canister sv) = Some (ro, co)" "\<forall>e. ro = Inl e \<longrightarrow> co = sv_canister sv"
    using add_limit_order_returns [OF l assms(5) allowed, of req] by blast
  obtain rc cc where c: "api_cancel_limit_order i rt (sv_canister sv) = Some (rc, cc)" "\<forall>e. rc = Inl e \<longrightarrow> cc = sv_canister sv"
    using cancel_limit_order_returns [OF l allowed, of i] by blast
  show ?thesis
    using order_refusals [OF l assms(5) o(1), of tx, folded s_def, folded owner_def] cancel_refusals [OF c(1), folded s_def, folded owner_def] o c
    by (cases ro; cases rc) (auto simp: main_add_limit_order_def main_cancel_limit_order_def Let_def order_message cancel_message set_canister_same)
qed

text \<open>Principal 5 has 70 free, too little for an order over 80.\<close>

lemma ex_refusal:
  "order_refused_for (ex_request\<lparr>req_quantity := 8\<rparr>) 5 (cn_state (sy_canister ex_exchange)) kind \<longleftrightarrow>
     kind = RequestError (Some (ALR_InsufficientBalance 2 70 80))"
proof -
  let ?s = "cn_state (sy_canister ex_exchange)" and ?pair = "\<lparr>tp_base = 1, tp_quote = 2\<rparr>"
  have s: "get_book_id (st_pairs ?s) ?pair = Some 0" "base_scale ?s 1 = Some 1" "\<not> is_halted (st_permissions ?s) 0" "free_funds ?s 5 2 = 70"
      "bt_get (st_books ?s) 0 = Some (ex_market\<lparr>bk_pending_orders := [ex_order], bk_next_seq := 1\<rparr>)"
    by (simp_all add: ex_exchange_def ex_traded_def ex_funded_def ex_listed_def ex_state_def get_book_id_def base_scale_def ex_meta_def checked_pow_def
        is_halted_def permissions_default_def free_funds_def lookup_funding_id_def funding_id_def registry_lookup_def user_registry_new_def
        map_balance_def q2n_def)
  have m: "bk_tick_size ex_market = 1" "bk_lot_size ex_market = 1" "q2n (bk_min_notional ex_market) = 1" "bk_max_notional ex_market = None"
    by (simp_all add: ex_market_def book_new_def q2n_def)
  show ?thesis
    by (auto simp: order_refused_for_def request_leaf_true_def book_of_pair_def s m ex_request_def requested_token_def requested_amount_def simp del: One_nat_def
        split: error_kind.splits option.splits add_limit_order_request_error.splits add_limit_order_temporary_error.splits)
qed

lemma ex_no_id: "cancel_refused_for ''x'' owner s kind \<longleftrightarrow> kind = RequestError (Some CLR_InvalidOrderId)"
proof -
  have "''x'' \<noteq> order_id_to_string i" for i
    using order_id.hex_length [of i] by (auto simp: order_id_to_string_def order_id_fw_def composite_id_def seq_id_def dest: arg_cong [of _ _ length])
  then show ?thesis
    by (auto simp: cancel_refused_for_def split: error_kind.splits option.splits cancel_limit_order_request_error.splits)
qed

theorem refusals_tell_the_cause_witness:
  "\<exists>sv :: state_snapshot service. sv_system sv = ex_exchange \<and>
    (\<exists>e. main_add_limit_order ex_biguint ex_text (ex_request\<lparr>req_quantity := 8\<rparr>) (ex_rt 5) sv = Some (Inl e, sv) \<and>
       er_kind e = RequestError (Some (ALR_InsufficientBalance 2 70 80))) \<and>
    (\<exists>e. main_cancel_limit_order ex_text ''x'' (ex_rt 5) sv = Some (Inl e, sv) \<and> er_kind e = RequestError (Some CLR_InvalidOrderId))"
proof -
  obtain sv :: "state_snapshot service" where sv: "sv_system sv = ex_exchange" by (metis service.select_convs(1))
  have c: "sv_canister sv = sy_canister ex_exchange" using sv by (simp add: sv_canister_def)
  have reach: "reachable ex_consts ex_biguint ex_init (sv_system sv)" and log: "length (cn_log (sv_canister sv)) < 2 ^ 62"
      and dep: "deposited t (cn_log (sv_canister sv)) \<le> 100" for t
    using ex_exchange_reached ex_exchange_log ex_exchange_deposited [of t] by (simp_all add: sv c)
  have allowed: "caller_is_allowed (st_mode (cn_state (sv_canister sv))) (ex_rt 5)"
    by (simp add: c caller_is_allowed_def ex_exchange_def ex_traded_def ex_funded_def ex_listed_def ex_state_def)
  have owner: "effective_account (cn_state (sy_canister ex_exchange)) (rt_caller (ex_rt 5)) = 5"
    by (simp add: ex_rt_def ex_exchange_def ex_traded_def effective_account_def ex_funded_def registry_lookup_def user_registry_new_def effective_principal_def)
  note causes = refusals_tell_the_cause [OF reach log dep _ ex_biguint_ok allowed, of ex_text "ex_request\<lparr>req_quantity := 8\<rparr>" "''x''",
      unfolded c owner ex_refusal ex_no_id, simplified]
  then show ?thesis using sv by (metis isl_def)
qed

text \<open>The errors of a deposit or a withdrawal that are no fault of the user: the ledger call failed, its answer could not
  be decoded, or the ledger refused for a reason of its own.\<close>

definition deposit_fault :: "deposit_error \<Rightarrow> bool" where
  "deposit_fault e \<longleftrightarrow> (case e of D_CallFailed _ \<Rightarrow> True | D_DecodeFailed _ \<Rightarrow> True | D_LedgerTemporarilyUnavailable \<Rightarrow> True
     | D_LedgerError _ \<Rightarrow> True | _ \<Rightarrow> False)"

definition withdraw_fault :: "withdraw_error \<Rightarrow> bool" where
  "withdraw_fault e \<longleftrightarrow> (case e of W_CallFailed _ \<Rightarrow> True | W_DecodeFailed _ \<Rightarrow> True | W_LedgerTemporarilyUnavailable \<Rightarrow> True
     | W_LedgerFeeChanged \<Rightarrow> True | W_LedgerError _ \<Rightarrow> True | W_LedgerInsufficientFunds _ \<Rightarrow> True | _ \<Rightarrow> False)"

lemma users_faults [simp]:
  "\<not> deposit_fault D_AmountExceedsMaximum" "\<not> deposit_fault D_UnsupportedToken" "\<not> deposit_fault D_TradingAccountForbidden"
  "\<not> deposit_fault D_OperationInProgress" "\<not> withdraw_fault W_AmountExceedsMaximum" "\<not> withdraw_fault W_UnsupportedToken"
  "\<not> withdraw_fault (W_AmountTooSmall n)" "\<not> withdraw_fault W_TradingAccountForbidden" "\<not> withdraw_fault W_OperationInProgress"
  "\<not> withdraw_fault (W_InsufficientBalance n)"
  by (simp_all add: deposit_fault_def withdraw_fault_def)

lemma deposit_logged: "should_log_deposit_error (deposit_error_public tx token e) \<longleftrightarrow> deposit_fault e"
  by (cases e) (simp_all add: should_log_deposit_error_def deposit_error_public_def deposit_fault_def envelope_defs Let_def)

lemma withdraw_logged: "should_log_withdraw_error (withdraw_error_public tx token e) \<longleftrightarrow> withdraw_fault e"
  by (cases e) (simp_all add: should_log_withdraw_error_def withdraw_error_public_def withdraw_fault_def envelope_defs Let_def)

text \<open>A refusal before the ledger call is never the ledger's fault.\<close>

lemma entries_sel [simp]: "sv_entries (set_canister c sv) = sv_entries sv"
  by (simp add: set_canister_def)

lemma deposit_call_silent:
  assumes "main_deposit_call big tx req rt sv = Some (r, sv')"
  shows "sv_entries sv' = sv_entries sv"
proof -
  obtain x c where x: "deposit_start big (dr_token req) (dr_amount req) rt (sv_canister sv) = Some (x, c)"
    using assms by (auto simp: main_deposit_call_def trap_simps)
  have "\<not> should_log_deposit_error (deposit_error_public tx (dr_token req) e)" if "x = Inl e" for e
    using x that unfolding deposit_logged
    by (auto simp: deposit_start_def trap_simps Let_def split: sum.splits if_splits option.splits funding_denied.splits)
  then show ?thesis using assms x by (cases x) (auto simp: main_deposit_call_def log_deposit_def Let_def)
qed

lemma withdraw_start_faults:
  assumes "withdraw_start big token n rt c = Some (Inl e, c')"
  shows "\<not> should_log_withdraw_error (withdraw_error_public tx token e)"
proof (cases "quantity_try_from big n")
  case (Inl x)
  then show ?thesis using assms by (auto simp: withdraw_start_def withdraw_logged trap_simps)
next
  case (Inr amount)
  then show ?thesis using assms unfolding withdraw_logged
    by (auto simp: withdraw_start_def trap_simps Let_def split: sum.splits if_splits option.splits funding_denied.splits)
       (metis old.sum.exhaust old.unit.exhaust users_faults(10))
qed

lemma withdraw_call_silent:
  assumes "main_withdraw_call big tx req rt sv = Some (r, sv')"
  shows "sv_entries sv' = sv_entries sv"
proof -
  obtain x c where x: "withdraw_start big (wr_token req) (wr_amount req) rt (sv_canister sv) = Some (x, c)"
    using assms by (auto simp: main_withdraw_call_def trap_simps)
  then show ?thesis using assms withdraw_start_faults [of big "wr_token req" "wr_amount req" rt "sv_canister sv" _ c tx]
    by (cases x) (auto simp: main_withdraw_call_def log_withdraw_def Let_def split: prod.splits)
qed

text \<open>The log tells the ledger's faults from the users': a refused deposit or withdrawal writes no entry, an
  answered one writes one entry, of priority \<open>Info\<close> when it succeeded and of priority \<open>Debug\<close> exactly when the ledger call
  failed, could not be decoded, or was answered with a fault that is not the user's.\<close>

theorem log_tells_ledger_faults:
  "(main_deposit_call big tx dreq rt sv = Some (rd, sv1) \<longrightarrow> sv_entries sv1 = sv_entries sv) \<and>
   (main_withdraw_call big tx wreq rt sv = Some (rw, sv2) \<longrightarrow> sv_entries sv2 = sv_entries sv) \<and>
   (main_deposit_return tx dreq amount answer rt sv = Some (x, sv3) \<longrightarrow>
      map le_priority (sv_entries sv3) = map le_priority (sv_entries sv) @
        (case ledger_deposit answer of Inr _ \<Rightarrow> [Info]
         | Inl e \<Rightarrow> if deposit_fault e then [Debug] else [])) \<and>
   (main_withdraw_return tx wreq amount fee ledger rt sv = Some (z, sv4) \<longrightarrow>
      map le_priority (sv_entries sv4) = map le_priority (sv_entries sv) @
        (case wo_result (ledger_withdraw amount fee ledger) of Inr _ \<Rightarrow> [Info]
         | Inl e \<Rightarrow> if withdraw_fault e then [Debug] else []))"
proof (intro conjI impI)
  assume "main_deposit_call big tx dreq rt sv = Some (rd, sv1)"
  then show "sv_entries sv1 = sv_entries sv" by (rule deposit_call_silent)
next
  assume "main_withdraw_call big tx wreq rt sv = Some (rw, sv2)"
  then show "sv_entries sv2 = sv_entries sv" by (rule withdraw_call_silent)
next
  assume a: "main_deposit_return tx dreq amount answer rt sv = Some (x, sv3)"
  obtain c where "deposit_finish (dr_token dreq) amount answer rt (sv_canister sv) = Some (ledger_deposit answer, c)"
    using a by (cases "ledger_deposit answer") (auto simp: main_deposit_return_def deposit_finish_def trap_simps)
  then show "map le_priority (sv_entries sv3) = map le_priority (sv_entries sv) @
        (case ledger_deposit answer of Inr _ \<Rightarrow> [Info]
         | Inl e \<Rightarrow> if deposit_fault e then [Debug] else [])"
    using a by (cases "ledger_deposit answer") (auto simp: main_deposit_return_def Let_def log_deposit_def deposit_logged canlog_def)
next
  assume a: "main_withdraw_return tx wreq amount fee ledger rt sv = Some (z, sv4)"
  let ?w = "wo_result (ledger_withdraw amount fee ledger)"
  obtain c where "withdraw_finish (wr_token wreq) amount (ledger_withdraw amount fee ledger) rt (sv_canister sv) = Some (?w, c)"
    using a by (cases ?w) (auto simp: main_withdraw_return_def withdraw_finish_def Let_def trap_simps)
  then show "map le_priority (sv_entries sv4) = map le_priority (sv_entries sv) @
        (case ?w of Inr _ \<Rightarrow> [Info]
         | Inl e \<Rightarrow> if withdraw_fault e then [Debug] else [])"
    using a by (cases ?w) (auto simp: main_withdraw_return_def Let_def log_withdraw_def withdraw_logged canlog_def)
qed

section \<open>Exports\<close>

text \<open>C39. The event export is complete: reading the log in pages of 2000 returns every event in order and the
  exported form of an event determines the event, so two logs with the same export are the same log.\<close>

theorem event_export_complete:
  assumes "length log \<le> m * 2000" "m * 2000 \<le> 2 ^ 32"
  shows "concat (map (\<lambda>k. gr_events (the (get_events \<lparr>ga_start = of_nat (k * 2000), ga_length = 2000\<rparr> log))) [0..<m]) = map map_event log \<and>
    (map map_event log = map map_event log' \<longrightarrow> log = log')"
proof -
  have page: "gr_events (the (get_events \<lparr>ga_start = of_nat (k * 2000), ga_length = 2000\<rparr> log)) =
      map map_event (take 2000 (drop (k * 2000) log))" if "k < m" for k
    by (subst get_events_page) (use that assms(2) in auto)
  have "concat (map (\<lambda>k. gr_events (the (get_events \<lparr>ga_start = of_nat (k * 2000), ga_length = 2000\<rparr> log))) [0..<m]) =
      concat (map (\<lambda>k. map map_event (take 2000 (drop (k * 2000) log))) [0..<m])"
    by (intro arg_cong [of _ _ concat] map_cong refl page) simp
  also have "\<dots> = map map_event (concat (map (\<lambda>k. take 2000 (drop (k * 2000) log)) [0..<m]))" by (simp add: map_concat comp_def)
  also have "\<dots> = map map_event (take (m * 2000) log)" by (simp add: concat_pages)
  finally show ?thesis using assms(1) map_inject [OF _ map_event_inject] by auto
qed

theorem event_export_complete_witness:
  "gr_events (the (get_events \<lparr>ga_start = 0, ga_length = 2000\<rparr> ex_log3)) = map map_event ex_log3"
  using event_export_complete [of ex_log3 1 ex_log3] by (simp add: ex_log3_def ex_log2_def ex_log1_def ex_log0_def)

text \<open>C40. Amounts on the dashboard are exact: the decimal text of an amount, read back with the token's decimals, is
  the amount in smallest units, for every number of decimals.\<close>

theorem amount_text_exact:
  assumes "biguint_text_ok tx"
  shows "parse_scaled (unat d) (am_decimal_value (amount_new tx n d)) = n"
  using assms parse_format_scaled [OF dec_string_digits [of n], of d]
  by (simp add: amount_new_def biguint_text_ok_def dec_val_dec_string)

theorem amount_text_exact_witness: "parse_scaled 8 (am_decimal_value (amount_new ex_text 150000000 8)) = 150000000"
  using amount_text_exact [of ex_text 8 150000000] by (simp add: ex_text_def biguint_text_ok_def)

end
