(* ===== verification/Key_Bytes.thy ===== *)
theory Key_Bytes
  imports History "HOL-Library.List_Lexorder"
begin

text \<open>
  The byte form of the keys of stable memory (\<open>Storable\<close> of \<open>ids/mod.rs\<close>). A sequence number is its
  eight big-endian bytes and a composite identifier the bytes of its parts in turn. The maps of
  orders, trades and per-user indexes are scanned by ranges of such keys; their bytes compare, byte
  by byte, as the keys do. The locale \<open>ordered_width_id\<close> adds this law to the contract of a
  fixed-width identifier, and pairs inherit it.
\<close>

section \<open>Storable\<close>

text \<open>\<open>from_bytes\<close> panics on bytes of another width.\<close>

definition seq_to_bytes :: "seq \<Rightarrow> u8 list" where
  "seq_to_bytes s = be_bytes 8 (unat s)"

definition seq_from_bytes :: "u8 list \<Rightarrow> seq option" where
  "seq_from_bytes bytes = (if length bytes = 8 then Some (of_nat (be_val bytes)) else None)"

definition composite_to_bytes :: "'a fixed_width \<Rightarrow> 'b fixed_width \<Rightarrow> 'a \<times> 'b \<Rightarrow> u8 list" where
  "composite_to_bytes A B i = fw_write_be (composite_id A B) i"

definition composite_from_bytes :: "'a fixed_width \<Rightarrow> 'b fixed_width \<Rightarrow> u8 list \<Rightarrow> ('a \<times> 'b) option" where
  "composite_from_bytes A B bytes = do {
     ensure (length bytes = fw_width (composite_id A B));
     (case fw_from_be (composite_id A B) bytes of Inl _ \<Rightarrow> None | Inr i \<Rightarrow> Some i)
   }"

text \<open>The key of the per-user indexes.\<close>

definition by_user_key_fw :: "by_user_key fixed_width" where
  "by_user_key_fw = composite_id seq_id seq_id"

section \<open>Order\<close>

locale ordered_width_id = fixed_width_id A for A :: "'a::linorder fixed_width" +
  assumes be_less: "fw_write_be A a < fw_write_be A b \<longleftrightarrow> a < b"
begin

lemma be_le: "fw_write_be A a \<le> fw_write_be A b \<longleftrightarrow> a \<le> b"
  using be_less be_injective by (auto simp: order_le_less)

text \<open>A range scan over the bytes sees the keys that the range of keys has.\<close>

lemma range_by_bytes:
  "filter (\<lambda>k. fw_write_be A lo \<le> fw_write_be A k \<and> fw_write_be A k \<le> fw_write_be A hi) ks =
   filter (\<lambda>k. lo \<le> k \<and> k \<le> hi) ks"
  by (simp add: be_le)

lemma sorted_by_bytes: "sorted_wrt (<) (map (fw_write_be A) ks) \<longleftrightarrow> sorted_wrt (<) ks"
  by (simp add: sorted_wrt_map be_less)

end

lemma append_less_append_iff:
  fixes xs ys :: "'a::linorder list"
  assumes "length xs = length ys"
  shows "xs @ us < ys @ vs \<longleftrightarrow> xs < ys \<or> xs = ys \<and> us < vs"
  using assms by (induction xs ys rule: list_induct2) auto

lemma be_bytes_less:
  "x < 256 ^ n \<Longrightarrow> y < 256 ^ n \<Longrightarrow> be_bytes n x < be_bytes n y \<longleftrightarrow> x < y"
proof (induction n arbitrary: x y)
  case (Suc n)
  let ?b = "\<lambda>z. of_nat (z mod 256) :: u8"
  have b: "?b x < ?b y \<longleftrightarrow> x mod 256 < y mod 256"
    by (simp add: word_less_nat_alt unat_of_nat_small)
  have "z div 256 < 256 ^ n" if "z < 256 ^ Suc n" for z :: nat
    using that by (intro less_mult_imp_div_less) (simp add: mult.commute)
  then have d: "x div 256 < 256 ^ n" "y div 256 < 256 ^ n" using Suc.prems by blast+
  have "be_bytes n (x div 256) = be_bytes n (y div 256) \<longleftrightarrow> x div 256 = y div 256"
    using be_val_be_bytes [of n "x div 256"] be_val_be_bytes [of n "y div 256"] d by (metis mod_less)
  then have "be_bytes (Suc n) x < be_bytes (Suc n) y \<longleftrightarrow> x div 256 < y div 256 \<or> x div 256 = y div 256 \<and> x mod 256 < y mod 256"
    by (simp add: append_less_append_iff Suc.IH [OF d] b)
  also have "\<dots> \<longleftrightarrow> x < y"
    using div_mult_mod_eq [of x 256] div_mult_mod_eq [of y 256] mod_less_divisor [of 256 x] mod_less_divisor [of 256 y] by linarith
  finally show ?case .
qed simp

interpretation ordered_seq: ordered_width_id seq_id
  by unfold_locales (use unat_u64_bound in \<open>simp add: seq_id_def be_bytes_less word_less_nat_alt\<close>)

locale ordered_width_pair = A: ordered_width_id A + B: ordered_width_id B
  for A :: "'a::linorder fixed_width" and B :: "'b::linorder fixed_width"
begin

sublocale pair: ordered_width_id "composite_id A B"
proof (rule ordered_width_id.intro)
  show "fixed_width_id (composite_id A B)"
    by (rule fixed_width_pair.pair_id) unfold_locales
  show "ordered_width_id_axioms (composite_id A B)"
  proof
    fix p q :: "'a \<times> 'b"
    show "fw_write_be (composite_id A B) p < fw_write_be (composite_id A B) q \<longleftrightarrow> p < q"
      by (cases p; cases q)
         (auto simp: composite_id_def append_less_append_iff A.be_length A.be_less A.be_injective B.be_less)
  qed
qed

end

interpretation seq_pair: ordered_width_pair seq_id seq_id
  by unfold_locales

interpretation ordered_order_id: ordered_width_id order_id_fw
  unfolding order_id_fw_def by (rule seq_pair.pair.ordered_width_id_axioms)

interpretation ordered_by_user_key: ordered_width_id by_user_key_fw
  unfolding by_user_key_fw_def by (rule seq_pair.pair.ordered_width_id_axioms)

interpretation order_fill_pair: ordered_width_pair order_id_fw seq_id
  by unfold_locales

interpretation ordered_trade_id: ordered_width_id trade_id_fw
  unfolding trade_id_fw_def by (rule order_fill_pair.pair.ordered_width_id_axioms)

section \<open>Reading keys back\<close>

lemma seq_bytes: "seq_to_bytes s = fw_write_be seq_id s"
  by (simp add: seq_to_bytes_def seq_id_def)

lemma seq_from_bytes_iff: "seq_from_bytes bytes = Some s \<longleftrightarrow> fw_from_be seq_id bytes = Inr s"
  by (auto simp: seq_from_bytes_def seq_id_def seq_from_be_bytes_def)

context fixed_width_pair
begin

lemma composite_bytes: "composite_from_bytes A B (composite_to_bytes A B i) = Some i"
  using fixed_width_id.be_roundtrip [OF pair_id, of i] fixed_width_id.be_length [OF pair_id, of i]
  by (simp add: composite_from_bytes_def composite_to_bytes_def ensure_def)

end

interpretation seq_seq: fixed_width_pair seq_id seq_id
  by unfold_locales

interpretation order_seq: fixed_width_pair order_id_fw seq_id
  by unfold_locales

end
