(* ===== verification/Stable_Memory.thy ===== *)
theory Stable_Memory
  imports Key_Bytes Endpoints
begin

text \<open>
  Stable memory (\<open>storage/mod.rs\<close>): the eleven memories, what lives in each, how keys and values are
  stored (the \<open>Storable\<close> instances), and how \<open>lifecycle/mod.rs\<close> opens the structures on them. The structures of the crate ic-stable-structures (a map and a cell in one memory each, a log in two) are
  a parameter: what a memory holds after a structure with given entries was written to it, and what is
  found when a structure is opened on it, with \<open>structures_ok\<close> as the hypothesis that the entries are found again
  and that a fresh memory opens empty. The CBOR encoder is a parameter too; that what it encodes decodes
  is the hypothesis \<open>minicbor_ok\<close>.
\<close>

section \<open>Stored keys and values\<close>

text \<open>Fixed-width keys are stored as raw bytes, everything else as CBOR.\<close>

datatype 'b stored = Raw "u8 list" | Cbor "'b list"

record ('a, 'b) storable =
  to_bytes :: "'a \<Rightarrow> 'b stored"
  from_bytes :: "'b stored \<Rightarrow> 'a option"

record ('a, 'b) cbor_codec =
  cb_encode :: "'a \<Rightarrow> 'b list"
  cb_decode :: "'b list \<Rightarrow> 'a option"

record 'b minicbor =
  mc_order_record :: "(insertion_seq \<times> order_record, 'b) cbor_codec"
  mc_trade_record :: "(insertion_seq \<times> trade_record, 'b) cbor_codec"
  mc_balance :: "(balance, 'b) cbor_codec"
  mc_balance_key :: "(balance_key, 'b) cbor_codec"
  mc_principal_key :: "(principal, 'b) cbor_codec"
  mc_trading_grant :: "(trading_grant, 'b) cbor_codec"
  mc_trading_account_list :: "(trading_account_list, 'b) cbor_codec"
  mc_event :: "(event, 'b) cbor_codec"

definition cbor_ok :: "('a, 'b) cbor_codec \<Rightarrow> bool" where
  "cbor_ok c \<longleftrightarrow> (\<forall>x. cb_decode c (cb_encode c x) = Some x)"

definition minicbor_ok :: "'b minicbor \<Rightarrow> bool" where
  "minicbor_ok mc \<longleftrightarrow> cbor_ok (mc_order_record mc) \<and> cbor_ok (mc_trade_record mc) \<and> cbor_ok (mc_balance mc) \<and>
     cbor_ok (mc_balance_key mc) \<and> cbor_ok (mc_principal_key mc) \<and> cbor_ok (mc_trading_grant mc) \<and>
     cbor_ok (mc_trading_account_list mc) \<and> cbor_ok (mc_event mc)"

text \<open>\<open>minicbor::encode(...).expect(...)\<close> and \<open>minicbor::decode(...).unwrap_or_else(panic)\<close>.\<close>

definition cbor_storable :: "('a, 'b) cbor_codec \<Rightarrow> ('a, 'b) storable" where
  "cbor_storable c = \<lparr>to_bytes = (\<lambda>x. Cbor (cb_encode c x)),
     from_bytes = (\<lambda>s. case s of Cbor bytes \<Rightarrow> cb_decode c bytes | Raw _ \<Rightarrow> None)\<rparr>"

definition seq_storable :: "(seq, 'b) storable" where
  "seq_storable = \<lparr>to_bytes = (\<lambda>s. Raw (seq_to_bytes s)),
     from_bytes = (\<lambda>s. case s of Raw bytes \<Rightarrow> seq_from_bytes bytes | Cbor _ \<Rightarrow> None)\<rparr>"

definition composite_storable :: "'x fixed_width \<Rightarrow> 'y fixed_width \<Rightarrow> ('x \<times> 'y, 'b) storable" where
  "composite_storable A B = \<lparr>to_bytes = (\<lambda>i. Raw (composite_to_bytes A B i)),
     from_bytes = (\<lambda>s. case s of Raw bytes \<Rightarrow> composite_from_bytes A B bytes | Cbor _ \<Rightarrow> None)\<rparr>"

definition order_id_storable :: "(order_id, 'b) storable" where
  "order_id_storable = composite_storable seq_id seq_id"

definition trade_id_storable :: "(trade_id, 'b) storable" where
  "trade_id_storable = composite_storable order_id_fw seq_id"

definition by_user_key_storable :: "(by_user_key, 'b) storable" where
  "by_user_key_storable = composite_storable seq_id seq_id"

definition order_seq_record_storable :: "'b minicbor \<Rightarrow> (insertion_seq \<times> order_record, 'b) storable" where
  "order_seq_record_storable mc = cbor_storable (mc_order_record mc)"

definition trade_seq_record_storable :: "'b minicbor \<Rightarrow> (insertion_seq \<times> trade_record, 'b) storable" where
  "trade_seq_record_storable mc = cbor_storable (mc_trade_record mc)"

definition balance_storable :: "'b minicbor \<Rightarrow> (balance, 'b) storable" where
  "balance_storable mc = cbor_storable (mc_balance mc)"

definition balance_key_storable :: "'b minicbor \<Rightarrow> (balance_key, 'b) storable" where
  "balance_key_storable mc = cbor_storable (mc_balance_key mc)"

definition principal_key_storable :: "'b minicbor \<Rightarrow> (principal, 'b) storable" where
  "principal_key_storable mc = cbor_storable (mc_principal_key mc)"

definition trading_grant_storable :: "'b minicbor \<Rightarrow> (trading_grant, 'b) storable" where
  "trading_grant_storable mc = cbor_storable (mc_trading_grant mc)"

definition trading_account_list_storable :: "'b minicbor \<Rightarrow> (trading_account_list, 'b) storable" where
  "trading_account_list_storable mc = cbor_storable (mc_trading_account_list mc)"

definition event_storable :: "'b minicbor \<Rightarrow> (event, 'b) storable" where
  "event_storable mc = cbor_storable (mc_event mc)"

section \<open>Memories\<close>

type_synonym memory_id = nat

definition EVENT_LOG_INDEX_MEMORY_ID :: memory_id where "EVENT_LOG_INDEX_MEMORY_ID = 0"
definition EVENT_LOG_DATA_MEMORY_ID :: memory_id where "EVENT_LOG_DATA_MEMORY_ID = 1"
definition ORDER_HISTORY_MEMORY_ID :: memory_id where "ORDER_HISTORY_MEMORY_ID = 2"
definition BALANCES_MEMORY_ID :: memory_id where "BALANCES_MEMORY_ID = 3"
definition STATE_SNAPSHOT_MEMORY_ID :: memory_id where "STATE_SNAPSHOT_MEMORY_ID = 4"
definition USER_REGISTRY_MEMORY_ID :: memory_id where "USER_REGISTRY_MEMORY_ID = 5"
definition USER_ORDERS_MEMORY_ID :: memory_id where "USER_ORDERS_MEMORY_ID = 6"
definition TRADES_MEMORY_ID :: memory_id where "TRADES_MEMORY_ID = 7"
definition TRADES_BY_USER_MEMORY_ID :: memory_id where "TRADES_BY_USER_MEMORY_ID = 8"
definition TRADING_ACCOUNTS_MEMORY_ID :: memory_id where "TRADING_ACCOUNTS_MEMORY_ID = 9"
definition TRADING_ACCOUNTS_BY_FUNDING_MEMORY_ID :: memory_id where "TRADING_ACCOUNTS_BY_FUNDING_MEMORY_ID = 10"

text \<open>The handles the constructors are given.\<close>

definition order_history_memory :: memory_id where
  "order_history_memory = ORDER_HISTORY_MEMORY_ID"

definition balances_memory :: memory_id where
  "balances_memory = BALANCES_MEMORY_ID"

definition user_registry_memory :: memory_id where
  "user_registry_memory = USER_REGISTRY_MEMORY_ID"

definition trading_accounts_memory :: memory_id where
  "trading_accounts_memory = TRADING_ACCOUNTS_MEMORY_ID"

definition trading_accounts_by_funding_memory :: memory_id where
  "trading_accounts_by_funding_memory = TRADING_ACCOUNTS_BY_FUNDING_MEMORY_ID"

definition user_orders_memory :: memory_id where
  "user_orders_memory = USER_ORDERS_MEMORY_ID"

definition trades_memory :: memory_id where
  "trades_memory = TRADES_MEMORY_ID"

definition trades_by_user_memory :: memory_id where
  "trades_by_user_memory = TRADES_BY_USER_MEMORY_ID"

text \<open>The structures of the crate, over the contents \<open>'r\<close> of a memory.\<close>

record ('b, 'r) stable_structures =
  fresh_memory :: 'r
  map_memory :: "('b stored \<times> 'b stored) list \<Rightarrow> 'r"
  map_entries :: "'r \<Rightarrow> ('b stored \<times> 'b stored) list option"
  log_memories :: "'b stored list \<Rightarrow> 'r \<times> 'r"
  log_entries :: "'r \<Rightarrow> 'r \<Rightarrow> 'b stored list option"
  cell_memory :: "'b list \<Rightarrow> 'r"
  cell_bytes :: "'r \<Rightarrow> 'b list option"

definition structures_ok :: "('b, 'r) stable_structures \<Rightarrow> bool" where
  "structures_ok ops \<longleftrightarrow>
     map_entries ops (fresh_memory ops) = Some [] \<and> (\<forall>es. map_entries ops (map_memory ops es) = Some es) \<and>
     log_entries ops (fresh_memory ops) (fresh_memory ops) = Some [] \<and>
     (\<forall>es. log_entries ops (fst (log_memories ops es)) (snd (log_memories ops es)) = Some es) \<and>
     cell_bytes ops (fresh_memory ops) = Some [] \<and> (\<forall>bytes. cell_bytes ops (cell_memory ops bytes) = Some bytes)"

type_synonym 'r stable_memory = "memory_id \<Rightarrow> 'r"

text \<open>
  Opening a structure. Every read of the code goes through \<open>from_bytes\<close>, so a map or log whose entries do not all
  decode is not one the code can work with.
\<close>

fun decode_all :: "('a \<Rightarrow> 'c option) \<Rightarrow> 'a list \<Rightarrow> 'c list option" where
  "decode_all f [] = Some []"
| "decode_all f (x # xs) = do { y \<leftarrow> f x; ys \<leftarrow> decode_all f xs; Some (y # ys) }"

definition stable_map_init ::
  "('b, 'r) stable_structures \<Rightarrow> ('k, 'b) storable \<Rightarrow> ('v, 'b) storable \<Rightarrow> 'r \<Rightarrow> ('k, 'v) btree_map option" where
  "stable_map_init ops K V r = do {
     es \<leftarrow> map_entries ops r;
     decode_all (\<lambda>(k, v). do { k' \<leftarrow> from_bytes K k; v' \<leftarrow> from_bytes V v; Some (k', v') }) es
   }"

definition stable_map_region ::
  "('b, 'r) stable_structures \<Rightarrow> ('k, 'b) storable \<Rightarrow> ('v, 'b) storable \<Rightarrow> ('k, 'v) btree_map \<Rightarrow> 'r" where
  "stable_map_region ops K V m = map_memory ops (map (\<lambda>(k, v). (to_bytes K k, to_bytes V v)) m)"

definition stable_log_init :: "('b, 'r) stable_structures \<Rightarrow> ('a, 'b) storable \<Rightarrow> 'r \<Rightarrow> 'r \<Rightarrow> 'a list option" where
  "stable_log_init ops S index data = do {
     es \<leftarrow> log_entries ops index data;
     decode_all (from_bytes S) es
   }"

section \<open>The structures on their memories\<close>

definition history_open ::
  "('b, 'r) stable_structures \<Rightarrow> ('k, 'b) storable \<Rightarrow> (insertion_seq \<times> 'v, 'b) storable \<Rightarrow> 'r stable_memory \<Rightarrow> memory_id \<Rightarrow> memory_id \<Rightarrow> ('k, 'v) history option" where
  "history_open ops K V mem primary_memory by_user_memory = do {
     primary \<leftarrow> stable_map_init ops K V (mem primary_memory);
     by_user \<leftarrow> stable_map_init ops by_user_key_storable K (mem by_user_memory);
     Some \<lparr>hi_primary = primary, hi_by_user = by_user\<rparr>
   }"

definition history_write ::
  "('b, 'r) stable_structures \<Rightarrow> ('k, 'b) storable \<Rightarrow> (insertion_seq \<times> 'v, 'b) storable \<Rightarrow> ('k, 'v) history \<Rightarrow> memory_id \<Rightarrow> memory_id \<Rightarrow> 'r stable_memory \<Rightarrow> 'r stable_memory" where
  "history_write ops K V h primary_memory by_user_memory mem =
     mem(primary_memory := stable_map_region ops K V (hi_primary h),
         by_user_memory := stable_map_region ops by_user_key_storable K (hi_by_user h))"

definition balances_open :: "('b, 'r) stable_structures \<Rightarrow> 'b minicbor \<Rightarrow> 'r stable_memory \<Rightarrow> memory_id \<Rightarrow> balance_map option" where
  "balances_open ops mc mem memory = stable_map_init ops (balance_key_storable mc) (balance_storable mc) (mem memory)"

definition balances_write :: "('b, 'r) stable_structures \<Rightarrow> 'b minicbor \<Rightarrow> balance_map \<Rightarrow> memory_id \<Rightarrow> 'r stable_memory \<Rightarrow> 'r stable_memory" where
  "balances_write ops mc m memory mem = mem(memory := stable_map_region ops (balance_key_storable mc) (balance_storable mc) m)"

definition registry_open :: "('b, 'r) stable_structures \<Rightarrow> 'b minicbor \<Rightarrow> 'r stable_memory \<Rightarrow> memory_id \<Rightarrow> memory_id \<Rightarrow> memory_id \<Rightarrow> user_registry option" where
  "registry_open ops mc mem users_memory trading_accounts_mem by_funding_mem = do {
     users \<leftarrow> stable_map_init ops (principal_key_storable mc) seq_storable (mem users_memory);
     trading_accounts \<leftarrow> stable_map_init ops (principal_key_storable mc) (trading_grant_storable mc) (mem trading_accounts_mem);
     by_funding \<leftarrow> stable_map_init ops seq_storable (trading_account_list_storable mc) (mem by_funding_mem);
     Some \<lparr>ur_users = users, ur_trading_accounts = trading_accounts, ur_by_funding = by_funding\<rparr>
   }"

definition registry_write ::
  "('b, 'r) stable_structures \<Rightarrow> 'b minicbor \<Rightarrow> user_registry \<Rightarrow> memory_id \<Rightarrow> memory_id \<Rightarrow> memory_id \<Rightarrow> 'r stable_memory \<Rightarrow> 'r stable_memory" where
  "registry_write ops mc r users_memory trading_accounts_mem by_funding_mem mem =
     mem(users_memory := stable_map_region ops (principal_key_storable mc) seq_storable (ur_users r),
         trading_accounts_mem := stable_map_region ops (principal_key_storable mc) (trading_grant_storable mc) (ur_trading_accounts r),
         by_funding_mem := stable_map_region ops seq_storable (trading_account_list_storable mc) (ur_by_funding r))"

definition events_open :: "('b, 'r) stable_structures \<Rightarrow> 'b minicbor \<Rightarrow> 'r stable_memory \<Rightarrow> event list option" where
  "events_open ops mc mem = stable_log_init ops (event_storable mc) (mem EVENT_LOG_INDEX_MEMORY_ID) (mem EVENT_LOG_DATA_MEMORY_ID)"

definition events_write :: "('b, 'r) stable_structures \<Rightarrow> 'b minicbor \<Rightarrow> event list \<Rightarrow> 'r stable_memory \<Rightarrow> 'r stable_memory" where
  "events_write ops mc log mem =
     mem(EVENT_LOG_INDEX_MEMORY_ID := fst (log_memories ops (map (to_bytes (event_storable mc)) log)),
         EVENT_LOG_DATA_MEMORY_ID := snd (log_memories ops (map (to_bytes (event_storable mc)) log)))"

definition snapshot_cell_open :: "('b, 'r) stable_structures \<Rightarrow> 'r stable_memory \<Rightarrow> 'b list option" where
  "snapshot_cell_open ops mem = cell_bytes ops (mem STATE_SNAPSHOT_MEMORY_ID)"

definition snapshot_cell_write :: "('b, 'r) stable_structures \<Rightarrow> 'b list \<Rightarrow> 'r stable_memory \<Rightarrow> 'r stable_memory" where
  "snapshot_cell_write ops bytes mem = mem(STATE_SNAPSHOT_MEMORY_ID := cell_memory ops bytes)"

text \<open>The constructors as \<open>init\<close> and \<open>post_upgrade\<close> call them.\<close>

definition open_structures ::
  "('b, 'r) stable_structures \<Rightarrow> 'b minicbor \<Rightarrow> 'r stable_memory \<Rightarrow> (order_history \<times> trade_history \<times> balance_map \<times> user_registry) option" where
  "open_structures ops mc mem = do {
     orders \<leftarrow> history_open ops order_id_storable (order_seq_record_storable mc) mem order_history_memory user_orders_memory;
     trades \<leftarrow> history_open ops trade_id_storable (trade_seq_record_storable mc) mem trades_memory trades_by_user_memory;
     balances \<leftarrow> balances_open ops mc mem balances_memory;
     registry \<leftarrow> registry_open ops mc mem user_registry_memory trading_accounts_memory trading_accounts_by_funding_memory;
     Some (orders, trades, balances, registry)
   }"

text \<open>What a running service has written to its memories: each structure to the handles it was given.\<close>

definition stable_image :: "('b, 'r) stable_structures \<Rightarrow> 'b minicbor \<Rightarrow> 'b service \<Rightarrow> 'r stable_memory" where
  "stable_image ops mc sv =
     (let s = cn_state (sv_canister sv)
      in snapshot_cell_write ops (sv_cell sv)
          (events_write ops mc (cn_log (sv_canister sv))
            (registry_write ops mc (st_registry s) user_registry_memory trading_accounts_memory trading_accounts_by_funding_memory
              (balances_write ops mc (tb_balances (st_balances s)) balances_memory
                (history_write ops trade_id_storable (trade_seq_record_storable mc) (st_trades s) trades_memory trades_by_user_memory
                  (history_write ops order_id_storable (order_seq_record_storable mc) (st_orders s) order_history_memory user_orders_memory
                    (\<lambda>_. fresh_memory ops)))))))"

text \<open>The start of a version on the memories alone: \<open>init\<close>, and \<open>post_upgrade\<close>.\<close>

definition init_on_memory :: "('b, 'r) stable_structures \<Rightarrow> 'b minicbor \<Rightarrow> oisy_trade_arg \<Rightarrow> timestamp \<Rightarrow> 'r stable_memory \<Rightarrow> 'b service option" where
  "init_on_memory ops mc arg now mem =
     (case arg of
        OT_Upgrade _ \<Rightarrow> None
      | OT_Init a \<Rightarrow> do {
          (orders, trades, balances, registry) \<leftarrow> open_structures ops mc mem;
          s \<leftarrow> expect_ok (state_new a orders trades registry \<lparr>tb_balances = balances, tb_fee_pool = []\<rparr>);
          log \<leftarrow> events_open ops mc mem;
          cell \<leftarrow> snapshot_cell_open ops mem;
          let sv = \<lparr>sv_system = \<lparr>sy_canister = \<lparr>cn_state = s, cn_log = log @ [\<lparr>ev_timestamp = now, ev_payload = Ev_Init a\<rparr>]\<rparr>, sy_calls = [], sy_lost = []\<rparr>,
            sv_entries = [], sv_timers = 0, sv_interval = False, sv_cell = cell\<rparr>;
          Some (canlog Info ''[init]: OISY TRADE canister initialized'' now (setup_timers sv))
        })"

definition post_upgrade_on_memory ::
  "('b, 'r) stable_structures \<Rightarrow> 'b minicbor \<Rightarrow> 'b snapshot_codec \<Rightarrow> oisy_trade_arg option \<Rightarrow> readings \<Rightarrow> timestamp \<Rightarrow> 'r stable_memory \<Rightarrow> 'b service option" where
  "post_upgrade_on_memory ops mc codec arg counter now mem = do {
     (orders, trades, balances, registry) \<leftarrow> open_structures ops mc mem;
     cell \<leftarrow> snapshot_cell_open ops mem;
     ensure (cell \<noteq> []);
     snapshot \<leftarrow> sc_decode codec cell;
     log \<leftarrow> events_open ops mc mem;
     c \<leftarrow> post_upgrade arg now snapshot orders trades balances registry log;
     let sv = \<lparr>sv_system = \<lparr>sy_canister = c, sy_calls = [], sy_lost = []\<rparr>, sv_entries = [], sv_timers = 0, sv_interval = False, sv_cell = []\<rparr>;
     Some (setup_timers (canlog Info (''[post_upgrade]: state restored from snapshot, total instructions used: '' @
         dec_string (unat (counter 1 - counter 0))) now sv))
   }"

section \<open>The contract of a stored type\<close>

locale storable_type =
  fixes S :: "('a, 'b) storable"
  assumes stored_back: "from_bytes S (to_bytes S x) = Some x"
begin

lemma to_bytes_inject: "to_bytes S x = to_bytes S y \<longleftrightarrow> x = y"
  using stored_back by (metis option.inject)

lemma decode_all_stored: "decode_all (from_bytes S) (map (to_bytes S) xs) = Some xs"
  by (induction xs) (simp_all add: stored_back)

lemma stored_log:
  assumes "structures_ok ops"
  shows "stable_log_init ops S (fst (log_memories ops (map (to_bytes S) xs))) (snd (log_memories ops (map (to_bytes S) xs))) = Some xs"
  using assms by (simp add: stable_log_init_def structures_ok_def decode_all_stored)

end

locale stored_map = K: storable_type K + V: storable_type V
  for K :: "('k, 'b) storable" and V :: "('v, 'b) storable"
begin

lemma stored_map:
  assumes "structures_ok ops"
  shows "stable_map_init ops K V (stable_map_region ops K V m) = Some m"
proof -
  have "decode_all (\<lambda>(k, v). do { k' \<leftarrow> from_bytes K k; v' \<leftarrow> from_bytes V v; Some (k', v') })
      (map (\<lambda>(k, v). (to_bytes K k, to_bytes V v)) m) = Some m"
    by (induction m) (auto simp: K.stored_back V.stored_back)
  then show ?thesis using assms by (simp add: stable_map_init_def stable_map_region_def structures_ok_def)
qed

end

interpretation stored_seq: storable_type seq_storable
proof
  fix s :: seq
  show "from_bytes seq_storable (to_bytes seq_storable s) = Some s"
    by (simp add: seq_storable_def seq_from_bytes_iff seq_bytes seq.be_roundtrip)
qed

interpretation stored_order_id: storable_type order_id_storable
  by unfold_locales (simp add: order_id_storable_def composite_storable_def seq_seq.composite_bytes)

interpretation stored_trade_id: storable_type trade_id_storable
  by unfold_locales (simp add: trade_id_storable_def composite_storable_def order_seq.composite_bytes)

interpretation stored_by_user_key: storable_type by_user_key_storable
  by unfold_locales (simp add: by_user_key_storable_def composite_storable_def seq_seq.composite_bytes)

interpretation stored_users: stored_map by_user_key_storable order_id_storable
  by unfold_locales

lemma cbor_stored: "cbor_ok c \<Longrightarrow> storable_type (cbor_storable c)"
  by unfold_locales (simp add: cbor_storable_def cbor_ok_def)

lemma stored_map_back:
  "structures_ok ops \<Longrightarrow> storable_type K \<Longrightarrow> storable_type V \<Longrightarrow> stable_map_init ops K V (stable_map_region ops K V m) = Some m"
  by (rule stored_map.stored_map) (rule stored_map.intro)

section \<open>What was written is read back\<close>

lemmas memory_handles =
  order_history_memory_def balances_memory_def user_registry_memory_def trading_accounts_memory_def
  trading_accounts_by_funding_memory_def user_orders_memory_def trades_memory_def trades_by_user_memory_def

lemmas memory_ids =
  EVENT_LOG_INDEX_MEMORY_ID_def EVENT_LOG_DATA_MEMORY_ID_def ORDER_HISTORY_MEMORY_ID_def BALANCES_MEMORY_ID_def
  STATE_SNAPSHOT_MEMORY_ID_def USER_REGISTRY_MEMORY_ID_def USER_ORDERS_MEMORY_ID_def TRADES_MEMORY_ID_def
  TRADES_BY_USER_MEMORY_ID_def TRADING_ACCOUNTS_MEMORY_ID_def TRADING_ACCOUNTS_BY_FUNDING_MEMORY_ID_def

lemmas memory_writes = history_write_def balances_write_def registry_write_def events_write_def snapshot_cell_write_def

text \<open>No structure writes to a memory of another: each memory of the image holds what its owner wrote.\<close>

lemma image_regions:
  fixes sv :: "'b service"
  defines "s \<equiv> cn_state (sv_canister sv)"
  shows "stable_image ops mc sv order_history_memory = stable_map_region ops order_id_storable (order_seq_record_storable mc) (hi_primary (st_orders s))"
    "stable_image ops mc sv user_orders_memory = stable_map_region ops by_user_key_storable order_id_storable (hi_by_user (st_orders s))"
    "stable_image ops mc sv trades_memory = stable_map_region ops trade_id_storable (trade_seq_record_storable mc) (hi_primary (st_trades s))"
    "stable_image ops mc sv trades_by_user_memory = stable_map_region ops by_user_key_storable trade_id_storable (hi_by_user (st_trades s))"
    "stable_image ops mc sv balances_memory = stable_map_region ops (balance_key_storable mc) (balance_storable mc) (tb_balances (st_balances s))"
    "stable_image ops mc sv user_registry_memory = stable_map_region ops (principal_key_storable mc) seq_storable (ur_users (st_registry s))"
    "stable_image ops mc sv trading_accounts_memory =
       stable_map_region ops (principal_key_storable mc) (trading_grant_storable mc) (ur_trading_accounts (st_registry s))"
    "stable_image ops mc sv trading_accounts_by_funding_memory =
       stable_map_region ops seq_storable (trading_account_list_storable mc) (ur_by_funding (st_registry s))"
    "stable_image ops mc sv EVENT_LOG_INDEX_MEMORY_ID = fst (log_memories ops (map (to_bytes (event_storable mc)) (cn_log (sv_canister sv))))"
    "stable_image ops mc sv EVENT_LOG_DATA_MEMORY_ID = snd (log_memories ops (map (to_bytes (event_storable mc)) (cn_log (sv_canister sv))))"
    "stable_image ops mc sv STATE_SNAPSHOT_MEMORY_ID = cell_memory ops (sv_cell sv)"
  by (simp_all add: stable_image_def Let_def memory_writes memory_handles memory_ids s_def)

lemma minicbor_stored:
  assumes "minicbor_ok mc"
  shows "storable_type (order_seq_record_storable mc)" "storable_type (trade_seq_record_storable mc)"
    "storable_type (balance_storable mc)" "storable_type (balance_key_storable mc)" "storable_type (principal_key_storable mc)"
    "storable_type (trading_grant_storable mc)" "storable_type (trading_account_list_storable mc)" "storable_type (event_storable mc)"
  using assms
  by (simp_all add: minicbor_ok_def cbor_stored order_seq_record_storable_def trade_seq_record_storable_def balance_storable_def
      balance_key_storable_def principal_key_storable_def trading_grant_storable_def trading_account_list_storable_def event_storable_def)

lemma structures_read_back:
  fixes sv :: "'b service"
  assumes ops: "structures_ok ops" and mc: "minicbor_ok mc"
  defines "s \<equiv> cn_state (sv_canister sv)"
  shows "open_structures ops mc (stable_image ops mc sv) = Some (st_orders s, st_trades s, tb_balances (st_balances s), st_registry s)"
proof -
  note image = image_regions [of ops mc sv, folded s_def]
  note cbor = minicbor_stored [OF mc]
    and raw = stored_seq.storable_type_axioms stored_order_id.storable_type_axioms stored_trade_id.storable_type_axioms
      stored_by_user_key.storable_type_axioms
  have "history_open ops order_id_storable (order_seq_record_storable mc) (stable_image ops mc sv) order_history_memory user_orders_memory = Some (st_orders s)"
    by (simp add: history_open_def image stored_map_back [OF ops] cbor raw)
  moreover have "history_open ops trade_id_storable (trade_seq_record_storable mc) (stable_image ops mc sv) trades_memory trades_by_user_memory = Some (st_trades s)"
    by (simp add: history_open_def image stored_map_back [OF ops] cbor raw)
  moreover have "balances_open ops mc (stable_image ops mc sv) balances_memory = Some (tb_balances (st_balances s))"
    by (simp add: balances_open_def image stored_map_back [OF ops] cbor)
  moreover have "registry_open ops mc (stable_image ops mc sv) user_registry_memory trading_accounts_memory trading_accounts_by_funding_memory =
      Some (st_registry s)"
    by (simp add: registry_open_def image stored_map_back [OF ops] cbor raw)
  ultimately show ?thesis by (simp add: open_structures_def)
qed

lemma events_read_back: "structures_ok ops \<Longrightarrow> minicbor_ok mc \<Longrightarrow> events_open ops mc (stable_image ops mc sv) = Some (cn_log (sv_canister sv))"
  using storable_type.stored_log [OF minicbor_stored(8), of mc ops] by (simp add: events_open_def image_regions)

lemma snapshot_cell_read_back: "structures_ok ops \<Longrightarrow> snapshot_cell_open ops (stable_image ops mc sv) = Some (sv_cell sv)"
  by (simp add: snapshot_cell_open_def image_regions structures_ok_def)

text \<open>A version that starts on the memories of the old one starts as the model of the life cycle says. Of the calls whose answers
  trapped the canister keeps no record, so the memories have none either.\<close>

lemma post_upgrade_on_image:
  assumes "structures_ok ops" "minicbor_ok mc" "sy_calls (sv_system old) = []"
  shows "post_upgrade_on_memory ops mc codec arg counter now (stable_image ops mc old) =
    map_option (\<lambda>sv. sv\<lparr>sv_system := (sv_system sv)\<lparr>sy_lost := []\<rparr>\<rparr>) (main_post_upgrade codec arg counter now old)"
proof (cases "sv_cell old = []")
  case True
  then show ?thesis
    using structures_read_back [OF assms(1,2), of old]
    by (simp add: post_upgrade_on_memory_def main_post_upgrade_def snapshot_cell_read_back [OF assms(1)] snapshot_load_def ensure_def Let_def)
next
  case False
  then show ?thesis
    using structures_read_back [OF assms(1,2), of old] assms(3)
    by (cases "sc_decode codec (sv_cell old)")
       (simp_all add: post_upgrade_on_memory_def main_post_upgrade_def snapshot_cell_read_back [OF assms(1)] snapshot_load_def ensure_def Let_def
          events_read_back [OF assms(1,2)] set_canister_def setup_timers_def canlog_def split: Option.bind_split)
qed

lemma stable_map_fresh: "structures_ok ops \<Longrightarrow> stable_map_init ops K V (fresh_memory ops) = Some []"
  by (simp add: stable_map_init_def structures_ok_def)

text \<open>A first install on fresh memories is the start of the model.\<close>

lemma init_on_fresh:
  assumes "structures_ok ops"
  shows "init_on_memory ops mc arg now (\<lambda>_. fresh_memory ops) = main_init arg now"
proof -
  have "events_open ops mc (\<lambda>_. fresh_memory ops) = Some []" "snapshot_cell_open ops (\<lambda>_. fresh_memory ops) = Some []"
    using assms by (simp_all add: events_open_def stable_log_init_def snapshot_cell_open_def structures_ok_def)
  then show ?thesis
    by (simp add: init_on_memory_def main_init_def canister_init_def open_structures_def history_open_def balances_open_def registry_open_def
        stable_map_fresh [OF assms] history_new_def user_registry_new_def Let_def split: oisy_trade_arg.split Option.bind_split)
qed

end
