(* ===== verification/State_Equality.thy ===== *)
theory State_Equality
  imports Ownership
begin

text \<open>
  Copies and comparison of states. The stable maps have no \<open>Clone\<close> and no \<open>Eq\<close>, so the sources write both
  by hand for the state and its parts (\<open>history/mod.rs\<close>, \<open>balance/token.rs\<close>, \<open>user/mod.rs\<close>,
  \<open>state/mod.rs\<close>): entry by entry over the iterators, field by field over the state. Whatever is said of a
  replayed or restored state with \<open>==\<close> rests on them. Here it is shown that the comparison is equality and
  that, on every state the canister can reach, a copy is made without a failed assertion and is equal
  to its original. For the rows of the balance map this needs that they are kept in key order.
\<close>

section \<open>Copies\<close>

definition history_clone :: "('k::linorder, 'v) history \<Rightarrow> ('k, 'v) history option" where
  "history_clone h = do {
     primary \<leftarrow> insert_unique (hi_primary h) [];
     by_user \<leftarrow> insert_unique (hi_by_user h) [];
     Some \<lparr>hi_primary = primary, hi_by_user = by_user\<rparr>
   }"

definition insert_entries :: "('k::linorder \<times> 'v) list \<Rightarrow> ('k, 'v) btree_map \<Rightarrow> ('k, 'v) btree_map" where
  "insert_entries es m = fold (\<lambda>(k, v). bt_insert k v) es m"

definition registry_clone :: "user_registry \<Rightarrow> user_registry" where
  "registry_clone r = \<lparr>ur_users = insert_entries (ur_users r) [],
     ur_trading_accounts = insert_entries (ur_trading_accounts r) [],
     ur_by_funding = insert_entries (ur_by_funding r) []\<rparr>"

definition token_balance_clone :: "token_balance \<Rightarrow> token_balance" where
  "token_balance_clone tb = \<lparr>tb_balances = insert_entries (tb_balances tb) [], tb_fee_pool = tb_fee_pool tb\<rparr>"

definition state_clone :: "trade_state \<Rightarrow> trade_state option" where
  "state_clone s = do {
     orders \<leftarrow> history_clone (st_orders s);
     trades \<leftarrow> history_clone (st_trades s);
     Some \<lparr>st_mode = st_mode s, st_policy = st_policy s, st_next_book_id = st_next_book_id s, st_tokens = st_tokens s,
       st_pairs = st_pairs s, st_books = st_books s, st_registry = registry_clone (st_registry s),
       st_balances = token_balance_clone (st_balances s), st_orders = orders, st_trades = trades,
       st_fee_cache = st_fee_cache s, st_settling = st_settling s, st_tasks = st_tasks s, st_in_flight = st_in_flight s,
       st_permissions = st_permissions s\<rparr>
   }"

section \<open>Comparison\<close>

text \<open>\<open>Iterator::eq\<close>: the same elements in the same order, and no more on either side.\<close>

fun iter_eq :: "'a list \<Rightarrow> 'a list \<Rightarrow> bool" where
  "iter_eq [] [] = True"
| "iter_eq (x # xs) (y # ys) = (x = y \<and> iter_eq xs ys)"
| "iter_eq _ _ = False"

definition history_eq :: "('k, 'v) history \<Rightarrow> ('k, 'v) history \<Rightarrow> bool" where
  "history_eq h other \<longleftrightarrow> iter_eq (hi_primary h) (hi_primary other) \<and> iter_eq (hi_by_user h) (hi_by_user other)"

definition registry_eq :: "user_registry \<Rightarrow> user_registry \<Rightarrow> bool" where
  "registry_eq r other \<longleftrightarrow> iter_eq (ur_users r) (ur_users other) \<and>
     iter_eq (ur_trading_accounts r) (ur_trading_accounts other) \<and>
     iter_eq (ur_by_funding r) (ur_by_funding other)"

definition token_balance_eq :: "token_balance \<Rightarrow> token_balance \<Rightarrow> bool" where
  "token_balance_eq tb other \<longleftrightarrow> iter_eq (tb_balances tb) (tb_balances other) \<and> tb_fee_pool tb = tb_fee_pool other"

definition state_eq :: "trade_state \<Rightarrow> trade_state \<Rightarrow> bool" where
  "state_eq s other \<longleftrightarrow> st_mode s = st_mode other \<and> st_policy s = st_policy other \<and>
     st_next_book_id s = st_next_book_id other \<and> st_tokens s = st_tokens other \<and> st_pairs s = st_pairs other \<and>
     st_books s = st_books other \<and> registry_eq (st_registry s) (st_registry other) \<and>
     token_balance_eq (st_balances s) (st_balances other) \<and> st_tasks s = st_tasks other \<and>
     st_fee_cache s = st_fee_cache other \<and> history_eq (st_orders s) (st_orders other) \<and>
     history_eq (st_trades s) (st_trades other) \<and> st_settling s = st_settling other \<and>
     st_in_flight s = st_in_flight other \<and> st_permissions s = st_permissions other"

lemma iter_eq_iff [simp]: "iter_eq xs ys \<longleftrightarrow> xs = ys"
  by (induction xs ys rule: iter_eq.induct) auto

lemma state_eq_iff: "state_eq s other \<longleftrightarrow> s = other"
proof
  assume "state_eq s other"
  then show "s = other"
    by (intro trade_state.equality)
       (auto simp: state_eq_def registry_eq_def token_balance_eq_def history_eq_def
          intro: user_registry.equality token_balance.equality history.equality)
qed (simp add: state_eq_def registry_eq_def token_balance_eq_def history_eq_def)

lemma insert_entries_all: "bt_ok (m @ es) \<Longrightarrow> insert_entries es m = m @ es"
proof (induction es arbitrary: m)
  case (Cons e es)
  obtain k v where e: "e = (k, v)" by (cases e)
  have "bt_insert k v m = m @ [(k, v)]"
    using Cons.prems by (auto simp: e bt_ok_append bt_keys_def bt_insert_snoc)
  then show ?case using Cons by (simp add: insert_entries_def e)
qed (simp add: insert_entries_def)

lemmas insert_entries_Nil = insert_entries_all [of "[]", unfolded append_Nil]
lemmas insert_unique_Nil = insert_unique_all [of "[]", unfolded append_Nil]

lemma history_clone_eq: "history_ok h \<Longrightarrow> history_clone h = Some h"
  by (simp add: history_clone_def history_ok_def insert_unique_Nil)

lemma registry_clone_eq: "registry_ok r \<Longrightarrow> registry_clone r = r"
  by (simp add: registry_clone_def registry_ok_def users_ok_def grants_ok_def insert_entries_Nil)

lemma token_balance_clone_eq: "bt_ok (tb_balances tb) \<Longrightarrow> token_balance_clone tb = tb"
  by (simp add: token_balance_clone_def insert_entries_Nil)

lemma state_clone_eq:
  assumes "history_ok (st_orders s)" "history_ok (st_trades s)" "registry_ok (st_registry s)" "bt_ok (tb_balances (st_balances s))"
  shows "state_clone s = Some s"
  using assms by (simp add: state_clone_def history_clone_eq registry_clone_eq token_balance_clone_eq)

section \<open>The rows of the balance map stay in key order\<close>

definition rows_sorted :: "trade_state \<Rightarrow> bool" where
  "rows_sorted s \<longleftrightarrow> bt_ok (tb_balances (st_balances s))"

lemma wb_flush_sorted: "bt_ok (wb_balances wb) \<Longrightarrow> bt_ok (wb_flush wb)"
proof -
  have "bt_ok m \<Longrightarrow> bt_ok (fold flush_row rows m)" for rows m
    by (induction rows arbitrary: m) (simp_all add: flush_row_def)
  then show "bt_ok (wb_balances wb) \<Longrightarrow> bt_ok (wb_flush wb)" by (simp add: wb_flush_def)
qed

lemma with_write_back_sorted:
  assumes "with_write_back ops tb = Some (r, tb')" "bt_ok (tb_balances tb)"
    and "\<And>wb r wb'. ops wb = Some (r, wb') \<Longrightarrow> wb_balances wb' = wb_balances wb"
  shows "bt_ok (tb_balances tb')"
proof -
  obtain wb where wb: "ops (write_back_new (tb_balances tb) (tb_fee_pool tb)) = Some (r, wb)" "tb_balances tb' = wb_flush wb"
    using assms(1) by (auto simp: with_write_back_def trap_simps)
  then show ?thesis using wb_flush_sorted assms(2) assms(3) [OF wb(1)] by (simp add: write_back_new_def)
qed

lemma try_mutate_rows: "try_mutate key mutate wb = Some (r, wb') \<Longrightarrow> wb_balances wb' = wb_balances wb"
  by (auto simp: try_mutate_eq wb_put_def split: option.splits sum.splits)

lemma apply_operation_rows: "apply_operation pair resolved op wb = Some wb' \<Longrightarrow> wb_balances wb' = wb_balances wb"
  by (cases op)
     (auto simp: apply_operation_def wb_transfer_def wb_unreserve_def load_existing_Some load_or_create_Some wb_put_def
       Let_def trap_simps split: if_splits)

lemma apply_operations_rows: "apply_operations pair resolved ops wb = Some wb' \<Longrightarrow> wb_balances wb' = wb_balances wb"
  by (induction ops arbitrary: wb) (auto simp: trap_simps dest: apply_operation_rows)

lemma sorted_tb:
  "tb_deposit u t a tb = Some tb' \<Longrightarrow> bt_ok (tb_balances tb) \<Longrightarrow> bt_ok (tb_balances tb')"
  "tb_withdraw u t a tb = Some (r, tb') \<Longrightarrow> bt_ok (tb_balances tb) \<Longrightarrow> bt_ok (tb_balances tb')"
  "tb_reserve u t a tb = Some (r, tb') \<Longrightarrow> bt_ok (tb_balances tb) \<Longrightarrow> bt_ok (tb_balances tb')"
  by (auto simp: tb_deposit_def tb_withdraw_def tb_reserve_def wb_deposit_def wb_withdraw_def wb_reserve_def load_or_create_Some wb_put_def trap_simps
      dest: try_mutate_rows elim!: with_write_back_sorted)

lemma sorted_transition:
  assumes "apply_state_transition payload now Write s = Some s'" "rows_sorted s"
  shows "rows_sorted s'"
proof (cases payload)
  case (Ev_AddLimitOrder ev)
  then show ?thesis using assms
    by (auto simp: apply_state_transition_def record_limit_order_def reserve_and_record_def rows_sorted_def Let_def trap_simps
        dest: sorted_tb(3) split: prod.splits)
next
  case (Ev_AddTradingPair ev)
  then show ?thesis using assms
    by (auto simp: apply_state_transition_def record_trading_pair_def record_token_def rows_sorted_def Let_def trap_simps split: option.splits)
next
  case (Ev_Deposit ev)
  then show ?thesis using assms
    by (auto simp: apply_state_transition_def st_deposit_def rows_sorted_def trap_simps dest: sorted_tb(1) split: prod.splits)
next
  case (Ev_Withdraw ev)
  then show ?thesis using assms
    by (auto simp: apply_state_transition_def st_withdraw_def rows_sorted_def trap_simps dest: sorted_tb(2) split: option.splits)
next
  case (Ev_Settling ev)
  then obtain pair resolved where "with_write_back (\<lambda>wb. do { wb' \<leftarrow> apply_operations pair resolved (se_operations ev) wb; Some ((), wb') })
      (st_balances s) = Some ((), st_balances s')"
    using assms(1) by (auto simp: apply_state_transition_def record_settling_event_def trap_simps)
  from with_write_back_sorted [OF this] show ?thesis
    using assms(2) by (auto simp: rows_sorted_def trap_simps dest: apply_operations_rows)
next
  case (Ev_Upgrade arg)
  then show ?thesis using assms
    by (auto simp: apply_state_transition_def apply_upgrade_def rows_sorted_def Let_def trap_simps split: option.splits if_splits)
qed (use assms in \<open>auto simp: apply_state_transition_def rows_sorted_def record_cancel_limit_order_def record_matching_event_def
      st_record_add_trading_account_def st_record_remove_trading_account_def Let_def trap_simps split: option.splits if_splits prod.splits\<close>)

lemma event_run_sorted: "event_run pc c c' \<Longrightarrow> rows_sorted (cn_state c) \<Longrightarrow> rows_sorted (cn_state c')"
proof (induction rule: event_run.induct)
  case (run_event c c1 payload now c2)
  then show ?case by (auto simp: process_event_Some intro: sorted_transition)
next
  case (run_settle c c1 xs ev ys now c2)
  let ?s = "(cn_state c1)\<lparr>st_settling := xs @ ys\<rparr>"
  have "rows_sorted ?s" using run_settle by (simp add: rows_sorted_def)
  moreover have "apply_state_transition (Ev_Settling ev) now Write ?s = Some (cn_state c2)"
    using run_settle.hyps(3) by (auto simp: process_event_Some)
  ultimately show ?case using sorted_transition by blast
qed (simp_all add: rows_sorted_def)

lemma rows_sorted_frame [simp]:
  "rows_sorted (user_op_guard_drop p t s) = rows_sorted s" "rows_sorted (s\<lparr>st_in_flight := x\<rparr>) = rows_sorted s"
  "rows_sorted (set_cached_ledger_fee t f s) = rows_sorted s"
  by (simp_all add: rows_sorted_def user_op_guard_drop_def set_cached_ledger_fee_def)

lemma sys_change_sorted:
  assumes "sys_change pc y y'" "rows_sorted (cn_state (sy_canister y))"
  shows "rows_sorted (cn_state (sy_canister y'))"
  using assms(1)
proof cases
  case (change_run c)
  then show ?thesis using event_run_sorted assms(2) by auto
next
  case (change_open_withdraw p t s a s' f)
  then have "rows_sorted s'"
    using assms(2) by (auto simp: st_withdraw_def rows_sorted_def trap_simps dest: sorted_tb(2) split: option.splits)
  then show ?thesis using change_open_withdraw(1) by simp
next
  case (change_deposited p t a now c)
  then have "rows_sorted (cn_state c)" using assms(2) by (auto simp: process_event_Some intro: sorted_transition)
  then show ?thesis using change_deposited(1) by simp
next
  case (change_refunded p t a f s s0 f' s')
  have "rows_sorted s0" using change_refunded(3,4) assms(2) by auto
  then have "rows_sorted s'"
    using change_refunded(5) by (auto simp: st_deposit_def rows_sorted_def trap_simps dest: sorted_tb(1) split: prod.splits)
  then show ?thesis using change_refunded(1) by simp
qed (use assms(2) in \<open>auto simp: record_event_def\<close>)

lemma reachable_sorted:
  assumes "reachable pc big arg y" "length (cn_log (sy_canister y)) \<le> 2 ^ 64"
  shows "rows_sorted (cn_state (sy_canister y))"
  using assms
proof (induction rule: reachable.induct)
  case (reach_init now c)
  then show ?case by (auto simp: canister_init_def state_new_def rows_sorted_def trap_simps split: oisy_trade_arg.splits sum.splits)
next
  case (reach_step y y')
  have len: "length (cn_log (sy_canister y)) \<le> 2 ^ 64" using sys_step_log [OF reach_step.hyps(2)] reach_step.prems by linarith
  have "sys_change pc y y'"
    by (rule sys_inv_step(2) [OF sys_inv_reachable [OF reach_step.hyps(1) len] reach_step.hyps(2) reach_step.prems])
  then show ?case using sys_change_sorted reach_step.IH [OF len] by blast
qed

end
