(* ===== verification/Storage_Properties.thy ===== *)
theory Storage_Properties
  imports Service_Properties Exchange_Properties Stable_Memory State_Equality
begin

text \<open>
  Results on what survives the canister's heap: an upgrade through the memories, the keys of the stored maps, and
  the comparison of states.
\<close>

section \<open>Upgrades\<close>

lemma pre_upgrade_fields:
  "sv_system (main_pre_upgrade codec counter now sv) = sv_system sv"
  "sv_canister (main_pre_upgrade codec counter now sv) = sv_canister sv"
  "sv_cell (main_pre_upgrade codec counter now sv) = sc_encode codec (from_state (cn_state (sv_canister sv)))"
  by (simp_all add: main_pre_upgrade_def snapshot_save_def canlog_def sv_canister_def Let_def)

lemma post_upgrade_restores:
  assumes "reachable pc big arg (sv_system sv)" "length (cn_log (sv_canister sv)) \<le> 2 ^ 64" "sy_calls (sv_system sv) = []"
    and codec: "codec_ok codec"
  shows "\<exists>sv'. main_post_upgrade codec None counter' later (main_pre_upgrade codec counter now sv) = Some sv' \<and>
    sv_system sv' = sv_system sv \<and> sv_cell sv' = [] \<and> sv_interval sv' \<and> sv_timers sv' = 0"
proof -
  let ?s = "cn_state (sv_canister sv)"
  have load: "sc_encode codec (from_state ?s) \<noteq> []" "sc_decode codec (sc_encode codec (from_state ?s)) = Some (from_state ?s)"
    using codec by (simp_all add: codec_ok_def)
  have "post_upgrade None later (from_state ?s) (st_orders ?s) (st_trades ?s) (tb_balances (st_balances ?s)) (st_registry ?s)
      (cn_log (sv_canister sv)) = Some (sv_canister sv)"
    unfolding sv_canister_def
    by (rule upgrade_is_identity [OF assms(1)]) (use assms(2,3) in \<open>simp_all add: sv_canister_def\<close>)
  then show ?thesis
    using load
    by (simp add: main_post_upgrade_def snapshot_load_def pre_upgrade_fields Let_def set_canister_def canlog_def setup_timers_def)
       (simp add: sv_canister_def)
qed

text \<open>C16. An upgrade through stable memory loses nothing: with no ledger call open, the new version, which has only the memories the
  old one left behind, opens every structure on the memory it was written to, reads every key and value
  back from its stored form, restores the snapshot, and runs on with the very same state, event log and
  pending settlement, its timer set; only the list of trapped answers, which no canister keeps, is not there. The snapshot is used once: a version that starts again without a new
  one traps instead of restoring a stale state.\<close>

theorem upgrade_through_memory:
  assumes "reachable pc big arg (sv_system sv)" "length (cn_log (sv_canister sv)) \<le> 2 ^ 64" "sy_calls (sv_system sv) = []"
    and "codec_ok codec" "structures_ok ops" "minicbor_ok mc"
  shows "\<exists>sv'. post_upgrade_on_memory ops mc codec None counter' later (stable_image ops mc (main_pre_upgrade codec counter now sv)) = Some sv' \<and>
    sv_system sv' = (sv_system sv)\<lparr>sy_lost := []\<rparr> \<and> sv_interval sv' \<and>
    post_upgrade_on_memory ops mc codec arg' counter'' after_that (stable_image ops mc sv') = None"
proof -
  obtain sv' where sv': "main_post_upgrade codec None counter' later (main_pre_upgrade codec counter now sv) = Some sv'"
      "sv_system sv' = sv_system sv" "sv_cell sv' = []" "sv_interval sv'"
    using post_upgrade_restores [OF assms(1-4)] by blast
  let ?new = "sv'\<lparr>sv_system := (sv_system sv')\<lparr>sy_lost := []\<rparr>\<rparr>"
  have "post_upgrade_on_memory ops mc codec arg' counter'' after_that (stable_image ops mc ?new) = None"
    using assms(3) sv'(2,3) by (subst post_upgrade_on_image [OF assms(5,6)]) (simp_all add: main_post_upgrade_def snapshot_load_def Let_def)
  moreover have "post_upgrade_on_memory ops mc codec None counter' later (stable_image ops mc (main_pre_upgrade codec counter now sv)) = Some ?new"
    using assms(3) sv'(1) by (subst post_upgrade_on_image [OF assms(5,6)]) (simp_all add: pre_upgrade_fields)
  ultimately show ?thesis using sv'(2,4) by (intro exI [of _ ?new]) simp
qed

text \<open>A byte that can be any stored value, and the encoders to it.\<close>

datatype ex_byte =
    B_Order "insertion_seq \<times> order_record" | B_Trade "insertion_seq \<times> trade_record" | B_Balance balance | B_Key balance_key
  | B_Principal principal | B_Grant trading_grant | B_List trading_account_list | B_Event event | B_Snapshot state_snapshot

definition ex_cbor :: "('a \<Rightarrow> ex_byte) \<Rightarrow> (ex_byte \<Rightarrow> 'a option) \<Rightarrow> ('a, ex_byte) cbor_codec" where
  "ex_cbor wrap unwrap = \<lparr>cb_encode = (\<lambda>x. [wrap x]), cb_decode = (\<lambda>bs. case bs of [b] \<Rightarrow> unwrap b | _ \<Rightarrow> None)\<rparr>"

definition ex_minicbor :: "ex_byte minicbor" where
  "ex_minicbor = \<lparr>mc_order_record = ex_cbor B_Order (\<lambda>b. case b of B_Order x \<Rightarrow> Some x | _ \<Rightarrow> None),
     mc_trade_record = ex_cbor B_Trade (\<lambda>b. case b of B_Trade x \<Rightarrow> Some x | _ \<Rightarrow> None),
     mc_balance = ex_cbor B_Balance (\<lambda>b. case b of B_Balance x \<Rightarrow> Some x | _ \<Rightarrow> None),
     mc_balance_key = ex_cbor B_Key (\<lambda>b. case b of B_Key x \<Rightarrow> Some x | _ \<Rightarrow> None),
     mc_principal_key = ex_cbor B_Principal (\<lambda>b. case b of B_Principal x \<Rightarrow> Some x | _ \<Rightarrow> None),
     mc_trading_grant = ex_cbor B_Grant (\<lambda>b. case b of B_Grant x \<Rightarrow> Some x | _ \<Rightarrow> None),
     mc_trading_account_list = ex_cbor B_List (\<lambda>b. case b of B_List x \<Rightarrow> Some x | _ \<Rightarrow> None),
     mc_event = ex_cbor B_Event (\<lambda>b. case b of B_Event x \<Rightarrow> Some x | _ \<Rightarrow> None)\<rparr>"

text \<open>Memories as the structures they hold, the log with its length in the index memory.\<close>

datatype 'b ex_region =
    Fresh | MapRegion "('b stored \<times> 'b stored) list" | LogIndex nat | LogData "'b stored list" | CellRegion "'b list"

definition ex_structures :: "('b, 'b ex_region) stable_structures" where
  "ex_structures = \<lparr>fresh_memory = Fresh, map_memory = MapRegion,
     map_entries = (\<lambda>r. case r of Fresh \<Rightarrow> Some [] | MapRegion es \<Rightarrow> Some es | _ \<Rightarrow> None),
     log_memories = (\<lambda>es. (LogIndex (length es), LogData es)),
     log_entries = (\<lambda>index data. case (index, data) of (Fresh, Fresh) \<Rightarrow> Some [] | (LogIndex n, LogData es) \<Rightarrow> Some (take n es) | _ \<Rightarrow> None),
     cell_memory = CellRegion, cell_bytes = (\<lambda>r. case r of Fresh \<Rightarrow> Some [] | CellRegion bytes \<Rightarrow> Some bytes | _ \<Rightarrow> None)\<rparr>"

definition ex_snapshot_bytes :: "ex_byte snapshot_codec" where
  "ex_snapshot_bytes = \<lparr>sc_encode = (\<lambda>sn. [B_Snapshot sn]),
     sc_decode = (\<lambda>bs. case bs of [B_Snapshot sn] \<Rightarrow> Some sn | _ \<Rightarrow> None)\<rparr>"

definition ex_stored :: "ex_byte service" where
  "ex_stored = \<lparr>sv_system = ex_exchange, sv_entries = [], sv_timers = 0, sv_interval = True, sv_cell = []\<rparr>"

lemma ex_codecs_ok: "minicbor_ok ex_minicbor" "codec_ok ex_snapshot_bytes" "structures_ok ex_structures"
  by (simp_all add: structures_ok_def ex_structures_def minicbor_ok_def ex_minicbor_def ex_cbor_def cbor_ok_def codec_ok_def ex_snapshot_bytes_def)

theorem upgrade_through_memory_witness:
  "\<exists>sv'. post_upgrade_on_memory ex_structures ex_minicbor ex_snapshot_bytes None (\<lambda>_. 0) 9
      (stable_image ex_structures ex_minicbor (main_pre_upgrade ex_snapshot_bytes (\<lambda>_. 0) 8 ex_stored)) = Some sv' \<and>
    cn_state (sv_canister sv') = ex_traded \<and>
    post_upgrade_on_memory ex_structures ex_minicbor ex_snapshot_bytes None (\<lambda>_. 0) 10 (stable_image ex_structures ex_minicbor sv') = None"
proof -
  have sv: "sv_system ex_stored = ex_exchange" "sv_canister ex_stored = sy_canister ex_exchange" "sy_calls ex_exchange = []"
    "cn_state (sy_canister ex_exchange) = ex_traded"
    by (simp_all add: ex_stored_def sv_canister_def ex_exchange_def)
  have "length (cn_log (sv_canister ex_stored)) \<le> 2 ^ 64" using ex_exchange_log sv(2) by simp
  then obtain sv' where "post_upgrade_on_memory ex_structures ex_minicbor ex_snapshot_bytes None (\<lambda>_. 0) 9
      (stable_image ex_structures ex_minicbor (main_pre_upgrade ex_snapshot_bytes (\<lambda>_. 0) 8 ex_stored)) = Some sv'"
      "sv_system sv' = (sv_system ex_stored)\<lparr>sy_lost := []\<rparr>"
      "post_upgrade_on_memory ex_structures ex_minicbor ex_snapshot_bytes None (\<lambda>_. 0) 10 (stable_image ex_structures ex_minicbor sv') = None"
    using upgrade_through_memory [of ex_consts ex_biguint ex_init ex_stored ex_snapshot_bytes ex_structures ex_minicbor "\<lambda>_. 0" 9 "\<lambda>_. 0" 8 None "\<lambda>_. 0" 10]
      ex_exchange_reached sv(1,3) ex_codecs_ok by auto
  then show ?thesis using sv by (auto simp: sv_canister_def)
qed

section \<open>Identifiers\<close>

text \<open>C32. Identifiers: the text form of an order or trade identifier parses back to it, and a string parses to an identifier
  only if it is exactly that identifier's text form, so no two strings name one identifier. The byte form,
  the key in stable memory, is read back as the key it was, has a fixed width, and compares byte by byte as
  the keys do, so that a range of keys is a range of bytes. A key of the per-user index is a pair of sequence
  numbers as an order identifier is, so the same holds of it.\<close>

theorem id_forms_faithful:
  "(order_id_parse s = Inr i \<longleftrightarrow> s = order_id_to_string i) \<and>
   (trade_id_parse s = Inr t \<longleftrightarrow> s = trade_id_to_string t) \<and>
   length (order_id_to_string i) = 32 \<and> length (trade_id_to_string t) = 48 \<and>
   composite_from_bytes seq_id seq_id (composite_to_bytes seq_id seq_id i) = Some i \<and>
   composite_from_bytes order_id_fw seq_id (composite_to_bytes order_id_fw seq_id t) = Some t \<and>
   length (composite_to_bytes seq_id seq_id i) = 16 \<and> length (composite_to_bytes order_id_fw seq_id t) = 24 \<and>
   (composite_to_bytes seq_id seq_id i < composite_to_bytes seq_id seq_id j \<longleftrightarrow> i < j) \<and>
   (composite_to_bytes order_id_fw seq_id t < composite_to_bytes order_id_fw seq_id u \<longleftrightarrow> t < u)"
proof -
  have w: "fw_width order_id_fw = 16" by (simp add: order_id_fw_def composite_id_def seq_id_def)
  moreover from this have "fw_width trade_id_fw = 24" by (simp add: trade_id_fw_def composite_id_def seq_id_def)
  moreover have "composite_to_bytes seq_id seq_id = fw_write_be order_id_fw" "composite_to_bytes order_id_fw seq_id = fw_write_be trade_id_fw"
    by (simp_all add: fun_eq_iff composite_to_bytes_def order_id_fw_def trade_id_fw_def)
  ultimately show ?thesis
    using seq_seq.composite_bytes [of i] order_seq.composite_bytes [of t]
    by (simp add: order_id_parse_def order_id_to_string_def trade_id_parse_def trade_id_to_string_def
        order_id.parse_iff trade_id.parse_iff order_id.hex_length trade_id.hex_length order_id.be_length trade_id.be_length
        ordered_order_id.be_less ordered_trade_id.be_less)
qed

section \<open>Comparing states\<close>

text \<open>The comparison of states is exact: two states compare equal, field by field and entry by entry, only if they are the same
  state, so a replayed or restored state that compares equal differs in nothing; and in every state the
  canister can reach, copying it runs into no failed assertion and gives a state that compares equal.\<close>

theorem state_comparison_exact:
  assumes "reachable pc big arg y" "length (cn_log (sy_canister y)) < 2 ^ 62"
    "\<And>t. deposited t (cn_log (sy_canister y)) \<le> K" "K < 2 ^ 192"
  shows "(\<exists>copy. state_clone (cn_state (sy_canister y)) = Some copy \<and> state_eq copy (cn_state (sy_canister y))) \<and>
    (state_eq (cn_state (sy_canister y)) other \<longleftrightarrow> other = cn_state (sy_canister y))"
proof -
  have "settled_view K (cn_state (sy_canister y))" by (rule reachable_view [OF assms])
  moreover have "rows_sorted (cn_state (sy_canister y))" by (rule reachable_sorted [OF assms(1)]) (use assms(2) in simp)
  ultimately have "state_clone (cn_state (sy_canister y)) = Some (cn_state (sy_canister y))"
    by (intro state_clone_eq) (simp_all add: settled_view_def records_ok_def trades_ok_def rows_sorted_def)
  then show ?thesis by (auto simp: state_eq_iff)
qed

end
