(* ===== verification/Spec2Isabelle.thy ===== *)
theory Spec2Isabelle
  imports Book_Properties Number_Properties Balance_Properties History_Properties Settlement_Properties
    System_Properties Exchange_Properties Service_Properties Storage_Properties
begin

text \<open>
  Verification of the OISY TRADE canister, a central limit order book exchange on the Internet
  Computer (\<open>src/canister\<close>), with its public types (\<open>src/libs/types\<close>, \<open>src/libs/types-internal\<close>) and
  its client library (\<open>src/libs/client\<close>).

  \<^bold>\<open>The program.\<close> Users deposit tokens of ICRC ledgers, place limit orders on trading pairs, and
  withdraw. An order is validated and enqueued by the message that places it, with the amount it
  may cost reserved; a timer matches the pending orders of every book in chunks, under a budget of
  instructions; matching a chunk emits settling events, which move reserved amounts between users, withhold
  fees, and record trades. Every change of the state is an event: it is applied and appended to a log, from
  which the heap can be rebuilt. The histories, the balances and the user registry live in stable
  memory; the books, tokens, pairs and permissions live in the heap and go through a snapshot at an upgrade.

  \<^bold>\<open>How the code is modelled.\<close> Machine integers are words of their width, and the checked, wrapping and
  saturating operations of Rust are defined on them; a 256-bit \<open>Quantity\<close> is its two limbs. A
  function that may panic or trap returns an option, and \<open>None\<close> is the trap: the message is then rolled back and
  changes nothing. \<open>Result\<close> is a sum type with the error on the left. \<open>BTreeMap\<close> and the stable maps of
  ic-stable-structures are ordered maps, sorted association lists; the pair map is one of them with
  distinct books. State is passed explicitly. Permits, which the code uses as proof tokens of a check, are
  unit values. Code outside the repository is a parameter: the size and bytes of big integers
  (\<open>biguint_ops\<close>), the two reserved principals (\<open>principal_consts\<close>), the texts of principals, naturals and ledger errors
  (\<open>text_ops\<close>), the encoders of snapshots and of stored values (\<open>snapshot_codec\<close>, \<open>minicbor\<close>), the layout of a map, a log and a
  cell in its memory (\<open>stable_structures\<close>), the transport of a call, parsing, sorting and rendering behind the HTTP
  endpoint (\<open>http_ops\<close>), the answers of ledgers, the caller, the time and the instruction counter of each message.

  \<^bold>\<open>Numbers and identifiers.\<close> \<open>Prelude\<close> has the integers, the trap combinators and the collections of lemmas
  shared by all; \<open>BTree_Map\<close> the ordered maps, with their laws as a locale; \<open>Quantity\<close> and \<open>Codec\<close> the 256-bit arithmetic, prices and
  their byte, CBOR and Candid forms (\<open>order/mod.rs\<close>, \<open>cbor/mod.rs\<close>); \<open>Ids\<close> the sequence
  numbers and fixed-width identifiers (\<open>ids/mod.rs\<close>); \<open>Fees\<close> the basis points (\<open>order/fees.rs\<close>). \<open>Number_Properties\<close>: all
  operations are those of natural numbers, with \<open>None\<close> exactly where the result does not fit;
  amounts of trades are exact, fees are ceilings; every wire and text form is read back.

  \<^bold>\<open>The order book.\<close> \<open>Order_Types\<close>, \<open>Order_Queue\<close>, \<open>Fill_Plan\<close> and \<open>Order_Book\<close> model \<open>order/mod.rs\<close>, \<open>order/queue/mod.rs\<close>,
  \<open>order/plan.rs\<close> and \<open>order/book.rs\<close>: record \<open>order_book\<close> is the struct, one function per method.
  \<open>Book_Matching\<close> states the reference, a list of makers in price-time priority from which liquidity is taken;
  \<open>Book_Invariant\<close> and \<open>Book_Operations\<close> show that matching implements it and that every operation keeps
  \<open>book_ok\<close> and does not trap; \<open>Book_Accounting\<close> that matching conserves whatever additive value is put on orders. \<open>Book_Properties\<close>
  has the results.

  \<^bold>\<open>Balances, histories, settlement.\<close> \<open>Balance\<close> models \<open>balance/*.rs\<close> with the write-back buffer and the fee pool; \<open>Balance_Properties\<close> the interface
  the state relies on and that the buffer is transparent. \<open>History\<close> and \<open>Order_History\<close> model the store with a per-user index
  (\<open>history/mod.rs\<close>, \<open>order/history/mod.rs\<close>, \<open>order/trades/mod.rs\<close>); \<open>History_Properties\<close> that pages walk a user's list.
  \<open>Settlement\<close> models \<open>settlement/mod.rs\<close>: fees and balance operations of fills, packing into
  bounded batches; \<open>Settlement_Properties\<close> that the amounts are exact and no unit is split.

  \<^bold>\<open>The state and its events.\<close> \<open>Access\<close>, \<open>User_Registry\<close>, \<open>Trade_State\<close>, \<open>Audit_Log\<close>, \<open>Executor\<close>, \<open>Snapshot\<close> and \<open>Api\<close> model
  \<open>state/*\<close>, \<open>user/mod.rs\<close>, \<open>execute/mod.rs\<close>, \<open>guard/mod.rs\<close>, \<open>lifecycle/mod.rs\<close>, \<open>ledger/mod.rs\<close> and \<open>lib.rs\<close>. Record \<open>trade_state\<close> is the struct
  \<open>State\<close>, record \<open>canister\<close> a state with its log. An endpoint that awaits a ledger is split at the await into a start and a finish.
  The errors of the ledgers have all their variants, and an error that is passed on keeps its text.
  \<open>Heap_Invariant\<close> is what every event keeps of the heap.

  \<^bold>\<open>The canister as a state machine.\<close> \<open>System\<close> has one step per message, in any order, with the open ledger calls as part
  of the state (\<open>sys_step\<close>, \<open>reachable\<close>); an upgrade needs that no call is open, as the management
  canister stops the canister first. When the code after an await traps, the message is rolled back and its guard is dropped: the
  call is closed with nothing booked, and a ghost list of the system (\<open>sy_lost\<close>) remembers it. \<open>System_Invariants\<close> shows that every step
  conserves tokens and keeps accounts apart, \<open>System_Properties\<close> that replaying the log rebuilds the state. \<open>Reservations\<close>, \<open>Exchange_Invariant\<close>, \<open>Exchange_Matching\<close>, \<open>Exchange_Orders\<close> and \<open>Exchange_System\<close>
  carry the invariant that ties books, records, settlement queue and balances together: reserved
  balances are exactly what open orders and queued operations need. \<open>Exchange_Liveness\<close> and \<open>Exchange_Messages\<close> draw the consequences,
  stated in \<open>Exchange_Properties\<close>: no message of a user traps, a request is placed as it was made, answers of ledgers are credited,
  refunded and logged to the unit, orders can always be canceled, matching terminates and completes. \<open>Refusals\<close> gives every error of placing and
  canceling, and \<open>Listing\<close> every error of listing a pair, the condition under which it is true, and shows that the canister refuses exactly then. \<open>Exchange_Examples\<close> reaches a concrete canister, at which the properties are applied.

  \<^bold>\<open>Queries and the public interface.\<close> \<open>Text\<close>, \<open>Public_Types\<close>, \<open>Public_Errors\<close> and \<open>Event_Export\<close> model the public data, the error envelope
  with its leaves and messages, and the export of the event log (\<open>libs/types\<close>, \<open>libs/types-internal\<close>, \<open>storage/mod.rs\<close>, the
  conversions of \<open>state/mod.rs\<close> and \<open>main.rs\<close>). The locale \<open>error_envelope\<close> is the contract that the errors of
  all endpoints share. \<open>Dashboard\<close> models \<open>dashboard/mod.rs\<close> and \<open>metrics/mod.rs\<close>; \<open>Market_Data\<close> says what depth, ticker and dashboard show of a
  book. \<open>Queries\<close> shows that no query traps, \<open>Ownership\<close> that the indexes under a user hold exactly that user's records.

  \<^bold>\<open>The entry points.\<close> \<open>Endpoints\<close> models \<open>main.rs\<close>: every entry point with its public result, its log entry and the timers it
  sets, the life cycle with the snapshot cell, and the HTTP endpoint; record \<open>service\<close> is the system with log, timers and cell.
  \<open>Service\<close> shows that the service refines the state machine and that work never waits without a timer. \<open>Client\<close> models every method of
  the client library over a transport that may reject a call or time out; what its two lookups need of the canister's queries is the locale
  \<open>lookup_queries\<close>, interpreted by the entry points, and what they need of the transport is \<open>relays_queries\<close>: a call fails or brings the reply of the
  entry point. \<open>Service_Properties\<close> has the results.

  \<^bold>\<open>Stable memory.\<close> \<open>Key_Bytes\<close> models the keys of the stored maps (\<open>ids/mod.rs\<close>, \<open>history/mod.rs\<close>): locale \<open>ordered_width_id\<close> adds to the
  fixed width that bytes compare as keys do, and pairs inherit it by a sublocale. \<open>Stable_Memory\<close> models \<open>storage/mod.rs\<close>, the \<open>Storable\<close> instances
  and the opening of every structure on its memory (\<open>lifecycle/mod.rs\<close>): eleven memories by id, the contract of a stored map as a locale interpreted by each of them,
  and \<open>init\<close> and \<open>post_upgrade\<close> over the memories alone. That the third-party structures read back what was written is the
  hypothesis \<open>structures_ok\<close>, that encoded values decode is \<open>minicbor_ok\<close>; that no two structures share a memory and that each is
  opened where it was written is proved. \<open>State_Equality\<close> models how the test build copies and compares states. \<open>Storage_Properties\<close>: an upgrade restores the canister from its memories,
  identifiers have faithful text and byte forms, comparison of states is equality.

  \<^bold>\<open>Bounds.\<close> Sequence numbers are 64-bit and the log is the bound on how many are used: the theorems on all
  reachable states ask for a log of at most \<open>2 ^ 64\<close> events, those that also need every counter of a history to be free of
  wrap-around for one below \<open>2 ^ 62\<close>. That no sum of balances overflows 256 bits needs a bound on what was ever
  deposited of one token: \<open>K < 2 ^ 192\<close>, with prices of 128 bits. For the answers of ledgers it is enough that deposits of the token
  stay below \<open>2 ^ 256\<close>; a block index above 64 bits makes the answer to a withdrawal trap, so the indices of the ledger are asked to fit. Listing a pair asks
  for one more 64-bit book identifier. The loop that drains settling events has as
  fuel one more than the length of its queue, which no run uses up; matching and paging recur on lists. The
  instruction counter is a function from the number of the reading to its value; that a run makes progress asks for as many
  readings below the budget as there are books and two more, that it returns asks for nothing. An index of the event log is a
  32-bit \<open>usize\<close>, as in the WebAssembly the canister is compiled to.

  \<^bold>\<open>Not modelled.\<close> The layout inside a stable memory and the item level of CBOR are third-party code, as are the HTML template engine, the
  encoding of Prometheus samples and the ring buffer of the log; the model stops at the data given to
  them. A sample keeps its exact value: the conversion to \<open>f64\<close> is left out. The runtime trait is the
  system API, whose readings are arguments; Candid encoding of arguments and answers is left to the transport. Accessors and conversions between enumerations
  declared twice with the same variants are identities here. Benchmarks, test fixtures and the integration tests are not part
  of the canister.
\<close>

end
